(* ===== verification/Ip_Address.thy ===== *)
theory Ip_Address
  imports Prelude
begin

text \<open>
  What the sources use of the standard module \<^verbatim>\<open>ipaddress\<close> (CPython 3.12, the release the
  images are built from): the two address classes with their parsers, their registry
  properties, the IPv4 address a mapped, 6to4 or Teredo address embeds, and the printing
  of a network address. \<^verbatim>\<open>ValueError\<close> is \<^term>\<open>None\<close>.
\<close>

datatype ip = IPv4 int | IPv6 int "string option"

section \<open>Reading numbers\<close>

definition digit_value :: "char \<Rightarrow> int" where
  "digit_value c =
     (if is_digit c then int (code c) - 48
      else if char_range (CHR ''a'') (CHR ''f'') c then int (code c) - 87
      else int (code c) - 55)"

definition number_of :: "int \<Rightarrow> string \<Rightarrow> int" where
  "number_of radix s = fold (\<lambda>c n. n * radix + digit_value c) s 0"

section \<open>IPv4\<close>

definition parse_octet :: "string \<Rightarrow> int option" where
  "parse_octet s =
     (if s = [] \<or> \<not> list_all is_digit s \<or> length s > 3 \<or> (s \<noteq> ''0'' \<and> hd s = CHR ''0'')
         \<or> number_of 10 s > 255
      then None else Some (number_of 10 s))"

definition ipv4_address :: "string \<Rightarrow> int option" where
  "ipv4_address s =
     (if CHR ''/'' \<in> set s then None
      else case map parse_octet (split_on (CHR ''.'') s) of
        [Some a, Some b, Some c, Some d] \<Rightarrow> Some (((a * 256 + b) * 256 + c) * 256 + d)
      | _ \<Rightarrow> None)"

section \<open>IPv6\<close>

definition parse_hextet :: "string \<Rightarrow> int option" where
  "parse_hextet s = (if s = [] \<or> \<not> list_all is_hex s \<or> length s > 4 then None else Some (number_of 16 s))"

fun parse_hextets :: "int \<Rightarrow> string list \<Rightarrow> int option" where
  "parse_hextets acc [] = Some acc"
| "parse_hextets acc (p # ps) =
     (case parse_hextet p of None \<Rightarrow> None | Some n \<Rightarrow> parse_hextets (acc * 65536 + n) ps)"

definition hex_digit :: "int \<Rightarrow> char" where
  "hex_digit n = (if n < 10 then char_of (nat (48 + n)) else char_of (nat (87 + n)))"

fun hex_of_nat :: "nat \<Rightarrow> string" where
  "hex_of_nat n =
     (if n < 16 then [hex_digit (int n)] else hex_of_nat (n div 16) @ [hex_digit (int (n mod 16))])"

declare hex_of_nat.simps [simp del]

text \<open>A dotted tail is read as IPv4 and replaced by the two hextets it stands for.\<close>

definition expand_dotted_tail :: "string list \<Rightarrow> string list option" where
  "expand_dotted_tail parts =
     (if CHR ''.'' \<in> set (last parts)
      then map_option
             (\<lambda>v. butlast parts @ [hex_of_nat (nat (v div 65536)), hex_of_nat (nat (v mod 65536))])
             (ipv4_address (last parts))
      else Some parts)"

text \<open>The indices of empty parts strictly inside the list: where the double colon is.\<close>

definition inner_empties :: "string list \<Rightarrow> nat list" where
  "inner_empties parts = filter (\<lambda>i. parts ! i = []) [1..<length parts - 1]"

definition ipv6_int :: "string \<Rightarrow> int option" where
  "ipv6_int s =
     (let parts0 = split_on (CHR '':'') s
      in if s = [] \<or> length parts0 < 3 then None
         else case expand_dotted_tail parts0 of None \<Rightarrow> None
         | Some parts \<Rightarrow>
             if length parts > 9 then None
             else (case inner_empties parts of
                 [] \<Rightarrow> if length parts \<noteq> 8 \<or> hd parts = [] \<or> last parts = [] then None
                        else parse_hextets 0 parts
               | [skip] \<Rightarrow>
                   (let hi = (if hd parts = [] then skip - 1 else skip);
                        lo = (if last parts = [] then length parts - skip - 2 else length parts - skip - 1)
                    in if (hd parts = [] \<and> hi \<noteq> 0) \<or> (last parts = [] \<and> lo \<noteq> 0) \<or> hi + lo \<ge> 8 then None
                       else case parse_hextets 0 (take hi parts) of None \<Rightarrow> None
                       | Some n \<Rightarrow> parse_hextets (n * 65536 ^ (8 - (hi + lo))) (drop (length parts - lo) parts))
               | _ \<Rightarrow> None))"

definition ipv6_address :: "string \<Rightarrow> (int \<times> string option) option" where
  "ipv6_address s =
     (if CHR ''/'' \<in> set s then None
      else case partition_on (CHR ''%'') s of
        (addr, sep, scope_id) \<Rightarrow>
          if sep = [] then map_option (\<lambda>n. (n, None)) (ipv6_int addr)
          else if scope_id = [] \<or> CHR ''%'' \<in> set scope_id then None
          else map_option (\<lambda>n. (n, Some scope_id)) (ipv6_int addr))"

definition ip_address :: "string \<Rightarrow> ip option" where
  "ip_address s =
     (case ipv4_address s of Some n \<Rightarrow> Some (IPv4 n)
      | None \<Rightarrow> map_option (\<lambda>(n, sc). IPv6 n sc) (ipv6_address s))"

section \<open>Registry properties\<close>

definition in_net :: "nat \<Rightarrow> int \<times> nat \<Rightarrow> int \<Rightarrow> bool" where
  "in_net width net n \<longleftrightarrow> n div 2 ^ (width - snd net) = fst net div 2 ^ (width - snd net)"

definition v4 :: "int \<Rightarrow> int \<Rightarrow> int \<Rightarrow> int \<Rightarrow> int" where
  "v4 a b c d = ((a * 256 + b) * 256 + c) * 256 + d"

definition v4_private_networks :: "(int \<times> nat) list" where
  "v4_private_networks =
     [(v4 0 0 0 0, 8), (v4 10 0 0 0, 8), (v4 127 0 0 0, 8), (v4 169 254 0 0, 16), (v4 172 16 0 0, 12),
      (v4 192 0 0 0, 24), (v4 192 0 0 170, 31), (v4 192 0 2 0, 24), (v4 192 168 0 0, 16),
      (v4 198 18 0 0, 15), (v4 198 51 100 0, 24), (v4 203 0 113 0, 24), (v4 240 0 0 0, 4),
      (v4 255 255 255 255, 32)]"

definition v4_private_exceptions :: "(int \<times> nat) list" where
  "v4_private_exceptions = [(v4 192 0 0 9, 32), (v4 192 0 0 10, 32)]"

definition v4_is_private :: "int \<Rightarrow> bool" where
  "v4_is_private n \<longleftrightarrow> list_ex (\<lambda>net. in_net 32 net n) v4_private_networks
     \<and> list_all (\<lambda>net. \<not> in_net 32 net n) v4_private_exceptions"

definition v4_is_global :: "int \<Rightarrow> bool" where
  "v4_is_global n \<longleftrightarrow> \<not> in_net 32 (v4 100 64 0 0, 10) n \<and> \<not> v4_is_private n"

definition v4_is_loopback :: "int \<Rightarrow> bool" where
  "v4_is_loopback n \<longleftrightarrow> in_net 32 (v4 127 0 0 0, 8) n"

definition v4_is_link_local :: "int \<Rightarrow> bool" where
  "v4_is_link_local n \<longleftrightarrow> in_net 32 (v4 169 254 0 0, 16) n"

definition v4_is_multicast :: "int \<Rightarrow> bool" where
  "v4_is_multicast n \<longleftrightarrow> in_net 32 (v4 224 0 0 0, 4) n"

definition v4_is_reserved :: "int \<Rightarrow> bool" where
  "v4_is_reserved n \<longleftrightarrow> in_net 32 (v4 240 0 0 0, 4) n"

definition v4_is_unspecified :: "int \<Rightarrow> bool" where
  "v4_is_unspecified n \<longleftrightarrow> n = 0"

text \<open>An IPv6 network is written by its first two hextets and, where needed, the next two.\<close>

definition v6 :: "int \<Rightarrow> int \<Rightarrow> int \<Rightarrow> int \<Rightarrow> int" where
  "v6 a b c d = (((a * 65536 + b) * 65536 + c) * 65536 + d) * 65536 ^ 4"

definition v6_private_networks :: "(int \<times> nat) list" where
  "v6_private_networks =
     [(1, 128), (0, 128), (65535 * 2 ^ 32, 96), (v6 0x64 0xff9b 1 0, 48), (v6 0x100 0 0 0, 64),
      (v6 0x2001 0 0 0, 23), (v6 0x2001 0xdb8 0 0, 32), (v6 0x2002 0 0 0, 16), (v6 0x3fff 0 0 0, 20),
      (v6 0xfc00 0 0 0, 7), (v6 0xfe80 0 0 0, 10)]"

definition v6_private_exceptions :: "(int \<times> nat) list" where
  "v6_private_exceptions =
     [(v6 0x2001 1 0 0 + 1, 128), (v6 0x2001 1 0 0 + 2, 128), (v6 0x2001 3 0 0, 32),
      (v6 0x2001 4 0x112 0, 48), (v6 0x2001 0x20 0 0, 28), (v6 0x2001 0x30 0 0, 28)]"

definition v6_reserved_networks :: "(int \<times> nat) list" where
  "v6_reserved_networks =
     [(0, 8), (v6 0x100 0 0 0, 8), (v6 0x200 0 0 0, 7), (v6 0x400 0 0 0, 6), (v6 0x800 0 0 0, 5),
      (v6 0x1000 0 0 0, 4), (v6 0x4000 0 0 0, 3), (v6 0x6000 0 0 0, 3), (v6 0x8000 0 0 0, 3),
      (v6 0xa000 0 0 0, 3), (v6 0xc000 0 0 0, 3), (v6 0xe000 0 0 0, 4), (v6 0xf000 0 0 0, 5),
      (v6 0xf800 0 0 0, 6), (v6 0xfe00 0 0 0, 9)]"

definition ipv4_mapped :: "int \<Rightarrow> int option" where
  "ipv4_mapped n = (if n div 2 ^ 32 \<noteq> 65535 then None else Some (n mod 2 ^ 32))"

definition sixtofour :: "int \<Rightarrow> int option" where
  "sixtofour n = (if n div 2 ^ 112 \<noteq> 0x2002 then None else Some ((n div 2 ^ 80) mod 2 ^ 32))"

definition teredo :: "int \<Rightarrow> (int \<times> int) option" where
  "teredo n =
     (if n div 2 ^ 96 \<noteq> 0x20010000 then None
      else Some ((n div 2 ^ 64) mod 2 ^ 32, (- n - 1) mod 2 ^ 32))"

text \<open>Every property of a mapped address is that of the IPv4 address it maps.\<close>

definition of_mapped :: "(int \<Rightarrow> bool) \<Rightarrow> (int \<Rightarrow> bool) \<Rightarrow> int \<Rightarrow> bool" where
  "of_mapped p4 p6 n = (case ipv4_mapped n of Some m \<Rightarrow> p4 m | None \<Rightarrow> p6 n)"

definition v6_own_private :: "int \<Rightarrow> bool" where
  "v6_own_private n \<longleftrightarrow> list_ex (\<lambda>net. in_net 128 net n) v6_private_networks
     \<and> list_all (\<lambda>net. \<not> in_net 128 net n) v6_private_exceptions"

fun is_private :: "ip \<Rightarrow> bool" where
  "is_private (IPv4 n) = v4_is_private n"
| "is_private (IPv6 n sc) = of_mapped v4_is_private v6_own_private n"

fun is_global :: "ip \<Rightarrow> bool" where
  "is_global (IPv4 n) = v4_is_global n"
| "is_global (IPv6 n sc) = of_mapped v4_is_global (\<lambda>n. \<not> v6_own_private n) n"

fun is_loopback :: "ip \<Rightarrow> bool" where
  "is_loopback (IPv4 n) = v4_is_loopback n"
| "is_loopback (IPv6 n sc) = of_mapped v4_is_loopback (\<lambda>n. n = 1) n"

fun is_link_local :: "ip \<Rightarrow> bool" where
  "is_link_local (IPv4 n) = v4_is_link_local n"
| "is_link_local (IPv6 n sc) = of_mapped v4_is_link_local (in_net 128 (v6 0xfe80 0 0 0, 10)) n"

fun is_multicast :: "ip \<Rightarrow> bool" where
  "is_multicast (IPv4 n) = v4_is_multicast n"
| "is_multicast (IPv6 n sc) = of_mapped v4_is_multicast (in_net 128 (v6 0xff00 0 0 0, 8)) n"

fun is_reserved_ip :: "ip \<Rightarrow> bool" where
  "is_reserved_ip (IPv4 n) = v4_is_reserved n"
| "is_reserved_ip (IPv6 n sc) =
     of_mapped v4_is_reserved (\<lambda>n. list_ex (\<lambda>net. in_net 128 net n) v6_reserved_networks) n"

fun is_unspecified :: "ip \<Rightarrow> bool" where
  "is_unspecified (IPv4 n) = v4_is_unspecified n"
| "is_unspecified (IPv6 n sc) = of_mapped v4_is_unspecified (\<lambda>n. n = 0) n"

section \<open>Lemmas\<close>

lemma digit_value_range: "is_hex c \<Longrightarrow> 0 \<le> digit_value c \<and> digit_value c < 16"
  by (auto simp: is_hex_def is_digit_def digit_value_def char_range_def code_def)

lemma digit_value_decimal: "is_digit c \<Longrightarrow> 0 \<le> digit_value c \<and> digit_value c < 10"
  by (auto simp: is_digit_def digit_value_def char_range_def code_def)

lemma fold_number_nonneg:
  "0 \<le> n \<Longrightarrow> 0 \<le> r \<Longrightarrow> \<forall>c \<in> set s. 0 \<le> digit_value c \<Longrightarrow> 0 \<le> fold (\<lambda>c n. n * r + digit_value c) s n"
  by (induction s arbitrary: n) auto

lemma number_of_nonneg: "0 \<le> r \<Longrightarrow> list_all is_hex s \<Longrightarrow> 0 \<le> number_of r s"
  unfolding number_of_def by (rule fold_number_nonneg) (auto simp: list_all_iff dest: digit_value_range)

lemma is_digit_hex: "is_digit c \<Longrightarrow> is_hex c"
  by (simp add: is_hex_def)

lemma parse_octet_range: "parse_octet s = Some n \<Longrightarrow> 0 \<le> n \<and> n \<le> 255"
proof -
  assume a: "parse_octet s = Some n"
  then have "list_all is_hex s" by (auto simp: parse_octet_def list_all_iff is_digit_hex split: if_splits)
  with a show ?thesis using number_of_nonneg [of 10 s] by (auto simp: parse_octet_def split: if_splits)
qed

lemma ipv4_address_Some:
  assumes "ipv4_address s = Some n"
  obtains a b c d where "map parse_octet (split_on (CHR ''.'') s) = [Some a, Some b, Some c, Some d]"
    and "n = v4 a b c d"
  using assms by (auto simp: ipv4_address_def v4_def split: if_splits list.splits option.splits)

lemma v4_range:
  "\<lbrakk>0 \<le> a; a \<le> 255; 0 \<le> b; b \<le> 255; 0 \<le> c; c \<le> 255; 0 \<le> d; d \<le> 255\<rbrakk> \<Longrightarrow> 0 \<le> v4 a b c d \<and> v4 a b c d < 2 ^ 32"
  by (simp add: v4_def)

lemma ipv4_address_range:
  assumes "ipv4_address s = Some n"
  shows "0 \<le> n \<and> n < 2 ^ 32"
proof -
  from assms obtain a b c d where m: "map parse_octet (split_on (CHR ''.'') s) = [Some a, Some b, Some c, Some d]"
    and n: "n = v4 a b c d" by (rule ipv4_address_Some)
  from m have "\<exists>s. parse_octet s = Some a" "\<exists>s. parse_octet s = Some b"
    "\<exists>s. parse_octet s = Some c" "\<exists>s. parse_octet s = Some d"
    by (auto simp: map_eq_Cons_conv)
  with n show ?thesis using v4_range [of a b c d] by (auto dest!: parse_octet_range)
qed

end
