(* ===== verification/Visitors.thy ===== *)
theory Visitors
  imports Ip_Address
begin

text \<open>
  What is kept of a visitor (\<^verbatim>\<open>domain/value_objects/visitor.py\<close>): the network of the address
  with the host part cleared, and the coarse class of the client read off the user agent.
  The regular expressions are searches over the lowered text, which on this range of code
  points is what \<^verbatim>\<open>re.I\<close> means.
\<close>

section \<open>Printing an address\<close>

definition str_of_v4 :: "int \<Rightarrow> string" where
  "str_of_v4 n = join_with ''.''
     [str_of_int (n div 2 ^ 24 mod 256), str_of_int (n div 2 ^ 16 mod 256), str_of_int (n div 2 ^ 8 mod 256),
      str_of_int (n mod 256)]"

definition hextets :: "int \<Rightarrow> string list" where
  "hextets n = map (\<lambda>i. hex_of_nat (nat (n div 2 ^ (16 * (7 - i)) mod 65536))) [0..<8]"

text \<open>
  The scan of \<^verbatim>\<open>_compress_hextets\<close> for the longest run of zeros: the state is the best start
  and length so far, then the current start and length, a length of zero meaning no run.
\<close>

fun zero_run :: "nat \<Rightarrow> string list \<Rightarrow> nat \<times> nat \<Rightarrow> nat \<times> nat \<Rightarrow> nat \<times> nat" where
  "zero_run i [] best cur = best"
| "zero_run i (h # hs) (bs, bl) (cs, cl) =
     (if h = ''0'' then
        (let cs' = (if cl = 0 then i else cs); cl' = cl + 1
         in zero_run (i + 1) hs (if cl' > bl then (cs', cl') else (bs, bl)) (cs', cl'))
      else zero_run (i + 1) hs (bs, bl) (0, 0))"

definition compress_hextets :: "string list \<Rightarrow> string list" where
  "compress_hextets hs =
     (case zero_run 0 hs (0, 0) (0, 0) of (start, len) \<Rightarrow>
        if len > 1 then
          (let tail = drop (start + len) hs;
               middle = take start hs @ [''''] @ (if tail = [] then [''''] else tail)
           in if start = 0 then '''' # middle else middle)
        else hs)"

definition str_of_v6 :: "int \<Rightarrow> string option \<Rightarrow> string" where
  "str_of_v6 n scope_id =
     join_with '':'' (compress_hextets (hextets n))
     @ (case scope_id of Some (c # cs) \<Rightarrow> ''%'' @ c # cs | _ \<Rightarrow> [])"

section \<open>The network of an address\<close>

text \<open>
  The network is built from the printed address, and the standard library clears the host
  bits only where there are any: the zone of an IPv6 address survives exactly when the
  address already is the network's.
\<close>

definition network_of :: "ip \<Rightarrow> string" where
  "network_of a =
     (case a of
        IPv4 n \<Rightarrow> str_of_v4 (n div 256 * 256)
      | IPv6 n sc \<Rightarrow>
          if n mod 2 ^ 64 = 0 then str_of_v6 n sc else str_of_v6 (n div 2 ^ 64 * 2 ^ 64) None)"

definition unmapped :: "ip \<Rightarrow> ip" where
  "unmapped a = (case a of IPv4 n \<Rightarrow> IPv4 n
     | IPv6 n sc \<Rightarrow> (case ipv4_mapped n of None \<Rightarrow> IPv6 n sc | Some m \<Rightarrow> IPv4 m))"

definition anonymise_address :: "string option \<Rightarrow> string option" where
  "anonymise_address address =
     (case address of None \<Rightarrow> None
      | Some a \<Rightarrow> if a = [] then None
          else map_option (\<lambda>parsed. network_of (unmapped parsed)) (ip_address (strip a)))"

section \<open>The class of a client\<close>

definition is_word :: "char \<Rightarrow> bool" where
  "is_word c \<longleftrightarrow> is_alnum c \<or> c = CHR ''_'' \<or> code c \<in> {170, 178, 179, 181, 185, 186, 188, 189, 190}
     \<or> (192 \<le> code c \<and> code c \<noteq> 215 \<and> code c \<noteq> 247)"

text \<open>The pattern found right after a boundary between a word and what is not one.\<close>

fun search_at_word :: "bool \<Rightarrow> string \<Rightarrow> string \<Rightarrow> bool" where
  "search_at_word after_word [] p \<longleftrightarrow> False"
| "search_at_word after_word (c # s) p \<longleftrightarrow>
     (\<not> after_word \<and> startswith (c # s) p) \<or> search_at_word (is_word c) s p"

definition BROWSERS :: "(string \<times> (string \<Rightarrow> bool)) list" where
  "BROWSERS =
     [(''bot'', \<lambda>ua. list_ex (contains ua) [''bot'', ''crawler'', ''spider'', ''slurp'', ''curl'', ''wget'',
         ''python-requests'', ''headless'', ''monitoring'', ''preview'', ''facebookexternalhit'', ''whatsapp'',
         ''telegrambot'', ''slackbot'']),
      (''edge'', \<lambda>ua. list_ex (contains ua) [''edg/'', ''edge/'', ''edga/'', ''edgios/'']),
      (''opera'', \<lambda>ua. list_ex (contains ua) [''opr/'', ''opios/'', ''opera''] \<or> search_at_word False ua ''opt/''),
      (''samsung'', \<lambda>ua. contains ua ''samsungbrowser''),
      (''firefox'', \<lambda>ua. list_ex (contains ua) [''firefox/'', ''fxios/'']),
      (''chrome'', \<lambda>ua. list_ex (contains ua) [''chrome/'', ''crios/'', ''chromium'']),
      (''safari'', \<lambda>ua. contains ua ''safari/'')]"

text \<open>\<^verbatim>\<open>android(?!.*(?:mobile|mini))\<close>: the look-ahead stays on the line.\<close>

fun android_tablet :: "string \<Rightarrow> bool" where
  "android_tablet [] \<longleftrightarrow> False"
| "android_tablet (c # s) \<longleftrightarrow>
     (startswith (c # s) ''android'' \<and>
      \<not> list_ex (contains (takeWhile (\<lambda>d. code d \<noteq> 10) (drop 7 (c # s)))) [''mobile'', ''mini''])
     \<or> android_tablet s"

definition DEVICES :: "(string \<times> (string \<Rightarrow> bool)) list" where
  "DEVICES =
     [(''tablet'', \<lambda>ua. list_ex (contains ua) [''ipad'', ''tablet''] \<or> android_tablet ua),
      (''mobile'', \<lambda>ua. list_ex (contains ua) [''mobile'', ''iphone'', ''ipod'', ''windows phone'', ''opera mini''])]"

definition first_match :: "(string \<times> (string \<Rightarrow> bool)) list \<Rightarrow> string \<Rightarrow> string option" where
  "first_match table ua = map_option fst (List.find (\<lambda>(name, pat). pat ua) table)"

definition classify_client :: "string option \<Rightarrow> string \<times> string \<times> bool" where
  "classify_client user_agent =
     (case user_agent of None \<Rightarrow> (''unknown'', ''unknown'', False)
      | Some [] \<Rightarrow> (''unknown'', ''unknown'', False)
      | Some ua \<Rightarrow>
          (let browser = (case first_match BROWSERS (lower ua) of None \<Rightarrow> ''unknown'' | Some b \<Rightarrow> b);
               is_bot = (browser = ''bot'')
           in if is_bot then (''unknown'', browser, True)
              else case first_match DEVICES (lower ua) of
                Some d \<Rightarrow> (d, browser, is_bot)
              | None \<Rightarrow> (if browser = ''unknown'' then ''unknown'' else ''desktop'', browser, is_bot)))"

section \<open>Properties\<close>

text \<open>
  What is kept of an address does not tell two hosts of one network apart: two IPv4
  addresses that agree on their first three octets, and two IPv6 addresses with host bits
  that agree on their first four hextets, are recorded alike, whatever their zones, and a
  mapped address is recorded as the IPv4 address it carries.
\<close>

lemma anonymise_forgets_the_host:
  assumes "ip_address (strip s) = Some a" and "ip_address (strip t) = Some b" and "s \<noteq> []" and "t \<noteq> []"
    and "case (unmapped a, unmapped b) of
        (IPv4 m, IPv4 n) \<Rightarrow> m div 256 = n div 256
      | (IPv6 m x, IPv6 n y) \<Rightarrow> m div 2 ^ 64 = n div 2 ^ 64 \<and> m mod 2 ^ 64 \<noteq> 0 \<and> n mod 2 ^ 64 \<noteq> 0
      | _ \<Rightarrow> False"
  shows "anonymise_address (Some s) = anonymise_address (Some t)"
proof -
  have "network_of (unmapped a) = network_of (unmapped b)"
    using assms(5) by (cases "unmapped a"; cases "unmapped b") (simp_all add: network_of_def)
  then show ?thesis using assms(1-4) by (simp add: anonymise_address_def)
qed

end
