(* ===== verification/Domain_Errors.thy ===== *)
theory Domain_Errors
  imports Prelude
begin

text \<open>
  The exceptions of the domain layer (\<^verbatim>\<open>domain/exceptions.py\<close>): one record for what every
  one of them carries, the class as an enumeration, one definition per constructor. An
  operation that may raise returns \<open>exn + 'a\<close>; \<open>exn\<close> adds the exceptions of other
  hierarchies that the modelled code lets through.
\<close>

datatype param_value = PStr string | PInt int

datatype error_class =
    DomainErrorC | PermissionDeniedErrorC | ValidationErrorC | RefreshTokenReplayedErrorC
  | LinkNotFoundErrorC | CodeGenerationErrorC | LinkConflictErrorC | LinkCodeTakenErrorC
  | LinkExpiredErrorC | GuestLinkLimitExceededErrorC | UserNotFoundErrorC
  | EmailAlreadyRegisteredErrorC | RoleNotFoundErrorC | RoleAlreadyExistsErrorC
  | RoleIsSystemErrorC | RoleNotAssignableErrorC | PermissionsNotFoundErrorC

record domain_error =
  err_class :: error_class
  err_message :: string
  err_code :: string
  err_template :: string
  err_params :: "(string \<times> param_value) list"
  err_field :: "string option"
  err_required :: "string list"
  err_exceeded :: "string list"
  err_retry_after :: "int option"
  err_subject :: "string option"
  err_chain :: "string option"

datatype exn = Domain domain_error | ValueError string | LookupError string | IntegrityError string

text \<open>The apostrophe, which a string literal cannot hold next to its own delimiter.\<close>

definition apos :: string where
  "apos = [CHR 0x27]"

text \<open>\<^verbatim>\<open>DomainError.__init__\<close>: the template defaults to the message.\<close>

definition base_error ::
  "error_class \<Rightarrow> string \<Rightarrow> string \<Rightarrow> string option \<Rightarrow> (string \<times> param_value) list \<Rightarrow> domain_error" where
  "base_error cls msg errcode tmpl prms =
     \<lparr>err_class = cls, err_message = msg, err_code = errcode,
      err_template = (case tmpl of None \<Rightarrow> msg | Some t \<Rightarrow> t), err_params = prms,
      err_field = None, err_required = [], err_exceeded = [], err_retry_after = None,
      err_subject = None, err_chain = None\<rparr>"

definition DomainError :: "string \<Rightarrow> string \<Rightarrow> domain_error" where
  "DomainError msg errcode = base_error DomainErrorC msg errcode None []"

definition PermissionDeniedError ::
  "string \<Rightarrow> string list \<Rightarrow> string list \<Rightarrow> string option \<Rightarrow> (string \<times> param_value) list \<Rightarrow> domain_error" where
  "PermissionDeniedError msg required exceeded tmpl prms =
     (base_error PermissionDeniedErrorC msg ''FORBIDDEN'' tmpl prms)
       \<lparr>err_required := required, err_exceeded := exceeded\<rparr>"

definition ValidationError ::
  "string \<Rightarrow> string \<Rightarrow> string option \<Rightarrow> (string \<times> param_value) list \<Rightarrow> domain_error" where
  "ValidationError msg fld tmpl prms =
     (base_error ValidationErrorC msg ''VALIDATION_ERROR'' tmpl prms)\<lparr>err_field := Some fld\<rparr>"

definition RefreshTokenReplayedError :: "string \<Rightarrow> string \<Rightarrow> domain_error" where
  "RefreshTokenReplayedError user_id chain_id =
     (base_error RefreshTokenReplayedErrorC ''This refresh token has already been spent''
        ''REFRESH_TOKEN_REPLAYED'' None [])
       \<lparr>err_subject := Some user_id, err_chain := Some chain_id\<rparr>"

definition LinkNotFoundError :: "string option \<Rightarrow> domain_error" where
  "LinkNotFoundError short_code =
     (case short_code of
        Some (c # cs) \<Rightarrow>
          (base_error LinkNotFoundErrorC (''Link with code ('' @ (c # cs) @ '') not found'')
             ''LINK_NOT_FOUND'' (Some ''Link with code (%(code)s) not found'')
             [(''code'', PStr (c # cs))])\<lparr>err_subject := short_code\<rparr>
      | _ \<Rightarrow>
          (base_error LinkNotFoundErrorC ''Link not found'' ''LINK_NOT_FOUND'' None [])
            \<lparr>err_subject := short_code\<rparr>)"

definition CodeGenerationError :: "string \<Rightarrow> domain_error" where
  "CodeGenerationError msg = base_error CodeGenerationErrorC msg ''CODE_GENERATION_FAILED'' None []"

definition code_generation_default :: string where
  "code_generation_default = ''Failed to generate unique short code after multiple attempts''"

definition LinkConflictError :: "string \<Rightarrow> domain_error" where
  "LinkConflictError msg = base_error LinkConflictErrorC msg ''LINK_CONFLICT'' None []"

definition link_conflict_default :: string where
  "link_conflict_default = ''Link conflicts with one stored concurrently''"

definition LinkCodeTakenError :: "string \<Rightarrow> domain_error" where
  "LinkCodeTakenError short_code =
     (base_error LinkCodeTakenErrorC
        (''Short code '' @ apos @ short_code @ apos @ '' is already taken'') ''LINK_CODE_TAKEN''
        (Some (''Short code '' @ apos @ ''%(code)s'' @ apos @ '' is already taken''))
        [(''code'', PStr short_code)])\<lparr>err_subject := Some short_code\<rparr>"

definition LinkExpiredError :: "string \<Rightarrow> domain_error" where
  "LinkExpiredError short_code_str =
     (if short_code_str \<noteq> []
      then (base_error LinkExpiredErrorC (''Link with code ('' @ short_code_str @ '') has expired'')
              ''LINK_EXPIRED'' (Some ''Link with code (%(code)s) has expired'')
              [(''code'', PStr short_code_str)])\<lparr>err_subject := Some short_code_str\<rparr>
      else (base_error LinkExpiredErrorC ''Link has expired'' ''LINK_EXPIRED'' None [])
             \<lparr>err_subject := Some short_code_str\<rparr>)"

definition GuestLinkLimitExceededError ::
  "string \<Rightarrow> int option \<Rightarrow> string option \<Rightarrow> (string \<times> param_value) list \<Rightarrow> domain_error" where
  "GuestLinkLimitExceededError msg retry tmpl prms =
     (base_error GuestLinkLimitExceededErrorC msg ''GUEST_LINK_LIMIT'' tmpl prms)
       \<lparr>err_retry_after := retry\<rparr>"

definition UserNotFoundError :: "string \<Rightarrow> domain_error" where
  "UserNotFoundError user_id =
     (base_error UserNotFoundErrorC (''User with id '' @ user_id @ '' not found'') ''USER_NOT_FOUND''
        (Some ''User with id %(id)s not found'') [(''id'', PStr user_id)])
       \<lparr>err_subject := Some user_id\<rparr>"

definition EmailAlreadyRegisteredError :: domain_error where
  "EmailAlreadyRegisteredError =
     (base_error EmailAlreadyRegisteredErrorC ''Email already registered''
        ''EMAIL_ALREADY_REGISTERED'' None [])\<lparr>err_field := Some ''email''\<rparr>"

definition RoleNotFoundError :: "string \<Rightarrow> domain_error" where
  "RoleNotFoundError role_name =
     (base_error RoleNotFoundErrorC (''Role '' @ apos @ role_name @ apos @ '' not found'')
        ''ROLE_NOT_FOUND'' (Some ''Role %(name)s not found'') [(''name'', PStr role_name)])
       \<lparr>err_subject := Some role_name\<rparr>"

definition RoleAlreadyExistsError :: "string \<Rightarrow> domain_error" where
  "RoleAlreadyExistsError role_name =
     (base_error RoleAlreadyExistsErrorC (''Role '' @ apos @ role_name @ apos @ '' already exists'')
        ''ROLE_ALREADY_EXISTS'' (Some ''Role %(name)s already exists'') [(''name'', PStr role_name)])
       \<lparr>err_subject := Some role_name\<rparr>"

definition RoleIsSystemError :: "string \<Rightarrow> domain_error" where
  "RoleIsSystemError role_name =
     (base_error RoleIsSystemErrorC
        (''Role '' @ apos @ role_name @ apos @ '' belongs to the service and cannot be modified or deleted'')
        ''ROLE_IS_SYSTEM''
        (Some ''Role %(name)s belongs to the service and cannot be modified or deleted'')
        [(''name'', PStr role_name)])\<lparr>err_subject := Some role_name\<rparr>"

definition RoleNotAssignableError :: "string \<Rightarrow> domain_error" where
  "RoleNotAssignableError role_name =
     (base_error RoleNotAssignableErrorC
        (''Role '' @ apos @ role_name @ apos @ '' cannot be assigned to an account'')
        ''ROLE_NOT_ASSIGNABLE'' (Some ''Role %(name)s cannot be assigned to an account'')
        [(''name'', PStr role_name)])\<lparr>err_subject := Some role_name\<rparr>"

definition PermissionsNotFoundError :: "string list \<Rightarrow> domain_error" where
  "PermissionsNotFoundError names =
     (let joined = join_with '', '' (sort names)
      in base_error PermissionsNotFoundErrorC (''Permissions not found: '' @ joined)
           ''PERMISSIONS_NOT_FOUND'' (Some ''Permissions not found: %(names)s'')
           [(''names'', PStr joined)])"

text \<open>
  \<^verbatim>\<open>isinstance(e, ValidationError)\<close>: \<open>EmailAlreadyRegisteredError\<close> is a subclass, every
  other class derives from \<open>DomainError\<close> directly.
\<close>

definition is_validation_error :: "domain_error \<Rightarrow> bool" where
  "is_validation_error e \<longleftrightarrow>
     err_class e = ValidationErrorC \<or> err_class e = EmailAlreadyRegisteredErrorC"

abbreviation raise_validation :: "string \<Rightarrow> string \<Rightarrow> (exn, 'a) result" where
  "raise_validation msg fld \<equiv> Inl (Domain (ValidationError msg fld None []))"

abbreviation is_validation :: "exn \<Rightarrow> bool" where
  "is_validation x \<equiv> (\<exists>e. x = Domain e \<and> is_validation_error e)"

section \<open>What an error says about itself\<close>

lemmas error_defs =
  base_error_def DomainError_def PermissionDeniedError_def ValidationError_def
  RefreshTokenReplayedError_def LinkNotFoundError_def CodeGenerationError_def
  LinkConflictError_def LinkCodeTakenError_def LinkExpiredError_def
  GuestLinkLimitExceededError_def UserNotFoundError_def EmailAlreadyRegisteredError_def
  RoleNotFoundError_def RoleAlreadyExistsError_def RoleIsSystemError_def
  RoleNotAssignableError_def PermissionsNotFoundError_def Let_def

lemma error_class_simps [simp]:
  "err_class (DomainError m c) = DomainErrorC"
  "err_class (PermissionDeniedError m r x t p) = PermissionDeniedErrorC"
  "err_class (ValidationError m f t p) = ValidationErrorC"
  "err_class (RefreshTokenReplayedError u c) = RefreshTokenReplayedErrorC"
  "err_class (LinkNotFoundError so) = LinkNotFoundErrorC"
  "err_class (CodeGenerationError m) = CodeGenerationErrorC"
  "err_class (LinkConflictError m) = LinkConflictErrorC"
  "err_class (LinkCodeTakenError s) = LinkCodeTakenErrorC"
  "err_class (LinkExpiredError s) = LinkExpiredErrorC"
  "err_class (GuestLinkLimitExceededError m ra t p) = GuestLinkLimitExceededErrorC"
  "err_class (UserNotFoundError s) = UserNotFoundErrorC"
  "err_class EmailAlreadyRegisteredError = EmailAlreadyRegisteredErrorC"
  "err_class (RoleNotFoundError s) = RoleNotFoundErrorC"
  "err_class (RoleAlreadyExistsError s) = RoleAlreadyExistsErrorC"
  "err_class (RoleIsSystemError s) = RoleIsSystemErrorC"
  "err_class (RoleNotAssignableError s) = RoleNotAssignableErrorC"
  "err_class (PermissionsNotFoundError ns) = PermissionsNotFoundErrorC"
  by (simp_all add: error_defs split: option.split list.split)

lemma err_field_ValidationError [simp]: "err_field (ValidationError m f t p) = Some f"
  by (simp add: error_defs)

lemma is_validation_error_simps [simp]:
  "is_validation_error (ValidationError m f t p)"
  "is_validation_error EmailAlreadyRegisteredError"
  "\<not> is_validation_error (DomainError m c)"
  "\<not> is_validation_error (LinkConflictError m)"
  by (simp_all add: is_validation_error_def)

end
