(* ===== verification/Value_Objects.thy ===== *)
theory Value_Objects
  imports Domain_Errors
begin

text \<open>
  The value objects of \<^verbatim>\<open>domain/value_objects\<close> other than the URL, the policies that judge
  one string (\<^verbatim>\<open>reserved_codes\<close>, \<^verbatim>\<open>password_policy\<close>, \<^verbatim>\<open>role_policy\<close>,
  \<^verbatim>\<open>guest_quota_policy\<close>), and the two string builders of \<^verbatim>\<open>application/utils\<close>. A value
  object is the string it wraps; its constructor returns the string or the exception.
  The lemmas give the exact language each constructor accepts, that normalising is
  idempotent, and that cache keys and scope tokens never collide.
\<close>

type_synonym short_code = string
type_synonym url_hash = string
type_synonym owner_id = string
type_synonym email = string

section \<open>Short codes\<close>

definition MIN_LENGTH :: nat where
  "MIN_LENGTH = 6"

definition MAX_LENGTH :: nat where
  "MAX_LENGTH = 10"

definition code_char :: "char \<Rightarrow> bool" where
  "code_char c \<longleftrightarrow> is_alnum c \<or> c = CHR ''_'' \<or> c = CHR ''-''"

definition CODE_PATTERN :: "string \<Rightarrow> bool" where
  "CODE_PATTERN s \<longleftrightarrow> MIN_LENGTH \<le> length s \<and> length s \<le> MAX_LENGTH \<and> list_all code_char s"

definition ShortCode :: "string \<Rightarrow> (exn, short_code) result" where
  "ShortCode v =
     (if \<not> CODE_PATTERN v
      then Inl (Domain (ValidationError
        (''Invalid short code format: '' @ v @ ''. Must be '' @ str_of_nat MIN_LENGTH @ ''-'' @
         str_of_nat MAX_LENGTH @ '' alphanumeric characters, underscore, or hyphen.'')
        ''short_code''
        (Some ''Invalid short code format: %(value)s. Must be %(min)s-%(max)s alphanumeric characters, underscore, or hyphen.'')
        [(''value'', PStr v), (''min'', PInt (int MIN_LENGTH)), (''max'', PInt (int MAX_LENGTH))]))
      else Inr v)"

section \<open>Hashes, owners, password hashes\<close>

definition HASH_PATTERN :: "string \<Rightarrow> bool" where
  "HASH_PATTERN s \<longleftrightarrow> length s = 64 \<and> list_all is_lower_hex s"

definition UrlHash :: "string \<Rightarrow> (exn, url_hash) result" where
  "UrlHash v =
     (if \<not> HASH_PATTERN v
      then Inl (Domain (ValidationError
        (''Invalid hash format: '' @ v @ ''. Must be 64 hex characters.'') ''url_hash''
        (Some ''Invalid hash format: %(value)s. Must be 64 hex characters.'') [(''value'', PStr v)]))
      else Inr v)"

definition OwnerID :: "string \<Rightarrow> (exn, owner_id) result" where
  "OwnerID v =
     (if v = [] \<or> strip v = []
      then raise_validation
        ''Owner id must not be empty. An owner-less link carries owner=None.'' ''owner_id''
      else Inr v)"

definition PasswordHash :: "string \<Rightarrow> (exn, string) result" where
  "PasswordHash v =
     (if v = [] \<or> strip v = [] then Inl (ValueError ''Password hash must not be empty'') else Inr v)"

section \<open>Deduplication scopes\<close>

record dedup_scope =
  scope_owner :: "string option"
  scope_guest :: "string option"

definition DedupScope :: "string option \<Rightarrow> string option \<Rightarrow> dedup_scope" where
  "DedupScope owner_id guest_identifier =
     \<lparr>scope_owner = owner_id,
      scope_guest = (if owner_id \<noteq> None then None else guest_identifier)\<rparr>"

definition for_guest :: "string option \<Rightarrow> dedup_scope" where
  "for_guest guest_identifier = DedupScope None guest_identifier"

definition for_owner :: "string \<Rightarrow> dedup_scope" where
  "for_owner owner_id = DedupScope (Some owner_id) None"

definition scope_token :: "dedup_scope \<Rightarrow> string" where
  "scope_token sc =
     (case scope_owner sc of Some i \<Rightarrow> ''u:'' @ i
      | None \<Rightarrow> (case scope_guest sc of Some g \<Rightarrow> ''g:'' @ g | None \<Rightarrow> ''anon''))"

text \<open>What \<open>DedupScope\<close> can build: never an owner and a guest together.\<close>

definition scope_wf :: "dedup_scope \<Rightarrow> bool" where
  "scope_wf sc \<longleftrightarrow> (scope_owner sc \<noteq> None \<longrightarrow> scope_guest sc = None)"

section \<open>Email addresses\<close>

definition MAX_EMAIL_LENGTH :: nat where
  "MAX_EMAIL_LENGTH = 254"

text \<open>
  \<open>email_char\<close> is the class the pattern repeats: anything but the at sign and white
  space (the four separators the pattern names are white space already). The pattern
  has one at sign, so matching it splits the string there; what follows needs a dot with
  at least one character on either side.
\<close>

definition email_char :: "char \<Rightarrow> bool" where
  "email_char c \<longleftrightarrow> c \<noteq> CHR ''@'' \<and> \<not> is_space c"

definition inner_dot :: "string \<Rightarrow> bool" where
  "inner_dot d \<longleftrightarrow> list_ex (\<lambda>c. c = CHR ''.'') (butlast (tl d))"

definition EMAIL_PATTERN_RE :: "string \<Rightarrow> bool" where
  "EMAIL_PATTERN_RE s =
     (case partition_on (CHR ''@'') s of
        (l, m, d) \<Rightarrow> m \<noteq> [] \<and> l \<noteq> [] \<and> list_all email_char l \<and> list_all email_char d \<and> inner_dot d)"

definition normalise :: "string \<Rightarrow> string" where
  "normalise v = lower v"

definition email_checked :: "string \<Rightarrow> (exn, unit) result" where
  "email_checked v =
     (if length v > MAX_EMAIL_LENGTH then raise_validation ''Email address is too long'' ''email''
      else if \<not> EMAIL_PATTERN_RE v then raise_validation ''Invalid email format'' ''email''
      else Inr ())"

definition Email :: "string \<Rightarrow> (exn, email) result" where
  "Email v = rbind (email_checked v) (\<lambda>_. Inr (normalise v))"

definition email_from_storage :: "string \<Rightarrow> (exn, email) result" where
  "email_from_storage v = rbind (Email v) (\<lambda>_. Inr v)"

section \<open>Tokens that are mailed\<close>

text \<open>
  \<open>token_digest\<close> over the hash function of \<^verbatim>\<open>hashlib\<close>, a parameter: the hexadecimal
  digest of a string's UTF-8 bytes.
\<close>

definition DIGEST_LENGTH :: nat where
  "DIGEST_LENGTH = 64"

definition token_digest :: "(string \<Rightarrow> string) \<Rightarrow> string \<Rightarrow> string" where
  "token_digest sha256_hexdigest token = sha256_hexdigest token"

section \<open>Reserved codes\<close>

definition RESERVED_CODES :: "string list" where
  "RESERVED_CODES =
    [''health'', ''console'', ''static'', ''logout'', ''register'', ''refresh'', ''dashboard'',
     ''favicon'', ''robots'', ''sitemap'', ''metrics'', ''openapi'', ''swagger'', ''verify'']"

definition is_reserved :: "string \<Rightarrow> bool" where
  "is_reserved c \<longleftrightarrow> lower c \<in> set RESERVED_CODES"

section \<open>Passwords\<close>

definition MIN_PASSWORD_LENGTH :: nat where
  "MIN_PASSWORD_LENGTH = 8"

definition MAX_PASSWORD_LENGTH :: nat where
  "MAX_PASSWORD_LENGTH = 64"

definition MAX_PASSWORD_BYTES :: nat where
  "MAX_PASSWORD_BYTES = 72"

definition COMMON_PASSWORDS :: "string list" where
  "COMMON_PASSWORDS = [
     ''password'', ''password1'', ''password12'', ''password123'', ''passw0rd'', ''123456'',
     ''1234567'', ''12345678'', ''123456789'', ''1234567890'', ''12345678910'', ''111111'',
     ''1111111'', ''11111111'', ''000000'', ''00000000'', ''123123'', ''123321'', ''112233'',
     ''121212'', ''654321'', ''666666'', ''888888'', ''abc123'', ''abcd1234'', ''a1b2c3d4'',
     ''qwerty'', ''qwerty1'', ''qwerty12'', ''qwerty123'', ''qwertyui'', ''qwertyuiop'',
     ''1q2w3e4r'', ''1qaz2wsx'', ''zaq12wsx'', ''asdfghjk'', ''asdfghjkl'', ''qazwsx'',
     ''qazwsxedc'', ''iloveyou'', ''princess'', ''sunshine'', ''football'', ''baseball'',
     ''superman'', ''batman'', ''trustno1'', ''letmein'', ''welcome'', ''welcome1'', ''monkey'',
     ''monkey123'', ''dragon'', ''master'', ''shadow'', ''michael'', ''jennifer'', ''jordan23'',
     ''hunter2'', ''starwars'', ''computer'', ''internet'', ''samsung'', ''google'', ''facebook'',
     ''whatever'', ''freedom'', ''charlie'', ''andrew'', ''thomas'', ''robert'', ''daniel'',
     ''matthew'', ''joshua'', ''admin'', ''admin123'', ''administrator'', ''root'', ''toor'',
     ''user'', ''guest'', ''test'', ''test123'', ''testtest'', ''changeme'', ''default'',
     ''secret'', ''secret123'', ''login'', ''passwd'', ''pass123'', ''temp123'',
     ''linkshortener'', ''shortener''
     ]"

definition validate_password :: "string \<Rightarrow> (exn, unit) result" where
  "validate_password password =
     (if strip password = [] then raise_validation ''Password must not be blank'' ''password''
      else if CHR 0x00 \<in> set password
      then raise_validation ''Password must not contain a null character'' ''password''
      else if length password < MIN_PASSWORD_LENGTH
      then Inl (Domain (ValidationError
        (''Password must be at least '' @ str_of_nat MIN_PASSWORD_LENGTH @ '' characters'') ''password''
        (Some ''Password must be at least %(count)s characters'')
        [(''count'', PInt (int MIN_PASSWORD_LENGTH))]))
      else if length password > MAX_PASSWORD_LENGTH \<or> utf8_length password > MAX_PASSWORD_BYTES
      then Inl (Domain (ValidationError
        (''Password must not exceed '' @ str_of_nat MAX_PASSWORD_LENGTH @
         '' characters, and fewer for alphabets that need more room per character'') ''password''
        (Some ''Password must not exceed %(count)s characters, and fewer for alphabets that need more room per character'')
        [(''count'', PInt (int MAX_PASSWORD_LENGTH))]))
      else if lower password \<in> set COMMON_PASSWORDS
      then raise_validation (''Password is too common -- choose one that is not on every attacker'' @ apos @ ''s list'')
        ''password''
      else Inr ())"

section \<open>Role names\<close>

definition GUEST_ROLE_NAME :: string where
  "GUEST_ROLE_NAME = ''guest''"

definition ROLE_NAME_MIN_LENGTH :: nat where
  "ROLE_NAME_MIN_LENGTH = 2"

definition ROLE_NAME_MAX_LENGTH :: nat where
  "ROLE_NAME_MAX_LENGTH = 50"

definition ROLE_NAME_PATTERN :: "string \<Rightarrow> bool" where
  "ROLE_NAME_PATTERN s \<longleftrightarrow> s \<noteq> [] \<and> list_all code_char s"

definition require_valid_role_name :: "string \<Rightarrow> (exn, unit) result" where
  "require_valid_role_name name =
     (if \<not> ROLE_NAME_PATTERN name
      then raise_validation ''A role name must be letters, digits, hyphen or underscore'' ''name''
      else if \<not> (ROLE_NAME_MIN_LENGTH \<le> length name \<and> length name \<le> ROLE_NAME_MAX_LENGTH)
      then Inl (Domain (ValidationError
        (''A role name must be '' @ str_of_nat ROLE_NAME_MIN_LENGTH @ '' to '' @
         str_of_nat ROLE_NAME_MAX_LENGTH @ '' characters long'') ''name''
        (Some ''A role name must be %(least)s to %(most)s characters long'')
        [(''least'', PInt (int ROLE_NAME_MIN_LENGTH)), (''most'', PInt (int ROLE_NAME_MAX_LENGTH))]))
      else Inr ())"

definition ROLE_DESCRIPTION_MAX_LENGTH :: nat where
  "ROLE_DESCRIPTION_MAX_LENGTH = 255"

definition require_valid_role_description :: "string option \<Rightarrow> (exn, unit) result" where
  "require_valid_role_description description =
     (case description of None \<Rightarrow> Inr ()
      | Some d \<Rightarrow>
          if length d > ROLE_DESCRIPTION_MAX_LENGTH
          then Inl (Domain (ValidationError
            (''A role description must be at most '' @ str_of_nat ROLE_DESCRIPTION_MAX_LENGTH @
             '' characters long'') ''description''
            (Some ''A role description must be at most %(most)s characters long'')
            [(''most'', PInt (int ROLE_DESCRIPTION_MAX_LENGTH))]))
          else Inr ())"

section \<open>The guest quota\<close>

definition links_left_for_guest :: "int \<Rightarrow> int \<Rightarrow> int" where
  "links_left_for_guest used limit = max 0 (limit - used)"

definition guest_quota_spent :: "int \<Rightarrow> int \<Rightarrow> domain_error" where
  "guest_quota_spent limit window_days =
     GuestLinkLimitExceededError (''Guest link limit of '' @ str_of_int limit @ '' exceeded.'')
       (Some (window_days * 24 * 3600)) (Some ''Guest link limit of %(limit)s exceeded.'')
       [(''limit'', PInt limit)]"

section \<open>String builders of the application layer\<close>

definition build_key :: "string \<Rightarrow> string list \<Rightarrow> string" where
  "build_key key_prefix parts = join_with '':'' (key_prefix # parts)"

definition for_redirect :: "string \<Rightarrow> string \<Rightarrow> string" where
  "for_redirect key_prefix short_code = build_key key_prefix [''redirect'', short_code]"

definition for_short_code :: "string \<Rightarrow> string \<Rightarrow> string" where
  "for_short_code key_prefix short_code = build_key key_prefix [''code'', short_code]"

definition for_url_hash :: "string \<Rightarrow> string \<Rightarrow> string \<Rightarrow> string" where
  "for_url_hash key_prefix url_hash scope = build_key key_prefix [''hash'', scope, url_hash]"

definition for_stats :: "string \<Rightarrow> string" where
  "for_stats key_prefix = build_key key_prefix [''stats'', ''global'']"

definition build_short_url :: "string \<Rightarrow> string \<Rightarrow> (exn, string) result" where
  "build_short_url base_url short_code =
     (if base_url = [] then Inl (ValueError ''base_url must not be empty'')
      else if short_code = [] then Inl (ValueError ''short_code must not be empty'')
      else Inr (rstrip_char (CHR ''/'') base_url @ ''/'' @ short_code))"

section \<open>Constructors: the language each one accepts\<close>

lemma ShortCode_eq_Inr [simp]: "ShortCode v = Inr c \<longleftrightarrow> c = v \<and> CODE_PATTERN v"
  by (auto simp: ShortCode_def)

lemma UrlHash_eq_Inr [simp]: "UrlHash v = Inr h \<longleftrightarrow> h = v \<and> HASH_PATTERN v"
  by (auto simp: UrlHash_def)

lemma OwnerID_eq_Inr [simp]: "OwnerID v = Inr i \<longleftrightarrow> i = v \<and> strip v \<noteq> []"
  by (auto simp: OwnerID_def strip_def)

lemma CODE_PATTERN_not_Nil: "CODE_PATTERN c \<Longrightarrow> c \<noteq> []"
  by (auto simp: CODE_PATTERN_def MIN_LENGTH_def)

lemma code_char_not_colon: "code_char c \<Longrightarrow> c \<noteq> CHR '':''"
  by (auto simp: code_char_def is_alnum_def is_alpha_def is_digit_def char_range_def code_def)

lemma code_char_not_slash: "code_char c \<Longrightarrow> c \<noteq> CHR ''/''"
  by (auto simp: code_char_def is_alnum_def is_alpha_def is_digit_def char_range_def code_def)

section \<open>Email addresses: the pattern and the lookup form\<close>

lemma partition_on_found:
  "partition_on sep s = (l, m, d) \<Longrightarrow> m \<noteq> [] \<Longrightarrow> s = l @ sep # d \<and> m = [sep] \<and> sep \<notin> set l"
proof -
  assume a: "partition_on sep s = (l, m, d)" and m: "m \<noteq> []"
  let ?pre = "takeWhile (\<lambda>c. c \<noteq> sep) s"
  have dw: "drop (length ?pre) s = dropWhile (\<lambda>c. c \<noteq> sep) s"
    by (simp add: dropWhile_eq_drop)
  from a m obtain c where c: "dropWhile (\<lambda>c. c \<noteq> sep) s = c # d" "l = ?pre" "m = [c]"
    by (auto simp: partition_on_def Let_def dw split: list.splits)
  have "c = sep" using hd_dropWhile [of "\<lambda>c. c \<noteq> sep" s] c(1) by simp
  moreover have "sep \<notin> set l" using c(2) by (auto dest: set_takeWhileD)
  ultimately show ?thesis using c takeWhile_dropWhile_id [of "\<lambda>c. c \<noteq> sep" s] by auto
qed

lemma partition_on_cons [simp]: "sep \<notin> set l \<Longrightarrow> partition_on sep (l @ sep # d) = (l, [sep], d)"
proof -
  assume "sep \<notin> set l"
  then have "takeWhile (\<lambda>c. c \<noteq> sep) (l @ sep # d) = l" by (induction l) auto
  then show ?thesis by (simp add: partition_on_def Let_def)
qed

lemma partition_on_absent: "sep \<notin> set s \<Longrightarrow> partition_on sep s = (s, [], [])"
proof -
  assume "sep \<notin> set s"
  then have tw: "takeWhile (\<lambda>c. c \<noteq> sep) s = s" by (induction s) auto
  show ?thesis unfolding partition_on_def Let_def tw by simp
qed

lemma inner_dot_iff: "inner_dot d \<longleftrightarrow> (\<exists>a b. d = a @ ''.'' @ b \<and> a \<noteq> [] \<and> b \<noteq> [])"
proof
  assume "inner_dot d"
  then have "CHR ''.'' \<in> set (butlast (tl d))" by (auto simp: inner_dot_def list_ex_iff)
  then obtain xs ys where xy: "butlast (tl d) = xs @ CHR ''.'' # ys" by (meson split_list)
  from xy have ne: "tl d \<noteq> []" by auto
  then have "d = hd d # butlast (tl d) @ [last (tl d)]" by (cases d) auto
  with xy have "d = (hd d # xs) @ ''.'' @ (ys @ [last (tl d)])" by simp
  then show "\<exists>a b. d = a @ ''.'' @ b \<and> a \<noteq> [] \<and> b \<noteq> []" by blast
next
  assume "\<exists>a b. d = a @ ''.'' @ b \<and> a \<noteq> [] \<and> b \<noteq> []"
  then obtain a b where "d = a @ ''.'' @ b" "a \<noteq> []" "b \<noteq> []" by blast
  then show "inner_dot d" by (cases a) (auto simp: inner_dot_def list_ex_iff butlast_append)
qed

lemma email_shape:
  "EMAIL_PATTERN_RE s \<longleftrightarrow>
     (\<exists>l a b. s = l @ ''@'' @ a @ ''.'' @ b \<and> l \<noteq> [] \<and> a \<noteq> [] \<and> b \<noteq> [] \<and>
        list_all email_char (l @ a @ b))"
  (is "_ \<longleftrightarrow> ?shape")
proof
  assume e: "EMAIL_PATTERN_RE s"
  obtain l m d where p: "partition_on (CHR ''@'') s = (l, m, d)" by (metis prod_cases3)
  with e have h: "m \<noteq> []" "l \<noteq> []" "list_all email_char l" "list_all email_char d" "inner_dot d"
    by (auto simp: EMAIL_PATTERN_RE_def)
  from h(5) obtain a b where "d = a @ ''.'' @ b" "a \<noteq> []" "b \<noteq> []" by (auto simp: inner_dot_iff)
  with h partition_on_found [OF p h(1)] show ?shape by auto
next
  assume ?shape
  then obtain l a b where s: "s = l @ ''@'' @ a @ ''.'' @ b" "l \<noteq> []" "a \<noteq> []" "b \<noteq> []"
    "list_all email_char (l @ a @ b)" by blast
  then have "CHR ''@'' \<notin> set l" by (auto simp: list_all_iff email_char_def)
  moreover have "email_char (CHR ''.'')" by (simp add: email_char_def is_space_def code_def)
  ultimately show "EMAIL_PATTERN_RE s" using s
    by (auto simp: EMAIL_PATTERN_RE_def inner_dot_iff)
qed

lemma lower_char_punct [simp]:
  "lower_char c = CHR ''@'' \<longleftrightarrow> c = CHR ''@''"
  "lower_char c = CHR ''.'' \<longleftrightarrow> c = CHR ''.''"
  using code_lower_char [of c]
  by (auto simp flip: code_inject simp: has_upper_def split: if_splits) (simp_all add: code_def)

lemma lower_char_punct_fixed: "lower_char (CHR ''@'') = CHR ''@''" "lower_char (CHR ''.'') = CHR ''.''"
  by simp_all

lemma email_char_lower [simp]: "email_char (lower_char c) = email_char c"
  by (simp add: email_char_def)

lemma email_pattern_lower: "EMAIL_PATTERN_RE s \<Longrightarrow> EMAIL_PATTERN_RE (lower s)"
proof -
  assume "EMAIL_PATTERN_RE s"
  then obtain l a b where "s = l @ ''@'' @ a @ ''.'' @ b" "l \<noteq> []" "a \<noteq> []" "b \<noteq> []"
    "list_all email_char (l @ a @ b)" by (auto simp: email_shape)
  then have "lower s = lower l @ ''@'' @ lower a @ ''.'' @ lower b \<and> lower l \<noteq> [] \<and> lower a \<noteq> []
      \<and> lower b \<noteq> [] \<and> list_all email_char (lower l @ lower a @ lower b)"
    by (auto simp: lower_def list_all_iff lower_char_punct_fixed)
  then show ?thesis unfolding email_shape by blast
qed

lemma Email_eq_Inr:
  "Email v = Inr e \<longleftrightarrow> e = lower v \<and> length v \<le> MAX_EMAIL_LENGTH \<and> EMAIL_PATTERN_RE v"
  by (auto simp: Email_def email_checked_def normalise_def result_simps)

section \<open>Tokens and cache keys do not collide\<close>

lemma scope_wf_DedupScope [simp]: "scope_wf (DedupScope owner guest)"
  by (simp add: scope_wf_def DedupScope_def)

lemma scope_token_inject:
  "scope_wf a \<Longrightarrow> scope_wf b \<Longrightarrow> scope_token a = scope_token b \<longleftrightarrow> a = b"
  by (cases a; cases b) (auto simp: scope_wf_def scope_token_def split: option.splits)

lemma key_unfold:
  "for_redirect p c = p @ '':redirect:'' @ c"
  "for_short_code p c = p @ '':code:'' @ c"
  "for_url_hash p h sc = p @ '':hash:'' @ sc @ '':'' @ h"
  "for_stats p = p @ '':stats:global''"
  by (simp_all add: for_redirect_def for_short_code_def for_url_hash_def for_stats_def build_key_def)

lemma key_disjoint [simp]:
  "for_redirect p c \<noteq> for_short_code p c'" "for_short_code p c' \<noteq> for_redirect p c"
  "for_redirect p c \<noteq> for_url_hash p h sc" "for_url_hash p h sc \<noteq> for_redirect p c"
  "for_short_code p c \<noteq> for_url_hash p h sc" "for_url_hash p h sc \<noteq> for_short_code p c"
  "for_stats p \<noteq> for_redirect p c" "for_redirect p c \<noteq> for_stats p"
  "for_stats p \<noteq> for_short_code p c" "for_short_code p c \<noteq> for_stats p"
  "for_stats p \<noteq> for_url_hash p h sc" "for_url_hash p h sc \<noteq> for_stats p"
  by (simp_all add: key_unfold)

lemma key_inject [simp]:
  "for_redirect p c = for_redirect p c' \<longleftrightarrow> c = c'"
  "for_short_code p c = for_short_code p c' \<longleftrightarrow> c = c'"
  by (simp_all add: key_unfold)

lemma hash_key_inject:
  "length h = length h' \<Longrightarrow> for_url_hash p h sc = for_url_hash p h' sc' \<longleftrightarrow> h = h' \<and> sc = sc'"
  by (auto simp: key_unfold)

section \<open>Properties\<close>

text \<open>
  The check of an address accepts exactly the strings of the regular expression's
  shape (a non-empty local part, one at sign, a domain with an inner dot, no white space
  anywhere) of at most 254 characters, and what the constructor returns is a fixed point
  of the constructor: an address in the form it is stored and looked up in is accepted
  again and unchanged, so one mailbox names one account whatever its capitals.
\<close>

lemma email_accepts_and_normalises:
  "(Email v = Inr e \<longleftrightarrow>
      e = lower v \<and> length v \<le> 254 \<and>
      (\<exists>l a b. v = l @ ''@'' @ a @ ''.'' @ b \<and> l \<noteq> [] \<and> a \<noteq> [] \<and> b \<noteq> [] \<and>
         list_all (\<lambda>c. c \<noteq> CHR ''@'' \<and> \<not> is_space c) (l @ a @ b)))
   \<and> (Email v = Inr e \<longrightarrow> Email e = Inr e)"
proof
  have "email_char = (\<lambda>c. c \<noteq> CHR ''@'' \<and> \<not> is_space c)"
    by (simp add: fun_eq_iff email_char_def)
  then show "Email v = Inr e \<longleftrightarrow>
      e = lower v \<and> length v \<le> 254 \<and>
      (\<exists>l a b. v = l @ ''@'' @ a @ ''.'' @ b \<and> l \<noteq> [] \<and> a \<noteq> [] \<and> b \<noteq> [] \<and>
         list_all (\<lambda>c. c \<noteq> CHR ''@'' \<and> \<not> is_space c) (l @ a @ b))"
    by (simp add: Email_eq_Inr email_shape MAX_EMAIL_LENGTH_def)
  show "Email v = Inr e \<longrightarrow> Email e = Inr e"
    by (auto simp: Email_eq_Inr email_pattern_lower)
qed

end
