(* ===== verification/Links.thy ===== *)
theory Links
  imports Value_Objects "HOL-Library.Product_Lexorder"
begin

text \<open>
  The link entity (\<^verbatim>\<open>domain/entities/link.py\<close>) and the table of links behind
  \<^verbatim>\<open>SQLAlchemyLinkRepository\<close>. The table is the list of its rows in insertion order; a row
  has the columns of \<^verbatim>\<open>LinkModel\<close>, which are the fields of the entity, and the two
  conversions are modelled and shown to be inverse on well-formed links. A query is a
  filter over the rows, an \<^verbatim>\<open>UPDATE\<close> a map, a \<^verbatim>\<open>DELETE\<close> a filter; the constraints of
  the table (primary key, unique short code, the foreign key of the owner) are checked by
  the operations that insert.
\<close>

section \<open>The entity\<close>

record link =
  lk_id :: ident
  lk_hash :: url_hash
  lk_code :: short_code
  lk_url :: string
  lk_created :: moment
  lk_clicks :: int
  lk_accessed :: "moment option"
  lk_owner :: "owner_id option"
  lk_expires :: "moment option"
  lk_guest :: "string option"

definition second :: int where
  "second = 1000000"

definition day :: int where
  "day = 86400 * second"

text \<open>\<^verbatim>\<open>datetime.max\<close> in UTC: the last microsecond of the year 9999.\<close>

definition max_moment :: moment where
  "max_moment = 253402300799999999"

text \<open>
  \<^verbatim>\<open>Link.create\<close>. The clock and the identifier that \<^verbatim>\<open>uuid4\<close> would draw are arguments. A
  lifetime that leads past the last representable moment is refused.
\<close>

definition link_create ::
  "moment \<Rightarrow> ident \<Rightarrow> url_hash \<Rightarrow> short_code \<Rightarrow> string \<Rightarrow> owner_id option \<Rightarrow> string option \<Rightarrow> int
   \<Rightarrow> (exn, link) result" where
  "link_create now new_id url_hash short_code original_url owner guest_identifier ttl_seconds =
     rbind
       (if ttl_seconds > 0
        then (if now + ttl_seconds * second > max_moment
              then raise_validation ''ttl_seconds is too large to be a date'' ''ttl_seconds''
              else Inr (Some (now + ttl_seconds * second)))
        else Inr None)
       (\<lambda>expires_at. Inr
          \<lparr>lk_id = new_id, lk_hash = url_hash, lk_code = short_code, lk_url = original_url,
           lk_created = now, lk_clicks = 0, lk_accessed = None, lk_owner = owner,
           lk_expires = expires_at, lk_guest = guest_identifier\<rparr>)"

definition link_scope :: "link \<Rightarrow> dedup_scope" where
  "link_scope l = (case lk_owner l of Some i \<Rightarrow> for_owner i | None \<Rightarrow> for_guest (lk_guest l))"

definition increment_clicks :: "moment \<Rightarrow> link \<Rightarrow> link" where
  "increment_clicks now l = l\<lparr>lk_clicks := lk_clicks l + 1, lk_accessed := Some now\<rparr>"

definition is_popular :: "int \<Rightarrow> link \<Rightarrow> bool" where
  "is_popular threshold l \<longleftrightarrow> lk_clicks l > threshold"

definition is_recent :: "moment \<Rightarrow> int \<Rightarrow> link \<Rightarrow> bool" where
  "is_recent now days l \<longleftrightarrow> (now - lk_created l) div day \<le> days"

definition is_expired :: "moment \<Rightarrow> link \<Rightarrow> bool" where
  "is_expired now l = (case lk_expires l of None \<Rightarrow> False | Some t \<Rightarrow> now \<ge> t)"

section \<open>Rows\<close>

record link_row =
  row_id :: string
  row_url_hash :: string
  row_original_url :: string
  row_short_code :: string
  row_created_at :: moment
  row_clicks :: int
  row_last_accessed :: "moment option"
  row_owner_id :: "string option"
  row_expires_at :: "moment option"
  row_guest_identifier :: "string option"

definition to_model :: "link \<Rightarrow> link_row" where
  "to_model l =
     \<lparr>row_id = lk_id l, row_url_hash = lk_hash l, row_original_url = lk_url l,
      row_short_code = lk_code l, row_created_at = lk_created l, row_clicks = lk_clicks l,
      row_last_accessed = lk_accessed l, row_owner_id = lk_owner l,
      row_expires_at = lk_expires l, row_guest_identifier = lk_guest l\<rparr>"

text \<open>
  \<open>to_domain\<close> rebuilds the value objects, so a row that could not be one is refused. The
  check of the stored URL (\<open>OriginalUrl.from_storage\<close>) is an argument.
\<close>

definition to_domain :: "(string \<Rightarrow> (exn, string) result) \<Rightarrow> link_row \<Rightarrow> (exn, link) result" where
  "to_domain url_from_storage m =
     rbind (UrlHash (row_url_hash m)) (\<lambda>h.
     rbind (ShortCode (row_short_code m)) (\<lambda>c.
     rbind (url_from_storage (row_original_url m)) (\<lambda>u.
     rbind (case row_owner_id m of None \<Rightarrow> Inr None | Some [] \<Rightarrow> Inr None
            | Some (x # xs) \<Rightarrow> rbind (OwnerID (x # xs)) (\<lambda>i. Inr (Some i))) (\<lambda>owner.
     Inr \<lparr>lk_id = row_id m, lk_hash = h, lk_code = c, lk_url = u,
          lk_created = row_created_at m, lk_clicks = row_clicks m,
          lk_accessed = row_last_accessed m, lk_owner = owner,
          lk_expires = row_expires_at m, lk_guest = row_guest_identifier m\<rparr>))))"

definition link_wf :: "link \<Rightarrow> bool" where
  "link_wf l \<longleftrightarrow> CODE_PATTERN (lk_code l) \<and> HASH_PATTERN (lk_hash l) \<and>
     (case lk_owner l of None \<Rightarrow> True | Some i \<Rightarrow> strip i \<noteq> [])"

section \<open>The repository\<close>

type_synonym link_table = "link list"

abbreviation codes_of :: "link_table \<Rightarrow> short_code list" where
  "codes_of tbl \<equiv> map lk_code tbl"

abbreviation ids_of :: "link_table \<Rightarrow> ident list" where
  "ids_of tbl \<equiv> map lk_id tbl"

text \<open>
  \<open>save\<close> merges by primary key: a row with the identifier is replaced, otherwise the row
  is added. Another row with the same short code is a conflict, an owner that is not an
  account breaks the foreign key.
\<close>

definition owner_known :: "ident list \<Rightarrow> link \<Rightarrow> bool" where
  "owner_known user_ids l = (case lk_owner l of None \<Rightarrow> True | Some i \<Rightarrow> i \<in> set user_ids)"

definition save_link :: "ident list \<Rightarrow> link \<Rightarrow> link_table \<Rightarrow> (exn, link \<times> link_table) result" where
  "save_link user_ids l tbl =
     (if list_ex (\<lambda>r. lk_id r \<noteq> lk_id l \<and> lk_code r = lk_code l) tbl
      then Inl (Domain (LinkConflictError link_conflict_default))
      else if \<not> owner_known user_ids l then Inl (IntegrityError ''fk_urls_owner_id_users'')
      else if lk_id l \<in> set (ids_of tbl)
      then Inr (l, map (\<lambda>r. if lk_id r = lk_id l then l else r) tbl)
      else Inr (l, tbl @ [l]))"

definition save_many_links ::
  "ident list \<Rightarrow> link list \<Rightarrow> link_table \<Rightarrow> (exn, link list \<times> link_table) result" where
  "save_many_links user_ids ls tbl =
     (if \<not> distinct (ids_of (tbl @ ls)) then Inl (IntegrityError ''urls_pkey'')
      else if \<not> distinct (codes_of ls) \<or> list_ex (\<lambda>l. lk_code l \<in> set (codes_of tbl)) ls
      then Inl (Domain (LinkConflictError link_conflict_default))
      else if \<not> list_all (owner_known user_ids) ls
      then Inl (IntegrityError ''fk_urls_owner_id_users'')
      else Inr (ls, tbl @ ls))"

definition find_by_code :: "short_code \<Rightarrow> link_table \<Rightarrow> link option" where
  "find_by_code c tbl = List.find (\<lambda>l. lk_code l = c) tbl"

definition live_in_scope :: "moment \<Rightarrow> dedup_scope \<Rightarrow> link \<Rightarrow> bool" where
  "live_in_scope now sc l \<longleftrightarrow>
     (case lk_expires l of None \<Rightarrow> True | Some t \<Rightarrow> t > now) \<and>
     (case scope_owner sc of
        Some i \<Rightarrow> lk_owner l = Some i
      | None \<Rightarrow> lk_owner l = None \<and>
          (case scope_guest sc of Some g \<Rightarrow> lk_guest l = Some g | None \<Rightarrow> lk_guest l = None))"

definition oldest_first :: "link list \<Rightarrow> link list" where
  "oldest_first ls = sort_key (\<lambda>l. (lk_created l, lk_id l)) ls"

definition newest_first :: "link list \<Rightarrow> link list" where
  "newest_first ls = sort_key (\<lambda>l. - lk_created l) ls"

definition first_of :: "'a list \<Rightarrow> 'a option" where
  "first_of xs = (case xs of [] \<Rightarrow> None | x # _ \<Rightarrow> Some x)"

definition find_live_by_hash :: "moment \<Rightarrow> url_hash \<Rightarrow> dedup_scope \<Rightarrow> link_table \<Rightarrow> link option" where
  "find_live_by_hash now h sc tbl =
     first_of (oldest_first (filter (\<lambda>l. live_in_scope now sc l \<and> lk_hash l = h) tbl))"

definition find_by_owner :: "string \<Rightarrow> nat \<Rightarrow> nat \<Rightarrow> link_table \<Rightarrow> link list" where
  "find_by_owner user_id offset limit tbl =
     take limit (drop offset (newest_first (filter (\<lambda>l. lk_owner l = Some user_id) tbl)))"

text \<open>
  The two lookups in bulk return a dictionary with an entry for every key asked for.
\<close>

definition find_by_codes :: "short_code list \<Rightarrow> link_table \<Rightarrow> (short_code \<times> link option) list" where
  "find_by_codes cs tbl =
     (let found = map (\<lambda>l. (lk_code l, Some l)) (filter (\<lambda>l. lk_code l \<in> set cs) tbl)
      in fold (\<lambda>c m. if c \<in> set (map fst m) then m else m @ [(c, None)]) cs found)"

definition find_live_by_hashes ::
  "moment \<Rightarrow> url_hash list \<Rightarrow> dedup_scope \<Rightarrow> link_table \<Rightarrow> (url_hash \<times> link option) list" where
  "find_live_by_hashes now hs sc tbl =
     (let rows = oldest_first (filter (\<lambda>l. live_in_scope now sc l \<and> lk_hash l \<in> set hs) tbl);
          found = fold (\<lambda>l m. if lk_hash l \<in> set (map fst m) then m else m @ [(lk_hash l, Some l)]) rows []
      in fold (\<lambda>h m. if h \<in> set (map fst m) then m else m @ [(h, None)]) hs found)"

definition repo_increment_clicks :: "moment \<Rightarrow> short_code \<Rightarrow> link_table \<Rightarrow> (exn, link_table) result" where
  "repo_increment_clicks now c tbl =
     (if list_ex (\<lambda>l. lk_code l = c) tbl
      then Inr (map (\<lambda>l. if lk_code l = c then increment_clicks now l else l) tbl)
      else Inl (Domain (LinkNotFoundError (Some c))))"

definition count_guest_links_by_identifier :: "moment \<Rightarrow> string \<Rightarrow> int \<Rightarrow> link_table \<Rightarrow> int" where
  "count_guest_links_by_identifier now identifier since_days tbl =
     int (length (filter (\<lambda>l. lk_owner l = None \<and> lk_guest l = Some identifier
                               \<and> lk_created l \<ge> now - since_days * day) tbl))"

text \<open>
  \<open>guest_allowance\<close>: the lock it takes first changes no row; on PostgreSQL it orders the
  transactions of one guest, which is how they appear here, one after another.
\<close>

definition guest_allowance :: "moment \<Rightarrow> string \<Rightarrow> int \<Rightarrow> int \<Rightarrow> link_table \<Rightarrow> int" where
  "guest_allowance now guest_id limit window_days tbl =
     links_left_for_guest (count_guest_links_by_identifier now guest_id window_days tbl) limit"

definition delete_link_row :: "ident \<Rightarrow> link_table \<Rightarrow> bool \<times> link_table" where
  "delete_link_row i tbl = (i \<in> set (ids_of tbl), filter (\<lambda>l. lk_id l \<noteq> i) tbl)"

definition get_recent :: "nat \<Rightarrow> link_table \<Rightarrow> link list" where
  "get_recent limit tbl = take limit (newest_first tbl)"

definition DELETE_CHUNK_SIZE :: nat where
  "DELETE_CHUNK_SIZE = 500"

text \<open>
  The loop both bulk deletions run: select a chunk of the doomed rows, delete them by
  identifier, collect them, until a selection comes back empty. Deleting by identifier
  removes every row selected, so the number of doomed rows falls.
\<close>

function delete_in_chunks :: "(link \<Rightarrow> bool) \<Rightarrow> link list \<Rightarrow> link_table \<Rightarrow> link list \<times> link_table" where
  "delete_in_chunks doomed deleted tbl =
     (let chunk = take DELETE_CHUNK_SIZE (filter doomed tbl)
      in if chunk = [] then (deleted, tbl)
         else delete_in_chunks doomed (deleted @ chunk)
                (filter (\<lambda>l. lk_id l \<notin> set (ids_of chunk)) tbl))"
  by pat_completeness auto
termination
proof (relation "measure (\<lambda>(doomed, deleted, tbl). length (filter doomed tbl))", goal_cases)
  case 1
  then show ?case by simp
next
  case (2 doomed deleted tbl chunk)
  then have "chunk \<noteq> []" by blast
  then obtain l where l: "l \<in> set chunk" by (meson last_in_set)
  with 2 have "l \<in> set (filter doomed tbl)" by (auto dest: in_set_takeD)
  then have "length (filter (\<lambda>r. lk_id r \<notin> set (ids_of chunk)) (filter doomed tbl)) < length (filter doomed tbl)"
    using l by (intro length_filter_less [of l]) auto
  then show ?case by (simp add: conj_commute)
qed

declare delete_in_chunks.simps [simp del]

definition delete_by_owner :: "string \<Rightarrow> link_table \<Rightarrow> link list \<times> link_table" where
  "delete_by_owner user_id tbl = delete_in_chunks (\<lambda>l. lk_owner l = Some user_id) [] tbl"

definition delete_expired :: "moment \<Rightarrow> link_table \<Rightarrow> link list \<times> link_table" where
  "delete_expired now tbl =
     delete_in_chunks (\<lambda>l. case lk_expires l of None \<Rightarrow> False | Some t \<Rightarrow> t \<le> now) [] tbl"

text \<open>The constraints of the table, which every operation keeps.\<close>

definition table_wf :: "link_table \<Rightarrow> bool" where
  "table_wf tbl \<longleftrightarrow> distinct (ids_of tbl) \<and> distinct (codes_of tbl) \<and> list_all link_wf tbl"

section \<open>Lemmas: the entity and its row\<close>

lemma scope_wf_link_scope [simp]: "scope_wf (link_scope l)"
  by (simp add: link_scope_def for_owner_def for_guest_def split: option.split)

lemma increment_clicks_keeps [simp]:
  "lk_id (increment_clicks now l) = lk_id l" "lk_code (increment_clicks now l) = lk_code l"
  "lk_hash (increment_clicks now l) = lk_hash l" "lk_url (increment_clicks now l) = lk_url l"
  "lk_expires (increment_clicks now l) = lk_expires l" "lk_owner (increment_clicks now l) = lk_owner l"
  "lk_created (increment_clicks now l) = lk_created l" "lk_guest (increment_clicks now l) = lk_guest l"
  by (simp_all add: increment_clicks_def)

lemma link_wf_increment [simp]: "link_wf (increment_clicks now l) = link_wf l"
  by (simp add: link_wf_def)

lemma live_in_scope_iff:
  "scope_wf sc \<Longrightarrow> live_in_scope now sc l \<longleftrightarrow> \<not> is_expired now l \<and> link_scope l = sc"
  by (cases sc)
     (auto simp: live_in_scope_def is_expired_def link_scope_def for_owner_def for_guest_def
        DedupScope_def scope_wf_def split: option.splits)

text \<open>The filter of the deduplication query says what the entity says: alive, and of the scope.\<close>

lemma scope_query_matches_entity:
  assumes "scope_wf sc"
  shows "live_in_scope now sc l \<longleftrightarrow> \<not> is_expired now l \<and> link_scope l = sc"
  using assms by (rule live_in_scope_iff)

lemma to_domain_to_model:
  assumes "link_wf l" and "url_from_storage (lk_url l) = Inr (lk_url l)"
  shows "to_domain url_from_storage (to_model l) = Inr l"
proof (cases "lk_owner l")
  case None
  with assms show ?thesis by (simp add: to_domain_def to_model_def link_wf_def UrlHash_def ShortCode_def)
next
  case (Some i)
  with assms(1) have "strip i \<noteq> []" by (simp add: link_wf_def)
  then obtain x xs where "i = x # xs" "strip (x # xs) \<noteq> []" by (cases i) (auto simp: strip_def)
  with Some assms show ?thesis
    by (simp add: to_domain_def to_model_def link_wf_def UrlHash_def ShortCode_def OwnerID_def)
qed

lemma link_create_Inr:
  "link_create now i h c u ow g ttl = Inr l \<Longrightarrow>
     lk_id l = i \<and> lk_hash l = h \<and> lk_code l = c \<and> lk_url l = u \<and> lk_created l = now \<and>
     lk_clicks l = 0 \<and> lk_accessed l = None \<and> lk_owner l = ow \<and> lk_guest l = g \<and>
     lk_expires l = (if ttl > 0 then Some (now + ttl * second) else None)"
  by (auto simp: link_create_def result_simps split: if_splits)

lemma link_create_not_expired: "link_create now i h c u ow g ttl = Inr l \<Longrightarrow> \<not> is_expired now l"
  by (auto dest!: link_create_Inr simp: is_expired_def second_def split: if_splits)

section \<open>Lemmas: lookups and constraints\<close>

lemma find_by_code_Some: "find_by_code c tbl = Some l \<Longrightarrow> l \<in> set tbl \<and> lk_code l = c"
  by (auto simp: find_by_code_def find_Some_iff)

lemma find_by_code_None: "find_by_code c tbl = None \<longleftrightarrow> c \<notin> set (codes_of tbl)"
  by (auto simp: find_by_code_def find_None_iff)

lemma find_by_code_unique:
  assumes "distinct (codes_of tbl)" and "l \<in> set tbl"
  shows "find_by_code (lk_code l) tbl = Some l"
proof -
  obtain r where r: "find_by_code (lk_code l) tbl = Some r"
    using assms(2) find_by_code_None [of "lk_code l" tbl] by (cases "find_by_code (lk_code l) tbl") auto
  with find_by_code_Some [OF r] assms have "r = l"
    by (auto simp: distinct_map inj_on_def)
  with r show ?thesis by simp
qed

lemma find_by_code_append:
  "find_by_code c (tbl @ ls) = (case find_by_code c tbl of None \<Rightarrow> find_by_code c ls | Some l \<Rightarrow> Some l)"
  by (induction tbl) (auto simp: find_by_code_def)

lemma find_by_code_map:
  "(\<And>l. lk_code (f l) = lk_code l) \<Longrightarrow> find_by_code c (map f tbl) = map_option f (find_by_code c tbl)"
  by (induction tbl) (auto simp: find_by_code_def)

lemma find_by_code_filter:
  assumes "distinct (codes_of tbl)"
  shows "find_by_code c (filter P tbl) =
    (case find_by_code c tbl of None \<Rightarrow> None | Some l \<Rightarrow> if P l then Some l else None)"
  using assms
proof (induction tbl)
  case Nil
  then show ?case by (simp add: find_by_code_def)
next
  case (Cons l tbl)
  have "find_by_code (lk_code l) (filter P tbl) = None"
    using Cons.prems by (auto simp: find_by_code_None)
  with Cons show ?case by (auto simp: find_by_code_def split: option.splits)
qed

lemma find_live_by_hash_Some:
  "find_live_by_hash now h sc tbl = Some l \<Longrightarrow> l \<in> set tbl \<and> live_in_scope now sc l \<and> lk_hash l = h"
proof -
  assume "find_live_by_hash now h sc tbl = Some l"
  then have "l \<in> set (oldest_first (filter (\<lambda>l. live_in_scope now sc l \<and> lk_hash l = h) tbl))"
    by (auto simp: find_live_by_hash_def first_of_def split: list.splits)
  then show ?thesis by (simp add: oldest_first_def)
qed

lemma find_live_by_hash_None:
  "find_live_by_hash now h sc tbl = None \<longleftrightarrow> (\<forall>l \<in> set tbl. \<not> (live_in_scope now sc l \<and> lk_hash l = h))"
proof -
  have "find_live_by_hash now h sc tbl = None \<longleftrightarrow>
      oldest_first (filter (\<lambda>l. live_in_scope now sc l \<and> lk_hash l = h) tbl) = []"
    by (simp add: find_live_by_hash_def first_of_def split: list.split)
  also have "\<dots> \<longleftrightarrow> filter (\<lambda>l. live_in_scope now sc l \<and> lk_hash l = h) tbl = []"
    by (simp add: oldest_first_def flip: set_empty)
  finally show ?thesis by (simp add: filter_empty_conv)
qed

lemma table_wf_Nil [simp]: "table_wf []"
  by (simp add: table_wf_def)

lemma table_wf_filter: "table_wf tbl \<Longrightarrow> table_wf (filter P tbl)"
  by (auto simp: table_wf_def list_all_iff distinct_map_filter)

lemma map_keeps: "(\<And>l. f (g l) = f l) \<Longrightarrow> map f (map g xs) = map f xs"
  by simp

lemma save_link_new:
  assumes "lk_id l \<notin> set (ids_of tbl)"
  shows "save_link uids l tbl =
    (if lk_code l \<in> set (codes_of tbl) then Inl (Domain (LinkConflictError link_conflict_default))
     else if owner_known uids l then Inr (l, tbl @ [l]) else Inl (IntegrityError ''fk_urls_owner_id_users''))"
proof -
  have "list_ex (\<lambda>r. lk_id r \<noteq> lk_id l \<and> lk_code r = lk_code l) tbl \<longleftrightarrow> lk_code l \<in> set (codes_of tbl)"
    using assms unfolding list_ex_iff set_map image_iff by metis
  with assms show ?thesis by (simp add: save_link_def)
qed

lemma save_link_wf:
  assumes "table_wf tbl" and "link_wf l" and "lk_id l \<notin> set (ids_of tbl)"
    and "save_link uids l tbl = Inr (l', tbl')"
  shows "table_wf tbl' \<and> l' = l \<and> tbl' = tbl @ [l]"
  using assms by (auto simp: save_link_new table_wf_def split: if_splits)

lemma save_many_links_wf:
  assumes "table_wf tbl" and "list_all link_wf ls" and "save_many_links uids ls tbl = Inr (ls', tbl')"
  shows "table_wf tbl' \<and> ls' = ls \<and> tbl' = tbl @ ls"
proof -
  from assms(3) have r: "ls' = ls" "tbl' = tbl @ ls" "distinct (ids_of (tbl @ ls))" "distinct (codes_of ls)"
      "\<forall>l \<in> set ls. lk_code l \<notin> set (codes_of tbl)"
    by (auto simp: save_many_links_def list_ex_iff split: if_splits)
  have "set (codes_of tbl) \<inter> set (codes_of ls) = {}"
    by (rule Int_emptyI) (metis imageE r(5) set_map)
  with r assms(1,2) show ?thesis by (simp add: table_wf_def)
qed

lemma increment_wf:
  assumes "table_wf tbl" and "repo_increment_clicks now c tbl = Inr tbl'"
  shows "table_wf tbl'"
proof -
  from assms(2) have t: "tbl' = map (\<lambda>l. if lk_code l = c then increment_clicks now l else l) tbl"
    by (simp add: repo_increment_clicks_def split: if_splits)
  have "ids_of tbl' = ids_of tbl" "codes_of tbl' = codes_of tbl"
    by (simp_all add: t)
  moreover have "list_all link_wf tbl'"
    using assms(1) by (auto simp: t table_wf_def list_all_iff)
  ultimately show ?thesis using assms(1) by (simp add: table_wf_def)
qed

section \<open>Lemmas: bulk deletion\<close>

lemma filter_by_ids:
  assumes "distinct (ids_of tbl)" and "set chunk \<subseteq> set tbl"
  shows "filter (\<lambda>l. lk_id l \<notin> set (ids_of chunk)) tbl = filter (\<lambda>l. l \<notin> set chunk) tbl"
proof (rule filter_cong [OF refl])
  fix l assume "l \<in> set tbl"
  then have "(\<exists>r \<in> set chunk. lk_id r = lk_id l) \<longleftrightarrow> l \<in> set chunk"
    using assms by (auto simp: distinct_map inj_on_def)
  then show "(lk_id l \<notin> set (ids_of chunk)) = (l \<notin> set chunk)" by force
qed

lemma filter_notin_take:
  "distinct xs \<Longrightarrow> filter (\<lambda>x. x \<notin> set (take n xs)) xs = drop n xs"
proof (induction xs arbitrary: n)
  case Nil
  then show ?case by simp
next
  case (Cons x xs)
  show ?case
  proof (cases n)
    case 0
    then show ?thesis by simp
  next
    case (Suc m)
    have "filter (\<lambda>y. y \<noteq> x \<and> y \<notin> set (take m xs)) xs = filter (\<lambda>y. y \<notin> set (take m xs)) xs"
      using Cons.prems by (intro filter_cong) auto
    with Cons Suc show ?thesis by simp
  qed
qed

lemma delete_in_chunks_eq:
  "distinct (ids_of tbl) \<Longrightarrow>
     delete_in_chunks doomed deleted tbl =
       (deleted @ filter doomed tbl, filter (\<lambda>l. \<not> doomed l) tbl)"
proof (induction doomed deleted tbl rule: delete_in_chunks.induct)
  case (1 doomed deleted tbl)
  let ?F = "filter doomed tbl" and ?chunk = "take DELETE_CHUNK_SIZE (filter doomed tbl)"
  let ?rest = "filter (\<lambda>l. lk_id l \<notin> set (ids_of ?chunk)) tbl"
  have dt: "distinct tbl" using "1.prems" by (simp add: distinct_map)
  have sub: "set ?chunk \<subseteq> set tbl" by (auto dest: in_set_takeD)
  have rest: "?rest = filter (\<lambda>l. l \<notin> set ?chunk) tbl"
    by (rule filter_by_ids [OF "1.prems" sub])
  show ?case
  proof (cases "?chunk = []")
    case True
    then have "?F = []" by (simp add: DELETE_CHUNK_SIZE_def)
    then have "filter (\<lambda>l. \<not> doomed l) tbl = tbl" by (simp add: filter_empty_conv filter_id_conv)
    with True \<open>?F = []\<close> show ?thesis by (subst delete_in_chunks.simps) simp
  next
    case False
    have "filter doomed ?rest = filter (\<lambda>l. l \<notin> set ?chunk) ?F"
      by (simp only: rest filter_filter conj_commute)
    also have "\<dots> = drop DELETE_CHUNK_SIZE ?F" by (rule filter_notin_take) (simp add: dt)
    finally have left: "filter doomed ?rest = drop DELETE_CHUNK_SIZE ?F" .
    have kept: "filter (\<lambda>l. \<not> doomed l) ?rest = filter (\<lambda>l. \<not> doomed l) tbl"
      unfolding rest filter_filter by (rule filter_cong [OF refl]) (auto dest: in_set_takeD)
    have "delete_in_chunks doomed deleted tbl = delete_in_chunks doomed (deleted @ ?chunk) ?rest"
      using False by (subst delete_in_chunks.simps) (simp add: Let_def)
    also have "\<dots> = ((deleted @ ?chunk) @ filter doomed ?rest, filter (\<lambda>l. \<not> doomed l) ?rest)"
      by (rule "1.IH" [OF refl False]) (simp add: "1.prems" distinct_map_filter)
    finally show ?thesis unfolding left kept by simp
  qed
qed

lemma delete_expired_eq:
  "distinct (ids_of tbl) \<Longrightarrow>
     delete_expired now tbl = (filter (is_expired now) tbl, filter (\<lambda>l. \<not> is_expired now l) tbl)"
proof -
  have "(\<lambda>l. case lk_expires l of None \<Rightarrow> False | Some t \<Rightarrow> t \<le> now) = is_expired now"
    by (simp add: fun_eq_iff is_expired_def)
  then show "distinct (ids_of tbl) \<Longrightarrow> ?thesis"
    by (simp add: delete_expired_def delete_in_chunks_eq)
qed

lemma delete_by_owner_eq:
  "distinct (ids_of tbl) \<Longrightarrow>
     delete_by_owner uid tbl =
       (filter (\<lambda>l. lk_owner l = Some uid) tbl, filter (\<lambda>l. lk_owner l \<noteq> Some uid) tbl)"
  by (simp add: delete_by_owner_def delete_in_chunks_eq)

section \<open>The lookups in bulk\<close>

lemma key_iff: "k \<in> fst ` set m \<longleftrightarrow> map_of m k \<noteq> None"
  by (metis map_of_eq_None_iff)

lemma map_of_fill:
  "map_of (fold (\<lambda>k m. if k \<in> set (map fst m) then m else m @ [(k, None)]) ks m0) k =
     (case map_of m0 k of Some v \<Rightarrow> Some v | None \<Rightarrow> if k \<in> set ks then Some None else None)"
proof (induction ks arbitrary: m0)
  case Nil
  then show ?case by (simp split: option.split)
next
  case (Cons k' ks)
  then show ?case
    by (cases "map_of m0 k'"; cases "k = k'") (auto simp: key_iff map_add_def split: option.split)
qed

lemma map_of_keep_first:
  "map_of (fold (\<lambda>l m. if f l \<in> set (map fst m) then m else m @ [(f l, Some l)]) ls m0) k =
     (case map_of m0 k of Some v \<Rightarrow> Some v | None \<Rightarrow> map_option Some (List.find (\<lambda>l. f l = k) ls))"
proof (induction ls arbitrary: m0)
  case Nil
  then show ?case by (simp split: option.split)
next
  case (Cons l ls)
  then show ?case
    by (cases "map_of m0 (f l)"; cases "k = f l") (auto simp: key_iff map_add_def split: option.split)
qed

lemma map_of_found_codes:
  "map_of (map (\<lambda>l. (lk_code l, Some l)) (filter (\<lambda>l. lk_code l \<in> set cs) tbl)) c =
     (if c \<in> set cs then map_option Some (find_by_code c tbl) else None)"
  by (induction tbl) (auto simp: find_by_code_def)

lemma find_first_of: "List.find P xs = first_of (filter P xs)"
  by (induction xs) (auto simp: first_of_def)

lemma map_of_find_by_codes:
  "map_of (find_by_codes cs tbl) c = (if c \<in> set cs then Some (find_by_code c tbl) else None)"
  unfolding find_by_codes_def Let_def map_of_fill map_of_found_codes by (simp split: option.split)

lemma find_by_codes_entry:
  "(c, Some l) \<in> set (find_by_codes cs tbl) \<longleftrightarrow> l \<in> set tbl \<and> lk_code l = c \<and> c \<in> set cs"
proof -
  have "(c, Some l) \<in> set (fold (\<lambda>k m. if k \<in> set (map fst m) then m else m @ [(k, None)]) ks m0) \<longleftrightarrow> (c, Some l) \<in> set m0"
    for ks and m0 :: "(short_code \<times> link option) list"
    by (induction ks arbitrary: m0) auto
  then show ?thesis by (auto simp: find_by_codes_def Let_def)
qed

lemma map_of_find_live_by_hashes:
  "map_of (find_live_by_hashes now hs sc tbl) h = (if h \<in> set hs then Some (find_live_by_hash now h sc tbl) else None)"
proof -
  let ?rows = "oldest_first (filter (\<lambda>l. live_in_scope now sc l \<and> lk_hash l \<in> set hs) tbl)"
  have "List.find (\<lambda>l. lk_hash l = h) ?rows = (if h \<in> set hs then find_live_by_hash now h sc tbl else None)"
  proof (cases "h \<in> set hs")
    case True
    then have "filter (\<lambda>l. live_in_scope now sc l \<and> lk_hash l \<in> set hs \<and> lk_hash l = h) tbl
        = filter (\<lambda>l. live_in_scope now sc l \<and> lk_hash l = h) tbl" by (intro filter_cong) auto
    then show ?thesis using True
      by (simp add: find_first_of find_live_by_hash_def oldest_first_def filter_sort)
  next
    case False
    then have "filter (\<lambda>l. live_in_scope now sc l \<and> lk_hash l \<in> set hs \<and> lk_hash l = h) tbl = []"
      by (auto simp: filter_empty_conv)
    then show ?thesis using False
      by (simp add: find_first_of first_of_def oldest_first_def filter_sort)
  qed
  then show ?thesis
    unfolding find_live_by_hashes_def Let_def map_of_fill map_of_keep_first by (simp split: option.split)
qed

section \<open>Properties\<close>

text \<open>
  The lookups in bulk agree with the single ones: the dictionary that
  \<open>find_by_codes\<close> returns holds, for every code asked for, what \<open>find_by_code\<close> returns for
  it, and \<open>find_live_by_hashes\<close> holds for every hash what \<open>find_live_by_hash\<close> returns, the
  oldest live link of the scope; other keys are absent.
\<close>

lemma bulk_lookups_agree:
  "map_of (find_by_codes cs tbl) c = (if c \<in> set cs then Some (find_by_code c tbl) else None) \<and>
   map_of (find_live_by_hashes now hs sc tbl) h = (if h \<in> set hs then Some (find_live_by_hash now h sc tbl) else None)"
  by (simp add: map_of_find_by_codes map_of_find_live_by_hashes)

text \<open>
  Deleting in chunks ends, and removes exactly what it should: both bulk deletions
  return the doomed links in the order of the table and leave the others untouched,
  however many chunks that takes.
\<close>

lemma chunked_deletion_is_a_filter:
  assumes "distinct (ids_of tbl)"
  shows "delete_expired now tbl = (filter (is_expired now) tbl, filter (\<lambda>l. \<not> is_expired now l) tbl) \<and>
    delete_by_owner uid tbl = (filter (\<lambda>l. lk_owner l = Some uid) tbl, filter (\<lambda>l. lk_owner l \<noteq> Some uid) tbl)"
  using assms by (simp add: delete_expired_eq delete_by_owner_eq)

definition two_links :: link_table where
  "two_links =
     [\<lparr>lk_id = ''1'', lk_hash = ''h'', lk_code = ''abc123'', lk_url = ''u'', lk_created = 0, lk_clicks = 0, lk_accessed = None,
       lk_owner = Some ''ann'', lk_expires = Some 5, lk_guest = None\<rparr>,
      \<lparr>lk_id = ''2'', lk_hash = ''h'', lk_code = ''abc124'', lk_url = ''u'', lk_created = 0, lk_clicks = 0, lk_accessed = None,
       lk_owner = None, lk_expires = None, lk_guest = Some ''g''\<rparr>]"

end
