(* ===== verification/Cache.thy ===== *)
theory Cache
  imports Links
begin

text \<open>
  The cache the link use cases are given: the ports \<^verbatim>\<open>LinkCache\<close>, \<^verbatim>\<open>RedirectCache\<close> and
  \<^verbatim>\<open>StatsCache\<close> of \<^verbatim>\<open>application/ports/cache\<close> as a record of operations, the provider
  \<^verbatim>\<open>InMemoryLinkCache\<close> (\<^verbatim>\<open>infrastructure/cache/memory_cache.py\<close>) and the provider
  \<^verbatim>\<open>NullCache\<close>. The locale \<open>link_cache\<close> states what a use case may rely on, in terms of
  what a lookup by code and a lookup of a redirect can still find; both providers are
  interpretations of it. Times are microseconds, where the code adds seconds to the
  floating-point clock.
\<close>

record cached_redirect =
  cr_code :: short_code
  cr_url :: string
  cr_expires :: "moment option"

definition redirect_is_expired :: "moment \<Rightarrow> cached_redirect \<Rightarrow> bool" where
  "redirect_is_expired now r = (case cr_expires r of None \<Rightarrow> False | Some t \<Rightarrow> now \<ge> t)"

definition is_for :: "short_code \<Rightarrow> cached_redirect \<Rightarrow> bool" where
  "is_for c r \<longleftrightarrow> cr_code r = c"

definition redirect_of :: "link \<Rightarrow> cached_redirect" where
  "redirect_of l = \<lparr>cr_code = lk_code l, cr_url = lk_url l, cr_expires = lk_expires l\<rparr>"

type_synonym stats_value = "(string \<times> param_value) list"

section \<open>The port\<close>

record 'c cache_ops =
  co_get_by_code :: "moment \<Rightarrow> short_code \<Rightarrow> 'c \<Rightarrow> link option \<times> 'c"
  co_get_by_hash :: "moment \<Rightarrow> url_hash \<Rightarrow> dedup_scope \<Rightarrow> 'c \<Rightarrow> link option \<times> 'c"
  co_get_by_hashes :: "moment \<Rightarrow> url_hash list \<Rightarrow> dedup_scope \<Rightarrow> 'c \<Rightarrow> (url_hash \<times> link option) list \<times> 'c"
  co_save :: "moment \<Rightarrow> link \<Rightarrow> 'c \<Rightarrow> 'c"
  co_delete_by_code :: "short_code \<Rightarrow> 'c \<Rightarrow> bool \<times> 'c"
  co_delete :: "link \<Rightarrow> 'c \<Rightarrow> bool \<times> 'c"
  co_get_redirect :: "moment \<Rightarrow> short_code \<Rightarrow> 'c \<Rightarrow> cached_redirect option \<times> 'c"
  co_save_redirect :: "moment \<Rightarrow> short_code \<Rightarrow> string \<Rightarrow> moment option \<Rightarrow> 'c \<Rightarrow> 'c"
  co_delete_redirect :: "short_code \<Rightarrow> 'c \<Rightarrow> 'c"
  co_get_stats :: "moment \<Rightarrow> 'c \<Rightarrow> stats_value option \<times> 'c"
  co_save_stats :: "moment \<Rightarrow> stats_value \<Rightarrow> 'c \<Rightarrow> 'c"
  co_delete_stats :: "'c \<Rightarrow> 'c"

section \<open>The in-memory cache\<close>

record memory_cache =
  mc_prefix :: string
  mc_links :: "(string \<times> link) list"
  mc_redirects :: "(string \<times> cached_redirect) list"
  mc_stats :: "stats_value option"
  mc_expiry :: "(string \<times> moment) list"
  mc_link_ttl :: int
  mc_stats_ttl :: int

definition mc_init :: "string \<Rightarrow> int \<Rightarrow> int \<Rightarrow> memory_cache" where
  "mc_init key_prefix link_ttl stats_ttl =
     \<lparr>mc_prefix = key_prefix, mc_links = [], mc_redirects = [], mc_stats = None, mc_expiry = [],
      mc_link_ttl = link_ttl, mc_stats_ttl = stats_ttl\<rparr>"

definition mc_is_expired :: "moment \<Rightarrow> string \<Rightarrow> memory_cache \<Rightarrow> bool" where
  "mc_is_expired now key m = (case map_of (mc_expiry m) key of None \<Rightarrow> False | Some e \<Rightarrow> now > e)"

text \<open>One round of the loop in \<^verbatim>\<open>_clean_expired\<close>, and the loop.\<close>

definition mc_drop_key :: "string \<Rightarrow> memory_cache \<Rightarrow> memory_cache" where
  "mc_drop_key key m =
     m\<lparr>mc_links := dict_pop key (mc_links m), mc_redirects := dict_pop key (mc_redirects m),
       mc_stats := (if key = for_stats (mc_prefix m) then None else mc_stats m),
       mc_expiry := dict_pop key (mc_expiry m)\<rparr>"

definition mc_clean_expired :: "moment \<Rightarrow> memory_cache \<Rightarrow> memory_cache" where
  "mc_clean_expired now m =
     fold mc_drop_key (map fst (filter (\<lambda>(key, expiry). expiry < now) (mc_expiry m))) m"

definition mc_clear_all :: "memory_cache \<Rightarrow> memory_cache" where
  "mc_clear_all m = m\<lparr>mc_links := [], mc_redirects := [], mc_stats := None, mc_expiry := []\<rparr>"

definition mc_get_cache_info :: "moment \<Rightarrow> memory_cache \<Rightarrow> (nat \<times> nat \<times> bool \<times> nat) \<times> memory_cache" where
  "mc_get_cache_info now m =
     (let m1 = mc_clean_expired now m
      in ((length (mc_links m1), length (mc_redirects m1), mc_stats m1 \<noteq> None, length (mc_expiry m1)), m1))"

definition mc_get_by_code :: "moment \<Rightarrow> short_code \<Rightarrow> memory_cache \<Rightarrow> link option \<times> memory_cache" where
  "mc_get_by_code now c m =
     (let m1 = mc_clean_expired now m
      in (map_of (mc_links m1) (for_short_code (mc_prefix m1) c), m1))"

definition mc_get_by_hash ::
  "moment \<Rightarrow> url_hash \<Rightarrow> dedup_scope \<Rightarrow> memory_cache \<Rightarrow> link option \<times> memory_cache" where
  "mc_get_by_hash now h sc m =
     (let m1 = mc_clean_expired now m
      in (map_of (mc_links m1) (for_url_hash (mc_prefix m1) h (scope_token sc)), m1))"

definition mc_get_by_hashes ::
  "moment \<Rightarrow> url_hash list \<Rightarrow> dedup_scope \<Rightarrow> memory_cache \<Rightarrow> (url_hash \<times> link option) list \<times> memory_cache" where
  "mc_get_by_hashes now hs sc m =
     (let m1 = mc_clean_expired now m; token = scope_token sc
      in (fold (\<lambda>h res. dict_set h (map_of (mc_links m1) (for_url_hash (mc_prefix m1) h token)) res) hs [], m1))"

definition mc_redirect_ttl :: "moment \<Rightarrow> memory_cache \<Rightarrow> moment option \<Rightarrow> int option" where
  "mc_redirect_ttl now m expires_at =
     (case expires_at of None \<Rightarrow> Some (mc_link_ttl m * second)
      | Some e \<Rightarrow> if e - now \<le> 0 then None else Some (min (mc_link_ttl m * second) (e - now)))"

definition mc_save :: "moment \<Rightarrow> link \<Rightarrow> memory_cache \<Rightarrow> memory_cache" where
  "mc_save now l m =
     (let hash_key = for_url_hash (mc_prefix m) (lk_hash l) (scope_token (link_scope l));
          code_key = for_short_code (mc_prefix m) (lk_code l);
          redirect_key = for_redirect (mc_prefix m) (lk_code l);
          deadline = now + mc_link_ttl m * second;
          m1 = m\<lparr>mc_links := dict_set code_key l (dict_set hash_key l (mc_links m)),
                 mc_expiry := dict_set code_key deadline (dict_set hash_key deadline (mc_expiry m))\<rparr>
      in case mc_redirect_ttl now m (lk_expires l) of
           None \<Rightarrow> m1\<lparr>mc_redirects := dict_pop redirect_key (mc_redirects m1),
                      mc_expiry := dict_pop redirect_key (mc_expiry m1)\<rparr>
         | Some ttl \<Rightarrow> m1\<lparr>mc_redirects := dict_set redirect_key (redirect_of l) (mc_redirects m1),
                          mc_expiry := dict_set redirect_key (now + ttl) (mc_expiry m1)\<rparr>)"

definition mc_save_many :: "moment \<Rightarrow> link list \<Rightarrow> memory_cache \<Rightarrow> memory_cache" where
  "mc_save_many now ls m = fold (mc_save now) ls m"

definition mc_pop_key :: "string \<Rightarrow> memory_cache \<Rightarrow> memory_cache" where
  "mc_pop_key key m =
     m\<lparr>mc_links := dict_pop key (mc_links m), mc_redirects := dict_pop key (mc_redirects m),
       mc_expiry := dict_pop key (mc_expiry m)\<rparr>"

definition mc_delete_by_code :: "short_code \<Rightarrow> memory_cache \<Rightarrow> bool \<times> memory_cache" where
  "mc_delete_by_code c m =
     (True, fold mc_pop_key [for_short_code (mc_prefix m) c, for_redirect (mc_prefix m) c] m)"

definition mc_delete :: "link \<Rightarrow> memory_cache \<Rightarrow> bool \<times> memory_cache" where
  "mc_delete l m =
     (True, fold mc_pop_key
        [for_short_code (mc_prefix m) (lk_code l), for_redirect (mc_prefix m) (lk_code l),
         for_url_hash (mc_prefix m) (lk_hash l) (scope_token (link_scope l))] m)"

definition mc_delete_redirect :: "short_code \<Rightarrow> memory_cache \<Rightarrow> memory_cache" where
  "mc_delete_redirect c m =
     m\<lparr>mc_redirects := dict_pop (for_redirect (mc_prefix m) c) (mc_redirects m),
       mc_expiry := dict_pop (for_redirect (mc_prefix m) c) (mc_expiry m)\<rparr>"

definition mc_get_redirect :: "moment \<Rightarrow> short_code \<Rightarrow> memory_cache \<Rightarrow> cached_redirect option \<times> memory_cache" where
  "mc_get_redirect now c m =
     (let m1 = mc_clean_expired now m
      in (case map_of (mc_redirects m1) (for_redirect (mc_prefix m1) c) of
            None \<Rightarrow> None
          | Some entry \<Rightarrow> if \<not> is_for c entry \<or> redirect_is_expired now entry then None else Some entry, m1))"

definition mc_save_redirect ::
  "moment \<Rightarrow> short_code \<Rightarrow> string \<Rightarrow> moment option \<Rightarrow> memory_cache \<Rightarrow> memory_cache" where
  "mc_save_redirect now c original_url expires_at m =
     (case mc_redirect_ttl now m expires_at of
        None \<Rightarrow> m
      | Some ttl \<Rightarrow>
          m\<lparr>mc_redirects := dict_set (for_redirect (mc_prefix m) c)
               \<lparr>cr_code = c, cr_url = original_url, cr_expires = expires_at\<rparr> (mc_redirects m),
            mc_expiry := dict_set (for_redirect (mc_prefix m) c) (now + ttl) (mc_expiry m)\<rparr>)"

definition mc_get_stats :: "moment \<Rightarrow> memory_cache \<Rightarrow> stats_value option \<times> memory_cache" where
  "mc_get_stats now m =
     (let m1 = mc_clean_expired now m; key = for_stats (mc_prefix m1)
      in if key \<in> set (map fst (mc_expiry m1)) \<and> \<not> mc_is_expired now key m1 then (mc_stats m1, m1)
         else (None, m1\<lparr>mc_stats := None\<rparr>))"

definition mc_save_stats :: "moment \<Rightarrow> stats_value \<Rightarrow> memory_cache \<Rightarrow> memory_cache" where
  "mc_save_stats now stats m =
     m\<lparr>mc_stats := Some stats,
       mc_expiry := dict_set (for_stats (mc_prefix m)) (now + mc_stats_ttl m * second) (mc_expiry m)\<rparr>"

definition mc_delete_stats :: "memory_cache \<Rightarrow> memory_cache" where
  "mc_delete_stats m =
     m\<lparr>mc_stats := None, mc_expiry := dict_pop (for_stats (mc_prefix m)) (mc_expiry m)\<rparr>"

definition memory_ops :: "memory_cache cache_ops" where
  "memory_ops =
     \<lparr>co_get_by_code = mc_get_by_code, co_get_by_hash = mc_get_by_hash,
      co_get_by_hashes = mc_get_by_hashes, co_save = mc_save,
      co_delete_by_code = mc_delete_by_code, co_delete = mc_delete,
      co_get_redirect = mc_get_redirect, co_save_redirect = mc_save_redirect,
      co_delete_redirect = mc_delete_redirect, co_get_stats = mc_get_stats,
      co_save_stats = mc_save_stats, co_delete_stats = mc_delete_stats\<rparr>"

section \<open>The cache that stores nothing\<close>

definition null_ops :: "unit cache_ops" where
  "null_ops =
     \<lparr>co_get_by_code = (\<lambda>now c u. (None, u)), co_get_by_hash = (\<lambda>now h sc u. (None, u)),
      co_get_by_hashes = (\<lambda>now hs sc u. (fold (\<lambda>h res. dict_set h None res) hs [], u)),
      co_save = (\<lambda>now l u. u), co_delete_by_code = (\<lambda>c u. (True, u)), co_delete = (\<lambda>l u. (True, u)),
      co_get_redirect = (\<lambda>now c u. (None, u)), co_save_redirect = (\<lambda>now c url e u. u),
      co_delete_redirect = (\<lambda>c u. u), co_get_stats = (\<lambda>now u. (None, u)),
      co_save_stats = (\<lambda>now s u. u), co_delete_stats = (\<lambda>u. u)\<rparr>"

text \<open>A link with an expiry, for evaluation.\<close>

definition sample_link :: link where
  "sample_link = \<lparr>lk_id = ''1'', lk_hash = replicate 64 (CHR ''a''), lk_code = ''abc123'', lk_url = ''https://example.org/'',
     lk_created = 0, lk_clicks = 0, lk_accessed = None, lk_owner = None, lk_expires = Some 5000000, lk_guest = None\<rparr>"

section \<open>What a use case may rely on\<close>

text \<open>
  \<open>by_code\<close> and \<open>by_redirect\<close> are what the two lookups by code can still find, whatever the
  time. A lookup answers from them or not at all; an operation never makes more of them
  reachable than its own entry; a deletion makes the code unreachable. The laws say
  nothing about a hit: a cache may forget at any moment.
\<close>

definition shrinks ::
  "('c \<Rightarrow> short_code \<rightharpoonup> link) \<Rightarrow> ('c \<Rightarrow> short_code \<rightharpoonup> cached_redirect) \<Rightarrow> 'c \<Rightarrow> 'c \<Rightarrow> bool" where
  "shrinks by_code by_redirect c c' \<longleftrightarrow> by_code c' \<subseteq>\<^sub>m by_code c \<and> by_redirect c' \<subseteq>\<^sub>m by_redirect c"

locale link_cache =
  fixes ops :: "'c cache_ops"
    and by_code :: "'c \<Rightarrow> short_code \<rightharpoonup> link"
    and by_redirect :: "'c \<Rightarrow> short_code \<rightharpoonup> cached_redirect"
    and inv :: "'c \<Rightarrow> bool"
  assumes get_by_code:
      "inv c \<Longrightarrow> co_get_by_code ops now k c = (r, c') \<Longrightarrow>
         inv c' \<and> shrinks by_code by_redirect c c' \<and> (r = None \<or> r = by_code c k)"
    and get_by_hash:
      "inv c \<Longrightarrow> co_get_by_hash ops now h sc c = (r, c') \<Longrightarrow> inv c' \<and> shrinks by_code by_redirect c c'"
    and get_by_hashes:
      "inv c \<Longrightarrow> co_get_by_hashes ops now hs sc c = (rs, c') \<Longrightarrow> inv c' \<and> shrinks by_code by_redirect c c'"
    and get_redirect:
      "inv c \<Longrightarrow> co_get_redirect ops now k c = (q, c') \<Longrightarrow>
         inv c' \<and> shrinks by_code by_redirect c c' \<and> (q = None \<or> q = by_redirect c k)"
    and save:
      "inv c \<Longrightarrow> inv (co_save ops now l c)
         \<and> by_code (co_save ops now l c) \<subseteq>\<^sub>m (by_code c)(lk_code l \<mapsto> l)
         \<and> by_redirect (co_save ops now l c) \<subseteq>\<^sub>m (by_redirect c)(lk_code l \<mapsto> redirect_of l)"
    and save_redirect:
      "inv c \<Longrightarrow> inv (co_save_redirect ops now k url e c)
         \<and> by_code (co_save_redirect ops now k url e c) \<subseteq>\<^sub>m by_code c
         \<and> (by_redirect (co_save_redirect ops now k url e c) \<subseteq>\<^sub>m by_redirect c \<or>
            by_redirect (co_save_redirect ops now k url e c)
              \<subseteq>\<^sub>m (by_redirect c)(k \<mapsto> \<lparr>cr_code = k, cr_url = url, cr_expires = e\<rparr>))"
    and delete:
      "inv c \<Longrightarrow> co_delete ops l c = (b, c') \<Longrightarrow>
         inv c' \<and> by_code c' \<subseteq>\<^sub>m (by_code c)(lk_code l := None)
         \<and> by_redirect c' \<subseteq>\<^sub>m (by_redirect c)(lk_code l := None)"
    and delete_by_code:
      "inv c \<Longrightarrow> co_delete_by_code ops k c = (b, c') \<Longrightarrow>
         inv c' \<and> by_code c' \<subseteq>\<^sub>m (by_code c)(k := None) \<and> by_redirect c' \<subseteq>\<^sub>m (by_redirect c)(k := None)"
    and delete_redirect:
      "inv c \<Longrightarrow> inv (co_delete_redirect ops k c)
         \<and> by_code (co_delete_redirect ops k c) \<subseteq>\<^sub>m by_code c
         \<and> by_redirect (co_delete_redirect ops k c) \<subseteq>\<^sub>m (by_redirect c)(k := None)"
    and delete_stats:
      "inv c \<Longrightarrow> inv (co_delete_stats ops c) \<and> shrinks by_code by_redirect c (co_delete_stats ops c)"


section \<open>The in-memory cache keeps its books\<close>

definition mc_by_code :: "memory_cache \<Rightarrow> short_code \<rightharpoonup> link" where
  "mc_by_code m c = map_of (mc_links m) (for_short_code (mc_prefix m) c)"

definition mc_by_redirect :: "memory_cache \<Rightarrow> short_code \<rightharpoonup> cached_redirect" where
  "mc_by_redirect m c = map_of (mc_redirects m) (for_redirect (mc_prefix m) c)"

text \<open>
  Every entry has a deadline, so that \<open>_clean_expired\<close> finds it, and the key of a redirect or
  of the statistics never names a link.
\<close>

definition mc_inv :: "memory_cache \<Rightarrow> bool" where
  "mc_inv m \<longleftrightarrow>
     dom (map_of (mc_links m)) \<union> dom (map_of (mc_redirects m)) \<subseteq> dom (map_of (mc_expiry m)) \<and>
     (mc_stats m \<noteq> None \<longrightarrow> for_stats (mc_prefix m) \<in> dom (map_of (mc_expiry m))) \<and>
     (\<forall>c. map_of (mc_links m) (for_redirect (mc_prefix m) c) = None) \<and>
     map_of (mc_links m) (for_stats (mc_prefix m)) = None \<and>
     map_of (mc_redirects m) (for_stats (mc_prefix m)) = None \<and>
     distinct (map fst (mc_expiry m))"

definition overdue :: "moment \<Rightarrow> memory_cache \<Rightarrow> string set" where
  "overdue now m = fst ` {e \<in> set (mc_expiry m). snd e < now}"

lemma fold_mc_drop_key:
  "mc_prefix (fold mc_drop_key ks m) = mc_prefix m"
  "mc_link_ttl (fold mc_drop_key ks m) = mc_link_ttl m"
  "mc_stats_ttl (fold mc_drop_key ks m) = mc_stats_ttl m"
  "map_of (mc_links (fold mc_drop_key ks m)) = map_of (mc_links m) |` (- set ks)"
  "map_of (mc_redirects (fold mc_drop_key ks m)) = map_of (mc_redirects m) |` (- set ks)"
  "map_of (mc_expiry (fold mc_drop_key ks m)) = map_of (mc_expiry m) |` (- set ks)"
  "mc_stats (fold mc_drop_key ks m) = (if for_stats (mc_prefix m) \<in> set ks then None else mc_stats m)"
  by (induction ks arbitrary: m) (auto simp: mc_drop_key_def restrict_map_def fun_eq_iff)

lemma set_overdue: "set (map fst (filter (\<lambda>(key, expiry). expiry < now) (mc_expiry m))) = overdue now m"
  by (auto simp: overdue_def image_iff Bex_def)

lemma mc_clean_expired [simp]:
  "mc_prefix (mc_clean_expired now m) = mc_prefix m"
  "mc_link_ttl (mc_clean_expired now m) = mc_link_ttl m"
  "mc_stats_ttl (mc_clean_expired now m) = mc_stats_ttl m"
  "map_of (mc_links (mc_clean_expired now m)) = map_of (mc_links m) |` (- overdue now m)"
  "map_of (mc_redirects (mc_clean_expired now m)) = map_of (mc_redirects m) |` (- overdue now m)"
  "map_of (mc_expiry (mc_clean_expired now m)) = map_of (mc_expiry m) |` (- overdue now m)"
  "mc_stats (mc_clean_expired now m) = (if for_stats (mc_prefix m) \<in> overdue now m then None else mc_stats m)"
  unfolding mc_clean_expired_def fold_mc_drop_key set_overdue by simp_all

lemma dict_pop_distinct [simp]: "distinct (map fst m) \<Longrightarrow> distinct (map fst (dict_pop k m))"
  by (simp add: dict_pop_def distinct_map_filter)

lemma fold_drop_distinct: "distinct (map fst (mc_expiry m)) \<Longrightarrow> distinct (map fst (mc_expiry (fold mc_drop_key ks m)))"
  by (induction ks arbitrary: m) (simp_all add: mc_drop_key_def)

lemma mc_clean_distinct [simp]:
  "distinct (map fst (mc_expiry m)) \<Longrightarrow> distinct (map fst (mc_expiry (mc_clean_expired now m)))"
  by (simp add: mc_clean_expired_def fold_drop_distinct)

lemma overdue_iff:
  "distinct (map fst (mc_expiry m)) \<Longrightarrow> k \<in> overdue now m \<longleftrightarrow> (\<exists>e. map_of (mc_expiry m) k = Some e \<and> e < now)"
  by (auto simp: overdue_def image_iff Bex_def map_of_eq_Some_iff)

lemma mc_clean_shrinks: "shrinks mc_by_code mc_by_redirect m (mc_clean_expired now m)"
  by (auto simp: shrinks_def mc_by_code_def mc_by_redirect_def map_le_def restrict_map_def split: if_splits)

lemma restrict_map_apply: "(f |` A) k = (if k \<in> A then f k else None)"
  by (simp add: restrict_map_def)

lemma mc_inv_clean: "mc_inv m \<Longrightarrow> mc_inv (mc_clean_expired now m)"
  by (auto simp: mc_inv_def restrict_map_apply split: if_splits)

lemma mc_inv_init [simp]: "mc_inv (mc_init p lt st)"
  by (simp add: mc_inv_def mc_init_def)

lemma mc_pop_key [simp]:
  "mc_prefix (mc_pop_key k m) = mc_prefix m"
  "map_of (mc_links (mc_pop_key k m)) = (map_of (mc_links m))(k := None)"
  "map_of (mc_redirects (mc_pop_key k m)) = (map_of (mc_redirects m))(k := None)"
  "map_of (mc_expiry (mc_pop_key k m)) = (map_of (mc_expiry m))(k := None)"
  "mc_stats (mc_pop_key k m) = mc_stats m"
  "distinct (map fst (mc_expiry m)) \<Longrightarrow> distinct (map fst (mc_expiry (mc_pop_key k m)))"
  by (simp_all add: mc_pop_key_def)

lemma mc_inv_pop_key: "mc_inv m \<Longrightarrow> k \<noteq> for_stats (mc_prefix m) \<Longrightarrow> mc_inv (mc_pop_key k m)"
  by (auto simp: mc_inv_def)

lemma mc_save_maps:
  shows "mc_prefix (mc_save now l m) = mc_prefix m"
    "mc_link_ttl (mc_save now l m) = mc_link_ttl m"
    "mc_stats (mc_save now l m) = mc_stats m"
    "map_of (mc_links (mc_save now l m)) =
       (map_of (mc_links m))(for_url_hash (mc_prefix m) (lk_hash l) (scope_token (link_scope l)) \<mapsto> l,
                             for_short_code (mc_prefix m) (lk_code l) \<mapsto> l)"
    "map_of (mc_redirects (mc_save now l m)) =
       (map_of (mc_redirects m))(for_redirect (mc_prefix m) (lk_code l) :=
          map_option (\<lambda>_. redirect_of l) (mc_redirect_ttl now m (lk_expires l)))"
    "map_of (mc_expiry (mc_save now l m)) =
       (map_of (mc_expiry m))(for_url_hash (mc_prefix m) (lk_hash l) (scope_token (link_scope l))
                                 \<mapsto> now + mc_link_ttl m * second,
                              for_short_code (mc_prefix m) (lk_code l) \<mapsto> now + mc_link_ttl m * second,
                              for_redirect (mc_prefix m) (lk_code l) :=
          map_option (\<lambda>ttl. now + ttl) (mc_redirect_ttl now m (lk_expires l)))"
    "distinct (map fst (mc_expiry m)) \<Longrightarrow> distinct (map fst (mc_expiry (mc_save now l m)))"
  by (simp_all add: mc_save_def Let_def split: option.split)

lemma mc_inv_save: "mc_inv m \<Longrightarrow> mc_inv (mc_save now l m)"
  by (auto simp: mc_inv_def mc_save_maps split: if_splits)

lemma mc_save_views:
  "mc_by_code (mc_save now l m) = (mc_by_code m)(lk_code l \<mapsto> l)"
  "mc_by_redirect (mc_save now l m) =
     (mc_by_redirect m)(lk_code l := map_option (\<lambda>_. redirect_of l) (mc_redirect_ttl now m (lk_expires l)))"
  by (auto simp: mc_by_code_def mc_by_redirect_def mc_save_maps fun_eq_iff)

lemma mc_pop_views:
  "mc_by_code (mc_pop_key (for_short_code (mc_prefix m) c) m) = (mc_by_code m)(c := None)"
  "mc_by_redirect (mc_pop_key (for_short_code (mc_prefix m) c) m) = mc_by_redirect m"
  "mc_by_code (mc_pop_key (for_redirect (mc_prefix m) c) m) = mc_by_code m"
  "mc_by_redirect (mc_pop_key (for_redirect (mc_prefix m) c) m) = (mc_by_redirect m)(c := None)"
  "mc_by_code (mc_pop_key (for_url_hash (mc_prefix m) h t) m) = mc_by_code m"
  "mc_by_redirect (mc_pop_key (for_url_hash (mc_prefix m) h t) m) = mc_by_redirect m"
  by (auto simp: mc_by_code_def mc_by_redirect_def fun_eq_iff)

lemma map_le_upd_None [simp]: "f \<subseteq>\<^sub>m f(k := None) \<longleftrightarrow> f k = None"
  by (auto simp: map_le_def dom_def)

lemma map_le_None_upd [simp]: "f(k := None) \<subseteq>\<^sub>m f(k \<mapsto> v)"
  by (auto simp: map_le_def)

interpretation mem: link_cache memory_ops mc_by_code mc_by_redirect mc_inv
proof (unfold_locales, goal_cases)
  case (1 c now k r c')
  then have "c' = mc_clean_expired now c" "r = mc_by_code c' k"
    by (auto simp: memory_ops_def mc_get_by_code_def mc_by_code_def Let_def)
  with 1 mc_clean_shrinks [of c now] show ?case
    by (auto simp: mc_inv_clean mc_by_code_def restrict_map_def)
next
  case (2 c now h sc r c')
  with mc_clean_shrinks [of c now] show ?case
    by (auto simp: memory_ops_def mc_get_by_hash_def mc_inv_clean Let_def)
next
  case (3 c now hs sc rs c')
  with mc_clean_shrinks [of c now] show ?case
    by (auto simp: memory_ops_def mc_get_by_hashes_def mc_inv_clean Let_def)
next
  case (4 c now k q c')
  then have "c' = mc_clean_expired now c" "q = None \<or> q = mc_by_redirect c' k"
    by (auto simp: memory_ops_def mc_get_redirect_def mc_by_redirect_def Let_def split: option.splits if_splits)
  with 4 mc_clean_shrinks [of c now] show ?case
    by (auto simp: mc_inv_clean mc_by_redirect_def restrict_map_def)
next
  case (5 c now l)
  then show ?case
    by (cases "mc_redirect_ttl now c (lk_expires l)") (simp_all add: memory_ops_def mc_inv_save mc_save_views)
next
  case (6 c now k url e)
  then show ?case
    by (auto simp: memory_ops_def mc_save_redirect_def mc_inv_def mc_by_code_def mc_by_redirect_def
        map_le_def split: option.split)
next
  case (7 c l b c')
  then have c': "c' = snd (mc_delete l c)" by (simp add: memory_ops_def)
  show ?case unfolding c' using 7(1) mc_pop_views
    by (simp add: mc_delete_def mc_inv_pop_key mc_pop_key(1)) (metis map_le_refl mc_pop_key(1))
next
  case (8 c k b c')
  then have c': "c' = snd (mc_delete_by_code k c)" by (simp add: memory_ops_def)
  show ?case unfolding c' using 8(1) mc_pop_views
    by (simp add: mc_delete_by_code_def mc_inv_pop_key mc_pop_key(1)) (metis map_le_refl mc_pop_key(1))
next
  case (9 c k)
  then show ?case
    by (auto simp: memory_ops_def mc_delete_redirect_def mc_inv_def mc_by_code_def mc_by_redirect_def map_le_def)
next
  case (10 c)
  then show ?case
    by (auto simp: memory_ops_def mc_delete_stats_def mc_inv_def mc_by_code_def mc_by_redirect_def shrinks_def map_le_def)
qed

interpretation null: link_cache null_ops "\<lambda>_. Map.empty" "\<lambda>_. Map.empty" "\<lambda>_. True"
  by unfold_locales (auto simp: null_ops_def shrinks_def)

section \<open>Properties\<close>

text \<open>
  The in-memory cache serves what was saved exactly as long as it promised: after
  \<open>save\<close> at \<open>now\<close>, a lookup by code at a later \<open>t\<close> finds the link up to the configured
  lifetime and not after it, and a redirect is served only while, besides, the link
  itself has not expired -- so no cached redirect outlives its link.
\<close>

lemma memory_cache_serves_until_deadline:
  assumes inv: "mc_inv m" and later: "now \<le> t"
  shows "fst (mc_get_by_code t (lk_code l) (mc_save now l m)) =
           (if t \<le> now + mc_link_ttl m * second then Some l else None)
       \<and> fst (mc_get_redirect t (lk_code l) (mc_save now l m)) =
           (if t \<le> now + mc_link_ttl m * second \<and> \<not> is_expired t l then Some (redirect_of l) else None)"
proof -
  let ?m = "mc_save now l m"
  have d: "distinct (map fst (mc_expiry ?m))" using inv by (simp add: mc_inv_def mc_save_maps)
  have code: "for_short_code (mc_prefix m) (lk_code l) \<in> overdue t ?m \<longleftrightarrow> \<not> t \<le> now + mc_link_ttl m * second"
    by (auto simp: overdue_iff [OF d] mc_save_maps)
  have red: "for_redirect (mc_prefix m) (lk_code l) \<in> overdue t ?m \<longleftrightarrow>
      (\<exists>ttl. mc_redirect_ttl now m (lk_expires l) = Some ttl \<and> now + ttl < t)"
    by (auto simp: overdue_iff [OF d] mc_save_maps)
  have "fst (mc_get_by_code t (lk_code l) ?m) = (if t \<le> now + mc_link_ttl m * second then Some l else None)"
    by (simp add: mc_get_by_code_def Let_def mc_save_maps restrict_map_def code)
  moreover have "fst (mc_get_redirect t (lk_code l) ?m) =
      (if t \<le> now + mc_link_ttl m * second \<and> \<not> is_expired t l then Some (redirect_of l) else None)"
    using later
    by (auto simp: mc_get_redirect_def Let_def mc_save_maps restrict_map_def red mc_redirect_ttl_def
        is_for_def redirect_of_def redirect_is_expired_def is_expired_def split: option.splits if_splits)
  ultimately show ?thesis ..
qed

end
