(* ===== verification/Rate_Limit.thy ===== *)
theory Rate_Limit
  imports Links "HOL-Library.Multiset" "HOL-Library.Finite_Map"
begin

text \<open>
  The rate limiters (\<^verbatim>\<open>infrastructure/rate_limit\<close>). The one in memory keeps, per key, the
  moments of the requests it let through. The one on Redis keeps them in a sorted set that
  a Lua script prunes, counts and extends in one step; around it is a circuit breaker that
  lets every request pass while the server cannot be reached.

  A call reads the clock once, and the lock of each limiter makes it one step. The Redis
  server is not part of the repository: its commands, the way Lua writes a number and the
  random number a script draws are arguments, and what is relied on is the documented
  behaviour of the commands (\<open>sorted_sets\<close>). A command is answered, refused, or does not
  reach the server.
\<close>

section \<open>In memory\<close>

record rate_decision =
  rd_allowed :: bool
  rd_remaining :: int

type_synonym memory_limiter = "string \<Rightarrow> moment list"

definition ml_is_allowed :: "moment \<Rightarrow> string \<Rightarrow> int \<Rightarrow> int \<Rightarrow> memory_limiter \<Rightarrow> bool \<times> memory_limiter" where
  "ml_is_allowed now key limit period storage =
     (let window_start = now - period * second;
          kept = filter (\<lambda>ts. ts > window_start) (storage key)
      in if int (length kept) < limit then (True, storage(key := kept @ [now]))
         else (False, storage(key := kept)))"

definition ml_get_remaining :: "moment \<Rightarrow> string \<Rightarrow> int \<Rightarrow> int \<Rightarrow> memory_limiter \<Rightarrow> int" where
  "ml_get_remaining now key limit period storage =
     (let window_start = now - period * second;
          current = int (length (filter (\<lambda>ts. ts > window_start) (storage key)))
      in max 0 (limit - current))"

text \<open>\<open>check\<close> of the port, which the limiter in memory inherits: one call after the other.\<close>

definition ml_check :: "moment \<Rightarrow> string \<Rightarrow> int \<Rightarrow> int \<Rightarrow> memory_limiter \<Rightarrow> rate_decision \<times> memory_limiter" where
  "ml_check now key limit period storage =
     (case ml_is_allowed now key limit period storage of (allowed, storage1) \<Rightarrow>
        (\<lparr>rd_allowed = allowed, rd_remaining = ml_get_remaining now key limit period storage1\<rparr>, storage1))"

section \<open>On Redis\<close>

datatype server = Answers | Refuses | Unreachable

text \<open>
  The commands of the server the limiter sends, each at a moment of the server's clock, and
  the conversion of a number to text in a script.
\<close>

record 's redis_server =
  zremrangebyscore :: "moment \<Rightarrow> string \<Rightarrow> int \<Rightarrow> int \<Rightarrow> 's \<Rightarrow> 's"
  zcard :: "moment \<Rightarrow> string \<Rightarrow> 's \<Rightarrow> nat"
  zadd :: "moment \<Rightarrow> string \<Rightarrow> int \<Rightarrow> string \<Rightarrow> 's \<Rightarrow> 's"
  expire :: "moment \<Rightarrow> string \<Rightarrow> int \<Rightarrow> 's \<Rightarrow> 's"
  lua_text :: "moment \<Rightarrow> string"

text \<open>\<^verbatim>\<open>now .. ':' .. math.random()\<close>, the number drawn being an argument.\<close>

definition window_member :: "'s redis_server \<Rightarrow> moment \<Rightarrow> string \<Rightarrow> string" where
  "window_member srv now draw = lua_text srv now @ '':'' @ draw"

definition sliding_window_script ::
  "'s redis_server \<Rightarrow> string \<Rightarrow> moment \<Rightarrow> string \<Rightarrow> int \<Rightarrow> int \<Rightarrow> 's \<Rightarrow> (bool \<times> int) \<times> 's" where
  "sliding_window_script srv draw now key limit period store =
     (let store1 = zremrangebyscore srv now key 0 (now - period * second) store;
          current = int (zcard srv now key store1)
      in if current < limit
         then let store2 = zadd srv now key now (window_member srv now draw) store1;
                  store3 = expire srv now key period store2
              in ((True, limit - current - 1), store3)
         else ((False, 0), store1))"

record 's redis_limiter =
  rl_store :: 's
  rl_prefix :: string
  rl_retry_interval :: int
  rl_unreachable_since :: "moment option"
  rl_refused :: bool

definition redis_limiter_init :: "'s \<Rightarrow> string \<Rightarrow> int \<Rightarrow> 's redis_limiter" where
  "redis_limiter_init store key_prefix retry_interval =
     \<lparr>rl_store = store, rl_prefix = key_prefix, rl_retry_interval = retry_interval,
      rl_unreachable_since = None, rl_refused = False\<rparr>"

definition backing_off :: "moment \<Rightarrow> 's redis_limiter \<Rightarrow> bool" where
  "backing_off tick rl =
     (case rl_unreachable_since rl of None \<Rightarrow> False | Some since \<Rightarrow> tick - since < rl_retry_interval rl * second)"

definition claim_attempt :: "moment \<Rightarrow> 's redis_limiter \<Rightarrow> bool \<times> 's redis_limiter" where
  "claim_attempt tick rl =
     (case rl_unreachable_since rl of
        None \<Rightarrow> (True, rl)
      | Some _ \<Rightarrow> if backing_off tick rl then (False, rl) else (True, rl\<lparr>rl_unreachable_since := Some tick\<rparr>))"

definition is_enforcing :: "server \<Rightarrow> moment \<Rightarrow> 's redis_limiter \<Rightarrow> bool" where
  "is_enforcing srv tick rl =
     (if rl_refused rl then False else if backing_off tick rl then False else srv = Answers)"

definition note_success :: "'s redis_limiter \<Rightarrow> 's redis_limiter" where
  "note_success rl = rl\<lparr>rl_unreachable_since := None, rl_refused := False\<rparr>"

definition note_refusal :: "'s redis_limiter \<Rightarrow> 's redis_limiter" where
  "note_refusal rl = rl\<lparr>rl_refused := True\<rparr>"

definition note_outage :: "moment \<Rightarrow> 's redis_limiter \<Rightarrow> 's redis_limiter" where
  "note_outage tick rl = rl\<lparr>rl_unreachable_since := Some tick\<rparr>"

definition redis_key :: "'s redis_limiter \<Rightarrow> string \<Rightarrow> string" where
  "redis_key rl key = rl_prefix rl @ '':'' @ key"

definition redis_check ::
  "'s redis_server \<Rightarrow> string \<Rightarrow> server \<Rightarrow> moment \<Rightarrow> moment \<Rightarrow> string \<Rightarrow> int \<Rightarrow> int \<Rightarrow> 's redis_limiter \<Rightarrow> rate_decision \<times> 's redis_limiter" where
  "redis_check ops draw srv tick now key limit period rl =
     (case claim_attempt tick rl of (claimed, rl1) \<Rightarrow>
        if \<not> claimed then (\<lparr>rd_allowed = True, rd_remaining = limit\<rparr>, rl1)
        else case srv of
          Refuses \<Rightarrow> (\<lparr>rd_allowed = True, rd_remaining = limit\<rparr>, note_refusal rl1)
        | Unreachable \<Rightarrow> (\<lparr>rd_allowed = True, rd_remaining = limit\<rparr>, note_outage tick rl1)
        | Answers \<Rightarrow>
            (case sliding_window_script ops draw now (redis_key rl1 key) limit period (rl_store rl1) of ((allowed, remaining), store1) \<Rightarrow>
               (\<lparr>rd_allowed = allowed, rd_remaining = remaining\<rparr>, note_success (rl1\<lparr>rl_store := store1\<rparr>))))"

definition redis_is_allowed ::
  "'s redis_server \<Rightarrow> string \<Rightarrow> server \<Rightarrow> moment \<Rightarrow> moment \<Rightarrow> string \<Rightarrow> int \<Rightarrow> int \<Rightarrow> 's redis_limiter \<Rightarrow> bool \<times> 's redis_limiter" where
  "redis_is_allowed ops draw srv tick now key limit period rl =
     (case redis_check ops draw srv tick now key limit period rl of (d, rl1) \<Rightarrow> (rd_allowed d, rl1))"

definition redis_get_remaining ::
  "'s redis_server \<Rightarrow> server \<Rightarrow> moment \<Rightarrow> moment \<Rightarrow> string \<Rightarrow> int \<Rightarrow> int \<Rightarrow> 's redis_limiter \<Rightarrow> int \<times> 's redis_limiter" where
  "redis_get_remaining ops srv tick now key limit period rl =
     (case claim_attempt tick rl of (claimed, rl1) \<Rightarrow>
        if \<not> claimed then (limit, rl1)
        else case srv of
          Refuses \<Rightarrow> (limit, note_refusal rl1)
        | Unreachable \<Rightarrow> (limit, note_outage tick rl1)
        | Answers \<Rightarrow>
            (let store1 = zremrangebyscore ops now (redis_key rl1 key) 0 (now - period * second) (rl_store rl1);
                 current = int (zcard ops now (redis_key rl1 key) store1)
             in (max 0 (limit - current), rl1\<lparr>rl_store := store1\<rparr>)))"

section \<open>The interface\<close>

record 'l limiter_ops =
  lo_is_allowed :: "moment \<Rightarrow> string \<Rightarrow> int \<Rightarrow> int \<Rightarrow> 'l \<Rightarrow> bool \<times> 'l"
  lo_get_remaining :: "moment \<Rightarrow> string \<Rightarrow> int \<Rightarrow> int \<Rightarrow> 'l \<Rightarrow> int \<times> 'l"

text \<open>
  What a client relies on, in terms of how many requests of a key lie in the window that
  ends now: the budget left is the limit less that number, a request passes exactly when
  there is budget, and passing uses one up.
\<close>

locale sliding_window =
  fixes ops :: "'l limiter_ops"
    and used :: "'l \<Rightarrow> moment \<Rightarrow> string \<Rightarrow> int \<Rightarrow> nat"
    and sound :: "'l \<Rightarrow> bool"
  assumes remaining:
      "sound st \<Longrightarrow> 0 \<le> now \<Longrightarrow> 0 < period \<Longrightarrow> lo_get_remaining ops now key limit period st = (n, st') \<Longrightarrow>
         n = max 0 (limit - int (used st now key period)) \<and> sound st' \<and> used st' now key period = used st now key period"
    and allowed:
      "sound st \<Longrightarrow> 0 \<le> now \<Longrightarrow> 0 < period \<Longrightarrow> lo_is_allowed ops now key limit period st = (b, st') \<Longrightarrow>
         (b \<longleftrightarrow> int (used st now key period) < limit) \<and> sound st' \<and>
         used st' now key period = used st now key period + (if b then 1 else 0)"
begin

text \<open>A budget that is not spent lets the next request pass and shrinks by one.\<close>

lemma spend:
  assumes "sound st" and "0 \<le> now" and "0 < period" and "lo_get_remaining ops now key limit period st = (n, st1)" and "0 < n"
    and "lo_is_allowed ops now key limit period st1 = (b, st2)"
  shows "b \<and> used st2 now key period = Suc (used st now key period) \<and> int (used st2 now key period) \<le> limit \<and> sound st2"
  using remaining [OF assms(1-4)] allowed [OF _ assms(2,3,6)] assms(5) by auto

end

definition memory_limiter_ops :: "memory_limiter limiter_ops" where
  "memory_limiter_ops =
     \<lparr>lo_is_allowed = ml_is_allowed, lo_get_remaining = (\<lambda>now key limit period st. (ml_get_remaining now key limit period st, st))\<rparr>"

definition ml_used :: "memory_limiter \<Rightarrow> moment \<Rightarrow> string \<Rightarrow> int \<Rightarrow> nat" where
  "ml_used st now key period = length (filter (\<lambda>ts. ts > now - period * second) (st key))"

interpretation mem_window: sliding_window memory_limiter_ops ml_used "\<lambda>_. True"
proof (unfold_locales, goal_cases)
  case (1 st now period key limit n st')
  then show ?case by (auto simp: memory_limiter_ops_def ml_get_remaining_def ml_used_def)
next
  case (2 st now period key limit b st')
  have "0 < period * second" using 2(3) by (simp add: second_def)
  with 2 show ?case
    by (auto simp: memory_limiter_ops_def ml_is_allowed_def ml_used_def Let_def split: if_splits)
qed

section \<open>Sequences of requests\<close>

text \<open>
  A sequence of requests, each with its moment and its key. Every key has its own limit and
  period, as endpoints have; on Redis a request also has the number its script draws. The answers, and of those the moments at which a key passed.
\<close>

type_synonym requests = "(moment \<times> string) list"

fun ml_run :: "(string \<Rightarrow> int) \<Rightarrow> (string \<Rightarrow> int) \<Rightarrow> requests \<Rightarrow> memory_limiter \<Rightarrow> rate_decision list" where
  "ml_run limit period [] st = []"
| "ml_run limit period ((now, key) # rs) st =
     (case ml_check now key (limit key) (period key) st of (d, st1) \<Rightarrow> d # ml_run limit period rs st1)"

type_synonym drawn_requests = "(moment \<times> string \<times> string) list"

fun redis_run :: "'s redis_server \<Rightarrow> (string \<Rightarrow> int) \<Rightarrow> (string \<Rightarrow> int) \<Rightarrow> drawn_requests \<Rightarrow> 's redis_limiter \<Rightarrow> rate_decision list" where
  "redis_run ops limit period [] rl = []"
| "redis_run ops limit period ((now, key, draw) # rs) rl =
     (case redis_check ops draw Answers now now key (limit key) (period key) rl of (d, rl1) \<Rightarrow> d # redis_run ops limit period rs rl1)"

definition without_draws :: "drawn_requests \<Rightarrow> requests" where
  "without_draws rs = map (\<lambda>(now, key, draw). (now, key)) rs"

definition passed :: "string \<Rightarrow> requests \<Rightarrow> rate_decision list \<Rightarrow> moment list" where
  "passed key rs ds = [t. ((t, k), d) \<leftarrow> zip rs ds, k = key \<and> rd_allowed d]"

definition in_window :: "int \<Rightarrow> moment \<Rightarrow> moment list \<Rightarrow> nat" where
  "in_window period t ts = length (filter (\<lambda>a. t - period * second < a \<and> a \<le> t) ts)"

lemma passed_simps [simp]:
  "passed key [] ds = []"
  "passed key ((t, k) # rs) (d # ds) = (if k = key \<and> rd_allowed d then [t] else []) @ passed key rs ds"
  by (auto simp: passed_def)

text \<open>
  What the storage holds for a key, against all the moments at which the key has passed:
  those since some moment before the window, and never more than the limit in a window.
\<close>

definition window_inv :: "int \<Rightarrow> int \<Rightarrow> moment \<Rightarrow> moment list \<Rightarrow> moment list \<Rightarrow> bool" where
  "window_inv limit period now acc kept \<longleftrightarrow>
     (\<forall>a \<in> set acc. a \<le> now) \<and> (\<exists>c \<le> now - period * second. kept = filter (\<lambda>a. c < a) acc) \<and>
     (\<forall>t. int (in_window period t acc) \<le> max 0 limit)"

lemma window_inv_later:
  assumes "window_inv limit period now acc kept" and "now \<le> now'"
  shows "window_inv limit period now' acc kept"
proof -
  from assms(1) obtain c where "c \<le> now - period * second" "kept = filter (\<lambda>a. c < a) acc" by (auto simp: window_inv_def)
  then have "c \<le> now' - period * second \<and> kept = filter (\<lambda>a. c < a) acc" using assms(2) by simp
  moreover have "\<forall>a \<in> set acc. a \<le> now'" using assms by (auto simp: window_inv_def)
  ultimately show ?thesis using assms(1) unfolding window_inv_def by blast
qed

lemma window_inv_prune:
  assumes "window_inv limit period now acc kept" and "now \<le> now'"
  shows "filter (\<lambda>a. now' - period * second < a) kept = filter (\<lambda>a. now' - period * second < a) acc"
    "window_inv limit period now' acc (filter (\<lambda>a. now' - period * second < a) kept)"
proof -
  from assms(1) obtain c where c: "c \<le> now - period * second" "kept = filter (\<lambda>a. c < a) acc" by (auto simp: window_inv_def)
  show eq: "filter (\<lambda>a. now' - period * second < a) kept = filter (\<lambda>a. now' - period * second < a) acc"
    unfolding c(2) filter_filter using c(1) assms(2) by (intro filter_cong) auto
  show "window_inv limit period now' acc (filter (\<lambda>a. now' - period * second < a) kept)"
    unfolding eq using assms by (fastforce simp: window_inv_def)
qed

lemma window_inv_pass:
  assumes "window_inv limit period now acc kept" and "now \<le> now'" and "0 < period"
    and "int (length (filter (\<lambda>a. now' - period * second < a) kept)) < limit"
  shows "window_inv limit period now' (acc @ [now']) (filter (\<lambda>a. now' - period * second < a) kept @ [now'])"
proof -
  note w = window_inv_prune [OF assms(1,2)]
  let ?new = "filter (\<lambda>a. now' - period * second < a) acc"
  have le: "\<forall>a \<in> set acc. a \<le> now'" using assms(1,2) by (auto simp: window_inv_def)
  have old: "int (in_window period t acc) \<le> max 0 limit" for t using assms(1) by (simp add: window_inv_def)
  have "int (in_window period t (acc @ [now'])) \<le> max 0 limit" for t
  proof (cases "t - period * second < now' \<and> now' \<le> t")
    case False
    then show ?thesis using old [of t] by (auto simp: in_window_def)
  next
    case True
    have "length (filter (\<lambda>a. t - period * second < a \<and> a \<le> t) acc) \<le> length ?new"
      using True le by (induction acc) auto
    then show ?thesis using assms(4) True unfolding w(1) by (simp add: in_window_def)
  qed
  moreover have "filter (\<lambda>a. now' - period * second < a) kept @ [now'] = filter (\<lambda>a. now' - period * second < a) (acc @ [now'])"
    using w(1) assms(3) by (simp add: second_def)
  moreover have "\<forall>a \<in> set (acc @ [now']). a \<le> now'" using le by simp
  ultimately show ?thesis unfolding window_inv_def by (metis order_refl)
qed

lemma ml_run_inv:
  assumes "sorted (map fst rs)" and "\<forall>r \<in> set rs. t0 \<le> fst r" and "\<And>k. 0 < period k"
    and "window_inv (limit key) (period key) t0 acc (st key)"
  shows "\<forall>t. int (in_window (period key) t (acc @ passed key rs (ml_run limit period rs st))) \<le> max 0 (limit key)"
  using assms(1,2,4)
proof (induction rs arbitrary: t0 acc st)
  case Nil
  then show ?case by (simp add: window_inv_def)
next
  case (Cons r rs)
  obtain now k where r: "r = (now, k)" by fastforce
  obtain b st1 where st1: "ml_is_allowed now k (limit k) (period k) st = (b, st1)" by fastforce
  let ?kept = "filter (\<lambda>a. now - period k * second < a) (st k)"
  have b: "b \<longleftrightarrow> int (length ?kept) < limit k" and s1: "st1 = st(k := (if b then ?kept @ [now] else ?kept))"
    using st1 by (auto simp: ml_is_allowed_def Let_def split: if_splits)
  have le: "t0 \<le> now" using Cons.prems(2) r by simp
  have sorted: "sorted (map fst rs)" "\<forall>x \<in> set rs. now \<le> fst x" using Cons.prems(1) r by auto
  let ?acc = "acc @ (if k = key \<and> b then [now] else [])"
  have "window_inv (limit key) (period key) now ?acc (st1 key)"
  proof (cases "k = key")
    case True
    then show ?thesis
      using window_inv_pass [OF Cons.prems(3) le assms(3)] window_inv_prune(2) [OF Cons.prems(3) le] b s1 by auto
  next
    case False
    have "window_inv (limit key) (period key) now acc (st key)" by (rule window_inv_later [OF Cons.prems(3) le])
    with False s1 show ?thesis by simp
  qed
  from Cons.IH [of now ?acc st1, OF sorted this] show ?case by (simp add: r ml_check_def st1)
qed

section \<open>Redis and memory\<close>

text \<open>
  What the documentation of the commands promises, in terms of the members a key has at a
  moment, each with its score: \<^verbatim>\<open>ZREMRANGEBYSCORE\<close> takes out the scores of the range, ends
  included; \<^verbatim>\<open>ZCARD\<close> counts the members; \<^verbatim>\<open>ZADD\<close> adds a member or gives the one that is
  there the new score; \<^verbatim>\<open>EXPIRE\<close> lets the key live that many seconds and not longer; and
  none of them touches another key.
\<close>

locale sorted_sets =
  fixes srv :: "'s redis_server"
    and members :: "'s \<Rightarrow> moment \<Rightarrow> string \<Rightarrow> (string \<rightharpoonup> int)"
  assumes finite_members: "finite (dom (members s t k))"
    and zcard: "zcard srv now key s = card (dom (members s now key))"
    and zrem: "now \<le> t \<Longrightarrow> members (zremrangebyscore srv now key lo hi s) t k =
      (if k = key then members s t k |` {m. \<not> (lo \<le> the (members s t k m) \<and> the (members s t k m) \<le> hi)} else members s t k)"
    and zadd_key: "members (zadd srv now key score m s) now key = (members s now key)(m \<mapsto> score)"
    and zadd_other: "now \<le> t \<Longrightarrow> k \<noteq> key \<Longrightarrow> members (zadd srv now key score m s) t k = members s t k"
    and expire_key: "now \<le> t \<Longrightarrow> 0 < ttl \<Longrightarrow>
      members (expire srv now key ttl s) t key = (if t < now + ttl * second then members s now key else Map.empty)"
    and expire_other: "now \<le> t \<Longrightarrow> k \<noteq> key \<Longrightarrow> members (expire srv now key ttl s) t k = members s t k"

text \<open>The scores of a set, one per member.\<close>

definition scores :: "(string \<rightharpoonup> int) \<Rightarrow> int multiset" where
  "scores M = image_mset (\<lambda>m. the (M m)) (mset_set (dom M))"

lemma scores_empty [simp]: "scores Map.empty = {#}"
  by (simp add: scores_def)

lemma size_scores [simp]: "size (scores M) = card (dom M)"
  by (simp add: scores_def)

lemma scores_cong:
  assumes "A = dom M" and "\<And>m. m \<in> A \<Longrightarrow> the (M m) = f m"
  shows "scores M = image_mset f (mset_set A)"
proof (cases "finite A")
  case True
  then show ?thesis using assms by (auto simp: scores_def intro!: image_mset_cong)
next
  case False
  then show ?thesis using assms(1) by (simp add: scores_def)
qed

lemma scores_restrict:
  assumes "finite (dom M)"
  shows "scores (M |` {m. P (the (M m))}) = filter_mset P (scores M)"
proof -
  have "scores (M |` {m. P (the (M m))}) = image_mset (\<lambda>m. the (M m)) (mset_set {m \<in> dom M. P (the (M m))})"
    by (rule scores_cong) auto
  also have "mset_set {m \<in> dom M. P (the (M m))} = filter_mset (\<lambda>m. P (the (M m))) (mset_set (dom M))"
    using assms by (simp add: filter_mset_mset_set)
  finally show ?thesis by (simp add: scores_def filter_mset_image_mset)
qed

lemma scores_update:
  assumes "finite (dom M)" and "m \<notin> dom M"
  shows "scores (M(m \<mapsto> s)) = add_mset s (scores M)"
proof -
  have "scores (M(m \<mapsto> s)) = image_mset (\<lambda>x. the ((M(m \<mapsto> s)) x)) (mset_set (insert m (dom M)))" by (rule scores_cong) auto
  also have "\<dots> = add_mset s (image_mset (\<lambda>x. the ((M(m \<mapsto> s)) x)) (mset_set (dom M)))" using assms by simp
  also have "image_mset (\<lambda>x. the ((M(m \<mapsto> s)) x)) (mset_set (dom M)) = image_mset (\<lambda>x. the (M x)) (mset_set (dom M))"
    using assms by (intro image_mset_cong) auto
  finally show ?thesis by (simp only: scores_def)
qed

lemma redis_key_inj: "redis_key rl a = redis_key rl b \<longleftrightarrow> a = b"
  by (simp add: redis_key_def)

context sorted_sets
begin

text \<open>
  The server's keys against the storage in memory: from now on a window of the length of the
  period sees the same moments in both. The names of the members are among those used so far.
\<close>

definition same_window ::
  "(string \<Rightarrow> int) \<Rightarrow> (string \<times> string) set \<Rightarrow> moment \<Rightarrow> 's redis_limiter \<Rightarrow> memory_limiter \<Rightarrow> bool" where
  "same_window period names now rl st \<longleftrightarrow> rl_unreachable_since rl = None \<and> (\<forall>key. \<forall>s \<in> set (st key). s \<le> now) \<and>
     (\<forall>key. \<forall>t \<ge> now. \<forall>m s. members (rl_store rl) t (redis_key rl key) m = Some s \<longrightarrow> (key, m) \<in> names \<and> 0 \<le> s) \<and>
     (\<forall>key. \<forall>t \<ge> now. filter_mset (\<lambda>s. s > t - period key * second) (scores (members (rl_store rl) t (redis_key rl key))) =
        filter_mset (\<lambda>s. s > t - period key * second) (mset (st key)))"
lemma same_windowD:
  assumes "same_window period names now rl st"
  shows "rl_unreachable_since rl = None" "s \<in> set (st key) \<Longrightarrow> s \<le> now"
    "now \<le> t \<Longrightarrow> members (rl_store rl) t (redis_key rl key) m = Some s \<Longrightarrow> (key, m) \<in> names"
    "now \<le> t \<Longrightarrow> s \<in># scores (members (rl_store rl) t (redis_key rl key)) \<Longrightarrow> 0 \<le> s"
    "now \<le> t \<Longrightarrow> filter_mset (\<lambda>s. s > t - period key * second) (scores (members (rl_store rl) t (redis_key rl key))) =
       filter_mset (\<lambda>s. s > t - period key * second) (mset (st key))"
proof -
  show "rl_unreachable_since rl = None" "s \<in> set (st key) \<Longrightarrow> s \<le> now"
    "now \<le> t \<Longrightarrow> members (rl_store rl) t (redis_key rl key) m = Some s \<Longrightarrow> (key, m) \<in> names"
    "now \<le> t \<Longrightarrow> filter_mset (\<lambda>s. s > t - period key * second) (scores (members (rl_store rl) t (redis_key rl key))) =
       filter_mset (\<lambda>s. s > t - period key * second) (mset (st key))"
    using assms unfolding same_window_def by metis+
  show "0 \<le> s" if t: "now \<le> t" and s: "s \<in># scores (members (rl_store rl) t (redis_key rl key))"
  proof -
    from s obtain m where "m \<in> dom (members (rl_store rl) t (redis_key rl key))" "s = the (members (rl_store rl) t (redis_key rl key) m)"
      using finite_members by (auto simp: scores_def)
    then have "members (rl_store rl) t (redis_key rl key) m = Some s" by auto
    with assms t show ?thesis unfolding same_window_def by blast
  qed
qed

text \<open>Pruning: what is left of the key, at the moment and later.\<close>

lemma scores_pruned:
  assumes "now \<le> t"
  shows "scores (members (zremrangebyscore srv now key lo hi s) t key) =
    filter_mset (\<lambda>x. \<not> (lo \<le> x \<and> x \<le> hi)) (scores (members s t key))"
  using scores_restrict [OF finite_members, of s t key "\<lambda>x. \<not> (lo \<le> x \<and> x \<le> hi)"] assms by (simp add: zrem)

lemma pruned_window:
  assumes "same_window period names now rl st" and "now \<le> now'" and "now' \<le> t"
  shows "filter_mset (\<lambda>x. x > t - period key * second)
      (scores (members (zremrangebyscore srv now' (redis_key rl key) 0 (now' - period key * second) (rl_store rl)) t (redis_key rl key))) =
    filter_mset (\<lambda>x. x > t - period key * second) (mset (st key))"
proof -
  note nonneg = same_windowD(4) [OF assms(1), of t _ key] and same = same_windowD(5) [OF assms(1), of t key]
  have "filter_mset (\<lambda>x. x > t - period key * second) (filter_mset (\<lambda>x. \<not> (0 \<le> x \<and> x \<le> now' - period key * second))
      (scores (members (rl_store rl) t (redis_key rl key)))) =
    filter_mset (\<lambda>x. x > t - period key * second) (scores (members (rl_store rl) t (redis_key rl key)))"
    unfolding filter_filter_mset using nonneg assms(2,3) by (intro filter_mset_cong) auto
  with same assms(2,3) show ?thesis by (simp add: scores_pruned)
qed

lemma scores_pruned_now:
  assumes "same_window period names now rl st" and "now \<le> now'"
  shows "scores (members (zremrangebyscore srv now' (redis_key rl key) 0 (now' - period key * second) (rl_store rl)) now' (redis_key rl key)) =
    mset (filter (\<lambda>x. x > now' - period key * second) (st key))"
proof -
  let ?S = "scores (members (rl_store rl) now' (redis_key rl key))"
  have "filter_mset (\<lambda>x. \<not> (0 \<le> x \<and> x \<le> now' - period key * second)) ?S = filter_mset (\<lambda>x. x > now' - period key * second) ?S"
    using same_windowD(4) [OF assms(1,2)] by (intro filter_mset_cong) auto
  with same_windowD(5) [OF assms] show ?thesis by (simp add: scores_pruned)
qed

text \<open>The verdict and the budget left are those of the limiter in memory, and so is what is kept.\<close>

lemma script_decides:
  assumes "same_window period names now rl st" and "now \<le> now'" and "0 < period key"
    and "sliding_window_script srv draw now' (redis_key rl key) limit (period key) (rl_store rl) = ((b, n), store')"
    and "ml_check now' key limit (period key) st = (d, st')"
  shows "d = \<lparr>rd_allowed = b, rd_remaining = n\<rparr>"
    "store' = (let store1 = zremrangebyscore srv now' (redis_key rl key) 0 (now' - period key * second) (rl_store rl)
       in if b then expire srv now' (redis_key rl key) (period key) (zadd srv now' (redis_key rl key) now' (window_member srv now' draw) store1)
          else store1)"
    "st' = st(key := (let kept = filter (\<lambda>x. x > now' - period key * second) (st key) in if b then kept @ [now'] else kept))"
proof -
  let ?store1 = "zremrangebyscore srv now' (redis_key rl key) 0 (now' - period key * second) (rl_store rl)"
  have "size (scores (members ?store1 now' (redis_key rl key))) = length (filter (\<lambda>x. x > now' - period key * second) (st key))"
    unfolding scores_pruned_now [OF assms(1,2)] by (rule size_mset)
  then have "zcard srv now' (redis_key rl key) ?store1 = length (filter (\<lambda>x. x > now' - period key * second) (st key))" by (simp add: zcard)
  moreover have "0 < period key * second" using assms(3) by (simp add: second_def)
  ultimately show "d = \<lparr>rd_allowed = b, rd_remaining = n\<rparr>"
    "store' = (let store1 = ?store1
       in if b then expire srv now' (redis_key rl key) (period key) (zadd srv now' (redis_key rl key) now' (window_member srv now' draw) store1)
          else store1)"
    "st' = st(key := (let kept = filter (\<lambda>x. x > now' - period key * second) (st key) in if b then kept @ [now'] else kept))"
    using assms(4,5)
    by (auto simp: sliding_window_script_def ml_check_def ml_is_allowed_def ml_get_remaining_def Let_def split: if_splits)
qed

text \<open>A request that passes under a name not used before: the window of its key has one more moment.\<close>

lemma window_after_pass:
  assumes "same_window period names now rl st" and "now \<le> now'" and "now' \<le> t" and "0 < period key"
    and "(key, window_member srv now' draw) \<notin> names"
    and "store1 = zremrangebyscore srv now' (redis_key rl key) 0 (now' - period key * second) (rl_store rl)"
    and "kept = filter (\<lambda>x. x > now' - period key * second) (st key)"
  shows "filter_mset (\<lambda>x. x > t - period key * second) (scores (members (expire srv now' (redis_key rl key) (period key)
      (zadd srv now' (redis_key rl key) now' (window_member srv now' draw) store1)) t (redis_key rl key))) =
    filter_mset (\<lambda>x. x > t - period key * second) (mset (kept @ [now']))"
proof (cases "t < now' + period key * second")
  case True
  have "dom (members store1 now' (redis_key rl key)) \<subseteq> dom (members (rl_store rl) now' (redis_key rl key))"
    unfolding assms(6) zrem [OF order_refl] by auto
  then have "window_member srv now' draw \<notin> dom (members store1 now' (redis_key rl key))"
    using same_windowD(3) [OF assms(1,2)] assms(5) by blast
  from scores_update [OF finite_members this] True assms(3,4) show ?thesis
    by (simp add: expire_key zadd_key scores_pruned_now [OF assms(1,2)] assms(6,7))
next
  case False
  then have "filter (\<lambda>x. x > t - period key * second) (kept @ [now']) = []"
    using same_windowD(2) [OF assms(1), of _ key] assms(2,7) by (fastforce simp: filter_empty_conv)
  with False assms(3,4) show ?thesis by (simp add: expire_key flip: mset_filter)
qed

text \<open>The names and the scores of the members, after a request of the key.\<close>

lemma members_after:
  assumes "same_window period names now rl st" and "now \<le> now'" and "now' \<le> t" and "0 \<le> now'" and "0 < period key"
    and "store1 = zremrangebyscore srv now' (redis_key rl key) 0 (now' - period key * second) (rl_store rl)"
    and "store' = (if b then expire srv now' (redis_key rl key) (period key) (zadd srv now' (redis_key rl key) now' mem store1) else store1)"
    and "members store' t (redis_key rl k) m = Some s"
  shows "(k, m) \<in> insert (key, mem) names \<and> 0 \<le> s"
proof -
  have old: "(k, m) \<in> names \<and> 0 \<le> s" if "now \<le> t'" "members (rl_store rl) t' (redis_key rl k) m = Some s" for t'
    using assms(1) that unfolding same_window_def by blast
  have sub: "members (rl_store rl) t' (redis_key rl k) m = Some s" if "now' \<le> t'" "members store1 t' (redis_key rl k) m = Some s" for t'
    using that by (auto simp: assms(6) zrem restrict_map_def split: if_splits)
  show ?thesis
  proof (cases "b \<and> k = key")
    case False
    then have "members store1 t (redis_key rl k) m = Some s"
      using assms(3,7,8) by (auto simp: expire_other zadd_other redis_key_inj split: if_splits)
    then show ?thesis using sub [of t] old [of t] assms(2,3) by auto
  next
    case True
    then have "((members store1 now' (redis_key rl k))(mem \<mapsto> now')) m = Some s"
      using assms(3,5,7,8) by (auto simp: expire_key zadd_key split: if_splits)
    then show ?thesis using sub [of now'] old [of now'] assms(2,4) True by (auto split: if_splits)
  qed
qed

lemma same_window_check:
  assumes "same_window period names now rl st" and "now \<le> now'" and "0 \<le> now'" and "\<And>k. 0 < period k"
    and "(key, window_member srv now' draw) \<notin> names"
    and "redis_check srv draw Answers tick now' key limit (period key) rl = (d, rl')" and "ml_check now' key limit (period key) st = (d', st')"
  shows "d = d' \<and> same_window period (insert (key, window_member srv now' draw) names) now' rl' st'"
proof -
  let ?store1 = "zremrangebyscore srv now' (redis_key rl key) 0 (now' - period key * second) (rl_store rl)"
    and ?kept = "filter (\<lambda>x. x > now' - period key * second) (st key)"
  obtain b n store' where script: "sliding_window_script srv draw now' (redis_key rl key) limit (period key) (rl_store rl) = ((b, n), store')"
    by (metis surj_pair)
  have rl': "rl' = note_success (rl\<lparr>rl_store := store'\<rparr>)" "d = \<lparr>rd_allowed = b, rd_remaining = n\<rparr>"
    using assms(6) same_windowD(1) [OF assms(1)] by (simp_all add: redis_check_def claim_attempt_def script)
  note out = script_decides [OF assms(1,2,4) script assms(7), unfolded Let_def]
  have keys: "redis_key rl' = redis_key rl" "rl_store rl' = store'" "rl_unreachable_since rl' = None"
    by (auto simp: rl'(1) note_success_def redis_key_def fun_eq_iff)
  have window: "filter_mset (\<lambda>x. x > t - period k * second) (scores (members store' t (redis_key rl k))) =
      filter_mset (\<lambda>x. x > t - period k * second) (mset (st' k))" if t: "now' \<le> t" for k t
  proof (cases "k = key")
    case False
    then have "members store' t (redis_key rl k) = members (rl_store rl) t (redis_key rl k)"
      using t by (simp add: out(2) expire_other zadd_other zrem redis_key_inj)
    then show ?thesis using same_windowD(5) [OF assms(1), of t k] t assms(2) False by (simp add: out(3))
  next
    case True
    have "filter (\<lambda>x. x > t - period key * second) ?kept = filter (\<lambda>x. x > t - period key * second) (st key)"
      using t by (auto intro!: filter_cong)
    then have "filter_mset (\<lambda>x. x > t - period key * second) (mset ?kept) = filter_mset (\<lambda>x. x > t - period key * second) (mset (st key))"
      by (metis mset_filter)
    then show ?thesis
      using window_after_pass [OF assms(1,2) t assms(4,5) refl refl] pruned_window [OF assms(1,2) t, of key] True
      by (simp add: out(2,3))
  qed
  have past: "s \<le> now'" if "s \<in> set (st' k)" for k s
    using that same_windowD(2) [OF assms(1), of s] assms(2) by (fastforce simp: out(3) split: if_splits)
  show ?thesis
    unfolding same_window_def keys using rl'(2) out(1) window past
      members_after [OF assms(1,2) _ assms(3,4) refl out(2)] by blast
qed

text \<open>A sequence of requests whose members differ wherever the key is the same.\<close>

lemma same_window_run:
  assumes "same_window period names t0 rl st" and "0 \<le> t0" and "sorted (map fst rs)" and "\<forall>r \<in> set rs. t0 \<le> fst r"
    and "\<And>k. 0 < period k" and "distinct (map (\<lambda>(now, key, draw). (key, window_member srv now draw)) rs)"
    and "\<forall>(now, key, draw) \<in> set rs. (key, window_member srv now draw) \<notin> names"
  shows "redis_run srv limit period rs rl = ml_run limit period (without_draws rs) st"
  using assms(1-4,6,7)
proof (induction rs arbitrary: names t0 rl st)
  case Nil
  then show ?case by (simp add: without_draws_def)
next
  case (Cons r rs)
  obtain now key draw where r: "r = (now, key, draw)" using prod_cases3 by blast
  obtain d rl' where rc: "redis_check srv draw Answers now now key (limit key) (period key) rl = (d, rl')" by fastforce
  obtain d' st' where mc: "ml_check now key (limit key) (period key) st = (d', st')" by fastforce
  have now: "t0 \<le> now" "0 \<le> now" "sorted (map fst rs)" "\<forall>x \<in> set rs. now \<le> fst x" using Cons.prems r by auto
  have fresh: "(key, window_member srv now draw) \<notin> names" using Cons.prems(6) r by simp
  from same_window_check [OF Cons.prems(1) now(1,2) assms(5) fresh rc mc]
  have step: "d = d'" "same_window period (insert (key, window_member srv now draw) names) now rl' st'" by simp_all
  have rest: "distinct (map (\<lambda>(now, key, draw). (key, window_member srv now draw)) rs)"
    "\<forall>(now', key', draw') \<in> set rs. (key', window_member srv now' draw') \<notin> insert (key, window_member srv now draw) names"
    using Cons.prems(5,6) r by (auto simp: image_iff split: prod.splits)
  from Cons.IH [OF step(2) now(2-4) rest] step(1) show ?case by (simp add: r rc mc without_draws_def)
qed


end

section \<open>Properties\<close>

text \<open>
  In any sequence of requests, by any callers and with a clock that does not go back,
  a key never passes more often within one period than its limit, wherever the window of
  that length is placed.
\<close>

lemma limiter_bounds_every_window:
  assumes "sorted (map fst rs)" and "\<And>k. 0 < period k"
  shows "int (in_window (period key) t (passed key rs (ml_run limit period rs (\<lambda>_. [])))) \<le> max 0 (limit key)"
proof (cases rs)
  case Nil
  then show ?thesis by (simp add: in_window_def)
next
  case (Cons r rest)
  have "\<forall>x \<in> set rs. fst r \<le> fst x" using assms(1) Cons by auto
  moreover have "window_inv (limit key) (period key) (fst r) [] []" by (auto simp: window_inv_def in_window_def)
  ultimately show ?thesis using ml_run_inv [OF assms(1), of "fst r" period limit key "[]" "\<lambda>_. []"] assms(2) by simp
qed

text \<open>
  A server the laws hold of: per key, a finite map from members to scores and the moment at
  which the key expires.
\<close>

type_synonym fmap_store = "string \<Rightarrow> (string, int) fmap \<times> moment option"

definition fmap_live :: "moment \<Rightarrow> (string, int) fmap \<times> moment option \<Rightarrow> (string, int) fmap \<times> moment option" where
  "fmap_live now entry = (case snd entry of None \<Rightarrow> entry | Some e \<Rightarrow> if e \<le> now then (fmempty, None) else entry)"

definition fmap_members :: "fmap_store \<Rightarrow> moment \<Rightarrow> string \<Rightarrow> (string \<rightharpoonup> int)" where
  "fmap_members s t k = fmlookup (fst (fmap_live t (s k)))"

definition fmap_server :: "fmap_store redis_server" where
  "fmap_server =
     \<lparr>zremrangebyscore = (\<lambda>now key lo hi s. s(key := (case fmap_live now (s key) of (ms, e) \<Rightarrow>
        (fmfilter (\<lambda>m. \<not> (lo \<le> the (fmlookup ms m) \<and> the (fmlookup ms m) \<le> hi)) ms, e)))),
      zcard = (\<lambda>now key s. card (dom (fmap_members s now key))),
      zadd = (\<lambda>now key score m s. s(key := (case fmap_live now (s key) of (ms, e) \<Rightarrow> (fmupd m score ms, e)))),
      expire = (\<lambda>now key ttl s. s(key := (fst (fmap_live now (s key)), Some (now + ttl * second)))),
      lua_text = (\<lambda>now. replicate (nat now) (CHR ''1''))\<rparr>"

interpretation fmap: sorted_sets fmap_server fmap_members
proof (unfold_locales, goal_cases)
  case (1 s t k)
  show ?case by (simp add: fmap_members_def)
next
  case (3 now t key lo hi s k)
  then show ?case
    by (cases "s key") (auto simp: fmap_server_def fmap_members_def fmap_live_def restrict_map_def fun_eq_iff split: option.splits)
qed (auto simp: fmap_server_def fmap_members_def fmap_live_def second_def split: option.splits prod.splits)



text \<open>
  The condition on the members cannot be left out: a request under a member that the set
  already has gives that member its score again and is not counted. Once two requests with
  the same moment and the same number drawn have passed, so does every further one.
\<close>

context sorted_sets
begin

lemma members_after_pass:
  assumes "sliding_window_script srv draw now key limit period s = ((True, n), s1)" and "0 < period"
  shows "members s1 now key = (members (zremrangebyscore srv now key 0 (now - period * second) s) now key)(window_member srv now draw \<mapsto> now)"
  using assms by (auto simp: sliding_window_script_def Let_def expire_key zadd_key second_def split: if_splits)

lemma equal_member_is_not_counted:
  assumes "sliding_window_script srv draw now key limit period s = ((True, n), s1)"
    and "sliding_window_script srv draw now key limit period s1 = ((True, n'), s2)" and "0 < period"
  shows "members s2 now key = members s1 now key"
    "\<exists>s3. sliding_window_script srv draw now key limit period s2 = ((True, n'), s3)"
proof -
  let ?prune = "\<lambda>s. zremrangebyscore srv now key 0 (now - period * second) s" and ?m = "window_member srv now draw"
  have P: "0 < period * second" using assms(3) by (simp add: second_def)
  note m1 = members_after_pass [OF assms(1,3)] and m2 = members_after_pass [OF assms(2,3)]
  show same: "members s2 now key = members s1 now key"
    unfolding m2 zrem [OF order_refl] m1 using P by (auto simp: restrict_map_def fun_eq_iff)
  then have "members (?prune s2) now key = members (?prune s1) now key" by (simp add: zrem)
  then have "zcard srv now key (?prune s2) = zcard srv now key (?prune s1)" by (simp add: zcard)
  with assms(2) show "\<exists>s3. sliding_window_script srv draw now key limit period s2 = ((True, n'), s3)"
    by (auto simp: sliding_window_script_def Let_def split: if_splits)
qed

end

text \<open>
  The circuit breaker. Once the server could not be reached, no command is sent to it
  until the retry interval has passed: every call in that time lets the request through
  and changes nothing, whatever the server would have done. After it, one call tries
  again, and the calls of the next interval wait for its outcome.
\<close>

lemma outage_is_not_hammered:
  assumes "redis_check ops draw Unreachable m now key limit period rl = (d, rl1)" and "\<not> backing_off m rl"
    and "m \<le> m'" and "m' < m + rl_retry_interval rl * second"
  shows "rd_allowed d \<and> redis_check ops draw' srv m' now' key' limit' period' rl1 = (\<lparr>rd_allowed = True, rd_remaining = limit'\<rparr>, rl1) \<and>
    redis_get_remaining ops srv m' now' key' limit' period' rl1 = (limit', rl1) \<and> \<not> is_enforcing srv m' rl1"
proof -
  have "rl_unreachable_since rl1 = Some m \<and> rl_retry_interval rl1 = rl_retry_interval rl \<and> rd_allowed d"
    using assms(1,2) by (auto simp: redis_check_def claim_attempt_def note_outage_def split: option.splits if_splits)
  then show ?thesis
    using assms(3,4) by (auto simp: redis_check_def redis_get_remaining_def claim_attempt_def backing_off_def is_enforcing_def)
qed

end
