(* ===== verification/Redis_Cache.thy ===== *)
theory Redis_Cache
  imports Cache Rate_Limit
begin

text \<open>
  The cache on Redis (\<^verbatim>\<open>infrastructure/cache/redis_cache.py\<close>) and the seals on what it stores
  (\<^verbatim>\<open>infrastructure/cache/signing.py\<close>). Whoever can write to the server must not be able to
  decide where a link leads: a value counts only if this service sealed it, for this key, and
  not longer ago than the lifetime of an entry.

  The signer of \<^verbatim>\<open>itsdangerous\<close> is not part of the sources and so a parameter, for the secret
  of the installation; what its values look like is left open, except that an empty value
  carries no signature. The text of a JSON value is represented by the value, a timestamp in
  ISO format by its moment, and bytes that are no JSON by themselves. What the server does
  with a command is an argument: it answers, refuses, or cannot be reached.
\<close>

section \<open>Values\<close>

datatype json = JNull | JInt int | JStr string | JTime moment | JObj "(string \<times> json) list"

datatype payload = Json json | NotJson string

record 'b signer =
  sg_sign :: "string \<Rightarrow> moment \<Rightarrow> payload \<Rightarrow> 'b"
  sg_unsign :: "string \<Rightarrow> moment \<Rightarrow> int option \<Rightarrow> 'b \<Rightarrow> payload option"

definition seal :: "'b signer \<Rightarrow> moment \<Rightarrow> string \<Rightarrow> payload \<Rightarrow> 'b" where
  "seal sg now cache_key p = sg_sign sg cache_key now p"

definition unseal :: "'b signer \<Rightarrow> moment \<Rightarrow> string \<Rightarrow> 'b option \<Rightarrow> int option \<Rightarrow> payload option" where
  "unseal sg now cache_key blob max_age_seconds =
     (case blob of None \<Rightarrow> None | Some b \<Rightarrow> sg_unsign sg cache_key now max_age_seconds b)"

definition json_time :: "moment option \<Rightarrow> json" where
  "json_time t = (case t of None \<Rightarrow> JNull | Some m \<Rightarrow> JTime m)"

definition json_text :: "string option \<Rightarrow> json" where
  "json_text s = (case s of None \<Rightarrow> JNull | Some t \<Rightarrow> JStr t)"

definition serialize :: "link \<Rightarrow> payload" where
  "serialize l =
     Json (JObj [(''id'', JStr (lk_id l)), (''url_hash'', JStr (lk_hash l)), (''short_code'', JStr (lk_code l)),
       (''original_url'', JStr (lk_url l)), (''created_at'', JTime (lk_created l)), (''clicks'', JInt (lk_clicks l)),
       (''last_accessed'', json_time (lk_accessed l)), (''owner_id'', json_text (lk_owner l)),
       (''expires_at'', json_time (lk_expires l)), (''guest_identifier'', json_text (lk_guest l))])"

text \<open>
  Reading a link back; every exception makes it a miss. A field of another type than the
  writer's makes it a miss as well.
\<close>

definition read_time :: "json option \<Rightarrow> moment option option" where
  "read_time j =
     (case j of None \<Rightarrow> Some None | Some JNull \<Rightarrow> Some None | Some (JStr []) \<Rightarrow> Some None | Some (JTime t) \<Rightarrow> Some (Some t)
      | _ \<Rightarrow> None)"

definition read_text :: "json option \<Rightarrow> string option option" where
  "read_text j = (case j of None \<Rightarrow> Some None | Some JNull \<Rightarrow> Some None | Some (JStr s) \<Rightarrow> Some (Some s) | _ \<Rightarrow> None)"

definition deserialize :: "(string \<Rightarrow> (exn, string) result) \<Rightarrow> payload \<Rightarrow> link option" where
  "deserialize url_from_storage p =
     (case p of
        Json (JObj d) \<Rightarrow>
          (case (map_of d ''id'', map_of d ''url_hash'', map_of d ''short_code'', map_of d ''original_url'',
                 map_of d ''created_at'', map_of d ''clicks'', read_time (map_of d ''last_accessed''),
                 read_text (map_of d ''owner_id''), read_time (map_of d ''expires_at''), read_text (map_of d ''guest_identifier'')) of
             (Some (JStr i), Some (JStr h), Some (JStr c), Some (JStr u), Some (JTime created), Some (JInt clicks),
              Some accessed, Some owner, Some expires, Some guest) \<Rightarrow>
               (case to_domain url_from_storage
                  \<lparr>row_id = i, row_url_hash = h, row_original_url = u, row_short_code = c, row_created_at = created,
                   row_clicks = clicks, row_last_accessed = accessed, row_owner_id = owner, row_expires_at = expires,
                   row_guest_identifier = guest\<rparr> of
                  Inl _ \<Rightarrow> None | Inr l \<Rightarrow> Some l)
           | _ \<Rightarrow> None)
      | _ \<Rightarrow> None)"

definition serialize_redirect :: "short_code \<Rightarrow> string \<Rightarrow> moment option \<Rightarrow> payload" where
  "serialize_redirect c original_url expires_at =
     Json (JObj [(''short_code'', JStr c), (''url'', JStr original_url), (''expires_at'', json_time expires_at)])"

definition deserialize_redirect :: "payload \<Rightarrow> short_code \<Rightarrow> cached_redirect option" where
  "deserialize_redirect p c =
     (case p of
        Json (JObj d) \<Rightarrow>
          (case (map_of d ''url'', map_of d ''short_code'') of
             (Some (JStr url), Some (JStr stored_code)) \<Rightarrow>
               (case (case map_of d ''expires_at'' of None \<Rightarrow> Some None | Some JNull \<Rightarrow> Some None
                      | Some (JTime t) \<Rightarrow> Some (Some t) | _ \<Rightarrow> None) of
                  None \<Rightarrow> None
                | Some expires_at \<Rightarrow>
                    (let entry = \<lparr>cr_code = stored_code, cr_url = url, cr_expires = expires_at\<rparr>
                     in if is_for c entry then Some entry else None))
           | _ \<Rightarrow> None)
      | _ \<Rightarrow> None)"

section \<open>The connection\<close>

text \<open>A key of the server: what is stored under it, and when it expires.\<close>

type_synonym 'b redis_keys = "string \<Rightarrow> ('b \<times> moment option) option"

record 'b redis_cache =
  rc_keys :: "'b redis_keys"
  rc_prefix :: string
  rc_ttl :: int
  rc_stats_ttl :: int
  rc_retry_interval :: int
  rc_available :: bool
  rc_last_attempt :: moment

definition redis_cache_init :: "server \<Rightarrow> string \<Rightarrow> int \<Rightarrow> int \<Rightarrow> int \<Rightarrow> 'b redis_keys \<Rightarrow> 'b redis_cache" where
  "redis_cache_init srv key_prefix link_ttl stats_ttl retry_interval keys =
     \<lparr>rc_keys = keys, rc_prefix = key_prefix, rc_ttl = link_ttl, rc_stats_ttl = stats_ttl,
      rc_retry_interval = retry_interval, rc_available = (srv = Answers), rc_last_attempt = 0\<rparr>"

definition ensure_connection :: "server \<Rightarrow> moment \<Rightarrow> 'b redis_cache \<Rightarrow> bool \<times> 'b redis_cache" where
  "ensure_connection srv now rc =
     (if rc_available rc then (True, rc)
      else if now - rc_last_attempt rc \<le> rc_retry_interval rc * second then (False, rc)
      else if srv = Answers then (True, rc\<lparr>rc_available := True, rc_last_attempt := now\<rparr>)
      else (False, rc\<lparr>rc_last_attempt := now\<rparr>))"

definition mark_unavailable :: "moment \<Rightarrow> 'b redis_cache \<Rightarrow> 'b redis_cache" where
  "mark_unavailable now rc = rc\<lparr>rc_available := False, rc_last_attempt := now\<rparr>"

definition execute_read ::
  "server \<Rightarrow> moment \<Rightarrow> ('b redis_keys \<Rightarrow> 'a) \<Rightarrow> 'b redis_cache \<Rightarrow> 'a option \<times> 'b redis_cache" where
  "execute_read srv now operation rc =
     (case ensure_connection srv now rc of (connected, rc1) \<Rightarrow>
        if \<not> connected then (None, rc1)
        else case srv of
          Answers \<Rightarrow> (Some (operation (rc_keys rc1)), rc1)
        | Refuses \<Rightarrow> (None, rc1)
        | Unreachable \<Rightarrow> (None, mark_unavailable now rc1))"

definition execute_write :: "server \<Rightarrow> moment \<Rightarrow> ('b redis_keys \<Rightarrow> 'b redis_keys) \<Rightarrow> 'b redis_cache \<Rightarrow> bool \<times> 'b redis_cache" where
  "execute_write srv now operation rc =
     (case ensure_connection srv now rc of (connected, rc1) \<Rightarrow>
        if \<not> connected then (False, rc1)
        else case srv of
          Answers \<Rightarrow> (True, rc1\<lparr>rc_keys := operation (rc_keys rc1)\<rparr>)
        | Refuses \<Rightarrow> (False, rc1)
        | Unreachable \<Rightarrow> (False, mark_unavailable now rc1))"

text \<open>The commands of the server that are used.\<close>

definition redis_get :: "moment \<Rightarrow> string \<Rightarrow> 'b redis_keys \<Rightarrow> 'b option" where
  "redis_get now key ks =
     (case ks key of
        None \<Rightarrow> None
      | Some (v, None) \<Rightarrow> Some v
      | Some (v, Some e) \<Rightarrow> if e \<le> now then None else Some v)"

definition redis_set :: "moment \<Rightarrow> string \<Rightarrow> 'b \<Rightarrow> int \<Rightarrow> 'b redis_keys \<Rightarrow> 'b redis_keys" where
  "redis_set now key v ex ks = ks(key := Some (v, Some (now + ex * second)))"

definition redis_del :: "string list \<Rightarrow> 'b redis_keys \<Rightarrow> 'b redis_keys" where
  "redis_del keys ks = (\<lambda>k. if k \<in> set keys then None else ks k)"

section \<open>The operations\<close>

definition open_entry :: "'b signer \<Rightarrow> moment \<Rightarrow> string \<Rightarrow> 'b option \<Rightarrow> int option \<Rightarrow> payload option" where
  "open_entry sg now cache_key blob max_age = unseal sg now cache_key blob max_age"

text \<open>A lookup: the answer of the server, opened.\<close>

definition fetch_entry :: "'b signer \<Rightarrow> server \<Rightarrow> moment \<Rightarrow> string \<Rightarrow> int \<Rightarrow> 'b redis_cache \<Rightarrow> payload option \<times> 'b redis_cache" where
  "fetch_entry sg srv now key max_age rc =
     (case execute_read srv now (redis_get now key) rc of (blob, rc1) \<Rightarrow>
        (open_entry sg now key (case blob of None \<Rightarrow> None | Some b \<Rightarrow> b) (Some max_age), rc1))"

definition rc_get_by_code ::
  "(string \<Rightarrow> (exn, string) result) \<Rightarrow> 'b signer \<Rightarrow> server \<Rightarrow> moment \<Rightarrow> short_code \<Rightarrow> 'b redis_cache \<Rightarrow> link option \<times> 'b redis_cache" where
  "rc_get_by_code fs sg srv now c rc =
     (case fetch_entry sg srv now (for_short_code (rc_prefix rc) c) (rc_ttl rc) rc of (data, rc1) \<Rightarrow>
        (case data of None \<Rightarrow> None | Some p \<Rightarrow> deserialize fs p, rc1))"

definition rc_get_by_hash ::
  "(string \<Rightarrow> (exn, string) result) \<Rightarrow> 'b signer \<Rightarrow> server \<Rightarrow> moment \<Rightarrow> url_hash \<Rightarrow> dedup_scope \<Rightarrow> 'b redis_cache \<Rightarrow> link option \<times> 'b redis_cache" where
  "rc_get_by_hash fs sg srv now h sc rc =
     (case fetch_entry sg srv now (for_url_hash (rc_prefix rc) h (scope_token sc)) (rc_ttl rc) rc of (data, rc1) \<Rightarrow>
        (case data of None \<Rightarrow> None | Some p \<Rightarrow> deserialize fs p, rc1))"

definition rc_get_by_hashes ::
  "(string \<Rightarrow> (exn, string) result) \<Rightarrow> 'b signer \<Rightarrow> server \<Rightarrow> moment \<Rightarrow> url_hash list \<Rightarrow> dedup_scope \<Rightarrow> 'b redis_cache
   \<Rightarrow> (url_hash \<times> link option) list \<times> 'b redis_cache" where
  "rc_get_by_hashes fs sg srv now hs sc rc =
     (let token = scope_token sc; key = (\<lambda>h. for_url_hash (rc_prefix rc) h token)
      in case execute_read srv now (\<lambda>ks. map (\<lambda>h. redis_get now (key h) ks) hs) rc of (answer, rc1) \<Rightarrow>
           (let data_list = (case answer of None \<Rightarrow> replicate (length hs) None | Some ds \<Rightarrow> ds)
            in (fold (\<lambda>(h, data) result.
                  dict_set h (case open_entry sg now (key h) data (Some (rc_ttl rc)) of None \<Rightarrow> None | Some p \<Rightarrow> deserialize fs p) result)
                (zip hs data_list) [], rc1)))"

definition rc_redirect_ttl :: "moment \<Rightarrow> 'b redis_cache \<Rightarrow> moment option \<Rightarrow> int option" where
  "rc_redirect_ttl now rc expires_at =
     (case expires_at of
        None \<Rightarrow> Some (rc_ttl rc)
      | Some e \<Rightarrow> if e - now \<le> 0 then None else Some (max 1 (min (rc_ttl rc) ((e - now) div second))))"

definition queue_link :: "'b signer \<Rightarrow> moment \<Rightarrow> 'b redis_cache \<Rightarrow> link \<Rightarrow> 'b redis_keys \<Rightarrow> 'b redis_keys" where
  "queue_link sg now rc l ks =
     (let hash_key = for_url_hash (rc_prefix rc) (lk_hash l) (scope_token (link_scope l));
          code_key = for_short_code (rc_prefix rc) (lk_code l);
          redirect_key = for_redirect (rc_prefix rc) (lk_code l);
          data = serialize l;
          ks1 = redis_set now hash_key (seal sg now hash_key data) (rc_ttl rc) ks;
          ks2 = redis_set now code_key (seal sg now code_key data) (rc_ttl rc) ks1
      in case rc_redirect_ttl now rc (lk_expires l) of
           None \<Rightarrow> ks2
         | Some ttl \<Rightarrow> redis_set now redirect_key
             (seal sg now redirect_key (serialize_redirect (lk_code l) (lk_url l) (lk_expires l))) ttl ks2)"

definition rc_save :: "'b signer \<Rightarrow> server \<Rightarrow> moment \<Rightarrow> link \<Rightarrow> 'b redis_cache \<Rightarrow> 'b redis_cache" where
  "rc_save sg srv now l rc = snd (execute_write srv now (queue_link sg now rc l) rc)"

definition rc_save_many :: "'b signer \<Rightarrow> server \<Rightarrow> moment \<Rightarrow> link list \<Rightarrow> 'b redis_cache \<Rightarrow> 'b redis_cache" where
  "rc_save_many sg srv now ls rc =
     (if ls = [] then rc else snd (execute_write srv now (fold (queue_link sg now rc) ls) rc))"

definition rc_delete_by_code :: "server \<Rightarrow> moment \<Rightarrow> short_code \<Rightarrow> 'b redis_cache \<Rightarrow> bool \<times> 'b redis_cache" where
  "rc_delete_by_code srv now c rc =
     execute_write srv now (redis_del [for_short_code (rc_prefix rc) c, for_redirect (rc_prefix rc) c]) rc"

definition rc_delete :: "server \<Rightarrow> moment \<Rightarrow> link \<Rightarrow> 'b redis_cache \<Rightarrow> bool \<times> 'b redis_cache" where
  "rc_delete srv now l rc =
     execute_write srv now (redis_del
       [for_short_code (rc_prefix rc) (lk_code l), for_redirect (rc_prefix rc) (lk_code l),
        for_url_hash (rc_prefix rc) (lk_hash l) (scope_token (link_scope l))]) rc"

definition rc_delete_redirect :: "server \<Rightarrow> moment \<Rightarrow> short_code \<Rightarrow> 'b redis_cache \<Rightarrow> 'b redis_cache" where
  "rc_delete_redirect srv now c rc = snd (execute_write srv now (redis_del [for_redirect (rc_prefix rc) c]) rc)"

definition rc_get_redirect :: "'b signer \<Rightarrow> server \<Rightarrow> moment \<Rightarrow> short_code \<Rightarrow> 'b redis_cache \<Rightarrow> cached_redirect option \<times> 'b redis_cache" where
  "rc_get_redirect sg srv now c rc =
     (case fetch_entry sg srv now (for_redirect (rc_prefix rc) c) (rc_ttl rc) rc of (data, rc1) \<Rightarrow>
        (case data of None \<Rightarrow> None | Some p \<Rightarrow> deserialize_redirect p c, rc1))"

definition rc_save_redirect :: "'b signer \<Rightarrow> server \<Rightarrow> moment \<Rightarrow> short_code \<Rightarrow> string \<Rightarrow> moment option \<Rightarrow> 'b redis_cache \<Rightarrow> 'b redis_cache" where
  "rc_save_redirect sg srv now c original_url expires_at rc =
     (case rc_redirect_ttl now rc expires_at of
        None \<Rightarrow> rc
      | Some ttl \<Rightarrow>
          (let key = for_redirect (rc_prefix rc) c
           in snd (execute_write srv now
                (redis_set now key (seal sg now key (serialize_redirect c original_url expires_at)) ttl) rc)))"

definition rc_get_stats :: "'b signer \<Rightarrow> server \<Rightarrow> moment \<Rightarrow> 'b redis_cache \<Rightarrow> (string \<times> json) list option \<times> 'b redis_cache" where
  "rc_get_stats sg srv now rc =
     (case fetch_entry sg srv now (for_stats (rc_prefix rc)) (rc_stats_ttl rc) rc of (data, rc1) \<Rightarrow>
        (case data of Some (Json (JObj d)) \<Rightarrow> Some d | _ \<Rightarrow> None, rc1))"

definition rc_save_stats :: "'b signer \<Rightarrow> server \<Rightarrow> moment \<Rightarrow> (string \<times> json) list \<Rightarrow> 'b redis_cache \<Rightarrow> 'b redis_cache" where
  "rc_save_stats sg srv now stats rc =
     (let key = for_stats (rc_prefix rc)
      in snd (execute_write srv now (redis_set now key (seal sg now key (Json (JObj stats))) (rc_stats_ttl rc)) rc))"

definition rc_delete_stats :: "server \<Rightarrow> moment \<Rightarrow> 'b redis_cache \<Rightarrow> 'b redis_cache" where
  "rc_delete_stats srv now rc = snd (execute_write srv now (redis_del [for_stats (rc_prefix rc)]) rc)"

text \<open>The pattern of \<^verbatim>\<open>clear_all\<close>; the prefix has no characters that mean something in it.\<close>

definition rc_clear_all :: "server \<Rightarrow> moment \<Rightarrow> 'b redis_cache \<Rightarrow> 'b redis_cache" where
  "rc_clear_all srv now rc =
     snd (execute_write srv now (\<lambda>ks k. if startswith k (rc_prefix rc @ '':'') then None else ks k) rc)"

section \<open>A server that others can write to\<close>

text \<open>
  What happens to the server: the operations of the service, and writes by others. The reads
  of the service only change the state of its connection.
\<close>

datatype 'b cache_event =
    Saved server moment link
  | SavedMany server moment "link list"
  | SavedRedirect server moment short_code string "moment option"
  | SavedStats server moment "(string \<times> json) list"
  | DeletedByCode server moment short_code
  | Deleted server moment link
  | DeletedRedirect server moment short_code
  | DeletedStats server moment
  | Cleared server moment
  | ReadKey server moment string
  | Tampered string "('b \<times> moment option) option"

definition cache_do :: "'b signer \<Rightarrow> 'b cache_event \<Rightarrow> 'b redis_cache \<Rightarrow> 'b redis_cache" where
  "cache_do sg ev rc =
     (case ev of
        Saved srv now l \<Rightarrow> rc_save sg srv now l rc
      | SavedMany srv now ls \<Rightarrow> rc_save_many sg srv now ls rc
      | SavedRedirect srv now c url e \<Rightarrow> rc_save_redirect sg srv now c url e rc
      | SavedStats srv now stats \<Rightarrow> rc_save_stats sg srv now stats rc
      | DeletedByCode srv now c \<Rightarrow> snd (rc_delete_by_code srv now c rc)
      | Deleted srv now l \<Rightarrow> snd (rc_delete srv now l rc)
      | DeletedRedirect srv now c \<Rightarrow> rc_delete_redirect srv now c rc
      | DeletedStats srv now \<Rightarrow> rc_delete_stats srv now rc
      | Cleared srv now \<Rightarrow> rc_clear_all srv now rc
      | ReadKey srv now key \<Rightarrow> snd (execute_read srv now (redis_get now key) rc)
      | Tampered key entry \<Rightarrow> rc\<lparr>rc_keys := (rc_keys rc)(key := entry)\<rparr>)"

text \<open>The links and redirects an operation saves, and what it seals for them.\<close>

definition links_saved :: "'b cache_event \<Rightarrow> (moment \<times> link) set" where
  "links_saved ev =
     (case ev of Saved srv now l \<Rightarrow> {(now, l)} | SavedMany srv now ls \<Rightarrow> Pair now ` set ls | _ \<Rightarrow> {})"

definition redirects_saved :: "'b cache_event \<Rightarrow> (moment \<times> short_code \<times> string \<times> moment option) set" where
  "redirects_saved ev =
     (\<lambda>(now, l). (now, lk_code l, lk_url l, lk_expires l)) ` links_saved ev \<union>
     (case ev of SavedRedirect srv now c url e \<Rightarrow> {(now, c, url, e)} | _ \<Rightarrow> {})"

definition sealed :: "string \<Rightarrow> 'b cache_event \<Rightarrow> (string \<times> moment \<times> payload) set" where
  "sealed pre ev =
     (\<Union>(now, l) \<in> links_saved ev.
        {(for_url_hash pre (lk_hash l) (scope_token (link_scope l)), now, serialize l), (for_short_code pre (lk_code l), now, serialize l)})
     \<union> (\<lambda>(now, c, url, e). (for_redirect pre c, now, serialize_redirect c url e)) ` redirects_saved ev
     \<union> (case ev of SavedStats srv now stats \<Rightarrow> {(for_stats pre, now, Json (JObj stats))} | _ \<Rightarrow> {})"

text \<open>
  A value is vouched for when every way to read it as a sealed one was sealed by the service.
  Others may write whatever they like, values they have seen included, but cannot seal.
\<close>

definition vouched :: "'b signer \<Rightarrow> (string \<times> moment \<times> payload) set \<Rightarrow> 'b \<Rightarrow> bool" where
  "vouched sg S b \<longleftrightarrow> (\<forall>k t p. b = sg_sign sg k t p \<longrightarrow> (\<exists>t'. t' div second = t div second \<and> (k, t', p) \<in> S))"

inductive cache_run :: "'b signer \<Rightarrow> string \<Rightarrow> 'b cache_event list \<Rightarrow> 'b redis_cache \<Rightarrow> bool" for sg :: "'b signer" and pre :: string where
  start: "cache_run sg pre [] (redis_cache_init srv pre ttl sttl retry (\<lambda>_. None))"
| step: "cache_run sg pre evs rc \<Longrightarrow>
         (\<And>key b e. ev = Tampered key (Some (b, e)) \<Longrightarrow> vouched sg (\<Union>(sealed pre ` set evs)) b)
         \<Longrightarrow> cache_run sg pre (evs @ [ev]) (cache_do sg ev rc)"

text \<open>
  What \<^verbatim>\<open>itsdangerous\<close> documents, with the timestamp in whole seconds: a value it accepts
  carries its signature for the key and is not older than asked; what it signed it accepts
  until then; a signature is for one key, one second and one payload.
\<close>

definition signer_ok :: "'b signer \<Rightarrow> bool" where
  "signer_ok sg \<longleftrightarrow>
     (\<forall>k now a b p. sg_unsign sg k now (Some a) b = Some p \<longrightarrow>
        (\<exists>t. b = sg_sign sg k t p \<and> now div second - t div second \<le> a)) \<and>
     (\<forall>k t now a p. t \<le> now \<longrightarrow> now div second - t div second \<le> a \<longrightarrow>
        sg_unsign sg k now (Some a) (sg_sign sg k t p) = Some p) \<and>
     (\<forall>k t p k' t' p'. sg_sign sg k t p = sg_sign sg k' t' p' \<longrightarrow> k = k' \<and> t div second = t' div second \<and> p = p')"

section \<open>Lemmas\<close>

lemma execute_read_state:
  "rc_keys (snd (execute_read srv now f rc)) = rc_keys rc" "rc_prefix (snd (execute_read srv now f rc)) = rc_prefix rc"
  "rc_ttl (snd (execute_read srv now f rc)) = rc_ttl rc"
  by (simp_all add: execute_read_def ensure_connection_def mark_unavailable_def split: server.split)

lemma execute_write_state:
  "rc_keys (snd (execute_write srv now f rc)) = rc_keys rc \<or> rc_keys (snd (execute_write srv now f rc)) = f (rc_keys rc)"
  "rc_prefix (snd (execute_write srv now f rc)) = rc_prefix rc" "rc_ttl (snd (execute_write srv now f rc)) = rc_ttl rc"
  by (simp_all add: execute_write_def ensure_connection_def mark_unavailable_def split: server.split)

definition all_vouched :: "'b signer \<Rightarrow> (string \<times> moment \<times> payload) set \<Rightarrow> 'b redis_keys \<Rightarrow> bool" where
  "all_vouched sg S ks \<longleftrightarrow> (\<forall>key b e. ks key = Some (b, e) \<longrightarrow> vouched sg S b)"

lemma all_vouched_mono: "all_vouched sg S ks \<Longrightarrow> S \<subseteq> S' \<Longrightarrow> all_vouched sg S' ks"
  unfolding all_vouched_def vouched_def by blast

lemma all_vouched_del: "all_vouched sg S ks \<Longrightarrow> (\<And>k. ks' k = None \<or> ks' k = ks k) \<Longrightarrow> all_vouched sg S ks'"
  unfolding all_vouched_def by (metis option.distinct(1))

lemma vouched_seal:
  assumes "signer_ok sg" and "(key, now, p) \<in> S" shows "vouched sg S (seal sg now key p)"
  using assms unfolding vouched_def seal_def signer_ok_def by metis

lemma all_vouched_set:
  assumes "all_vouched sg S ks" and "signer_ok sg" and "(key, now, p) \<in> S"
  shows "all_vouched sg S (redis_set now key (seal sg now key p) ttl ks)"
  using assms(1) vouched_seal [OF assms(2,3)] by (simp add: all_vouched_def redis_set_def)

lemma all_vouched_queue:
  assumes ok: "all_vouched sg S ks" "signer_ok sg"
    and S: "(for_url_hash (rc_prefix rc) (lk_hash l) (scope_token (link_scope l)), now, serialize l) \<in> S"
      "(for_short_code (rc_prefix rc) (lk_code l), now, serialize l) \<in> S"
      "(for_redirect (rc_prefix rc) (lk_code l), now, serialize_redirect (lk_code l) (lk_url l) (lk_expires l)) \<in> S"
  shows "all_vouched sg S (queue_link sg now rc l ks)"
  by (simp add: queue_link_def Let_def all_vouched_set ok S split: option.split)

lemma all_vouched_queue_many:
  assumes "signer_ok sg" and "\<And>l. l \<in> set ls \<Longrightarrow>
      (for_url_hash (rc_prefix rc) (lk_hash l) (scope_token (link_scope l)), now, serialize l) \<in> S \<and>
      (for_short_code (rc_prefix rc) (lk_code l), now, serialize l) \<in> S \<and>
      (for_redirect (rc_prefix rc) (lk_code l), now, serialize_redirect (lk_code l) (lk_url l) (lk_expires l)) \<in> S"
  shows "all_vouched sg S ks \<Longrightarrow> all_vouched sg S (fold (queue_link sg now rc) ls ks)"
  using assms(2)
proof (induction ls arbitrary: ks)
  case (Cons l ls)
  have "all_vouched sg S (queue_link sg now rc l ks)"
    by (rule all_vouched_queue [OF Cons.prems(1) assms(1)]) (use Cons.prems(2) [of l] in simp_all)
  then show ?case using Cons by simp
qed simp

lemma execute_write_vouched:
  assumes "all_vouched sg S (rc_keys rc)" and "\<And>ks. all_vouched sg S ks \<Longrightarrow> all_vouched sg S (f ks)"
  shows "all_vouched sg S (rc_keys (snd (execute_write srv now f rc)))"
  using execute_write_state(1) [of srv now f rc] assms by auto

lemma cache_do_settings [simp]:
  "rc_prefix (cache_do sg ev rc) = rc_prefix rc" "rc_ttl (cache_do sg ev rc) = rc_ttl rc"
  by (simp_all add: cache_do_def rc_save_def rc_save_many_def rc_save_redirect_def rc_save_stats_def rc_delete_by_code_def rc_delete_def
      rc_delete_redirect_def rc_delete_stats_def rc_clear_all_def Let_def execute_write_state execute_read_state
      split: cache_event.split option.split)

lemma sealed_link:
  assumes "(now, l) \<in> links_saved ev"
  shows "(for_url_hash pre (lk_hash l) (scope_token (link_scope l)), now, serialize l) \<in> sealed pre ev"
    and "(for_short_code pre (lk_code l), now, serialize l) \<in> sealed pre ev"
    and "(for_redirect pre (lk_code l), now, serialize_redirect (lk_code l) (lk_url l) (lk_expires l)) \<in> sealed pre ev"
proof -
  have "(now, lk_code l, lk_url l, lk_expires l) \<in> redirects_saved ev"
    unfolding redirects_saved_def by (rule UnI1, rule image_eqI [OF _ assms]) simp
  then show "(for_redirect pre (lk_code l), now, serialize_redirect (lk_code l) (lk_url l) (lk_expires l)) \<in> sealed pre ev"
    unfolding sealed_def by (force intro: image_eqI)
qed (use assms in \<open>auto simp: sealed_def\<close>)

lemma cache_do_vouched:
  assumes ok: "signer_ok sg" and pre: "rc_prefix rc = pre" and old: "all_vouched sg S (rc_keys rc)" and sub: "sealed pre ev \<subseteq> S"
    and tamper: "\<And>key b e. ev = Tampered key (Some (b, e)) \<Longrightarrow> vouched sg S b"
  shows "all_vouched sg S (rc_keys (cache_do sg ev rc))"
proof -
  have link: "(for_url_hash (rc_prefix rc) (lk_hash l) (scope_token (link_scope l)), now, serialize l) \<in> S \<and>
      (for_short_code (rc_prefix rc) (lk_code l), now, serialize l) \<in> S \<and>
      (for_redirect (rc_prefix rc) (lk_code l), now, serialize_redirect (lk_code l) (lk_url l) (lk_expires l)) \<in> S"
    if "(now, l) \<in> links_saved ev" for now l
    using sealed_link [OF that, of pre] sub unfolding pre by blast
  have del: "all_vouched sg S ks \<Longrightarrow> all_vouched sg S (redis_del keys ks)" for keys ks
    by (erule all_vouched_del) (simp add: redis_del_def)
  show ?thesis
  proof (cases ev)
    case (Saved srv now l)
    then have "(now, l) \<in> links_saved ev" by (simp add: links_saved_def)
    from link [OF this] show ?thesis unfolding Saved cache_do_def cache_event.case rc_save_def
      by (intro execute_write_vouched [OF old] all_vouched_queue [OF _ ok]) simp_all
  next
    case (SavedMany srv now ls)
    have "\<And>l. l \<in> set ls \<Longrightarrow> (now, l) \<in> links_saved ev" by (simp add: links_saved_def SavedMany)
    then have "all_vouched sg S ks \<Longrightarrow> all_vouched sg S (fold (queue_link sg now rc) ls ks)" for ks
      using link by (intro all_vouched_queue_many [OF ok]) auto
    then show ?thesis unfolding SavedMany cache_do_def cache_event.case rc_save_many_def
      using old execute_write_vouched [OF old] by simp
  next
    case (SavedRedirect srv now c url e)
    then have "(for_redirect pre c, now, serialize_redirect c url e) \<in> S"
      using sub by (auto simp: sealed_def redirects_saved_def)
    then show ?thesis unfolding SavedRedirect cache_do_def cache_event.case rc_save_redirect_def pre
      by (auto simp: Let_def old intro!: execute_write_vouched [OF old] all_vouched_set [OF _ ok] split: option.split)
  next
    case (SavedStats srv now stats)
    then have "(for_stats pre, now, Json (JObj stats)) \<in> S" using sub by (auto simp: sealed_def)
    then show ?thesis unfolding SavedStats cache_do_def cache_event.case rc_save_stats_def pre Let_def
      by (intro execute_write_vouched [OF old] all_vouched_set [OF _ ok])
  next
    case (Cleared srv now)
    have "all_vouched sg S ks \<Longrightarrow> all_vouched sg S (\<lambda>k. if startswith k (rc_prefix rc @ '':'') then None else ks k)" for ks
      by (erule all_vouched_del) simp
    then show ?thesis unfolding Cleared cache_do_def cache_event.case rc_clear_all_def by (rule execute_write_vouched [OF old])
  next
    case (Tampered key entry)
    then show ?thesis using old tamper by (auto simp: cache_do_def all_vouched_def)
  qed (simp_all add: cache_do_def rc_delete_by_code_def rc_delete_def rc_delete_redirect_def rc_delete_stats_def
       execute_write_vouched [OF old] del execute_read_state old)
qed

lemma cache_run_vouched:
  assumes "cache_run sg pre evs rc" and "signer_ok sg"
  shows "rc_prefix rc = pre \<and> all_vouched sg (\<Union>(sealed pre ` set evs)) (rc_keys rc)"
  using assms
proof (induction rule: cache_run.induct)
  case (start srv ttl sttl retry)
  then show ?case by (simp add: redis_cache_init_def all_vouched_def)
next
  case (step evs rc ev)
  have "all_vouched sg (\<Union>(sealed pre ` set (evs @ [ev]))) (rc_keys rc)"
    using step all_vouched_mono by (metis (no_types, lifting) Sup_subset_mono image_mono set_append sup_ge1)
  moreover have "vouched sg (\<Union>(sealed pre ` set (evs @ [ev]))) b" if "ev = Tampered key (Some (b, e))" for key b e
    using step.hyps(2) [OF that] unfolding vouched_def by fastforce
  ultimately show ?case using step by (auto intro!: cache_do_vouched)
qed

lemma fetched_was_sealed:
  assumes run: "cache_run sg pre evs rc" and ok: "signer_ok sg" and got: "fetch_entry sg srv now key age rc = (Some p, rc')"
  obtains t ev where "ev \<in> set evs" "(key, t, p) \<in> sealed pre ev" "now div second - t div second \<le> age"
proof -
  obtain blob rc1 where r: "execute_read srv now (redis_get now key) rc = (blob, rc1)" by (rule prod.exhaust)
  from got r obtain b where b: "blob = Some (Some b)" and u: "sg_unsign sg key now (Some age) b = Some p"
    by (auto simp: fetch_entry_def open_entry_def unseal_def split: option.splits)
  from r b obtain e where "rc_keys rc key = Some (b, e)"
    by (auto simp: execute_read_def ensure_connection_def redis_get_def split: server.splits if_splits option.splits)
  then have "vouched sg (\<Union>(sealed pre ` set evs)) b"
    using cache_run_vouched [OF run ok] unfolding all_vouched_def by blast
  moreover from ok u obtain t where t: "b = sg_sign sg key t p" "now div second - t div second \<le> age"
    unfolding signer_ok_def by blast
  ultimately obtain t' where t': "t' div second = t div second" "(key, t', p) \<in> \<Union>(sealed pre ` set evs)"
    unfolding vouched_def by blast
  from t'(2) obtain ev where "ev \<in> set evs" "(key, t', p) \<in> sealed pre ev" by blast
  with t(2) t'(1) that show thesis by metis
qed

lemma deserialize_serialize_redirect: "deserialize_redirect (serialize_redirect c url e) c = Some \<lparr>cr_code = c, cr_url = url, cr_expires = e\<rparr>"
  by (simp add: deserialize_redirect_def serialize_redirect_def json_time_def is_for_def split: option.split)

lemma deserialize_serialize:
  assumes "link_wf l" and "\<And>u v. fs u = Inr v \<Longrightarrow> v = u"
  shows "deserialize fs (serialize l) = (case fs (lk_url l) of Inl _ \<Rightarrow> None | Inr _ \<Rightarrow> Some l)"
proof -
  have t: "read_time (Some (json_time x)) = Some x" and s: "read_text (Some (json_text y)) = Some y" for x y
    by (simp_all add: read_time_def json_time_def read_text_def json_text_def split: option.split)
  have "deserialize fs (serialize l) = (case to_domain fs (to_model l) of Inl _ \<Rightarrow> None | Inr l \<Rightarrow> Some l)"
    by (simp add: deserialize_def serialize_def t s to_model_def)
  also have "\<dots> = (case fs (lk_url l) of Inl _ \<Rightarrow> None | Inr _ \<Rightarrow> Some l)"
    using assms by (auto simp: to_domain_def to_model_def link_wf_def UrlHash_def ShortCode_def OwnerID_def strip_def
        split: sum.splits option.splits list.splits)
  finally show ?thesis .
qed


section \<open>Samples\<close>

text \<open>A signer whose signatures nobody else can make: the value is what was signed.\<close>

definition sample_signer :: "(string \<times> int \<times> payload) signer" where
  "sample_signer =
     \<lparr>sg_sign = (\<lambda>k t p. (k, t div second, p)),
      sg_unsign = (\<lambda>k now age (k', s, p). if k' = k \<and> (case age of None \<Rightarrow> True | Some a \<Rightarrow> now div second - s \<le> a) then Some p else None)\<rparr>"

lemma sample_signer_ok: "signer_ok sample_signer"
  unfolding signer_ok_def
proof (intro conjI allI impI)
  fix k now a b p assume "sg_unsign sample_signer k now (Some a) b = Some p"
  then have "b = (k, fst (snd b), p) \<and> now div second - fst (snd b) \<le> a"
    by (cases b) (simp add: sample_signer_def split: if_splits)
  then show "\<exists>t. b = sg_sign sample_signer k t p \<and> now div second - t div second \<le> a"
    by (intro exI [of _ "fst (snd b) * second"]) (simp add: sample_signer_def second_def)
qed (simp_all add: sample_signer_def)

definition sample_cache :: "(string \<times> int \<times> payload) redis_cache" where
  "sample_cache = redis_cache_init Answers ''ls'' 60 60 5 (\<lambda>_. None)"

text \<open>
  The service saves the sample link; then somebody copies its redirect to another code, and
  puts a redirect of their own, which they cannot seal, in its place.
\<close>

definition sample_attack :: "(string \<times> int \<times> payload) cache_event list" where
  "sample_attack =
     [Saved Answers 0 sample_link,
      Tampered (for_redirect ''ls'' ''other1'')
        (Some ((for_redirect ''ls'' ''abc123'', 0, serialize_redirect ''abc123'' ''https://example.org/'' (Some 5000000)), None))]"

lemma sample_link_wf: "link_wf sample_link"
  unfolding link_wf_def sample_link_def by code_simp

lemma sample_attack_run: "cache_run sample_signer ''ls'' sample_attack (foldl (\<lambda>rc ev. cache_do sample_signer ev rc) sample_cache sample_attack)"
proof -
  have first: "cache_run sample_signer ''ls'' ([] @ [Saved Answers 0 sample_link]) (cache_do sample_signer (Saved Answers 0 sample_link) sample_cache)"
    unfolding sample_cache_def by (intro cache_run.step cache_run.start) simp
  have "(for_redirect ''ls'' ''abc123'', 0, serialize_redirect ''abc123'' ''https://example.org/'' (Some 5000000))
      \<in> sealed ''ls'' (Saved Answers 0 sample_link)"
    by (simp add: sealed_def redirects_saved_def links_saved_def sample_link_def)
  from vouched_seal [OF sample_signer_ok this]
  have "vouched sample_signer (\<Union>(sealed ''ls'' ` set [Saved Answers 0 sample_link]))
      (for_redirect ''ls'' ''abc123'', 0, serialize_redirect ''abc123'' ''https://example.org/'' (Some 5000000))"
    by (simp add: seal_def sample_signer_def)
  with cache_run.step [OF first, of "sample_attack ! 1"] show ?thesis by (simp add: sample_attack_def)
qed

lemma sample_attack_redirect:
  "fst (rc_get_redirect sample_signer Answers 0 ''abc123'' (foldl (\<lambda>rc ev. cache_do sample_signer ev rc) sample_cache sample_attack))
   = Some (redirect_of sample_link)"
  by (simp add: sample_attack_def cache_do_def rc_save_def execute_write_def ensure_connection_def sample_cache_def redis_cache_init_def
      rc_get_redirect_def fetch_entry_def execute_read_def queue_link_def Let_def redis_set_def redis_get_def rc_redirect_ttl_def
      for_redirect_def open_entry_def unseal_def seal_def sample_signer_def second_def sample_link_def
      deserialize_serialize_redirect redirect_of_def)

section \<open>Properties\<close>

text \<open>
  C37. Writing to the server does not decide where a link leads. Whatever the service does and
  whatever others write, values they have seen before included: a redirect the cache answers
  with was saved by the service for that very code, with that target and that expiry, and a
  link was saved by the service under that code, not longer ago than the lifetime of an entry.
  The links the service saves are well formed, and reading a stored URL does not change it.
\<close>

theorem tampering_does_not_redirect:
  assumes run: "cache_run sg pre evs rc" and ok: "signer_ok sg"
    and wf: "\<forall>ev \<in> set evs. \<forall>(t, l) \<in> links_saved ev. link_wf l" and fs: "\<forall>u v. fs u = Inr v \<longrightarrow> v = u"
  shows "(fst (rc_get_redirect sg srv now c rc) = Some entry \<longrightarrow>
            (\<exists>ev \<in> set evs. \<exists>t. (t, c, cr_url entry, cr_expires entry) \<in> redirects_saved ev
               \<and> now div second - t div second \<le> rc_ttl rc))
    \<and> (fst (rc_get_by_code fs sg srv now c rc) = Some l \<longrightarrow>
            (\<exists>ev \<in> set evs. \<exists>t. (t, l) \<in> links_saved ev \<and> lk_code l = c \<and> now div second - t div second \<le> rc_ttl rc))"
proof (intro conjI impI)
  have pre: "rc_prefix rc = pre" using cache_run_vouched [OF run ok] by simp
  {
    assume "fst (rc_get_redirect sg srv now c rc) = Some entry"
    then obtain p rc' where got: "fetch_entry sg srv now (for_redirect pre c) (rc_ttl rc) rc = (Some p, rc')"
      and d: "deserialize_redirect p c = Some entry"
      by (auto simp: rc_get_redirect_def pre split: prod.splits option.splits)
    obtain t ev where ev: "ev \<in> set evs" "(for_redirect pre c, t, p) \<in> sealed pre ev" "now div second - t div second \<le> rc_ttl rc"
      using run ok got by (rule fetched_was_sealed)
    from ev(2) obtain url e where "(t, c, url, e) \<in> redirects_saved ev" "p = serialize_redirect c url e"
      by (auto simp: sealed_def split: cache_event.splits)
    moreover from d this(2) have "cr_url entry = url" "cr_expires entry = e" by (auto simp: deserialize_serialize_redirect)
    ultimately show "\<exists>ev \<in> set evs. \<exists>t. (t, c, cr_url entry, cr_expires entry) \<in> redirects_saved ev \<and> now div second - t div second \<le> rc_ttl rc"
      using ev(1,3) by blast
  next
    assume "fst (rc_get_by_code fs sg srv now c rc) = Some l"
    then obtain p rc' where got: "fetch_entry sg srv now (for_short_code pre c) (rc_ttl rc) rc = (Some p, rc')"
      and d: "deserialize fs p = Some l"
      by (auto simp: rc_get_by_code_def pre split: prod.splits option.splits)
    obtain t ev where ev: "ev \<in> set evs" "(for_short_code pre c, t, p) \<in> sealed pre ev" "now div second - t div second \<le> rc_ttl rc"
      using run ok got by (rule fetched_was_sealed)
    from ev(2) obtain l' where l': "(t, l') \<in> links_saved ev" "lk_code l' = c" "p = serialize l'"
      by (auto simp: sealed_def split: cache_event.splits)
    have "link_wf l'" using wf ev(1) l'(1) by fastforce
    then have "l = l'" using d l'(3) deserialize_serialize [of l' fs] fs by (auto split: sum.splits)
    with ev l' show "\<exists>ev \<in> set evs. \<exists>t. (t, l) \<in> links_saved ev \<and> lk_code l = c \<and> now div second - t div second \<le> rc_ttl rc" by blast
  }
qed

theorem tampering_does_not_redirect_witness:
  "\<exists>rc. cache_run sample_signer ''ls'' sample_attack rc
     \<and> fst (rc_get_redirect sample_signer Answers 0 ''abc123'' rc) = Some (redirect_of sample_link)
     \<and> (\<exists>ev \<in> set sample_attack. \<exists>t. (t, ''abc123'', lk_url sample_link, lk_expires sample_link) \<in> redirects_saved ev)"
proof (intro exI conjI)
  let ?rc = "foldl (\<lambda>rc ev. cache_do sample_signer ev rc) sample_cache sample_attack"
  show run: "cache_run sample_signer ''ls'' sample_attack ?rc" by (rule sample_attack_run)
  show got: "fst (rc_get_redirect sample_signer Answers 0 ''abc123'' ?rc) = Some (redirect_of sample_link)"
    by (rule sample_attack_redirect)
  have "\<forall>ev \<in> set sample_attack. \<forall>(t, l) \<in> links_saved ev. link_wf l"
    by (auto simp: sample_attack_def links_saved_def sample_link_wf)
  from tampering_does_not_redirect [OF run sample_signer_ok this, of Inr] got
  show "\<exists>ev \<in> set sample_attack. \<exists>t. (t, ''abc123'', lk_url sample_link, lk_expires sample_link) \<in> redirects_saved ev"
    by (fastforce simp: redirect_of_def)
qed

text \<open>
  A round trip through the server: while it answers, a saved link is read back unchanged
  under its code until the configured lifetime, and its redirect with the target and the expiry
  of the link.
\<close>

lemma redis_cache_reads_back:
  assumes "signer_ok sg" and "link_wf l" and "fs (lk_url l) = Inr (lk_url l)" and "\<forall>u v. fs u = Inr v \<longrightarrow> v = u"
    and "rc_available rc" and "now \<le> t" "t < now + rc_ttl rc * second"
  shows "fst (rc_get_by_code fs sg Answers t (lk_code l) (rc_save sg Answers now l rc)) = Some l
    \<and> (lk_expires l = None \<longrightarrow>
         fst (rc_get_redirect sg Answers t (lk_code l) (rc_save sg Answers now l rc)) = Some (redirect_of l))"
proof -
  let ?rc = "rc_save sg Answers now l rc"
  have state: "rc_available ?rc" "rc_prefix ?rc = rc_prefix rc" "rc_ttl ?rc = rc_ttl rc" "rc_keys ?rc = queue_link sg now rc l (rc_keys rc)"
    using assms(5) by (simp_all add: rc_save_def execute_write_def ensure_connection_def)
  have "t div second \<le> (now + rc_ttl rc * second) div second" using assms(7) by (intro zdiv_mono1) (simp_all add: second_def)
  then have age: "t div second - now div second \<le> rc_ttl rc" by (simp add: second_def)
  have opens: "sg_unsign sg k t (Some (rc_ttl rc)) (sg_sign sg k now p) = Some p" for k p
    using assms(1,6) age unfolding signer_ok_def by blast
  have "redis_get t (for_short_code (rc_prefix rc) (lk_code l)) (rc_keys ?rc) = Some (seal sg now (for_short_code (rc_prefix rc) (lk_code l)) (serialize l))"
    using assms(7) by (simp add: state queue_link_def redis_set_def redis_get_def Let_def split: option.split)
  then have "fst (rc_get_by_code fs sg Answers t (lk_code l) ?rc) = deserialize fs (serialize l)"
    by (simp add: rc_get_by_code_def fetch_entry_def execute_read_def ensure_connection_def state open_entry_def unseal_def seal_def opens)
  moreover have "deserialize fs (serialize l) = Some l" using deserialize_serialize [OF assms(2), of fs] assms(3,4) by simp
  moreover have "fst (rc_get_redirect sg Answers t (lk_code l) ?rc) = Some (redirect_of l)" if "lk_expires l = None"
  proof -
    have "redis_get t (for_redirect (rc_prefix rc) (lk_code l)) (rc_keys ?rc) =
        Some (seal sg now (for_redirect (rc_prefix rc) (lk_code l)) (serialize_redirect (lk_code l) (lk_url l) (lk_expires l)))"
      using assms(7) that by (simp add: state queue_link_def redis_set_def redis_get_def Let_def rc_redirect_ttl_def)
    then show ?thesis
      by (simp add: rc_get_redirect_def fetch_entry_def execute_read_def ensure_connection_def state open_entry_def unseal_def seal_def opens
          deserialize_serialize_redirect redirect_of_def)
  qed
  ultimately show ?thesis by simp
qed

end
