(* ===== verification/Original_Url.thy ===== *)
theory Original_Url
  imports Value_Objects Ip_Address
begin

text \<open>
  The URL a link points at (\<^verbatim>\<open>domain/value_objects/original_url.py\<close>): what the service
  admits as a destination and the form it hashes. The standard library's \<^verbatim>\<open>urlparse\<close>
  (CPython 3.12) is modelled first, on the code points U+0000 to U+00FF, where its NFKC
  check refuses nothing; the package \<^verbatim>\<open>idna\<close> is a parameter, \<open>idna_encode host\<close> being the
  punycode form or the text of its error. The admission rules run in the order of
  \<^verbatim>\<open>__post_init__\<close>.
\<close>

section \<open>Splitting a URL\<close>

record parse_result =
  pr_scheme :: string
  pr_netloc :: string
  pr_path :: string
  pr_params :: string
  pr_query :: string
  pr_fragment :: string

definition scheme_char :: "char \<Rightarrow> bool" where
  "scheme_char c \<longleftrightarrow> is_alnum c \<or> c \<in> set ''+-.''"

definition strip_unsafe :: "string \<Rightarrow> string" where
  "strip_unsafe url = filter (\<lambda>c. code c \<notin> {9, 10, 13}) (dropWhile (\<lambda>c. code c \<le> 32) url)"

definition split_scheme :: "string \<Rightarrow> string \<times> string" where
  "split_scheme url =
     (case partition_on (CHR '':'') url of (pre, sep, rest) \<Rightarrow>
        if sep \<noteq> [] \<and> pre \<noteq> [] \<and> is_alpha (hd pre) \<and> list_all scheme_char pre then (lower pre, rest)
        else ([], url))"

definition netloc_char :: "char \<Rightarrow> bool" where
  "netloc_char c \<longleftrightarrow> c \<notin> set ''/?#''"

definition host_part :: "string \<Rightarrow> string" where
  "host_part netloc = (case rpartition_on (CHR ''@'') netloc of (_, _, hostinfo) \<Rightarrow> hostinfo)"

text \<open>\<^verbatim>\<open>_check_bracketed_host\<close>: an IPvFuture literal or an IPv6 address.\<close>

definition ipvfuture :: "string \<Rightarrow> bool" where
  "ipvfuture s \<longleftrightarrow> (case partition_on (CHR ''.'') (tl s) of (v, sep, rest) \<Rightarrow>
     sep \<noteq> [] \<and> v \<noteq> [] \<and> list_all is_hex v \<and> rest \<noteq> [])"

definition bracketed_host_ok :: "string \<Rightarrow> bool" where
  "bracketed_host_ok s \<longleftrightarrow>
     (if startswith s ''v'' then ipvfuture s
      else (case ip_address s of Some (IPv6 n sc) \<Rightarrow> True | _ \<Rightarrow> False))"

definition bracketed_netloc_ok :: "string \<Rightarrow> bool" where
  "bracketed_netloc_ok netloc \<longleftrightarrow>
     (case partition_on (CHR ''['') (host_part netloc) of (lead, sep, bracketed) \<Rightarrow>
        if sep \<noteq> [] then
          (case partition_on (CHR '']'') bracketed of (hostname, _, port) \<Rightarrow>
             lead = [] \<and> (port = [] \<or> startswith port '':'') \<and> bracketed_host_ok hostname)
        else (case partition_on (CHR '':'') (host_part netloc) of (hostname, _, _) \<Rightarrow> bracketed_host_ok hostname))"

definition netloc_ok :: "string \<Rightarrow> bool" where
  "netloc_ok netloc \<longleftrightarrow>
     (if CHR ''['' \<in> set netloc \<and> CHR '']'' \<in> set netloc then bracketed_netloc_ok netloc
      else CHR ''['' \<notin> set netloc \<and> CHR '']'' \<notin> set netloc)"

definition uses_params :: "string list" where
  "uses_params = ['''', ''ftp'', ''hdl'', ''prospero'', ''http'', ''imap'', ''https'', ''shttp'', ''rtsp'',
     ''rtsps'', ''rtspu'', ''sip'', ''sips'', ''mms'', ''sftp'', ''tel'']"

definition uses_netloc :: "string list" where
  "uses_netloc = ['''', ''ftp'', ''http'', ''gopher'', ''nntp'', ''telnet'', ''imap'', ''wais'', ''file'', ''mms'',
     ''https'', ''shttp'', ''snews'', ''prospero'', ''rtsp'', ''rtsps'', ''rtspu'', ''rsync'', ''svn'', ''svn+ssh'',
     ''sftp'', ''nfs'', ''git'', ''git+ssh'', ''ws'', ''wss'']"

definition splitparams :: "string \<Rightarrow> string \<times> string" where
  "splitparams url =
     (case rpartition_on (CHR ''/'') url of (lead, slash, tail) \<Rightarrow>
      case partition_on (CHR '';'') tail of (seg, _, params) \<Rightarrow> (lead @ slash @ seg, params))"

definition urlparse :: "string \<Rightarrow> parse_result option" where
  "urlparse value =
     (case split_scheme (strip_unsafe value) of (scheme, url0) \<Rightarrow>
      case (if startswith url0 ''//''
            then (takeWhile netloc_char (drop 2 url0), dropWhile netloc_char (drop 2 url0))
            else ([], url0)) of (netloc, url1) \<Rightarrow>
      if \<not> netloc_ok netloc then None else
      case partition_on (CHR ''#'') url1 of (url2, _, fragment) \<Rightarrow>
      case partition_on (CHR ''?'') url2 of (url3, _, query) \<Rightarrow>
      case (if scheme \<in> set uses_params \<and> CHR '';'' \<in> set url3 then splitparams url3 else (url3, []))
        of (path, params) \<Rightarrow>
      Some \<lparr>pr_scheme = scheme, pr_netloc = netloc, pr_path = path, pr_params = params,
            pr_query = query, pr_fragment = fragment\<rparr>)"

definition hostinfo :: "parse_result \<Rightarrow> string \<times> string" where
  "hostinfo p =
     (case partition_on (CHR ''['') (host_part (pr_netloc p)) of (_, sep, bracketed) \<Rightarrow>
        if sep \<noteq> []
        then (case partition_on (CHR '']'') bracketed of (hostname, _, rest) \<Rightarrow>
              case partition_on (CHR '':'') rest of (_, _, port) \<Rightarrow> (hostname, port))
        else (case partition_on (CHR '':'') (host_part (pr_netloc p)) of (hostname, _, port) \<Rightarrow> (hostname, port)))"

text \<open>The attribute \<^verbatim>\<open>hostname\<close>, empty where Python answers \<^verbatim>\<open>None\<close>: the sources read it with
  \<^verbatim>\<open>or ""\<close>. A zone keeps its case.\<close>

definition hostname :: "parse_result \<Rightarrow> string" where
  "hostname p =
     (case partition_on (CHR ''%'') (fst (hostinfo p)) of (h, percent, zone) \<Rightarrow> lower h @ percent @ zone)"

text \<open>The attribute \<^verbatim>\<open>port\<close>; the left summand stands for its \<^verbatim>\<open>ValueError\<close>.\<close>

definition port_of :: "parse_result \<Rightarrow> unit + int option" where
  "port_of p =
     (let port = snd (hostinfo p)
      in if port = [] then Inr None
         else if \<not> list_all is_digit port \<or> number_of 10 port > 65535 then Inl ()
         else Inr (Some (number_of 10 port)))"

text \<open>\<^verbatim>\<open>urlunsplit\<close> and \<^verbatim>\<open>geturl\<close>.\<close>

definition geturl :: "parse_result \<Rightarrow> string" where
  "geturl p =
     (let url0 = (if pr_params p \<noteq> [] then pr_path p @ '';'' @ pr_params p else pr_path p);
          url1 = (if pr_netloc p \<noteq> []
                  then ''//'' @ pr_netloc p @ (if url0 \<noteq> [] \<and> hd url0 \<noteq> CHR ''/'' then ''/'' else []) @ url0
                  else if startswith url0 ''//'' then ''//'' @ url0
                  else if pr_scheme p \<noteq> [] \<and> pr_scheme p \<in> set uses_netloc \<and> (url0 = [] \<or> hd url0 = CHR ''/'')
                  then ''//'' @ url0
                  else url0)
      in (if pr_scheme p \<noteq> [] then pr_scheme p @ '':'' else []) @ url1
         @ (if pr_query p \<noteq> [] then ''?'' @ pr_query p else [])
         @ (if pr_fragment p \<noteq> [] then ''#'' @ pr_fragment p else []))"

section \<open>Reading a host the way a resolver does\<close>

definition DEFAULT_PORTS :: "(string \<times> int) list" where
  "DEFAULT_PORTS = [(''http'', 80), (''https'', 443)]"

definition SPECIAL_USE_SUFFIXES :: "string list" where
  "SPECIAL_USE_SUFFIXES =
     [''localhost'', ''local'', ''home.arpa'', ''internal'', ''alt'', ''corp'', ''home'', ''mail'',
      ''localdomain'', ''intranet'', ''lan'', ''private'', ''svc'', ''consul'', ''novalocal'',
      ''openstacklocal'']"

definition LABEL_PATTERN :: "string \<Rightarrow> bool" where
  "LABEL_PATTERN s \<longleftrightarrow> s \<noteq> [] \<and> length s \<le> 63 \<and> is_alnum (hd s) \<and> is_alnum (last s)
     \<and> list_all (\<lambda>c. is_alnum c \<or> c = CHR ''-'') s"

definition without_root_label :: "string \<Rightarrow> string" where
  "without_root_label host =
     (if endswith host ''.'' \<and> \<not> endswith host ''..'' then butlast host else host)"

abbreviation url_error :: "string \<Rightarrow> (exn, 'a) result" where
  "url_error msg \<equiv> raise_validation msg ''url''"

definition to_ascii_host :: "(string \<Rightarrow> string + string) \<Rightarrow> string \<Rightarrow> (exn, string) result" where
  "to_ascii_host idna_encode host0 =
     (let host = without_root_label host0
      in if isascii host then Inr (lower host)
         else case idna_encode host of
           Inr ascii \<Rightarrow> Inr ascii
         | Inl reason \<Rightarrow> Inl (Domain (ValidationError (''Invalid international domain name: '' @ reason) ''url''
             (Some ''Invalid international domain name: %(reason)s'') [(''reason'', PStr reason)])))"

definition is_octal :: "char \<Rightarrow> bool" where
  "is_octal c \<longleftrightarrow> char_range (CHR ''0'') (CHR ''7'') c"

definition parse_ipv4_part :: "string \<Rightarrow> int option" where
  "parse_ipv4_part part =
     (if part = [] then None
      else if lower (take 2 part) = ''0x'' then
        (if drop 2 part = [] then Some 0
         else if list_all is_hex (drop 2 part) then Some (number_of 16 (drop 2 part)) else None)
      else if hd part = CHR ''0'' \<and> length part > 1 then
        (if list_all is_octal (tl part) then Some (number_of 8 (tl part)) else None)
      else if list_all is_digit part then Some (number_of 10 part) else None)"

definition ends_in_number :: "string \<Rightarrow> bool" where
  "ends_in_number part \<longleftrightarrow> parse_ipv4_part part \<noteq> None"

text \<open>The loop that packs the parts before the last, from the given octet on.\<close>

fun pack_octets :: "nat \<Rightarrow> int list \<Rightarrow> int" where
  "pack_octets index [] = 0"
| "pack_octets index (n # ns) = n * 256 ^ (3 - index) + pack_octets (Suc index) ns"

definition as_ip_address :: "string \<Rightarrow> (exn, ip option) result" where
  "as_ip_address host =
     (if CHR '':'' \<in> set host then
        (case ipv6_address host of
           Some (n, sc) \<Rightarrow> Inr (Some (IPv6 n sc))
         | None \<Rightarrow> url_error ''Invalid IP address in host'')
      else
        let split = split_on (CHR ''.'') host;
            parts = (if last split = [] then butlast split else split)
        in if parts = [] \<or> \<not> ends_in_number (last parts) then Inr None
           else if length parts > 4 then url_error ''Invalid IP address in host''
           else let parsed = map parse_ipv4_part parts
           in if None \<in> set parsed then url_error ''Invalid IP address in host''
              else let numbers = map the parsed
              in if list_ex (\<lambda>number. number > 255) (butlast numbers) then url_error ''Invalid IP address in host''
                 else if last numbers \<ge> 256 ^ (4 - (length numbers - 1)) then url_error ''Invalid IP address in host''
                 else Inr (Some (IPv4 (last numbers + pack_octets 0 (butlast numbers)))))"

definition candidates :: "ip \<Rightarrow> ip list" where
  "candidates address =
     address # (case address of IPv4 n \<Rightarrow> []
       | IPv6 n sc \<Rightarrow>
           map IPv4 ((case ipv4_mapped n of None \<Rightarrow> [] | Some m \<Rightarrow> [m]) @
                     (case sixtofour n of None \<Rightarrow> [] | Some m \<Rightarrow> [m]) @
                     (case teredo n of None \<Rightarrow> [] | Some (server, client) \<Rightarrow> [server, client])))"

definition is_internal_address :: "ip \<Rightarrow> bool" where
  "is_internal_address address =
     list_ex (\<lambda>a. \<not> is_global a \<or> is_private a \<or> is_loopback a \<or> is_link_local a \<or> is_multicast a
                  \<or> is_reserved_ip a \<or> is_unspecified a) (candidates address)"

section \<open>The admission rules\<close>

record url_rules =
  allowed_schemes :: "string list"
  max_length :: nat
  allow_internal_targets :: bool
  trusted :: bool

definition default_rules :: url_rules where
  "default_rules = \<lparr>allowed_schemes = [''http'', ''https''], max_length = 2048,
     allow_internal_targets = False, trusted = False\<rparr>"

definition validate_length :: "url_rules \<Rightarrow> string \<Rightarrow> (exn, unit) result" where
  "validate_length r value =
     (if length value > max_length r
      then Inl (Domain (ValidationError (''URL too long (max '' @ str_of_nat (max_length r) @ '' characters)'') ''url''
        (Some ''URL too long (max %(max)s characters)'') [(''max'', PInt (int (max_length r)))]))
      else Inr ())"

definition validate_admissible_characters :: "string \<Rightarrow> (exn, unit) result" where
  "validate_admissible_characters value =
     (if list_ex is_control value then url_error ''URL contains control characters'' else Inr ())"

definition parse_url :: "string \<Rightarrow> (exn, parse_result) result" where
  "parse_url value =
     (case urlparse value of Some p \<Rightarrow> Inr p
      | None \<Rightarrow> url_error ''Malformed URL: its authority cannot be parsed'')"

definition validate_scheme :: "url_rules \<Rightarrow> parse_result \<Rightarrow> (exn, unit) result" where
  "validate_scheme r p =
     (if pr_scheme p = [] then url_error ''URL must have a scheme!''
      else if pr_scheme p \<notin> set (allowed_schemes r) then
        (let allowed_list = join_with '', '' (allowed_schemes r)
         in Inl (Domain (ValidationError
              (''Scheme '' @ apos @ pr_scheme p @ apos @ '' is not allowed. Allowed schemes: '' @ allowed_list) ''url''
              (Some (''Scheme '' @ apos @ ''%(scheme)s'' @ apos @ '' is not allowed. Allowed schemes: %(allowed)s''))
              [(''scheme'', PStr (pr_scheme p)), (''allowed'', PStr allowed_list)])))
      else Inr ())"

definition validate_authority_present :: "parse_result \<Rightarrow> (exn, unit) result" where
  "validate_authority_present p =
     (if pr_netloc p = [] then url_error ''URL must have a domain!''
      else if hostname p = [] then url_error ''URL must have a hostname''
      else case port_of p of Inl _ \<Rightarrow> url_error ''Invalid port number'' | Inr _ \<Rightarrow> Inr ())"

definition validate_no_credentials :: "parse_result \<Rightarrow> (exn, unit) result" where
  "validate_no_credentials p =
     (if CHR ''@'' \<in> set (pr_netloc p) then url_error ''URL must not contain credentials before the host''
      else Inr ())"

definition validate_bracketed_host_is_an_address :: "parse_result \<Rightarrow> (exn, unit) result" where
  "validate_bracketed_host_is_an_address p =
     (if CHR ''['' \<notin> set (pr_netloc p) \<and> CHR '']'' \<notin> set (pr_netloc p) then Inr ()
      else case ipv6_address (hostname p) of
        Some _ \<Rightarrow> Inr () | None \<Rightarrow> url_error ''Brackets in a URL enclose an IPv6 address'')"

fun validate_labels :: "string list \<Rightarrow> (exn, unit) result" where
  "validate_labels [] = Inr ()"
| "validate_labels (label # labels) =
     (if label = [] then url_error ''Empty label in host''
      else if length label > 63 then url_error ''Label too long''
      else if \<not> LABEL_PATTERN label then
        Inl (Domain (ValidationError (''Invalid characters in host label: '' @ label) ''url''
          (Some ''Invalid characters in host label: %(label)s'') [(''label'', PStr label)]))
      else validate_labels labels)"

definition validate_host :: "(string \<Rightarrow> string + string) \<Rightarrow> string \<Rightarrow> (exn, unit) result" where
  "validate_host idna_encode host0 =
     (if host0 = [] then url_error ''Empty host''
      else let host = without_root_label host0
      in if ip_address host \<noteq> None then Inr ()
         else if host = ''localhost'' then Inr ()
         else rbind (to_ascii_host idna_encode host) (\<lambda>ascii.
           if CHR ''.'' \<notin> set ascii then url_error ''Host must contain a dot (e.g., example.com)''
           else if length ascii > 253 then url_error ''Host too long''
           else validate_labels (split_on (CHR ''.'') ascii)))"

text \<open>
  \<^verbatim>\<open>_validate_netloc\<close> reads the port a second time; the rule before it has already made sure
  that it can be read, and the branch repeats what that rule would raise.
\<close>

definition validate_netloc :: "(string \<Rightarrow> string + string) \<Rightarrow> parse_result \<Rightarrow> (exn, unit) result" where
  "validate_netloc idna_encode p =
     (case port_of p of
        Inl _ \<Rightarrow> Inl (ValueError ''Port could not be cast to integer value'')
      | Inr (Some port) \<Rightarrow>
          if \<not> (1 \<le> port \<and> port \<le> 65535) then url_error ''Invalid port number''
          else validate_host idna_encode (hostname p)
      | Inr None \<Rightarrow> validate_host idna_encode (hostname p))"

definition validate_path :: "parse_result \<Rightarrow> (exn, unit) result" where
  "validate_path p =
     (if list_ex is_control (pr_path p) then url_error ''Path contains control characters'' else Inr ())"

definition validate_public_target ::
  "(string \<Rightarrow> string + string) \<Rightarrow> url_rules \<Rightarrow> parse_result \<Rightarrow> (exn, unit) result" where
  "validate_public_target idna_encode r p =
     (if allow_internal_targets r then Inr ()
      else rbind (to_ascii_host idna_encode (hostname p)) (\<lambda>host.
        rbind (as_ip_address host) (\<lambda>address.
          case address of
            None \<Rightarrow>
              (let ascii_host = rstrip_char (CHR ''.'') host
               in if list_ex (\<lambda>suffix. ascii_host = suffix \<or> endswith ascii_host (''.'' @ suffix)) SPECIAL_USE_SUFFIXES
                  then url_error ''URL must point at a public address'' else Inr ())
          | Some a \<Rightarrow>
              if is_internal_address a then url_error ''URL must point at a public address'' else Inr ())))"

definition OriginalUrl :: "(string \<Rightarrow> string + string) \<Rightarrow> url_rules \<Rightarrow> string \<Rightarrow> (exn, string) result" where
  "OriginalUrl idna_encode r value =
     (if trusted r
      then rbind (parse_url value) (\<lambda>p. rbind (validate_authority_present p) (\<lambda>_. Inr value))
      else
        rbind (validate_length r value) (\<lambda>_.
        rbind (validate_admissible_characters value) (\<lambda>_.
        rbind (parse_url value) (\<lambda>p.
        rbind (validate_scheme r p) (\<lambda>_.
        rbind (validate_authority_present p) (\<lambda>_.
        rbind (validate_no_credentials p) (\<lambda>_.
        rbind (validate_bracketed_host_is_an_address p) (\<lambda>_.
        rbind (validate_netloc idna_encode p) (\<lambda>_.
        rbind (validate_path p) (\<lambda>_.
        rbind (validate_public_target idna_encode r p) (\<lambda>_.
        Inr value)))))))))))"

definition from_storage :: "(string \<Rightarrow> string + string) \<Rightarrow> string \<Rightarrow> (exn, string) result" where
  "from_storage idna_encode value = OriginalUrl idna_encode (default_rules\<lparr>trusted := True\<rparr>) value"

definition normalize :: "(string \<Rightarrow> string + string) \<Rightarrow> string \<Rightarrow> (exn, string) result" where
  "normalize idna_encode value =
     rbind (parse_url value) (\<lambda>p.
       let scheme = lower (pr_scheme p)
       in rbind (to_ascii_host idna_encode (hostname p)) (\<lambda>host0.
          let host = (if CHR '':'' \<in> set host0 \<or> CHR ''['' \<in> set (pr_netloc p) then ''['' @ host0 @ '']'' else host0)
          in case port_of p of
               Inl _ \<Rightarrow> Inl (ValueError ''Port could not be cast to integer value'')
             | Inr port \<Rightarrow>
                 (let with_port = (case port of None \<Rightarrow> host
                        | Some n \<Rightarrow> if map_of DEFAULT_PORTS scheme \<noteq> Some n then host @ '':'' @ str_of_int n else host)
                  in case rpartition_on (CHR ''@'') (pr_netloc p) of (userinfo, separator, _) \<Rightarrow>
                     Inr (geturl \<lparr>pr_scheme = scheme, pr_netloc = userinfo @ separator @ with_port,
                        pr_path = (if pr_path p \<noteq> [] then pr_path p else ''/''), pr_params = pr_params p,
                        pr_query = pr_query p, pr_fragment = []\<rparr>))))"

section \<open>Reference notions\<close>

text \<open>A name in a zone that exists only inside a network.\<close>

definition names_internal_zone :: "string \<Rightarrow> bool" where
  "names_internal_zone host \<longleftrightarrow> (\<exists>suffix \<in> set SPECIAL_USE_SUFFIXES. host = suffix \<or> endswith host (''.'' @ suffix))"

text \<open>Letters, digits, dots and hyphens, not ending in a dot.\<close>

definition plain_host :: "string \<Rightarrow> bool" where
  "plain_host h \<longleftrightarrow> h \<noteq> [] \<and> list_all (\<lambda>c. is_alnum c \<or> c = CHR ''.'' \<or> c = CHR ''-'') h \<and> last h \<noteq> CHR ''.''"

text \<open>An encoder that knows no international name, for evaluation.\<close>

definition no_idna :: "string \<Rightarrow> string + string" where
  "no_idna host = Inl ''not supported''"

section \<open>Lemmas: what admission establishes\<close>

lemma OriginalUrl_Inr:
  assumes "OriginalUrl idna_encode r v = Inr u" and "\<not> trusted r"
  obtains p where "u = v" "urlparse v = Some p" "validate_length r v = Inr ()"
    "validate_admissible_characters v = Inr ()" "validate_scheme r p = Inr ()"
    "validate_authority_present p = Inr ()" "validate_no_credentials p = Inr ()"
    "validate_bracketed_host_is_an_address p = Inr ()" "validate_netloc idna_encode p = Inr ()"
    "validate_path p = Inr ()" "validate_public_target idna_encode r p = Inr ()"
  using assms by (auto simp: OriginalUrl_def parse_url_def result_simps split: option.splits)

lemma from_storage_eq:
  "from_storage idna_encode v = rbind (parse_url v) (\<lambda>p. rbind (validate_authority_present p) (\<lambda>_. Inr v))"
  by (simp add: from_storage_def OriginalUrl_def default_rules_def)

lemma validate_public_target_Inr:
  "validate_public_target idna_encode r p = Inr u \<longleftrightarrow>
     allow_internal_targets r \<or>
     (\<exists>host address. to_ascii_host idna_encode (hostname p) = Inr host \<and> as_ip_address host = Inr address \<and>
        (case address of None \<Rightarrow> \<not> names_internal_zone (rstrip_char (CHR ''.'') host)
         | Some a \<Rightarrow> \<not> is_internal_address a))"
  by (auto simp: validate_public_target_def names_internal_zone_def result_simps Let_def list_ex_iff split: option.splits if_splits)

section \<open>Lemmas: the spellings of an address\<close>

lemma number_of_append: "number_of r (s @ t) = fold (\<lambda>c n. n * r + digit_value c) t (number_of r s)"
  by (simp add: number_of_def)

lemma digit_value_digit_char: "d < 10 \<Longrightarrow> digit_value (digit_char d) = int d"
  by (simp add: digit_value_def digit_char_def is_digit_def char_range_def code_def)

lemma is_digit_digit_char: "d < 10 \<Longrightarrow> is_digit (digit_char d)"
  by (simp add: digit_char_def is_digit_def char_range_def code_def)

lemma str_of_nat_digits: "list_all is_digit (str_of_nat n) \<and> str_of_nat n \<noteq> []"
proof (induction n rule: str_of_nat.induct)
  case (1 n)
  then show ?case by (subst (1 2) str_of_nat.simps) (simp add: is_digit_digit_char)
qed

lemma number_of_str_of_nat: "number_of 10 (str_of_nat n) = int n"
proof (induction n rule: str_of_nat.induct)
  case (1 n)
  show ?case
  proof (cases "n < 10")
    case True
    then show ?thesis by (subst str_of_nat.simps) (simp add: number_of_def digit_value_digit_char)
  next
    case False
    have d: "n mod 10 < 10" by simp
    have "number_of 10 (str_of_nat n) = int (n div 10) * 10 + int (n mod 10)"
      using False 1 digit_value_digit_char [OF d] by (subst str_of_nat.simps) (simp add: number_of_append)
    then show ?thesis by presburger
  qed
qed

lemma str_of_nat_hd: "n > 0 \<Longrightarrow> hd (str_of_nat n) \<noteq> CHR ''0''"
proof (induction n rule: str_of_nat.induct)
  case (1 n)
  show ?case
  proof (cases "n < 10")
    case True
    with 1(2) have "code (digit_char n) \<noteq> code (CHR ''0'')" by (simp add: digit_char_def) (simp add: code_def)
    with True show ?thesis by (subst str_of_nat.simps) auto
  next
    case False
    then show ?thesis using 1 str_of_nat_digits [of "n div 10"] by (subst str_of_nat.simps) simp
  qed
qed

lemma digit_not_dot: "is_digit c \<Longrightarrow> c \<noteq> CHR ''.'' \<and> c \<noteq> CHR '':''"
  by (auto simp: is_digit_def char_range_def code_def)

lemma split_on_absent: "sep \<notin> set s \<Longrightarrow> split_on sep s = [s]"
  by (induction s) auto

lemma lower_digits: "list_all is_digit s \<Longrightarrow> lower s = s"
  by (induction s) (auto simp: lower_def lower_char_def has_upper_def is_digit_def char_range_def code_def)

lemma not_0x: "list_all is_digit s \<Longrightarrow> lower (take 2 s) \<noteq> ''0x''"
proof
  assume a: "list_all is_digit s" and b: "lower (take 2 s) = ''0x''"
  from a have t: "list_all is_digit (take 2 s)" by (auto simp: list_all_iff dest: in_set_takeD)
  then have "take 2 s = ''0x''" using b lower_digits by metis
  with t show False by (simp add: is_digit_def char_range_def code_def)
qed

lemma parse_ipv4_part_decimal:
  "list_all is_digit s \<Longrightarrow> s \<noteq> [] \<Longrightarrow> s = ''0'' \<or> hd s \<noteq> CHR ''0'' \<Longrightarrow> parse_ipv4_part s = Some (number_of 10 s)"
  using not_0x [of s] by (auto simp: parse_ipv4_part_def)

lemma parse_octet_ipv4_part: "parse_octet s = Some n \<Longrightarrow> parse_ipv4_part s = Some n"
  by (auto simp: parse_octet_def parse_ipv4_part_decimal split: if_splits)

lemma as_ip_address_strict:
  assumes "ipv4_address s = Some n"
  shows "as_ip_address s = Inr (Some (IPv4 n))"
proof -
  from assms obtain a b c d where m: "map parse_octet (split_on (CHR ''.'') s) = [Some a, Some b, Some c, Some d]"
    and n: "n = v4 a b c d" by (rule ipv4_address_Some)
  then obtain w x y z where sp: "split_on (CHR ''.'') s = [w, x, y, z]"
    and oct: "parse_octet w = Some a" "parse_octet x = Some b" "parse_octet y = Some c" "parse_octet z = Some d"
    by (auto simp: map_eq_Cons_conv)
  have z: "z \<noteq> []" using oct(4) by (auto simp: parse_octet_def)
  have digs: "list_all is_digit t" if "parse_octet t = Some k" for t k
    using that by (auto simp: parse_octet_def split: if_splits)
  have "s = w @ ''.'' @ x @ ''.'' @ y @ ''.'' @ z" using join_split_on [of "CHR ''.''" s] sp by simp
  then have colon: "CHR '':'' \<notin> set s"
    using oct [THEN digs] digit_not_dot [of "CHR '':''"] by (auto simp: list_all_iff)
  show ?thesis
    using oct [THEN parse_octet_ipv4_part] oct [THEN parse_octet_range] z colon n
    by (simp add: as_ip_address_def Let_def sp ends_in_number_def v4_def numeral_eq_Suc)
qed

lemma as_ip_address_one_number:
  assumes "n < 2 ^ 32"
  shows "as_ip_address (str_of_nat n) = Inr (Some (IPv4 (int n)))"
proof -
  have ds: "list_all is_digit (str_of_nat n)" "str_of_nat n \<noteq> []" using str_of_nat_digits [of n] by auto
  then have no: "CHR ''.'' \<notin> set (str_of_nat n)" "CHR '':'' \<notin> set (str_of_nat n)"
    using digit_not_dot by (auto simp: list_all_iff)
  have "str_of_nat n = ''0'' \<or> hd (str_of_nat n) \<noteq> CHR ''0''"
    using str_of_nat_hd [of n] by (cases "n = 0") (simp_all add: str_of_nat.simps [of 0] digit_char_def)
  then have "parse_ipv4_part (str_of_nat n) = Some (int n)"
    using ds by (simp add: parse_ipv4_part_decimal number_of_str_of_nat)
  then show ?thesis using ds no assms
    by (simp add: as_ip_address_def Let_def split_on_absent ends_in_number_def)
qed


lemma parse_ipv4_part_nonneg: "parse_ipv4_part s = Some n \<Longrightarrow> 0 \<le> n"
proof -
  have oct: "list_all is_hex t" if "list_all is_octal t" for t
    using that by (auto simp: list_all_iff is_octal_def is_hex_def is_digit_def char_range_def code_def)
  have dig: "list_all is_hex t" if "list_all is_digit t" for t
    using that by (auto simp: list_all_iff is_digit_hex)
  show "parse_ipv4_part s = Some n \<Longrightarrow> 0 \<le> n"
    by (auto simp: parse_ipv4_part_def split: if_splits dest: oct dig intro: number_of_nonneg)
qed

lemma pack_octets_bound:
  "list_all (\<lambda>k. 0 \<le> k \<and> k \<le> 255) ns \<Longrightarrow> i + length ns \<le> 3 \<Longrightarrow>
     0 \<le> pack_octets i ns \<and> pack_octets i ns \<le> 256 ^ (4 - i) - 256 ^ (4 - i - length ns)"
proof (induction i ns rule: pack_octets.induct)
  case (1 index)
  then show ?case by simp
next
  case (2 index k ns)
  let ?q = "256 ^ (3 - index) :: int"
  have e: "4 - index = Suc (3 - index)" using 2(3) by simp
  from 2 have ih: "0 \<le> pack_octets (Suc index) ns"
    "pack_octets (Suc index) ns \<le> ?q - 256 ^ (3 - index - length ns)"
    by (simp_all add: Suc_diff_le)
  have "k * ?q \<le> 255 * ?q" using 2(2) by (simp add: mult_right_mono)
  moreover have "0 \<le> k * ?q" using 2(2) by simp
  ultimately show ?case using ih
    unfolding pack_octets.simps e power_Suc list.size(4) add_Suc_right add_0_right diff_Suc_Suc by linarith
qed

lemma as_ip_address_range:
  assumes "as_ip_address h = Inr (Some (IPv4 n))"
  shows "0 \<le> n \<and> n < 2 ^ 32"
proof -
  from assms obtain ns where ns: "ns \<noteq> []" "length ns \<le> 4" "list_all (\<lambda>k. 0 \<le> k) ns"
      "list_all (\<lambda>k. k \<le> 255) (butlast ns)" "last ns < 256 ^ (4 - (length ns - 1))"
      "n = last ns + pack_octets 0 (butlast ns)"
  proof -
    let ?sp = "split_on (CHR ''.'') h"
    let ?parts = "if last ?sp = [] then butlast ?sp else ?sp"
    let ?ns = "map the (map parse_ipv4_part ?parts)"
    have c: "CHR '':'' \<notin> set h" using assms by (auto simp: as_ip_address_def split: option.splits)
    have f: "?parts \<noteq> []" "length ?parts \<le> 4" "None \<notin> set (map parse_ipv4_part ?parts)"
        "\<not> list_ex (\<lambda>k. k > 255) (butlast ?ns)" "last ?ns < 256 ^ (4 - (length ?ns - 1))"
        "n = last ?ns + pack_octets 0 (butlast ?ns)"
      using assms c unfolding as_ip_address_def Let_def by (simp_all split: if_split_asm)
    have "list_all (\<lambda>k. 0 \<le> k) ?ns"
      unfolding list_all_iff
    proof
      fix k assume "k \<in> set ?ns"
      then obtain w where w: "w \<in> set ?parts" "k = the (parse_ipv4_part w)" by (auto split: if_split_asm)
      have "parse_ipv4_part w \<noteq> None" using f(3) w(1) by (metis image_eqI set_map)
      then show "0 \<le> k" using w(2) parse_ipv4_part_nonneg by auto
    qed
    moreover have "list_all (\<lambda>k. k \<le> 255) (butlast ?ns)"
      using f(4) by (auto simp: list_ex_iff list_all_iff not_less)
    ultimately show thesis using f(1,2,5,6) by (intro that [of ?ns]) simp_all
  qed
  have "list_all (\<lambda>k. 0 \<le> k \<and> k \<le> 255) (butlast ns)"
    using ns(3,4) by (auto simp: list_all_iff dest: in_set_butlastD)
  from pack_octets_bound [OF this, of 0]
  have "0 \<le> pack_octets 0 (butlast ns) \<and>
      pack_octets 0 (butlast ns) \<le> 256 ^ 4 - 256 ^ (4 - (length ns - 1))" using ns(2) by simp
  moreover have "0 \<le> last ns" using ns(1,3) by (simp add: list_all_iff)
  ultimately show ?thesis using ns(5,6) by simp
qed


section \<open>Lemmas: a plain host in a URL\<close>

lemma plain_char:
  assumes "is_alnum c \<or> c = CHR ''.'' \<or> c = CHR ''-''"
  shows "netloc_char c" "c \<noteq> CHR ''@''" "c \<noteq> CHR ''[''" "c \<noteq> CHR '']''" "c \<noteq> CHR '':''" "c \<noteq> CHR ''%''"
    "code c \<notin> {9, 10, 13}" "is_ascii_char c"
  using assms
  by (auto simp: netloc_char_def is_ascii_char_def is_alnum_def is_alpha_def is_digit_def char_range_def code_def)

lemma plain_hostD: "plain_host h \<Longrightarrow> c \<in> set h \<Longrightarrow> is_alnum c \<or> c = CHR ''.'' \<or> c = CHR ''-''"
  by (auto simp: plain_host_def list_all_iff)

lemma plain_host_absent:
  assumes "plain_host h" and "c \<in> {CHR ''@'', CHR ''['', CHR '']'', CHR '':'', CHR ''%''}"
  shows "c \<notin> set h"
proof
  assume "c \<in> set h"
  from plain_char(2-6) [OF plain_hostD [OF assms(1) this]] assms(2) show False by simp
qed

lemma rpartition_on_absent: "sep \<notin> set s \<Longrightarrow> rpartition_on sep s = ([], [], s)"
  by (simp add: rpartition_on_def partition_on_absent)

lemma hostname_plain:
  assumes "plain_host h" and "pr_netloc p = h"
  shows "hostname p = lower h" "port_of p = Inr None"
  using plain_host_absent [OF assms(1)] assms(2)
  by (simp_all add: hostname_def port_of_def hostinfo_def host_part_def rpartition_on_absent partition_on_absent)

lemma strip_unsafe_http:
  assumes "plain_host h"
  shows "strip_unsafe (''http://'' @ h @ ''/'' @ rest) = ''http://'' @ h @ ''/'' @ filter (\<lambda>c. code c \<notin> {9, 10, 13}) rest"
proof -
  have "filter (\<lambda>c. code c \<notin> {9, 10, 13}) h = h"
    using plain_char(7) plain_hostD [OF assms] by (intro filter_True) metis
  then show ?thesis unfolding strip_unsafe_def filter_append by (simp add: code_def)
qed

lemma split_scheme_http: "split_scheme (''http://'' @ rest) = (''http'', ''//'' @ rest)"
proof -
  have "partition_on (CHR '':'') (''http'' @ CHR '':'' # ''//'' @ rest) = (''http'', '':'', ''//'' @ rest)"
    by (rule partition_on_cons) simp
  then have p: "partition_on (CHR '':'') (''http://'' @ rest) = (''http'', '':'', ''//'' @ rest)" by simp
  have l: "lower ''http'' = ''http''" by code_simp
  have "is_alpha (hd ''http'') \<and> list_all scheme_char ''http''" by code_simp
  with p l show ?thesis unfolding split_scheme_def by simp
qed

lemma urlparse_plain:
  assumes "plain_host h"
  obtains p where "urlparse (''http://'' @ h @ ''/'' @ rest) = Some p" "pr_netloc p = h" "pr_scheme p = ''http''"
proof -
  define rest' where "rest' = filter (\<lambda>c. code c \<notin> {9, 10, 13}) rest"
  have tw: "takeWhile netloc_char (h @ CHR ''/'' # rest') = h"
    using assms plain_char(1)
    by (subst takeWhile_append2) (auto simp: plain_host_def list_all_iff netloc_char_def)
  have ok: "netloc_ok h"
    using plain_host_absent [OF assms] by (simp add: netloc_ok_def)
  have "\<exists>p. urlparse (''http://'' @ h @ ''/'' @ rest) = Some p \<and> pr_netloc p = h \<and> pr_scheme p = ''http''"
    unfolding urlparse_def strip_unsafe_http [OF assms] rest'_def [symmetric] split_scheme_http
    using tw ok by (simp add: startswith_def split: prod.split)
  then show thesis using that by blast
qed

lemma to_ascii_host_plain:
  assumes "plain_host h"
  shows "to_ascii_host idna_encode (lower h) = Inr (lower h)"
proof -
  have "last (lower h) \<noteq> CHR ''.''" using assms by (simp add: plain_host_def lower_def last_map)
  then have "without_root_label (lower h) = lower h"
    using assms by (auto simp: without_root_label_def endswith_iff_suffix suffix_def)
  moreover have "isascii (lower h)"
    using assms by (auto simp: plain_host_def isascii_def lower_def list_all_iff is_ascii_char_def
        code_lower_char has_upper_def dest!: plain_char(8))
  ultimately show ?thesis by (simp add: to_ascii_host_def)
qed

lemma admitted_readable:
  assumes "OriginalUrl idna_encode r v = Inr u"
  shows "from_storage idna_encode u = Inr u \<and> u = v"
proof -
  have "\<exists>p. urlparse v = Some p \<and> validate_authority_present p = Inr () \<and> u = v"
    using assms by (cases "trusted r")
      (auto simp: OriginalUrl_def parse_url_def result_simps split: option.splits)
  then show ?thesis by (auto simp: from_storage_eq parse_url_def)
qed

section \<open>Properties\<close>

text \<open>
  C4. What the admission rules establish together, for every setting of the limits: an
  admitted URL is returned unchanged, is short enough and free of control characters; it
  parses, its scheme is one of the allowed ones, it carries no credentials, it has a host
  and a port in range if any; and unless internal targets are allowed, its host in the
  form a resolver sees is either a name outside the zones of private networks or an
  address none of whose readings is internal.
\<close>

theorem admitted_url_is_safe:
  assumes "OriginalUrl idna_encode r v = Inr u" and "\<not> trusted r"
  shows "u = v \<and> length v \<le> max_length r \<and> \<not> list_ex is_control v \<and>
    (\<exists>p. urlparse v = Some p \<and> pr_scheme p \<in> set (allowed_schemes r) \<and> CHR ''@'' \<notin> set (pr_netloc p) \<and>
       hostname p \<noteq> [] \<and>
       (\<exists>port. port_of p = Inr port \<and> (\<forall>n. port = Some n \<longrightarrow> 1 \<le> n \<and> n \<le> 65535)) \<and>
       (allow_internal_targets r \<or>
        (\<exists>host. to_ascii_host idna_encode (hostname p) = Inr host \<and>
           (as_ip_address host = Inr None \<and>
              (\<forall>suffix \<in> set SPECIAL_USE_SUFFIXES.
                 rstrip_char (CHR ''.'') host \<noteq> suffix \<and> \<not> endswith (rstrip_char (CHR ''.'') host) (''.'' @ suffix))
            \<or> (\<exists>a. as_ip_address host = Inr (Some a) \<and> \<not> is_internal_address a)))))"
proof -
  obtain p where p: "u = v" "urlparse v = Some p" "validate_length r v = Inr ()"
    "validate_admissible_characters v = Inr ()" "validate_scheme r p = Inr ()"
    "validate_authority_present p = Inr ()" "validate_no_credentials p = Inr ()"
    "validate_netloc idna_encode p = Inr ()" "validate_public_target idna_encode r p = Inr ()"
    using assms by (rule OriginalUrl_Inr)
  have base: "length v \<le> max_length r" "\<not> list_ex is_control v" "pr_scheme p \<in> set (allowed_schemes r)"
    "CHR ''@'' \<notin> set (pr_netloc p)" "hostname p \<noteq> []"
    using p(3-7) by (simp_all add: validate_length_def validate_admissible_characters_def validate_scheme_def
        validate_no_credentials_def validate_authority_present_def Let_def split: if_split_asm)
  have port: "\<exists>port. port_of p = Inr port \<and> (\<forall>n. port = Some n \<longrightarrow> 1 \<le> n \<and> n \<le> 65535)"
    using p(8) by (cases "port_of p") (auto simp: validate_netloc_def split: option.splits if_split_asm)
  have "allow_internal_targets r \<or>
      (\<exists>host. to_ascii_host idna_encode (hostname p) = Inr host \<and>
         (as_ip_address host = Inr None \<and> \<not> names_internal_zone (rstrip_char (CHR ''.'') host)
          \<or> (\<exists>a. as_ip_address host = Inr (Some a) \<and> \<not> is_internal_address a)))"
    using p(9) unfolding validate_public_target_Inr by (metis (no_types, lifting) option.case_eq_if option.collapse)
  then show ?thesis using p(1,2) base port unfolding names_internal_zone_def by blast
qed

theorem admitted_url_is_safe_witness:
  "length ''http://example.com/'' \<le> max_length default_rules"
proof -
  have "OriginalUrl no_idna default_rules ''http://example.com/'' = Inr ''http://example.com/''" by code_simp
  moreover have "\<not> trusted default_rules" by (simp add: default_rules_def)
  ultimately show ?thesis using admitted_url_is_safe by blast
qed

text \<open>
  The spelling of an address does not decide whether it is refused. A dotted quad
  that the strict parser accepts and the same number written as one decimal are read as
  the same address, which lies in the 32-bit range; and any URL whose host is a spelling
  of an internal address, in whatever radix and number of parts, is refused.
\<close>

lemma internal_address_is_refused:
  assumes "\<not> trusted r" and "\<not> allow_internal_targets r" and "plain_host h"
    and "as_ip_address (lower h) = Inr (Some a)" and "is_internal_address a"
  shows "(\<exists>e. OriginalUrl idna_encode r (''http://'' @ h @ ''/'' @ rest) = Inl e)
    \<and> (\<forall>n. a = IPv4 n \<longrightarrow> 0 \<le> n \<and> n < 2 ^ 32)
    \<and> (\<forall>s n. ipv4_address s = Some n \<longrightarrow>
         as_ip_address s = Inr (Some (IPv4 n)) \<and> as_ip_address (str_of_nat (nat n)) = Inr (Some (IPv4 n)))"
proof (intro conjI allI impI)
  obtain p where p: "urlparse (''http://'' @ h @ ''/'' @ rest) = Some p" "pr_netloc p = h"
    using urlparse_plain [OF assms(3)] by blast
  have "hostname p = lower h" using hostname_plain assms(3) p(2) by blast
  then have "validate_public_target idna_encode r p \<noteq> Inr ()"
    using assms to_ascii_host_plain [OF assms(3)] by (simp add: validate_public_target_Inr)
  then have "OriginalUrl idna_encode r (''http://'' @ h @ ''/'' @ rest) \<noteq> Inr u" for u
    using p(1) assms(1) by (metis OriginalUrl_Inr option.inject)
  then show "\<exists>e. OriginalUrl idna_encode r (''http://'' @ h @ ''/'' @ rest) = Inl e"
    by (meson sumE)
next
  fix n assume "a = IPv4 n"
  then show "0 \<le> n" "n < 2 ^ 32" using as_ip_address_range assms(4) by blast+
next
  fix s n assume s: "ipv4_address s = Some n"
  then show "as_ip_address s = Inr (Some (IPv4 n))" by (rule as_ip_address_strict)
  from s have "0 \<le> n \<and> n < 2 ^ 32" by (rule ipv4_address_range)
  then show "as_ip_address (str_of_nat (nat n)) = Inr (Some (IPv4 n))"
    using as_ip_address_one_number [of "nat n"] by (simp add: nat_less_iff)
qed

text \<open>
  C38. A URL that was admitted under any rules stays readable: read back from storage it
  is accepted, unchanged, whatever the settings have become since.
\<close>

theorem admitted_url_is_readable:
  assumes "OriginalUrl idna_encode r v = Inr u"
  shows "from_storage idna_encode u = Inr u \<and> u = v"
  using assms by (rule admitted_readable)

theorem admitted_url_is_readable_witness:
  "from_storage no_idna ''http://example.com/'' = Inr ''http://example.com/''"
proof -
  have "OriginalUrl no_idna default_rules ''http://example.com/'' = Inr ''http://example.com/''" by code_simp
  then show ?thesis using admitted_url_is_readable by blast
qed

end
