(* ===== verification/Database.thy ===== *)
theory Database
  imports Links Original_Url Visitors
begin

text \<open>
  The entities other than the link (\<^verbatim>\<open>domain/entities\<close>) and the database they are stored in
  (\<^verbatim>\<open>infrastructure/database/models\<close>): one list of rows per table, the two association
  tables as lists of identifiers in the row they belong to. A transaction is a function on
  the database: what \<^verbatim>\<open>UnitOfWork\<close> adds, that nothing of it is kept unless it commits, is how
  the use cases are written, which return the old database on every path without a commit.
  Deleting a row takes the rows that refer to it along, as the foreign keys declare.
\<close>

section \<open>Entities\<close>

record permission =
  pm_id :: ident
  pm_name :: string
  pm_resource :: string
  pm_action :: string
  pm_description :: "string option"

record role =
  rl_id :: ident
  rl_name :: string
  rl_description :: "string option"
  rl_is_system :: bool
  rl_permissions :: "permission list"

record user =
  us_id :: ident
  us_email :: email
  us_password_hash :: string
  us_roles :: "role list"
  us_is_active :: bool
  us_email_verified :: bool
  us_created_at :: moment
  us_last_login :: "moment option"

record refresh_session =
  rs_id :: ident
  rs_user_id :: ident
  rs_token_id :: ident
  rs_chain_id :: ident
  rs_expires_at :: moment
  rs_created_at :: moment
  rs_revoked_at :: "moment option"
  rs_replaced_by :: "ident option"

text \<open>\<^verbatim>\<open>EmailVerification\<close> and \<^verbatim>\<open>PasswordReset\<close> have the same fields.\<close>

record one_time_token =
  ot_id :: ident
  ot_user_id :: ident
  ot_token_hash :: string
  ot_expires_at :: moment
  ot_created_at :: moment
  ot_used_at :: "moment option"

record link_visit =
  lv_id :: ident
  lv_link_id :: ident
  lv_occurred_at :: moment
  lv_visitor_network :: "string option"
  lv_device :: string
  lv_browser :: string
  lv_is_bot :: bool

text \<open>The visits of a link on a day, and the events of the audit journal that are counted.\<close>

record visit_day =
  vd_link_id :: ident
  vd_day :: moment
  vd_total :: int
  vd_bots :: int

record security_event =
  se_id :: ident
  se_event_type :: string
  se_occurred_at :: moment

record security_day =
  sd_day :: moment
  sd_event_type :: string
  sd_total :: int

section \<open>Operations of the entities\<close>

definition ensure_may_be_changed :: "role \<Rightarrow> (exn, unit) result" where
  "ensure_may_be_changed r = (if rl_is_system r then Inl (Domain (RoleIsSystemError (rl_name r))) else Inr ())"

definition role_has_permission :: "role \<Rightarrow> string \<Rightarrow> bool" where
  "role_has_permission r permission_name = list_ex (\<lambda>p. pm_name p = permission_name) (rl_permissions r)"

definition user_has_permission :: "user \<Rightarrow> string \<Rightarrow> bool" where
  "user_has_permission u permission_name = list_ex (\<lambda>r. role_has_permission r permission_name) (us_roles u)"

text \<open>\<^verbatim>\<open>require_roles_are_assignable\<close> of \<^verbatim>\<open>domain/policies/role_policy.py\<close>.\<close>

fun require_roles_are_assignable :: "role list \<Rightarrow> (exn, unit) result" where
  "require_roles_are_assignable [] = Inr ()"
| "require_roles_are_assignable (r # rs) =
     (if rl_name r = GUEST_ROLE_NAME then Inl (Domain (RoleNotAssignableError (rl_name r)))
      else require_roles_are_assignable rs)"

definition user_create ::
  "moment \<Rightarrow> ident \<Rightarrow> email \<Rightarrow> string \<Rightarrow> role list \<Rightarrow> bool \<Rightarrow> (exn, user) result" where
  "user_create now new_id email password_hash roles email_verified =
     rbind (require_roles_are_assignable roles) (\<lambda>_. Inr
       \<lparr>us_id = new_id, us_email = email, us_password_hash = password_hash, us_roles = roles,
        us_is_active = True, us_email_verified = email_verified, us_created_at = now, us_last_login = None\<rparr>)"

definition refresh_session_create ::
  "moment \<Rightarrow> ident \<Rightarrow> ident \<Rightarrow> ident \<Rightarrow> moment \<Rightarrow> ident option \<Rightarrow> refresh_session" where
  "refresh_session_create now new_id user_id token_id expires_at chain_id =
     \<lparr>rs_id = new_id, rs_user_id = user_id, rs_token_id = token_id,
      rs_chain_id = (case chain_id of Some (c # cs) \<Rightarrow> c # cs | _ \<Rightarrow> token_id), rs_expires_at = expires_at,
      rs_created_at = now, rs_revoked_at = None, rs_replaced_by = None\<rparr>"

definition session_is_usable :: "moment \<Rightarrow> refresh_session \<Rightarrow> bool" where
  "session_is_usable now s \<longleftrightarrow> rs_revoked_at s = None \<and> rs_replaced_by s = None \<and> rs_expires_at s > now"

definition hour :: int where
  "hour = 3600 * second"

definition verification_issue :: "moment \<Rightarrow> ident \<Rightarrow> ident \<Rightarrow> string \<Rightarrow> int \<Rightarrow> one_time_token" where
  "verification_issue now new_id user_id token_hash ttl_hours =
     \<lparr>ot_id = new_id, ot_user_id = user_id, ot_token_hash = token_hash,
      ot_expires_at = now + ttl_hours * hour, ot_created_at = now, ot_used_at = None\<rparr>"

definition reset_issue :: "moment \<Rightarrow> ident \<Rightarrow> ident \<Rightarrow> string \<Rightarrow> int \<Rightarrow> one_time_token" where
  "reset_issue now new_id user_id token_hash ttl_minutes =
     \<lparr>ot_id = new_id, ot_user_id = user_id, ot_token_hash = token_hash,
      ot_expires_at = now + ttl_minutes * 60 * second, ot_created_at = now, ot_used_at = None\<rparr>"

definition token_is_usable :: "moment \<Rightarrow> one_time_token \<Rightarrow> bool" where
  "token_is_usable now t \<longleftrightarrow> ot_used_at t = None \<and> ot_expires_at t > now"

definition visit_record :: "moment \<Rightarrow> ident \<Rightarrow> ident \<Rightarrow> string option \<Rightarrow> string option \<Rightarrow> link_visit" where
  "visit_record now new_id link_id remote_addr user_agent =
     (case classify_client user_agent of (device, browser, is_bot) \<Rightarrow>
        \<lparr>lv_id = new_id, lv_link_id = link_id, lv_occurred_at = now,
         lv_visitor_network = anonymise_address remote_addr, lv_device = device, lv_browser = browser,
         lv_is_bot = is_bot\<rparr>)"

section \<open>Tables\<close>

record role_row =
  rr_id :: ident
  rr_name :: string
  rr_description :: "string option"
  rr_is_system :: bool
  rr_permission_ids :: "ident list"

record user_row =
  ur_id :: ident
  ur_email :: string
  ur_password_hash :: string
  ur_is_active :: bool
  ur_email_verified :: bool
  ur_created_at :: moment
  ur_last_login :: "moment option"
  ur_role_ids :: "ident list"

record database =
  db_links :: link_table
  db_users :: "user_row list"
  db_roles :: "role_row list"
  db_permissions :: "permission list"
  db_sessions :: "refresh_session list"
  db_verifications :: "one_time_token list"
  db_resets :: "one_time_token list"
  db_visits :: "link_visit list"
  db_visit_days :: "visit_day list"
  db_security_events :: "security_event list"
  db_security_days :: "security_day list"

definition role_to_domain :: "database \<Rightarrow> role_row \<Rightarrow> role" where
  "role_to_domain db m =
     \<lparr>rl_id = rr_id m, rl_name = rr_name m, rl_description = rr_description m, rl_is_system = rr_is_system m,
      rl_permissions = filter (\<lambda>p. pm_id p \<in> set (rr_permission_ids m)) (db_permissions db)\<rparr>"

definition user_roles :: "database \<Rightarrow> user_row \<Rightarrow> role list" where
  "user_roles db m = map (role_to_domain db) (filter (\<lambda>r. rr_id r \<in> set (ur_role_ids m)) (db_roles db))"

text \<open>Reading an account checks the address and the hash, so a broken row raises.\<close>

definition user_to_domain :: "database \<Rightarrow> user_row \<Rightarrow> (exn, user) result" where
  "user_to_domain db m =
     rbind (email_from_storage (ur_email m)) (\<lambda>email.
     rbind (PasswordHash (ur_password_hash m)) (\<lambda>h. Inr
       \<lparr>us_id = ur_id m, us_email = email, us_password_hash = h, us_roles = user_roles db m,
        us_is_active = ur_is_active m, us_email_verified = ur_email_verified m,
        us_created_at = ur_created_at m, us_last_login = ur_last_login m\<rparr>))"

definition user_to_row :: "user \<Rightarrow> user_row" where
  "user_to_row u =
     \<lparr>ur_id = us_id u, ur_email = us_email u, ur_password_hash = us_password_hash u,
      ur_is_active = us_is_active u, ur_email_verified = us_email_verified u,
      ur_created_at = us_created_at u, ur_last_login = us_last_login u, ur_role_ids = map rl_id (us_roles u)\<rparr>"

text \<open>Deleting links and accounts with what refers to them.\<close>

definition keep_links :: "(link \<Rightarrow> bool) \<Rightarrow> database \<Rightarrow> database" where
  "keep_links keep db =
     (let gone = ids_of (filter (\<lambda>l. \<not> keep l) (db_links db))
      in db\<lparr>db_links := filter keep (db_links db),
            db_visits := filter (\<lambda>v. lv_link_id v \<notin> set gone) (db_visits db),
            db_visit_days := filter (\<lambda>d. vd_link_id d \<notin> set gone) (db_visit_days db)\<rparr>)"

text \<open>What a deletion of the link repository leaves: the links that are gone, and the table.\<close>

definition remove_links :: "link list \<times> link_table \<Rightarrow> database \<Rightarrow> database" where
  "remove_links outcome db =
     db\<lparr>db_links := snd outcome,
        db_visits := filter (\<lambda>v. lv_link_id v \<notin> set (ids_of (fst outcome))) (db_visits db),
        db_visit_days := filter (\<lambda>d. vd_link_id d \<notin> set (ids_of (fst outcome))) (db_visit_days db)\<rparr>"

definition delete_users :: "ident list \<Rightarrow> database \<Rightarrow> database" where
  "delete_users gone db0 =
     (let db = keep_links (\<lambda>l. case lk_owner l of None \<Rightarrow> True | Some i \<Rightarrow> i \<notin> set gone) db0
      in db\<lparr>db_users := filter (\<lambda>u. ur_id u \<notin> set gone) (db_users db),
            db_sessions := filter (\<lambda>s. rs_user_id s \<notin> set gone) (db_sessions db),
            db_verifications := filter (\<lambda>t. ot_user_id t \<notin> set gone) (db_verifications db),
            db_resets := filter (\<lambda>t. ot_user_id t \<notin> set gone) (db_resets db)\<rparr>)"

section \<open>Who is asking\<close>

record request_context =
  cx_remote_addr :: "string option"
  cx_user_agent :: "string option"
  cx_current_user :: "ident option"

definition replace_or_append :: "('a \<Rightarrow> ident) \<Rightarrow> 'a \<Rightarrow> 'a list \<Rightarrow> 'a list" where
  "replace_or_append key x xs =
     (if key x \<in> set (map key xs) then map (\<lambda>y. if key y = key x then x else y) xs else xs @ [x])"

text \<open>What the audit journal is told, one constructor per method of the port that is used.\<close>

datatype audit_event =
    UrlCreated short_code string
  | UrlAccessed short_code string
  | UrlDeleted short_code string
  | ExpiredLinksSwept nat
  | BatchCreated nat nat nat
  | UserCreated ident string "string list"
  | UserActivated ident
  | UserDeactivated ident nat
  | UserDeleted ident nat
  | UserEmailConfirmed ident bool
  | UnverifiedAccountsSwept nat nat
  | RolesChanged ident "string list" "string list"
  | RoleCreated string "string list"
  | RoleDeleted string nat
  | RolePermissionsChanged string "string list" "string list" nat
  | LoginFailed string string "ident option"
  | LoginSucceeded ident string
  | Registered ident string
  | PasswordChanged ident nat
  | PasswordWasReset ident nat
  | EmailConfirmed ident
  | SessionEnded "ident option" "ident option"
  | RefreshTokenReplayed ident ident

section \<open>Lemmas\<close>

lemma set_replace_or_append:
  "set (replace_or_append key x xs) = insert x {y \<in> set xs. key y \<noteq> key x}"
  by (auto simp: replace_or_append_def image_iff)

lemma keys_replace_or_append:
  "map key (replace_or_append key x xs) = (if key x \<in> set (map key xs) then map key xs else map key xs @ [key x])"
  by (auto simp: replace_or_append_def)

lemma keep_links_simps [simp]:
  "db_links (keep_links keep db) = filter keep (db_links db)" "db_users (keep_links keep db) = db_users db"
  "db_roles (keep_links keep db) = db_roles db" "db_permissions (keep_links keep db) = db_permissions db"
  "db_sessions (keep_links keep db) = db_sessions db"
  "db_verifications (keep_links keep db) = db_verifications db" "db_resets (keep_links keep db) = db_resets db"
  by (simp_all add: keep_links_def Let_def)

lemma remove_links_simps [simp]:
  "db_links (remove_links r db) = snd r" "db_users (remove_links r db) = db_users db"
  "db_roles (remove_links r db) = db_roles db" "db_permissions (remove_links r db) = db_permissions db"
  "db_sessions (remove_links r db) = db_sessions db"
  "db_verifications (remove_links r db) = db_verifications db" "db_resets (remove_links r db) = db_resets db"
  by (simp_all add: remove_links_def)

lemma delete_users_simps [simp]:
  "db_links (delete_users gone db) =
     filter (\<lambda>l. case lk_owner l of None \<Rightarrow> True | Some i \<Rightarrow> i \<notin> set gone) (db_links db)"
  "db_users (delete_users gone db) = filter (\<lambda>u. ur_id u \<notin> set gone) (db_users db)"
  "db_roles (delete_users gone db) = db_roles db" "db_permissions (delete_users gone db) = db_permissions db"
  "db_sessions (delete_users gone db) = filter (\<lambda>s. rs_user_id s \<notin> set gone) (db_sessions db)"
  "db_verifications (delete_users gone db) = filter (\<lambda>t. ot_user_id t \<notin> set gone) (db_verifications db)"
  "db_resets (delete_users gone db) = filter (\<lambda>t. ot_user_id t \<notin> set gone) (db_resets db)"
  by (simp_all add: delete_users_def Let_def)

lemma require_roles_are_assignable_Inr [simp]:
  "require_roles_are_assignable rs = Inr u \<longleftrightarrow> (\<forall>r \<in> set rs. rl_name r \<noteq> GUEST_ROLE_NAME)"
  by (induction rs) auto

end
