(* ===== verification/Day_Fold.thy ===== *)
theory Day_Fold
  imports Database
begin

text \<open>
  Days, and tables of events that are folded into one row per key and day
  (\<^verbatim>\<open>infrastructure/database/repositories/sql_time.py\<close> and what the repositories of visits and
  of security events have in common). Events are recorded raw; each night the days that are
  over are folded, and raw rows beyond a retention are swept. The locale \<open>day_fold\<close> states what
  the two repositories promise, and inside it is shown, once for both, that folding and
  sweeping lose nothing: the folded rows and the raw ones together tell the whole history.
\<close>

section \<open>Days\<close>

definition DAY :: int where
  "DAY = 86400"

text \<open>A moment is a number of microseconds since 1970; both engines truncate.\<close>

definition epoch_seconds :: "moment \<Rightarrow> int" where
  "epoch_seconds m = m div second"

definition days :: "int \<Rightarrow> int" where
  "days n = n * (DAY * second)"

definition midnight_of :: "moment \<Rightarrow> moment" where
  "midnight_of m = m - m mod (DAY * second)"

lemma day_pos [simp]: "DAY * second > 0"
  by (simp add: DAY_def second_def)

lemma midnight_alt: "midnight_of m = days (m div (DAY * second))"
  by (simp add: midnight_of_def days_def minus_mod_eq_mult_div mult.commute)

lemma midnight_days [simp]: "midnight_of (days n) = days n"
  by (simp add: midnight_of_def days_def)

lemma midnight_idem [simp]: "midnight_of (midnight_of m) = midnight_of m"
  by (simp add: midnight_alt days_def)

lemma midnight_bounds: "midnight_of m \<le> m" "m < midnight_of m + days 1"
  by (simp_all add: midnight_of_def days_def)

lemma days_add: "days (a + b) = days a + days b" and days_mono [simp]: "days a \<le> days b \<longleftrightarrow> a \<le> b" and
  days_less [simp]: "days a < days b \<longleftrightarrow> a < b" and days_eq [simp]: "days a = days b \<longleftrightarrow> a = b"
  by (simp_all add: days_def algebra_simps DAY_def second_def)

lemma midnight_mono: "a \<le> b \<Longrightarrow> midnight_of a \<le> midnight_of b"
  by (simp add: midnight_alt zdiv_mono1)

text \<open>Two midnights are the same or a day apart.\<close>

lemma midnights_apart:
  assumes "midnight_of a = a" "midnight_of b = b" "a < b" shows "a + days 1 \<le> b"
proof -
  have "a = days (a div (DAY * second))" "b = days (b div (DAY * second))" using assms(1,2) midnight_alt by metis+
  with assms(3) show ?thesis by (metis days_add days_less days_mono zless_imp_add1_zle)
qed

lemma before_midnight_iff:
  assumes "midnight_of b = b" shows "midnight_of m < b \<longleftrightarrow> m < b"
  using assms midnight_bounds(1) [of m] midnight_mono [of b m] by linarith

lemma day_index: "epoch_seconds m div DAY * DAY * second = midnight_of m"
  by (simp add: epoch_seconds_def midnight_alt days_def zdiv_zmult2_eq second_def DAY_def)

section \<open>Grouping\<close>

text \<open>The groups of a query, in the order in which they first occur.\<close>

definition group_by :: "('e \<Rightarrow> 'k) \<Rightarrow> 'e list \<Rightarrow> ('k \<times> 'e list) list" where
  "group_by key es = map (\<lambda>k. (k, filter (\<lambda>e. key e = k) es)) (remdups (map key es))"

lemma group_by_keys: "map fst (group_by key es) = remdups (map key es)"
  by (simp add: group_by_def comp_def)

lemma set_group_by: "(k, g) \<in> set (group_by key es) \<longleftrightarrow> k \<in> key ` set es \<and> g = filter (\<lambda>e. key e = k) es"
  by (auto simp: group_by_def)

lemma map_of_group_by: "map_of (group_by key es) k = (if k \<in> key ` set es then Some (filter (\<lambda>e. key e = k) es) else None)"
  by (simp add: group_by_def map_of_map_restrict restrict_map_def)

lemma sum_by_key:
  fixes w :: "'e \<Rightarrow> 'n :: comm_monoid_add"
  assumes "finite K" and "key ` set es \<subseteq> K"
  shows "sum_list (map w es) = (\<Sum>k \<in> K. sum_list (map w (filter (\<lambda>e. key e = k) es)))"
  using assms(2)
proof (induction es)
  case (Cons e es)
  have "(\<Sum>k \<in> K. sum_list (map w (filter (\<lambda>e. key e = k) (e # es))))
      = (\<Sum>k \<in> K. (if k = key e then w e else 0) + sum_list (map w (filter (\<lambda>e. key e = k) es)))"
    by (intro sum.cong) auto
  also have "\<dots> = w e + (\<Sum>k \<in> K. sum_list (map w (filter (\<lambda>e. key e = k) es)))"
    using Cons.prems assms(1) by (simp add: sum.distrib sum.delta')
  finally show ?case using Cons by simp
qed simp

lemma group_by_sum:
  fixes w :: "'e \<Rightarrow> 'n :: comm_monoid_add"
  shows "sum_list (map (\<lambda>(k, g). sum_list (map w g)) (filter (\<lambda>(k, g). P k) (group_by key es)))
    = sum_list (map w (filter (\<lambda>e. P (key e)) es))"
proof -
  let ?ks = "filter P (remdups (map key es))"
  have "sum_list (map (\<lambda>(k, g). sum_list (map w g)) (filter (\<lambda>(k, g). P k) (group_by key es)))
      = sum_list (map (\<lambda>k. sum_list (map w (filter (\<lambda>e. key e = k) es))) ?ks)"
    by (simp add: group_by_def filter_map comp_def)
  also have "\<dots> = (\<Sum>k \<in> set ?ks. sum_list (map w (filter (\<lambda>e. key e = k) es)))"
    by (rule sum_list_distinct_conv_sum_set) simp
  also have "\<dots> = (\<Sum>k \<in> set ?ks. sum_list (map w (filter (\<lambda>e. key e = k) (filter (\<lambda>e. P (key e)) es))))"
    by (intro sum.cong refl arg_cong [where f = sum_list] arg_cong [where f = "map w"]) (auto intro: filter_cong)
  also have "\<dots> = sum_list (map w (filter (\<lambda>e. P (key e)) es))"
    by (rule sum_by_key [symmetric]) auto
  finally show ?thesis .
qed

lemma remdups_map_inj: "inj h \<Longrightarrow> remdups (map h xs) = map h (remdups xs)"
  by (induction xs) (auto simp: inj_image_mem_iff)

lemma group_by_inj:
  assumes "inj h" shows "group_by (\<lambda>e. h (key e)) es = map (\<lambda>(k, g). (h k, g)) (group_by key es)"
proof -
  have "remdups (map (\<lambda>e. h (key e)) es) = map h (remdups (map key es))"
    using remdups_map_inj [OF assms, of "map key es"] by (simp add: comp_def)
  then show ?thesis using assms by (simp add: group_by_def inj_eq)
qed

lemma day_slot:
  assumes "midnight_of start = start"
  shows "(epoch_seconds m - epoch_seconds start) div DAY = i \<longleftrightarrow> midnight_of m = start + days i"
proof -
  obtain a where a: "start = days a" using assms midnight_alt by metis
  have "epoch_seconds start = a * DAY" by (simp add: epoch_seconds_def a days_def second_def)
  then have "(epoch_seconds m - epoch_seconds start) div DAY = m div (DAY * second) - a"
    by (simp add: epoch_seconds_def second_def DAY_def zdiv_zmult2_eq)
  moreover have "midnight_of m = start + days i \<longleftrightarrow> m div (DAY * second) = a + i"
    unfolding midnight_alt a days_add [symmetric] by simp
  ultimately show ?thesis by auto
qed

section \<open>Folded tables\<close>

text \<open>
  \<open>rows\<close> are the raw events, \<open>folded\<close> the rows of days, each with its key, its midnight and
  what \<open>measure\<close> makes of the events it stands for. A fold takes the raw events before a moment
  and after the last folded day; it fails when it would write a row that exists.
\<close>

definition of_day :: "('e \<Rightarrow> 'k) \<Rightarrow> ('e \<Rightarrow> moment) \<Rightarrow> 'k \<times> moment \<Rightarrow> 'e list \<Rightarrow> 'e list" where
  "of_day ekey etime kd es = filter (\<lambda>e. ekey e = fst kd \<and> midnight_of (etime e) = snd kd) es"

locale day_fold =
  fixes rows :: "'s \<Rightarrow> 'e list" and folded :: "'s \<Rightarrow> (('k \<times> moment) \<times> 'n) list"
    and ekey :: "'e \<Rightarrow> 'k" and etime :: "'e \<Rightarrow> moment" and measure :: "'e list \<Rightarrow> 'n"
    and fold_before :: "moment \<Rightarrow> 's \<Rightarrow> ('x, int) result \<times> 's" and sweep :: "moment \<Rightarrow> 's \<Rightarrow> int \<times> 's"
  assumes fold_writes:
    "pending = filter (\<lambda>e. etime e < b \<and> (\<forall>r \<in> set (folded s). snd (fst r) + days 1 \<le> etime e)) (rows s) \<Longrightarrow>
     fresh = map (\<lambda>kd. (kd, measure (of_day ekey etime kd pending))) (remdups (map (\<lambda>e. (ekey e, midnight_of (etime e))) pending)) \<Longrightarrow>
     distinct (map fst (folded s @ fresh)) \<Longrightarrow>
     fst (fold_before b s) = Inr (int (length fresh)) \<and> rows (snd (fold_before b s)) = rows s
     \<and> folded (snd (fold_before b s)) = folded s @ fresh"
    and sweep_deletes: "rows (snd (sweep c s)) = filter (\<lambda>e. c \<le> etime e) (rows s)" "folded (snd (sweep c s)) = folded s"
begin

text \<open>The tables tell the history \<open>hist\<close>, folded up to the midnight \<open>b\<close>.\<close>

definition tells :: "'e list \<Rightarrow> moment \<Rightarrow> moment \<Rightarrow> 's \<Rightarrow> bool" where
  "tells hist b c s \<longleftrightarrow>
     midnight_of b = b \<and> c \<le> b \<and> rows s = filter (\<lambda>e. c \<le> etime e) hist \<and> distinct (map fst (folded s)) \<and>
     (\<forall>kd n. (kd, n) \<in> set (folded s) \<longleftrightarrow>
        snd kd < b \<and> of_day ekey etime kd hist \<noteq> [] \<and> n = measure (of_day ekey etime kd hist))"

lemma tells_midnights: "tells hist b c s \<Longrightarrow> r \<in> set (folded s) \<Longrightarrow> midnight_of (snd (fst r)) = snd (fst r)"
proof -
  assume "tells hist b c s" "r \<in> set (folded s)"
  then have "of_day ekey etime (fst r) hist \<noteq> []" unfolding tells_def by (metis prod.collapse)
  then obtain e where "e \<in> set (of_day ekey etime (fst r) hist)" by (meson last_in_set)
  then have "snd (fst r) = midnight_of (etime e)" by (simp add: of_day_def)
  then show ?thesis by simp
qed

lemma pending_is_the_rest:
  assumes t: "tells hist b0 c s"
  shows "filter (\<lambda>e. etime e < b \<and> (\<forall>r \<in> set (folded s). snd (fst r) + days 1 \<le> etime e)) (rows s)
    = filter (\<lambda>e. b0 \<le> etime e \<and> etime e < b) hist"
proof -
  have b0: "midnight_of b0 = b0" "c \<le> b0" and rows: "rows s = filter (\<lambda>e. c \<le> etime e) hist" using t by (auto simp: tells_def)
  have "(\<forall>r \<in> set (folded s). snd (fst r) + days 1 \<le> etime e) \<longleftrightarrow> b0 \<le> etime e" if e: "e \<in> set hist" for e
  proof
    assume done': "\<forall>r \<in> set (folded s). snd (fst r) + days 1 \<le> etime e"
    show "b0 \<le> etime e"
    proof (rule ccontr)
      let ?kd = "(ekey e, midnight_of (etime e))"
      assume "\<not> b0 \<le> etime e"
      then have "snd ?kd < b0" using midnight_bounds(1) [of "etime e"] by simp
      moreover have "of_day ekey etime ?kd hist \<noteq> []" using e by (auto simp: of_day_def filter_empty_conv)
      ultimately have "(?kd, measure (of_day ekey etime ?kd hist)) \<in> set (folded s)" using t by (simp add: tells_def)
      with done' have "midnight_of (etime e) + days 1 \<le> etime e" by fastforce
      with midnight_bounds(2) [of "etime e"] show False by simp
    qed
  next
    assume "b0 \<le> etime e"
    moreover have "snd (fst r) + days 1 \<le> b0" if r: "r \<in> set (folded s)" for r
    proof (rule midnights_apart [OF tells_midnights [OF t r] b0(1)])
      show "snd (fst r) < b0" using t r unfolding tells_def by (metis prod.collapse)
    qed
    ultimately show "\<forall>r \<in> set (folded s). snd (fst r) + days 1 \<le> etime e" by fastforce
  qed
  then show ?thesis using b0(2) unfolding rows filter_filter by (intro filter_cong) auto
qed

lemma of_day_later:
  assumes "midnight_of b0 = b0" "midnight_of b = b"
  shows "of_day ekey etime kd (filter (\<lambda>e. b0 \<le> etime e \<and> etime e < b) hist) =
    (if b0 \<le> snd kd \<and> snd kd < b then of_day ekey etime kd hist else [])"
proof -
  have "b0 \<le> etime e \<and> etime e < b \<longleftrightarrow> b0 \<le> midnight_of (etime e) \<and> midnight_of (etime e) < b" for e
    using before_midnight_iff [OF assms(1), of "etime e"] before_midnight_iff [OF assms(2), of "etime e"] by linarith
  then show ?thesis by (auto simp: of_day_def filter_empty_conv intro: filter_cong)
qed

text \<open>Folding up to a later midnight: it never runs into a row that exists.\<close>

lemma fold_tells:
  assumes t: "tells hist b0 c s" and b: "midnight_of b = b" "b0 \<le> b"
  shows "\<exists>n. fst (fold_before b s) = Inr n" and "tells hist b c (snd (fold_before b s))"
proof -
  let ?pending = "filter (\<lambda>e. b0 \<le> etime e \<and> etime e < b) hist"
  let ?day = "\<lambda>e. (ekey e, midnight_of (etime e))"
  define fresh where "fresh = map (\<lambda>kd. (kd, measure (of_day ekey etime kd ?pending))) (remdups (map ?day ?pending))"
  have b0: "midnight_of b0 = b0" using t by (simp add: tells_def)
  have new: "(kd, n) \<in> set fresh \<longleftrightarrow> b0 \<le> snd kd \<and> snd kd < b \<and> of_day ekey etime kd hist \<noteq> [] \<and> n = measure (of_day ekey etime kd hist)" for kd n
  proof -
    have "kd \<in> ?day ` set ?pending \<longleftrightarrow> of_day ekey etime kd ?pending \<noteq> []"
      by (cases kd) (auto simp: of_day_def filter_empty_conv image_iff)
    then have "(kd, n) \<in> set fresh \<longleftrightarrow> of_day ekey etime kd ?pending \<noteq> [] \<and> n = measure (of_day ekey etime kd ?pending)"
      unfolding fresh_def by auto
    then show ?thesis unfolding of_day_later [OF b0 b(1)] by auto
  qed
  have old: "(kd, n) \<in> set (folded s) \<longleftrightarrow> snd kd < b0 \<and> of_day ekey etime kd hist \<noteq> [] \<and> n = measure (of_day ekey etime kd hist)" for kd n
    using t unfolding tells_def by blast
  have "distinct (map fst fresh)" by (simp add: fresh_def comp_def)
  moreover have "fst ` set (folded s) \<inter> fst ` set fresh = {}"
  proof (intro equals0I, elim IntE imageE)
    fix kd r r' assume "kd = fst r" "r \<in> set (folded s)" "kd = fst r'" "r' \<in> set fresh"
    then have "(kd, snd r) \<in> set (folded s)" "(kd, snd r') \<in> set fresh" by (metis prod.collapse)+
    then show False using old [of kd "snd r"] new [of kd "snd r'"] by simp
  qed
  ultimately have d: "distinct (map fst (folded s @ fresh))" using t by (simp add: tells_def)
  note step = fold_writes [OF pending_is_the_rest [OF t, symmetric] fresh_def d]
  show "\<exists>n. fst (fold_before b s) = Inr n" using step by simp
  have all: "(kd, n) \<in> set (folded s @ fresh) \<longleftrightarrow> snd kd < b \<and> of_day ekey etime kd hist \<noteq> [] \<and> n = measure (of_day ekey etime kd hist)" for kd n
    using old [of kd n] new [of kd n] b(2) by auto
  have "c \<le> b" "rows s = filter (\<lambda>e. c \<le> etime e) hist" using t b(2) by (auto simp: tells_def)
  with step d b(1) all show "tells hist b c (snd (fold_before b s))" unfolding tells_def by metis
qed

lemma record_tells:
  assumes t: "tells hist b c s" and "b \<le> etime e" and s': "rows s' = rows s @ [e]" "folded s' = folded s"
  shows "tells (hist @ [e]) b c s'"
proof -
  have "b \<le> midnight_of (etime e)" using t assms(2) midnight_mono [of b "etime e"] by (simp add: tells_def)
  then have "of_day ekey etime kd (hist @ [e]) = of_day ekey etime kd hist" if "snd kd < b" for kd
    using that by (auto simp: of_day_def)
  then show ?thesis using t assms(2) s' by (auto simp: tells_def)
qed

lemma sweep_tells: "tells hist b c s \<Longrightarrow> c' \<le> b \<Longrightarrow> tells hist b (max c c') (snd (sweep c' s))"
  by (simp add: tells_def sweep_deletes conj_commute)

lemma forget_tells:
  assumes t: "tells hist b c s" and s': "rows s' = filter (\<lambda>e. keep (ekey e)) (rows s)" "folded s' = filter (\<lambda>r. keep (fst (fst r))) (folded s)"
  shows "tells (filter (\<lambda>e. keep (ekey e)) hist) b c s'"
proof -
  have "of_day ekey etime kd (filter (\<lambda>e. keep (ekey e)) hist) = (if keep (fst kd) then of_day ekey etime kd hist else [])" for kd
    by (auto simp: of_day_def filter_empty_conv intro: filter_cong)
  then show ?thesis using t s' by (auto simp: tells_def conj_commute distinct_map_filter)
qed

text \<open>
  Reading: on a folded day the rows of the day add up to the events of the history, and
  there are such rows exactly when there are such events; on a later day there are no
  folded rows and the raw rows are the history.
\<close>

lemma folded_day_sum:
  fixes f :: "'n \<Rightarrow> int"
  assumes t: "tells hist b c s" and d: "d < b" and f: "\<And>es. f (measure es) = sum_list (map w es)"
  shows "sum_list (map (\<lambda>r. f (snd r)) (filter (\<lambda>r. P (fst (fst r)) \<and> snd (fst r) = d) (folded s)))
    = sum_list (map w (filter (\<lambda>e. P (ekey e) \<and> midnight_of (etime e) = d) hist))"
proof -
  let ?rs = "filter (\<lambda>r. P (fst (fst r)) \<and> snd (fst r) = d) (folded s)"
  let ?es = "filter (\<lambda>e. P (ekey e) \<and> midnight_of (etime e) = d) hist"
  have day: "P k \<Longrightarrow> filter (\<lambda>e. ekey e = k) ?es = of_day ekey etime (k, d) hist" for k
    by (auto simp: of_day_def intro: filter_cong)
  have "distinct (map fst ?rs)" using t by (simp add: tells_def distinct_map_filter)
  then have inj: "inj_on fst (set ?rs)" and dist: "distinct ?rs" by (simp_all add: distinct_map)
  have inj2: "inj_on (\<lambda>r. fst (fst r)) (set ?rs)"
    using inj by (auto simp: inj_on_def)
  have keys: "(\<lambda>r. fst (fst r)) ` set ?rs = ekey ` set ?es"
  proof (intro equalityI subsetI)
    fix k assume "k \<in> (\<lambda>r. fst (fst r)) ` set ?rs"
    then obtain n where "((k, d), n) \<in> set (folded s)" and P: "P k" by auto
    then have "of_day ekey etime (k, d) hist \<noteq> []" using t by (simp add: tells_def)
    then show "k \<in> ekey ` set ?es" using P by (auto simp: of_day_def filter_empty_conv)
  next
    fix k assume "k \<in> ekey ` set ?es"
    then have "P k" "of_day ekey etime (k, d) hist \<noteq> []" by (auto simp: of_day_def filter_empty_conv)
    then have "((k, d), measure (of_day ekey etime (k, d) hist)) \<in> set (folded s)" using t d by (simp add: tells_def)
    with \<open>P k\<close> show "k \<in> (\<lambda>r. fst (fst r)) ` set ?rs" by (intro image_eqI [where x = "((k, d), measure (of_day ekey etime (k, d) hist))"]) auto
  qed
  have "sum_list (map (\<lambda>r. f (snd r)) ?rs) = (\<Sum>r \<in> set ?rs. f (snd r))"
    by (rule sum_list_distinct_conv_sum_set [OF dist])
  also have "\<dots> = (\<Sum>r \<in> set ?rs. sum_list (map w (filter (\<lambda>e. ekey e = fst (fst r)) ?es)))"
  proof (rule sum.cong [OF refl])
    fix r assume "r \<in> set ?rs"
    then have "P (fst (fst r))" "snd (fst r) = d" "r \<in> set (folded s)" by auto
    moreover from this have "snd r = measure (of_day ekey etime (fst (fst r), d) hist)" using t unfolding tells_def by (metis prod.collapse)
    ultimately show "f (snd r) = sum_list (map w (filter (\<lambda>e. ekey e = fst (fst r)) ?es))" by (simp only: f day)
  qed
  also have "\<dots> = (\<Sum>k \<in> ekey ` set ?es. sum_list (map w (filter (\<lambda>e. ekey e = k) ?es)))"
    unfolding keys [symmetric] by (simp only: sum.reindex [OF inj2] comp_def)
  also have "\<dots> = sum_list (map w ?es)" by (rule sum_by_key [symmetric]) simp_all
  finally show ?thesis .
qed

lemma folded_day_exists:
  assumes "tells hist b c s" and "r \<in> set (folded s)"
  shows "snd (fst r) < b" "\<exists>e \<in> set hist. ekey e = fst (fst r) \<and> midnight_of (etime e) = snd (fst r)"
proof -
  from assms have "snd (fst r) < b \<and> of_day ekey etime (fst r) hist \<noteq> []" unfolding tells_def by (metis prod.collapse)
  then show "snd (fst r) < b" "\<exists>e \<in> set hist. ekey e = fst (fst r) \<and> midnight_of (etime e) = snd (fst r)"
    by (auto simp: of_day_def filter_empty_conv)
qed

lemma raw_rows: "tells hist b c s \<Longrightarrow> rows s = filter (\<lambda>e. c \<le> etime e) hist"
  by (simp add: tells_def)

text \<open>One day read the way both readers do: the folded rows when there are any, else the raw ones.\<close>

lemma day_reads_history:
  fixes f :: "'n \<Rightarrow> int"
  assumes t: "tells hist b c s" and d: "midnight_of d = d" and f: "\<And>es. f (measure es) = sum_list (map w es)"
  shows "(if filter (\<lambda>r. P (fst (fst r)) \<and> snd (fst r) = d) (folded s) \<noteq> []
      then sum_list (map (\<lambda>r. f (snd r)) (filter (\<lambda>r. P (fst (fst r)) \<and> snd (fst r) = d) (folded s)))
      else sum_list (map w (filter (\<lambda>e. P (ekey e) \<and> midnight_of (etime e) = d) (rows s))))
    = sum_list (map w (filter (\<lambda>e. P (ekey e) \<and> midnight_of (etime e) = d) hist))"
proof (cases "d < b")
  case True
  show ?thesis
  proof (cases "filter (\<lambda>r. P (fst (fst r)) \<and> snd (fst r) = d) (folded s) = []")
    case empty: True
    then have "sum_list (map w (filter (\<lambda>e. P (ekey e) \<and> midnight_of (etime e) = d) hist)) = 0"
      using folded_day_sum [OF t True f, of P] by simp
    have "filter (\<lambda>e. P (ekey e) \<and> midnight_of (etime e) = d) hist = []"
    proof (rule ccontr)
      assume "filter (\<lambda>e. P (ekey e) \<and> midnight_of (etime e) = d) hist \<noteq> []"
      then obtain e where e: "e \<in> set hist" "P (ekey e)" "midnight_of (etime e) = d" by (auto simp: filter_empty_conv)
      then have "of_day ekey etime (ekey e, d) hist \<noteq> []" by (auto simp: of_day_def filter_empty_conv)
      then have "((ekey e, d), measure (of_day ekey etime (ekey e, d) hist)) \<in> set (folded s)" using t True by (simp add: tells_def)
      with e(2) empty show False by (auto simp: filter_empty_conv)
    qed
    moreover from this have "filter (\<lambda>e. P (ekey e) \<and> midnight_of (etime e) = d) (rows s) = []"
      unfolding raw_rows [OF t] by (auto simp: filter_empty_conv)
    ultimately show ?thesis using empty by simp
  qed (simp add: folded_day_sum [OF t True f])
next
  case False
  then have "filter (\<lambda>r. P (fst (fst r)) \<and> snd (fst r) = d) (folded s) = []"
    using folded_day_exists(1) [OF t] by (fastforce simp: filter_empty_conv)
  moreover have "filter (\<lambda>e. P (ekey e) \<and> midnight_of (etime e) = d) (rows s) = filter (\<lambda>e. P (ekey e) \<and> midnight_of (etime e) = d) hist"
  proof -
    have "c \<le> etime e" if "midnight_of (etime e) = d" for e
      using that False t midnight_bounds(1) [of "etime e"] by (simp add: tells_def)
    then show ?thesis unfolding raw_rows [OF t] filter_filter by (intro filter_cong) auto
  qed
  ultimately show ?thesis by simp
qed

end

end
