(* ===== verification/Accounts.thy ===== *)
theory Accounts
  imports Database
begin

text \<open>
  Accounts, roles and permissions: the repositories \<^verbatim>\<open>SQLAlchemyUserRepository\<close>,
  \<^verbatim>\<open>SQLAlchemyRoleRepository\<close> and \<^verbatim>\<open>SQLAlchemyPermissionRepository\<close>, the privilege policy of
  the domain, and the two authorities that decide: \<^verbatim>\<open>RBACAuthorizationService\<close> and the guard
  of the administrative use cases. The lemmas relate every question a policy asks of an
  account to one predicate on rows, \<open>grants\<close>, and give what each write does to it.
\<close>

section \<open>Permissions of the system\<close>

definition ADMIN_ALL :: string where
  "ADMIN_ALL = ''admin:all''"

definition LINK_CREATE :: string where
  "LINK_CREATE = ''link:create''"

definition LINK_DELETE_OWN :: string where
  "LINK_DELETE_OWN = ''link:delete_own''"

definition LINK_DELETE_ANY :: string where
  "LINK_DELETE_ANY = ''link:delete_any''"

definition STATS_VIEW_BASIC :: string where
  "STATS_VIEW_BASIC = ''stats:view_basic''"

definition AUDIT_VIEW :: string where
  "AUDIT_VIEW = ''audit:view''"

section \<open>The repositories\<close>

definition find_user :: "(user_row \<Rightarrow> bool) \<Rightarrow> database \<Rightarrow> (exn, user option) result" where
  "find_user wanted db =
     (case List.find wanted (db_users db) of
        None \<Rightarrow> Inr None
      | Some m \<Rightarrow> rbind (user_to_domain db m) (\<lambda>u. Inr (Some u)))"

definition find_user_by_id :: "ident \<Rightarrow> database \<Rightarrow> (exn, user option) result" where
  "find_user_by_id user_id db = find_user (\<lambda>m. ur_id m = user_id) db"

definition find_user_by_email :: "email \<Rightarrow> database \<Rightarrow> (exn, user option) result" where
  "find_user_by_email email db = find_user (\<lambda>m. ur_email m = email) db"

text \<open>
  \<open>save\<close> writes the row and the account's roles. A role that is gone is reported first,
  then a clash with another account's address; the key of the association table forbids
  naming one role twice.
\<close>

definition save_user :: "user \<Rightarrow> database \<Rightarrow> (exn, database) result" where
  "save_user u db =
     (case List.find (\<lambda>r. rl_id r \<notin> set (map rr_id (db_roles db))) (us_roles u) of
        Some r \<Rightarrow> Inl (Domain (RoleNotFoundError (rl_name r)))
      | None \<Rightarrow>
          if list_ex (\<lambda>m. ur_id m \<noteq> us_id u \<and> ur_email m = us_email u) (db_users db)
          then Inl (Domain EmailAlreadyRegisteredError)
          else if \<not> distinct (map rl_id (us_roles u)) then Inl (IntegrityError ''user_roles_pkey'')
          else Inr (db\<lparr>db_users := replace_or_append ur_id (user_to_row u) (db_users db)\<rparr>))"

definition record_login :: "ident \<Rightarrow> moment \<Rightarrow> database \<Rightarrow> bool \<times> database" where
  "record_login user_id when db =
     (user_id \<in> set (map ur_id (db_users db)),
      db\<lparr>db_users := map (\<lambda>m. if ur_id m = user_id then m\<lparr>ur_last_login := Some when\<rparr> else m) (db_users db)\<rparr>)"

text \<open>
  The administrator lock orders the transactions that take it; here they follow one
  another anyway. Accounts are counted once, over the roles that are not excluded.
\<close>

definition carries :: "database \<Rightarrow> (role_row \<Rightarrow> bool) \<Rightarrow> user_row \<Rightarrow> string \<Rightarrow> bool" where
  "carries db counted m permission_name =
     list_ex (\<lambda>r. counted r \<and> rr_id r \<in> set (ur_role_ids m) \<and>
        list_ex (\<lambda>p. pm_id p \<in> set (rr_permission_ids r) \<and> pm_name p = permission_name) (db_permissions db))
       (db_roles db)"

definition count_active_with_permission ::
  "string \<Rightarrow> ident option \<Rightarrow> ident option \<Rightarrow> database \<Rightarrow> nat" where
  "count_active_with_permission permission_name excluding_user_id excluding_role_id db =
     length (remdups (map ur_id (filter
       (\<lambda>m. carries db (\<lambda>r. excluding_role_id \<noteq> Some (rr_id r)) m permission_name \<and> ur_is_active m
            \<and> excluding_user_id \<noteq> Some (ur_id m)) (db_users db))))"

definition ids_with_role :: "ident \<Rightarrow> database \<Rightarrow> ident list" where
  "ids_with_role role_id db =
     (if role_id \<in> set (map rr_id (db_roles db))
      then remdups (map ur_id (filter (\<lambda>m. role_id \<in> set (ur_role_ids m)) (db_users db))) else [])"

definition count_with_role :: "ident \<Rightarrow> database \<Rightarrow> nat" where
  "count_with_role role_id db = length (ids_with_role role_id db)"

definition delete_user_row :: "ident \<Rightarrow> database \<Rightarrow> bool \<times> database" where
  "delete_user_row user_id db =
     (if user_id \<in> set (map ur_id (db_users db)) then (True, delete_users [user_id] db) else (False, db))"

definition delete_unverified_before :: "moment \<Rightarrow> database \<Rightarrow> nat \<times> database" where
  "delete_unverified_before cutoff db =
     (let doomed = filter (\<lambda>m. \<not> ur_email_verified m \<and> ur_created_at m < cutoff) (db_users db)
      in (length doomed, delete_users (map ur_id doomed) db))"

definition get_role_by_name :: "string \<Rightarrow> database \<Rightarrow> role option" where
  "get_role_by_name name db =
     map_option (role_to_domain db) (List.find (\<lambda>m. rr_name m = name) (db_roles db))"

text \<open>\<open>save\<close> for a role looks the permissions up again by name.\<close>

definition role_to_row :: "database \<Rightarrow> role \<Rightarrow> role_row" where
  "role_to_row db r =
     \<lparr>rr_id = rl_id r, rr_name = rl_name r, rr_description = rl_description r, rr_is_system = rl_is_system r,
      rr_permission_ids =
        map pm_id (filter (\<lambda>p. pm_name p \<in> set (map pm_name (rl_permissions r))) (db_permissions db))\<rparr>"

definition save_role :: "role \<Rightarrow> database \<Rightarrow> (exn, role \<times> database) result" where
  "save_role r db =
     (if list_ex (\<lambda>m. rr_id m \<noteq> rl_id r \<and> rr_name m = rl_name r) (db_roles db)
      then Inl (Domain (RoleAlreadyExistsError (rl_name r)))
      else let row = role_to_row db r; db1 = db\<lparr>db_roles := replace_or_append rr_id row (db_roles db)\<rparr>
           in Inr (role_to_domain db1 row, db1))"

definition delete_role_row :: "ident \<Rightarrow> database \<Rightarrow> database" where
  "delete_role_row role_id db =
     db\<lparr>db_roles := filter (\<lambda>m. rr_id m \<noteq> role_id) (db_roles db),
        db_users := map (\<lambda>m. m\<lparr>ur_role_ids := filter (\<lambda>i. i \<noteq> role_id) (ur_role_ids m)\<rparr>) (db_users db)\<rparr>"

definition list_all_roles :: "database \<Rightarrow> role list" where
  "list_all_roles db = map (role_to_domain db) (db_roles db)"

definition get_permissions_by_names :: "string list \<Rightarrow> database \<Rightarrow> permission list" where
  "get_permissions_by_names names db = filter (\<lambda>p. pm_name p \<in> set names) (db_permissions db)"

section \<open>The privilege policy\<close>

definition permissions_held_by :: "user option \<Rightarrow> string list" where
  "permissions_held_by u =
     (case u of None \<Rightarrow> [] | Some v \<Rightarrow> remdups (concat (map (\<lambda>r. map pm_name (rl_permissions r)) (us_roles v))))"

definition is_superuser :: "user option \<Rightarrow> bool" where
  "is_superuser u = (case u of None \<Rightarrow> False | Some v \<Rightarrow> user_has_permission v ADMIN_ALL)"

definition require_may_confer :: "user option \<Rightarrow> string list \<Rightarrow> (exn, unit) result" where
  "require_may_confer actor permissions =
     (if is_superuser actor then Inr ()
      else let exceeded = sort (remdups (filter (\<lambda>p. p \<notin> set (permissions_held_by actor)) permissions))
      in if exceeded \<noteq> []
         then Inl (Domain (PermissionDeniedError
           (''You cannot grant permissions you do not hold yourself: '' @ join_with '', '' exceeded) [] exceeded
           (Some ''You cannot grant permissions you do not hold yourself: %(permissions)s'')
           [(''permissions'', PStr (join_with '', '' exceeded))]))
         else Inr ())"

definition PRIVILEGED_RESOURCES :: "string list" where
  "PRIVILEGED_RESOURCES = [''admin'', ''audit'', ''logs'']"

definition REACHES_ANOTHERS_SUFFIX :: string where
  "REACHES_ANOTHERS_SUFFIX = ''_any''"

definition is_privileged :: "string \<Rightarrow> bool" where
  "is_privileged permission =
     (case partition_on (CHR '':'') permission of (resource, _, action) \<Rightarrow>
        resource \<in> set PRIVILEGED_RESOURCES \<or> endswith action REACHES_ANOTHERS_SUFFIX)"

definition require_may_act_on :: "user option \<Rightarrow> user option \<Rightarrow> (exn, unit) result" where
  "require_may_act_on actor target =
     (if is_superuser actor then Inr ()
      else if target = None then Inr ()
      else let exceeded = sort (filter (\<lambda>p. is_privileged p \<and> p \<notin> set (permissions_held_by actor))
                                  (permissions_held_by target))
      in if exceeded \<noteq> []
         then Inl (Domain (PermissionDeniedError
           (''You cannot act on an account holding permissions you do not hold yourself: ''
             @ join_with '', '' exceeded) [] exceeded
           (Some ''You cannot act on an account holding permissions you do not hold yourself: %(permissions)s'')
           [(''permissions'', PStr (join_with '', '' exceeded))]))
         else Inr ())"

definition require_not_last_administrator :: "nat \<Rightarrow> (exn, unit) result" where
  "require_not_last_administrator remaining_administrators =
     (if remaining_administrators = 0
      then Inl (Domain (DomainError ''This would leave the system without an administrator'' ''FORBIDDEN''))
      else Inr ())"

section \<open>The authorization service\<close>

definition ANONYMOUS_PERMISSION_CEILING :: "string list" where
  "ANONYMOUS_PERMISSION_CEILING = [STATS_VIEW_BASIC, LINK_CREATE]"

definition BEYOND_ADMIN_ALL :: "string list" where
  "BEYOND_ADMIN_ALL = [AUDIT_VIEW]"

definition anonymous_is_allowed :: "database \<Rightarrow> string \<Rightarrow> bool" where
  "anonymous_is_allowed db permission =
     (if permission \<notin> set ANONYMOUS_PERMISSION_CEILING then False
      else case get_role_by_name GUEST_ROLE_NAME db of
        None \<Rightarrow> False | Some r \<Rightarrow> role_has_permission r permission)"

definition is_allowed :: "database \<Rightarrow> user option \<Rightarrow> string \<Rightarrow> bool" where
  "is_allowed db u permission =
     (case u of
        None \<Rightarrow> anonymous_is_allowed db permission
      | Some v \<Rightarrow>
          if permission \<notin> set BEYOND_ADMIN_ALL \<and> user_has_permission v ADMIN_ALL then True
          else user_has_permission v permission)"

section \<open>The guard of the administrative use cases\<close>

definition load_actor :: "request_context \<Rightarrow> database \<Rightarrow> (exn, user option) result" where
  "load_actor cx db = (case cx_current_user cx of None \<Rightarrow> Inr None | Some i \<Rightarrow> find_user_by_id i db)"

definition require_may_grant_roles :: "request_context \<Rightarrow> database \<Rightarrow> role list \<Rightarrow> (exn, unit) result" where
  "require_may_grant_roles cx db roles =
     rbind (load_actor cx db) (\<lambda>actor.
       require_may_confer actor (concat (map (\<lambda>r. map pm_name (rl_permissions r)) roles)))"

definition require_may_grant_permissions :: "request_context \<Rightarrow> database \<Rightarrow> string list \<Rightarrow> (exn, unit) result" where
  "require_may_grant_permissions cx db permission_names =
     rbind (load_actor cx db) (\<lambda>actor. require_may_confer actor permission_names)"

definition require_may_act_on_user :: "request_context \<Rightarrow> database \<Rightarrow> ident \<Rightarrow> (exn, unit) result" where
  "require_may_act_on_user cx db user_id =
     rbind (load_actor cx db) (\<lambda>actor. rbind (find_user_by_id user_id db) (\<lambda>target. require_may_act_on actor target))"

definition require_administrator_remains :: "database \<Rightarrow> ident \<Rightarrow> (exn, unit) result" where
  "require_administrator_remains db user_id =
     require_not_last_administrator (count_active_with_permission ADMIN_ALL (Some user_id) None db)"

definition require_administrator_survives_without :: "database \<Rightarrow> role \<Rightarrow> (exn, unit) result" where
  "require_administrator_survives_without db r =
     (if \<not> role_has_permission r ADMIN_ALL then Inr ()
      else require_not_last_administrator (count_active_with_permission ADMIN_ALL None (Some (rl_id r)) db))"

definition would_keep_admin :: "role list \<Rightarrow> bool" where
  "would_keep_admin roles = list_ex (\<lambda>r. list_ex (\<lambda>p. pm_name p = ADMIN_ALL) (rl_permissions r)) roles"

definition is_administrator :: "database \<Rightarrow> ident \<Rightarrow> (exn, bool) result" where
  "is_administrator db user_id =
     rbind (find_user_by_id user_id db) (\<lambda>u. Inr (case u of None \<Rightarrow> False | Some v \<Rightarrow> user_has_permission v ADMIN_ALL))"

section \<open>What an account holds\<close>

text \<open>
  The names a role confers, the names a set of roles confers, and what the account with an
  identifier holds: the three notions the policies are compared with.
\<close>

definition row_perms :: "database \<Rightarrow> role_row \<Rightarrow> string set" where
  "row_perms db r = {pm_name p | p. p \<in> set (db_permissions db) \<and> pm_id p \<in> set (rr_permission_ids r)}"

definition confers :: "database \<Rightarrow> ident set \<Rightarrow> string set" where
  "confers db ids = (\<Union>r \<in> {r \<in> set (db_roles db). rr_id r \<in> ids}. row_perms db r)"

definition held :: "database \<Rightarrow> ident \<Rightarrow> string set" where
  "held db i = (\<Union>m \<in> {m \<in> set (db_users db). ur_id m = i}. confers db (set (ur_role_ids m)))"

definition actor_held :: "database \<Rightarrow> ident option \<Rightarrow> string set" where
  "actor_held db actor = (case actor of None \<Rightarrow> {} | Some i \<Rightarrow> held db i)"

definition named_role_perms :: "database \<Rightarrow> string \<Rightarrow> string set" where
  "named_role_perms db name = (\<Union>r \<in> {r \<in> set (db_roles db). rr_name r = name}. row_perms db r)"

definition admin_exists :: "database \<Rightarrow> bool" where
  "admin_exists db \<longleftrightarrow> (\<exists>m \<in> set (db_users db). ur_is_active m \<and> ADMIN_ALL \<in> confers db (set (ur_role_ids m)))"

definition guest_unworn :: "database \<Rightarrow> bool" where
  "guest_unworn db \<longleftrightarrow> (\<forall>m \<in> set (db_users db). \<forall>r \<in> set (db_roles db).
     rr_id r \<in> set (ur_role_ids m) \<longrightarrow> rr_name r \<noteq> GUEST_ROLE_NAME)"

definition accounts_wf :: "database \<Rightarrow> bool" where
  "accounts_wf db \<longleftrightarrow> distinct (map ur_id (db_users db)) \<and> distinct (map ur_email (db_users db)) \<and>
     distinct (map rr_id (db_roles db)) \<and> distinct (map rr_name (db_roles db)) \<and>
     distinct (map pm_id (db_permissions db)) \<and>
     (\<forall>m \<in> set (db_users db). set (ur_role_ids m) \<subseteq> set (map rr_id (db_roles db)))"

section \<open>Lemmas: questions about accounts\<close>

text \<open>The same notions over lists, for evaluation.\<close>

lemma row_perms_code [code]:
  "row_perms db r = set (map pm_name (filter (\<lambda>p. pm_id p \<in> set (rr_permission_ids r)) (db_permissions db)))"
  by (auto simp: row_perms_def)

lemma confers_code [code]: "confers db ids = \<Union> (set (map (row_perms db) (filter (\<lambda>r. rr_id r \<in> ids) (db_roles db))))"
  by (auto simp: confers_def)

lemma held_code [code]:
  "held db i = \<Union> (set (map (\<lambda>m. confers db (set (ur_role_ids m))) (filter (\<lambda>m. ur_id m = i) (db_users db))))"
  by (auto simp: held_def)

lemma named_role_perms_code [code]:
  "named_role_perms db n = \<Union> (set (map (row_perms db) (filter (\<lambda>r. rr_name r = n) (db_roles db))))"
  by (auto simp: named_role_perms_def)

lemma set_role_perms: "pm_name ` set (rl_permissions (role_to_domain db r)) = row_perms db r"
  by (auto simp: role_to_domain_def row_perms_def)

lemma role_to_domain_simps [simp]:
  "rl_id (role_to_domain db r) = rr_id r" "rl_name (role_to_domain db r) = rr_name r"
  "rl_is_system (role_to_domain db r) = rr_is_system r" "rl_description (role_to_domain db r) = rr_description r"
  by (simp_all add: role_to_domain_def)

lemma role_has_permission_row: "role_has_permission (role_to_domain db r) n \<longleftrightarrow> n \<in> row_perms db r"
  by (auto simp: role_has_permission_def list_ex_iff set_role_perms [symmetric])

lemma carries_row: "carries db P m n \<longleftrightarrow> (\<exists>r \<in> set (db_roles db). P r \<and> rr_id r \<in> set (ur_role_ids m) \<and> n \<in> row_perms db r)"
  by (auto simp: carries_def list_ex_iff row_perms_def)

lemma confers_iff: "n \<in> confers db ids \<longleftrightarrow> (\<exists>r \<in> set (db_roles db). rr_id r \<in> ids \<and> n \<in> row_perms db r)"
  by (auto simp: confers_def)

lemma count_active_pos:
  "count_active_with_permission n eu er db > 0 \<longleftrightarrow>
     (\<exists>m \<in> set (db_users db). carries db (\<lambda>r. er \<noteq> Some (rr_id r)) m n \<and> ur_is_active m \<and> eu \<noteq> Some (ur_id m))"
  by (auto simp: count_active_with_permission_def filter_empty_conv)

lemma user_to_domain_Inr:
  "user_to_domain db m = Inr u \<Longrightarrow>
     us_id u = ur_id m \<and> us_email u = ur_email m \<and> us_roles u = user_roles db m \<and> us_is_active u = ur_is_active m
     \<and> us_email_verified u = ur_email_verified m \<and> us_password_hash u = ur_password_hash m
     \<and> us_created_at u = ur_created_at m \<and> us_last_login u = ur_last_login m"
  by (auto simp: user_to_domain_def email_from_storage_def PasswordHash_def result_simps split: if_splits)

lemma find_user_Some:
  assumes "find_user P db = Inr (Some u)"
  obtains m where "m \<in> set (db_users db)" "P m" "user_to_domain db m = Inr u"
proof -
  from assms obtain m where m: "List.find P (db_users db) = Some m" "user_to_domain db m = Inr u"
    by (auto simp: find_user_def result_simps split: option.splits)
  then show thesis using that by (metis find_Some_iff nth_mem)
qed

lemma find_user_None: "find_user P db = Inr None \<Longrightarrow> m \<in> set (db_users db) \<Longrightarrow> \<not> P m"
  by (auto simp: find_user_def find_None_iff result_simps split: option.splits)

lemma user_roles_perms: "(\<Union>r \<in> set (user_roles db m). pm_name ` set (rl_permissions r)) = confers db (set (ur_role_ids m))"
  by (auto simp: user_roles_def confers_def set_role_perms [symmetric])

lemma held_unique:
  "distinct (map ur_id (db_users db)) \<Longrightarrow> m \<in> set (db_users db) \<Longrightarrow> held db (ur_id m) = confers db (set (ur_role_ids m))"
  by (auto simp: held_def distinct_map inj_on_def)

lemma find_user_by_id_held:
  assumes "find_user_by_id i db = Inr found" and "accounts_wf db"
  shows "set (permissions_held_by found) = held db i"
    and "is_superuser found \<longleftrightarrow> ADMIN_ALL \<in> held db i"
proof -
  have *: "set (permissions_held_by found) = held db i \<and> (is_superuser found \<longleftrightarrow> ADMIN_ALL \<in> held db i)"
  proof (cases found)
    case None
    with assms(1) have "held db i = {}"
      by (auto simp: find_user_by_id_def held_def dest!: find_user_None)
    with None show ?thesis by (simp add: permissions_held_by_def is_superuser_def)
  next
    case (Some u)
    with assms(1) have "find_user (\<lambda>m. ur_id m = i) db = Inr (Some u)" by (simp add: find_user_by_id_def)
    then obtain m where m: "m \<in> set (db_users db)" "ur_id m = i" "user_to_domain db m = Inr u"
      by (rule find_user_Some)
    have h: "held db i = confers db (set (ur_role_ids m))"
      using held_unique [of db m] assms(2) m by (simp add: accounts_wf_def)
    have r: "us_roles u = user_roles db m" using user_to_domain_Inr [OF m(3)] by simp
    have "set (permissions_held_by found) = confers db (set (ur_role_ids m))"
      unfolding Some permissions_held_by_def user_roles_perms [symmetric] by (simp add: r)
    moreover have "user_has_permission u n \<longleftrightarrow> n \<in> confers db (set (ur_role_ids m))" for n
      unfolding user_has_permission_def role_has_permission_def list_ex_iff r user_roles_perms [symmetric] by blast
    ultimately show ?thesis using h Some by (simp add: is_superuser_def)
  qed
  show "set (permissions_held_by found) = held db i" using * ..
  show "is_superuser found \<longleftrightarrow> ADMIN_ALL \<in> held db i" using * ..
qed

lemma load_actor_held:
  assumes "load_actor cx db = Inr actor" and "accounts_wf db"
  shows "set (permissions_held_by actor) = actor_held db (cx_current_user cx)"
    and "is_superuser actor \<longleftrightarrow> ADMIN_ALL \<in> actor_held db (cx_current_user cx)"
proof -
  have "set (permissions_held_by actor) = actor_held db (cx_current_user cx)
      \<and> (is_superuser actor \<longleftrightarrow> ADMIN_ALL \<in> actor_held db (cx_current_user cx))"
  proof (cases "cx_current_user cx")
    case None
    with assms(1) show ?thesis
      by (simp add: load_actor_def actor_held_def permissions_held_by_def is_superuser_def)
  next
    case (Some i)
    with assms(1) have "find_user_by_id i db = Inr actor" by (simp add: load_actor_def)
    from find_user_by_id_held [OF this assms(2)] Some show ?thesis by (simp add: actor_held_def)
  qed
  then show "set (permissions_held_by actor) = actor_held db (cx_current_user cx)"
    and "is_superuser actor \<longleftrightarrow> ADMIN_ALL \<in> actor_held db (cx_current_user cx)" by simp_all
qed

lemma is_administrator_held:
  "accounts_wf db \<Longrightarrow> is_administrator db i = Inr b \<Longrightarrow> b \<longleftrightarrow> ADMIN_ALL \<in> held db i"
  using find_user_by_id_held(2) by (auto simp: is_administrator_def is_superuser_def result_simps)

lemma require_may_confer_Inr:
  "require_may_confer actor ps = Inr u \<longleftrightarrow> is_superuser actor \<or> set ps \<subseteq> set (permissions_held_by actor)"
proof -
  have "sort (remdups (filter (\<lambda>p. p \<notin> set (permissions_held_by actor)) ps)) = [] \<longleftrightarrow> set ps \<subseteq> set (permissions_held_by actor)"
    by (metis (no_types, lifting) filter_False filter_empty_conv set_empty2 set_remdups set_sort subsetI subset_code(1) sort_key_simps(1) remdups.simps(1))
  then show ?thesis by (simp add: require_may_confer_def Let_def)
qed

lemma require_may_grant_roles_Inr:
  assumes "require_may_grant_roles cx db roles = Inr u" and "accounts_wf db"
    and "ADMIN_ALL \<notin> actor_held db (cx_current_user cx)" and "r \<in> set roles"
  shows "pm_name ` set (rl_permissions r) \<subseteq> actor_held db (cx_current_user cx)"
  using assms load_actor_held [of cx db]
  by (fastforce simp: require_may_grant_roles_def result_simps require_may_confer_Inr)

lemma require_may_grant_permissions_Inr:
  assumes "require_may_grant_permissions cx db ps = Inr u" and "accounts_wf db"
    and "ADMIN_ALL \<notin> actor_held db (cx_current_user cx)"
  shows "set ps \<subseteq> actor_held db (cx_current_user cx)"
  using assms load_actor_held [of cx db]
  by (fastforce simp: require_may_grant_permissions_def result_simps require_may_confer_Inr)

section \<open>Lemmas: what each write does\<close>

text \<open>The account tables, which every notion above depends on and nothing else.\<close>

definition same_accounts :: "database \<Rightarrow> database \<Rightarrow> bool" where
  "same_accounts db db' \<longleftrightarrow>
     db_users db' = db_users db \<and> db_roles db' = db_roles db \<and> db_permissions db' = db_permissions db"

lemma same_accounts_simps:
  assumes "same_accounts db db'"
  shows "held db' = held db" "admin_exists db' = admin_exists db" "guest_unworn db' = guest_unworn db"
    "accounts_wf db' = accounts_wf db" "named_role_perms db' = named_role_perms db"
  using assms
  by (auto simp: same_accounts_def held_def admin_exists_def guest_unworn_def accounts_wf_def fun_eq_iff
      named_role_perms_def confers_def row_perms_def)

lemma row_perms_roles [simp]: "row_perms (db\<lparr>db_users := us\<rparr>) = row_perms db" "row_perms (db\<lparr>db_roles := rs\<rparr>) = row_perms db"
  by (simp_all add: fun_eq_iff row_perms_def)

lemma confers_users [simp]: "confers (db\<lparr>db_users := us\<rparr>) = confers db"
  by (simp add: fun_eq_iff confers_def)

text \<open>Roles read from the database, as every caller of \<open>save\<close> has them.\<close>

definition read_from :: "database \<Rightarrow> role list \<Rightarrow> bool" where
  "read_from db roles \<longleftrightarrow> (\<forall>r \<in> set roles. \<exists>m \<in> set (db_roles db). r = role_to_domain db m)"

lemma read_from_user_roles: "read_from db (user_roles db m)"
  by (auto simp: read_from_def user_roles_def)

lemma get_role_by_name_Some:
  assumes "get_role_by_name n db = Some r"
  obtains m where "m \<in> set (db_roles db)" "rr_name m = n" "r = role_to_domain db m"
proof -
  from assms obtain m where "List.find (\<lambda>m. rr_name m = n) (db_roles db) = Some m" "r = role_to_domain db m"
    by (auto simp: get_role_by_name_def)
  then show thesis using that by (metis (mono_tags, lifting) find_Some_iff nth_mem)
qed

lemma confers_read_from:
  assumes "read_from db roles" and "distinct (map rr_id (db_roles db))"
  shows "confers db (set (map rl_id roles)) = (\<Union>r \<in> set roles. pm_name ` set (rl_permissions r))"
proof (intro equalityI subsetI)
  fix n assume "n \<in> confers db (set (map rl_id roles))"
  then obtain m r where m: "m \<in> set (db_roles db)" "r \<in> set roles" "rr_id m = rl_id r" "n \<in> row_perms db m"
    by (auto simp: confers_iff)
  from m(2) assms(1) obtain m' where m': "m' \<in> set (db_roles db)" "r = role_to_domain db m'"
    by (auto simp: read_from_def)
  with m assms(2) have "m' = m" by (metis (no_types, lifting) distinct_map inj_on_def role_to_domain_simps(1))
  with m m' show "n \<in> (\<Union>r \<in> set roles. pm_name ` set (rl_permissions r))"
    by (metis UN_iff set_role_perms)
next
  fix n assume "n \<in> (\<Union>r \<in> set roles. pm_name ` set (rl_permissions r))"
  then obtain r where r: "r \<in> set roles" "n \<in> pm_name ` set (rl_permissions r)" by blast
  with assms(1) obtain m where "m \<in> set (db_roles db)" "r = role_to_domain db m" by (auto simp: read_from_def)
  with r show "n \<in> confers db (set (map rl_id roles))"
    unfolding confers_iff by (metis image_eqI list.set_map role_to_domain_simps(1) set_role_perms)
qed

lemma save_user_Inr:
  assumes "save_user u db = Inr db'"
  shows "db' = db\<lparr>db_users := replace_or_append ur_id (user_to_row u) (db_users db)\<rparr>"
    and "set (map rl_id (us_roles u)) \<subseteq> set (map rr_id (db_roles db))"
    and "\<forall>m \<in> set (db_users db). ur_email m = us_email u \<longrightarrow> ur_id m = us_id u"
  using assms by (auto simp: save_user_def list_ex_iff find_None_iff split: option.splits if_splits)

lemma user_to_row_simps [simp]:
  "ur_id (user_to_row u) = us_id u" "ur_role_ids (user_to_row u) = map rl_id (us_roles u)"
  "ur_is_active (user_to_row u) = us_is_active u" "ur_email (user_to_row u) = us_email u"
  by (simp_all add: user_to_row_def)

lemma held_save_user:
  assumes "save_user u db = Inr db'"
  shows "held db' i = (if i = us_id u then confers db (set (map rl_id (us_roles u))) else held db i)"
  unfolding save_user_Inr(1) [OF assms] held_def by (auto simp: set_replace_or_append)

lemma distinct_emails_replace:
  assumes "distinct (map ur_id us)" "distinct (map ur_email us)" "\<forall>m \<in> set us. ur_email m = ur_email x \<longrightarrow> ur_id m = ur_id x"
  shows "distinct (map ur_email (replace_or_append ur_id x us))"
proof -
  let ?f = "\<lambda>y. if ur_id y = ur_id x then x else y"
  have "inj_on (\<lambda>y. ur_email (?f y)) (set us)"
  proof (rule inj_onI)
    fix a b assume ab: "a \<in> set us" "b \<in> set us" "ur_email (?f a) = ur_email (?f b)"
    have "ur_id a = ur_id b \<or> ur_email a = ur_email b"
      using ab assms(3) by (cases "ur_id a = ur_id x"; cases "ur_id b = ur_id x") auto
    then show "a = b" using ab(1,2) assms(1,2) by (metis distinct_map inj_onD)
  qed
  then have "distinct (map ur_email (map ?f us))"
    using assms(1) by (simp add: distinct_map o_def)
  then show ?thesis using assms by (auto simp: replace_or_append_def image_iff)
qed

lemma accounts_wf_save_user:
  assumes "save_user u db = Inr db'" and "accounts_wf db"
  shows "accounts_wf db'"
  using assms(2) save_user_Inr(2,3) [OF assms(1)]
    distinct_emails_replace [of "db_users db" "user_to_row u"]
  unfolding save_user_Inr(1) [OF assms(1)] accounts_wf_def
  by (auto simp: keys_replace_or_append set_replace_or_append)

lemma guest_unworn_save_user:
  assumes "save_user u db = Inr db'" and "guest_unworn db" and "accounts_wf db" and "read_from db (us_roles u)"
    and "\<forall>r \<in> set (us_roles u). rl_name r \<noteq> GUEST_ROLE_NAME"
  shows "guest_unworn db'"
proof -
  have "rr_name m \<noteq> GUEST_ROLE_NAME" if m: "m \<in> set (db_roles db)" "rr_id m \<in> rl_id ` set (us_roles u)" for m
  proof -
    from m(2) obtain r where r: "r \<in> set (us_roles u)" "rl_id r = rr_id m" by auto
    with assms(4) obtain m' where m': "m' \<in> set (db_roles db)" "r = role_to_domain db m'" by (auto simp: read_from_def)
    with r m(1) assms(3) have "m' = m"
      by (metis (no_types, lifting) accounts_wf_def distinct_map inj_on_def role_to_domain_simps(1))
    with r m' assms(5) show ?thesis by auto
  qed
  then show ?thesis
    using assms(2) unfolding save_user_Inr(1) [OF assms(1)] guest_unworn_def
    by (auto simp: set_replace_or_append)
qed

lemma admin_exists_save_user:
  assumes "save_user u db = Inr db'" and "admin_exists db"
    and "us_is_active u \<and> ADMIN_ALL \<in> confers db (set (map rl_id (us_roles u)))
      \<or> (\<exists>m \<in> set (db_users db). ur_id m \<noteq> us_id u \<and> ur_is_active m \<and> ADMIN_ALL \<in> confers db (set (ur_role_ids m)))"
  shows "admin_exists db'"
  using assms(3) unfolding save_user_Inr(1) [OF assms(1)] admin_exists_def
  by (auto simp: set_replace_or_append)

text \<open>The invariant of the account tables, and the bound a request puts on what accounts gain.\<close>

definition accounts_inv :: "database \<Rightarrow> bool" where
  "accounts_inv db \<longleftrightarrow> accounts_wf db \<and> guest_unworn db \<and> admin_exists db"

definition gains_at_most :: "string set \<Rightarrow> database \<Rightarrow> database \<Rightarrow> bool" where
  "gains_at_most X db db' \<longleftrightarrow> (\<forall>i. held db' i \<subseteq> held db i \<union> X)"

lemma gains_at_most_mono: "gains_at_most X db db' \<Longrightarrow> X \<subseteq> Y \<Longrightarrow> gains_at_most Y db db'"
  by (auto simp: gains_at_most_def)

lemma gains_at_most_trans: "gains_at_most X db db' \<Longrightarrow> gains_at_most X db' db'' \<Longrightarrow> gains_at_most X db db''"
  by (fastforce simp: gains_at_most_def)

lemma save_user_step:
  assumes s: "save_user u db = Inr db'" and inv: "accounts_inv db" and rf: "read_from db (us_roles u)"
    and g: "\<forall>r \<in> set (us_roles u). rl_name r \<noteq> GUEST_ROLE_NAME"
    and x: "(\<Union>r \<in> set (us_roles u). pm_name ` set (rl_permissions r)) \<subseteq> held db (us_id u) \<union> X"
    and adm: "us_is_active u \<and> ADMIN_ALL \<in> (\<Union>r \<in> set (us_roles u). pm_name ` set (rl_permissions r))
      \<or> (\<exists>m \<in> set (db_users db). ur_id m \<noteq> us_id u \<and> ur_is_active m \<and> ADMIN_ALL \<in> confers db (set (ur_role_ids m)))"
  shows "accounts_inv db' \<and> gains_at_most X db db'"
proof -
  from inv have wf: "accounts_wf db" "guest_unworn db" "admin_exists db" by (simp_all add: accounts_inv_def)
  then have d: "distinct (map rr_id (db_roles db))" by (simp add: accounts_wf_def)
  note c = confers_read_from [OF rf d]
  have "admin_exists db'" using admin_exists_save_user [OF s wf(3)] adm unfolding c by blast
  moreover have "gains_at_most X db db'"
    using x unfolding gains_at_most_def held_save_user [OF s] c by auto
  ultimately show ?thesis
    using accounts_wf_save_user [OF s wf(1)] guest_unworn_save_user [OF s wf(2,1) rf g] by (simp add: accounts_inv_def)
qed

lemma row_perms_role_to_row:
  assumes "distinct (map pm_id (db_permissions db))"
  shows "row_perms db (role_to_row db r) = pm_name ` set (db_permissions db) \<inter> pm_name ` set (rl_permissions r)"
  using assms by (auto simp: row_perms_def role_to_row_def distinct_map inj_on_def image_iff)

lemma save_role_Inr:
  assumes "save_role r db = Inr (r', db')"
  shows "db' = db\<lparr>db_roles := replace_or_append rr_id (role_to_row db r) (db_roles db)\<rparr>"
    and "\<forall>m \<in> set (db_roles db). rr_name m = rl_name r \<longrightarrow> rr_id m = rl_id r"
  using assms by (auto simp: save_role_def Let_def list_ex_iff split: if_splits)

lemma role_to_row_simps [simp]: "rr_id (role_to_row db r) = rl_id r" "rr_name (role_to_row db r) = rl_name r"
  by (simp_all add: role_to_row_def)

lemma confers_save_role:
  assumes "save_role r db = Inr (r', db')"
  shows "confers db' ids = (\<Union>m \<in> {m \<in> set (db_roles db). rr_id m \<in> ids \<and> rr_id m \<noteq> rl_id r}. row_perms db m)
     \<union> (if rl_id r \<in> ids then row_perms db (role_to_row db r) else {})"
  unfolding save_role_Inr(1) [OF assms] confers_def by (auto simp: set_replace_or_append)

lemma distinct_names_replace:
  assumes "distinct (map rr_id rs)" "distinct (map rr_name rs)" "\<forall>m \<in> set rs. rr_name m = rr_name x \<longrightarrow> rr_id m = rr_id x"
  shows "distinct (map rr_name (replace_or_append rr_id x rs))"
proof -
  let ?f = "\<lambda>y. if rr_id y = rr_id x then x else y"
  have "inj_on (\<lambda>y. rr_name (?f y)) (set rs)"
  proof (rule inj_onI)
    fix a b assume ab: "a \<in> set rs" "b \<in> set rs" "rr_name (?f a) = rr_name (?f b)"
    have "rr_id a = rr_id b \<or> rr_name a = rr_name b"
      using ab assms(3) by (cases "rr_id a = rr_id x"; cases "rr_id b = rr_id x") auto
    then show "a = b" using ab(1,2) assms(1,2) by (metis distinct_map inj_onD)
  qed
  then have "distinct (map rr_name (map ?f rs))"
    using assms(1) by (simp add: distinct_map o_def)
  then show ?thesis using assms by (auto simp: replace_or_append_def image_iff)
qed

lemma accounts_wf_save_role:
  assumes "save_role r db = Inr (r', db')" and "accounts_wf db"
  shows "accounts_wf db'"
  using assms(2) save_role_Inr(2) [OF assms(1)] distinct_names_replace [of "db_roles db" "role_to_row db r"]
  unfolding save_role_Inr(1) [OF assms(1)] accounts_wf_def
  by (auto simp: keys_replace_or_append set_replace_or_append)

text \<open>
  A role is saved under an identifier of its own, or under one whose role keeps its name.
\<close>

lemma save_role_step:
  assumes s: "save_role r db = Inr (r', db')" and inv: "accounts_inv db"
    and keep: "\<forall>m \<in> set (db_roles db). rr_id m = rl_id r \<longrightarrow> rr_name m = rl_name r"
    and x: "pm_name ` set (rl_permissions r) \<subseteq> X"
    and adm: "ADMIN_ALL \<in> row_perms db (role_to_row db r) \<or>
      (\<exists>m \<in> set (db_users db). ur_is_active m \<and>
         (\<exists>q \<in> set (db_roles db). rr_id q \<noteq> rl_id r \<and> rr_id q \<in> set (ur_role_ids m) \<and> ADMIN_ALL \<in> row_perms db q))"
  shows "accounts_inv db' \<and> gains_at_most X db db' \<and> named_role_perms db' name \<subseteq> named_role_perms db name \<union> X"
proof -
  from inv have wf: "accounts_wf db" "guest_unworn db" "admin_exists db" by (simp_all add: accounts_inv_def)
  have rp: "row_perms db (role_to_row db r) \<subseteq> X"
    using row_perms_role_to_row [of db r] wf(1) x by (auto simp: accounts_wf_def)
  have users: "db_users db' = db_users db" unfolding save_role_Inr(1) [OF s] by simp
  have g: "guest_unworn db'"
    unfolding guest_unworn_def users
  proof (intro ballI impI)
    fix m q assume m: "m \<in> set (db_users db)" "q \<in> set (db_roles db')" "rr_id q \<in> set (ur_role_ids m)"
    from m(1,3) wf(1) obtain q0 where q0: "q0 \<in> set (db_roles db)" "rr_id q0 = rr_id q"
      by (fastforce simp: accounts_wf_def)
    then have "rr_name q = rr_name q0"
    proof (cases "rr_id q = rl_id r")
      case True
      with m(2) q0 keep show ?thesis unfolding save_role_Inr(1) [OF s] by (auto simp: set_replace_or_append)
    next
      case False
      with m(2) have "q \<in> set (db_roles db)" unfolding save_role_Inr(1) [OF s] by (auto simp: set_replace_or_append)
      with q0 wf(1) show ?thesis by (metis accounts_wf_def distinct_map inj_onD)
    qed
    then show "rr_name q \<noteq> GUEST_ROLE_NAME" using wf(2) m(1,3) q0 by (auto simp: guest_unworn_def)
  qed
  have a: "admin_exists db'"
  proof (rule disjE [OF adm])
    assume n: "ADMIN_ALL \<in> row_perms db (role_to_row db r)"
    from wf(3) obtain m q where "m \<in> set (db_users db)" "ur_is_active m" "q \<in> set (db_roles db)"
      "rr_id q \<in> set (ur_role_ids m)" "ADMIN_ALL \<in> row_perms db q" by (auto simp: admin_exists_def confers_iff)
    with n show ?thesis unfolding admin_exists_def users confers_save_role [OF s]
      by (intro bexI [of _ m]) auto
  qed (auto simp: admin_exists_def users confers_save_role [OF s])
  have "gains_at_most X db db'"
  proof -
    have "confers db' ids \<subseteq> confers db ids \<union> X" for ids
      unfolding confers_save_role [OF s] using rp by (auto simp: confers_iff split: if_split_asm)
    then show ?thesis unfolding gains_at_most_def held_def users by blast
  qed
  moreover have "named_role_perms db' name \<subseteq> named_role_perms db name \<union> X"
    unfolding named_role_perms_def save_role_Inr(1) [OF s] using rp by (auto simp: set_replace_or_append)
  ultimately show ?thesis using g a accounts_wf_save_role [OF s wf(1)] by (simp add: accounts_inv_def)
qed

lemma delete_role_row_simps [simp]:
  "db_permissions (delete_role_row i db) = db_permissions db"
  "db_roles (delete_role_row i db) = filter (\<lambda>m. rr_id m \<noteq> i) (db_roles db)"
  "row_perms (delete_role_row i db) = row_perms db"
  by (simp_all add: delete_role_row_def fun_eq_iff row_perms_def)

lemma confers_delete_role_row:
  "confers (delete_role_row i db) ids = (\<Union>m \<in> {m \<in> set (db_roles db). rr_id m \<in> ids \<and> rr_id m \<noteq> i}. row_perms db m)"
  by (auto simp: confers_def)

lemma delete_role_row_step:
  assumes inv: "accounts_inv db"
    and adm: "\<exists>m \<in> set (db_users db). ur_is_active m \<and>
         (\<exists>q \<in> set (db_roles db). rr_id q \<noteq> i \<and> rr_id q \<in> set (ur_role_ids m) \<and> ADMIN_ALL \<in> row_perms db q)"
  shows "accounts_inv (delete_role_row i db) \<and> gains_at_most {} db (delete_role_row i db)
    \<and> named_role_perms (delete_role_row i db) name \<subseteq> named_role_perms db name"
proof -
  let ?db = "delete_role_row i db" and ?f = "\<lambda>m. m\<lparr>ur_role_ids := filter (\<lambda>j. j \<noteq> i) (ur_role_ids m)\<rparr>"
  have users: "db_users ?db = map ?f (db_users db)" by (simp add: delete_role_row_def)
  from inv have wf: "accounts_wf db" "guest_unworn db" by (simp_all add: accounts_inv_def)
  have "accounts_wf ?db"
    using wf(1) unfolding accounts_wf_def users by (auto simp: o_def distinct_map_filter)
  moreover have "guest_unworn ?db" using wf(2) unfolding guest_unworn_def users by auto
  moreover have "admin_exists ?db"
    using adm unfolding admin_exists_def users confers_delete_role_row by fastforce
  moreover have "gains_at_most {} db ?db"
  proof -
    have "n \<in> held db j" if "n \<in> held ?db j" for n j
    proof -
      from that obtain m where m: "m \<in> set (db_users db)" "ur_id m = j" "n \<in> confers ?db (set (ur_role_ids (?f m)))"
        by (auto simp: held_def users)
      then have "n \<in> confers db (set (ur_role_ids m))"
        unfolding confers_delete_role_row by (auto simp: confers_iff)
      with m(1,2) show ?thesis unfolding held_def by blast
    qed
    then show ?thesis by (auto simp: gains_at_most_def)
  qed
  moreover have "named_role_perms ?db name \<subseteq> named_role_perms db name" by (auto simp: named_role_perms_def)
  ultimately show ?thesis by (simp add: accounts_inv_def)
qed

lemma delete_users_step:
  assumes inv: "accounts_inv db"
    and adm: "\<exists>m \<in> set (db_users db). ur_is_active m \<and> ur_id m \<notin> set gone \<and> ADMIN_ALL \<in> confers db (set (ur_role_ids m))"
  shows "accounts_inv (delete_users gone db) \<and> gains_at_most {} db (delete_users gone db)"
proof -
  have c: "confers (delete_users gone db) = confers db" by (simp add: fun_eq_iff confers_def row_perms_def)
  show ?thesis using inv adm
    unfolding accounts_inv_def accounts_wf_def guest_unworn_def admin_exists_def gains_at_most_def held_def c
    by (auto simp: distinct_map_filter)
qed

end
