(* ===== verification/Administration.thy ===== *)
theory Administration
  imports Accounts Cache
begin

text \<open>
  Administration of accounts and roles: the services \<^verbatim>\<open>RoleManagementService\<close> and
  \<^verbatim>\<open>UserManagementService\<close> and the use cases of \<^verbatim>\<open>application/use_cases/admin\<close>. A use case is a
  function from the database to an exception, or to its answer with the database after
  the commit and the audit events; every exception is raised before the commit, so it
  leaves the database as it was. Log lines are left out, identifiers that \<^verbatim>\<open>uuid4\<close> draws and
  the clock are arguments, and the password hash of \<^verbatim>\<open>bcrypt\<close> is a parameter.

  The inductive relation \<open>admin_step\<close> is one administrative request by one actor; the
  properties are invariants of its runs.
\<close>

section \<open>Role management\<close>

definition refuse_unknown_permissions :: "string list \<Rightarrow> permission list \<Rightarrow> (exn, unit) result" where
  "refuse_unknown_permissions requested found =
     (let missing = remdups (filter (\<lambda>n. n \<notin> set (map pm_name found)) requested)
      in if missing \<noteq> [] then Inl (Domain (PermissionsNotFoundError missing)) else Inr ())"

definition resolve_permissions :: "database \<Rightarrow> string list \<Rightarrow> (exn, permission list) result" where
  "resolve_permissions db permission_names =
     (let permissions = (if permission_names = [] then [] else get_permissions_by_names permission_names db)
      in rbind (refuse_unknown_permissions permission_names permissions) (\<lambda>_. Inr permissions))"

text \<open>The loop of \<open>resolve_roles\<close>; the last argument is the set of identifiers seen.\<close>

fun resolve_roles_from :: "database \<Rightarrow> string list \<Rightarrow> ident list \<Rightarrow> (exn, role list) result" where
  "resolve_roles_from db [] seen = Inr []"
| "resolve_roles_from db (name # names) seen =
     (case get_role_by_name name db of
        None \<Rightarrow> Inl (Domain (RoleNotFoundError name))
      | Some r \<Rightarrow>
          if rl_id r \<in> set seen then resolve_roles_from db names seen
          else rbind (resolve_roles_from db names (rl_id r # seen)) (\<lambda>rs. Inr (r # rs)))"

definition resolve_roles :: "database \<Rightarrow> string list \<Rightarrow> (exn, role list) result" where
  "resolve_roles db role_names = resolve_roles_from db role_names []"

definition service_create_role ::
  "ident \<Rightarrow> string \<Rightarrow> string option \<Rightarrow> string list \<Rightarrow> database \<Rightarrow> (exn, role \<times> database) result" where
  "service_create_role new_id name description permission_names db =
     rbind (require_valid_role_name name) (\<lambda>_.
     rbind (require_valid_role_description description) (\<lambda>_.
     if get_role_by_name name db \<noteq> None then Inl (Domain (RoleAlreadyExistsError name))
     else rbind (resolve_permissions db permission_names) (\<lambda>permissions.
       save_role \<lparr>rl_id = new_id, rl_name = name, rl_description = description, rl_is_system = False,
                  rl_permissions = permissions\<rparr> db)))"

definition service_update_role_permissions ::
  "string \<Rightarrow> string list \<Rightarrow> database \<Rightarrow> (exn, role \<times> database) result" where
  "service_update_role_permissions role_name permission_names db =
     (case get_role_by_name role_name db of
        None \<Rightarrow> Inl (Domain (RoleNotFoundError role_name))
      | Some r \<Rightarrow>
          rbind (ensure_may_be_changed r) (\<lambda>_.
          rbind (resolve_permissions db permission_names) (\<lambda>permissions.
            save_role (r\<lparr>rl_permissions := permissions\<rparr>) db)))"

definition service_delete_role :: "string \<Rightarrow> database \<Rightarrow> (exn, database) result" where
  "service_delete_role role_name db =
     (case get_role_by_name role_name db of
        None \<Rightarrow> Inl (Domain (RoleNotFoundError role_name))
      | Some r \<Rightarrow> rbind (ensure_may_be_changed r) (\<lambda>_. Inr (delete_role_row (rl_id r) db)))"

section \<open>User management\<close>

definition hash_password :: "(string \<Rightarrow> string) \<Rightarrow> string \<Rightarrow> (exn, string) result" where
  "hash_password hashpw plain = rbind (validate_password plain) (\<lambda>_. Inr (hashpw plain))"

definition service_create_user ::
  "(string \<Rightarrow> string) \<Rightarrow> string \<Rightarrow> moment \<Rightarrow> ident \<Rightarrow> string \<Rightarrow> string \<Rightarrow> role list option \<Rightarrow> bool \<Rightarrow> database
   \<Rightarrow> (exn, user \<times> database) result" where
  "service_create_user hashpw default_role_name now new_id email password roles is_active db =
     rbind (Email email) (\<lambda>email_vo.
     rbind (find_user_by_email email_vo db) (\<lambda>found.
     if found \<noteq> None then Inl (Domain EmailAlreadyRegisteredError)
     else
       rbind (hash_password hashpw password) (\<lambda>hashed.
       rbind (PasswordHash hashed) (\<lambda>password_hash_vo.
       rbind (case roles of Some (r # rs) \<Rightarrow> Inr (r # rs)
              | _ \<Rightarrow> (case get_role_by_name default_role_name db of
                  None \<Rightarrow> Inl (Domain (DomainError (''Default role '' @ apos @ default_role_name @ apos @ '' not found'')
                                 ''CONFIGURATION_ERROR''))
                | Some d \<Rightarrow> Inr [d])) (\<lambda>assigned_roles.
       rbind (user_create now new_id email_vo password_hash_vo assigned_roles True) (\<lambda>u0.
       let u = u0\<lparr>us_is_active := is_active\<rparr>
       in rbind (save_user u db) (\<lambda>db1. Inr (u, db1))))))))"

definition service_update_roles :: "ident \<Rightarrow> role list \<Rightarrow> database \<Rightarrow> (exn, user \<times> database) result" where
  "service_update_roles user_id roles db =
     rbind (find_user_by_id user_id db) (\<lambda>found.
       case found of
         None \<Rightarrow> Inl (Domain (UserNotFoundError user_id))
       | Some u \<Rightarrow>
           if roles = [] then raise_validation ''An account must keep at least one role'' ''roles''
           else rbind (require_roles_are_assignable roles) (\<lambda>_.
             let u1 = u\<lparr>us_roles := roles\<rparr>
             in rbind (save_user u1 db) (\<lambda>db1. Inr (u1, db1))))"

definition service_set_active :: "bool \<Rightarrow> ident \<Rightarrow> database \<Rightarrow> (exn, user \<times> database) result" where
  "service_set_active active user_id db =
     rbind (find_user_by_id user_id db) (\<lambda>found.
       case found of
         None \<Rightarrow> Inl (Domain (UserNotFoundError user_id))
       | Some u \<Rightarrow> (let u1 = u\<lparr>us_is_active := active\<rparr>
                    in rbind (save_user u1 db) (\<lambda>db1. Inr (u1, db1))))"

abbreviation service_deactivate_user :: "ident \<Rightarrow> database \<Rightarrow> (exn, user \<times> database) result" where
  "service_deactivate_user \<equiv> service_set_active False"

abbreviation service_activate_user :: "ident \<Rightarrow> database \<Rightarrow> (exn, user \<times> database) result" where
  "service_activate_user \<equiv> service_set_active True"

section \<open>The session rows administration touches\<close>

definition revoke_all_for_user :: "moment \<Rightarrow> ident \<Rightarrow> database \<Rightarrow> nat \<times> database" where
  "revoke_all_for_user now user_id db =
     (length (filter (\<lambda>s. rs_user_id s = user_id \<and> rs_revoked_at s = None) (db_sessions db)),
      db\<lparr>db_sessions := map (\<lambda>s. if rs_user_id s = user_id \<and> rs_revoked_at s = None
                                 then s\<lparr>rs_revoked_at := Some now\<rparr> else s) (db_sessions db)\<rparr>)"

definition invalidate_tokens :: "moment \<Rightarrow> ident \<Rightarrow> one_time_token list \<Rightarrow> nat \<times> one_time_token list" where
  "invalidate_tokens now user_id ts =
     (length (filter (\<lambda>t. ot_user_id t = user_id \<and> ot_used_at t = None) ts),
      map (\<lambda>t. if ot_user_id t = user_id \<and> ot_used_at t = None then t\<lparr>ot_used_at := Some now\<rparr> else t) ts)"

definition delete_spent_tokens :: "moment \<Rightarrow> one_time_token list \<Rightarrow> nat \<times> one_time_token list" where
  "delete_spent_tokens now ts =
     (let doomed = (\<lambda>t. ot_expires_at t < now \<or> ot_used_at t \<noteq> None)
      in (length (filter doomed ts), filter (\<lambda>t. \<not> doomed t) ts))"

section \<open>Use cases on accounts\<close>

type_synonym 'a admin_outcome = "(exn, 'a \<times> database \<times> audit_event list) result"

definition create_user ::
  "(string \<Rightarrow> string) \<Rightarrow> string \<Rightarrow> moment \<Rightarrow> ident \<Rightarrow> string \<Rightarrow> string \<Rightarrow> request_context \<Rightarrow> string list option
   \<Rightarrow> bool \<Rightarrow> database \<Rightarrow> user admin_outcome" where
  "create_user hashpw default_role_name now new_id email password cx role_names is_active db =
     rbind (case role_names of
              Some (n # ns) \<Rightarrow>
                rbind (resolve_roles db (n # ns)) (\<lambda>roles.
                rbind (require_roles_are_assignable roles) (\<lambda>_.
                rbind (require_may_grant_roles cx db roles) (\<lambda>_. Inr (Some roles))))
            | _ \<Rightarrow> Inr None) (\<lambda>roles.
     rbind (service_create_user hashpw default_role_name now new_id email password roles is_active db) (\<lambda>(u, db1).
     Inr (u, db1, [UserCreated (us_id u) email (map rl_name (us_roles u))])))"

definition update_user_roles ::
  "ident \<Rightarrow> string list \<Rightarrow> request_context \<Rightarrow> database \<Rightarrow> user admin_outcome" where
  "update_user_roles user_id role_names cx db =
     rbind (resolve_roles db role_names) (\<lambda>roles.
     rbind (require_roles_are_assignable roles) (\<lambda>_.
     rbind (require_may_grant_roles cx db roles) (\<lambda>_.
     rbind (require_may_act_on_user cx db user_id) (\<lambda>_.
     rbind (is_administrator db user_id) (\<lambda>admin.
     rbind (if admin \<and> \<not> would_keep_admin roles then require_administrator_remains db user_id else Inr ()) (\<lambda>_.
     rbind (find_user_by_id user_id db) (\<lambda>existing.
     let roles_before = (case existing of None \<Rightarrow> [] | Some u \<Rightarrow> map rl_name (us_roles u))
     in rbind (service_update_roles user_id roles db) (\<lambda>(u, db1).
     let roles_after = map rl_name (us_roles u)
     in Inr (u, db1, if sort roles_before \<noteq> sort roles_after
                     then [RolesChanged user_id roles_before roles_after] else [])))))))))"

definition activate_user :: "ident \<Rightarrow> request_context \<Rightarrow> database \<Rightarrow> user admin_outcome" where
  "activate_user user_id cx db =
     rbind (require_may_act_on_user cx db user_id) (\<lambda>_.
     rbind (service_activate_user user_id db) (\<lambda>(u, db1). Inr (u, db1, [UserActivated user_id])))"

definition deactivate_user :: "moment \<Rightarrow> ident \<Rightarrow> request_context \<Rightarrow> database \<Rightarrow> user admin_outcome" where
  "deactivate_user now user_id cx db =
     rbind (require_may_act_on_user cx db user_id) (\<lambda>_.
     rbind (is_administrator db user_id) (\<lambda>admin.
     rbind (if admin then require_administrator_remains db user_id else Inr ()) (\<lambda>_.
     rbind (service_deactivate_user user_id db) (\<lambda>(u, db1).
     case revoke_all_for_user now user_id db1 of (revoked, db2) \<Rightarrow>
     Inr (u, db2, [UserDeactivated user_id revoked])))))"

definition confirm_user_email :: "moment \<Rightarrow> ident \<Rightarrow> request_context \<Rightarrow> database \<Rightarrow> user admin_outcome" where
  "confirm_user_email now user_id cx db =
     rbind (require_may_act_on_user cx db user_id) (\<lambda>_.
     rbind (find_user_by_id user_id db) (\<lambda>found.
     case found of
       None \<Rightarrow> Inl (Domain (UserNotFoundError user_id))
     | Some u \<Rightarrow>
         (let already = us_email_verified u; u1 = u\<lparr>us_email_verified := True\<rparr>
          in rbind (if already then Inr db else save_user u1 db) (\<lambda>db1.
             let db2 = db1\<lparr>db_verifications := snd (invalidate_tokens now user_id (db_verifications db1))\<rparr>
             in Inr (if already then u else u1, db2, [UserEmailConfirmed user_id already])))))"

text \<open>
  Deleting an account deletes its links and drops them from the caches. The cache is the
  one record of operations that stands for the three ports the use case is given.
\<close>

fun drop_cached_links :: "'c cache_ops \<Rightarrow> link list \<Rightarrow> 'c \<Rightarrow> 'c" where
  "drop_cached_links ops [] c = c"
| "drop_cached_links ops (l # ls) c =
     drop_cached_links ops ls (co_delete_redirect ops (lk_code l) (snd (co_delete ops l c)))"

definition delete_user ::
  "'c cache_ops \<Rightarrow> ident \<Rightarrow> request_context \<Rightarrow> database \<Rightarrow> 'c \<Rightarrow> (exn, bool \<times> database \<times> 'c \<times> audit_event list) result" where
  "delete_user ops user_id cx db c =
     rbind (require_may_act_on_user cx db user_id) (\<lambda>_.
     rbind (is_administrator db user_id) (\<lambda>admin.
     rbind (if admin then require_administrator_remains db user_id else Inr ()) (\<lambda>_.
     let deleted_links = fst (delete_by_owner user_id (db_links db));
         db1 = remove_links (delete_by_owner user_id (db_links db)) db
     in case delete_user_row user_id db1 of (deleted, db2) \<Rightarrow>
        if \<not> deleted then Inr (False, db, c, [])
        else Inr (True, db2,
               if deleted_links = [] then c else co_delete_stats ops (drop_cached_links ops deleted_links c),
               map (\<lambda>l. UrlDeleted (lk_code l) (lk_url l)) deleted_links @ [UserDeleted user_id (length deleted_links)]))))"

definition clean_unverified_accounts ::
  "int \<Rightarrow> moment \<Rightarrow> database \<Rightarrow> (nat \<times> nat) \<times> database \<times> audit_event list" where
  "clean_unverified_accounts unverified_ttl_hours now db =
     (case delete_unverified_before (now - unverified_ttl_hours * hour) db of (deleted, db1) \<Rightarrow>
      case delete_spent_tokens now (db_verifications db1) of (tokens, ts) \<Rightarrow>
      ((deleted, tokens), db1\<lparr>db_verifications := ts\<rparr>,
       if deleted > 0 then [UnverifiedAccountsSwept deleted tokens] else []))"

section \<open>Use cases on roles\<close>

definition create_role ::
  "ident \<Rightarrow> string \<Rightarrow> string option \<Rightarrow> string list \<Rightarrow> request_context \<Rightarrow> database \<Rightarrow> role admin_outcome" where
  "create_role new_id name description permission_names cx db =
     rbind (resolve_permissions db permission_names) (\<lambda>_.
     rbind (require_may_grant_permissions cx db permission_names) (\<lambda>_.
     rbind (service_create_role new_id name description permission_names db) (\<lambda>(r, db1).
     Inr (r, db1, [RoleCreated (rl_name r) (map pm_name (rl_permissions r))]))))"

definition update_role_permissions ::
  "string \<Rightarrow> string list \<Rightarrow> request_context \<Rightarrow> database \<Rightarrow> role admin_outcome" where
  "update_role_permissions role_name permission_names cx db =
     rbind (resolve_permissions db permission_names) (\<lambda>_.
     rbind (require_may_grant_permissions cx db permission_names) (\<lambda>_.
     let existing = get_role_by_name role_name db;
         permissions_before = (case existing of None \<Rightarrow> [] | Some r \<Rightarrow> map pm_name (rl_permissions r));
         holders = (case existing of None \<Rightarrow> 0 | Some r \<Rightarrow> count_with_role (rl_id r) db)
     in rbind (case existing of None \<Rightarrow> Inr ()
          | Some r \<Rightarrow> if \<not> rl_is_system r \<and> ADMIN_ALL \<notin> set permission_names
                      then require_administrator_survives_without db r else Inr ()) (\<lambda>_.
     rbind (service_update_role_permissions role_name permission_names db) (\<lambda>(r, db1).
     let permissions_after = map pm_name (rl_permissions r)
     in Inr (r, db1, if sort permissions_before \<noteq> sort permissions_after
          then [RolePermissionsChanged (rl_name r) permissions_before permissions_after holders] else [])))))"

text \<open>
  \<open>put_the_bare_ones_back\<close> gives the default role to the accounts the deletion left without
  any; a refusal of the domain skips the account, any other exception ends the request.
\<close>

fun put_back_from :: "role \<Rightarrow> ident list \<Rightarrow> database \<Rightarrow> (exn, ident list \<times> database) result" where
  "put_back_from fallback [] db = Inr ([], db)"
| "put_back_from fallback (user_id # wearers) db =
     rbind (find_user_by_id user_id db) (\<lambda>account.
       case account of
         None \<Rightarrow> put_back_from fallback wearers db
       | Some u \<Rightarrow>
           if us_roles u \<noteq> [] then put_back_from fallback wearers db
           else (case service_update_roles user_id [fallback] db of
               Inr (_, db1) \<Rightarrow> rbind (put_back_from fallback wearers db1) (\<lambda>(ids, db2). Inr (user_id # ids, db2))
             | Inl (Domain _) \<Rightarrow> put_back_from fallback wearers db
             | Inl e \<Rightarrow> Inl e))"

definition put_the_bare_ones_back ::
  "string \<Rightarrow> ident list \<Rightarrow> database \<Rightarrow> (exn, ident list \<times> database) result" where
  "put_the_bare_ones_back default_role_name wearers db =
     (if wearers = [] then Inr ([], db)
      else case get_role_by_name default_role_name db of
        None \<Rightarrow> Inr ([], db)
      | Some fallback \<Rightarrow> put_back_from fallback wearers db)"

definition delete_role :: "string \<Rightarrow> string \<Rightarrow> request_context \<Rightarrow> database \<Rightarrow> unit admin_outcome" where
  "delete_role default_role_name role_name cx db =
     (let doomed = get_role_by_name role_name db
      in rbind (case doomed of None \<Rightarrow> Inr ()
           | Some r \<Rightarrow> if \<not> rl_is_system r then require_administrator_survives_without db r else Inr ()) (\<lambda>_.
         let wearers = (case doomed of None \<Rightarrow> [] | Some r \<Rightarrow> ids_with_role (rl_id r) db)
         in rbind (service_delete_role role_name db) (\<lambda>db1.
            rbind (put_the_bare_ones_back default_role_name wearers db1) (\<lambda>(put_back, db2).
            Inr ((), db2, RoleDeleted role_name (length wearers)
                   # map (\<lambda>i. RolesChanged i [role_name] [default_role_name]) put_back)))))"

section \<open>A small installation, for evaluation\<close>

definition sample_perm :: "ident \<Rightarrow> string \<Rightarrow> permission" where
  "sample_perm i n = \<lparr>pm_id = i, pm_name = n, pm_resource = [], pm_action = [], pm_description = None\<rparr>"

definition sample_role :: "ident \<Rightarrow> string \<Rightarrow> ident list \<Rightarrow> role_row" where
  "sample_role i n ps = \<lparr>rr_id = i, rr_name = n, rr_description = None, rr_is_system = False, rr_permission_ids = ps\<rparr>"

definition sample_user :: "ident \<Rightarrow> string \<Rightarrow> bool \<Rightarrow> ident list \<Rightarrow> user_row" where
  "sample_user i mail verified rs =
     \<lparr>ur_id = i, ur_email = mail, ur_password_hash = ''h'', ur_is_active = True, ur_email_verified = verified,
      ur_created_at = 0, ur_last_login = None, ur_role_ids = rs\<rparr>"

definition sample_db :: database where
  "sample_db =
     \<lparr>db_links = [],
      db_users = [sample_user ''root'' ''root@example.org'' True [''r1''], sample_user ''ann'' ''ann@example.org'' True [''r3''],
                  sample_user ''bob'' ''bob@example.org'' False [''r2'']],
      db_roles = [sample_role ''r1'' ''admin'' [''p1''], sample_role ''r2'' ''user'' [''p2''],
                  sample_role ''r3'' ''manager'' [''p2'', ''p3''], sample_role ''r4'' ''guest'' [''p2'']],
      db_permissions = [sample_perm ''p1'' ''admin:all'', sample_perm ''p2'' ''link:create'', sample_perm ''p3'' ''admin:manage_users''],
      db_sessions = [], db_verifications = [], db_resets = [], db_visits = [], db_visit_days = [],
      db_security_events = [], db_security_days = []\<rparr>"

definition sample_cx :: "ident \<Rightarrow> request_context" where
  "sample_cx i = \<lparr>cx_remote_addr = None, cx_user_agent = None, cx_current_user = Some i\<rparr>"

section \<open>Lemmas: what the services read\<close>

lemma resolve_roles_from_read: "resolve_roles_from db names seen = Inr rs \<Longrightarrow> read_from db rs"
proof (induction db names seen arbitrary: rs rule: resolve_roles_from.induct)
  case (2 db name names seen)
  then obtain r where r: "get_role_by_name name db = Some r" by (auto split: option.splits)
  then obtain m where m: "m \<in> set (db_roles db)" "r = role_to_domain db m" by (rule get_role_by_name_Some)
  show ?case
  proof (cases "rl_id r \<in> set seen")
    case True
    with 2 r show ?thesis by simp
  next
    case False
    with 2 r obtain rs' where "resolve_roles_from db names (rl_id r # seen) = Inr rs'" "rs = r # rs'"
      by (auto simp: result_simps)
    with 2(2) [OF r False] m show ?thesis by (auto simp: read_from_def)
  qed
qed (simp add: read_from_def)

lemma resolve_roles_read: "resolve_roles db names = Inr rs \<Longrightarrow> read_from db rs"
  unfolding resolve_roles_def by (rule resolve_roles_from_read)

lemma resolve_permissions_Inr:
  assumes "resolve_permissions db names = Inr ps"
  shows "pm_name ` set ps = set names" and "set names \<subseteq> pm_name ` set (db_permissions db)"
proof -
  let ?ps = "if names = [] then [] else get_permissions_by_names names db"
  have ps: "ps = ?ps" and none: "filter (\<lambda>n. n \<notin> set (map pm_name ?ps)) names = []"
    using assms unfolding resolve_permissions_def refuse_unknown_permissions_def Let_def
    by (auto simp: result_simps split: if_split_asm)
  have "set names \<subseteq> set (map pm_name ?ps)" using none unfolding filter_empty_conv by blast
  moreover have "set (map pm_name ?ps) \<subseteq> set names" by (auto simp: get_permissions_by_names_def)
  ultimately show "pm_name ` set ps = set names" unfolding ps by auto
  then show "set names \<subseteq> pm_name ` set (db_permissions db)"
    unfolding ps by (auto simp: get_permissions_by_names_def split: if_splits)
qed

lemma remains_other:
  "require_administrator_remains db i = Inr u \<Longrightarrow>
     \<exists>m \<in> set (db_users db). ur_id m \<noteq> i \<and> ur_is_active m \<and> ADMIN_ALL \<in> confers db (set (ur_role_ids m))"
proof -
  assume "require_administrator_remains db i = Inr u"
  then have "count_active_with_permission ADMIN_ALL (Some i) None db > 0"
    by (simp add: require_administrator_remains_def require_not_last_administrator_def split: if_splits)
  then show ?thesis unfolding count_active_pos carries_row by (auto simp: confers_iff)
qed

lemma other_admin:
  assumes "accounts_inv db" and "ADMIN_ALL \<notin> held db i"
  shows "\<exists>m \<in> set (db_users db). ur_id m \<noteq> i \<and> ur_is_active m \<and> ADMIN_ALL \<in> confers db (set (ur_role_ids m))"
  using assms by (auto simp: accounts_inv_def admin_exists_def held_def)

lemma survives_other:
  assumes "require_administrator_survives_without db (role_to_domain db q) = Inr u" and "accounts_inv db" and "q \<in> set (db_roles db)"
  shows "\<exists>m \<in> set (db_users db). ur_is_active m \<and>
    (\<exists>r \<in> set (db_roles db). rr_id r \<noteq> rr_id q \<and> rr_id r \<in> set (ur_role_ids m) \<and> ADMIN_ALL \<in> row_perms db r)"
proof (cases "ADMIN_ALL \<in> row_perms db q")
  case True
  then have "count_active_with_permission ADMIN_ALL None (Some (rr_id q)) db > 0"
    using assms(1)
    by (simp add: require_administrator_survives_without_def require_not_last_administrator_def
        role_has_permission_row split: if_splits)
  then show ?thesis unfolding count_active_pos carries_row by (metis option.inject)
next
  case False
  from assms(2) obtain m r where m: "m \<in> set (db_users db)" "ur_is_active m" "r \<in> set (db_roles db)"
    "rr_id r \<in> set (ur_role_ids m)" "ADMIN_ALL \<in> row_perms db r"
    by (auto simp: accounts_inv_def admin_exists_def confers_iff)
  with False have "r \<noteq> q" by auto
  with m(3) assms(2,3) have "rr_id r \<noteq> rr_id q"
    by (auto simp: accounts_inv_def accounts_wf_def distinct_map inj_on_def)
  with m show ?thesis by blast
qed

section \<open>Lemmas: one step of administration\<close>

text \<open>What one request may confer: nothing beyond the actor and the default role, unless the actor is a superuser.\<close>

definition allowance :: "string \<Rightarrow> ident option \<Rightarrow> database \<Rightarrow> string set" where
  "allowance d actor db =
     (if ADMIN_ALL \<in> actor_held db actor then UNIV else actor_held db actor \<union> named_role_perms db d)"

definition step_ok :: "string \<Rightarrow> ident option \<Rightarrow> database \<Rightarrow> database \<Rightarrow> bool" where
  "step_ok d actor db db' \<longleftrightarrow> accounts_inv db' \<and> gains_at_most (allowance d actor db) db db' \<and>
     named_role_perms db' d \<subseteq> allowance d actor db \<union> named_role_perms db d"

lemma step_ok_same: "accounts_inv db \<Longrightarrow> same_accounts db db' \<Longrightarrow> step_ok d actor db db'"
  using same_accounts_simps [of db db'] by (simp add: step_ok_def accounts_inv_def gains_at_most_def)

lemma step_ok_same_after: "step_ok d actor db db' \<Longrightarrow> same_accounts db' db'' \<Longrightarrow> step_ok d actor db db''"
  using same_accounts_simps [of db' db''] by (simp add: step_ok_def accounts_inv_def gains_at_most_def)

lemma named_role_perms_save_user: "save_user u db = Inr db' \<Longrightarrow> named_role_perms db' n = named_role_perms db n"
  by (frule save_user_Inr(1)) (simp add: named_role_perms_def)

text \<open>An account that is read, changed in a field and saved.\<close>

lemma resave_step:
  assumes f: "find_user_by_id i db = Inr (Some u)" and s: "save_user u' db = Inr db'" and inv: "accounts_inv db"
    and u': "us_id u' = us_id u" "us_roles u' = us_roles u"
    and adm: "us_is_active u \<longrightarrow> us_is_active u' \<or>
      (\<exists>m \<in> set (db_users db). ur_id m \<noteq> i \<and> ur_is_active m \<and> ADMIN_ALL \<in> confers db (set (ur_role_ids m)))"
  shows "step_ok d actor db db'"
proof -
  from f have "find_user (\<lambda>m. ur_id m = i) db = Inr (Some u)" by (simp add: find_user_by_id_def)
  then obtain m where m: "m \<in> set (db_users db)" "ur_id m = i" "user_to_domain db m = Inr u" by (rule find_user_Some)
  note dom = user_to_domain_Inr [OF m(3)]
  from inv have wf: "accounts_wf db" "guest_unworn db" "admin_exists db" by (simp_all add: accounts_inv_def)
  have rf: "read_from db (us_roles u')" using dom u'(2) read_from_user_roles by metis
  have g: "\<forall>r \<in> set (us_roles u'). rl_name r \<noteq> GUEST_ROLE_NAME"
    using dom u'(2) wf(2) m(1) by (auto simp: user_roles_def guest_unworn_def)
  have ps: "(\<Union>r \<in> set (us_roles u'). pm_name ` set (rl_permissions r)) = confers db (set (ur_role_ids m))"
    using user_roles_perms [of db m] dom u'(2) by simp
  have h: "held db (us_id u') = confers db (set (ur_role_ids m))"
    using held_unique [of db m] wf(1) m dom u'(1) by (simp add: accounts_wf_def)
  have "us_is_active u' \<and> ADMIN_ALL \<in> confers db (set (ur_role_ids m)) \<or>
      (\<exists>m \<in> set (db_users db). ur_id m \<noteq> us_id u' \<and> ur_is_active m \<and> ADMIN_ALL \<in> confers db (set (ur_role_ids m)))"
  proof (cases "us_is_active u' \<and> ADMIN_ALL \<in> held db i")
    case True
    then show ?thesis using h dom m u'(1) by simp
  next
    case False
    have idu: "us_id u' = i" using dom m u'(1) by simp
    from wf(3) obtain m0 where m0: "m0 \<in> set (db_users db)" "ur_is_active m0" "ADMIN_ALL \<in> confers db (set (ur_role_ids m0))"
      by (auto simp: admin_exists_def)
    show ?thesis
    proof (cases "ur_id m0 = i")
      case True
      then have "m0 = m" using m m0(1) wf(1) by (auto simp: accounts_wf_def distinct_map inj_on_def)
      with m0 False h idu m dom adm have "\<exists>m \<in> set (db_users db). ur_id m \<noteq> i \<and> ur_is_active m \<and> ADMIN_ALL \<in> confers db (set (ur_role_ids m))"
        by auto
      then show ?thesis using idu by simp
    next
      case False
      with m0 idu show ?thesis by blast
    qed
  qed
  then have "accounts_inv db' \<and> gains_at_most (allowance d actor db) db db'"
    by (intro save_user_step [OF s inv rf g]) (simp_all add: ps h)
  then show ?thesis by (simp add: step_ok_def named_role_perms_save_user [OF s])
qed

lemma may_act_Inr: "require_may_act_on_user cx db i = Inr () \<Longrightarrow> \<exists>found. find_user_by_id i db = Inr found"
  by (auto simp: require_may_act_on_user_def result_simps)

lemma activate_user_step:
  assumes "activate_user i cx db = Inr (u, db', ev)" and "accounts_inv db"
  shows "step_ok d actor db db'"
proof -
  from assms(1) obtain u0 where "find_user_by_id i db = Inr (Some u0)" "save_user (u0\<lparr>us_is_active := True\<rparr>) db = Inr db'"
    by (auto simp: activate_user_def service_set_active_def Let_def result_simps split: option.splits)
  then show ?thesis by (rule resave_step [OF _ _ assms(2)]) simp_all
qed

lemma deactivate_user_step:
  assumes "deactivate_user now i cx db = Inr (u, db', ev)" and "accounts_inv db"
  shows "step_ok d actor db db'"
proof -
  from assms(1) obtain b u0 db1 where o: "is_administrator db i = Inr b"
      "(if b then require_administrator_remains db i else Inr ()) = Inr ()"
      "find_user_by_id i db = Inr (Some u0)" "save_user (u0\<lparr>us_is_active := False\<rparr>) db = Inr db1"
      "db' = snd (revoke_all_for_user now i db1)"
    by (auto simp: deactivate_user_def service_set_active_def Let_def result_simps split: option.splits prod.splits)
  have "accounts_wf db" using assms(2) by (simp add: accounts_inv_def)
  from is_administrator_held [OF this o(1)]
  have "\<exists>m \<in> set (db_users db). ur_id m \<noteq> i \<and> ur_is_active m \<and> ADMIN_ALL \<in> confers db (set (ur_role_ids m))"
    using o(2) remains_other other_admin [OF assms(2)] by (cases b) auto
  then have "step_ok d actor db db1" by (intro resave_step [OF o(3,4) assms(2)]) simp_all
  then show ?thesis by (rule step_ok_same_after) (simp add: o(5) same_accounts_def revoke_all_for_user_def)
qed

lemma confirm_user_email_step:
  assumes "confirm_user_email now i cx db = Inr (u, db', ev)" and "accounts_inv db"
  shows "step_ok d actor db db'"
proof -
  from assms(1) obtain u0 db1 where o: "find_user_by_id i db = Inr (Some u0)"
      "(if us_email_verified u0 then Inr db else save_user (u0\<lparr>us_email_verified := True\<rparr>) db) = Inr db1"
      "db' = db1\<lparr>db_verifications := snd (invalidate_tokens now i (db_verifications db1))\<rparr>"
    by (auto simp: confirm_user_email_def Let_def result_simps split: option.splits)
  have "step_ok d actor db db1"
  proof (cases "us_email_verified u0")
    case True
    with o(2) assms(2) show ?thesis by (intro step_ok_same) (simp_all add: same_accounts_def)
  next
    case False
    with o(2) have "save_user (u0\<lparr>us_email_verified := True\<rparr>) db = Inr db1" by simp
    then show ?thesis by (rule resave_step [OF o(1) _ assms(2)]) simp_all
  qed
  then show ?thesis by (rule step_ok_same_after) (simp add: o(3) same_accounts_def)
qed

lemma delete_user_step:
  assumes "delete_user ops i cx db c = Inr (b, db', c', ev)" and "accounts_inv db"
  shows "step_ok d actor db db'"
proof -
  let ?db1 = "remove_links (delete_by_owner i (db_links db)) db"
  from assms(1) obtain adm where o: "is_administrator db i = Inr adm"
      "(if adm then require_administrator_remains db i else Inr ()) = Inr ()"
      "db' = db \<or> db' = delete_users [i] ?db1"
    by (auto simp: delete_user_def Let_def delete_user_row_def result_simps split: prod.splits if_splits)
  have wf: "accounts_wf db" using assms(2) by (simp add: accounts_inv_def)
  from is_administrator_held [OF this o(1)]
  have other: "\<exists>m \<in> set (db_users db). ur_id m \<noteq> i \<and> ur_is_active m \<and> ADMIN_ALL \<in> confers db (set (ur_role_ids m))"
    using o(2) remains_other other_admin [OF assms(2)] by (cases adm) auto
  have same: "same_accounts db ?db1" by (simp add: same_accounts_def)
  then have inv1: "accounts_inv ?db1" using assms(2) same_accounts_simps [of db ?db1] by (simp add: accounts_inv_def)
  have "confers ?db1 = confers db" by (simp add: fun_eq_iff confers_def row_perms_def)
  then have "accounts_inv (delete_users [i] ?db1) \<and> gains_at_most {} ?db1 (delete_users [i] ?db1)"
    using other by (intro delete_users_step [OF inv1]) auto
  then have "step_ok d actor db (delete_users [i] ?db1)"
    using same_accounts_simps(1) [OF same]
    by (auto simp: step_ok_def gains_at_most_def named_role_perms_def row_perms_def)
  then show ?thesis using o(3) assms(2) step_ok_same [of db db d actor] by (auto simp: same_accounts_def)
qed

text \<open>Roles are assigned to an account within what the actor may grant.\<close>

lemma grant_within:
  assumes "require_may_grant_roles cx db roles = Inr u" and "accounts_inv db"
  shows "(\<Union>r \<in> set roles. pm_name ` set (rl_permissions r)) \<subseteq> allowance d (cx_current_user cx) db"
proof (cases "ADMIN_ALL \<in> actor_held db (cx_current_user cx)")
  case False
  with require_may_grant_roles_Inr [OF assms(1) _ False] assms(2) show ?thesis
    by (auto simp: allowance_def accounts_inv_def)
qed (simp add: allowance_def)

lemma would_keep_admin_iff:
  "would_keep_admin roles \<longleftrightarrow> ADMIN_ALL \<in> (\<Union>r \<in> set roles. pm_name ` set (rl_permissions r))"
  unfolding would_keep_admin_def list_ex_iff UN_iff image_iff by (simp only: eq_commute [of ADMIN_ALL])

lemma update_user_roles_step:
  assumes "update_user_roles i names cx db = Inr (u, db', ev)" and inv: "accounts_inv db"
  shows "step_ok d (cx_current_user cx) db db'"
proof -
  from assms(1) obtain roles b u0 where o: "resolve_roles db names = Inr roles"
      "require_roles_are_assignable roles = Inr ()" "require_may_grant_roles cx db roles = Inr ()"
      "is_administrator db i = Inr b"
      "(if b \<and> \<not> would_keep_admin roles then require_administrator_remains db i else Inr ()) = Inr ()"
      "find_user_by_id i db = Inr (Some u0)" "save_user (u0\<lparr>us_roles := roles\<rparr>) db = Inr db'"
    unfolding update_user_roles_def service_update_roles_def Let_def
    by (auto simp: result_simps split: option.splits if_split_asm)
  from o(6) have "find_user (\<lambda>m. ur_id m = i) db = Inr (Some u0)" by (simp add: find_user_by_id_def)
  then obtain m where m: "m \<in> set (db_users db)" "ur_id m = i" "user_to_domain db m = Inr u0" by (rule find_user_Some)
  note dom = user_to_domain_Inr [OF m(3)]
  from inv have wf: "accounts_wf db" "admin_exists db" by (simp_all add: accounts_inv_def)
  have adm: "us_is_active u0 \<and> ADMIN_ALL \<in> (\<Union>r \<in> set roles. pm_name ` set (rl_permissions r)) \<or>
      (\<exists>m \<in> set (db_users db). ur_id m \<noteq> i \<and> ur_is_active m \<and> ADMIN_ALL \<in> confers db (set (ur_role_ids m)))"
  proof (cases "\<exists>m \<in> set (db_users db). ur_id m \<noteq> i \<and> ur_is_active m \<and> ADMIN_ALL \<in> confers db (set (ur_role_ids m))")
    case False
    with wf(2) obtain m0 where m0: "m0 \<in> set (db_users db)" "ur_id m0 = i" "ur_is_active m0"
      by (auto simp: admin_exists_def)
    then have "m0 = m" using m wf(1) by (auto simp: accounts_wf_def distinct_map inj_on_def)
    moreover have "b" using False is_administrator_held [OF wf(1) o(4)] other_admin [OF inv] by blast
    moreover have "would_keep_admin roles" using False o(5) \<open>b\<close> remains_other by (auto split: if_split_asm)
    ultimately show ?thesis using m0 dom by (simp add: would_keep_admin_iff)
  qed blast
  have "accounts_inv db' \<and> gains_at_most (allowance d (cx_current_user cx) db) db db'"
  proof (rule save_user_step [OF o(7) inv])
    show "read_from db (us_roles (u0\<lparr>us_roles := roles\<rparr>))" using resolve_roles_read [OF o(1)] by simp
    show "\<forall>r \<in> set (us_roles (u0\<lparr>us_roles := roles\<rparr>)). rl_name r \<noteq> GUEST_ROLE_NAME" using o(2) by simp
  qed (use grant_within [OF o(3) inv, of d] adm dom m(2) in auto)
  then show ?thesis by (simp add: step_ok_def named_role_perms_save_user [OF o(7)])
qed

lemma create_user_step:
  assumes "create_user hashpw d now i email pw cx names act db = Inr (u, db', ev)" and inv: "accounts_inv db"
    and new: "i \<notin> set (map ur_id (db_users db))"
  shows "step_ok d (cx_current_user cx) db db'"
proof -
  let ?A = "allowance d (cx_current_user cx) db"
  from assms(1) obtain ro u1 where o:
      "(case names of Some (n # ns) \<Rightarrow>
          rbind (resolve_roles db (n # ns)) (\<lambda>roles. rbind (require_roles_are_assignable roles) (\<lambda>_.
          rbind (require_may_grant_roles cx db roles) (\<lambda>_. Inr (Some roles))))
        | _ \<Rightarrow> Inr None) = Inr ro"
      "service_create_user hashpw d now i email pw ro act db = Inr (u1, db')"
    unfolding create_user_def by (auto simp: result_simps)
  have ro: "ro = None \<or> (\<exists>roles. ro = Some roles \<and> read_from db roles \<and>
      (\<Union>r \<in> set roles. pm_name ` set (rl_permissions r)) \<subseteq> ?A)"
    using o(1) grant_within [OF _ inv, of cx _ _ d]
    by (auto simp: result_simps resolve_roles_read split: option.splits list.splits)
  from o(2) obtain roles e h where s: "save_user u1 db = Inr db'" "us_id u1 = i" "us_roles u1 = roles"
      "(case ro of Some (r # rs) \<Rightarrow> roles = r # rs | _ \<Rightarrow> (\<exists>r. get_role_by_name d db = Some r \<and> roles = [r]))"
      "\<forall>r \<in> set roles. rl_name r \<noteq> GUEST_ROLE_NAME"
    unfolding service_create_user_def user_create_def Let_def
    by (auto simp: result_simps split: option.splits list.splits if_split_asm)
  have rr: "read_from db roles \<and> (\<Union>r \<in> set roles. pm_name ` set (rl_permissions r)) \<subseteq> ?A"
  proof (cases "\<exists>r rs. ro = Some (r # rs)")
    case True
    then obtain r rs where "ro = Some (r # rs)" by blast
    with ro s(4) show ?thesis by simp
  next
    case False
    with s(4) obtain r where r: "get_role_by_name d db = Some r" "roles = [r]"
      by (auto split: option.splits list.splits)
    then obtain m where "m \<in> set (db_roles db)" "rr_name m = d" "r = role_to_domain db m" by (metis get_role_by_name_Some)
    with r(2) show ?thesis
      by (auto simp: read_from_def allowance_def named_role_perms_def set_role_perms)
  qed
  have "\<exists>m \<in> set (db_users db). ur_id m \<noteq> us_id u1 \<and> ur_is_active m \<and> ADMIN_ALL \<in> confers db (set (ur_role_ids m))"
  proof -
    from inv obtain m where m: "m \<in> set (db_users db)" "ur_is_active m" "ADMIN_ALL \<in> confers db (set (ur_role_ids m))"
      by (auto simp: accounts_inv_def admin_exists_def)
    moreover have "ur_id m \<noteq> us_id u1" using m(1) new s(2) by (metis image_eqI list.set_map)
    ultimately show ?thesis by blast
  qed
  then have "accounts_inv db' \<and> gains_at_most ?A db db'"
    using rr s(3,5) by (intro save_user_step [OF s(1) inv]) auto
  then show ?thesis by (simp add: step_ok_def named_role_perms_save_user [OF s(1)])
qed

lemma grant_permissions_within:
  assumes "require_may_grant_permissions cx db names = Inr u" and "accounts_inv db"
  shows "set names \<subseteq> allowance d (cx_current_user cx) db"
proof (cases "ADMIN_ALL \<in> actor_held db (cx_current_user cx)")
  case False
  with require_may_grant_permissions_Inr [OF assms(1) _ False] assms(2) show ?thesis
    by (auto simp: allowance_def accounts_inv_def)
qed (simp add: allowance_def)

lemma create_role_step:
  assumes "create_role i name descr names cx db = Inr (r, db', ev)" and inv: "accounts_inv db"
    and new: "i \<notin> set (map rr_id (db_roles db))"
  shows "step_ok d (cx_current_user cx) db db'"
proof -
  let ?A = "allowance d (cx_current_user cx) db"
  from assms(1) obtain ps where o: "require_may_grant_permissions cx db names = Inr ()" "resolve_permissions db names = Inr ps"
      "save_role \<lparr>rl_id = i, rl_name = name, rl_description = descr, rl_is_system = False, rl_permissions = ps\<rparr> db = Inr (r, db')"
    unfolding create_role_def service_create_role_def by (auto simp: result_simps split: if_split_asm)
  have "accounts_inv db' \<and> gains_at_most ?A db db' \<and> named_role_perms db' d \<subseteq> named_role_perms db d \<union> ?A"
  proof (rule save_role_step [OF o(3) inv])
    show "pm_name ` set (rl_permissions \<lparr>rl_id = i, rl_name = name, rl_description = descr, rl_is_system = False, rl_permissions = ps\<rparr>) \<subseteq> ?A"
      using resolve_permissions_Inr(1) [OF o(2)] grant_permissions_within [OF o(1) inv, of d] by simp
  qed (use new inv in \<open>fastforce simp: accounts_inv_def admin_exists_def confers_iff\<close>)+
  then show ?thesis by (auto simp: step_ok_def)
qed

lemma update_role_permissions_step:
  assumes "update_role_permissions name names cx db = Inr (r, db', ev)" and inv: "accounts_inv db"
  shows "step_ok d (cx_current_user cx) db db'"
proof -
  let ?A = "allowance d (cx_current_user cx) db"
  from assms(1) obtain ps r0 where o: "require_may_grant_permissions cx db names = Inr ()" "resolve_permissions db names = Inr ps"
      "get_role_by_name name db = Some r0" "ensure_may_be_changed r0 = Inr ()"
      "(if \<not> rl_is_system r0 \<and> ADMIN_ALL \<notin> set names then require_administrator_survives_without db r0 else Inr ()) = Inr ()"
      "save_role (r0\<lparr>rl_permissions := ps\<rparr>) db = Inr (r, db')"
    unfolding update_role_permissions_def service_update_role_permissions_def Let_def
    by (auto simp: result_simps split: option.splits if_split_asm)
  from o(3) obtain q where q: "q \<in> set (db_roles db)" "rr_name q = name" "r0 = role_to_domain db q"
    by (rule get_role_by_name_Some)
  from inv have wf: "accounts_wf db" by (simp add: accounts_inv_def)
  have adm: "ADMIN_ALL \<in> row_perms db (role_to_row db (r0\<lparr>rl_permissions := ps\<rparr>)) \<or>
      (\<exists>m \<in> set (db_users db). ur_is_active m \<and> (\<exists>q' \<in> set (db_roles db). rr_id q' \<noteq> rr_id q \<and>
         rr_id q' \<in> set (ur_role_ids m) \<and> ADMIN_ALL \<in> row_perms db q'))"
  proof (cases "ADMIN_ALL \<in> set names")
    case True
    then show ?thesis
      using row_perms_role_to_row [of db "r0\<lparr>rl_permissions := ps\<rparr>"] wf resolve_permissions_Inr [OF o(2)]
      by (auto simp: accounts_wf_def)
  next
    case False
    with o(4,5) have "require_administrator_survives_without db r0 = Inr ()"
      by (auto simp: ensure_may_be_changed_def split: if_split_asm)
    then show ?thesis using survives_other [OF _ inv q(1)] q(3) by simp
  qed
  have "accounts_inv db' \<and> gains_at_most ?A db db' \<and> named_role_perms db' d \<subseteq> named_role_perms db d \<union> ?A"
  proof (rule save_role_step [OF o(6) inv])
    show "\<forall>m \<in> set (db_roles db). rr_id m = rl_id (r0\<lparr>rl_permissions := ps\<rparr>) \<longrightarrow> rr_name m = rl_name (r0\<lparr>rl_permissions := ps\<rparr>)"
      using q wf by (auto simp: accounts_wf_def distinct_map inj_on_def)
    show "pm_name ` set (rl_permissions (r0\<lparr>rl_permissions := ps\<rparr>)) \<subseteq> ?A"
      using resolve_permissions_Inr(1) [OF o(2)] grant_permissions_within [OF o(1) inv, of d] by simp
  qed (use adm q(3) in simp)
  then show ?thesis by (auto simp: step_ok_def)
qed

lemma put_back_from_step:
  assumes "put_back_from fallback ids db = Inr (returned, db')" and "accounts_inv db"
    and "\<exists>m \<in> set (db_roles db). fallback = role_to_domain db m" and "pm_name ` set (rl_permissions fallback) \<subseteq> X"
  shows "accounts_inv db' \<and> gains_at_most X db db' \<and> named_role_perms db' d = named_role_perms db d"
  using assms
proof (induction ids arbitrary: db returned db')
  case Nil
  then show ?case by (simp add: gains_at_most_def)
next
  case (Cons i ids)
  from Cons.prems(1) obtain account where a: "find_user_by_id i db = Inr account" by (auto simp: result_simps)
  show ?case
  proof (cases "\<exists>u0 p. account = Some u0 \<and> us_roles u0 = [] \<and> service_update_roles i [fallback] db = Inr p")
    case False
    with Cons.prems(1) a have "put_back_from fallback ids db = Inr (returned, db')"
      by (auto simp: result_simps split: option.splits if_split_asm sum.splits exn.splits)
    then show ?thesis using Cons by blast
  next
    case True
    then obtain u0 u1 db1 where u0: "account = Some u0" "us_roles u0 = []" "service_update_roles i [fallback] db = Inr (u1, db1)"
      by auto
    with Cons.prems(1) a obtain returned' where b: "put_back_from fallback ids db1 = Inr (returned', db')" by (auto simp: result_simps)
    from u0 a have s: "save_user (u0\<lparr>us_roles := [fallback]\<rparr>) db = Inr db1" "rl_name fallback \<noteq> GUEST_ROLE_NAME"
      by (auto simp: service_update_roles_def Let_def result_simps split: option.splits if_split_asm)
    from a u0(1) have "find_user (\<lambda>m. ur_id m = i) db = Inr (Some u0)" by (simp add: find_user_by_id_def)
    then obtain m where m: "m \<in> set (db_users db)" "ur_id m = i" "user_to_domain db m = Inr u0" by (rule find_user_Some)
    note dom = user_to_domain_Inr [OF m(3)]
    have "confers db (set (ur_role_ids m)) = {}" using user_roles_perms [of db m] dom u0(2) by simp
    then have "ADMIN_ALL \<notin> held db i" using held_unique [of db m] Cons.prems(2) m by (auto simp: accounts_inv_def accounts_wf_def)
    from other_admin [OF Cons.prems(2) this] have step: "accounts_inv db1 \<and> gains_at_most X db db1"
      using dom m(2) Cons.prems(3,4) s(2) by (intro save_user_step [OF s(1) Cons.prems(2)]) (auto simp: read_from_def)
    have "db_roles db1 = db_roles db" "db_permissions db1 = db_permissions db" by (simp_all add: save_user_Inr(1) [OF s(1)])
    then have "\<exists>m \<in> set (db_roles db1). fallback = role_to_domain db1 m"
      using Cons.prems(3) by (simp add: role_to_domain_def)
    with Cons.IH [OF b] step Cons.prems(4) have "accounts_inv db' \<and> gains_at_most X db1 db' \<and> named_role_perms db' d = named_role_perms db1 d"
      by blast
    then show ?thesis using step gains_at_most_trans named_role_perms_save_user [OF s(1)] by metis
  qed
qed

lemma delete_role_step:
  assumes "delete_role d name cx db = Inr (x, db', ev)" and inv: "accounts_inv db"
  shows "step_ok d actor db db'"
proof -
  from assms(1) obtain r0 returned where o: "get_role_by_name name db = Some r0" "ensure_may_be_changed r0 = Inr ()"
      "(if \<not> rl_is_system r0 then require_administrator_survives_without db r0 else Inr ()) = Inr ()"
      "put_the_bare_ones_back d (ids_with_role (rl_id r0) db) (delete_role_row (rl_id r0) db) = Inr (returned, db')"
    unfolding delete_role_def service_delete_role_def Let_def
    by (auto simp: result_simps split: option.splits)
  from o(1) obtain q where q: "q \<in> set (db_roles db)" "r0 = role_to_domain db q" by (rule get_role_by_name_Some)
  from o(2,3) have "require_administrator_survives_without db r0 = Inr ()"
    by (auto simp: ensure_may_be_changed_def split: if_split_asm)
  from survives_other [OF this [unfolded q(2)] inv q(1)]
  have del: "accounts_inv (delete_role_row (rr_id q) db) \<and> gains_at_most {} db (delete_role_row (rr_id q) db)
      \<and> named_role_perms (delete_role_row (rr_id q) db) d \<subseteq> named_role_perms db d"
    by (rule delete_role_row_step [OF inv])
  let ?db1 = "delete_role_row (rr_id q) db" and ?A = "allowance d actor db"
  have "accounts_inv db' \<and> gains_at_most ?A ?db1 db' \<and> named_role_perms db' d = named_role_perms ?db1 d"
  proof (cases "db' = ?db1")
    case True
    with del show ?thesis by (simp add: gains_at_most_def)
  next
    case False
    with o(4) q(2) obtain f where f: "get_role_by_name d ?db1 = Some f" "put_back_from f (ids_with_role (rr_id q) db) ?db1 = Inr (returned, db')"
      by (auto simp: put_the_bare_ones_back_def split: if_split_asm option.splits)
    from f(1) obtain m where m: "m \<in> set (db_roles ?db1)" "rr_name m = d" "f = role_to_domain ?db1 m" by (rule get_role_by_name_Some)
    have "pm_name ` set (rl_permissions f) \<subseteq> named_role_perms ?db1 d"
      unfolding m(3) set_role_perms using m(1,2) by (auto simp: named_role_perms_def)
    then have "pm_name ` set (rl_permissions f) \<subseteq> ?A" using del by (auto simp: allowance_def)
    with put_back_from_step [OF f(2)] del m show ?thesis by blast
  qed
  then show ?thesis using del gains_at_most_trans [of ?A db ?db1 db'] gains_at_most_mono [of "{}" db ?db1 ?A]
    by (auto simp: step_ok_def)
qed

section \<open>Runs of administration\<close>

text \<open>
  One administrative request that succeeds, by the actor the context names. The names of
  new accounts and roles are those \<^verbatim>\<open>uuid4\<close> draws, which are new.
\<close>

inductive admin_step :: "'c cache_ops \<Rightarrow> string \<Rightarrow> ident option \<Rightarrow> database \<Rightarrow> database \<Rightarrow> bool"
  for ops :: "'c cache_ops" and d :: string where
  create_user: "create_user hashpw d now i email pw cx names act db = Inr (u, db', ev) \<Longrightarrow>
     i \<notin> set (map ur_id (db_users db)) \<Longrightarrow> admin_step ops d (cx_current_user cx) db db'"
| update_user_roles: "update_user_roles i names cx db = Inr (u, db', ev) \<Longrightarrow> admin_step ops d (cx_current_user cx) db db'"
| activate_user: "activate_user i cx db = Inr (u, db', ev) \<Longrightarrow> admin_step ops d (cx_current_user cx) db db'"
| deactivate_user: "deactivate_user now i cx db = Inr (u, db', ev) \<Longrightarrow> admin_step ops d (cx_current_user cx) db db'"
| confirm_user_email: "confirm_user_email now i cx db = Inr (u, db', ev) \<Longrightarrow> admin_step ops d (cx_current_user cx) db db'"
| delete_user: "delete_user ops i cx db c = Inr (b, db', c', ev) \<Longrightarrow> admin_step ops d (cx_current_user cx) db db'"
| create_role: "create_role i name descr names cx db = Inr (r, db', ev) \<Longrightarrow>
     i \<notin> set (map rr_id (db_roles db)) \<Longrightarrow> admin_step ops d (cx_current_user cx) db db'"
| update_role_permissions:
    "update_role_permissions name names cx db = Inr (r, db', ev) \<Longrightarrow> admin_step ops d (cx_current_user cx) db db'"
| delete_role: "delete_role d name cx db = Inr (x, db', ev) \<Longrightarrow> admin_step ops d (cx_current_user cx) db db'"

lemmas admin_steps =
  create_user_step update_user_roles_step activate_user_step deactivate_user_step confirm_user_email_step
  delete_user_step create_role_step update_role_permissions_step delete_role_step

lemma admin_step_ok: "admin_step ops d actor db db' \<Longrightarrow> accounts_inv db \<Longrightarrow> step_ok d actor db db'"
  by (induction rule: admin_step.induct) (auto intro: admin_steps)

text \<open>A run of requests, with the actors that made them.\<close>

inductive admin_run :: "'c cache_ops \<Rightarrow> string \<Rightarrow> ident option set \<Rightarrow> database \<Rightarrow> database \<Rightarrow> bool"
  for ops :: "'c cache_ops" and d :: string and actors :: "ident option set" where
  start: "admin_run ops d actors db db"
| more: "admin_run ops d actors db db' \<Longrightarrow> actor \<in> actors \<Longrightarrow> admin_step ops d actor db' db'' \<Longrightarrow> admin_run ops d actors db db''"

lemma admin_run_inv: "admin_run ops d actors db db' \<Longrightarrow> accounts_inv db \<Longrightarrow> accounts_inv db'"
  by (induction rule: admin_run.induct) (auto dest: admin_step_ok simp: step_ok_def)

section \<open>Properties\<close>

text \<open>
  C2. Whatever administrators do, in whatever order, the system keeps an active account
  with \<^verbatim>\<open>admin:all\<close>, no account wears the guest role, and the constraints of the account
  tables hold: identifiers, addresses and role names stay unique, and every role an
  account refers to exists.
\<close>

theorem administrators_never_run_out:
  assumes "admin_run ops d actors db db'" and "accounts_wf db" and "admin_exists db" and "guest_unworn db"
  shows "admin_exists db' \<and> guest_unworn db' \<and> accounts_wf db'"
  using admin_run_inv [OF assms(1)] assms(2-4) by (simp add: accounts_inv_def)


section \<open>The properties on the small installation\<close>

lemma sample_db_inv: "accounts_wf sample_db" "admin_exists sample_db" "guest_unworn sample_db"
  by code_simp+

lemma sample_held:
  "held sample_db ''ann'' = {''link:create'', ''admin:manage_users''}"
  "named_role_perms sample_db ''user'' = {''link:create''}"
  by code_simp+

lemma sample_step:
  obtains u db' ev where "update_user_roles ''bob'' [''manager''] (sample_cx ''ann'') sample_db = Inr (u, db', ev)"
proof -
  have "(case update_user_roles ''bob'' [''manager''] (sample_cx ''ann'') sample_db of Inr _ \<Rightarrow> True | Inl _ \<Rightarrow> False)"
    by code_simp
  then show thesis using that by (auto split: sum.splits)
qed

lemma sample_run:
  obtains db' where "admin_run null_ops ''user'' {Some ''ann''} sample_db db'"
proof -
  obtain u db' ev where "update_user_roles ''bob'' [''manager''] (sample_cx ''ann'') sample_db = Inr (u, db', ev)"
    by (rule sample_step)
  then have "admin_step null_ops ''user'' (cx_current_user (sample_cx ''ann'')) sample_db db'"
    by (rule admin_step.update_user_roles)
  then have "admin_step null_ops ''user'' (Some ''ann'') sample_db db'" by (simp add: sample_cx_def)
  then show thesis using that admin_run.more [OF admin_run.start] by blast
qed

theorem administrators_never_run_out_witness:
  "\<exists>db'. admin_run null_ops ''user'' {Some ''ann''} sample_db db' \<and> admin_exists db' \<and> guest_unworn db'"
proof -
  obtain db' where r: "admin_run null_ops ''user'' {Some ''ann''} sample_db db'" by (rule sample_run)
  with administrators_never_run_out [OF r sample_db_inv] show ?thesis by blast
qed


text \<open>Two requests of the only administrator of the small installation.\<close>

definition handed_over :: "database \<Rightarrow> (exn, database) result" where
  "handed_over db =
     rbind (update_user_roles ''bob'' [''admin''] (sample_cx ''root'') db) (\<lambda>(u, db1, ev).
     rbind (update_user_roles ''root'' [''user''] (sample_cx ''root'') db1) (\<lambda>(u, db2, ev). Inr db2))"

text \<open>
  The sweep of unconfirmed registrations is not a request of an administrator and is not
  covered by the guard. The guard counts an account that was never confirmed, although
  nobody can sign in to it, and the sweep deletes it: after the only administrator gave
  the role to such an account and laid it down, which the guard allows, the sweep leaves
  the system without one.
\<close>

lemma sweep_can_remove_the_last_administrator:
  "accounts_wf sample_db \<and> admin_exists sample_db \<and>
   (\<exists>db. handed_over sample_db = Inr db \<and> admin_exists db \<and>
      \<not> admin_exists (fst (snd (clean_unverified_accounts 24 (2 * day) db))))"
proof -
  have "(case handed_over sample_db of Inl _ \<Rightarrow> False
      | Inr db \<Rightarrow> admin_exists db \<and> \<not> admin_exists (fst (snd (clean_unverified_accounts 24 (2 * day) db))))"
    by code_simp
  then show ?thesis using sample_db_inv by (auto split: sum.splits)
qed

end
