(* ===== verification/Sha256.thy ===== *)
theory Sha256
  imports Prelude "HOL-Library.Word"
begin

text \<open>
  What the sources use of \<^verbatim>\<open>hashlib\<close> and \<^verbatim>\<open>base64\<close>: the SHA-256 digest of a string's UTF-8
  bytes (FIPS 180-4, on 32-bit words), its hexadecimal form, and the URL-safe base-64
  encoding. A byte is an \<^typ>\<open>int\<close> from 0 to 255. The lemmas give the lengths and the alphabets,
  which is what the callers depend on.
\<close>

unbundle bit_operations_syntax

type_synonym bytes = "int list"

definition utf8_char :: "char \<Rightarrow> bytes" where
  "utf8_char c = (if is_ascii_char c then [int (code c)]
      else [192 + int (code c) div 64, 128 + int (code c) mod 64])"

definition utf8_encode :: "string \<Rightarrow> bytes" where
  "utf8_encode s = concat (map utf8_char s)"

section \<open>SHA-256\<close>

type_synonym w32 = "32 word"

definition rotr :: "nat \<Rightarrow> w32 \<Rightarrow> w32" where
  "rotr n x = drop_bit n x OR push_bit (32 - n) x"

text \<open>
  The constants of the standard are the first 32 bits of the fractional parts of the cube
  roots of the first 64 primes, and of the square roots of the first 8. They are computed:
  the root of \<open>p\<close> scaled by \<open>2 ^ 32\<close>, bit by bit, cut to a word.
\<close>

fun root_bits :: "nat \<Rightarrow> int \<Rightarrow> nat \<Rightarrow> int \<Rightarrow> int" where
  "root_bits k n 0 r = r"
| "root_bits k n (Suc b) r = root_bits k n b (if (r + 2 ^ b) ^ k \<le> n then r + 2 ^ b else r)"

definition root_fraction :: "nat \<Rightarrow> int \<Rightarrow> w32" where
  "root_fraction k p = word_of_int (root_bits k (p * 2 ^ (32 * k)) 40 0)"

definition first_primes :: "int list" where
  "first_primes = filter (\<lambda>n. list_all (\<lambda>d. n mod d \<noteq> 0) [2..n - 1]) [2..311]"

definition round_constants :: "w32 list" where
  "round_constants = map (root_fraction 3) first_primes"

datatype sha_state = Sha w32 w32 w32 w32 w32 w32 w32 w32

definition initial_state :: sha_state where
  "initial_state =
     (let h = map (root_fraction 2) first_primes
      in Sha (h ! 0) (h ! 1) (h ! 2) (h ! 3) (h ! 4) (h ! 5) (h ! 6) (h ! 7))"

text \<open>Padding: one bit, zeros to 56 bytes modulo 64, the length in bits in eight bytes.\<close>

fun be_bytes :: "nat \<Rightarrow> int \<Rightarrow> bytes" where
  "be_bytes 0 n = []"
| "be_bytes (Suc k) n = be_bytes k (n div 256) @ [n mod 256]"

definition pad :: "bytes \<Rightarrow> bytes" where
  "pad m = m @ [128] @ replicate ((119 - length m mod 64) mod 64) 0 @ be_bytes 8 (8 * int (length m))"

fun words_of :: "bytes \<Rightarrow> w32 list" where
  "words_of (a # b # c # d # rest) =
     word_of_int (((a * 256 + b) * 256 + c) * 256 + d) # words_of rest"
| "words_of _ = []"

text \<open>The message schedule, newest word first.\<close>

definition next_word :: "w32 list \<Rightarrow> w32" where
  "next_word ws =
     (let w2 = ws ! 1; w15 = ws ! 14
      in (rotr 17 w2 XOR rotr 19 w2 XOR drop_bit 10 w2) + ws ! 6
         + (rotr 7 w15 XOR rotr 18 w15 XOR drop_bit 3 w15) + ws ! 15)"

fun extend :: "nat \<Rightarrow> w32 list \<Rightarrow> w32 list" where
  "extend 0 ws = ws"
| "extend (Suc k) ws = extend k (next_word ws # ws)"

fun sha_round :: "w32 \<times> w32 \<Rightarrow> sha_state \<Rightarrow> sha_state" where
  "sha_round (k, w) (Sha a b c d e f g h) =
     (let t1 = h + (rotr 6 e XOR rotr 11 e XOR rotr 25 e) + ((e AND f) XOR (NOT e AND g)) + k + w;
          t2 = (rotr 2 a XOR rotr 13 a XOR rotr 22 a) + ((a AND b) XOR (a AND c) XOR (b AND c))
      in Sha (t1 + t2) a b c (d + t1) e f g)"

fun add_state :: "sha_state \<Rightarrow> sha_state \<Rightarrow> sha_state" where
  "add_state (Sha a b c d e f g h) (Sha a' b' c' d' e' f' g' h') =
     Sha (a + a') (b + b') (c + c') (d + d') (e + e') (f + f') (g + g') (h + h')"

definition compress :: "w32 list \<Rightarrow> sha_state \<Rightarrow> sha_state" where
  "compress block st = add_state st (fold sha_round (zip round_constants (rev (extend 48 (rev block)))) st)"

fun blocks :: "w32 list \<Rightarrow> sha_state \<Rightarrow> sha_state" where
  "blocks ws st = (if length ws < 16 then st else blocks (drop 16 ws) (compress (take 16 ws) st))"

declare blocks.simps [simp del]

fun state_words :: "sha_state \<Rightarrow> w32 list" where
  "state_words (Sha a b c d e f g h) = [a, b, c, d, e, f, g, h]"

definition sha256 :: "bytes \<Rightarrow> bytes" where
  "sha256 m = concat (map (\<lambda>w. be_bytes 4 (uint w)) (state_words (blocks (words_of (pad m)) initial_state)))"

section \<open>Encodings\<close>

definition hex_nibble :: "int \<Rightarrow> char" where
  "hex_nibble n = char_of (nat (if n < 10 then 48 + n else 87 + n))"

definition hexdigest :: "bytes \<Rightarrow> string" where
  "hexdigest bs = concat (map (\<lambda>b. [hex_nibble (b div 16), hex_nibble (b mod 16)]) bs)"

definition b64_char :: "int \<Rightarrow> char" where
  "b64_char n =
     (if n < 26 then char_of (nat (65 + n)) else if n < 52 then char_of (nat (71 + n))
      else if n < 62 then char_of (nat (n - 4)) else if n = 62 then CHR ''-'' else CHR ''_'')"

fun urlsafe_b64encode :: "bytes \<Rightarrow> string" where
  "urlsafe_b64encode [] = []"
| "urlsafe_b64encode [a] = [b64_char (a div 4), b64_char (a mod 4 * 16), CHR ''='', CHR ''='']"
| "urlsafe_b64encode [a, b] =
     [b64_char (a div 4), b64_char (a mod 4 * 16 + b div 16), b64_char (b mod 16 * 4), CHR ''='']"
| "urlsafe_b64encode (a # b # c # rest) =
     [b64_char (a div 4), b64_char (a mod 4 * 16 + b div 16), b64_char (b mod 16 * 4 + c div 64),
      b64_char (c mod 64)] @ urlsafe_b64encode rest"

section \<open>Lemmas: lengths and alphabets\<close>

lemma length_be_bytes [simp]: "length (be_bytes k n) = k"
  by (induction k n rule: be_bytes.induct) simp_all

lemma be_bytes_byte: "b \<in> set (be_bytes k n) \<Longrightarrow> 0 \<le> b \<and> b < 256"
  by (induction k n rule: be_bytes.induct) auto

lemma length_state_words [simp]: "length (state_words st) = 8"
  by (cases st) simp

lemma length_sha256 [simp]: "length (sha256 m) = 32"
  by (simp add: sha256_def length_concat o_def sum_list_triv)

lemma sha256_byte: "b \<in> set (sha256 m) \<Longrightarrow> 0 \<le> b \<and> b < 256"
  by (auto simp: sha256_def dest: be_bytes_byte)

lemma length_hexdigest [simp]: "length (hexdigest bs) = 2 * length bs"
  by (induction bs) (simp_all add: hexdigest_def)

lemma hex_nibble_lower_hex: "0 \<le> n \<Longrightarrow> n < 16 \<Longrightarrow> is_lower_hex (hex_nibble n)"
  by (auto simp: hex_nibble_def is_lower_hex_def is_digit_def char_range_def) (simp_all add: code_def)

lemma hexdigest_lower_hex: "\<forall>b \<in> set bs. 0 \<le> b \<and> b < 256 \<Longrightarrow> list_all is_lower_hex (hexdigest bs)"
  by (induction bs) (auto simp: hexdigest_def hex_nibble_lower_hex)

end
