(* ===== verification/Code_Policies.thy ===== *)
theory Code_Policies
  imports Original_Url Sha256
begin

text \<open>
  Where short codes and URL hashes come from: the port \<^verbatim>\<open>CodeGenerator\<close>
  (\<^verbatim>\<open>domain/policies/code_generator.py\<close>) with the three ways a use case asks it for a code,
  the provider \<^verbatim>\<open>Base64UrlCodeGenerator\<close> and the provider \<^verbatim>\<open>SHA256HashCalculator\<close>
  (\<^verbatim>\<open>infrastructure/policies\<close>). The locale \<open>code_generator\<close> is the promise of the port, that
  every code it returns is a valid one; the locale \<open>base64_settings\<close> collects what makes a
  generator's settings sound and implies it. What \<^verbatim>\<open>uuid4\<close> draws is an argument.
\<close>

section \<open>The port\<close>

definition generate_for_url ::
  "(string \<Rightarrow> (exn, short_code) result) \<Rightarrow> (string \<Rightarrow> string + string) \<Rightarrow> string \<Rightarrow> (exn, short_code) result" where
  "generate_for_url generate idna_encode url = rbind (normalize idna_encode url) generate"

definition generate_unique ::
  "(string \<Rightarrow> (exn, short_code) result) \<Rightarrow> (string \<Rightarrow> string + string) \<Rightarrow> string \<Rightarrow> nat
   \<Rightarrow> (exn, short_code) result" where
  "generate_unique generate idna_encode url attempt =
     rbind (normalize idna_encode url) (\<lambda>base.
       if attempt = 0 then generate base
       else generate (base @ ''#collision_'' @ str_of_nat attempt))"

definition generate_fresh ::
  "(string \<Rightarrow> (exn, short_code) result) \<Rightarrow> (string \<Rightarrow> string + string) \<Rightarrow> string \<Rightarrow> string
   \<Rightarrow> (exn, short_code) result" where
  "generate_fresh generate idna_encode url uuid_hex =
     rbind (normalize idna_encode url) (\<lambda>base. generate (base @ ''#fresh_'' @ uuid_hex))"

section \<open>The base-64 generator\<close>

record generator_settings =
  gs_code_length :: int
  gs_min_length :: int
  gs_max_length :: int
  gs_pepper :: string

definition Base64UrlCodeGenerator :: "int \<Rightarrow> int \<Rightarrow> int \<Rightarrow> string \<Rightarrow> (exn, generator_settings) result" where
  "Base64UrlCodeGenerator code_length min_len max_len pepper =
     (if \<not> (min_len \<le> code_length \<and> code_length \<le> max_len)
      then Inl (ValueError (''code_length must be between '' @ str_of_int min_len @ '' and '' @ str_of_int max_len))
      else Inr \<lparr>gs_code_length = code_length, gs_min_length = min_len, gs_max_length = max_len,
                gs_pepper = pepper\<rparr>)"

definition need_bytes :: "generator_settings \<Rightarrow> int" where
  "need_bytes g = (max (gs_code_length g) (gs_min_length g) * 6 + 7) div 8"

definition b64_generate :: "generator_settings \<Rightarrow> string \<Rightarrow> (exn, short_code) result" where
  "b64_generate g input_str =
     (let salted = input_str @ gs_pepper g;
          hash_bytes = take (nat (need_bytes g)) (sha256 (utf8_encode salted));
          b64_encoded = urlsafe_b64encode hash_bytes
      in ShortCode (take (nat (gs_code_length g)) (rstrip_char (CHR ''='') b64_encoded)))"

section \<open>The hash calculator\<close>

definition calculate :: "(string \<Rightarrow> string + string) \<Rightarrow> string \<Rightarrow> (exn, url_hash) result" where
  "calculate idna_encode original_url =
     rbind (normalize idna_encode original_url) (\<lambda>normalized. UrlHash (hexdigest (sha256 (utf8_encode normalized))))"

section \<open>What the port promises\<close>

locale code_generator =
  fixes generate :: "string \<Rightarrow> (exn, short_code) result"
  assumes generate_valid: "\<exists>c. generate s = Inr c \<and> CODE_PATTERN c"
begin

lemma generate_unique_valid:
  "normalize idna_encode url = Inr base \<Longrightarrow>
     \<exists>c. generate_unique generate idna_encode url attempt = Inr c \<and> CODE_PATTERN c"
  using generate_valid by (simp add: generate_unique_def)

lemma generate_fresh_valid:
  "normalize idna_encode url = Inr base \<Longrightarrow>
     \<exists>c. generate_fresh generate idna_encode url u = Inr c \<and> CODE_PATTERN c"
  using generate_valid by (simp add: generate_fresh_def)

end

locale base64_settings =
  fixes g :: generator_settings
  assumes at_least: "int MIN_LENGTH \<le> gs_code_length g"
    and at_most: "gs_code_length g \<le> int MAX_LENGTH"
    and min_length: "gs_min_length g \<le> gs_code_length g"

definition default_generator :: generator_settings where
  "default_generator = \<lparr>gs_code_length = 7, gs_min_length = 6, gs_max_length = 10, gs_pepper = ''pepper''\<rparr>"

section \<open>Lemmas: base 64\<close>

lemma b64_char_code: "0 \<le> n \<Longrightarrow> n < 64 \<Longrightarrow> code_char (b64_char n)"
  by (auto simp: b64_char_def code_char_def is_alnum_def is_alpha_def is_digit_def char_range_def)
     (simp_all add: code_def)

text \<open>Without its padding, the encoding of \<open>n\<close> bytes is as many characters as it takes six-bit groups.\<close>

lemma rstrip_code_chars: "list_all code_char s \<Longrightarrow> rstrip_char (CHR ''='') (s @ replicate k (CHR ''='')) = s"
proof -
  assume s: "list_all code_char s"
  have "\<not> code_char (CHR ''='')" by code_simp
  then have "dropWhile (\<lambda>d. d = CHR ''='') (rev s) = rev s"
    using s by (cases s rule: rev_cases) auto
  moreover have "dropWhile (\<lambda>d. d = CHR ''='') (replicate k (CHR ''='') @ rev s) = dropWhile (\<lambda>d. d = CHR ''='') (rev s)"
    by (induction k) simp_all
  ultimately show ?thesis by (simp add: rstrip_char_def)
qed

lemma b64_shape:
  "\<forall>b \<in> set bs. 0 \<le> b \<and> b < 256 \<Longrightarrow>
     \<exists>s k. urlsafe_b64encode bs = s @ replicate k (CHR ''='') \<and> list_all code_char s
        \<and> length s = (8 * length bs + 5) div 6"
proof (induction bs rule: urlsafe_b64encode.induct)
  case 1
  then show ?case by simp
next
  case (2 a)
  then show ?case
    by (intro exI [of _ "[b64_char (a div 4), b64_char (a mod 4 * 16)]"] exI [of _ "Suc (Suc 0)"])
       (auto intro!: b64_char_code)
next
  case (3 a b)
  then show ?case
    by (intro exI [of _ "[b64_char (a div 4), b64_char (a mod 4 * 16 + b div 16), b64_char (b mod 16 * 4)]"] exI [of _ 1])
       (auto intro!: b64_char_code)
next
  case (4 a b c rest)
  then obtain s k where s: "urlsafe_b64encode rest = s @ replicate k (CHR ''='')" "list_all code_char s"
    "length s = (8 * length rest + 5) div 6" by auto
  then show ?case using 4(2)
    by (intro exI [of _ "[b64_char (a div 4), b64_char (a mod 4 * 16 + b div 16), b64_char (b mod 16 * 4 + c div 64),
        b64_char (c mod 64)] @ s"] exI [of _ k]) (auto intro!: b64_char_code)
qed


section \<open>The provider keeps the promise\<close>

context base64_settings
begin

lemma need_bytes_bounds: "6 * gs_code_length g \<le> 8 * need_bytes g" "need_bytes g \<le> 8" "0 \<le> need_bytes g"
  using at_least at_most min_length by (auto simp: need_bytes_def MIN_LENGTH_def MAX_LENGTH_def max_def)

lemma b64_generate_length:
  "\<exists>c. b64_generate g s = Inr c \<and> CODE_PATTERN c \<and> int (length c) = gs_code_length g"
proof -
  let ?bs = "take (nat (need_bytes g)) (sha256 (utf8_encode (s @ gs_pepper g)))"
  have len: "length ?bs = nat (need_bytes g)" using need_bytes_bounds(2) by simp
  have "\<forall>b \<in> set ?bs. 0 \<le> b \<and> b < 256" using sha256_byte by (blast dest: in_set_takeD)
  then obtain t k where t: "urlsafe_b64encode ?bs = t @ replicate k (CHR ''='')" "list_all code_char t"
    "length t = (8 * length ?bs + 5) div 6" using b64_shape by blast
  have "gs_code_length g \<le> int (length t)" using need_bytes_bounds(1,3) t(3) len by simp
  then have l: "int (length (take (nat (gs_code_length g)) t)) = gs_code_length g"
    using at_least by simp
  moreover have "list_all code_char (take (nat (gs_code_length g)) t)"
    using t(2) by (auto simp: list_all_iff dest: in_set_takeD)
  ultimately have "CODE_PATTERN (take (nat (gs_code_length g)) t)"
    using at_least at_most unfolding CODE_PATTERN_def by linarith
  then show ?thesis using l rstrip_code_chars [OF t(2), of k] t(1) by (simp add: b64_generate_def Let_def)
qed

end

sublocale base64_settings \<subseteq> code_generator "b64_generate g"
  by unfold_locales (use b64_generate_length in blast)

interpretation default_gen: base64_settings default_generator
  by unfold_locales (simp_all add: default_generator_def MIN_LENGTH_def MAX_LENGTH_def)

lemma calculate_valid:
  "normalize idna_encode url = Inr base \<Longrightarrow> \<exists>h. calculate idna_encode url = Inr h \<and> HASH_PATTERN h"
  using hexdigest_lower_hex [of "sha256 (utf8_encode base)"] sha256_byte
  by (auto simp: calculate_def UrlHash_def HASH_PATTERN_def)

section \<open>Properties\<close>

text \<open>
  For every setting that the constructor accepts within the bounds of a short code, the
  generator answers every input with a code that the value object accepts and that has
  exactly the configured length: the bytes it takes of the digest are enough once the
  padding of the encoding is gone.
\<close>

lemma generated_code_is_valid:
  assumes "Base64UrlCodeGenerator code_length min_len max_len pepper = Inr g"
    and "6 \<le> min_len" and "max_len \<le> 10"
  shows "\<exists>c. b64_generate g s = Inr c \<and> ShortCode c = Inr c \<and> int (length c) = code_length"
proof -
  have g: "gs_code_length g = code_length" "gs_min_length g = min_len" "min_len \<le> code_length" "code_length \<le> max_len"
    using assms(1) by (auto simp: Base64UrlCodeGenerator_def split: if_splits)
  then have "base64_settings g"
    using assms(2,3) by unfold_locales (simp_all add: MIN_LENGTH_def MAX_LENGTH_def)
  then show ?thesis using base64_settings.b64_generate_length g(1) by fastforce
qed

end
