(* ===== verification/Link_Service.thy ===== *)
theory Link_Service
  imports Administration Code_Policies
begin

text \<open>
  The use cases on links (\<^verbatim>\<open>application/use_cases/links\<close> and
  \<^verbatim>\<open>application/use_cases/admin/links/clean_expired_links.py\<close>): creating a short link,
  following one, counting the visit, deleting, listing and sweeping.

  The state of the service is a record: the database, the cache behind the ports it is
  given, the audit journal and the queue of background tasks. A use case takes it and
  returns it with the answer or the exception, because what it did to the cache stays
  done when the transaction is rolled back. A request reads the clock once. What \<^verbatim>\<open>uuid4\<close>
  draws is an argument, and so are the two ports \<^verbatim>\<open>CodeGenerator\<close> and \<^verbatim>\<open>HashCalculator\<close>,
  which the configuration holds. Log lines are left out.
\<close>

section \<open>State and configuration\<close>

record 'c service =
  sv_db :: database
  sv_cache :: 'c
  sv_audit :: "audit_event list"
  sv_tasks :: "(short_code \<times> request_context) list"

record link_config =
  lc_idna :: "string \<Rightarrow> string + string"
  lc_generate :: "string \<Rightarrow> (exn, short_code) result"
  lc_hash :: "string \<Rightarrow> (exn, url_hash) result"
  lc_base_url :: string
  lc_allowed_schemes :: "string list"
  lc_max_url_length :: nat
  lc_allow_internal_targets :: bool
  lc_guest_link_limit :: int
  lc_guest_link_window_days :: int
  lc_default_guest_ttl_seconds :: int
  lc_max_ttl_seconds :: int
  lc_max_collision_attempts :: nat

definition url_rules_of :: "link_config \<Rightarrow> url_rules" where
  "url_rules_of cfg =
     \<lparr>allowed_schemes = lc_allowed_schemes cfg, max_length = lc_max_url_length cfg,
      allow_internal_targets = lc_allow_internal_targets cfg, trusted = False\<rparr>"

type_synonym ('c, 'a) use_case = "'c service \<Rightarrow> (exn, 'a) result \<times> 'c service"

abbreviation links_in :: "'c service \<Rightarrow> link_table" where
  "links_in st \<equiv> db_links (sv_db st)"

definition on_cache :: "('c \<Rightarrow> 'c) \<Rightarrow> 'c service \<Rightarrow> 'c service" where
  "on_cache f st = st\<lparr>sv_cache := f (sv_cache st)\<rparr>"

definition on_db :: "(database \<Rightarrow> database) \<Rightarrow> 'c service \<Rightarrow> 'c service" where
  "on_db f st = st\<lparr>sv_db := f (sv_db st)\<rparr>"

definition tell_audit :: "audit_event list \<Rightarrow> 'c service \<Rightarrow> 'c service" where
  "tell_audit evs st = st\<lparr>sv_audit := sv_audit st @ evs\<rparr>"

section \<open>Answers\<close>

record short_link_response =
  sr_short_code :: string
  sr_short_url :: string
  sr_original_url :: string
  sr_clicks :: int
  sr_created_at :: moment
  sr_last_accessed :: "moment option"
  sr_expires_at :: "moment option"
  sr_is_new :: bool
  sr_from_cache :: bool
  sr_owner_id :: "string option"
  sr_link_id :: ident

definition response_from_link :: "string \<Rightarrow> bool \<Rightarrow> bool \<Rightarrow> link \<Rightarrow> (exn, short_link_response) result" where
  "response_from_link base_url is_new from_cache l =
     rbind (build_short_url base_url (lk_code l)) (\<lambda>short_url. Inr
       \<lparr>sr_short_code = lk_code l, sr_short_url = short_url, sr_original_url = lk_url l, sr_clicks = lk_clicks l,
        sr_created_at = lk_created l, sr_last_accessed = lk_accessed l, sr_expires_at = lk_expires l,
        sr_is_new = is_new, sr_from_cache = from_cache, sr_owner_id = lk_owner l, sr_link_id = lk_id l\<rparr>)"

definition code_to_look_up :: "string \<Rightarrow> (exn, short_code) result" where
  "code_to_look_up s = (case ShortCode s of Inr c \<Rightarrow> Inr c | Inl _ \<Rightarrow> Inl (Domain (LinkNotFoundError (Some s))))"

section \<open>Creating a short link\<close>

definition read_custom_code :: "string option \<Rightarrow> (exn, short_code option) result" where
  "read_custom_code custom_code =
     (case custom_code of None \<Rightarrow> Inr None | Some [] \<Rightarrow> Inr None
      | Some s \<Rightarrow> rbind (ShortCode s) (\<lambda>c.
          if is_reserved c then Inl (Domain (ValidationError
            (apos @ c @ apos @ '' is reserved by the service and cannot be used as a short code'') ''code''
            (Some (apos @ ''%(code)s'' @ apos @ '' is reserved by the service and cannot be used as a short code''))
            [(''code'', PStr c)]))
          else Inr (Some c)))"

definition validate_ttl :: "link_config \<Rightarrow> int \<Rightarrow> (exn, unit) result" where
  "validate_ttl cfg ttl_seconds =
     (if ttl_seconds < 0 then raise_validation ''ttl_seconds must not be negative'' ''ttl_seconds''
      else if ttl_seconds > lc_max_ttl_seconds cfg then Inl (Domain (ValidationError
        (''ttl_seconds must not exceed '' @ str_of_int (lc_max_ttl_seconds cfg)) ''ttl_seconds''
        (Some ''ttl_seconds must not exceed %(max)s'') [(''max'', PInt (lc_max_ttl_seconds cfg))]))
      else Inr ())"

definition confirm :: "moment \<Rightarrow> link \<Rightarrow> url_hash \<Rightarrow> dedup_scope \<Rightarrow> link_table \<Rightarrow> link option" where
  "confirm now cached_link h sc tbl =
     (case find_by_code (lk_code cached_link) tbl of
        None \<Rightarrow> None
      | Some stored \<Rightarrow>
          if lk_hash stored \<noteq> h then None
          else if link_scope stored \<noteq> sc then None
          else if is_expired now stored then None
          else Some stored)"

text \<open>
  The two loops of \<open>_generate_unique_code\<close>: first the codes derived from the URL, then codes
  derived from fresh draws. Both try \<open>max_collision_attempts\<close> times.
\<close>

fun try_codes :: "(nat \<Rightarrow> (exn, short_code) result) \<Rightarrow> link_table \<Rightarrow> nat list \<Rightarrow> (exn, short_code option) result" where
  "try_codes candidate tbl [] = Inr None"
| "try_codes candidate tbl (attempt # attempts) =
     rbind (candidate attempt) (\<lambda>c.
       if find_by_code c tbl = None then Inr (Some c) else try_codes candidate tbl attempts)"

definition generate_unique_code ::
  "link_config \<Rightarrow> (nat \<Rightarrow> string) \<Rightarrow> string \<Rightarrow> link_table \<Rightarrow> (exn, short_code) result" where
  "generate_unique_code cfg uuid_hex url tbl =
     rbind (try_codes (generate_unique (lc_generate cfg) (lc_idna cfg) url) tbl [0..<lc_max_collision_attempts cfg]) (\<lambda>found.
       case found of Some c \<Rightarrow> Inr c
       | None \<Rightarrow>
           rbind (try_codes (\<lambda>n. generate_fresh (lc_generate cfg) (lc_idna cfg) url (uuid_hex n)) tbl
                    [0..<lc_max_collision_attempts cfg]) (\<lambda>found.
             case found of Some c \<Rightarrow> Inr c
             | None \<Rightarrow> Inl (Domain (CodeGenerationError code_generation_default))))"

text \<open>What a request draws: the identifier of the new link and the fresh parts of codes.\<close>

record draws =
  dr_link_id :: ident
  dr_uuid_hex :: "nat \<Rightarrow> string"

text \<open>
  The part of \<open>_find_or_create\<close> that runs when there is no live link to reuse: the quota of
  a guest, the code, the new row. It is inside the transaction, so its exceptions leave
  the database as it was.
\<close>

definition prepare_link ::
  "link_config \<Rightarrow> moment \<Rightarrow> draws \<Rightarrow> string \<Rightarrow> url_hash \<Rightarrow> owner_id option \<Rightarrow> string option \<Rightarrow> int
   \<Rightarrow> short_code option \<Rightarrow> link_table \<Rightarrow> (exn, link) result" where
  "prepare_link cfg now dr url h owner guest_id ttl_seconds chosen_code tbl =
     rbind (case guest_id of None \<Rightarrow> Inr ()
            | Some g \<Rightarrow>
                if guest_allowance now g (lc_guest_link_limit cfg) (lc_guest_link_window_days cfg) tbl = 0
                then Inl (Domain (guest_quota_spent (lc_guest_link_limit cfg) (lc_guest_link_window_days cfg)))
                else Inr ()) (\<lambda>_.
     rbind (case chosen_code of
              Some c \<Rightarrow> if find_by_code c tbl \<noteq> None then Inl (Domain (LinkCodeTakenError c)) else Inr c
            | None \<Rightarrow> generate_unique_code cfg (dr_uuid_hex dr) url tbl) (\<lambda>short_code.
     link_create now (dr_link_id dr) h short_code url owner guest_id ttl_seconds))"

definition new_link ::
  "link_config \<Rightarrow> moment \<Rightarrow> draws \<Rightarrow> string \<Rightarrow> url_hash \<Rightarrow> owner_id option \<Rightarrow> string option \<Rightarrow> int
   \<Rightarrow> short_code option \<Rightarrow> database \<Rightarrow> (exn, link \<times> database) result" where
  "new_link cfg now dr url h owner guest_id ttl_seconds chosen_code db =
     rbind (prepare_link cfg now dr url h owner guest_id ttl_seconds chosen_code (db_links db)) (\<lambda>l.
     rbind (save_link (map ur_id (db_users db)) l (db_links db)) (\<lambda>(saved, tbl).
     Inr (saved, db\<lparr>db_links := tbl\<rparr>)))"

text \<open>
  The entry of the deduplication cache, confirmed against the store; an entry that the
  store does not confirm is dropped.
\<close>

definition cached_candidate ::
  "'c cache_ops \<Rightarrow> moment \<Rightarrow> url_hash \<Rightarrow> dedup_scope \<Rightarrow> 'c service \<Rightarrow> link option \<times> 'c service" where
  "cached_candidate ops now h sc st =
     (case co_get_by_hash ops now h sc (sv_cache st) of (cached_link, c1) \<Rightarrow>
      let st1 = st\<lparr>sv_cache := c1\<rparr>
      in case cached_link of
           None \<Rightarrow> (None, st1)
         | Some cl \<Rightarrow>
             (case confirm now cl h sc (links_in st1) of
                Some l \<Rightarrow> (Some l, st1)
              | None \<Rightarrow> (None, on_cache (\<lambda>c. snd (co_delete ops cl c)) st1)))"

definition find_or_create ::
  "'c cache_ops \<Rightarrow> link_config \<Rightarrow> moment \<Rightarrow> draws \<Rightarrow> string \<Rightarrow> url_hash \<Rightarrow> dedup_scope \<Rightarrow> owner_id option \<Rightarrow> string option
   \<Rightarrow> int \<Rightarrow> short_code option \<Rightarrow> ('c, short_link_response) use_case" where
  "find_or_create ops cfg now dr url h sc owner guest_id ttl_seconds chosen_code st =
     (case cached_candidate ops now h sc st of
        (Some l, st2) \<Rightarrow> (response_from_link (lc_base_url cfg) False True l, st2)
      | (None, st2) \<Rightarrow>
          (case find_live_by_hash now h sc (links_in st2) of
             Some l \<Rightarrow> (response_from_link (lc_base_url cfg) False False l, on_cache (co_save ops now l) st2)
           | None \<Rightarrow>
               (case new_link cfg now dr url h owner guest_id ttl_seconds chosen_code (sv_db st2) of
                  Inl e \<Rightarrow> (Inl e, st2)
                | Inr (l, db') \<Rightarrow>
                    (response_from_link (lc_base_url cfg) True False l,
                     tell_audit [UrlCreated (lk_code l) (lk_url l)]
                       (on_cache (\<lambda>c. co_delete_stats ops (co_save ops now l c)) (st2\<lparr>sv_db := db'\<rparr>))))))"

text \<open>The retry loop: a conflict with a link stored concurrently starts the attempt over.\<close>

definition is_link_conflict :: "exn \<Rightarrow> bool" where
  "is_link_conflict e = (case e of Domain d \<Rightarrow> err_class d = LinkConflictErrorC | _ \<Rightarrow> False)"

fun retry_conflicts ::
  "(nat \<Rightarrow> ('c, 'a) use_case) \<Rightarrow> exn \<Rightarrow> nat list \<Rightarrow> ('c, 'a) use_case" where
  "retry_conflicts attempt_once exhausted [] st = (Inl exhausted, st)"
| "retry_conflicts attempt_once exhausted (attempt # attempts) st =
     (case attempt_once attempt st of
        (Inl e, st1) \<Rightarrow> if is_link_conflict e then retry_conflicts attempt_once exhausted attempts st1 else (Inl e, st1)
      | (Inr x, st1) \<Rightarrow> (Inr x, st1))"

definition guest_ttl :: "link_config \<Rightarrow> string option \<Rightarrow> int \<Rightarrow> int" where
  "guest_ttl cfg guest_id ttl_seconds =
     (case guest_id of None \<Rightarrow> ttl_seconds
      | Some _ \<Rightarrow> if ttl_seconds = 0 then lc_default_guest_ttl_seconds cfg
                  else min ttl_seconds (lc_default_guest_ttl_seconds cfg))"

definition requester_scope :: "request_context \<Rightarrow> dedup_scope" where
  "requester_scope cx =
     (case cx_current_user cx of Some i \<Rightarrow> for_owner i | None \<Rightarrow> for_guest (cx_remote_addr cx))"

text \<open>Everything that is checked before the store is asked: lifetime, code, URL, hash, owner.\<close>

definition create_inputs ::
  "link_config \<Rightarrow> string \<Rightarrow> request_context \<Rightarrow> int \<Rightarrow> string option
   \<Rightarrow> (exn, string \<times> url_hash \<times> owner_id option \<times> short_code option) result" where
  "create_inputs cfg url cx ttl_seconds custom_code =
     rbind (validate_ttl cfg ttl_seconds) (\<lambda>_.
     rbind (read_custom_code custom_code) (\<lambda>chosen_code.
     rbind (OriginalUrl (lc_idna cfg) (url_rules_of cfg) url) (\<lambda>original_url.
     rbind (lc_hash cfg original_url) (\<lambda>url_hash.
     rbind (case cx_current_user cx of None \<Rightarrow> Inr None | Some i \<Rightarrow> rbind (OwnerID i) (\<lambda>o'. Inr (Some o'))) (\<lambda>owner.
     Inr (original_url, url_hash, owner, chosen_code))))))"

definition create_short_link ::
  "'c cache_ops \<Rightarrow> link_config \<Rightarrow> moment \<Rightarrow> (nat \<Rightarrow> draws) \<Rightarrow> string \<Rightarrow> request_context \<Rightarrow> int \<Rightarrow> string option
   \<Rightarrow> ('c, short_link_response) use_case" where
  "create_short_link ops cfg now drs url cx ttl_seconds custom_code st =
     (case create_inputs cfg url cx ttl_seconds custom_code of
        Inl e \<Rightarrow> (Inl e, st)
      | Inr (original_url, url_hash, owner, chosen_code) \<Rightarrow>
          (let guest_id = (if cx_current_user cx = None then cx_remote_addr cx else None)
           in retry_conflicts
                (\<lambda>attempt. find_or_create ops cfg now (drs attempt) original_url url_hash (requester_scope cx) owner guest_id
                   (guest_ttl cfg guest_id ttl_seconds) chosen_code)
                (Domain (CodeGenerationError
                   ''Failed to store a short link: every attempt lost a race with a concurrent creation''))
                [0..<lc_max_collision_attempts cfg] st))"

section \<open>Following a link\<close>

definition answer :: "short_code \<Rightarrow> string \<Rightarrow> request_context \<Rightarrow> ('c, string) use_case" where
  "answer c original_url cx st =
     (Inr original_url, tell_audit [UrlAccessed c original_url] (st\<lparr>sv_tasks := sv_tasks st @ [(c, cx)]\<rparr>))"

definition redirect_link :: "'c cache_ops \<Rightarrow> moment \<Rightarrow> string \<Rightarrow> request_context \<Rightarrow> ('c, string) use_case" where
  "redirect_link ops now short_code_str cx st =
     (case code_to_look_up short_code_str of
        Inl e \<Rightarrow> (Inl e, st)
      | Inr c \<Rightarrow>
          (case co_get_redirect ops now c (sv_cache st) of (cached_redirect, c1) \<Rightarrow>
           let st1 = st\<lparr>sv_cache := c1\<rparr>
           in case cached_redirect of
                Some q \<Rightarrow>
                  if redirect_is_expired now q then (Inl (Domain (LinkExpiredError c)), st1)
                  else answer c (cr_url q) cx st1
              | None \<Rightarrow>
                  (case co_get_by_code ops now c (sv_cache st1) of (cached_link, c2) \<Rightarrow>
                   let st2 = st1\<lparr>sv_cache := c2\<rparr>
                   in case cached_link of
                        Some l \<Rightarrow>
                          if is_expired now l then (Inl (Domain (LinkExpiredError c)), st2)
                          else answer c (lk_url l) cx (on_cache (co_save_redirect ops now c (lk_url l) (lk_expires l)) st2)
                      | None \<Rightarrow>
                          (case find_by_code c (links_in st2) of
                             None \<Rightarrow> (Inl (Domain (LinkNotFoundError (Some short_code_str))), st2)
                           | Some l \<Rightarrow>
                               if is_expired now l then (Inl (Domain (LinkExpiredError c)), st2)
                               else answer c (lk_url l) cx (on_cache (co_save ops now l) st2)))))"

section \<open>Counting a visit\<close>

definition update_link_stats ::
  "'c cache_ops \<Rightarrow> bool \<Rightarrow> moment \<Rightarrow> ident \<Rightarrow> string \<Rightarrow> request_context \<Rightarrow> 'c service \<Rightarrow> 'c service" where
  "update_link_stats ops record_visits now visit_id short_code_str cx st =
     (case ShortCode short_code_str of
        Inl _ \<Rightarrow> st
      | Inr c \<Rightarrow>
          (case repo_increment_clicks now c (links_in st) of
             Inl _ \<Rightarrow> on_cache (\<lambda>k. snd (co_delete_by_code ops c (co_delete_redirect ops c k))) st
           | Inr tbl \<Rightarrow>
               on_db (\<lambda>db. db\<lparr>db_links := tbl,
                 db_visits := (if record_visits
                   then (case find_by_code c tbl of None \<Rightarrow> db_visits db
                         | Some l \<Rightarrow> db_visits db @ [visit_record now visit_id (lk_id l) (cx_remote_addr cx) (cx_user_agent cx)])
                   else db_visits db)\<rparr>) st))"

section \<open>Deleting a link\<close>

definition require_may_delete :: "link \<Rightarrow> request_context \<Rightarrow> database \<Rightarrow> (exn, unit) result" where
  "require_may_delete l cx db =
     rbind (load_actor cx db) (\<lambda>requester.
       case requester of
         None \<Rightarrow> Inl (Domain (DomainError ''Authentication required'' ''UNAUTHENTICATED''))
       | Some u \<Rightarrow>
           (let required = (if lk_owner l = Some (us_id u) then LINK_DELETE_OWN else LINK_DELETE_ANY)
            in if \<not> is_allowed db (Some u) required
               then Inl (Domain (PermissionDeniedError ''You are not allowed to delete this link'' [required] [] None []))
               else Inr ()))"

definition drop_cached :: "'c cache_ops \<Rightarrow> short_code \<Rightarrow> link option \<Rightarrow> 'c \<Rightarrow> 'c" where
  "drop_cached ops code' l c =
     co_delete_stats ops (co_delete_redirect ops code'
       (case l of Some k \<Rightarrow> snd (co_delete ops k c) | None \<Rightarrow> snd (co_delete_by_code ops code' c)))"

definition delete_link ::
  "'c cache_ops \<Rightarrow> string \<Rightarrow> request_context \<Rightarrow> bool \<Rightarrow> ident option \<Rightarrow> ('c, bool) use_case" where
  "delete_link ops short_code_str cx enforce_ownership authorized_link_id st =
     (case code_to_look_up short_code_str of
        Inl _ \<Rightarrow> (Inr False, st)
      | Inr c \<Rightarrow>
          (case find_by_code c (links_in st) of
             None \<Rightarrow> (Inr False, on_cache (drop_cached ops c None) st)
           | Some l \<Rightarrow>
               (case (if enforce_ownership \<and> Some (lk_id l) \<noteq> authorized_link_id
                      then require_may_delete l cx (sv_db st) else Inr ()) of
                  Inl e \<Rightarrow> (Inl e, st)
                | Inr _ \<Rightarrow>
                    (case delete_link_row (lk_id l) (links_in st) of (deleted, tbl) \<Rightarrow>
                       if \<not> deleted then (Inr False, st)
                       else (Inr deleted,
                         tell_audit [UrlDeleted (lk_code l) (lk_url l)]
                           (on_cache (drop_cached ops c (Some l)) (on_db (remove_links ([l], tbl)) st)))))))"

section \<open>Reading and sweeping\<close>

definition get_link_info :: "link_config \<Rightarrow> moment \<Rightarrow> string \<Rightarrow> 'c service \<Rightarrow> (exn, short_link_response) result" where
  "get_link_info cfg now short_code_str st =
     rbind (code_to_look_up short_code_str) (\<lambda>c.
       case find_by_code c (links_in st) of
         None \<Rightarrow> Inl (Domain (LinkNotFoundError (Some short_code_str)))
       | Some l \<Rightarrow> if is_expired now l then Inl (Domain (LinkExpiredError c))
                   else response_from_link (lc_base_url cfg) False False l)"

fun responses_from_links :: "string \<Rightarrow> link list \<Rightarrow> (exn, short_link_response list) result" where
  "responses_from_links base_url [] = Inr []"
| "responses_from_links base_url (l # ls) =
     rbind (response_from_link base_url False False l) (\<lambda>r. rbind (responses_from_links base_url ls) (\<lambda>rs. Inr (r # rs)))"

definition get_user_links ::
  "link_config \<Rightarrow> string \<Rightarrow> nat \<Rightarrow> nat \<Rightarrow> 'c service \<Rightarrow> (exn, short_link_response list) result" where
  "get_user_links cfg user_id offset limit st =
     responses_from_links (lc_base_url cfg) (find_by_owner user_id offset (min limit 200) (links_in st))"

definition clean_expired_links :: "'c cache_ops \<Rightarrow> moment \<Rightarrow> 'c service \<Rightarrow> nat \<times> 'c service" where
  "clean_expired_links ops now st =
     (let deleted_links = fst (delete_expired now (links_in st));
          st1 = on_db (remove_links (delete_expired now (links_in st))) st;
          st2 = on_cache (fold (\<lambda>l c. snd (co_delete ops l c)) deleted_links) st1
      in (length deleted_links,
          if deleted_links = [] then st2
          else tell_audit [ExpiredLinksSwept (length deleted_links)] (on_cache (co_delete_stats ops) st2)))"

end
