(* ===== verification/Visit_Stats.thy ===== *)
theory Visit_Stats
  imports Day_Fold Link_Service
begin

text \<open>
  Visits and their statistics: \<^verbatim>\<open>SQLAlchemyLinkVisitRepository\<close>, the periods of the charts
  (\<^verbatim>\<open>application/utils/chart_spans.py\<close>), the statistics use case and the nightly roll-up. A
  query that groups rows returns its groups in the order in which they first occur; nothing
  below depends on that order.
\<close>

section \<open>Periods\<close>

definition seconds :: "int \<Rightarrow> int" where
  "seconds n = n * second"

definition PERIODS :: "(string \<times> int \<times> int) list" where
  "PERIODS = [(''24h'', (seconds (24 * 3600), 24)), (''7d'', (days 7, 7 * 4)), (''30d'', (days 30, 30)), (''90d'', (days 90, 90))]"

definition DEFAULT_PERIOD :: string where
  "DEFAULT_PERIOD = ''7d''"

definition span_of :: "moment \<Rightarrow> int \<Rightarrow> int \<Rightarrow> moment \<times> moment" where
  "span_of now span buckets =
     (if buckets < 1 \<or> span \<noteq> buckets * days 1 then (now - span, now)
      else let until = midnight_of now + days 1 in (until - days buckets, until))"

definition unknown_period :: "string \<Rightarrow> domain_error" where
  "unknown_period period =
     base_error DomainErrorC (''Unknown period '' @ apos @ period @ apos @ ''. Choose one of: '' @ join_with '', '' (map fst PERIODS))
       ''VALIDATION_ERROR'' (Some (''Unknown period '' @ apos @ ''%(period)s'' @ apos @ ''. Choose one of: %(choices)s''))
       [(''period'', PStr period), (''choices'', PStr (join_with '', '' (map fst PERIODS)))]"

section \<open>The repository of visits\<close>

record visit_bucket =
  vb_at :: moment
  vb_total :: int
  vb_bots :: int

record visit_breakdown =
  vk_label :: string
  vk_total :: int

record visit_summary =
  vs_since :: moment
  vs_until :: moment
  vs_total :: int
  vs_bots :: int
  vs_buckets :: "visit_bucket list"
  vs_devices :: "visit_breakdown list"
  vs_browsers :: "visit_breakdown list"
  vs_top_links :: "visit_breakdown list"

definition record_visit :: "link_visit \<Rightarrow> database \<Rightarrow> database" where
  "record_visit v db = db\<lparr>db_visits := db_visits db @ [v]\<rparr>"

text \<open>The restriction of a query to one link, or to the links of one account.\<close>

definition owned_by :: "database \<Rightarrow> ident \<Rightarrow> ident \<Rightarrow> bool" where
  "owned_by db owner_id link_id \<longleftrightarrow> list_ex (\<lambda>l. lk_id l = link_id \<and> lk_owner l = Some owner_id) (db_links db)"

definition scoped :: "database \<Rightarrow> ident option \<Rightarrow> ident option \<Rightarrow> ident \<Rightarrow> bool" where
  "scoped db link_id owner_id k \<longleftrightarrow>
     (case link_id of None \<Rightarrow> True | Some i \<Rightarrow> k = i) \<and> (case owner_id of None \<Rightarrow> True | Some i \<Rightarrow> owned_by db i k)"

definition visits_between :: "database \<Rightarrow> moment \<Rightarrow> moment \<Rightarrow> ident option \<Rightarrow> ident option \<Rightarrow> link_visit list" where
  "visits_between db since until link_id owner_id =
     filter (\<lambda>v. since \<le> lv_occurred_at v \<and> lv_occurred_at v < until \<and> scoped db link_id owner_id (lv_link_id v)) (db_visits db)"

definition bots :: "link_visit list \<Rightarrow> int" where
  "bots vs = sum_list (map (\<lambda>v. if lv_is_bot v then 1 else 0) vs)"

definition bucket_counts ::
  "database \<Rightarrow> moment \<Rightarrow> moment \<Rightarrow> int \<Rightarrow> ident option \<Rightarrow> ident option \<Rightarrow> (int \<times> int \<times> int) list" where
  "bucket_counts db since until width link_id owner_id =
     map (\<lambda>(index, vs). (index, (int (length vs), bots vs)))
       (group_by (\<lambda>v. (epoch_seconds (lv_occurred_at v) - epoch_seconds since) div width)
          (visits_between db since until link_id owner_id))"

definition clamped :: "(int \<times> int \<times> int) list \<Rightarrow> int \<Rightarrow> (int \<times> int \<times> int) list" where
  "clamped counted buckets =
     fold (\<lambda>(index, total, bots) folded.
       let slot = min (max index 0) (buckets - 1);
           seen = (case map_of folded slot of None \<Rightarrow> (0, 0) | Some p \<Rightarrow> p)
       in dict_set slot (fst seen + total, snd seen + bots) folded) counted []"

definition breakdown ::
  "(link_visit \<Rightarrow> string) \<Rightarrow> database \<Rightarrow> moment \<Rightarrow> moment \<Rightarrow> ident option \<Rightarrow> ident option \<Rightarrow> visit_breakdown list" where
  "breakdown col db since until link_id owner_id =
     map (\<lambda>(label, vs). \<lparr>vk_label = (if label = [] then ''unknown'' else label), vk_total = int (length vs)\<rparr>)
       (sort_key (\<lambda>(label, vs). - int (length vs)) (group_by col (visits_between db since until link_id owner_id)))"

definition top_links :: "database \<Rightarrow> moment \<Rightarrow> moment \<Rightarrow> ident option \<Rightarrow> ident option \<Rightarrow> visit_breakdown list" where
  "top_links db since until link_id owner_id =
     (let joined = concat (map (\<lambda>v. map lk_code (filter (\<lambda>l. lk_id l = lv_link_id v) (db_links db)))
            (visits_between db since until link_id owner_id))
      in map (\<lambda>(code, cs). \<lparr>vk_label = code, vk_total = int (length cs)\<rparr>)
           (take 10 (sort_key (\<lambda>(code, cs). - int (length cs)) (group_by id joined))))"

definition summary ::
  "database \<Rightarrow> moment \<Rightarrow> moment \<Rightarrow> int \<Rightarrow> ident option \<Rightarrow> ident option \<Rightarrow> visit_summary" where
  "summary db since until buckets0 link_id owner_id =
     (let buckets = max 1 buckets0;
          span = max 1 ((until - since) div second);
          width = max 1 (span div buckets);
          counted = clamped (bucket_counts db since until width link_id owner_id) buckets;
          series = map (\<lambda>index. let seen = (case map_of counted index of None \<Rightarrow> (0, 0) | Some p \<Rightarrow> p)
                     in \<lparr>vb_at = since + seconds (index * width), vb_total = fst seen, vb_bots = snd seen\<rparr>) [0..buckets - 1]
      in \<lparr>vs_since = since, vs_until = until, vs_total = sum_list (map vb_total series), vs_bots = sum_list (map vb_bots series),
          vs_buckets = series,
          vs_devices = breakdown lv_device db since until link_id owner_id,
          vs_browsers = breakdown lv_browser db since until link_id owner_id,
          vs_top_links = top_links db since until link_id owner_id\<rparr>)"

definition rolled_totals ::
  "database \<Rightarrow> moment \<Rightarrow> moment \<Rightarrow> ident option \<Rightarrow> ident option \<Rightarrow> (moment \<times> int \<times> int) list" where
  "rolled_totals db since until link_id owner_id =
     map (\<lambda>(day, ds). (day, (sum_list (map vd_total ds), sum_list (map vd_bots ds))))
       (group_by vd_day
          (filter (\<lambda>d. since \<le> vd_day d \<and> vd_day d < until \<and> scoped db link_id owner_id (vd_link_id d)) (db_visit_days db)))"

definition daily_totals :: "database \<Rightarrow> moment \<Rightarrow> moment \<Rightarrow> ident option \<Rightarrow> ident option \<Rightarrow> visit_bucket list" where
  "daily_totals db since until link_id owner_id =
     (let start = midnight_of since;
          n = max 1 (- (- (until - start) div (DAY * second)));
          rolled = rolled_totals db start until link_id owner_id;
          raw = clamped (bucket_counts db start until DAY link_id owner_id) n
      in map (\<lambda>index.
           let at = start + days index;
               seen = (case map_of rolled at of
                         Some p \<Rightarrow> p
                       | None \<Rightarrow> (case map_of raw index of None \<Rightarrow> (0, 0) | Some p \<Rightarrow> p))
           in \<lparr>vb_at = at, vb_total = fst seen, vb_bots = snd seen\<rparr>) [0..n - 1])"

definition rolled_days :: "database \<Rightarrow> ident \<Rightarrow> moment \<Rightarrow> moment \<Rightarrow> visit_day list" where
  "rolled_days db link_id since until =
     sort_key vd_day (filter (\<lambda>d. vd_link_id d = link_id \<and> since \<le> vd_day d \<and> vd_day d < until) (db_visit_days db))"

definition first_unfolded_day :: "database \<Rightarrow> moment option" where
  "first_unfolded_day db =
     (case map vd_day (db_visit_days db) of [] \<Rightarrow> None | d # ds \<Rightarrow> Some (fold max ds d + days 1))"

text \<open>
  The fold; the primary key of the table of days is the link with the day, and a row that
  exists refuses the whole insertion.
\<close>

definition roll_up_days :: "moment \<Rightarrow> database \<Rightarrow> (exn, int) result \<times> database" where
  "roll_up_days before db =
     (let since = first_unfolded_day db;
          grouped = group_by (\<lambda>v. (lv_link_id v, epoch_seconds (lv_occurred_at v) div DAY))
            (filter (\<lambda>v. lv_occurred_at v < before \<and> (case since of None \<Rightarrow> True | Some s \<Rightarrow> s \<le> lv_occurred_at v)) (db_visits db));
          rows = map (\<lambda>((link_id, day_index), vs).
            \<lparr>vd_link_id = link_id, vd_day = day_index * DAY * second, vd_total = int (length vs), vd_bots = bots vs\<rparr>) grouped
      in if rows = [] then (Inr 0, db)
         else if list_all (\<lambda>r. \<not> list_ex (\<lambda>d. vd_link_id d = vd_link_id r \<and> vd_day d = vd_day r) (db_visit_days db)) rows
         then (Inr (int (length rows)), db\<lparr>db_visit_days := db_visit_days db @ rows\<rparr>)
         else (Inl (IntegrityError ''link_visit_days''), db))"

definition delete_raw_before :: "moment \<Rightarrow> database \<Rightarrow> int \<times> database" where
  "delete_raw_before cutoff db =
     (int (length (filter (\<lambda>v. lv_occurred_at v < cutoff) (db_visits db))),
      db\<lparr>db_visits := filter (\<lambda>v. \<not> lv_occurred_at v < cutoff) (db_visits db)\<rparr>)"

section \<open>The use cases\<close>

definition get_visit_stats ::
  "moment \<Rightarrow> string \<Rightarrow> ident option \<Rightarrow> ident option \<Rightarrow> database \<Rightarrow> (exn, visit_summary) result" where
  "get_visit_stats now period link_id owner_id db =
     (case map_of PERIODS period of
        None \<Rightarrow> Inl (Domain (unknown_period period))
      | Some (span, buckets) \<Rightarrow>
          (case span_of now span buckets of (since, until) \<Rightarrow> Inr (summary db since until buckets link_id owner_id)))"

definition visit_stats_daily ::
  "moment \<Rightarrow> int \<Rightarrow> ident option \<Rightarrow> ident option \<Rightarrow> database \<Rightarrow> (exn, visit_bucket list) result" where
  "visit_stats_daily now n link_id owner_id db =
     (if \<not> (1 \<le> n \<and> n \<le> 730) then
        Inl (Domain (base_error DomainErrorC (''days must be between 1 and 730, got '' @ str_of_int n) ''VALIDATION_ERROR''
          (Some ''days must be between 1 and 730, got %(days)s'') [(''days'', PInt n)]))
      else
        (let tomorrow = midnight_of now + days 1;
             since = tomorrow - days n
         in Inr (daily_totals db since tomorrow link_id owner_id)))"

definition roll_up_visits :: "int \<Rightarrow> moment \<Rightarrow> database \<Rightarrow> (exn, int \<times> int) result \<times> database" where
  "roll_up_visits retention_days now db =
     (let today = midnight_of now
      in case roll_up_days today db of
           (Inl e, db1) \<Rightarrow> (Inl e, db1)
         | (Inr folded, db1) \<Rightarrow>
             if retention_days > 0
             then (case delete_raw_before (today - days retention_days) db1 of (swept, db2) \<Rightarrow> (Inr (folded, swept), db2))
             else (Inr (folded, 0), db1))"

section \<open>Folding visits\<close>

definition visit_day_view :: "visit_day \<Rightarrow> (ident \<times> moment) \<times> int \<times> int" where
  "visit_day_view d = ((vd_link_id d, vd_day d), (vd_total d, vd_bots d))"

lemma bots_simps [simp]: "bots [] = 0" "bots (v # vs) = (if lv_is_bot v then 1 else 0) + bots vs"
  by (simp_all add: bots_def)

lemma first_unfolded_bound:
  "(case first_unfolded_day db of None \<Rightarrow> True | Some s \<Rightarrow> s \<le> t) \<longleftrightarrow> (\<forall>d \<in> set (db_visit_days db). vd_day d + days 1 \<le> t)"
proof -
  have "fold max ds d + days 1 \<le> t \<longleftrightarrow> (\<forall>x \<in> set (d # ds). x + days 1 \<le> t)" for ds d
    by (induction ds arbitrary: d) (auto simp: max_def)
  then show ?thesis by (cases "db_visit_days db") (auto simp: first_unfolded_day_def)
qed

lemma roll_up_days_writes:
  assumes p: "pending = filter (\<lambda>v. lv_occurred_at v < b \<and> (\<forall>r \<in> set (map visit_day_view (db_visit_days db)). snd (fst r) + days 1 \<le> lv_occurred_at v)) (db_visits db)"
    and f: "fresh = map (\<lambda>kd. (kd, (int (length (of_day lv_link_id lv_occurred_at kd pending)), bots (of_day lv_link_id lv_occurred_at kd pending))))
          (remdups (map (\<lambda>v. (lv_link_id v, midnight_of (lv_occurred_at v))) pending))"
    and d: "distinct (map fst (map visit_day_view (db_visit_days db) @ fresh))"
  shows "fst (roll_up_days b db) = Inr (int (length fresh)) \<and> db_visits (snd (roll_up_days b db)) = db_visits db
     \<and> map visit_day_view (db_visit_days (snd (roll_up_days b db))) = map visit_day_view (db_visit_days db) @ fresh"
proof -
  let ?row = "\<lambda>((link_id, day_index), vs). \<lparr>vd_link_id = link_id, vd_day = day_index * DAY * second, vd_total = int (length vs), vd_bots = bots vs\<rparr>"
  let ?key = "\<lambda>v. (lv_link_id v, epoch_seconds (lv_occurred_at v) div DAY)"
  let ?h = "\<lambda>(k, i). (k, i * DAY * second)"
  have pend: "filter (\<lambda>v. lv_occurred_at v < b \<and> (case first_unfolded_day db of None \<Rightarrow> True | Some s \<Rightarrow> s \<le> lv_occurred_at v)) (db_visits db) = pending"
    unfolding p first_unfolded_bound by (simp add: visit_day_view_def)
  define rows where "rows = map ?row (group_by ?key pending)"
  have "inj ?h" by (auto simp: inj_def DAY_def second_def)
  from group_by_inj [OF this, of ?key pending]
  have g: "group_by (\<lambda>v. (lv_link_id v, midnight_of (lv_occurred_at v))) pending = map (\<lambda>(k, g). (?h k, g)) (group_by ?key pending)"
    by (simp add: day_index)
  have "fresh = map (\<lambda>(kd, vs). (kd, (int (length vs), bots vs))) (group_by (\<lambda>v. (lv_link_id v, midnight_of (lv_occurred_at v))) pending)"
    by (simp add: f group_by_def of_day_def prod_eq_iff)
  also have "\<dots> = map visit_day_view rows"
    unfolding g rows_def by (auto simp: visit_day_view_def)
  finally have fresh: "fresh = map visit_day_view rows" .
  have "list_all (\<lambda>r. \<not> list_ex (\<lambda>d. vd_link_id d = vd_link_id r \<and> vd_day d = vd_day r) (db_visit_days db)) rows"
    using d by (fastforce simp: fresh visit_day_view_def list_all_iff list_ex_iff)
  moreover have "group_by ?key pending = [] \<longleftrightarrow> rows = []" by (simp add: rows_def)
  ultimately show ?thesis by (auto simp: roll_up_days_def Let_def pend rows_def [symmetric] fresh)
qed

interpretation visit_fold: day_fold db_visits "\<lambda>db. map visit_day_view (db_visit_days db)" lv_link_id lv_occurred_at
  "\<lambda>vs. (int (length vs), bots vs)" roll_up_days delete_raw_before
  by unfold_locales (rule roll_up_days_writes, auto simp: delete_raw_before_def not_less)

section \<open>Counting by slots\<close>

abbreviation at_slot :: "(int \<times> int \<times> int) list \<Rightarrow> int \<Rightarrow> int \<times> int" where
  "at_slot counted i \<equiv> (case map_of counted i of None \<Rightarrow> (0, 0) | Some p \<Rightarrow> p)"

definition slot_of :: "int \<Rightarrow> int \<Rightarrow> int" where
  "slot_of buckets index = min (max index 0) (buckets - 1)"

lemma clamped_slots:
  "at_slot (clamped counted n) i =
     (sum_list (map (\<lambda>(x, t, b). t) (filter (\<lambda>(x, t, b). slot_of n x = i) counted)),
      sum_list (map (\<lambda>(x, t, b). b) (filter (\<lambda>(x, t, b). slot_of n x = i) counted)))"
proof -
  define step where "step = (\<lambda>(index, total, bots) folded.
       let slot = min (max index 0) (n - 1); seen = at_slot folded slot in dict_set slot (fst seen + total, snd seen + bots) folded)"
  have "at_slot (fold step counted acc) i =
     (fst (at_slot acc i) + sum_list (map (\<lambda>(x, t, b). t) (filter (\<lambda>(x, t, b). slot_of n x = i) counted)),
      snd (at_slot acc i) + sum_list (map (\<lambda>(x, t, b). b) (filter (\<lambda>(x, t, b). slot_of n x = i) counted)))" for acc
  proof (induction counted arbitrary: acc)
    case (Cons c cs)
    obtain x t b where c: "c = (x, t, b)" by (rule prod_cases3)
    have "at_slot (step c acc) i = (if slot_of n x = i then (fst (at_slot acc i) + t, snd (at_slot acc i) + b) else at_slot acc i)"
      by (simp add: c step_def Let_def slot_of_def [symmetric])
    then show ?case by (simp add: Cons c)
  qed simp
  from this [of "[]"] show ?thesis by (simp add: clamped_def step_def)
qed

lemma slot_counts:
  fixes es :: "link_visit list"
  shows "at_slot (clamped (map (\<lambda>(index, vs). (index, (int (length vs), bots vs))) (group_by key es)) n) i =
     (int (length (filter (\<lambda>v. slot_of n (key v) = i) es)), bots (filter (\<lambda>v. slot_of n (key v) = i) es))"
proof -
  have 1: "sum_list (map (\<lambda>(x, vs). int (length vs)) (filter (\<lambda>(x, vs). slot_of n x = i) (group_by key es))) =
      int (length (filter (\<lambda>v. slot_of n (key v) = i) es))"
    using group_by_sum [of "\<lambda>_. 1 :: int" "\<lambda>x. slot_of n x = i" key es] by (simp add: sum_list_triv)
  have 2: "sum_list (map (\<lambda>(x, vs). bots vs) (filter (\<lambda>(x, vs). slot_of n x = i) (group_by key es))) =
      bots (filter (\<lambda>v. slot_of n (key v) = i) es)"
    unfolding bots_def by (rule group_by_sum)
  show ?thesis
    unfolding clamped_slots prod.inject 1 [symmetric] 2 [symmetric]
    by (simp add: filter_map comp_def case_prod_unfold)
qed

lemma slot_in_range: "0 \<le> x \<Longrightarrow> x < n \<Longrightarrow> slot_of n x = x" and slot_bounds: "1 \<le> n \<Longrightarrow> 0 \<le> slot_of n x \<and> slot_of n x < n"
  by (simp_all add: slot_of_def)

lemma sum_over_slots:
  assumes "1 \<le> n"
  shows "sum_list (map (\<lambda>i. sum_list (map w (filter (\<lambda>v. slot_of n (key v) = i) es))) [0..n - 1]) = (sum_list (map w es) :: int)"
proof -
  have "sum_list (map (\<lambda>i. sum_list (map w (filter (\<lambda>v. slot_of n (key v) = i) es))) [0..n - 1])
      = (\<Sum>i \<in> {0..n - 1}. sum_list (map w (filter (\<lambda>v. slot_of n (key v) = i) es)))"
    using sum_list_distinct_conv_sum_set [of "[0..n - 1]"] by simp
  also have "\<dots> = sum_list (map w es)"
    using slot_bounds [OF assms] by (intro sum_by_key [symmetric]) auto
  finally show ?thesis .
qed

text \<open>The chart of a span: every visit of the span is in one of its buckets.\<close>

lemma summary_counts:
  shows "vs_total (summary db since until n link_id owner_id) = int (length (visits_between db since until link_id owner_id))"
    and "vs_bots (summary db since until n link_id owner_id) = bots (visits_between db since until link_id owner_id)"
    and "length (vs_buckets (summary db since until n link_id owner_id)) = nat (max 1 n)"
proof -
  let ?n = "max 1 n" and ?es = "visits_between db since until link_id owner_id"
  let ?width = "max 1 (max 1 ((until - since) div second) div ?n)"
  let ?key = "\<lambda>v. (epoch_seconds (lv_occurred_at v) - epoch_seconds since) div ?width"
  have n: "1 \<le> ?n" by simp
  have counted: "at_slot (clamped (bucket_counts db since until ?width link_id owner_id) ?n) i =
     (int (length (filter (\<lambda>v. slot_of ?n (?key v) = i) ?es)), bots (filter (\<lambda>v. slot_of ?n (?key v) = i) ?es))" for i
    unfolding bucket_counts_def by (rule slot_counts)
  note fields = summary_def Let_def visit_summary.simps map_map comp_def visit_bucket.simps counted fst_conv snd_conv
  have one: "int (length vs) = sum_list (map (\<lambda>_. 1) vs)" for vs :: "link_visit list" by (simp add: sum_list_triv)
  show "vs_total (summary db since until n link_id owner_id) = int (length ?es)"
    unfolding fields one by (rule sum_over_slots [OF n])
  show "vs_bots (summary db since until n link_id owner_id) = bots ?es"
    unfolding fields bots_def by (rule sum_over_slots [OF n])
  show "length (vs_buckets (summary db since until n link_id owner_id)) = nat ?n"
    unfolding fields by simp
qed

section \<open>The history of visits\<close>

text \<open>
  What happens to the visits of an installation, in any order, with a clock that does not run
  backwards: visits are counted, links and accounts are deleted with what refers to them, the
  roll-up runs, and other transactions leave the visits alone. The history is what was
  recorded of the links that still exist; nothing ever takes an event out of it for its age.
\<close>

inductive visit_run :: "'c cache_ops \<Rightarrow> int \<Rightarrow> link_visit list \<Rightarrow> moment \<Rightarrow> database \<Rightarrow> bool"
  for ops :: "'c cache_ops" and retention :: int where
  start: "db_visits db = [] \<Longrightarrow> db_visit_days db = [] \<Longrightarrow> visit_run ops retention [] now db"
| counted: "visit_run ops retention hist t (sv_db st) \<Longrightarrow> t \<le> now \<Longrightarrow>
    db = sv_db (update_link_stats ops rv now visit_id code_str cx st) \<Longrightarrow> db_visits db = db_visits (sv_db st) @ new \<Longrightarrow>
    visit_run ops retention (hist @ new) now db"
| removed: "visit_run ops retention hist t db \<Longrightarrow> t \<le> now \<Longrightarrow>
    visit_run ops retention (filter (\<lambda>v. lv_link_id v \<notin> set (ids_of (fst outcome))) hist) now (remove_links outcome db)"
| accounts: "visit_run ops retention hist t db \<Longrightarrow> t \<le> now \<Longrightarrow>
    doomed = filter (\<lambda>l. case lk_owner l of None \<Rightarrow> False | Some i \<Rightarrow> i \<in> set gone) (db_links db) \<Longrightarrow>
    visit_run ops retention (filter (\<lambda>v. lv_link_id v \<notin> set (ids_of doomed)) hist) now (delete_users gone db)"
| rolled: "visit_run ops retention hist t db \<Longrightarrow> t \<le> now \<Longrightarrow>
    visit_run ops retention hist now (snd (roll_up_visits retention now db))"
| elsewhere: "visit_run ops retention hist t db \<Longrightarrow> t \<le> now \<Longrightarrow>
    db_visits db' = db_visits db \<Longrightarrow> db_visit_days db' = db_visit_days db \<Longrightarrow> visit_run ops retention hist now db'"

text \<open>What every such history keeps: the tables tell it.\<close>

definition visits_told :: "int \<Rightarrow> link_visit list \<Rightarrow> moment \<Rightarrow> database \<Rightarrow> bool" where
  "visits_told retention hist t db \<longleftrightarrow>
     (\<exists>b c. visit_fold.tells hist b c db \<and> b \<le> midnight_of t \<and>
        (if retention > 0 then c \<le> midnight_of t - days retention else db_visits db = hist))"

lemma visits_told_later: "visits_told retention hist t db \<Longrightarrow> t \<le> now \<Longrightarrow> visits_told retention hist now db"
  unfolding visits_told_def using midnight_mono [of t now] 
  by (elim exE conjE, rule_tac x = b in exI, rule_tac x = c in exI) (auto split: if_splits)

lemma update_link_stats_db:
  "sv_db (update_link_stats ops rv now visit_id code_str cx st) = sv_db st \<or>
   (\<exists>tbl. sv_db (update_link_stats ops rv now visit_id code_str cx st) = (sv_db st)\<lparr>db_links := tbl\<rparr>) \<or>
   (\<exists>tbl k. sv_db (update_link_stats ops rv now visit_id code_str cx st) =
      (sv_db st)\<lparr>db_links := tbl, db_visits := db_visits (sv_db st) @ [visit_record now visit_id k (cx_remote_addr cx) (cx_user_agent cx)]\<rparr>)"
proof (cases "ShortCode code_str")
  case (Inr c)
  show ?thesis
  proof (cases "repo_increment_clicks now c (links_in st)")
    case (Inr tbl)
    let ?db = "sv_db (update_link_stats ops rv now visit_id code_str cx st)"
    show ?thesis
    proof (cases "rv \<and> find_by_code c tbl \<noteq> None")
      case True
      then obtain l where "find_by_code c tbl = Some l" by blast
      then have "?db = (sv_db st)\<lparr>db_links := tbl, db_visits := db_visits (sv_db st) @ [visit_record now visit_id (lk_id l) (cx_remote_addr cx) (cx_user_agent cx)]\<rparr>"
        using True by (simp add: update_link_stats_def \<open>ShortCode code_str = Inr c\<close> Inr on_db_def)
      then show ?thesis by blast
    next
      case False
      then have "?db = (sv_db st)\<lparr>db_links := tbl\<rparr>"
        by (cases rv) (simp_all add: update_link_stats_def \<open>ShortCode code_str = Inr c\<close> Inr on_db_def)
      then show ?thesis by blast
    qed
  qed (simp add: Inr update_link_stats_def on_cache_def)
qed (simp add: update_link_stats_def)

lemma visit_record_time [simp]: "lv_occurred_at (visit_record now i k a ua) = now"
  by (simp add: visit_record_def case_prod_beta)

lemma update_link_stats_visits:
  assumes "db = sv_db (update_link_stats ops rv now visit_id code_str cx st)" and "db_visits db = db_visits (sv_db st) @ new"
  shows "(new = [] \<or> (\<exists>v. new = [v] \<and> lv_occurred_at v = now)) \<and> db_visit_days db = db_visit_days (sv_db st)"
  using update_link_stats_db [of ops rv now visit_id code_str cx st] assms(2) unfolding assms(1) [symmetric] by (elim disjE exE) auto

lemma visits_told_record:
  assumes told: "visits_told retention hist t (db0)" and "t \<le> now" and "new = [] \<or> (\<exists>v. new = [v] \<and> lv_occurred_at v = now)"
    and db: "db_visits db = db_visits db0 @ new" "db_visit_days db = db_visit_days db0"
  shows "visits_told retention (hist @ new) now db"
proof -
  obtain b c where t: "visit_fold.tells hist b c db0" and b: "b \<le> midnight_of now"
    and c: "if retention > 0 then c \<le> midnight_of now - days retention else db_visits db0 = hist"
    using visits_told_later [OF told assms(2)] unfolding visits_told_def by auto
  have "visit_fold.tells (hist @ new) b c db"
  proof (cases "new = []")
    case True
    then show ?thesis using t db by (simp add: visit_fold.tells_def)
  next
    case False
    then obtain v where v: "new = [v]" "lv_occurred_at v = now" using assms(3) by auto
    have "b \<le> lv_occurred_at v" using b v(2) midnight_bounds(1) [of now] by simp
    then show ?thesis unfolding v(1) by (rule visit_fold.record_tells [OF t]) (simp_all add: db v(1))
  qed
  then show ?thesis unfolding visits_told_def using b c db by (intro exI [of _ b] exI [of _ c]) auto
qed

lemma visits_told_forget:
  assumes told: "visits_told retention hist t db" and "t \<le> now"
    and db: "db_visits db' = filter (\<lambda>v. keep (lv_link_id v)) (db_visits db)" "db_visit_days db' = filter (\<lambda>d. keep (vd_link_id d)) (db_visit_days db)"
  shows "visits_told retention (filter (\<lambda>v. keep (lv_link_id v)) hist) now db'"
proof -
  obtain b c where t: "visit_fold.tells hist b c db" and b: "b \<le> midnight_of now"
    and c: "if retention > 0 then c \<le> midnight_of now - days retention else db_visits db = hist"
    using visits_told_later [OF told assms(2)] unfolding visits_told_def by auto
  have "visit_fold.tells (filter (\<lambda>v. keep (lv_link_id v)) hist) b c db'"
    by (rule visit_fold.forget_tells [OF t]) (simp_all add: db filter_map comp_def visit_day_view_def)
  then show ?thesis unfolding visits_told_def using b c db by (intro exI [of _ b] exI [of _ c]) auto
qed

lemma visits_told_roll_up:
  assumes told: "visits_told retention hist t db" and "t \<le> now"
  shows "\<exists>p. fst (roll_up_visits retention now db) = Inr p" and "visits_told retention hist now (snd (roll_up_visits retention now db))"
proof -
  obtain b c where t: "visit_fold.tells hist b c db" and b: "b \<le> midnight_of now"
    and c: "if retention > 0 then c \<le> midnight_of now - days retention else db_visits db = hist"
    using visits_told_later [OF told assms(2)] unfolding visits_told_def by auto
  obtain r db1 where r: "roll_up_days (midnight_of now) db = (r, db1)" by (rule prod.exhaust)
  obtain n where n: "r = Inr n" and t1: "visit_fold.tells hist (midnight_of now) c db1"
    using visit_fold.fold_tells [OF t midnight_idem b] r by auto
  show "\<exists>p. fst (roll_up_visits retention now db) = Inr p"
    by (simp add: roll_up_visits_def Let_def r n case_prod_beta)
  show "visits_told retention hist now (snd (roll_up_visits retention now db))"
  proof (cases "retention > 0")
    case True
    let ?cut = "midnight_of now - days retention"
    have "days 0 \<le> days retention" using True by simp
    then have "?cut \<le> midnight_of now" by (simp add: days_def)
    then have "visit_fold.tells hist (midnight_of now) (max c ?cut) (snd (delete_raw_before ?cut db1))"
      by (rule visit_fold.sweep_tells [OF t1])
    moreover have "snd (roll_up_visits retention now db) = snd (delete_raw_before ?cut db1)"
      using True by (simp add: roll_up_visits_def Let_def r n case_prod_beta)
    ultimately show ?thesis unfolding visits_told_def using c True
      by (intro exI [of _ "midnight_of now"] exI [of _ "max c ?cut"]) simp
  next
    case False
    have "db_visits db1 = db_visits db"
      using r by (auto simp: roll_up_days_def Let_def split: if_splits)
    then have "snd (roll_up_visits retention now db) = db1" "db_visits db1 = hist"
      using False c by (simp_all add: roll_up_visits_def Let_def r n)
    then show ?thesis unfolding visits_told_def using t1 False by auto
  qed
qed

lemma visit_run_told: "visit_run ops retention hist t db \<Longrightarrow> visits_told retention hist t db"
proof (induction rule: visit_run.induct)
  case (start db now)
  let ?b = "midnight_of now"
  have "visit_fold.tells [] ?b (min ?b (?b - days retention)) db"
    using start by (simp add: visit_fold.tells_def of_day_def)
  then show ?case unfolding visits_told_def using start by (intro exI [of _ ?b] exI [of _ "min ?b (?b - days retention)"]) simp
next
  case (counted hist t st now db rv visit_id code_str cx new)
  then show ?case using update_link_stats_visits [OF counted.hyps(3,4)] by (intro visits_told_record) auto
next
  case (removed hist t db now outcome)
  then show ?case by (intro visits_told_forget) (auto simp: remove_links_def)
next
  case (accounts hist t db now doomed gone)
  have d: "doomed = filter (\<lambda>l. \<not> (case lk_owner l of None \<Rightarrow> True | Some i \<Rightarrow> i \<notin> set gone)) (db_links db)"
    unfolding accounts.hyps(3) by (intro filter_cong) (auto split: option.split)
  show ?case by (rule visits_told_forget [OF accounts.IH accounts.hyps(2)]) (simp_all add: delete_users_def keep_links_def Let_def d)
next
  case (rolled hist t db now)
  then show ?case by (intro visits_told_roll_up)
next
  case (elsewhere hist t db now db')
  then show ?case using visits_told_record [of retention hist t db now "[]" db'] by simp
qed

section \<open>Reading a day\<close>

abbreviation on_day :: "database \<Rightarrow> ident option \<Rightarrow> ident option \<Rightarrow> moment \<Rightarrow> link_visit list \<Rightarrow> link_visit list" where
  "on_day db link_id owner_id at hist \<equiv> filter (\<lambda>v. scoped db link_id owner_id (lv_link_id v) \<and> midnight_of (lv_occurred_at v) = at) hist"

lemma rolled_at:
  assumes "start \<le> at" "at < until"
  shows "map_of (rolled_totals db start until link_id owner_id) at =
    (let ds = filter (\<lambda>d. scoped db link_id owner_id (vd_link_id d) \<and> vd_day d = at) (db_visit_days db)
     in if ds = [] then None else Some (sum_list (map vd_total ds), sum_list (map vd_bots ds)))"
proof -
  let ?xs = "filter (\<lambda>d. start \<le> vd_day d \<and> vd_day d < until \<and> scoped db link_id owner_id (vd_link_id d)) (db_visit_days db)"
  let ?ds = "filter (\<lambda>d. scoped db link_id owner_id (vd_link_id d) \<and> vd_day d = at) (db_visit_days db)"
  have ds: "filter (\<lambda>d. vd_day d = at) ?xs = ?ds" using assms by (auto intro: filter_cong)
  have "at \<in> vd_day ` set ?xs \<longleftrightarrow> filter (\<lambda>d. vd_day d = at) ?xs \<noteq> []" by (auto simp: filter_empty_conv image_iff)
  then have "at \<in> vd_day ` set ?xs \<longleftrightarrow> ?ds \<noteq> []" unfolding ds .
  then show ?thesis
    unfolding rolled_totals_def map_of_map [where f = "\<lambda>ds. (sum_list (map vd_total ds), sum_list (map vd_bots ds))"] comp_def map_of_group_by ds
    by (simp add: Let_def)
qed

lemma raw_at:
  assumes start: "midnight_of start = start" and i: "0 \<le> i" "i < n"
  shows "at_slot (clamped (bucket_counts db start (start + days n) DAY link_id owner_id) n) i =
    (int (length (on_day db link_id owner_id (start + days i) (db_visits db))), bots (on_day db link_id owner_id (start + days i) (db_visits db)))"
proof -
  let ?key = "\<lambda>v. (epoch_seconds (lv_occurred_at v) - epoch_seconds start) div DAY"
  let ?es = "visits_between db start (start + days n) link_id owner_id"
  have until: "midnight_of (start + days n) = start + days n"
    using start by (metis days_add midnight_alt midnight_days)
  have iff: "start \<le> lv_occurred_at v \<and> lv_occurred_at v < start + days n \<and> slot_of n (?key v) = i \<longleftrightarrow> midnight_of (lv_occurred_at v) = start + days i" for v
  proof
    assume v: "start \<le> lv_occurred_at v \<and> lv_occurred_at v < start + days n \<and> slot_of n (?key v) = i"
    have key: "midnight_of (lv_occurred_at v) = start + days (?key v)" using day_slot [OF start] by blast
    have "days 0 \<le> days (?key v)" using key v midnight_mono [of start "lv_occurred_at v"] start by (simp add: days_def)
    moreover have "days (?key v) < days n" using key v before_midnight_iff [OF until, of "lv_occurred_at v"] by simp
    ultimately have "slot_of n (?key v) = ?key v" by (intro slot_in_range) simp_all
    with key v show "midnight_of (lv_occurred_at v) = start + days i" by simp
  next
    assume m: "midnight_of (lv_occurred_at v) = start + days i"
    have "days 0 \<le> days i" "days i < days n" using i by simp_all
    then have "start \<le> midnight_of (lv_occurred_at v)" "midnight_of (lv_occurred_at v) < start + days n" using m by (simp_all add: days_def)
    then have "start \<le> lv_occurred_at v" "lv_occurred_at v < start + days n"
      using midnight_bounds(1) [of "lv_occurred_at v"] before_midnight_iff [OF until, of "lv_occurred_at v"] by auto
    moreover have "?key v = i" using m day_slot [OF start] by blast
    ultimately show "start \<le> lv_occurred_at v \<and> lv_occurred_at v < start + days n \<and> slot_of n (?key v) = i"
      using i by (simp add: slot_in_range)
  qed
  have "filter (\<lambda>v. slot_of n (?key v) = i) ?es = on_day db link_id owner_id (start + days i) (db_visits db)"
    unfolding visits_between_def filter_filter by (intro filter_cong refl) (use iff in blast)
  then show ?thesis unfolding bucket_counts_def slot_counts by simp
qed

lemma day_of_history:
  assumes told: "visits_told retention hist t db" and at: "midnight_of at = at"
  shows "(let ds = filter (\<lambda>d. scoped db link_id owner_id (vd_link_id d) \<and> vd_day d = at) (db_visit_days db)
     in if ds \<noteq> [] then (sum_list (map vd_total ds), sum_list (map vd_bots ds))
        else (int (length (on_day db link_id owner_id at (db_visits db))), bots (on_day db link_id owner_id at (db_visits db))))
    = (int (length (on_day db link_id owner_id at hist)), bots (on_day db link_id owner_id at hist))"
proof -
  obtain b c where t: "visit_fold.tells hist b c db" using told unfolding visits_told_def by auto
  let ?P = "scoped db link_id owner_id"
  have view: "filter (\<lambda>r. ?P (fst (fst r)) \<and> snd (fst r) = at) (map visit_day_view (db_visit_days db))
      = map visit_day_view (filter (\<lambda>d. ?P (vd_link_id d) \<and> vd_day d = at) (db_visit_days db))"
    by (simp add: filter_map comp_def visit_day_view_def)
  have one: "int (length vs) = sum_list (map (\<lambda>_. 1) vs)" for vs :: "link_visit list" by (simp add: sum_list_triv)
  note day = visit_fold.day_reads_history [OF t at, of _ _ ?P, unfolded view map_is_Nil_conv map_map comp_def]
  have "fst (int (length vs), bots vs) = sum_list (map (\<lambda>_. 1) vs)" for vs by (simp add: one)
  from day [OF this] have 1: "(if filter (\<lambda>d. ?P (vd_link_id d) \<and> vd_day d = at) (db_visit_days db) \<noteq> []
      then sum_list (map vd_total (filter (\<lambda>d. ?P (vd_link_id d) \<and> vd_day d = at) (db_visit_days db)))
      else int (length (on_day db link_id owner_id at (db_visits db)))) = int (length (on_day db link_id owner_id at hist))"
    by (simp only: visit_day_view_def one fst_conv snd_conv)
  have "snd (int (length vs), bots vs) = sum_list (map (\<lambda>v. if lv_is_bot v then 1 else 0) vs)" for vs by (simp add: bots_def)
  from day [OF this] have 2: "(if filter (\<lambda>d. ?P (vd_link_id d) \<and> vd_day d = at) (db_visit_days db) \<noteq> []
      then sum_list (map vd_bots (filter (\<lambda>d. ?P (vd_link_id d) \<and> vd_day d = at) (db_visit_days db)))
      else bots (on_day db link_id owner_id at (db_visits db))) = bots (on_day db link_id owner_id at hist)"
    by (simp only: visit_day_view_def bots_def fst_conv snd_conv)
  show ?thesis unfolding Let_def using 1 2 by (cases "filter (\<lambda>d. ?P (vd_link_id d) \<and> vd_day d = at) (db_visit_days db) = []") simp_all
qed

section \<open>A sample history\<close>

text \<open>One link, visited once at the start; five days later the roll-up, which keeps raw rows for a day.\<close>

definition visited_db :: database where
  "visited_db = \<lparr>db_links = [sample_link], db_users = [], db_roles = [], db_permissions = [], db_sessions = [],
     db_verifications = [], db_resets = [], db_visits = [], db_visit_days = [], db_security_events = [], db_security_days = []\<rparr>"

definition sample_visit :: link_visit where
  "sample_visit = visit_record 0 ''v1'' ''1'' None None"

definition counted_db :: database where
  "counted_db = visited_db\<lparr>db_links := [increment_clicks 0 sample_link], db_visits := [sample_visit]\<rparr>"

definition rolled_db :: database where
  "rolled_db = counted_db\<lparr>db_visits := [],
     db_visit_days := [\<lparr>vd_link_id = ''1'', vd_day = 0, vd_total = 1, vd_bots = 0\<rparr>]\<rparr>"

lemma sample_visit_fields [simp]:
  "lv_link_id sample_visit = ''1''" "lv_occurred_at sample_visit = 0" "\<not> lv_is_bot sample_visit"
  by (simp_all add: sample_visit_def visit_record_def classify_client_def)

lemma sample_counted:
  "sv_db (update_link_stats null_ops True 0 ''v1'' ''abc123'' \<lparr>cx_remote_addr = None, cx_user_agent = None, cx_current_user = None\<rparr>
     \<lparr>sv_db = visited_db, sv_cache = (), sv_audit = [], sv_tasks = []\<rparr>) = counted_db"
proof -
  have "CODE_PATTERN ''abc123''" by code_simp
  then show ?thesis
    by (simp add: ShortCode_def update_link_stats_def on_db_def visited_db_def counted_db_def repo_increment_clicks_def find_by_code_def
        sample_visit_def sample_link_def increment_clicks_def)
qed

lemma sample_rolled: "roll_up_visits 1 (days 5) counted_db = (Inr (1, 1), rolled_db)"
  by (simp add: roll_up_visits_def Let_def roll_up_days_def first_unfolded_day_def counted_db_def visited_db_def rolled_db_def group_by_def
      delete_raw_before_def epoch_seconds_def days_def DAY_def second_def midnight_of_def bots_def)

lemma sample_visit_run: "visit_run null_ops 1 [sample_visit] (days 5) rolled_db"
proof -
  let ?st = "\<lparr>sv_db = visited_db, sv_cache = (), sv_audit = [], sv_tasks = []\<rparr>"
  have "visit_run null_ops 1 [] 0 (sv_db ?st)" by (rule visit_run.start) (simp_all add: visited_db_def)
  from visit_run.counted [OF this order_refl sample_counted [symmetric], of "[sample_visit]"]
  have "visit_run null_ops 1 [sample_visit] 0 counted_db" by (simp add: counted_db_def visited_db_def)
  then have "visit_run null_ops 1 [sample_visit] (days 5) (snd (roll_up_visits 1 (days 5) counted_db))"
    by (rule visit_run.rolled) (simp add: days_def DAY_def second_def)
  then show ?thesis by (simp add: sample_rolled)
qed

section \<open>Properties\<close>

text \<open>
  C18. The daily chart is the history. Whatever was counted, deleted, rolled up and swept, for
  every scope and every length from one day to two years, the chart has one bucket per day,
  and each holds exactly the visits the history has on that day, robots among them; days whose
  raw rows are long swept included. The roll-up itself never fails.
\<close>

theorem daily_series_is_the_history:
  assumes run: "visit_run ops retention hist t db" and now: "t \<le> now" and n: "1 \<le> n" "n \<le> 730"
  shows "visit_stats_daily now n link_id owner_id db =
      Inr (map (\<lambda>i. let at = midnight_of now + days 1 - days n + days i; day = on_day db link_id owner_id at hist
                    in \<lparr>vb_at = at, vb_total = int (length day), vb_bots = bots day\<rparr>) [0..n - 1])
    \<and> (\<exists>folded swept. fst (roll_up_visits retention now db) = Inr (folded, swept))"
proof
  let ?start = "midnight_of now + days 1 - days n" and ?until = "midnight_of now + days 1"
  have told: "visits_told retention hist now db" using visits_told_later [OF visit_run_told [OF run] now] .
  have start: "midnight_of (?start + days i) = ?start + days i" for i
  proof -
    have "?start + days i = days (now div (DAY * second) + 1 - n + i)" by (simp add: midnight_alt days_def algebra_simps)
    then show ?thesis by simp
  qed
  have start0: "midnight_of ?start = ?start" using start [of 0] by (simp add: days_def)
  have "- days n = - n * (DAY * second)" by (simp add: days_def)
  then have "- (- days n div (DAY * second)) = n" by (simp only: nonzero_mult_div_cancel_right [OF day_pos [THEN less_imp_neq, symmetric]] minus_minus)
  then have len: "max 1 (- (- (?until - ?start) div (DAY * second))) = n" using n by simp
  have day: "(case map_of (rolled_totals db ?start ?until link_id owner_id) (?start + days i) of Some p \<Rightarrow> p
        | None \<Rightarrow> at_slot (clamped (bucket_counts db ?start ?until DAY link_id owner_id) n) i)
      = (int (length (on_day db link_id owner_id (?start + days i) hist)), bots (on_day db link_id owner_id (?start + days i) hist))"
    if i: "i \<in> set [0..n - 1]" for i
  proof -
    from i have i: "0 \<le> i" "i < n" by simp_all
    then have "days 0 \<le> days i" "days i < days n" by simp_all
    then have r: "?start \<le> ?start + days i" "?start + days i < ?until" by (simp_all add: days_def)
    have u: "?start + days n = ?until" by simp
    show ?thesis
      using raw_at [OF start0 i, of db link_id owner_id] day_of_history [OF told start, of link_id owner_id i]
      unfolding rolled_at [OF r] u by (simp add: Let_def split: if_splits)
  qed
  have "daily_totals db ?start ?until link_id owner_id =
      map (\<lambda>i. let at = ?start + days i; day = on_day db link_id owner_id at hist
               in \<lparr>vb_at = at, vb_total = int (length day), vb_bots = bots day\<rparr>) [0..n - 1]"
    unfolding daily_totals_def start0 len Let_def by (intro map_cong refl) (simp only: day fst_conv snd_conv)
  then show "visit_stats_daily now n link_id owner_id db =
      Inr (map (\<lambda>i. let at = ?start + days i; day = on_day db link_id owner_id at hist
                    in \<lparr>vb_at = at, vb_total = int (length day), vb_bots = bots day\<rparr>) [0..n - 1])"
    using n by (simp add: visit_stats_daily_def Let_def)
  show "\<exists>folded swept. fst (roll_up_visits retention now db) = Inr (folded, swept)"
    using visits_told_roll_up(1) [OF visit_run_told [OF run] now] by auto
qed

theorem daily_series_is_the_history_witness:
  "visit_run null_ops 1 [sample_visit] (days 5) rolled_db \<and> db_visits rolled_db = [] \<and>
   visit_stats_daily (days 5) 6 (Some ''1'') None rolled_db =
     Inr (map (\<lambda>i. \<lparr>vb_at = days i, vb_total = (if i = 0 then 1 else 0), vb_bots = 0\<rparr>) [0..5])"
proof (intro conjI)
  show run: "visit_run null_ops 1 [sample_visit] (days 5) rolled_db" by (rule sample_visit_run)
  show "db_visits rolled_db = []" by (simp add: rolled_db_def)
  have at: "midnight_of (days 5) + days 1 - days 6 + days i = days i" for i by (simp only: midnight_days) (simp add: days_def)
  have "on_day rolled_db (Some ''1'') None (days i) [sample_visit] = (if i = 0 then [sample_visit] else [])" for i
    by (simp add: scoped_def midnight_of_def) (simp add: days_def DAY_def second_def)
  then show "visit_stats_daily (days 5) 6 (Some ''1'') None rolled_db =
     Inr (map (\<lambda>i. \<lparr>vb_at = days i, vb_total = (if i = 0 then 1 else 0), vb_bots = 0\<rparr>) [0..5])"
    using daily_series_is_the_history [OF run order_refl, of 6 "Some ''1''" None]
    by (simp only: at Let_def) (simp add: bots_def cong: map_cong)
qed

text \<open>
  The charts of the offered periods count every visit once. Unless raw rows are kept for
  less than the longest period, the total is the number of visits the history has in the span,
  the robots are those among them, and the buckets add up to the total; a period that is not
  offered is refused.
\<close>

lemma charts_count_every_visit:
  assumes run: "visit_run ops retention hist t db" and now: "t \<le> now" and ret: "retention \<le> 0 \<or> 90 \<le> retention"
  shows "case get_visit_stats now period link_id owner_id db of
      Inl e \<Rightarrow> map_of PERIODS period = None \<and> e = Domain (unknown_period period)
    | Inr s \<Rightarrow>
        (\<exists>span n. map_of PERIODS period = Some (span, n) \<and> (vs_since s, vs_until s) = span_of now span n \<and> length (vs_buckets s) = nat n)
        \<and> vs_total s = int (length (filter (\<lambda>v. vs_since s \<le> lv_occurred_at v \<and> lv_occurred_at v < vs_until s \<and> scoped db link_id owner_id (lv_link_id v)) hist))
        \<and> vs_bots s = bots (filter (\<lambda>v. vs_since s \<le> lv_occurred_at v \<and> lv_occurred_at v < vs_until s \<and> scoped db link_id owner_id (lv_link_id v)) hist)
        \<and> vs_total s = sum_list (map vb_total (vs_buckets s))"
proof (cases "map_of PERIODS period")
  case (Some p)
  obtain span n where p: "p = (span, n)" by (rule prod.exhaust)
  obtain since until where su: "span_of now span n = (since, until)" by (rule prod.exhaust)
  have "(period, p) \<in> set PERIODS" using Some by (rule map_of_SomeD)
  then have "1 \<le> n \<and> midnight_of now - days 90 \<le> since"
    using su midnight_bounds [of now] by (auto simp: PERIODS_def p span_of_def Let_def seconds_def days_def DAY_def second_def)
  moreover obtain b c where t: "visit_fold.tells hist b c db" and c: "if retention > 0 then c \<le> midnight_of now - days retention else db_visits db = hist"
    using visits_told_later [OF visit_run_told [OF run] now] unfolding visits_told_def by auto
  ultimately have kept: "c \<le> since \<or> db_visits db = hist" and n: "1 \<le> n"
    using ret days_mono [of 90 retention] by (auto simp del: days_mono split: if_splits)
  from kept have seen: "visits_between db since until link_id owner_id = filter (\<lambda>v. since \<le> lv_occurred_at v \<and> lv_occurred_at v < until \<and> scoped db link_id owner_id (lv_link_id v)) hist"
  proof
    assume "c \<le> since"
    then show ?thesis unfolding visits_between_def visit_fold.raw_rows [OF t] by (auto intro!: filter_cong)
  qed (simp add: visits_between_def)
  have [simp]: "vs_since (summary db since until n link_id owner_id) = since" "vs_until (summary db since until n link_id owner_id) = until"
    "sum_list (map vb_total (vs_buckets (summary db since until n link_id owner_id))) = vs_total (summary db since until n link_id owner_id)"
    by (simp_all add: summary_def Let_def)
  show ?thesis using n by (simp add: get_visit_stats_def Some p su summary_counts seen)
qed (simp add: get_visit_stats_def)

end
