(* ===== verification/Security_Events.thy ===== *)
theory Security_Events
  imports Visit_Stats
begin

text \<open>
  The counts of security events: \<^verbatim>\<open>SQLAlchemySecurityEventRepository\<close>, the audit logger that
  counts what it is told (\<^verbatim>\<open>infrastructure/logging/handlers/audit/counting.py\<close>), the use case
  that answers with the counts of a period and the nightly roll-up. Whether the database
  accepts the transaction of a count is an argument, since its failure is swallowed.
\<close>

section \<open>Events\<close>

datatype audit_kind =
    URL_CREATED | URL_ACCESSED | URL_DELETED | LOGIN_SUCCEEDED | LOGIN_FAILED | SESSION_ENDED | REFRESH_TOKEN_REPLAYED
  | REGISTERED | USER_CREATED | USER_DELETED | USER_ACTIVATED | USER_EMAIL_CONFIRMED | USER_DEACTIVATED
  | UNVERIFIED_ACCOUNTS_SWEPT | EXPIRED_LINKS_SWEPT | SECURITY_HISTORY_SWEPT | ADDRESSES_NORMALISED | ROLES_CHANGED
  | EMAIL_CONFIRMED | PASSWORD_CHANGED | PASSWORD_RESET | USER_PASSWORD_RESET | ROLE_CREATED | ROLE_DELETED
  | ROLE_PERMISSIONS_CHANGED | AUDIT_VIEWED | PERMISSION_DENIED

fun event_value :: "audit_kind \<Rightarrow> string" where
  "event_value URL_CREATED = ''URL_CREATED''"
| "event_value URL_ACCESSED = ''URL_ACCESSED''"
| "event_value URL_DELETED = ''URL_DELETED''"
| "event_value LOGIN_SUCCEEDED = ''LOGIN_SUCCEEDED''"
| "event_value LOGIN_FAILED = ''LOGIN_FAILED''"
| "event_value SESSION_ENDED = ''SESSION_ENDED''"
| "event_value REFRESH_TOKEN_REPLAYED = ''REFRESH_TOKEN_REPLAYED''"
| "event_value REGISTERED = ''REGISTERED''"
| "event_value USER_CREATED = ''USER_CREATED''"
| "event_value USER_DELETED = ''USER_DELETED''"
| "event_value USER_ACTIVATED = ''USER_ACTIVATED''"
| "event_value USER_EMAIL_CONFIRMED = ''USER_EMAIL_CONFIRMED''"
| "event_value USER_DEACTIVATED = ''USER_DEACTIVATED''"
| "event_value UNVERIFIED_ACCOUNTS_SWEPT = ''UNVERIFIED_ACCOUNTS_SWEPT''"
| "event_value EXPIRED_LINKS_SWEPT = ''EXPIRED_LINKS_SWEPT''"
| "event_value SECURITY_HISTORY_SWEPT = ''SECURITY_HISTORY_SWEPT''"
| "event_value ADDRESSES_NORMALISED = ''ADDRESSES_NORMALISED''"
| "event_value ROLES_CHANGED = ''ROLES_CHANGED''"
| "event_value EMAIL_CONFIRMED = ''EMAIL_CONFIRMED''"
| "event_value PASSWORD_CHANGED = ''PASSWORD_CHANGED''"
| "event_value PASSWORD_RESET = ''PASSWORD_RESET''"
| "event_value USER_PASSWORD_RESET = ''USER_PASSWORD_RESET''"
| "event_value ROLE_CREATED = ''ROLE_CREATED''"
| "event_value ROLE_DELETED = ''ROLE_DELETED''"
| "event_value ROLE_PERMISSIONS_CHANGED = ''ROLE_PERMISSIONS_CHANGED''"
| "event_value AUDIT_VIEWED = ''AUDIT_VIEWED''"
| "event_value PERMISSION_DENIED = ''PERMISSION_DENIED''"

definition COUNTED_ELSEWHERE :: "audit_kind list" where
  "COUNTED_ELSEWHERE = [URL_CREATED, URL_ACCESSED, URL_DELETED]"

section \<open>The repository of security events\<close>

definition record_event :: "ident \<Rightarrow> string \<Rightarrow> moment \<Rightarrow> database \<Rightarrow> database" where
  "record_event new_id event_type occurred_at db =
     db\<lparr>db_security_events := db_security_events db @ [\<lparr>se_id = new_id, se_event_type = event_type, se_occurred_at = occurred_at\<rparr>]\<rparr>"

text \<open>The counts of an event type, made when it is first met.\<close>

definition row_of :: "int \<Rightarrow> string \<Rightarrow> (string \<times> int list) list \<Rightarrow> int list" where
  "row_of buckets event_type counted =
     (case map_of counted event_type of None \<Rightarrow> replicate (nat buckets) 0 | Some row \<Rightarrow> row)"

definition count_group :: "int \<Rightarrow> (string \<times> int) \<times> security_event list \<Rightarrow> (string \<times> int list) list \<Rightarrow> (string \<times> int list) list" where
  "count_group buckets g counted =
     (case g of ((event_type, position), es) \<Rightarrow>
        let row = row_of buckets event_type counted; total = int (length es)
        in dict_set event_type
             (if 0 \<le> position \<and> position < buckets then row[nat position := row ! nat position + total]
              else if position = buckets then row[nat (buckets - 1) := row ! nat (buckets - 1) + total]
              else row) counted)"

definition day_totals_between :: "database \<Rightarrow> moment \<Rightarrow> moment \<Rightarrow> (moment \<times> string \<times> int) list" where
  "day_totals_between db since until =
     map (\<lambda>d. (sd_day d, sd_event_type d, sd_total d))
       (sort_key sd_day (filter (\<lambda>d. since \<le> sd_day d \<and> sd_day d < until) (db_security_days db)))"

definition lay_day :: "moment \<Rightarrow> int \<Rightarrow> int \<Rightarrow> moment \<times> string \<times> int \<Rightarrow> (string \<times> int list) list \<Rightarrow> (string \<times> int list) list" where
  "lay_day since width buckets d counted =
     (case d of (midnight, event_type, day_total) \<Rightarrow>
        let position = (midnight - since) div second div width
        in if \<not> (0 \<le> position \<and> position < buckets) then counted
           else dict_set event_type ((row_of buckets event_type counted)[nat position := day_total]) counted)"

definition lay_the_folded_days_over ::
  "database \<Rightarrow> (string \<times> int list) list \<Rightarrow> moment \<Rightarrow> int \<Rightarrow> int \<Rightarrow> (string \<times> int list) list" where
  "lay_the_folded_days_over db counted since width buckets =
     (if width \<noteq> DAY \<or> since \<noteq> midnight_of since then counted
      else fold (lay_day since width buckets) (day_totals_between db since (since + seconds (width * buckets))) counted)"

definition buckets_between :: "database \<Rightarrow> moment \<Rightarrow> moment \<Rightarrow> int \<Rightarrow> (string \<times> int list) list" where
  "buckets_between db since until buckets =
     (if buckets < 1 then []
      else
        let width = max 1 ((until - since) div second div buckets);
            groups = group_by (\<lambda>e. (se_event_type e, (epoch_seconds (se_occurred_at e) - epoch_seconds since) div width))
              (filter (\<lambda>e. since \<le> se_occurred_at e \<and> se_occurred_at e < until) (db_security_events db));
            counted = fold (count_group buckets) groups []
        in sort_key (\<lambda>pair. - sum_list (snd pair)) (lay_the_folded_days_over db counted since width buckets))"

definition first_unfolded_event_day :: "database \<Rightarrow> moment option" where
  "first_unfolded_event_day db =
     (case map sd_day (db_security_days db) of [] \<Rightarrow> None | d # ds \<Rightarrow> Some (fold max ds d + days 1))"

definition fold_days_before :: "moment \<Rightarrow> database \<Rightarrow> (exn, int) result \<times> database" where
  "fold_days_before today db =
     (let since = first_unfolded_event_day db;
          grouped = group_by (\<lambda>e. (se_event_type e, epoch_seconds (se_occurred_at e) div DAY))
            (filter (\<lambda>e. se_occurred_at e < today \<and> (case since of None \<Rightarrow> True | Some s \<Rightarrow> s \<le> se_occurred_at e)) (db_security_events db));
          rows = map (\<lambda>((event_type, index), es).
            \<lparr>sd_day = index * DAY * second, sd_event_type = event_type, sd_total = int (length es)\<rparr>) grouped
      in if list_all (\<lambda>r. \<not> list_ex (\<lambda>d. sd_event_type d = sd_event_type r \<and> sd_day d = sd_day r) (db_security_days db)) rows
         then (Inr (int (length rows)), db\<lparr>db_security_days := db_security_days db @ rows\<rparr>)
         else (Inl (IntegrityError ''security_event_days''), db))"

definition delete_events_before :: "moment \<Rightarrow> database \<Rightarrow> int \<times> database" where
  "delete_events_before moment db =
     (int (length (filter (\<lambda>e. se_occurred_at e < moment) (db_security_events db))),
      db\<lparr>db_security_events := filter (\<lambda>e. \<not> se_occurred_at e < moment) (db_security_events db)\<rparr>)"

section \<open>Counting, reading and folding\<close>

definition count_event :: "bool \<Rightarrow> moment \<Rightarrow> ident \<Rightarrow> audit_kind \<Rightarrow> database \<Rightarrow> database" where
  "count_event accepted now new_id event db =
     (if event \<in> set COUNTED_ELSEWHERE then db
      else if accepted then record_event new_id (event_value event) now db
      else db)"

record security_counts =
  sc_period :: string
  sc_since :: moment
  sc_until :: moment
  sc_totals :: "(string \<times> int) list"
  sc_series :: "(string \<times> int list) list"
  sc_buckets :: int

definition require_may_read :: "request_context \<Rightarrow> database \<Rightarrow> (exn, unit) result" where
  "require_may_read cx db =
     rbind (load_actor cx db) (\<lambda>requester.
       if is_allowed db requester AUDIT_VIEW then Inr ()
       else if requester = None then Inl (Domain (DomainError ''Authentication required'' ''UNAUTHENTICATED''))
       else Inl (Domain (PermissionDeniedError ''Not authorized'' [AUDIT_VIEW] [] None [])))"

definition get_security_counts :: "request_context \<Rightarrow> string \<Rightarrow> moment \<Rightarrow> database \<Rightarrow> (exn, security_counts) result" where
  "get_security_counts cx period now db =
     (case map_of PERIODS period of
        None \<Rightarrow> Inl (Domain (unknown_period period))
      | Some (span, buckets) \<Rightarrow>
          rbind (require_may_read cx db) (\<lambda>_.
            case span_of now span buckets of (since, until) \<Rightarrow>
              let series = buckets_between db since until buckets;
                  totals = sort_key (\<lambda>pair. - snd pair) (map (\<lambda>(event_type, counts). (event_type, sum_list counts)) series)
              in Inr \<lparr>sc_period = period, sc_since = since, sc_until = until, sc_totals = totals, sc_series = series, sc_buckets = buckets\<rparr>))"

text \<open>The roll-up tells the journal what it did, and that is an event like any other.\<close>

definition roll_up_security_events ::
  "int \<Rightarrow> moment \<Rightarrow> bool \<Rightarrow> moment \<Rightarrow> ident \<Rightarrow> database \<Rightarrow> (exn, int \<times> int) result \<times> database" where
  "roll_up_security_events retention_days now accepted told_at new_id db =
     (let today = midnight_of now
      in case fold_days_before today db of
           (Inl e, db1) \<Rightarrow> (Inl e, db1)
         | (Inr folded, db1) \<Rightarrow>
             (case (if retention_days > 0 then delete_events_before (today - days retention_days) db1 else (0, db1)) of
                (swept, db2) \<Rightarrow>
                  (Inr (folded, swept),
                   if folded \<noteq> 0 \<or> swept \<noteq> 0 then count_event accepted told_at new_id SECURITY_HISTORY_SWEPT db2 else db2)))"

section \<open>Folding security events\<close>

definition security_day_view :: "security_day \<Rightarrow> (string \<times> moment) \<times> int" where
  "security_day_view d = ((sd_event_type d, sd_day d), sd_total d)"

lemma first_unfolded_event_bound:
  "(case first_unfolded_event_day db of None \<Rightarrow> True | Some s \<Rightarrow> s \<le> t) \<longleftrightarrow> (\<forall>d \<in> set (db_security_days db). sd_day d + days 1 \<le> t)"
proof -
  have "fold max ds d + days 1 \<le> t \<longleftrightarrow> (\<forall>x \<in> set (d # ds). x + days 1 \<le> t)" for ds d
    by (induction ds arbitrary: d) (auto simp: max_def)
  then show ?thesis by (cases "db_security_days db") (auto simp: first_unfolded_event_day_def)
qed

lemma fold_days_before_writes:
  assumes p: "pending = filter (\<lambda>e. se_occurred_at e < b \<and> (\<forall>r \<in> set (map security_day_view (db_security_days db)). snd (fst r) + days 1 \<le> se_occurred_at e)) (db_security_events db)"
    and f: "fresh = map (\<lambda>kd. (kd, int (length (of_day se_event_type se_occurred_at kd pending))))
          (remdups (map (\<lambda>e. (se_event_type e, midnight_of (se_occurred_at e))) pending))"
    and d: "distinct (map fst (map security_day_view (db_security_days db) @ fresh))"
  shows "fst (fold_days_before b db) = Inr (int (length fresh)) \<and> db_security_events (snd (fold_days_before b db)) = db_security_events db
     \<and> map security_day_view (db_security_days (snd (fold_days_before b db))) = map security_day_view (db_security_days db) @ fresh"
proof -
  let ?row = "\<lambda>((event_type, index), es). \<lparr>sd_day = index * DAY * second, sd_event_type = event_type, sd_total = int (length es)\<rparr>"
  let ?key = "\<lambda>e. (se_event_type e, epoch_seconds (se_occurred_at e) div DAY)"
  let ?h = "\<lambda>(k, i). (k, i * DAY * second)"
  have pend: "filter (\<lambda>e. se_occurred_at e < b \<and> (case first_unfolded_event_day db of None \<Rightarrow> True | Some s \<Rightarrow> s \<le> se_occurred_at e)) (db_security_events db) = pending"
    unfolding p first_unfolded_event_bound by (simp add: security_day_view_def)
  define rows where "rows = map ?row (group_by ?key pending)"
  have "inj ?h" by (auto simp: inj_def DAY_def second_def)
  from group_by_inj [OF this, of ?key pending]
  have g: "group_by (\<lambda>e. (se_event_type e, midnight_of (se_occurred_at e))) pending = map (\<lambda>(k, g). (?h k, g)) (group_by ?key pending)"
    by (simp add: day_index)
  have "fresh = map (\<lambda>(kd, es). (kd, int (length es))) (group_by (\<lambda>e. (se_event_type e, midnight_of (se_occurred_at e))) pending)"
    by (simp add: f group_by_def of_day_def prod_eq_iff)
  also have "\<dots> = map security_day_view rows"
    unfolding g rows_def by (auto simp: security_day_view_def)
  finally have fresh: "fresh = map security_day_view rows" .
  have "list_all (\<lambda>r. \<not> list_ex (\<lambda>d. sd_event_type d = sd_event_type r \<and> sd_day d = sd_day r) (db_security_days db)) rows"
    using d by (fastforce simp: fresh security_day_view_def list_all_iff list_ex_iff)
  then show ?thesis by (auto simp: fold_days_before_def Let_def pend rows_def [symmetric] fresh)
qed

interpretation event_fold: day_fold db_security_events "\<lambda>db. map security_day_view (db_security_days db)" se_event_type se_occurred_at
  "\<lambda>es. int (length es)" fold_days_before delete_events_before
  by unfold_locales (rule fold_days_before_writes, auto simp: delete_events_before_def not_less)

section \<open>The history of security events\<close>

text \<open>
  What happens to the counts: events are told, the roll-up runs, and other transactions leave
  the tables alone. The history has every event whose count the database accepted, that of
  the roll-up included.
\<close>

definition sweep_report :: "bool \<Rightarrow> moment \<Rightarrow> ident \<Rightarrow> (exn, int \<times> int) result \<Rightarrow> security_event list" where
  "sweep_report accepted told_at new_id res =
     (case res of
        Inl _ \<Rightarrow> []
      | Inr (folded, swept) \<Rightarrow>
          if accepted \<and> (folded \<noteq> 0 \<or> swept \<noteq> 0)
          then [\<lparr>se_id = new_id, se_event_type = event_value SECURITY_HISTORY_SWEPT, se_occurred_at = told_at\<rparr>] else [])"

inductive security_run :: "int \<Rightarrow> security_event list \<Rightarrow> moment \<Rightarrow> database \<Rightarrow> bool" for retention :: int where
  start: "db_security_events db = [] \<Longrightarrow> db_security_days db = [] \<Longrightarrow> security_run retention [] now db"
| counted: "security_run retention hist t db \<Longrightarrow> t \<le> now \<Longrightarrow>
    db' = count_event accepted now new_id event db \<Longrightarrow> db_security_events db' = db_security_events db @ new \<Longrightarrow>
    security_run retention (hist @ new) now db'"
| rolled: "security_run retention hist t db \<Longrightarrow> t \<le> now \<Longrightarrow> now \<le> told_at \<Longrightarrow>
    (res, db') = roll_up_security_events retention now accepted told_at new_id db \<Longrightarrow>
    security_run retention (hist @ sweep_report accepted told_at new_id res) told_at db'"
| elsewhere: "security_run retention hist t db \<Longrightarrow> t \<le> now \<Longrightarrow>
    db_security_events db' = db_security_events db \<Longrightarrow> db_security_days db' = db_security_days db \<Longrightarrow>
    security_run retention hist now db'"

definition events_told :: "int \<Rightarrow> security_event list \<Rightarrow> moment \<Rightarrow> database \<Rightarrow> bool" where
  "events_told retention hist t db \<longleftrightarrow>
     (\<exists>b c. event_fold.tells hist b c db \<and> b \<le> midnight_of t \<and>
        (if retention > 0 then c \<le> midnight_of t - days retention else db_security_events db = hist))"

lemma events_told_later: "events_told retention hist t db \<Longrightarrow> t \<le> now \<Longrightarrow> events_told retention hist now db"
  unfolding events_told_def using midnight_mono [of t now]
  by (elim exE conjE, rule_tac x = b in exI, rule_tac x = c in exI) (auto split: if_splits)

lemma events_told_record:
  assumes told: "events_told retention hist t db0" and "t \<le> now" and "new = [] \<or> (\<exists>e. new = [e] \<and> se_occurred_at e = now)"
    and db: "db_security_events db = db_security_events db0 @ new" "db_security_days db = db_security_days db0"
  shows "events_told retention (hist @ new) now db"
proof -
  obtain b c where t: "event_fold.tells hist b c db0" and b: "b \<le> midnight_of now"
    and c: "if retention > 0 then c \<le> midnight_of now - days retention else db_security_events db0 = hist"
    using events_told_later [OF told assms(2)] unfolding events_told_def by auto
  have "event_fold.tells (hist @ new) b c db"
  proof (cases "new = []")
    case True
    then show ?thesis using t db by (simp add: event_fold.tells_def)
  next
    case False
    then obtain e where e: "new = [e]" "se_occurred_at e = now" using assms(3) by auto
    have "b \<le> se_occurred_at e" using b e(2) midnight_bounds(1) [of now] by simp
    then show ?thesis unfolding e(1) by (rule event_fold.record_tells [OF t]) (simp_all add: db e(1))
  qed
  then show ?thesis unfolding events_told_def using b c db by (intro exI [of _ b] exI [of _ c]) auto
qed

lemma count_event_effect:
  "\<exists>new. db_security_events (count_event accepted now new_id event db) = db_security_events db @ new
     \<and> (new = [] \<or> (\<exists>e. new = [e] \<and> se_occurred_at e = now))
     \<and> db_security_days (count_event accepted now new_id event db) = db_security_days db"
  by (simp add: count_event_def record_event_def)

lemma events_told_roll_up:
  assumes told: "events_told retention hist t db" and "t \<le> now" "now \<le> told_at"
    and up: "(res, db') = roll_up_security_events retention now accepted told_at new_id db"
  shows "\<exists>p. res = Inr p" and "events_told retention (hist @ sweep_report accepted told_at new_id res) told_at db'"
proof -
  obtain b c where t: "event_fold.tells hist b c db" and b: "b \<le> midnight_of now"
    and c: "if retention > 0 then c \<le> midnight_of now - days retention else db_security_events db = hist"
    using events_told_later [OF told assms(2)] unfolding events_told_def by auto
  obtain r db1 where r: "fold_days_before (midnight_of now) db = (r, db1)" by (rule prod.exhaust)
  obtain n where n: "r = Inr n" and t1: "event_fold.tells hist (midnight_of now) c db1"
    using event_fold.fold_tells [OF t midnight_idem b] r by auto
  let ?cut = "midnight_of now - days retention"
  obtain swept db2 where sw: "(if retention > 0 then delete_events_before ?cut db1 else (0, db1)) = (swept, db2)" by (rule prod.exhaust)
  have res: "res = Inr (n, swept)" and db': "db' = (if n \<noteq> 0 \<or> swept \<noteq> 0 then count_event accepted told_at new_id SECURITY_HISTORY_SWEPT db2 else db2)"
    using up by (simp_all add: roll_up_security_events_def Let_def r n sw)
  show "\<exists>p. res = Inr p" using res by simp
  have "events_told retention hist now db2"
  proof (cases "retention > 0")
    case True
    have "days 0 \<le> days retention" using True by simp
    then have "?cut \<le> midnight_of now" by (simp add: days_def)
    then have "event_fold.tells hist (midnight_of now) (max c ?cut) (snd (delete_events_before ?cut db1))"
      by (rule event_fold.sweep_tells [OF t1])
    then show ?thesis unfolding events_told_def using c True sw
      by (intro exI [of _ "midnight_of now"] exI [of _ "max c ?cut"]) simp
  next
    case False
    have "db_security_events db1 = db_security_events db"
      using r by (auto simp: fold_days_before_def Let_def split: if_splits)
    then show ?thesis unfolding events_told_def using t1 False c sw by auto
  qed
  moreover have "sweep_report accepted told_at new_id res = [] \<or> (\<exists>e. sweep_report accepted told_at new_id res = [e] \<and> se_occurred_at e = told_at)"
    by (simp add: sweep_report_def res)
  moreover have "db_security_events db' = db_security_events db2 @ sweep_report accepted told_at new_id res \<and> db_security_days db' = db_security_days db2"
    by (simp add: db' res sweep_report_def count_event_def COUNTED_ELSEWHERE_def record_event_def)
  ultimately show "events_told retention (hist @ sweep_report accepted told_at new_id res) told_at db'"
    using assms(3) by (intro events_told_record) auto
qed

lemma security_run_told: "security_run retention hist t db \<Longrightarrow> events_told retention hist t db"
proof (induction rule: security_run.induct)
  case (start db now)
  let ?b = "midnight_of now"
  have "event_fold.tells [] ?b (min ?b (?b - days retention)) db"
    using start by (simp add: event_fold.tells_def of_day_def)
  then show ?case unfolding events_told_def using start by (intro exI [of _ ?b] exI [of _ "min ?b (?b - days retention)"]) simp
next
  case (counted hist t db now db' accepted new_id event new)
  obtain new' where "db_security_events db' = db_security_events db @ new'" "new' = [] \<or> (\<exists>e. new' = [e] \<and> se_occurred_at e = now)"
      "db_security_days db' = db_security_days db"
    using count_event_effect [of accepted now new_id event db] unfolding counted.hyps(3) by blast
  then show ?case using counted by (intro events_told_record [OF counted.IH]) auto
next
  case (rolled hist t db now told_at res db' accepted new_id)
  then show ?case by (intro events_told_roll_up)
next
  case (elsewhere hist t db now db')
  then show ?case using events_told_record [of retention hist t db now "[]" db'] by simp
qed

section \<open>Reading the counts\<close>

definition counts_at :: "(string \<times> int list) list \<Rightarrow> string \<Rightarrow> int \<Rightarrow> int" where
  "counts_at series ty i = (case map_of series ty of None \<Rightarrow> 0 | Some row \<Rightarrow> row ! nat i)"

definition rows_ok :: "int \<Rightarrow> (string \<times> int list) list \<Rightarrow> bool" where
  "rows_ok n series \<longleftrightarrow> distinct (map fst series) \<and> (\<forall>ty row. map_of series ty = Some row \<longrightarrow> length row = nat n)"

lemma row_of_length: "rows_ok n m \<Longrightarrow> length (row_of n ty m) = nat n"
  by (auto simp: row_of_def rows_ok_def split: option.split)

lemma row_of_at: "0 \<le> i \<Longrightarrow> i < n \<Longrightarrow> row_of n ty m ! nat i = counts_at m ty i"
  by (simp add: row_of_def counts_at_def split: option.split)

lemma rows_ok_set: "rows_ok n m \<Longrightarrow> length row = nat n \<Longrightarrow> rows_ok n (dict_set ty row m)"
  by (auto simp: rows_ok_def split: if_splits)

lemma counts_at_set: "counts_at (dict_set t row m) ty i = (if t = ty then row ! nat i else counts_at m ty i)"
  by (simp add: counts_at_def)

lemma count_group_ok: "rows_ok n m \<Longrightarrow> rows_ok n (count_group n g m)"
  by (cases g, cases "fst g") (simp add: count_group_def Let_def rows_ok_set row_of_length)

lemma count_group_at:
  assumes ok: "rows_ok n m" and p: "0 \<le> p" "p \<le> n" and i: "0 \<le> i" "i < n"
  shows "counts_at (count_group n ((t, p), es) m) ty i = counts_at m ty i + (if t = ty \<and> slot_of n p = i then int (length es) else 0)"
proof -
  have n: "1 \<le> n" using i by simp
  have slot: "slot_of n p = (if p < n then p else n - 1)" using p n by (simp add: slot_of_def)
  have s: "nat (slot_of n p) < nat n" "0 \<le> slot_of n p" "slot_of n p < n" using slot_bounds [OF n, of p] by auto
  have "count_group n ((t, p), es) m = dict_set t ((row_of n t m)[nat (slot_of n p) := row_of n t m ! nat (slot_of n p) + int (length es)]) m"
    using p by (auto simp: count_group_def Let_def slot)
  moreover have "nat (slot_of n p) = nat i \<longleftrightarrow> slot_of n p = i" using s(2) i(1) by auto
  ultimately show ?thesis
    using s i by (simp add: counts_at_set row_of_length [OF ok] nth_list_update row_of_at)
qed

lemma counted_groups:
  assumes "rows_ok n m" and "\<forall>g \<in> set gs. 0 \<le> snd (fst g) \<and> snd (fst g) \<le> n" and i: "0 \<le> i" "i < n"
  shows "rows_ok n (fold (count_group n) gs m) \<and> counts_at (fold (count_group n) gs m) ty i = counts_at m ty i +
    sum_list (map (\<lambda>(k, es). int (length es)) (filter (\<lambda>(k, es). fst k = ty \<and> slot_of n (snd k) = i) gs))"
  using assms(1,2)
proof (induction gs arbitrary: m)
  case (Cons g gs)
  obtain t p es where g: "g = ((t, p), es)" by (metis prod.collapse)
  have p: "0 \<le> p" "p \<le> n" using Cons.prems(2) by (auto simp: g)
  have "rows_ok n (count_group n g m)" by (rule count_group_ok [OF Cons.prems(1)])
  from Cons.IH [OF this] Cons.prems(2) show ?case
    using count_group_at [OF Cons.prems(1) p i, of t es ty] by (auto simp: g)
qed simp

lemma lay_day_ok: "rows_ok n m \<Longrightarrow> rows_ok n (lay_day since w n d m)"
  by (cases d) (simp add: lay_day_def Let_def rows_ok_set row_of_length)

lemma lay_day_at:
  assumes ok: "rows_ok n m" and i: "0 \<le> i" "i < n" and d: "d = (since + days j, t, v)"
  shows "counts_at (lay_day since DAY n d m) ty i = (if t = ty \<and> j = i then v else counts_at m ty i)"
proof -
  have "days j div second div DAY = j" by (simp add: days_def second_def DAY_def)
  moreover have "nat j = nat i \<longleftrightarrow> j = i" if "0 \<le> j" using that i by auto
  ultimately show ?thesis
    using i by (auto simp: d lay_day_def Let_def counts_at_set row_of_length [OF ok] nth_list_update row_of_at)
qed

lemma laid_days:
  assumes i: "0 \<le> i" "i < n" and "rows_ok n m" and "\<forall>d \<in> set ds. \<exists>j. fst d = since + days j" and "distinct (map (\<lambda>d. (fst (snd d), fst d)) ds)"
  shows "rows_ok n (fold (lay_day since DAY n) ds m) \<and> counts_at (fold (lay_day since DAY n) ds m) ty i =
    (case filter (\<lambda>d. fst (snd d) = ty \<and> fst d = since + days i) ds of [] \<Rightarrow> counts_at m ty i | d # _ \<Rightarrow> snd (snd d))"
  using assms(3-5)
proof (induction ds arbitrary: m)
  case (Cons d ds)
  obtain j t v where d: "d = (since + days j, t, v)" using Cons.prems(2) by (metis list.set_intros(1) prod.collapse)
  have ok: "rows_ok n (lay_day since DAY n d m)" by (rule lay_day_ok [OF Cons.prems(1)])
  have later: "filter (\<lambda>d. fst (snd d) = ty \<and> fst d = since + days i) ds = []" if "t = ty \<and> j = i"
    using Cons.prems(3) that by (auto simp: d filter_empty_conv image_iff)
  show ?case
    using Cons.IH [OF ok] Cons.prems(2,3) lay_day_at [OF Cons.prems(1) i d, of ty] later
    by (auto simp: d split: list.split)
qed simp

lemma map_of_sort_key: "distinct (map fst xs) \<Longrightarrow> map_of (sort_key f xs) = map_of xs"
  by (rule map_of_inject_set [THEN iffD2]) (auto simp: distinct_map intro: inj_on_subset)

lemma row_sum: "rows_ok n m \<Longrightarrow> 0 \<le> n \<Longrightarrow> (case map_of m ty of None \<Rightarrow> 0 | Some row \<Rightarrow> sum_list row) = sum_list (map (counts_at m ty) [0..n - 1])"
proof (cases "map_of m ty")
  case None
  then have "counts_at m ty = (\<lambda>_. 0)" by (simp add: counts_at_def fun_eq_iff)
  then show ?thesis using None by simp
next
  case (Some row)
  assume "rows_ok n m" "0 \<le> n"
  then have "length row = nat n" using Some by (simp add: rows_ok_def)
  then have "map (counts_at m ty) [0..n - 1] = row"
    using Some \<open>0 \<le> n\<close> by (intro nth_equalityI) (auto simp: counts_at_def nth_upto)
  then show ?thesis using Some by simp
qed

abbreviation slot_in :: "moment \<Rightarrow> int \<Rightarrow> int \<Rightarrow> security_event \<Rightarrow> int" where
  "slot_in since width n e \<equiv> slot_of n ((epoch_seconds (se_occurred_at e) - epoch_seconds since) div width)"

abbreviation in_slot :: "string \<Rightarrow> moment \<Rightarrow> moment \<Rightarrow> int \<Rightarrow> int \<Rightarrow> int \<Rightarrow> security_event list \<Rightarrow> security_event list" where
  "in_slot ty since until width n i es \<equiv>
     filter (\<lambda>e. se_event_type e = ty \<and> since \<le> se_occurred_at e \<and> se_occurred_at e < until \<and> slot_in since width n e = i) es"

definition raw_groups :: "database \<Rightarrow> moment \<Rightarrow> moment \<Rightarrow> int \<Rightarrow> ((string \<times> int) \<times> security_event list) list" where
  "raw_groups db since until width =
     group_by (\<lambda>e. (se_event_type e, (epoch_seconds (se_occurred_at e) - epoch_seconds since) div width))
       (filter (\<lambda>e. since \<le> se_occurred_at e \<and> se_occurred_at e < until) (db_security_events db))"

lemma position_bounds:
  assumes "since \<le> m" "m < since + seconds (n * width)" "1 \<le> width"
  shows "0 \<le> (epoch_seconds m - epoch_seconds since) div width \<and> (epoch_seconds m - epoch_seconds since) div width \<le> n"
proof -
  have "epoch_seconds since \<le> epoch_seconds m" using assms(1) by (simp add: epoch_seconds_def zdiv_mono1 second_def)
  moreover have "epoch_seconds m \<le> epoch_seconds since + n * width"
  proof -
    have "m div second \<le> (since + n * width * second) div second"
      using assms(2) by (intro zdiv_mono1) (simp_all add: seconds_def second_def)
    then show ?thesis by (simp add: epoch_seconds_def second_def)
  qed
  then have "(epoch_seconds m - epoch_seconds since) div width \<le> n * width div width" using assms(3) by (intro zdiv_mono1) simp_all
  ultimately show ?thesis using assms(3) by (simp add: pos_imp_zdiv_nonneg_iff)
qed

lemma raw_counts:
  assumes u: "until = since + seconds (n * width)" and w: "1 \<le> width" and i: "0 \<le> i" "i < n"
  shows "rows_ok n (fold (count_group n) (raw_groups db since until width) [])"
    and "counts_at (fold (count_group n) (raw_groups db since until width) []) ty i = int (length (in_slot ty since until width n i (db_security_events db)))"
proof -
  let ?raw = "filter (\<lambda>e. since \<le> se_occurred_at e \<and> se_occurred_at e < until) (db_security_events db)"
  let ?key = "\<lambda>e. (se_event_type e, (epoch_seconds (se_occurred_at e) - epoch_seconds since) div width)"
  have "\<forall>g \<in> set (raw_groups db since until width). 0 \<le> snd (fst g) \<and> snd (fst g) \<le> n"
    using position_bounds [OF _ _ w, of since _ n] by (fastforce simp: raw_groups_def group_by_def u)
  then have c: "rows_ok n (fold (count_group n) (raw_groups db since until width) []) \<and>
      counts_at (fold (count_group n) (raw_groups db since until width) []) ty i = counts_at [] ty i +
        sum_list (map (\<lambda>(k, es). int (length es)) (filter (\<lambda>(k, es). fst k = ty \<and> slot_of n (snd k) = i) (raw_groups db since until width)))"
    by (intro counted_groups i) (simp_all add: rows_ok_def)
  then show "rows_ok n (fold (count_group n) (raw_groups db since until width) [])" by simp
  have "sum_list (map (\<lambda>(k, es). int (length es)) (filter (\<lambda>(k, es). fst k = ty \<and> slot_of n (snd k) = i) (raw_groups db since until width)))
      = int (length (filter (\<lambda>e. fst (?key e) = ty \<and> slot_of n (snd (?key e)) = i) ?raw))"
    using group_by_sum [of "\<lambda>_. 1 :: int" "\<lambda>k. fst k = ty \<and> slot_of n (snd k) = i" ?key ?raw] by (simp add: raw_groups_def sum_list_triv)
  also have "filter (\<lambda>e. fst (?key e) = ty \<and> slot_of n (snd (?key e)) = i) ?raw = in_slot ty since until width n i (db_security_events db)"
    by (auto intro: filter_cong)
  finally show "counts_at (fold (count_group n) (raw_groups db since until width) []) ty i = int (length (in_slot ty since until width n i (db_security_events db)))"
    using c by (simp add: counts_at_def)
qed

text \<open>A slot of whole days is a day.\<close>

lemma in_slot_day:
  assumes start: "midnight_of since = since" and i: "0 \<le> i" "i < n"
  shows "in_slot ty since (since + days n) DAY n i es = filter (\<lambda>e. se_event_type e = ty \<and> midnight_of (se_occurred_at e) = since + days i) es"
proof (intro filter_cong refl)
  fix e :: security_event
  let ?m = "se_occurred_at e" and ?key = "(epoch_seconds (se_occurred_at e) - epoch_seconds since) div DAY"
  have until: "midnight_of (since + days n) = since + days n" using start by (metis days_add midnight_alt midnight_days)
  have key: "midnight_of ?m = since + days ?key" using day_slot [OF start] by blast
  have "since \<le> ?m \<and> ?m < since + days n \<longleftrightarrow> days 0 \<le> days ?key \<and> days ?key < days n"
    using key before_midnight_iff [OF start, of ?m] before_midnight_iff [OF until, of ?m] by (auto simp: days_def)
  then have "since \<le> ?m \<and> ?m < since + days n \<longleftrightarrow> 0 \<le> ?key \<and> ?key < n" by simp
  moreover have "midnight_of ?m = since + days i \<longleftrightarrow> ?key = i" unfolding key by simp
  ultimately show "(se_event_type e = ty \<and> since \<le> ?m \<and> ?m < since + days n \<and> slot_in since DAY n e = i) \<longleftrightarrow>
      (se_event_type e = ty \<and> midnight_of ?m = since + days i)"
    using i by (auto simp: slot_in_range)
qed

lemma one_row_per_key: "distinct (map f xs) \<Longrightarrow> filter (\<lambda>x. f x = k) xs = [] \<or> (\<exists>x. filter (\<lambda>x. f x = k) xs = [x])"
proof (induction xs)
  case (Cons x xs)
  have "filter (\<lambda>y. f y = f x) xs = []" using Cons.prems by (auto simp: filter_empty_conv image_iff)
  then show ?case using Cons by auto
qed simp

lemma folded_over:
  assumes told: "events_told retention hist t db" and start: "midnight_of since = since" and i: "0 \<le> i" "i < n" and ok: "rows_ok n m"
    and m: "counts_at m ty i = int (length (filter (\<lambda>e. se_event_type e = ty \<and> midnight_of (se_occurred_at e) = since + days i) (db_security_events db)))"
  shows "rows_ok n (lay_the_folded_days_over db m since DAY n)"
    and "counts_at (lay_the_folded_days_over db m since DAY n) ty i
      = int (length (filter (\<lambda>e. se_event_type e = ty \<and> midnight_of (se_occurred_at e) = since + days i) hist))"
proof -
  obtain b c where t: "event_fold.tells hist b c db" using told unfolding events_told_def by auto
  let ?ds = "day_totals_between db since (since + seconds (DAY * n))"
  let ?at = "since + days i"
  let ?F = "filter (\<lambda>d. sd_event_type d = ty \<and> sd_day d = ?at) (db_security_days db)"
  have until: "since + seconds (DAY * n) = since + days n" by (simp add: seconds_def days_def)
  have at: "midnight_of ?at = ?at" using start by (metis days_add midnight_alt midnight_days)
  have dist: "distinct (map (\<lambda>d. (sd_event_type d, sd_day d)) (db_security_days db))"
    using t by (simp add: event_fold.tells_def comp_def security_day_view_def)
  have mids: "\<exists>j. sd_day d = since + days j" if d: "d \<in> set (db_security_days db)" for d
  proof -
    have "security_day_view d \<in> set (map security_day_view (db_security_days db))" using d by simp
    from event_fold.tells_midnights [OF t this] have "midnight_of (sd_day d) = sd_day d" by (simp add: security_day_view_def)
    then have "sd_day d = days (sd_day d div (DAY * second))" "since = days (since div (DAY * second))" using start midnight_alt by metis+
    then have "sd_day d = since + days (sd_day d div (DAY * second) - since div (DAY * second))" by (metis days_add add_diff_cancel_left' diff_add_cancel add.commute)
    then show ?thesis by blast
  qed
  have ds: "\<forall>d \<in> set ?ds. \<exists>j. fst d = since + days j" using mids by (auto simp: day_totals_between_def)
  have "distinct (map (\<lambda>d. (sd_event_type d, sd_day d)) (filter (\<lambda>d. since \<le> sd_day d \<and> sd_day d < since + days n) (db_security_days db)))"
    by (rule distinct_map_filter [OF dist])
  then have dd: "distinct (map (\<lambda>d. (fst (snd d), fst d)) ?ds)"
    unfolding day_totals_between_def until map_map comp_def fst_conv snd_conv by (simp add: distinct_map)
  have F: "?F = [] \<or> (\<exists>x. ?F = [x])"
    using one_row_per_key [OF dist, of "(ty, ?at)"] by (simp add: prod_eq_iff)
  have r: "since \<le> ?at" "?at < since + days n" using days_mono [of 0 i] days_less [of i n] i by (simp_all add: days_def)
  have "filter (\<lambda>d. fst (snd d) = ty \<and> fst d = ?at) ?ds = map (\<lambda>d. (sd_day d, sd_event_type d, sd_total d)) (sort_key sd_day ?F)"
    using r unfolding day_totals_between_def until by (auto simp: filter_map comp_def filter_sort [symmetric] intro!: arg_cong [where f = "map _"] filter_cong)
  then have seen: "filter (\<lambda>d. fst (snd d) = ty \<and> fst d = ?at) ?ds = map (\<lambda>d. (sd_day d, sd_event_type d, sd_total d)) ?F" using F by auto
  note laid = laid_days [OF i ok ds dd, of ty, unfolded seen]
  have lay: "lay_the_folded_days_over db m since DAY n = fold (lay_day since DAY n) ?ds m" using start by (simp add: lay_the_folded_days_over_def)
  show "rows_ok n (lay_the_folded_days_over db m since DAY n)" using laid unfolding lay by simp
  have view: "filter (\<lambda>r. fst (fst r) = ty \<and> snd (fst r) = ?at) (map security_day_view (db_security_days db)) = map security_day_view ?F"
    by (simp add: filter_map comp_def security_day_view_def)
  have one: "int (length es) = sum_list (map (\<lambda>_. 1) es)" for es :: "security_event list" by (simp add: sum_list_triv)
  have "(if ?F \<noteq> [] then sum_list (map sd_total ?F)
      else int (length (filter (\<lambda>e. se_event_type e = ty \<and> midnight_of (se_occurred_at e) = ?at) (db_security_events db))))
    = int (length (filter (\<lambda>e. se_event_type e = ty \<and> midnight_of (se_occurred_at e) = ?at) hist))"
    using event_fold.day_reads_history [OF t at one, of "\<lambda>k. k = ty", unfolded view map_is_Nil_conv map_map comp_def]
    by (simp only: security_day_view_def snd_conv one)
  then show "counts_at (lay_the_folded_days_over db m since DAY n) ty i
      = int (length (filter (\<lambda>e. se_event_type e = ty \<and> midnight_of (se_occurred_at e) = ?at) hist))"
    using laid F m unfolding lay by auto
qed

lemma periods: "map_of PERIODS period = Some (span, n) \<Longrightarrow>
    1 \<le> n \<and> (\<exists>width. 1 \<le> width \<and> span = seconds (n * width) \<and> (width = DAY \<or> (width < DAY \<and> span \<le> days 7)))"
  by (auto simp: PERIODS_def seconds_def days_def DAY_def second_def split: if_splits)

text \<open>The buckets of a period, read through folds and sweeps, are those of the history.\<close>

lemma buckets_are_the_history:
  assumes told: "events_told retention hist now db" and ret: "retention \<le> 0 \<or> 7 \<le> retention"
    and p: "map_of PERIODS period = Some (span, n)" and su: "span_of now span n = (since, until)"
  obtains width where "span = seconds (n * width)" and "rows_ok n (buckets_between db since until n)"
    and "\<And>ty i. 0 \<le> i \<Longrightarrow> i < n \<Longrightarrow> counts_at (buckets_between db since until n) ty i = int (length (in_slot ty since until width n i hist))"
proof -
  obtain width where w: "1 \<le> width" "span = seconds (n * width)" "width = DAY \<or> (width < DAY \<and> span \<le> days 7)" and n: "1 \<le> n"
    using periods [OF p] by blast
  have aligned: "span = n * days 1 \<longleftrightarrow> width = DAY" using w(2) n by (simp add: seconds_def days_def DAY_def second_def)
  have u: "until = since + seconds (n * width)"
    using su w(2) aligned n by (auto simp: span_of_def Let_def seconds_def days_def split: if_splits)
  have wd: "max 1 ((until - since) div second div n) = width" using n w(1) by (simp add: u seconds_def second_def)
  define counted where "counted = fold (count_group n) (raw_groups db since until width) []"
  define laid where "laid = lay_the_folded_days_over db counted since width n"
  have b: "buckets_between db since until n = sort_key (\<lambda>pair. - sum_list (snd pair)) laid"
    using n by (simp add: buckets_between_def Let_def wd counted_def laid_def raw_groups_def)
  note raw = raw_counts [OF u w(1), of _ db, folded counted_def]
  have "rows_ok n laid \<and> (\<forall>ty i. 0 \<le> i \<longrightarrow> i < n \<longrightarrow> counts_at laid ty i = int (length (in_slot ty since until width n i hist)))"
  proof (cases "width = DAY")
    case True
    have "since = midnight_of now + days 1 - days n" using su n True aligned by (auto simp: span_of_def Let_def)
    then have "since = days (now div (DAY * second) + 1 - n)" by (simp add: midnight_alt days_def algebra_simps)
    then have start: "midnight_of since = since" by simp
    have un: "until = since + days n" by (simp add: u True seconds_def days_def)
    have day: "in_slot ty since until DAY n i es = filter (\<lambda>e. se_event_type e = ty \<and> midnight_of (se_occurred_at e) = since + days i) es"
      if "0 \<le> i" "i < n" for ty i es unfolding un by (rule in_slot_day [OF start that])
    have c: "counts_at counted ty i = int (length (filter (\<lambda>e. se_event_type e = ty \<and> midnight_of (se_occurred_at e) = since + days i) (db_security_events db)))"
      if "0 \<le> i" "i < n" for ty i
      using raw(2) [OF that, of ty] day [OF that, of ty "db_security_events db"] by (simp add: True)
    have "rows_ok n laid" unfolding laid_def True
      by (rule folded_over(1) [OF told start, where i = 0]) (use n raw(1) [of 0] c [of 0] in auto)
    moreover have "counts_at laid ty i = int (length (in_slot ty since until width n i hist))" if "0 \<le> i" "i < n" for ty i
      unfolding laid_def True day [OF that] by (rule folded_over(2) [OF told start that raw(1) [OF that] c [OF that]])
    ultimately show ?thesis by simp
  next
    case False
    then have "width < DAY" "span \<le> days 7" using w(3) by auto
    then have since: "since = now - span" using su aligned False n by (auto simp: span_of_def split: if_splits)
    obtain b c where t: "event_fold.tells hist b c db" and c: "if retention > 0 then c \<le> midnight_of now - days retention else db_security_events db = hist"
      using told unfolding events_told_def by auto
    have "c \<le> since \<or> db_security_events db = hist"
      using ret c since \<open>span \<le> days 7\<close> midnight_bounds(1) [of now] days_mono [of 7 retention] by (auto simp del: days_mono split: if_splits)
    then have "in_slot ty since until width n i (db_security_events db) = in_slot ty since until width n i hist" for ty i
    proof
      assume "c \<le> since"
      then show ?thesis unfolding event_fold.raw_rows [OF t] by (auto intro!: filter_cong)
    qed simp
    moreover have "laid = counted" using False by (simp add: laid_def lay_the_folded_days_over_def)
    ultimately show ?thesis using raw(1) [of 0] raw(2) n by simp
  qed
  then have ok: "rows_ok n laid" and at: "\<And>ty i. 0 \<le> i \<Longrightarrow> i < n \<Longrightarrow> counts_at laid ty i = int (length (in_slot ty since until width n i hist))" by auto
  have m: "map_of (buckets_between db since until n) = map_of laid"
    unfolding b using ok by (intro map_of_sort_key) (simp add: rows_ok_def)
  have "rows_ok n (buckets_between db since until n)" using ok m unfolding b rows_ok_def by (simp add: distinct_map)
  moreover have "counts_at (buckets_between db since until n) ty i = counts_at laid ty i" for ty i by (simp add: counts_at_def m)
  ultimately show thesis using that [OF w(2)] at by simp
qed

section \<open>A sample history\<close>

text \<open>An auditor; a failed login at the start, and five days later the roll-up, which keeps raw rows for a week.\<close>

definition audited_db :: database where
  "audited_db = visited_db\<lparr>
     db_permissions := [sample_perm ''p1'' ''audit:view''], db_roles := [sample_role ''r1'' ''auditor'' [''p1'']],
     db_users := [sample_user ''ann'' ''ann@example.org'' True [''r1'']]\<rparr>"

definition failed_login :: security_event where
  "failed_login = \<lparr>se_id = ''e1'', se_event_type = ''LOGIN_FAILED'', se_occurred_at = 0\<rparr>"

definition audited_counted :: database where
  "audited_counted = count_event True 0 ''e1'' LOGIN_FAILED audited_db"

definition audited_rolled :: "(exn, int \<times> int) result \<times> database" where
  "audited_rolled = roll_up_security_events 7 (days 5) False (days 5) ''e2'' audited_counted"

lemma audited_rolled_value:
  "audited_rolled = (Inr (1, 0), audited_counted\<lparr>db_security_days := [\<lparr>sd_day = 0, sd_event_type = ''LOGIN_FAILED'', sd_total = 1\<rparr>]\<rparr>)"
  by (simp add: audited_rolled_def audited_counted_def count_event_def COUNTED_ELSEWHERE_def record_event_def audited_db_def visited_db_def
      roll_up_security_events_def Let_def fold_days_before_def first_unfolded_event_day_def group_by_def
      delete_events_before_def epoch_seconds_def days_def DAY_def second_def midnight_of_def)

lemma audited_run: "security_run 7 [failed_login] (days 5) (snd audited_rolled)"
proof -
  have "security_run 7 [] 0 audited_db" by (rule security_run.start) (simp_all add: audited_db_def visited_db_def)
  from security_run.counted [OF this order_refl refl, of True "''e1''" LOGIN_FAILED "[failed_login]"]
  have "security_run 7 [failed_login] 0 audited_counted"
    by (simp add: audited_counted_def count_event_def COUNTED_ELSEWHERE_def record_event_def audited_db_def visited_db_def failed_login_def)
  from security_run.rolled [OF this _ order_refl, of "days 5" "fst audited_rolled" "snd audited_rolled" False "''e2''"]
  show ?thesis
    by (simp add: audited_rolled_def [symmetric]) (simp add: days_def DAY_def second_def audited_rolled_value sweep_report_def)
qed

lemma ann_may_read: "require_may_read (sample_cx ''ann'') (snd audited_rolled) = Inr ()"
  by code_simp

section \<open>Properties\<close>



end
