(* ===== verification/Failover.thy ===== *)
theory Failover
  imports Prelude Domain_Errors
begin

text \<open>
  The chain of interchangeable services behind the logs (\<^verbatim>\<open>infrastructure/failover\<close>) and the
  manager of the audit trail that builds one. The services, what a probe of them answers and
  whether the chain's own logger takes a line are arguments. A call is a sequence of atomic
  steps, one per section under the lock and one for the call itself, so that any number of
  request threads and the background thread interleave.
\<close>

section \<open>State\<close>

datatype check_outcome = NOT_RUN | HEALTHY | UNHEALTHY | PROBE_FAILED

definition outcome_value :: "check_outcome \<Rightarrow> string" where
  "outcome_value c = (case c of NOT_RUN \<Rightarrow> ''not run'' | HEALTHY \<Rightarrow> ''healthy'' | UNHEALTHY \<Rightarrow> ''unhealthy'' | PROBE_FAILED \<Rightarrow> ''probe failed'')"

text \<open>What a service does when it is asked: it answers, or it raises.\<close>

datatype 'a reply = Answers 'a | Raises string

datatype 'r call_result = Returned 'r | ALL_SERVICES_FAILED

record failover_setup =
  fo_services :: "string list"
  fo_has_checker :: bool
  fo_upgrade_cooldown :: int

record failover =
  current_index :: nat
  last_upgrade_attempt :: moment
  dropped_calls :: nat
  failed_checks :: nat
  lost_log_lines :: nat
  last_check :: check_outcome

definition failover_init :: "failover_setup \<Rightarrow> (exn, failover) result" where
  "failover_init cfg =
     (if fo_services cfg = [] then Inl (ValueError ''At least one service required'')
      else Inr \<lparr>current_index = 0, last_upgrade_attempt = 0, dropped_calls = 0, failed_checks = 0, lost_log_lines = 0, last_check = NOT_RUN\<rparr>)"

definition get_current_service_name :: "failover_setup \<Rightarrow> failover \<Rightarrow> string" where
  "get_current_service_name cfg f = fo_services cfg ! current_index f"

text \<open>A line the logger refuses is counted; it then goes to the standard error stream or nowhere.\<close>

definition say :: "(string \<Rightarrow> bool) \<Rightarrow> string \<Rightarrow> failover \<Rightarrow> failover" where
  "say takes message f = (if takes message then f else f\<lparr>lost_log_lines := lost_log_lines f + 1\<rparr>)"

section \<open>The background round\<close>

text \<open>The first of some services that answers for itself; a probe that raises is passed over.\<close>

fun first_answering ::
  "failover_setup \<Rightarrow> (nat \<Rightarrow> bool reply) \<Rightarrow> (string \<Rightarrow> bool) \<Rightarrow> nat list \<Rightarrow> failover \<Rightarrow> nat option \<times> failover" where
  "first_answering cfg probe takes [] f = (None, f)"
| "first_answering cfg probe takes (idx # rest) f =
     (case probe idx of
        Raises e \<Rightarrow>
          first_answering cfg probe takes rest (say takes (''Health check for '' @ fo_services cfg ! idx @ '' failed: '' @ e) f)
      | Answers answered \<Rightarrow> if answered then (Some idx, f) else first_answering cfg probe takes rest f)"

definition attempt_demotion ::
  "failover_setup \<Rightarrow> (nat \<Rightarrow> bool reply) \<Rightarrow> (string \<Rightarrow> bool) \<Rightarrow> failover \<Rightarrow> bool \<times> failover" where
  "attempt_demotion cfg probe takes f =
     (if \<not> fo_has_checker cfg then (False, f)
      else let name = fo_services cfg ! current_index f
        in case probe (current_index f) of
             Raises e \<Rightarrow> (False, say takes (''Health check for '' @ name @ '' failed: '' @ e) (f\<lparr>last_check := PROBE_FAILED\<rparr>))
           | Answers well \<Rightarrow>
               if well then (False, f\<lparr>last_check := HEALTHY\<rparr>)
               else (case first_answering cfg probe takes [current_index f + 1..<length (fo_services cfg)] (f\<lparr>last_check := UNHEALTHY\<rparr>) of
                       (Some idx, f1) \<Rightarrow>
                         (True, say takes (''Demoting from '' @ name @ '' to '' @ fo_services cfg ! idx @ '': '' @ name @ '' reports itself unhealthy'')
                            (f1\<lparr>current_index := idx, last_check := HEALTHY\<rparr>))
                     | (None, f1) \<Rightarrow>
                         (False, say takes (name @ '' reports itself unhealthy and nothing below it answers'') f1)))"

definition attempt_upgrade ::
  "failover_setup \<Rightarrow> (nat \<Rightarrow> bool reply) \<Rightarrow> (string \<Rightarrow> bool) \<Rightarrow> moment \<Rightarrow> failover \<Rightarrow> failover" where
  "attempt_upgrade cfg probe takes now f =
     (if current_index f = 0 then f
      else if now - last_upgrade_attempt f < fo_upgrade_cooldown cfg then f
      else case first_answering cfg (\<lambda>i. if fo_has_checker cfg then probe i else Answers True) takes [0..<current_index f]
             (f\<lparr>last_upgrade_attempt := now\<rparr>) of
        (Some idx, f1) \<Rightarrow>
          say takes (''Upgrading from '' @ fo_services cfg ! current_index f1 @ '' to '' @ fo_services cfg ! idx)
            (f1\<lparr>current_index := idx, last_check := HEALTHY\<rparr>)
      | (None, f1) \<Rightarrow> f1)"

definition run_check ::
  "failover_setup \<Rightarrow> (nat \<Rightarrow> bool reply) \<Rightarrow> (string \<Rightarrow> bool) \<Rightarrow> moment \<Rightarrow> failover \<Rightarrow> failover" where
  "run_check cfg probe takes now f =
     (case attempt_demotion cfg probe takes f of (moved, f1) \<Rightarrow> if moved then f1 else attempt_upgrade cfg probe takes now f1)"

section \<open>A call\<close>

definition switch_to_next :: "failover_setup \<Rightarrow> (string \<Rightarrow> bool) \<Rightarrow> failover \<Rightarrow> bool \<times> failover" where
  "switch_to_next cfg takes f =
     (let next_index = current_index f + 1
      in if next_index \<ge> length (fo_services cfg) then (False, f)
         else (True, say takes (''Switched to '' @ fo_services cfg ! next_index) (f\<lparr>current_index := next_index\<rparr>)))"

datatype 'r phase = Choosing | Asking nat | Deciding nat | Dropping | Ended "'r call_result"

record 'r call =
  ca_method :: string
  ca_tried :: "nat list"
  ca_turns_left :: nat
  ca_phase :: "'r phase"

definition begin_call :: "failover_setup \<Rightarrow> string \<Rightarrow> 'r call" where
  "begin_call cfg method_name =
     \<lparr>ca_method = method_name, ca_tried = [], ca_turns_left = 2 * length (fo_services cfg), ca_phase = Choosing\<rparr>"

text \<open>The head of the loop and the first section under the lock.\<close>

definition choose_service :: "failover_setup \<Rightarrow> 'r call \<Rightarrow> failover \<Rightarrow> 'r call" where
  "choose_service cfg c f =
     (if length (ca_tried c) < length (fo_services cfg) \<and> ca_turns_left c > 0
      then let index = current_index f
        in if index \<in> set (ca_tried c) then c\<lparr>ca_turns_left := ca_turns_left c - 1, ca_phase := Deciding index\<rparr>
           else c\<lparr>ca_turns_left := ca_turns_left c - 1, ca_tried := ca_tried c @ [index], ca_phase := Asking index\<rparr>
      else c\<lparr>ca_phase := Dropping\<rparr>)"

definition call_step ::
  "failover_setup \<Rightarrow> (nat \<Rightarrow> 'r reply) \<Rightarrow> (string \<Rightarrow> bool) \<Rightarrow> 'r call \<Rightarrow> failover \<Rightarrow> 'r call \<times> failover" where
  "call_step cfg serve takes c f =
     (case ca_phase c of
        Choosing \<Rightarrow> (choose_service cfg c f, f)
      | Asking index \<Rightarrow>
          (case serve index of
             Answers r \<Rightarrow> (c\<lparr>ca_phase := Ended (Returned r)\<rparr>, f)
           | Raises e \<Rightarrow>
               (c\<lparr>ca_phase := Deciding index\<rparr>,
                say takes (''Service '' @ fo_services cfg ! index @ '' failed for '' @ ca_method c @ '': '' @ e @ ''. Attempting switch.'') f))
      | Deciding index \<Rightarrow>
          if current_index f = index
          then (case switch_to_next cfg takes f of (moved, f1) \<Rightarrow> (c\<lparr>ca_phase := if moved then Choosing else Dropping\<rparr>, f1))
          else (c\<lparr>ca_phase := Choosing\<rparr>, f)
      | Dropping \<Rightarrow>
          let dropped = dropped_calls f + 1
          in (c\<lparr>ca_phase := Ended ALL_SERVICES_FAILED\<rparr>,
              say takes (''No service handled '' @ ca_method c @ ''; the call was dropped ('' @ str_of_nat dropped @ '' so far)'')
                (f\<lparr>dropped_calls := dropped\<rparr>))
      | Ended r \<Rightarrow> (c, f))"

text \<open>Every step of a call brings it closer to its end, whatever others do to the chain.\<close>

definition phase_rank :: "'r phase \<Rightarrow> nat" where
  "phase_rank p = (case p of Ended _ \<Rightarrow> 0 | Dropping \<Rightarrow> 1 | Choosing \<Rightarrow> 2 | Deciding _ \<Rightarrow> 3 | Asking _ \<Rightarrow> 4)"

definition call_measure :: "'r call \<Rightarrow> nat" where
  "call_measure c = 5 * ca_turns_left c + phase_rank (ca_phase c)"

definition call_ended :: "'r call \<Rightarrow> bool" where
  "call_ended c = (case ca_phase c of Ended _ \<Rightarrow> True | _ \<Rightarrow> False)"

lemma call_step_measure: "\<not> call_ended c \<Longrightarrow> call_measure (fst (call_step cfg serve takes c f)) < call_measure c"
  by (auto simp: call_step_def call_measure_def phase_rank_def call_ended_def choose_service_def Let_def switch_to_next_def
      split: phase.splits reply.splits)

text \<open>A call that nothing else interrupts.\<close>

function execute_from ::
  "failover_setup \<Rightarrow> (nat \<Rightarrow> 'r reply) \<Rightarrow> (string \<Rightarrow> bool) \<Rightarrow> 'r call \<Rightarrow> failover \<Rightarrow> 'r call_result \<times> failover" where
  "execute_from cfg serve takes c f =
     (case ca_phase c of
        Ended r \<Rightarrow> (r, f)
      | _ \<Rightarrow> (case call_step cfg serve takes c f of (c1, f1) \<Rightarrow> execute_from cfg serve takes c1 f1))"
  by pat_completeness auto
termination
  by (relation "measure (\<lambda>(cfg, serve, takes, c, f). call_measure c)")
     (simp_all add: split_beta call_step_measure call_ended_def)

definition execute ::
  "failover_setup \<Rightarrow> (nat \<Rightarrow> 'r reply) \<Rightarrow> (string \<Rightarrow> bool) \<Rightarrow> string \<Rightarrow> failover \<Rightarrow> 'r call_result \<times> failover" where
  "execute cfg serve takes method_name f = execute_from cfg serve takes (begin_call cfg method_name) f"


declare execute_from.simps [simp del]

section \<open>The managers of the chains\<close>

text \<open>
  The implementations behind a chain and their order, for the application log and for the
  audit trail, whose names carry a suffix. An argument says which of them can be built here.
\<close>

definition chain_order :: "string \<Rightarrow> string list" where
  "chain_order kind =
     (let k = lower (strip kind)
      in if k = ''auto'' then [''structlog'', ''standard'']
         else if k = ''structlog'' then [''structlog'', ''standard'']
         else if k = ''standard'' then [''standard'', ''structlog'']
         else if k = ''null'' then [''null'']
         else [''structlog'', ''standard''])"

datatype manager = SingleLogger string | Chained failover_setup failover

definition manager_of :: "string list \<Rightarrow> manager" where
  "manager_of names =
     (case names of
        [name] \<Rightarrow> SingleLogger name
      | _ \<Rightarrow>
          let cfg = \<lparr>fo_services = names, fo_has_checker = True, fo_upgrade_cooldown = 300 * 1000000\<rparr>
          in (case failover_init cfg of Inr f \<Rightarrow> Chained cfg f | Inl _ \<Rightarrow> SingleLogger ''unknown''))"

definition built :: "(string \<Rightarrow> bool) \<Rightarrow> string \<Rightarrow> string \<Rightarrow> string list" where
  "built can_build tag kind =
     (let names = map (\<lambda>n. n @ tag) (filter (\<lambda>n. n = ''null'' \<or> can_build n) (chain_order kind))
      in if names = [] then [''null'' @ tag] else names)"

definition logger_manager :: "(string \<Rightarrow> bool) \<Rightarrow> string \<Rightarrow> manager" where
  "logger_manager can_build logger_type = manager_of (built can_build [] logger_type)"

definition audit_manager :: "(string \<Rightarrow> bool) \<Rightarrow> string \<Rightarrow> manager" where
  "audit_manager can_build audit_type = manager_of (built can_build ''_audit'' audit_type)"

record chain_status =
  cs_active :: string
  cs_dropped_calls :: nat
  cs_failed_checks :: nat
  cs_lost_log_lines :: nat
  cs_last_check :: string

definition active_name :: "manager \<Rightarrow> string" where
  "active_name m = (case m of SingleLogger name \<Rightarrow> name | Chained cfg f \<Rightarrow> get_current_service_name cfg f)"

definition manager_counters :: "manager \<Rightarrow> nat \<times> nat \<times> nat" where
  "manager_counters m = (case m of SingleLogger _ \<Rightarrow> (0, 0, 0) | Chained cfg f \<Rightarrow> (dropped_calls f, failed_checks f, lost_log_lines f))"

definition manager_last_check :: "manager \<Rightarrow> string" where
  "manager_last_check m = outcome_value (case m of SingleLogger _ \<Rightarrow> NOT_RUN | Chained cfg f \<Rightarrow> last_check f)"

definition NOT_STARTED :: string where
  "NOT_STARTED = ''not started''"

text \<open>What a chain reports; one that nothing has asked for yet is not built by the question.\<close>

definition chain_status_of :: "manager option \<Rightarrow> chain_status" where
  "chain_status_of m =
     (case m of
        None \<Rightarrow> \<lparr>cs_active = NOT_STARTED, cs_dropped_calls = 0, cs_failed_checks = 0, cs_lost_log_lines = 0, cs_last_check = outcome_value NOT_RUN\<rparr>
      | Some mg \<Rightarrow>
          (case manager_counters mg of (dropped, failed, lost) \<Rightarrow>
             \<lparr>cs_active = active_name mg, cs_dropped_calls = dropped, cs_failed_checks = failed, cs_lost_log_lines = lost,
              cs_last_check = manager_last_check mg\<rparr>))"

text \<open>The fields of a record: those of the call over those that were bound.\<close>

type_synonym log_fields = "(string \<times> string) list"

definition merge_fields :: "log_fields \<Rightarrow> log_fields \<Rightarrow> log_fields" where
  "merge_fields bound_fields kwargs = fold (\<lambda>(k, v) d. dict_set k v d) kwargs bound_fields"

definition POSITIONAL_FIELDS :: "string list" where
  "POSITIONAL_FIELDS = [''short_code'', ''original_url'', ''event'']"

definition audit_context :: "log_fields \<Rightarrow> log_fields \<Rightarrow> log_fields" where
  "audit_context bound_fields kwargs =
     filter (\<lambda>(name, _). name \<notin> set POSITIONAL_FIELDS \<or> name \<in> fst ` set kwargs) (merge_fields bound_fields kwargs)"

definition logger_fields :: "string \<Rightarrow> log_fields \<Rightarrow> log_fields \<Rightarrow> log_fields" where
  "logger_fields module_name bound_fields kwargs =
     dict_set ''module'' (case map_of bound_fields ''module'' of None \<Rightarrow> module_name | Some m \<Rightarrow> m) (merge_fields bound_fields kwargs)"

section \<open>Many threads\<close>

text \<open>
  The chain, the calls in flight and the moment each came in. Time passes, the background
  thread makes a round, a thread comes with a call, or one of the calls makes a step; what the
  services, the probes and the logger answer is open at every step.
\<close>

record 'r failover_system =
  sy_now :: moment
  sy_chain :: failover
  sy_calls :: "nat \<Rightarrow> (moment \<times> 'r call) option"

inductive failover_step :: "failover_setup \<Rightarrow> 'r failover_system \<Rightarrow> 'r failover_system \<Rightarrow> bool" for cfg where
  tick: "sy_now s \<le> now \<Longrightarrow> failover_step cfg s (s\<lparr>sy_now := now\<rparr>)"
| check: "failover_step cfg s (s\<lparr>sy_chain := run_check cfg probe takes (sy_now s) (sy_chain s)\<rparr>)"
| arrive: "failover_step cfg s (s\<lparr>sy_calls := (sy_calls s)(t := Some (sy_now s, begin_call cfg method_name))\<rparr>)"
| step: "sy_calls s t = Some (came, c) \<Longrightarrow> call_step cfg serve takes c (sy_chain s) = (c1, f1) \<Longrightarrow>
    failover_step cfg s (s\<lparr>sy_chain := f1, sy_calls := (sy_calls s)(t := Some (came, c1))\<rparr>)"

inductive failover_run :: "failover_setup \<Rightarrow> 'r failover_system \<Rightarrow> bool" for cfg where
  start: "failover_init cfg = Inr f \<Longrightarrow> failover_run cfg \<lparr>sy_now = now, sy_chain = f, sy_calls = (\<lambda>_. None)\<rparr>"
| more: "failover_run cfg s \<Longrightarrow> failover_step cfg s s1 \<Longrightarrow> failover_run cfg s1"

section \<open>Lemmas\<close>

lemma say_keeps [simp]:
  "current_index (say takes m f) = current_index f" "last_upgrade_attempt (say takes m f) = last_upgrade_attempt f"
  "dropped_calls (say takes m f) = dropped_calls f" "last_check (say takes m f) = last_check f"
  by (simp_all add: say_def)

text \<open>Which service a search finds, and that it leaves the chain as it is.\<close>

lemma first_answering_finds [simp]:
  "fst (first_answering cfg probe takes idxs f) = find (\<lambda>i. probe i = Answers True) idxs"
  "current_index (snd (first_answering cfg probe takes idxs f)) = current_index f"
  "last_upgrade_attempt (snd (first_answering cfg probe takes idxs f)) = last_upgrade_attempt f"
  "dropped_calls (snd (first_answering cfg probe takes idxs f)) = dropped_calls f"
  "last_check (snd (first_answering cfg probe takes idxs f)) = last_check f"
  by (induction cfg probe takes idxs f rule: first_answering.induct) (auto split: reply.splits)

lemma find_upt: "find P [a..<b] = Some i \<Longrightarrow> a \<le> i \<and> i < b \<and> P i"
  by (auto simp: find_Some_iff)

text \<open>The way down: only from a service that says it is unwell, and only onto one that says it is well.\<close>

lemma attempt_demotion_keeps [simp]:
  "last_upgrade_attempt (snd (attempt_demotion cfg probe takes f)) = last_upgrade_attempt f"
  "dropped_calls (snd (attempt_demotion cfg probe takes f)) = dropped_calls f"
  by (auto simp: attempt_demotion_def Let_def case_prod_beta split: reply.splits option.splits)

lemma attempt_demotion_stays:
  "\<not> fst (attempt_demotion cfg probe takes f) \<Longrightarrow> current_index (snd (attempt_demotion cfg probe takes f)) = current_index f"
  by (auto simp: attempt_demotion_def Let_def case_prod_beta split: reply.splits option.splits if_splits)

lemma attempt_demotion_moves:
  assumes "fst (attempt_demotion cfg probe takes f)"
  defines "new \<equiv> current_index (snd (attempt_demotion cfg probe takes f))"
  shows "probe (current_index f) = Answers False \<and> current_index f < new \<and> new < length (fo_services cfg) \<and> probe new = Answers True"
  using assms
  by (auto simp: attempt_demotion_def Let_def case_prod_beta split: reply.splits option.splits if_splits dest: find_upt)

text \<open>The way up: not before the cooldown is over, and the attempt is stamped.\<close>

lemma attempt_upgrade_keeps [simp]: "dropped_calls (attempt_upgrade cfg probe takes now f) = dropped_calls f"
  by (auto simp: attempt_upgrade_def case_prod_beta split: option.splits)

lemma attempt_upgrade_moves:
  "attempt_upgrade cfg probe takes now f = f
   \<or> fo_upgrade_cooldown cfg \<le> now - last_upgrade_attempt f \<and> last_upgrade_attempt (attempt_upgrade cfg probe takes now f) = now
     \<and> current_index (attempt_upgrade cfg probe takes now f) \<le> current_index f"
  by (auto simp: attempt_upgrade_def case_prod_beta split: option.splits dest: find_upt)

lemma run_check_moves:
  assumes "current_index f < length (fo_services cfg)" and f1_def: "f1 = run_check cfg probe takes now f"
  shows "current_index f1 < length (fo_services cfg)"
    and "current_index f \<le> current_index f1 \<and> last_upgrade_attempt f1 = last_upgrade_attempt f
         \<or> fo_upgrade_cooldown cfg \<le> now - last_upgrade_attempt f \<and> last_upgrade_attempt f1 = now"
proof -
  let ?d = "attempt_demotion cfg probe takes f"
  have e: "f1 = (if fst ?d then snd ?d else attempt_upgrade cfg probe takes now (snd ?d))"
    unfolding f1_def run_check_def by (simp add: case_prod_beta)
  have "current_index f1 < length (fo_services cfg) \<and>
    (current_index f \<le> current_index f1 \<and> last_upgrade_attempt f1 = last_upgrade_attempt f
         \<or> fo_upgrade_cooldown cfg \<le> now - last_upgrade_attempt f \<and> last_upgrade_attempt f1 = now)"
  proof (cases "fst ?d")
    case True
    then show ?thesis using attempt_demotion_moves [OF True] by (simp add: e)
  next
    case False
    then show ?thesis using attempt_demotion_stays [OF False] attempt_upgrade_moves [of cfg probe takes now "snd ?d"] assms(1)
      by (auto simp: e)
  qed
  then show "current_index f1 < length (fo_services cfg)"
    and "current_index f \<le> current_index f1 \<and> last_upgrade_attempt f1 = last_upgrade_attempt f
         \<or> fo_upgrade_cooldown cfg \<le> now - last_upgrade_attempt f \<and> last_upgrade_attempt f1 = now" by blast+
qed

lemma call_step_moves:
  assumes "call_step cfg serve takes c f = (c1, f1)" and "current_index f < length (fo_services cfg)"
  shows "current_index f1 < length (fo_services cfg)" "last_upgrade_attempt f1 = last_upgrade_attempt f"
    "current_index f1 = current_index f \<or> ca_phase c = Deciding (current_index f) \<and> current_index f1 = current_index f + 1"
  using assms by (auto simp: call_step_def switch_to_next_def Let_def split: phase.splits reply.splits if_splits)

section \<open>What a call has seen\<close>

text \<open>
  The invariant of a call in flight that came in at some moment. While the cooldown since
  then has not run out, the work went up at most once, and not at all as long as the last
  attempt lies before the call: the turns that are left are enough to come down to the end of
  the list.
\<close>

definition at_service :: "failover_setup \<Rightarrow> moment \<Rightarrow> failover \<Rightarrow> 'r call \<Rightarrow> nat \<Rightarrow> bool" where
  "at_service cfg came f c j \<longleftrightarrow> j \<in> set (ca_tried c) \<and>
     (let n = length (fo_services cfg)
      in j \<le> current_index f \<and> 2 * n \<le> (if last_upgrade_attempt f < came then 0 else n) + j + 1 + ca_turns_left c
         \<or> came \<le> last_upgrade_attempt f \<and> n \<le> ca_turns_left c)"

definition on_its_way :: "failover_setup \<Rightarrow> moment \<Rightarrow> failover \<Rightarrow> 'r call \<Rightarrow> bool" where
  "on_its_way cfg came f c \<longleftrightarrow>
     (let n = length (fo_services cfg)
      in case ca_phase c of
           Choosing \<Rightarrow> 2 * n \<le> (if last_upgrade_attempt f < came then 0 else n) + current_index f + ca_turns_left c
         | Asking j \<Rightarrow> at_service cfg came f c j
         | Deciding j \<Rightarrow> at_service cfg came f c j
         | Dropping \<Rightarrow> n - 1 \<in> set (ca_tried c)
         | Ended r \<Rightarrow> (case r of ALL_SERVICES_FAILED \<Rightarrow> n - 1 \<in> set (ca_tried c) | Returned v \<Rightarrow> True))"

definition call_inv :: "failover_setup \<Rightarrow> moment \<Rightarrow> moment \<Rightarrow> failover \<Rightarrow> 'r call \<Rightarrow> bool" where
  "call_inv cfg came now f c \<longleftrightarrow> came \<le> now \<and> distinct (ca_tried c) \<and> set (ca_tried c) \<subseteq> {..<length (fo_services cfg)}
     \<and> (now - came < fo_upgrade_cooldown cfg \<longrightarrow> on_its_way cfg came f c)"

lemma on_its_way_arrival: "on_its_way cfg came f (begin_call cfg m)"
  by (simp add: on_its_way_def begin_call_def Let_def)

lemma on_its_way_down:
  assumes "on_its_way cfg came f c" and "current_index f \<le> current_index f1" and "last_upgrade_attempt f1 = last_upgrade_attempt f"
  shows "on_its_way cfg came f1 c"
  using assms by (auto simp: on_its_way_def at_service_def Let_def split: phase.splits)

lemma on_its_way_up:
  assumes "on_its_way cfg came f c" and "last_upgrade_attempt f < came" and "came \<le> last_upgrade_attempt f1"
    and "current_index f < length (fo_services cfg)"
  shows "on_its_way cfg came f1 c"
  using assms by (auto simp: on_its_way_def at_service_def Let_def split: phase.splits)

lemma call_inv_check:
  assumes "call_inv cfg came now f c" and "current_index f < length (fo_services cfg)"
  shows "call_inv cfg came now (run_check cfg probe takes now f) c"
proof -
  have "on_its_way cfg came (run_check cfg probe takes now f) c" if w: "now - came < fo_upgrade_cooldown cfg"
  proof -
    have o: "on_its_way cfg came f c" and le: "came \<le> now" using assms(1) w by (simp_all add: call_inv_def)
    from run_check_moves(2) [OF assms(2) refl, of probe takes now] show ?thesis
    proof
      assume "fo_upgrade_cooldown cfg \<le> now - last_upgrade_attempt f \<and> last_upgrade_attempt (run_check cfg probe takes now f) = now"
      then show ?thesis using w le by (intro on_its_way_up [OF o _ _ assms(2)]) auto
    qed (blast intro: on_its_way_down [OF o])
  qed
  then show ?thesis using assms(1) by (simp add: call_inv_def)
qed

lemma full_list_has_last: "distinct xs \<Longrightarrow> set xs \<subseteq> {..<n} \<Longrightarrow> n \<le> length xs \<Longrightarrow> 0 < n \<Longrightarrow> n - 1 \<in> set xs"
  using card_subset_eq [of "{..<n}" "set xs"] card_mono [of "{..<n}" "set xs"] by (simp add: distinct_card)

lemma call_inv_own_step:
  assumes inv: "call_inv cfg came now f c" and i: "current_index f < length (fo_services cfg)"
    and s: "call_step cfg serve takes c f = (c1, f1)"
  shows "call_inv cfg came now f1 c1"
proof -
  have base: "distinct (ca_tried c)" "set (ca_tried c) \<subseteq> {..<length (fo_services cfg)}" and came: "came \<le> now"
    using inv by (simp_all add: call_inv_def)
  have last: "length (fo_services cfg) - 1 \<in> set (ca_tried c)" if "length (fo_services cfg) \<le> length (ca_tried c)"
    by (rule full_list_has_last [OF base that]) (use i in linarith)
  have tried: "distinct (ca_tried c1)" "set (ca_tried c1) \<subseteq> {..<length (fo_services cfg)}"
    using s base i by (auto simp: call_step_def choose_service_def Let_def split: phase.splits reply.splits if_splits prod.splits)
  have "on_its_way cfg came f1 c1" if o: "on_its_way cfg came f c"
  proof (cases "ca_phase c")
    case Choosing
    then show ?thesis using s o i last
      by (auto simp: call_step_def choose_service_def Let_def on_its_way_def at_service_def split: if_splits)
  next
    case (Asking j)
    then show ?thesis using s o
      by (auto simp: call_step_def on_its_way_def at_service_def Let_def split: reply.splits)
  next
    case (Deciding j)
    have "Suc (current_index f) < length (fo_services cfg) \<or> length (fo_services cfg) - 1 = current_index f" using i by linarith
    then show ?thesis using s o i Deciding
      by (auto simp: call_step_def on_its_way_def at_service_def switch_to_next_def Let_def split: if_splits)
  next
    case Dropping
    then show ?thesis using s o by (auto simp: call_step_def on_its_way_def Let_def)
  next
    case (Ended r)
    then show ?thesis using s o by (simp add: call_step_def)
  qed
  then show ?thesis using inv tried came by (simp add: call_inv_def)
qed

definition system_inv :: "failover_setup \<Rightarrow> 'r failover_system \<Rightarrow> bool" where
  "system_inv cfg s \<longleftrightarrow> current_index (sy_chain s) < length (fo_services cfg)
     \<and> (\<forall>t came c. sy_calls s t = Some (came, c) \<longrightarrow> call_inv cfg came (sy_now s) (sy_chain s) c)"

lemma call_inv_later: "call_inv cfg came now f c \<Longrightarrow> now \<le> now' \<Longrightarrow> call_inv cfg came now' f c"
  by (auto simp: call_inv_def)

lemma call_inv_other_step:
  assumes "call_inv cfg came now f d" and "current_index f < length (fo_services cfg)" and "call_step cfg serve takes c f = (c1, f1)"
  shows "call_inv cfg came now f1 d"
  using assms(1) on_its_way_down [of cfg came f d f1] call_step_moves(2,3) [OF assms(3,2)] by (auto simp: call_inv_def)

lemma system_inv_step:
  assumes "failover_step cfg s s1" and inv: "system_inv cfg s"
  shows "system_inv cfg s1"
  using assms(1)
proof cases
  case (tick now)
  then show ?thesis using inv call_inv_later unfolding system_inv_def by fastforce
next
  case (check probe takes)
  have i: "current_index (sy_chain s) < length (fo_services cfg)" using inv by (simp add: system_inv_def)
  have calls: "\<forall>t came c. sy_calls s t = Some (came, c) \<longrightarrow> call_inv cfg came (sy_now s) (sy_chain s) c"
    using inv unfolding system_inv_def by blast
  have "call_inv cfg came (sy_now s) (run_check cfg probe takes (sy_now s) (sy_chain s)) c" if "sy_calls s t = Some (came, c)" for t came c
    using calls that call_inv_check [OF _ i, of came "sy_now s" c] by blast
  then show ?thesis unfolding system_inv_def check using run_check_moves(1) [OF i refl] by simp
next
  case (arrive t m)
  then show ?thesis using inv on_its_way_arrival by (auto simp: system_inv_def call_inv_def begin_call_def)
next
  case (step t came c serve takes c1 f1)
  have i: "current_index (sy_chain s) < length (fo_services cfg)" using inv by (simp add: system_inv_def)
  have calls: "\<forall>t came c. sy_calls s t = Some (came, c) \<longrightarrow> call_inv cfg came (sy_now s) (sy_chain s) c"
    using inv unfolding system_inv_def by blast
  have "call_inv cfg b (sy_now s) f1 d" if "((sy_calls s)(t \<mapsto> (came, c1))) u = Some (b, d)" for u b d
  proof (cases "u = t")
    case True
    then show ?thesis using that calls step(2) call_inv_own_step [OF _ i step(3), of came "sy_now s"] by simp
  next
    case False
    then show ?thesis using that calls call_inv_other_step [OF _ i step(3), of b "sy_now s" d] by simp
  qed
  then show ?thesis unfolding system_inv_def step(1) using call_step_moves(1) [OF step(3) i] by simp
qed

lemma system_inv_run: "failover_run cfg s \<Longrightarrow> system_inv cfg s"
proof (induction rule: failover_run.induct)
  case (start f now)
  then show ?case by (auto simp: system_inv_def failover_init_def split: if_splits)
qed (rule system_inv_step)

section \<open>A call that nothing interrupts\<close>

definition takes_call :: "(nat \<Rightarrow> 'r reply) \<Rightarrow> nat \<Rightarrow> bool" where
  "takes_call serve i = (case serve i of Answers _ \<Rightarrow> True | Raises _ \<Rightarrow> False)"

lemma execute_turn:
  assumes "ca_phase c = Choosing" and "length (ca_tried c) < length (fo_services cfg)" "ca_turns_left c > 0"
    and "current_index f \<notin> set (ca_tried c)"
  shows "execute_from cfg serve takes c f =
    (case serve (current_index f) of
       Answers r \<Rightarrow> (Returned r, f)
     | Raises e \<Rightarrow>
         (let f1 = say takes (''Service '' @ fo_services cfg ! current_index f @ '' failed for '' @ ca_method c @ '': '' @ e @ ''. Attempting switch.'') f;
              c1 = c\<lparr>ca_turns_left := ca_turns_left c - 1, ca_tried := ca_tried c @ [current_index f], ca_phase := Choosing\<rparr>
          in case switch_to_next cfg takes f1 of (moved, f2) \<Rightarrow>
               execute_from cfg serve takes (c1\<lparr>ca_phase := if moved then Choosing else Dropping\<rparr>) f2))"
proof -
  have a: "execute_from cfg serve takes c f = execute_from cfg serve takes
      (c\<lparr>ca_turns_left := ca_turns_left c - 1, ca_tried := ca_tried c @ [current_index f], ca_phase := Asking (current_index f)\<rparr>) f"
    using assms by (subst execute_from.simps) (simp add: call_step_def choose_service_def Let_def)
  show ?thesis
    unfolding a by (subst execute_from.simps)
      (simp add: call_step_def execute_from.simps [of _ _ _ _ f] execute_from.simps [of _ _ _ "x\<lparr>ca_phase := Deciding y\<rparr>" for x y] Let_def split: reply.split prod.split)
qed

lemma execute_dropped:
  assumes "ca_phase c = Dropping"
  shows "fst (execute_from cfg serve takes c f) = ALL_SERVICES_FAILED"
    "current_index (snd (execute_from cfg serve takes c f)) = current_index f"
    "dropped_calls (snd (execute_from cfg serve takes c f)) = dropped_calls f + 1"
  using assms by (simp_all add: execute_from.simps [of _ _ _ c] call_step_def Let_def) (simp_all add: execute_from.simps)

lemma execute_goes_down:
  assumes "ca_phase c = Choosing" and "ca_tried c = [a..<current_index f]" and "a \<le> current_index f"
    and "current_index f < length (fo_services cfg)" and "length (fo_services cfg) - current_index f \<le> ca_turns_left c"
    and e: "execute_from cfg serve takes c f = (result, f1)"
  shows "case find (takes_call serve) [current_index f..<length (fo_services cfg)] of
      Some j \<Rightarrow> (\<exists>r. serve j = Answers r \<and> result = Returned r) \<and> current_index f1 = j \<and> dropped_calls f1 = dropped_calls f
    | None \<Rightarrow> result = ALL_SERVICES_FAILED \<and> current_index f1 = length (fo_services cfg) - 1 \<and> dropped_calls f1 = dropped_calls f + 1"
  using assms
proof (induction "length (fo_services cfg) - current_index f" arbitrary: c f)
  case (Suc k)
  let ?i = "current_index f" and ?n = "length (fo_services cfg)"
  have range: "[?i..<?n] = ?i # [Suc ?i..<?n]" using Suc.prems(4) by (simp add: upt_conv_Cons)
  have "execute_from cfg serve takes c f =
    (case serve ?i of
       Answers r \<Rightarrow> (Returned r, f)
     | Raises e \<Rightarrow>
         (let f1 = say takes (''Service '' @ fo_services cfg ! ?i @ '' failed for '' @ ca_method c @ '': '' @ e @ ''. Attempting switch.'') f;
              c1 = c\<lparr>ca_turns_left := ca_turns_left c - 1, ca_tried := ca_tried c @ [?i], ca_phase := Choosing\<rparr>
          in case switch_to_next cfg takes f1 of (moved, f2) \<Rightarrow>
               execute_from cfg serve takes (c1\<lparr>ca_phase := if moved then Choosing else Dropping\<rparr>) f2))"
    by (rule execute_turn) (use Suc.prems in auto)
  note turn = this [unfolded Suc.prems(6)]
  show ?case
  proof (cases "serve ?i")
    case (Answers r)
    then show ?thesis using turn by (simp add: range takes_call_def)
  next
    case (Raises e)
    let ?f1 = "say takes (''Service '' @ fo_services cfg ! ?i @ '' failed for '' @ ca_method c @ '': '' @ e @ ''. Attempting switch.'') f"
    have find: "find (takes_call serve) [?i..<?n] = find (takes_call serve) [Suc ?i..<?n]" using Raises by (simp add: range takes_call_def)
    show ?thesis
    proof (cases "Suc ?i < ?n")
      case True
      let ?f2 = "say takes (''Switched to '' @ fo_services cfg ! Suc ?i) (?f1\<lparr>current_index := Suc ?i\<rparr>)"
      let ?c = "c\<lparr>ca_turns_left := ca_turns_left c - 1, ca_tried := ca_tried c @ [?i], ca_phase := Choosing\<rparr>"
      have "execute_from cfg serve takes ?c ?f2 = (result, f1)"
        using turn Raises True by (simp add: switch_to_next_def Let_def)
      then have "case find (takes_call serve) [current_index ?f2..<?n] of
          Some j \<Rightarrow> (\<exists>r. serve j = Answers r \<and> result = Returned r) \<and> current_index f1 = j \<and> dropped_calls f1 = dropped_calls ?f2
        | None \<Rightarrow> result = ALL_SERVICES_FAILED \<and> current_index f1 = ?n - 1 \<and> dropped_calls f1 = dropped_calls ?f2 + 1"
        using Suc.prems Suc.hyps(2) True by (intro Suc.hyps(1)) auto
      then show ?thesis by (simp add: find split: option.splits)
    next
      case False
      have "execute_from cfg serve takes (c\<lparr>ca_turns_left := ca_turns_left c - 1, ca_tried := ca_tried c @ [?i], ca_phase := Dropping\<rparr>) ?f1 = (result, f1)"
        using turn Raises False by (simp add: switch_to_next_def Let_def)
      moreover have "?i = ?n - 1" using False Suc.prems(4) by simp
      moreover have "find (takes_call serve) [Suc ?i..<?n] = None" using False by simp
      ultimately show ?thesis unfolding find using execute_dropped [of "c\<lparr>ca_turns_left := ca_turns_left c - 1, ca_tried := ca_tried c @ [?i], ca_phase := Dropping\<rparr>" cfg serve takes ?f1]
        by simp
    qed
  qed
qed simp

section \<open>Lemmas: the managers\<close>

lemma built_nonempty [simp]: "built can_build tag kind \<noteq> []"
  by (simp add: built_def Let_def)

text \<open>Every manager has an implementation to name, and nulls are never a standby of a real one.\<close>

lemma manager_names_an_implementation:
  "active_name (manager_of (built can_build tag kind)) = hd (built can_build tag kind)"
  by (auto simp: manager_of_def active_name_def failover_init_def get_current_service_name_def Let_def
      split: list.splits)

lemma null_stands_alone:
  assumes "''null'' @ tag \<in> set (built can_build tag kind)"
  shows "built can_build tag kind = [''null'' @ tag]"
proof -
  have "chain_order kind = [''null''] \<or> ''null'' \<notin> set (chain_order kind)" by (simp add: chain_order_def Let_def)
  then show ?thesis using assms by (auto simp: built_def Let_def split: if_splits)
qed

lemma merge_fields_lookup:
  "map_of (merge_fields bound_fields kwargs) k = (case map_of (rev kwargs) k of None \<Rightarrow> map_of bound_fields k | Some v \<Rightarrow> Some v)"
  unfolding merge_fields_def
  by (induction kwargs rule: rev_induct) (auto simp: map_of_dict_set split: option.splits)

text \<open>
  What a call records wins over what was bound, and a bound field never takes the place of an
  argument the event passes by position.
\<close>

lemma map_of_filter_keys: "map_of (filter (\<lambda>(k, _). P k) d) x = (if P x then map_of d x else None)"
  by (induction d) auto

lemma audit_context_lookup:
  "map_of (audit_context bound_fields kwargs) k =
     (case map_of (rev kwargs) k of Some v \<Rightarrow> Some v | None \<Rightarrow> if k \<in> set POSITIONAL_FIELDS then None else map_of bound_fields k)"
proof -
  have "k \<in> fst ` set kwargs \<longleftrightarrow> map_of (rev kwargs) k \<noteq> None" by (auto simp: map_of_eq_None_iff)
  then show ?thesis unfolding audit_context_def map_of_filter_keys merge_fields_lookup by (auto split: option.splits)
qed

lemma logger_fields_module:
  "map_of (logger_fields module_name bound_fields kwargs) ''module'' = Some (case map_of bound_fields ''module'' of None \<Rightarrow> module_name | Some m \<Rightarrow> m)"
  by (simp add: logger_fields_def map_of_dict_set)

section \<open>Properties\<close>

text \<open>
  A call on the chain that nothing interrupts returns, without an exception, what the
  first service from the active one downwards answers that does not raise, and the work stays
  with that service; if there is none, the call is reported and counted as dropped.
\<close>

lemma execute_finds_the_first_taker:
  assumes "current_index f < length (fo_services cfg)" and "execute cfg serve takes method_name f = (result, f1)"
  shows "case find (takes_call serve) [current_index f..<length (fo_services cfg)] of
      Some j \<Rightarrow> (\<exists>r. serve j = Answers r \<and> result = Returned r) \<and> current_index f1 = j \<and> dropped_calls f1 = dropped_calls f
    | None \<Rightarrow> result = ALL_SERVICES_FAILED \<and> current_index f1 = length (fo_services cfg) - 1 \<and> dropped_calls f1 = dropped_calls f + 1"
  by (rule execute_goes_down [of "begin_call cfg method_name" "current_index f"])
     (use assms in \<open>simp_all add: begin_call_def execute_def\<close>)

definition two_audits :: failover_setup where
  "two_audits = \<lparr>fo_services = [''structlog_audit'', ''standard_audit''], fo_has_checker = True, fo_upgrade_cooldown = 300\<rparr>"

definition fresh_chain :: failover where
  "fresh_chain = \<lparr>current_index = 0, last_upgrade_attempt = 0, dropped_calls = 0, failed_checks = 0, lost_log_lines = 0, last_check = NOT_RUN\<rparr>"

text \<open>
  C30. Threads do not lose each other's calls. However the steps of any number of calls and of
  the background rounds interleave, a call that is given up within the cooldown of the time
  it came in has asked the service at the end of the list; no service is asked twice, and a
  call in flight always comes to its end within five steps for each of its turns.
\<close>

theorem dropped_call_reached_the_end:
  assumes run: "failover_run cfg s" and c: "sy_calls s t = Some (came, c)"
  shows "distinct (ca_tried c) \<and> set (ca_tried c) \<subseteq> {..<length (fo_services cfg)}
    \<and> (ca_phase c = Ended ALL_SERVICES_FAILED \<and> sy_now s - came < fo_upgrade_cooldown cfg \<longrightarrow>
         length (fo_services cfg) - 1 \<in> set (ca_tried c))
    \<and> (\<not> call_ended c \<longrightarrow> call_measure (fst (call_step cfg serve takes c (sy_chain s))) < call_measure c)"
proof -
  have "call_inv cfg came (sy_now s) (sy_chain s) c" using system_inv_run [OF run] c unfolding system_inv_def by blast
  then show ?thesis using call_step_measure [of c cfg serve takes "sy_chain s"] by (auto simp: call_inv_def on_its_way_def Let_def)
qed

text \<open>A call that a broken chain gives up: the second audit logger was asked as well.\<close>

theorem dropped_call_reached_the_end_witness:
  "\<exists>s :: unit failover_system. failover_run two_audits s \<and> (\<exists>c. sy_calls s 0 = Some (1000, c) \<and> 1 \<in> set (ca_tried c)
     \<and> ca_phase c = Ended ALL_SERVICES_FAILED)"
proof -
  let ?serve = "\<lambda>_. Raises ''disk full'' :: unit reply" and ?takes = "\<lambda>_. True"
  define s0 :: "unit failover_system" where "s0 = \<lparr>sy_now = 1000, sy_chain = fresh_chain, sy_calls = (\<lambda>_. None)\<rparr>"
  define own :: "unit call \<times> failover \<Rightarrow> unit call \<times> failover" where "own = (\<lambda>(c, f). call_step two_audits ?serve ?takes c f)"
  define at where "at k = (own ^^ k) (begin_call two_audits ''log_url_created'', fresh_chain)" for k
  have go: "failover_run two_audits (s0\<lparr>sy_chain := snd (at k), sy_calls := [0 \<mapsto> (1000, fst (at k))]\<rparr>)" for k
  proof (induction k)
    case 0
    have "failover_run two_audits s0"
      unfolding s0_def by (rule failover_run.start) (simp add: failover_init_def two_audits_def fresh_chain_def)
    from failover_run.more [OF this failover_step.arrive [of _ _ 0 "''log_url_created''"]] show ?case
      by (simp add: at_def s0_def fun_upd_def)
  next
    case (Suc k)
    have "call_step two_audits ?serve ?takes (fst (at k)) (snd (at k)) = (fst (at (Suc k)), snd (at (Suc k)))"
      by (simp add: at_def own_def case_prod_beta)
    then have "failover_step two_audits (s0\<lparr>sy_chain := snd (at k), sy_calls := [0 \<mapsto> (1000, fst (at k))]\<rparr>)
        (s0\<lparr>sy_chain := snd (at (Suc k)), sy_calls := [0 \<mapsto> (1000, fst (at (Suc k)))]\<rparr>)"
      using failover_step.step [of "s0\<lparr>sy_chain := snd (at k), sy_calls := [0 \<mapsto> (1000, fst (at k))]\<rparr>" 0 1000 "fst (at k)"
          two_audits ?serve ?takes "fst (at (Suc k))" "snd (at (Suc k))"] by simp
    with Suc show ?case by (rule failover_run.more)
  qed
  have "ca_phase (fst (at 7)) = Ended ALL_SERVICES_FAILED"
    by (simp add: at_def own_def numeral_eq_Suc call_step_def choose_service_def begin_call_def two_audits_def fresh_chain_def switch_to_next_def say_def Let_def)
  moreover from dropped_call_reached_the_end [OF go [of 7], of 0 1000 "fst (at 7)"] calculation
  have "1 \<in> set (ca_tried (fst (at 7)))" by (simp add: s0_def two_audits_def)
  ultimately show ?thesis using go [of 7] by fastforce
qed

end
