(* ===== verification/Health.thy ===== *)
theory Health
  imports Failover
begin

text \<open>
  The health of the service (\<^verbatim>\<open>infrastructure/health\<close>, the snapshot of
  \<^verbatim>\<open>application/ports/health_check.py\<close> and \<^verbatim>\<open>get_service_health.py\<close>). What the database, the cache,
  the queue and the limiter answer when they are asked, and after how long, are arguments; a
  check that never answers has no time. The chains of the logs report themselves.
\<close>

section \<open>What was observed\<close>

record health_snapshot =
  hs_database :: bool
  hs_cache :: bool
  hs_cache_configured :: bool
  hs_task_queue :: bool
  hs_rate_limiter :: bool
  hs_database_schema :: bool
  hs_task_queue_configured :: bool
  hs_cache_stores :: bool
  hs_timed_out :: "string list"

definition healthy :: "health_snapshot \<Rightarrow> bool" where
  "healthy s \<longleftrightarrow> hs_database s \<and> hs_database_schema s \<and> (hs_cache s \<or> \<not> hs_cache_configured s) \<and> hs_task_queue s \<and> hs_rate_limiter s"

definition answered_state :: "health_snapshot \<Rightarrow> string \<Rightarrow> bool \<Rightarrow> string" where
  "answered_state s name ok = (if name \<in> set (hs_timed_out s) then ''timeout'' else if ok then ''ok'' else ''unavailable'')"

definition component_states :: "health_snapshot \<Rightarrow> (string \<times> string) list" where
  "component_states s =
     (let database0 = answered_state s ''database'' (hs_database s);
          database = (if database0 = ''ok'' \<and> \<not> hs_database_schema s then ''no_schema'' else database0);
          cache = (if hs_cache_configured s then answered_state s ''cache'' (hs_cache s)
                   else if hs_cache_stores s then ''in_process'' else ''disabled'')
      in [(''database'', database), (''cache'', cache),
          (''task_queue'', if hs_task_queue_configured s then answered_state s ''task_queue'' (hs_task_queue s) else ''inline''),
          (''rate_limiter'', if hs_rate_limiter s then ''enforcing'' else ''not_enforcing'')])"

section \<open>Asking\<close>

record cache_face =
  cf_is_configured :: bool
  cf_stores_entries :: bool
  cf_ping :: "bool reply"

text \<open>A queue has a broker, whose workers answer a ping or not, or it runs tasks in the process.\<close>

datatype queue_face = InProcess | Broker "string list reply"

record dependencies =
  dp_probe :: "unit reply"
  dp_missing_declared_tables :: "string list reply"
  dp_cache :: "cache_face option"
  dp_task_queue :: "queue_face option"
  dp_is_enforcing :: "bool reply option"

definition answers_yes :: "bool reply \<Rightarrow> bool" where
  "answers_yes r = (case r of Answers b \<Rightarrow> b | Raises _ \<Rightarrow> False)"

definition check_database :: "dependencies \<Rightarrow> bool" where
  "check_database dp = (case dp_probe dp of Answers _ \<Rightarrow> True | Raises _ \<Rightarrow> False)"

definition check_rate_limiter :: "dependencies \<Rightarrow> bool" where
  "check_rate_limiter dp = (case dp_is_enforcing dp of None \<Rightarrow> True | Some r \<Rightarrow> answers_yes r)"

text \<open>The schema is asked for until it has been seen whole once.\<close>

definition check_schema :: "dependencies \<Rightarrow> bool \<Rightarrow> bool \<times> bool" where
  "check_schema dp schema_seen =
     (if schema_seen then (True, schema_seen)
      else case dp_missing_declared_tables dp of
        Raises _ \<Rightarrow> (False, schema_seen)
      | Answers missing \<Rightarrow> (let whole = (missing = []) in (whole, whole)))"

definition is_cache_configured :: "dependencies \<Rightarrow> bool" where
  "is_cache_configured dp = (case dp_cache dp of None \<Rightarrow> False | Some c \<Rightarrow> cf_is_configured c)"

definition does_cache_store :: "dependencies \<Rightarrow> bool" where
  "does_cache_store dp = (case dp_cache dp of None \<Rightarrow> False | Some c \<Rightarrow> cf_stores_entries c)"

definition check_cache :: "dependencies \<Rightarrow> bool" where
  "check_cache dp =
     (case dp_cache dp of
        None \<Rightarrow> True
      | Some c \<Rightarrow> if \<not> is_cache_configured dp then True else answers_yes (cf_ping c))"

definition is_task_queue_configured :: "dependencies \<Rightarrow> bool" where
  "is_task_queue_configured dp = (case dp_task_queue dp of Some (Broker _) \<Rightarrow> True | _ \<Rightarrow> False)"

definition check_task_queue :: "dependencies \<Rightarrow> bool" where
  "check_task_queue dp =
     (case dp_task_queue dp of
        None \<Rightarrow> True
      | Some InProcess \<Rightarrow> True
      | Some (Broker r) \<Rightarrow> (case r of Answers replies \<Rightarrow> replies \<noteq> [] | Raises _ \<Rightarrow> False))"

section \<open>Waiting\<close>

text \<open>
  The checks run side by side and are collected one after the other under one deadline.
  \<open>took\<close> is when a check is done, \<open>elapsed\<close> how long the collection has lasted.
\<close>

definition remaining :: "int \<Rightarrow> int \<Rightarrow> int" where
  "remaining timeout elapsed = max 0 (timeout - elapsed)"

fun collect ::
  "int \<Rightarrow> (string \<Rightarrow> int option) \<Rightarrow> (string \<times> bool) list \<Rightarrow> int \<Rightarrow> (string \<times> bool) list \<times> string list \<times> int" where
  "collect timeout took [] elapsed = ([], [], elapsed)"
| "collect timeout took ((name, answer) # rest) elapsed =
     (case took name of
        Some d \<Rightarrow>
          if d \<le> elapsed + remaining timeout elapsed
          then (case collect timeout took rest (max elapsed d) of (results, timed_out, e) \<Rightarrow> ((name, answer) # results, timed_out, e))
          else (case collect timeout took rest (elapsed + remaining timeout elapsed) of
                  (results, timed_out, e) \<Rightarrow> ((name, False) # results, name # timed_out, e))
      | None \<Rightarrow>
          (case collect timeout took rest (elapsed + remaining timeout elapsed) of
             (results, timed_out, e) \<Rightarrow> ((name, False) # results, name # timed_out, e)))"

definition checks_of :: "dependencies \<Rightarrow> (string \<times> bool) list" where
  "checks_of dp =
     [(''database'', check_database dp), (''cache'', check_cache dp), (''task_queue'', check_task_queue dp),
      (''rate_limiter'', check_rate_limiter dp)]"

definition observe ::
  "int \<Rightarrow> dependencies \<Rightarrow> (string \<Rightarrow> int option) \<Rightarrow> int \<Rightarrow> bool \<Rightarrow> health_snapshot \<times> bool \<times> int" where
  "observe timeout dp took schema_took schema_seen =
     (case check_schema dp schema_seen of (schema_whole, seen1) \<Rightarrow>
        (case collect timeout took (checks_of dp) 0 of (results, timed_out, elapsed) \<Rightarrow>
           let result = (\<lambda>name. map_of results name = Some True)
           in (\<lparr>hs_database = result ''database'', hs_cache = result ''cache'', hs_cache_configured = is_cache_configured dp,
                hs_task_queue = result ''task_queue'', hs_rate_limiter = result ''rate_limiter'', hs_database_schema = schema_whole,
                hs_task_queue_configured = is_task_queue_configured dp, hs_cache_stores = does_cache_store dp, hs_timed_out = timed_out\<rparr>,
               seen1, (if schema_seen then 0 else schema_took) + elapsed)))"

record health_check =
  hc_cached :: "health_snapshot option"
  hc_cached_at :: moment
  hc_schema_seen :: bool

definition CACHE_TTL_SECONDS :: int where
  "CACHE_TTL_SECONDS = 2 * 1000000"

text \<open>The last observation while it is fresh; a new one is stamped when it is over.\<close>

definition snapshot ::
  "int \<Rightarrow> moment \<Rightarrow> dependencies \<Rightarrow> (string \<Rightarrow> int option) \<Rightarrow> int \<Rightarrow> health_check \<Rightarrow> health_snapshot \<times> moment \<times> health_check" where
  "snapshot timeout now dp took schema_took hc =
     (case hc_cached hc of
        Some s \<Rightarrow>
          if now - hc_cached_at hc < CACHE_TTL_SECONDS then (s, now, hc)
          else (case observe timeout dp took schema_took (hc_schema_seen hc) of (s1, seen, e) \<Rightarrow>
                  (s1, now + e, \<lparr>hc_cached = Some s1, hc_cached_at = now + e, hc_schema_seen = seen\<rparr>))
      | None \<Rightarrow>
          (case observe timeout dp took schema_took (hc_schema_seen hc) of (s1, seen, e) \<Rightarrow>
             (s1, now + e, \<lparr>hc_cached = Some s1, hc_cached_at = now + e, hc_schema_seen = seen\<rparr>)))"

record service_health_status =
  sh_database :: bool
  sh_database_schema :: bool
  sh_redis :: bool
  sh_cache_configured :: bool
  sh_task_queue :: bool
  sh_task_queue_configured :: bool
  sh_rate_limiter :: bool
  sh_components :: "(string \<times> string) list"
  sh_timed_out :: "string list"
  sh_logging :: "(chain_status \<times> chain_status) option"

definition get_service_health :: "health_snapshot \<Rightarrow> (manager option \<times> manager option) option \<Rightarrow> service_health_status" where
  "get_service_health s managers =
     \<lparr>sh_database = hs_database s, sh_database_schema = hs_database_schema s, sh_redis = hs_cache s, sh_cache_configured = hs_cache_configured s,
      sh_task_queue = hs_task_queue s, sh_task_queue_configured = hs_task_queue_configured s, sh_rate_limiter = hs_rate_limiter s,
      sh_components = component_states s, sh_timed_out = hs_timed_out s,
      sh_logging = map_option (\<lambda>(l, a). (chain_status_of l, chain_status_of a)) managers\<rparr>"

section \<open>Lemmas\<close>

definition in_time :: "int \<Rightarrow> (string \<Rightarrow> int option) \<Rightarrow> string \<Rightarrow> bool" where
  "in_time timeout took name = (case took name of None \<Rightarrow> False | Some d \<Rightarrow> d \<le> timeout)"

text \<open>Waiting one after the other costs nothing: a check counts if it is done within the budget.\<close>

lemma collect_is_parallel:
  assumes "0 \<le> elapsed" "elapsed \<le> timeout"
  shows "fst (collect timeout took checks elapsed) = map (\<lambda>(name, answer). (name, in_time timeout took name \<and> answer)) checks
    \<and> fst (snd (collect timeout took checks elapsed)) = filter (\<lambda>name. \<not> in_time timeout took name) (map fst checks)
    \<and> snd (snd (collect timeout took checks elapsed)) \<le> timeout"
  using assms
proof (induction timeout took checks elapsed rule: collect.induct)
  case (2 timeout took name answer rest elapsed)
  have r: "elapsed + remaining timeout elapsed = timeout" using 2 by (simp add: remaining_def)
  show ?case
  proof (cases "in_time timeout took name")
    case True
    then obtain d where d: "took name = Some d" "d \<le> timeout" by (auto simp: in_time_def split: option.splits)
    then show ?thesis using 2 r True by (auto simp: case_prod_beta max_def)
  next
    case False
    then show ?thesis using 2 r by (auto simp: case_prod_beta in_time_def split: option.splits)
  qed
qed simp

lemma observe_fields:
  assumes "0 \<le> timeout" and "observe timeout dp took schema_took seen = (s, seen1, e)"
  shows "hs_database s \<longleftrightarrow> in_time timeout took ''database'' \<and> check_database dp"
    "hs_cache s \<longleftrightarrow> in_time timeout took ''cache'' \<and> check_cache dp"
    "hs_task_queue s \<longleftrightarrow> in_time timeout took ''task_queue'' \<and> check_task_queue dp"
    "hs_rate_limiter s \<longleftrightarrow> in_time timeout took ''rate_limiter'' \<and> check_rate_limiter dp"
    "hs_cache_configured s = is_cache_configured dp" "hs_task_queue_configured s = is_task_queue_configured dp"
    "hs_cache_stores s = does_cache_store dp" "hs_database_schema s = fst (check_schema dp seen)" "seen1 = snd (check_schema dp seen)"
    "set (hs_timed_out s) = {name \<in> {''database'', ''cache'', ''task_queue'', ''rate_limiter''}. \<not> in_time timeout took name}"
    "e \<le> (if seen then 0 else schema_took) + timeout"
proof -
  let ?c = "collect timeout took (checks_of dp) 0" and ?in = "in_time timeout took"
  let ?result = "\<lambda>name. map_of (fst ?c) name = Some True"
  have "s = \<lparr>hs_database = ?result ''database'', hs_cache = ?result ''cache'', hs_cache_configured = is_cache_configured dp,
      hs_task_queue = ?result ''task_queue'', hs_rate_limiter = ?result ''rate_limiter'', hs_database_schema = fst (check_schema dp seen),
      hs_task_queue_configured = is_task_queue_configured dp, hs_cache_stores = does_cache_store dp, hs_timed_out = fst (snd ?c)\<rparr>"
    and seen1: "seen1 = snd (check_schema dp seen)" and e: "e = (if seen then 0 else schema_took) + snd (snd ?c)"
    using assms(2) by (simp_all add: observe_def case_prod_beta Let_def)
  note s = this(1)
  have c: "fst ?c = [(''database'', ?in ''database'' \<and> check_database dp), (''cache'', ?in ''cache'' \<and> check_cache dp),
      (''task_queue'', ?in ''task_queue'' \<and> check_task_queue dp), (''rate_limiter'', ?in ''rate_limiter'' \<and> check_rate_limiter dp)]"
    and t: "fst (snd ?c) = filter (\<lambda>name. \<not> ?in name) [''database'', ''cache'', ''task_queue'', ''rate_limiter'']" and "snd (snd ?c) \<le> timeout"
    using collect_is_parallel [OF order_refl assms(1), of took "checks_of dp"] by (simp_all add: checks_of_def)
  then show "e \<le> (if seen then 0 else schema_took) + timeout" by (simp add: e)
  show "hs_database s \<longleftrightarrow> ?in ''database'' \<and> check_database dp" "hs_cache s \<longleftrightarrow> ?in ''cache'' \<and> check_cache dp"
    "hs_task_queue s \<longleftrightarrow> ?in ''task_queue'' \<and> check_task_queue dp" "hs_rate_limiter s \<longleftrightarrow> ?in ''rate_limiter'' \<and> check_rate_limiter dp"
    by (simp_all add: s c)
  show "hs_cache_configured s = is_cache_configured dp" "hs_task_queue_configured s = is_task_queue_configured dp"
    "hs_cache_stores s = does_cache_store dp" "hs_database_schema s = fst (check_schema dp seen)" "seen1 = snd (check_schema dp seen)"
    by (simp_all add: s seen1)
  show "set (hs_timed_out s) = {name \<in> {''database'', ''cache'', ''task_queue'', ''rate_limiter''}. \<not> ?in name}"
    unfolding s health_snapshot.select_convs t set_filter by simp
qed

definition GOOD_STATES :: "string list" where
  "GOOD_STATES = [''ok'', ''in_process'', ''disabled'', ''inline'', ''enforcing'']"

section \<open>Properties\<close>


definition hanging_broker :: dependencies where
  "hanging_broker = \<lparr>dp_probe = Answers (), dp_missing_declared_tables = Answers [], dp_cache = None, dp_task_queue = Some (Broker (Answers [''worker''])),
     dp_is_enforcing = None\<rparr>"


end
