(* ===== verification/Role_Seed.thy ===== *)
theory Role_Seed
  imports Administration
begin

text \<open>
  Roles and permissions from a file (\<^verbatim>\<open>infrastructure/database/role_loader.py\<close>, \<^verbatim>\<open>seed.py\<close> and
  the command that loads a file of the operator). A file is what the YAML parser hands over: an
  entry may lack a key, and the columns that must not be empty are there. The identifiers
  \<^verbatim>\<open>uuid4\<close> draws for the new entries are arguments.
\<close>

section \<open>The file and the report\<close>

record permission_def =
  pd_name :: string
  pd_resource :: string
  pd_action :: string
  pd_description :: "string option option"

record role_def =
  rd_name :: string
  rd_description :: "string option option"
  rd_is_system :: "bool option"
  rd_permissions :: "string list"

record rbac_config =
  rb_permissions :: "permission_def list"
  rb_roles :: "role_def list"

record regranted_role =
  rg_name :: string
  rg_permissions_before :: "string list"
  rg_permissions_after :: "string list"
  rg_is_system :: bool

record load_summary =
  ls_permissions_created :: "string list"
  ls_roles_created :: "string list"
  ls_roles_left_alone :: "string list"
  ls_roles_reprotected :: "string list"
  ls_roles_regranted :: "regranted_role list"

definition empty_summary :: load_summary where
  "empty_summary =
     \<lparr>ls_permissions_created = [], ls_roles_created = [], ls_roles_left_alone = [], ls_roles_reprotected = [], ls_roles_regranted = []\<rparr>"

definition comma_list :: "string list \<Rightarrow> string" where
  "comma_list names = join_with '', '' names"

definition describe :: "load_summary \<Rightarrow> string" where
  "describe s =
     join_with ''; ''
       ([''permissions created: '' @ str_of_nat (length (ls_permissions_created s)), ''roles created: '' @ str_of_nat (length (ls_roles_created s))]
        @ (if ls_roles_reprotected s = [] then [] else [''system flag restored: '' @ comma_list (sort (ls_roles_reprotected s))])
        @ (if ls_roles_regranted s = [] then []
           else [''permissions replaced on: '' @
                 comma_list (map (\<lambda>r. if rg_is_system r then rg_name r @ '' (a system role)'' else rg_name r) (sort_key rg_name (ls_roles_regranted s)))])
        @ (if ls_roles_left_alone s = [] then [] else [''left as they are: '' @ comma_list (sort (ls_roles_left_alone s))]))"

section \<open>One pass\<close>

fun first_repeated :: "string list \<Rightarrow> string list \<Rightarrow> string option" where
  "first_repeated [] seen = None"
| "first_repeated (name # names) seen = (if name \<in> set seen then Some name else first_repeated names (name # seen))"

definition refuse_duplicates_in :: "string \<Rightarrow> string \<Rightarrow> string list \<Rightarrow> (exn, unit) result" where
  "refuse_duplicates_in file_path section_name names =
     (case first_repeated names [] of
        None \<Rightarrow> Inr ()
      | Some name \<Rightarrow>
          Inl (Domain (ValidationError
            (file_path @ '' names the '' @ butlast section_name @ '' '' @ apos @ name @ apos
             @ '' more than once; each name is unique in the database, so the second one cannot be stored'') section_name None [])))"

definition refuse_duplicate_names :: "string \<Rightarrow> rbac_config \<Rightarrow> (exn, unit) result" where
  "refuse_duplicate_names file_path cfg =
     rbind (refuse_duplicates_in file_path ''permissions'' (map pd_name (rb_permissions cfg)))
       (\<lambda>_. refuse_duplicates_in file_path ''roles'' (map rd_name (rb_roles cfg)))"

text \<open>Every key of an entry is set on the row it names.\<close>

definition permission_fields :: "permission_def \<Rightarrow> permission \<Rightarrow> permission" where
  "permission_fields pd p =
     p\<lparr>pm_resource := pd_resource pd, pm_action := pd_action pd,
       pm_description := (case pd_description pd of None \<Rightarrow> pm_description p | Some d \<Rightarrow> d)\<rparr>"

definition upsert_permission ::
  "(string \<Rightarrow> ident) \<Rightarrow> bool \<Rightarrow> permission_def \<Rightarrow> load_summary \<times> database \<Rightarrow> load_summary \<times> database" where
  "upsert_permission new_id update_existing pd st =
     (case st of (summary, db) \<Rightarrow>
        if pd_name pd \<in> set (map pm_name (db_permissions db))
        then (summary,
              if update_existing
              then db\<lparr>db_permissions := map (\<lambda>p. if pm_name p = pd_name pd then permission_fields pd p else p) (db_permissions db)\<rparr>
              else db)
        else (summary\<lparr>ls_permissions_created := ls_permissions_created summary @ [pd_name pd]\<rparr>,
              db\<lparr>db_permissions := db_permissions db @
                   [\<lparr>pm_id = new_id (pd_name pd), pm_name = pd_name pd, pm_resource = pd_resource pd, pm_action = pd_action pd,
                     pm_description = (case pd_description pd of None \<Rightarrow> None | Some d \<Rightarrow> d)\<rparr>]\<rparr>))"

text \<open>The row of the entry before its permissions are replaced, and what the summary says of it.\<close>

definition role_fields :: "role_def \<Rightarrow> role_row \<Rightarrow> role_row" where
  "role_fields rd m =
     m\<lparr>rr_description := (case rd_description rd of None \<Rightarrow> rr_description m | Some d \<Rightarrow> d),
       rr_is_system := (case rd_is_system rd of None \<Rightarrow> rr_is_system m | Some b \<Rightarrow> b)\<rparr>"

definition replace_role :: "role_row \<Rightarrow> role_row list \<Rightarrow> role_row list" where
  "replace_role m ms = map (\<lambda>x. if rr_name x = rr_name m then m else x) ms"

definition granted_names :: "database \<Rightarrow> role_row \<Rightarrow> string list" where
  "granted_names db m = sort (map pm_name (rl_permissions (role_to_domain db m)))"

definition upsert_role ::
  "(string \<Rightarrow> ident) \<Rightarrow> bool \<Rightarrow> role_def \<Rightarrow> load_summary \<times> database \<Rightarrow> (exn, load_summary \<times> database) result" where
  "upsert_role new_id update_existing rd st =
     (case st of (summary, db) \<Rightarrow>
        rbind (require_valid_role_name (rd_name rd)) (\<lambda>_.
        rbind (require_valid_role_description (case rd_description rd of None \<Rightarrow> None | Some d \<Rightarrow> d)) (\<lambda>_.
          let perms = get_permissions_by_names (rd_permissions rd) db
          in case List.find (\<lambda>m. rr_name m = rd_name rd) (db_roles db) of
               Some m \<Rightarrow>
                 if update_existing
                 then rbind (refuse_unknown_permissions (rd_permissions rd) perms) (\<lambda>_.
                   let m1 = (role_fields rd m)\<lparr>rr_permission_ids := map pm_id perms\<rparr>;
                       before = granted_names db m;
                       after = sort (map pm_name perms)
                   in Inr (if before \<noteq> after
                           then summary\<lparr>ls_roles_regranted := ls_roles_regranted summary @
                                  [\<lparr>rg_name = rd_name rd, rg_permissions_before = before, rg_permissions_after = after, rg_is_system = rr_is_system m1\<rparr>]\<rparr>
                           else summary,
                           db\<lparr>db_roles := replace_role m1 (db_roles db)\<rparr>))
                 else if rd_is_system rd = Some True \<and> \<not> rr_is_system m
                 then Inr (summary\<lparr>ls_roles_reprotected := ls_roles_reprotected summary @ [rd_name rd]\<rparr>,
                           db\<lparr>db_roles := replace_role (m\<lparr>rr_is_system := True\<rparr>) (db_roles db)\<rparr>)
                 else Inr (summary\<lparr>ls_roles_left_alone := ls_roles_left_alone summary @ [rd_name rd]\<rparr>, db)
             | None \<Rightarrow>
                 rbind (refuse_unknown_permissions (rd_permissions rd) perms) (\<lambda>_.
                   Inr (summary\<lparr>ls_roles_created := ls_roles_created summary @ [rd_name rd]\<rparr>,
                        db\<lparr>db_roles := db_roles db @
                             [\<lparr>rr_id = new_id (rd_name rd), rr_name = rd_name rd,
                               rr_description = (case rd_description rd of None \<Rightarrow> None | Some d \<Rightarrow> d),
                               rr_is_system = (case rd_is_system rd of None \<Rightarrow> False | Some b \<Rightarrow> b), rr_permission_ids = map pm_id perms\<rparr>]\<rparr>)))))"

fun upsert_roles ::
  "(string \<Rightarrow> ident) \<Rightarrow> bool \<Rightarrow> role_def list \<Rightarrow> load_summary \<times> database \<Rightarrow> (exn, load_summary \<times> database) result" where
  "upsert_roles new_id update_existing [] st = Inr st"
| "upsert_roles new_id update_existing (rd # rds) st =
     rbind (upsert_role new_id update_existing rd st) (\<lambda>st1. upsert_roles new_id update_existing rds st1)"

definition load_from_yaml ::
  "(string \<Rightarrow> ident) \<Rightarrow> (string \<Rightarrow> ident) \<Rightarrow> string \<Rightarrow> bool \<Rightarrow> rbac_config \<Rightarrow> database \<Rightarrow> (exn, load_summary \<times> database) result" where
  "load_from_yaml new_pid new_rid file_path update_existing cfg db =
     rbind (refuse_duplicate_names file_path cfg) (\<lambda>_.
       upsert_roles new_rid update_existing (rb_roles cfg)
         (fold (upsert_permission new_pid update_existing) (rb_permissions cfg) (empty_summary, db)))"

definition seed_base_roles ::
  "(string \<Rightarrow> ident) \<Rightarrow> (string \<Rightarrow> ident) \<Rightarrow> string \<Rightarrow> rbac_config \<Rightarrow> database \<Rightarrow> (exn, load_summary \<times> database) result" where
  "seed_base_roles new_pid new_rid file_path cfg db = load_from_yaml new_pid new_rid file_path False cfg db"

text \<open>The command of the operator: an error leaves the database as it was, and the journal learns of every new or changed role.\<close>

definition load_custom_roles ::
  "(string \<Rightarrow> ident) \<Rightarrow> (string \<Rightarrow> ident) \<Rightarrow> string \<Rightarrow> bool \<Rightarrow> rbac_config \<Rightarrow> database
   \<Rightarrow> (exn, string) result \<times> database \<times> audit_event list" where
  "load_custom_roles new_pid new_rid file_path update_existing cfg db =
     (case load_from_yaml new_pid new_rid file_path update_existing cfg db of
        Inl e \<Rightarrow> (Inl e, db, [])
      | Inr (summary, db1) \<Rightarrow>
          let granted = (\<lambda>name. case List.find (\<lambda>m. rr_name m = name) (db_roles db1) of
                            None \<Rightarrow> [] | Some m \<Rightarrow> map pm_name (rl_permissions (role_to_domain db1 m)));
              holders = (\<lambda>name. case List.find (\<lambda>m. rr_name m = name) (db_roles db1) of
                            None \<Rightarrow> 0 | Some m \<Rightarrow> length (filter (\<lambda>u. rr_id m \<in> set (ur_role_ids u)) (db_users db1)))
          in (Inr ((if update_existing then ''Updated'' else ''Loaded'') @ '' roles and permissions from '' @ file_path @ [char_of (10::nat)] @ describe summary),
              db1,
              map (\<lambda>name. RoleCreated name (granted name)) (ls_roles_created summary)
              @ map (\<lambda>r. RolePermissionsChanged (rg_name r) (rg_permissions_before r) (rg_permissions_after r) (holders (rg_name r)))
                  (ls_roles_regranted summary)))"

section \<open>Lemmas: names and rows\<close>

lemma first_repeated_None: "first_repeated names seen = None \<longleftrightarrow> distinct names \<and> set names \<inter> set seen = {}"
  by (induction names seen rule: first_repeated.induct) auto

lemma no_duplicate_names:
  assumes "refuse_duplicate_names file_path cfg = Inr u"
  shows "distinct (map pd_name (rb_permissions cfg))" "distinct (map rd_name (rb_roles cfg))"
  using assms by (auto simp: refuse_duplicate_names_def refuse_duplicates_in_def first_repeated_None result_simps split: option.splits)

lemma find_by_name: "List.find (\<lambda>m. rr_name m = n) ms = Some m \<Longrightarrow> rr_name m = n \<and> m \<in> set ms"
  by (auto simp: find_Some_iff)

lemma find_by_name_None: "List.find (\<lambda>m. rr_name m = n) ms = None \<longleftrightarrow> n \<notin> rr_name ` set ms"
  by (auto simp: find_None_iff)

lemma find_replace_role:
  "List.find (\<lambda>x. rr_name x = n) (replace_role m ms) =
     (if n = rr_name m then if n \<in> rr_name ` set ms then Some m else None else List.find (\<lambda>x. rr_name x = n) ms)"
  by (induction ms) (auto simp: replace_role_def)

lemma find_append_role:
  "List.find (\<lambda>x. rr_name x = n) (ms @ [m]) =
     (case List.find (\<lambda>x. rr_name x = n) ms of None \<Rightarrow> if rr_name m = n then Some m else None | Some x \<Rightarrow> Some x)"
  by (induction ms) auto

lemma replace_role_same:
  assumes "distinct (map rr_name ms)" and "m \<in> set ms" shows "replace_role m ms = ms"
  using assms unfolding replace_role_def by (intro map_idI) (auto simp: distinct_map inj_on_def)

section \<open>Lemmas: the permissions of a file\<close>

definition perm_settled :: "bool \<Rightarrow> permission_def \<Rightarrow> database \<Rightarrow> bool" where
  "perm_settled update pd db \<longleftrightarrow> pd_name pd \<in> pm_name ` set (db_permissions db)
     \<and> (update \<longrightarrow> (\<forall>p \<in> set (db_permissions db). pm_name p = pd_name pd \<longrightarrow> permission_fields pd p = p))"

lemma permission_fields_simps [simp]:
  "pm_name (permission_fields pd p) = pm_name p" "pm_id (permission_fields pd p) = pm_id p"
  "permission_fields pd (permission_fields pd p) = permission_fields pd p"
  by (simp_all add: permission_fields_def split: option.splits)

lemma perm_settled_noop:
  assumes "perm_settled update pd db" shows "upsert_permission new update pd (s, db) = (s, db)"
proof -
  have "map (\<lambda>p. if pm_name p = pd_name pd then permission_fields pd p else p) (db_permissions db) = db_permissions db" if update
    using assms that by (intro map_idI) (auto simp: perm_settled_def)
  then show ?thesis using assms by (auto simp: upsert_permission_def perm_settled_def)
qed

lemma upsert_permission_names:
  "map pm_name (db_permissions (snd (upsert_permission new update pd st))) =
     map pm_name (db_permissions (snd st)) @ (if pd_name pd \<in> set (map pm_name (db_permissions (snd st))) then [] else [pd_name pd])"
  by (cases st) (simp add: upsert_permission_def)

lemma upsert_permission_name_set:
  "pm_name ` set (db_permissions (snd (upsert_permission new update pd st))) = insert (pd_name pd) (pm_name ` set (db_permissions (snd st)))"
  using arg_cong [OF upsert_permission_names, of set new update pd st] by (auto split: if_splits)

lemma upsert_permission_settles: "perm_settled update pd (snd (upsert_permission new update pd st))"
proof -
  obtain s db where st: "st = (s, db)" by (rule prod.exhaust)
  have "permission_fields pd p = p" if "p \<in> set (db_permissions (snd (upsert_permission new update pd st)))" "pm_name p = pd_name pd" update for p
  proof (cases "pd_name pd \<in> set (map pm_name (db_permissions db))")
    case True
    then show ?thesis using that by (auto simp: st upsert_permission_def split: if_splits)
  next
    case False
    then have "pm_name q \<noteq> pd_name pd" if "q \<in> set (db_permissions db)" for q using that by force
    then show ?thesis using that False by (auto simp: st upsert_permission_def permission_fields_def split: option.splits)
  qed
  then show ?thesis by (simp add: perm_settled_def upsert_permission_name_set)
qed

lemma upsert_permission_keeps_settled:
  assumes "perm_settled update pd (snd st)" and "pd_name pd' \<noteq> pd_name pd"
  shows "perm_settled update pd (snd (upsert_permission new update pd' st))"
proof -
  obtain s db where st: "st = (s, db)" by (rule prod.exhaust)
  have "permission_fields pd p = p" if "p \<in> set (db_permissions (snd (upsert_permission new update pd' st)))" "pm_name p = pd_name pd" update for p
    using assms that by (auto simp: st upsert_permission_def perm_settled_def split: if_splits)
  then show ?thesis using assms(1) by (simp add: perm_settled_def upsert_permission_name_set)
qed

lemma fold_keeps_settled:
  "perm_settled update pd (snd st) \<Longrightarrow> pd_name pd \<notin> pd_name ` set pds \<Longrightarrow> perm_settled update pd (snd (fold (upsert_permission new update) pds st))"
proof (induction pds arbitrary: st)
  case (Cons q pds)
  then have "perm_settled update pd (snd (upsert_permission new update q st))" by (intro upsert_permission_keeps_settled) auto
  then show ?case using Cons by simp
qed simp

lemma fold_settles:
  "distinct (map pd_name pds) \<Longrightarrow> pd \<in> set pds \<Longrightarrow> perm_settled update pd (snd (fold (upsert_permission new update) pds st))"
proof (induction pds arbitrary: st)
  case (Cons q pds)
  show ?case
  proof (cases "pd = q")
    case True
    then show ?thesis using Cons.prems fold_keeps_settled [OF upsert_permission_settles [of update q new st]] by simp
  qed (use Cons in simp)
qed simp

lemma fold_settled_noop: "\<forall>pd \<in> set pds. perm_settled update pd db \<Longrightarrow> fold (upsert_permission new update) pds (s, db) = (s, db)"
  by (induction pds) (simp_all add: perm_settled_noop)

lemma fold_only_permissions: "\<exists>ps. snd (fold (upsert_permission new update) pds st) = (snd st)\<lparr>db_permissions := ps\<rparr>"
proof (induction pds arbitrary: st)
  case Nil
  show ?case by (intro exI [of _ "db_permissions (snd st)"]) simp
next
  case (Cons pd pds)
  obtain q where q: "snd (upsert_permission new update pd st) = (snd st)\<lparr>db_permissions := q\<rparr>"
  proof (cases st)
    case (Pair s db)
    show thesis by (rule that [of "db_permissions (snd (upsert_permission new update pd st))"]) (simp add: Pair upsert_permission_def)
  qed
  from Cons [of "upsert_permission new update pd st"]
  obtain ps where "snd (fold (upsert_permission new update) pds (upsert_permission new update pd st)) = (snd (upsert_permission new update pd st))\<lparr>db_permissions := ps\<rparr>" ..
  then have "snd (fold (upsert_permission new update) (pd # pds) st) = (snd st)\<lparr>db_permissions := ps\<rparr>" by (simp add: q)
  then show ?case ..
qed

text \<open>The rows keep their identifiers and names, and the new names follow in the order of the file.\<close>

lemma fold_permission_keys:
  "distinct (map pd_name pds) \<Longrightarrow>
   map (\<lambda>p. (pm_id p, pm_name p)) (db_permissions (snd (fold (upsert_permission new update) pds st))) =
   map (\<lambda>p. (pm_id p, pm_name p)) (db_permissions (snd st))
     @ map (\<lambda>n. (new n, n)) (filter (\<lambda>n. n \<notin> pm_name ` set (db_permissions (snd st))) (map pd_name pds))"
proof (induction pds arbitrary: st)
  case (Cons pd pds)
  obtain s db where st: "st = (s, db)" by (rule prod.exhaust)
  let ?st1 = "upsert_permission new update pd st"
  have "pd_name pd \<notin> set (map pd_name pds)" using Cons.prems by simp
  then have rest: "filter (\<lambda>n. n \<notin> insert (pd_name pd) N) (map pd_name pds) = filter (\<lambda>n. n \<notin> N) (map pd_name pds)" for N
    by (intro filter_cong refl) (auto simp del: set_map)
  show ?case
  proof (cases "pd_name pd \<in> pm_name ` set (db_permissions db)")
    case True
    then have "map (\<lambda>p. (pm_id p, pm_name p)) (db_permissions (snd ?st1)) = map (\<lambda>p. (pm_id p, pm_name p)) (db_permissions db)"
      by (simp add: st upsert_permission_def)
    moreover have "pm_name ` set (db_permissions (snd ?st1)) = pm_name ` set (db_permissions db)"
      using True upsert_permission_name_set [of new update pd st] by (auto simp: st)
    ultimately show ?thesis using Cons True by (simp add: st)
  next
    case False
    then have "db_permissions (snd ?st1) = db_permissions db @ [\<lparr>pm_id = new (pd_name pd), pm_name = pd_name pd, pm_resource = pd_resource pd,
        pm_action = pd_action pd, pm_description = (case pd_description pd of None \<Rightarrow> None | Some d \<Rightarrow> d)\<rparr>]"
      by (simp add: st upsert_permission_def)
    then show ?thesis using Cons False rest [of "pm_name ` set (db_permissions db)"] by (simp add: st)
  qed
qed simp

section \<open>Lemmas: the roles of a file\<close>

lemma role_fields_simps [simp]:
  "rr_name (role_fields rd m) = rr_name m" "rr_id (role_fields rd m) = rr_id m" "rr_permission_ids (role_fields rd m) = rr_permission_ids m"
  by (simp_all add: role_fields_def)

text \<open>The row an entry asks for, and when there is nothing left to do for it.\<close>

definition as_the_file_says :: "role_def \<Rightarrow> database \<Rightarrow> role_row \<Rightarrow> role_row" where
  "as_the_file_says rd db m = (role_fields rd m)\<lparr>rr_permission_ids := map pm_id (get_permissions_by_names (rd_permissions rd) db)\<rparr>"

definition role_accepted :: "role_def \<Rightarrow> bool" where
  "role_accepted rd \<longleftrightarrow> require_valid_role_name (rd_name rd) = Inr ()
     \<and> require_valid_role_description (case rd_description rd of None \<Rightarrow> None | Some d \<Rightarrow> d) = Inr ()"

definition role_settled :: "bool \<Rightarrow> role_def \<Rightarrow> database \<Rightarrow> bool" where
  "role_settled update rd db \<longleftrightarrow> role_accepted rd \<and>
     (\<exists>m. List.find (\<lambda>m. rr_name m = rd_name rd) (db_roles db) = Some m \<and>
       (if update then refuse_unknown_permissions (rd_permissions rd) (get_permissions_by_names (rd_permissions rd) db) = Inr ()
          \<and> as_the_file_says rd db m = m
        else rd_is_system rd = Some True \<longrightarrow> rr_is_system m))"

lemma granted_as_the_file_says:
  assumes "distinct (map pm_id (db_permissions db))"
  shows "granted_names db (as_the_file_says rd db m) = sort (map pm_name (get_permissions_by_names (rd_permissions rd) db))"
proof -
  have "pm_id p \<in> pm_id ` {q \<in> set (db_permissions db). pm_name q \<in> N} \<longleftrightarrow> pm_name p \<in> N" if "p \<in> set (db_permissions db)" for p N
    using assms that by (auto simp: distinct_map inj_on_def)
  then show ?thesis
    by (simp add: granted_names_def as_the_file_says_def role_to_domain_def get_permissions_by_names_def cong: filter_cong)
qed

text \<open>The two summaries differ at most in the roles that were left alone.\<close>

definition same_changes :: "load_summary \<Rightarrow> load_summary \<Rightarrow> bool" where
  "same_changes s s' \<longleftrightarrow> ls_permissions_created s' = ls_permissions_created s \<and> ls_roles_created s' = ls_roles_created s
     \<and> ls_roles_reprotected s' = ls_roles_reprotected s \<and> ls_roles_regranted s' = ls_roles_regranted s"

lemma role_settled_noop:
  assumes "role_settled update rd db" and "distinct (map rr_name (db_roles db))" and "distinct (map pm_id (db_permissions db))"
  obtains s1 where "upsert_role new update rd (s, db) = Inr (s1, db)" and "same_changes s s1"
proof -
  from assms(1) obtain m where ok: "role_accepted rd" and m: "List.find (\<lambda>m. rr_name m = rd_name rd) (db_roles db) = Some m"
    and set: "if update then refuse_unknown_permissions (rd_permissions rd) (get_permissions_by_names (rd_permissions rd) db) = Inr ()
          \<and> as_the_file_says rd db m = m else rd_is_system rd = Some True \<longrightarrow> rr_is_system m"
    by (auto simp: role_settled_def)
  show thesis
  proof (cases update)
    case True
    have same: "as_the_file_says rd db m = m" and known: "refuse_unknown_permissions (rd_permissions rd) (get_permissions_by_names (rd_permissions rd) db) = Inr ()"
      using set True by simp_all
    have "granted_names db m = sort (map pm_name (get_permissions_by_names (rd_permissions rd) db))"
      using granted_as_the_file_says [OF assms(3), of rd m] by (simp add: same)
    moreover have "replace_role m (db_roles db) = db_roles db" using replace_role_same [OF assms(2)] find_by_name [OF m] by blast
    ultimately have "upsert_role new update rd (s, db) = Inr (s, db)"
      using ok m known same True by (simp add: upsert_role_def role_accepted_def Let_def as_the_file_says_def)
    then show thesis by (rule that) (simp add: same_changes_def)
  next
    case False
    then have "upsert_role new update rd (s, db) = Inr (s\<lparr>ls_roles_left_alone := ls_roles_left_alone s @ [rd_name rd]\<rparr>, db)"
      using ok m set by (auto simp: upsert_role_def role_accepted_def Let_def)
    then show thesis by (rule that) (simp add: same_changes_def)
  qed
qed

text \<open>What one entry does to the table of roles.\<close>

lemma upsert_role_cases:
  assumes "upsert_role new update rd (s, db) = Inr (s1, db1)"
  obtains
    (updated) m where "update" "List.find (\<lambda>m. rr_name m = rd_name rd) (db_roles db) = Some m"
      "refuse_unknown_permissions (rd_permissions rd) (get_permissions_by_names (rd_permissions rd) db) = Inr ()"
      "db1 = db\<lparr>db_roles := replace_role (as_the_file_says rd db m) (db_roles db)\<rparr>" "role_accepted rd"
  | (protected) m where "\<not> update" "List.find (\<lambda>m. rr_name m = rd_name rd) (db_roles db) = Some m" "rd_is_system rd = Some True" "\<not> rr_is_system m"
      "db1 = db\<lparr>db_roles := replace_role (m\<lparr>rr_is_system := True\<rparr>) (db_roles db)\<rparr>" "role_accepted rd"
  | (left_alone) m where "\<not> update" "List.find (\<lambda>m. rr_name m = rd_name rd) (db_roles db) = Some m"
      "rd_is_system rd = Some True \<longrightarrow> rr_is_system m" "db1 = db" "role_accepted rd"
  | (created) m where "List.find (\<lambda>m. rr_name m = rd_name rd) (db_roles db) = None"
      "refuse_unknown_permissions (rd_permissions rd) (get_permissions_by_names (rd_permissions rd) db) = Inr ()"
      "db1 = db\<lparr>db_roles := db_roles db @ [m]\<rparr>" "rr_name m = rd_name rd" "rr_id m = new (rd_name rd)" "as_the_file_says rd db m = m"
      "rd_is_system rd = Some True \<longrightarrow> rr_is_system m" "role_accepted rd"
proof -
  have ok: "role_accepted rd" using assms by (auto simp: upsert_role_def role_accepted_def result_simps)
  show thesis
  proof (cases "List.find (\<lambda>m. rr_name m = rd_name rd) (db_roles db)")
    case None
    let ?m = "\<lparr>rr_id = new (rd_name rd), rr_name = rd_name rd, rr_description = (case rd_description rd of None \<Rightarrow> None | Some d \<Rightarrow> d),
      rr_is_system = (case rd_is_system rd of None \<Rightarrow> False | Some b \<Rightarrow> b), rr_permission_ids = map pm_id (get_permissions_by_names (rd_permissions rd) db)\<rparr>"
    have "as_the_file_says rd db ?m = ?m" by (simp add: as_the_file_says_def role_fields_def split: option.splits)
    then show thesis using assms ok None
      by (intro created [of ?m]) (auto simp: upsert_role_def Let_def result_simps)
  next
    case (Some m)
    show thesis
    proof (cases update)
      case True
      then show thesis using assms ok Some
        by (intro updated [of m]) (auto simp: upsert_role_def Let_def result_simps as_the_file_says_def)
    next
      case False
      show thesis
      proof (cases "rd_is_system rd = Some True \<and> \<not> rr_is_system m")
        case True
        then show thesis using assms ok Some False by (intro protected [of m]) (auto simp: upsert_role_def Let_def result_simps)
      next
        case no: False
        then show thesis using assms ok Some False by (intro left_alone [of m]) (auto simp: upsert_role_def Let_def result_simps)
      qed
    qed
  qed
qed

lemma get_permissions_other_roles [simp]: "get_permissions_by_names ns (db\<lparr>db_roles := rs\<rparr>) = get_permissions_by_names ns db"
  by (simp add: get_permissions_by_names_def)

lemma as_the_file_says_simps [simp]:
  "rr_name (as_the_file_says rd db m) = rr_name m" "rr_id (as_the_file_says rd db m) = rr_id m"
  "as_the_file_says rd db (as_the_file_says rd db m) = as_the_file_says rd db m"
  "as_the_file_says rd (db\<lparr>db_roles := rs\<rparr>) = as_the_file_says rd db"
  by (auto simp: as_the_file_says_def role_fields_def get_permissions_by_names_def fun_eq_iff split: option.splits)

lemma named_role_present: "List.find (\<lambda>m. rr_name m = n) ms = Some m \<Longrightarrow> n \<in> rr_name ` set ms"
  using find_by_name by fastforce

lemma upsert_role_settles:
  assumes "upsert_role new update rd (s, db) = Inr (s1, db1)" shows "role_settled update rd db1"
  using assms
proof (cases rule: upsert_role_cases)
  case (updated m)
  then show ?thesis using find_by_name [OF updated(2)] named_role_present [OF updated(2)]
    by (auto simp: role_settled_def find_replace_role get_permissions_by_names_def)
next
  case (protected m)
  then show ?thesis using find_by_name [OF protected(2)] named_role_present [OF protected(2)]
    by (auto simp: role_settled_def find_replace_role)
next
  case (left_alone m)
  then show ?thesis by (simp add: role_settled_def)
next
  case (created m)
  then show ?thesis by (auto simp: role_settled_def find_append_role get_permissions_by_names_def)
qed

lemma upsert_role_keeps_settled:
  assumes "upsert_role new update rd' (s, db) = Inr (s1, db1)" and "role_settled update rd db" and "rd_name rd' \<noteq> rd_name rd"
  shows "role_settled update rd db1"
proof -
  obtain rs where db1: "db1 = db\<lparr>db_roles := rs\<rparr>" and "List.find (\<lambda>m. rr_name m = rd_name rd) rs = List.find (\<lambda>m. rr_name m = rd_name rd) (db_roles db)"
    using assms(1)
  proof (cases rule: upsert_role_cases)
    case (updated m)
    then show ?thesis using find_by_name [OF updated(2)] assms(3) by (intro that [of "replace_role (as_the_file_says rd' db m) (db_roles db)"]) (auto simp: find_replace_role)
  next
    case (protected m)
    then show ?thesis using find_by_name [OF protected(2)] assms(3) by (intro that [of "replace_role (m\<lparr>rr_is_system := True\<rparr>) (db_roles db)"]) (auto simp: find_replace_role)
  next
    case (left_alone m)
    then show ?thesis by (intro that [of "db_roles db"]) simp_all
  next
    case (created m)
    then show ?thesis using assms(3) by (intro that [of "db_roles db @ [m]"]) (auto simp: find_append_role split: option.splits)
  qed
  then show ?thesis using assms(2) by (cases update) (simp_all add: role_settled_def)
qed

lemma replace_role_keys:
  assumes "m0 \<in> set ms" "rr_name m = rr_name m0" "rr_id m = rr_id m0" "distinct (map rr_name ms)"
  shows "map (\<lambda>x. (rr_id x, rr_name x)) (replace_role m ms) = map (\<lambda>x. (rr_id x, rr_name x)) ms"
  using assms unfolding replace_role_def by (auto simp: distinct_map inj_on_def)

lemma upsert_role_keys:
  assumes "upsert_role new update rd (s, db) = Inr (s1, db1)" and "distinct (map rr_name (db_roles db))"
  shows "\<exists>rs. db1 = db\<lparr>db_roles := rs\<rparr> \<and> map (\<lambda>m. (rr_id m, rr_name m)) rs =
    map (\<lambda>m. (rr_id m, rr_name m)) (db_roles db) @ (if rd_name rd \<in> rr_name ` set (db_roles db) then [] else [(new (rd_name rd), rd_name rd)])"
  using assms(1)
proof (cases rule: upsert_role_cases)
  case (updated m)
  then show ?thesis using find_by_name [OF updated(2)] named_role_present [OF updated(2)] replace_role_keys [OF _ _ _ assms(2), of m "as_the_file_says rd db m"]
    by (intro exI [of _ "replace_role (as_the_file_says rd db m) (db_roles db)"]) auto
next
  case (protected m)
  then show ?thesis using find_by_name [OF protected(2)] named_role_present [OF protected(2)] replace_role_keys [OF _ _ _ assms(2), of m "m\<lparr>rr_is_system := True\<rparr>"]
    by (intro exI [of _ "replace_role (m\<lparr>rr_is_system := True\<rparr>) (db_roles db)"]) auto
next
  case (left_alone m)
  then show ?thesis using named_role_present [OF left_alone(2)] by (intro exI [of _ "db_roles db"]) auto
next
  case (created m)
  then show ?thesis by (intro exI [of _ "db_roles db @ [m]"]) (auto simp: find_by_name_None)
qed

lemma names_of_keys: "map (\<lambda>m. (rr_id m, rr_name m)) ms = ks \<Longrightarrow> map rr_name ms = map snd ks"
  by (auto simp: comp_def)

lemma upsert_role_distinct:
  assumes "upsert_role new update rd (s, db) = Inr (s1, db1)" and "distinct (map rr_name (db_roles db))"
  shows "distinct (map rr_name (db_roles db1))" "db_permissions db1 = db_permissions db" "db_users db1 = db_users db"
    "rr_name ` set (db_roles db1) = insert (rd_name rd) (rr_name ` set (db_roles db))"
proof -
  obtain rs where db1: "db1 = db\<lparr>db_roles := rs\<rparr>" and "map rr_name rs =
      map rr_name (db_roles db) @ (if rd_name rd \<in> rr_name ` set (db_roles db) then [] else [rd_name rd])"
    using upsert_role_keys [OF assms] by (auto dest!: names_of_keys simp: comp_def split: if_splits)
  then show "distinct (map rr_name (db_roles db1))" "rr_name ` set (db_roles db1) = insert (rd_name rd) (rr_name ` set (db_roles db))"
    using assms(2) by (auto simp flip: set_map)
  show "db_permissions db1 = db_permissions db" "db_users db1 = db_users db" by (simp_all add: db1)
qed

lemma upsert_roles_keep_settled:
  assumes "upsert_roles new update rds (s, db) = Inr (s1, db1)" and "role_settled update rd db" and "rd_name rd \<notin> rd_name ` set rds"
  shows "role_settled update rd db1"
  using assms
proof (induction rds arbitrary: s db)
  case (Cons q rds)
  from Cons.prems(1) obtain s2 db2 where q: "upsert_role new update q (s, db) = Inr (s2, db2)" "upsert_roles new update rds (s2, db2) = Inr (s1, db1)"
    by (auto simp: result_simps)
  then have "role_settled update rd db2" using Cons.prems(2,3) by (intro upsert_role_keeps_settled [OF q(1)]) auto
  then show ?case using Cons.IH [OF q(2)] Cons.prems(3) by simp
qed simp

lemma upsert_roles_settle:
  assumes "upsert_roles new update rds (s, db) = Inr (s1, db1)" and "distinct (map rd_name rds)" and "distinct (map rr_name (db_roles db))"
  shows "(\<forall>rd \<in> set rds. role_settled update rd db1) \<and> distinct (map rr_name (db_roles db1)) \<and> db_permissions db1 = db_permissions db"
  using assms
proof (induction rds arbitrary: s db)
  case (Cons q rds)
  from Cons.prems(1) obtain s2 db2 where q: "upsert_role new update q (s, db) = Inr (s2, db2)" "upsert_roles new update rds (s2, db2) = Inr (s1, db1)"
    by (auto simp: result_simps)
  note d = upsert_role_distinct [OF q(1) Cons.prems(3)]
  have "role_settled update q db1"
    using Cons.prems(2) by (intro upsert_roles_keep_settled [OF q(2) upsert_role_settles [OF q(1)]]) auto
  then show ?case using Cons.IH [OF q(2)] Cons.prems(2) d by simp
qed simp

lemma upsert_roles_settled_noop:
  assumes "\<forall>rd \<in> set rds. role_settled update rd db" and "distinct (map rr_name (db_roles db))" and "distinct (map pm_id (db_permissions db))"
  shows "\<exists>s1. upsert_roles new update rds (s, db) = Inr (s1, db) \<and> same_changes s s1"
  using assms
proof (induction rds arbitrary: s)
  case (Cons q rds)
  obtain s2 where q: "upsert_role new update q (s, db) = Inr (s2, db)" "same_changes s s2"
    using Cons.prems by (auto intro: role_settled_noop [of update q db])
  obtain s1 where "upsert_roles new update rds (s2, db) = Inr (s1, db)" "same_changes s2 s1" using Cons by fastforce
  then show ?case using q by (auto simp: same_changes_def)
qed (simp add: same_changes_def)

lemma load_from_yaml_passes:
  assumes "load_from_yaml new_pid new_rid path update cfg db = Inr (s1, db1)"
  obtains s0 db0 where "fold (upsert_permission new_pid update) (rb_permissions cfg) (empty_summary, db) = (s0, db0)"
    "upsert_roles new_rid update (rb_roles cfg) (s0, db0) = Inr (s1, db1)" "refuse_duplicate_names path cfg = Inr ()"
    "distinct (map pd_name (rb_permissions cfg))" "distinct (map rd_name (rb_roles cfg))" "\<exists>ps. db0 = db\<lparr>db_permissions := ps\<rparr>"
proof -
  obtain s0 db0 where f: "fold (upsert_permission new_pid update) (rb_permissions cfg) (empty_summary, db) = (s0, db0)" by (rule prod.exhaust)
  have d: "refuse_duplicate_names path cfg = Inr ()" using assms by (auto simp: load_from_yaml_def result_simps)
  show thesis
    using that [OF f _ d no_duplicate_names [OF d]] assms d fold_only_permissions [of new_pid update "rb_permissions cfg" "(empty_summary, db)"]
    by (simp add: load_from_yaml_def f)
qed

lemma fresh_permission_ids:
  assumes "fold (upsert_permission new update) pds (s, db) = (s0, db0)" and "distinct (map pd_name pds)"
    and "distinct (map pm_id (db_permissions db))" and "inj new" and "\<forall>n. new n \<notin> pm_id ` set (db_permissions db)"
  shows "distinct (map pm_id (db_permissions db0))"
proof -
  let ?new = "filter (\<lambda>n. n \<notin> pm_name ` set (db_permissions db)) (map pd_name pds)"
  have "map pm_id (db_permissions db0) = map pm_id (db_permissions db) @ map new ?new"
    using arg_cong [OF fold_permission_keys [OF assms(2), of new update "(s, db)"], of "map fst"] by (simp add: assms(1) comp_def)
  moreover have "distinct (map new ?new)" using assms(2,4) by (simp add: distinct_map inj_on_def distinct_filter)
  moreover have "set (map pm_id (db_permissions db)) \<inter> set (map new ?new) = {}" using assms(5) by (auto, metis imageI)
  ultimately show ?thesis using assms(3) by simp
qed

section \<open>Lemmas: a pass without updates\<close>

text \<open>A role that was there keeps everything but the mark of a system role, which may be restored.\<close>

definition kept_role :: "role_row \<Rightarrow> role_row \<Rightarrow> bool" where
  "kept_role a b \<longleftrightarrow> b = a\<lparr>rr_is_system := rr_is_system b\<rparr> \<and> (rr_is_system a \<longrightarrow> rr_is_system b)"

lemma kept_role_keys: "kept_role a b \<Longrightarrow> rr_id b = rr_id a \<and> rr_name b = rr_name a \<and> rr_permission_ids b = rr_permission_ids a"
  unfolding kept_role_def by (metis role_row.select_convs(1,2,5) role_row.surjective role_row.update_convs(4))

lemma kept_role_trans: "kept_role a b \<Longrightarrow> kept_role b c \<Longrightarrow> kept_role a c"
  unfolding kept_role_def by (cases a; cases b; cases c) simp

lemma kept_role_refl: "kept_role a a"
  by (simp add: kept_role_def)

lemma list_all2_partners:
  assumes "list_all2 P xs ys"
  shows "x \<in> set xs \<Longrightarrow> \<exists>y \<in> set ys. P x y" and "y \<in> set ys \<Longrightarrow> \<exists>x \<in> set xs. P x y"
  using assms by (induction xs ys rule: list_all2_induct) auto

text \<open>The table after a pass: the old rows, and for every entry without one a new row.\<close>

definition new_role_of :: "(string \<Rightarrow> ident) \<Rightarrow> database \<Rightarrow> role_def list \<Rightarrow> role_row \<Rightarrow> bool" where
  "new_role_of new db rds m \<longleftrightarrow> (\<exists>rd \<in> set rds. rr_name m = rd_name rd \<and> rr_id m = new (rd_name rd)
     \<and> rr_permission_ids m = map pm_id (get_permissions_by_names (rd_permissions rd) db)
     \<and> refuse_unknown_permissions (rd_permissions rd) (get_permissions_by_names (rd_permissions rd) db) = Inr ())"

definition roles_grown :: "(string \<Rightarrow> ident) \<Rightarrow> database \<Rightarrow> role_def list \<Rightarrow> role_row list \<Rightarrow> role_row list \<Rightarrow> bool" where
  "roles_grown new db rds old rs \<longleftrightarrow> (\<exists>kept news. rs = kept @ news \<and> list_all2 kept_role old kept \<and> (\<forall>m \<in> set news. new_role_of new db rds m))"

lemma list_all2_replace_role:
  assumes "kept_role m0 m" and "m0 \<in> set ms" and "distinct (map rr_name ms)"
  shows "list_all2 kept_role ms (replace_role m ms)"
proof -
  have "kept_role x (if rr_name x = rr_name m then m else x)" if "x \<in> set ms" for x
  proof (cases "rr_name x = rr_name m")
    case True
    then have "x = m0" using assms that kept_role_keys [OF assms(1)] by (auto simp: distinct_map inj_on_def)
    then show ?thesis using assms(1) True by simp
  qed (simp add: kept_role_refl)
  then show ?thesis unfolding replace_role_def by (auto simp: list_all2_conv_all_nth)
qed

lemma upsert_role_grows:
  assumes "upsert_role new False rd (s, db) = Inr (s1, db1)" and "distinct (map rr_name (db_roles db))"
  shows "list_all2 kept_role (db_roles db) (db_roles db1)
    \<or> (\<exists>m. db_roles db1 = db_roles db @ [m] \<and> new_role_of new db [rd] m)"
  using assms(1)
proof (cases rule: upsert_role_cases)
  case (protected m)
  have "kept_role m (m\<lparr>rr_is_system := True\<rparr>)" by (simp add: kept_role_def)
  from list_all2_replace_role [OF this _ assms(2)] show ?thesis using protected find_by_name [OF protected(2)] by simp
next
  case (left_alone m)
  then show ?thesis by (simp add: list_all2_same kept_role_refl)
next
  case (created m)
  then have "rr_permission_ids m = map pm_id (get_permissions_by_names (rd_permissions rd) db)"
    by (metis as_the_file_says_def role_row.select_convs(5) role_row.surjective role_row.update_convs(5))
  then show ?thesis using created by (auto simp: new_role_of_def)
qed simp

lemma roles_grown_step:
  assumes "roles_grown new db rds old rs" and "list_all2 kept_role rs rs' \<or> (\<exists>m. rs' = rs @ [m] \<and> new_role_of new db rds' m)"
  shows "roles_grown new db (rds @ rds') old rs'"
proof -
  from assms(1) obtain kept news where k: "rs = kept @ news" "list_all2 kept_role old kept" "\<forall>m \<in> set news. new_role_of new db rds m"
    by (auto simp: roles_grown_def)
  from assms(2) show ?thesis
  proof
    assume "list_all2 kept_role rs rs'"
    then obtain kept' news' where r: "rs' = kept' @ news'" "list_all2 kept_role kept kept'" "list_all2 kept_role news news'"
      unfolding k(1) by (auto simp: list_all2_append1)
    have "list_all2 kept_role old kept'" using k(2) r(2) kept_role_trans by (rule list_all2_trans [rotated])
    moreover have "\<forall>m \<in> set news'. new_role_of new db (rds @ rds') m"
    proof
      fix m assume "m \<in> set news'"
      from list_all2_partners(2) [OF r(3) this] obtain m0 where "m0 \<in> set news" "kept_role m0 m" ..
      then show "new_role_of new db (rds @ rds') m" using k(3) kept_role_keys [of m0 m] by (fastforce simp: new_role_of_def)
    qed
    ultimately show ?thesis using r(1) by (auto simp: roles_grown_def)
  next
    assume "\<exists>m. rs' = rs @ [m] \<and> new_role_of new db rds' m"
    then obtain m where "rs' = kept @ (news @ [m])" "new_role_of new db rds' m" using k(1) by auto
    then show ?thesis using k(2,3) unfolding roles_grown_def new_role_of_def by (intro exI [of _ kept] exI [of _ "news @ [m]"]) fastforce
  qed
qed

lemma upsert_roles_grow:
  assumes "upsert_roles new False rds (s, db) = Inr (s1, db1)" and "distinct (map rr_name (db_roles db))"
    and "roles_grown new db done_before old (db_roles db)"
  shows "roles_grown new db (done_before @ rds) old (db_roles db1) \<and> db1 = db\<lparr>db_roles := db_roles db1\<rparr>"
  using assms
proof (induction rds arbitrary: s db done_before)
  case (Cons q rds)
  from Cons.prems(1) obtain s2 db2 where q: "upsert_role new False q (s, db) = Inr (s2, db2)" "upsert_roles new False rds (s2, db2) = Inr (s1, db1)"
    by (auto simp: result_simps)
  obtain rs where db2: "db2 = db\<lparr>db_roles := rs\<rparr>" using upsert_role_keys [OF q(1) Cons.prems(2)] by blast
  have "roles_grown new db (done_before @ [q]) old (db_roles db2)"
    using roles_grown_step [OF Cons.prems(3)] upsert_role_grows [OF q(1) Cons.prems(2)] by blast
  then have "roles_grown new db2 (done_before @ [q]) old (db_roles db2)" by (simp add: roles_grown_def new_role_of_def db2)
  from Cons.IH [OF q(2) upsert_role_distinct(1) [OF q(1) Cons.prems(2)] this]
  show ?case by (simp add: roles_grown_def new_role_of_def db2)
qed simp

lemma fold_adds_permissions:
  "\<exists>new_perms. db_permissions (snd (fold (upsert_permission new False) pds st)) = db_permissions (snd st) @ new_perms
     \<and> (\<forall>p \<in> set new_perms. pm_id p \<in> range new)"
proof (induction pds arbitrary: st)
  case (Cons pd pds)
  obtain s db where st: "st = (s, db)" by (rule prod.exhaust)
  have "\<exists>more. db_permissions (snd (upsert_permission new False pd st)) = db_permissions db @ more \<and> (\<forall>p \<in> set more. pm_id p \<in> range new)"
    by (auto simp: st upsert_permission_def)
  then show ?case using Cons [of "upsert_permission new False pd st"] by (fastforce simp: st)
qed simp

text \<open>A row with the permissions a file names grants those names and no other.\<close>

lemma file_permissions_granted:
  assumes "distinct (map pm_id (db_permissions db0))" and "rr_permission_ids m = map pm_id (get_permissions_by_names names db0)"
    and "refuse_unknown_permissions names (get_permissions_by_names names db0) = Inr ()" and "db_permissions db1 = db_permissions db0"
  shows "row_perms db1 m = set names"
proof -
  have "filter (\<lambda>n. n \<notin> pm_name ` set (get_permissions_by_names names db0)) names = []"
    using assms(3) by (simp add: refuse_unknown_permissions_def Let_def split: if_splits)
  then have "set names \<subseteq> pm_name ` set (get_permissions_by_names names db0)" unfolding filter_empty_conv by blast
  moreover have "p \<in> set (get_permissions_by_names names db0) \<longleftrightarrow> p \<in> set (db_permissions db0) \<and> pm_id p \<in> set (rr_permission_ids m)" for p
    using assms(1,2) by (auto simp: get_permissions_by_names_def distinct_map inj_on_def)
  then have "row_perms db1 m = pm_name ` set (get_permissions_by_names names db0)" by (auto simp: row_perms_def assms(4))
  moreover have "pm_name ` set (get_permissions_by_names names db0) \<subseteq> set names" by (auto simp: get_permissions_by_names_def)
  ultimately show ?thesis by simp
qed

text \<open>The tables after a pass without updates: the old permissions and more, the old roles and new ones.\<close>

lemma seeding_shape:
  assumes load: "load_from_yaml new_pid new_rid path False cfg db = Inr (s1, db1)" and wf: "accounts_wf db"
    and fresh: "inj new_pid" "\<forall>n. new_pid n \<notin> pm_id ` set (db_permissions db)"
  obtains more kept news where "db_permissions db1 = db_permissions db @ more" "\<forall>p \<in> set more. pm_id p \<in> range new_pid"
    "db_users db1 = db_users db" "db_roles db1 = kept @ news" "list_all2 kept_role (db_roles db) kept"
    "\<forall>m \<in> set news. new_role_of new_rid db1 (rb_roles cfg) m" "distinct (map pm_id (db_permissions db1))"
    "\<forall>rd \<in> set (rb_roles cfg). role_settled False rd db1" "distinct (map rd_name (rb_roles cfg))"
proof -
  obtain s0 db0 where p: "fold (upsert_permission new_pid False) (rb_permissions cfg) (empty_summary, db) = (s0, db0)"
    and r: "upsert_roles new_rid False (rb_roles cfg) (s0, db0) = Inr (s1, db1)"
    and d: "distinct (map pd_name (rb_permissions cfg))" "distinct (map rd_name (rb_roles cfg))" and "\<exists>ps. db0 = db\<lparr>db_permissions := ps\<rparr>"
    by (rule load_from_yaml_passes [OF load])
  then have db0: "db_users db0 = db_users db" "db_roles db0 = db_roles db" by auto
  obtain more where more: "db_permissions db0 = db_permissions db @ more" "\<forall>p \<in> set more. pm_id p \<in> range new_pid"
    using fold_adds_permissions [of new_pid "rb_permissions cfg" "(empty_summary, db)"] by (auto simp: p)
  have names: "distinct (map rr_name (db_roles db0))" and pids: "distinct (map pm_id (db_permissions db))" using wf by (simp_all add: db0(2) accounts_wf_def)
  have pids0: "distinct (map pm_id (db_permissions db0))" by (rule fresh_permission_ids [OF p d(1) pids fresh])
  have "roles_grown new_rid db0 [] (db_roles db0) (db_roles db0)"
    unfolding roles_grown_def by (intro exI [of _ "db_roles db0"] exI [of _ "[]"]) (simp add: list_all2_same kept_role_refl)
  from upsert_roles_grow [OF r names this]
  have grown: "roles_grown new_rid db0 (rb_roles cfg) (db_roles db) (db_roles db1)" and db1: "db1 = db0\<lparr>db_roles := db_roles db1\<rparr>"
    by (simp_all add: db0(2))
  have perms1: "db_permissions db1 = db_permissions db0" and users: "db_users db1 = db_users db"
    using db1 db0(1) by (metis database.select_convs(2,4) database.surjective database.update_convs(3))+
  from grown obtain kept news where k: "db_roles db1 = kept @ news" "list_all2 kept_role (db_roles db) kept"
    and n: "\<forall>m \<in> set news. new_role_of new_rid db0 (rb_roles cfg) m" by (auto simp: roles_grown_def)
  have "\<forall>m \<in> set news. new_role_of new_rid db1 (rb_roles cfg) m"
    using n by (simp add: new_role_of_def get_permissions_by_names_def perms1)
  then show thesis using that [of more kept news] more perms1 users k pids0 upsert_roles_settle [OF r d(2) names] d(2) by simp
qed

text \<open>Nobody gains or loses a permission when the worn roles are kept and the new ones are worn by nobody.\<close>

lemma kept_roles_confer_the_same:
  assumes kept: "list_all2 kept_role (db_roles db) kept" and roles: "db_roles db1 = kept @ news" and users: "db_users db1 = db_users db"
    and same: "\<And>a b. kept_role a b \<Longrightarrow> a \<in> set (db_roles db) \<Longrightarrow> row_perms db1 b = row_perms db a"
    and worn: "\<forall>u \<in> set (db_users db). set (ur_role_ids u) \<subseteq> rr_id ` set (db_roles db)"
    and unworn: "\<forall>m \<in> set news. rr_id m \<notin> rr_id ` set (db_roles db)"
  shows "held db1 i = held db i"
proof -
  have old: "\<exists>m1 \<in> set kept. kept_role m m1" if "m \<in> set (db_roles db)" for m
    by (rule list_all2_partners(1) [OF kept that])
  have came_from: "\<exists>m \<in> set (db_roles db). kept_role m m1" if "m1 \<in> set kept" for m1
    by (rule list_all2_partners(2) [OF kept that])
  have "confers db1 (set (ur_role_ids u)) = confers db (set (ur_role_ids u))" if "u \<in> set (db_users db)" for u
  proof -
    have "rr_id m \<notin> set (ur_role_ids u)" if "m \<in> set news" for m using worn unworn \<open>u \<in> set (db_users db)\<close> that by blast
    then show ?thesis unfolding confers_def roles using old came_from same kept_role_keys by fastforce
  qed
  then show ?thesis by (auto simp: held_def users)
qed

section \<open>Properties\<close>

text \<open>
  Loading a file is idempotent, with and without updates: a second pass over the same file
  succeeds, whatever identifiers it would draw, leaves the database exactly as it is, and
  reports that it created, restored and replaced nothing.
\<close>

lemma loading_twice_changes_nothing:
  assumes load: "load_from_yaml new_pid new_rid path update cfg db = Inr (s1, db1)"
    and roles: "distinct (map rr_name (db_roles db))" and ids: "distinct (map pm_id (db_permissions db))"
    and fresh: "inj new_pid" "\<forall>n. new_pid n \<notin> pm_id ` set (db_permissions db)"
  shows "\<exists>s2. load_from_yaml new_pid' new_rid' path update cfg db1 = Inr (s2, db1)
    \<and> ls_permissions_created s2 = [] \<and> ls_roles_created s2 = [] \<and> ls_roles_reprotected s2 = [] \<and> ls_roles_regranted s2 = []"
proof -
  obtain s0 db0 where p: "fold (upsert_permission new_pid update) (rb_permissions cfg) (empty_summary, db) = (s0, db0)"
    and r: "upsert_roles new_rid update (rb_roles cfg) (s0, db0) = Inr (s1, db1)" and ok: "refuse_duplicate_names path cfg = Inr ()"
    and d: "distinct (map pd_name (rb_permissions cfg))" "distinct (map rd_name (rb_roles cfg))" and "\<exists>ps. db0 = db\<lparr>db_permissions := ps\<rparr>"
    by (rule load_from_yaml_passes [OF load])
  then have roles0: "distinct (map rr_name (db_roles db0))" using roles by auto
  have ids0: "distinct (map pm_id (db_permissions db0))" by (rule fresh_permission_ids [OF p d(1) ids fresh])
  have perms: "\<forall>pd \<in> set (rb_permissions cfg). perm_settled update pd db0"
    using fold_settles [OF d(1), of _ update new_pid "(empty_summary, db)"] by (simp add: p)
  note settled = upsert_roles_settle [OF r d(2) roles0]
  then have "\<forall>pd \<in> set (rb_permissions cfg). perm_settled update pd db1" using perms by (simp add: perm_settled_def)
  then have "fold (upsert_permission new_pid' update) (rb_permissions cfg) (empty_summary, db1) = (empty_summary, db1)"
    by (rule fold_settled_noop)
  moreover obtain s2 where "upsert_roles new_rid' update (rb_roles cfg) (empty_summary, db1) = Inr (s2, db1)" "same_changes empty_summary s2"
    using upsert_roles_settled_noop [of "rb_roles cfg" update db1 new_rid' empty_summary] settled ids0 by auto
  ultimately show ?thesis using ok by (auto simp: load_from_yaml_def same_changes_def empty_summary_def)
qed

text \<open>
  A file that declares the role of managers, which the small installation has with more
  permissions and without the mark of a system role, and a role of auditors, which it lacks.
\<close>

definition sample_file :: rbac_config where
  "sample_file =
     \<lparr>rb_permissions = [\<lparr>pd_name = ''link:create'', pd_resource = ''link'', pd_action = ''create'', pd_description = None\<rparr>,
                        \<lparr>pd_name = ''audit:view'', pd_resource = ''audit'', pd_action = ''view'', pd_description = None\<rparr>],
      rb_roles = [\<lparr>rd_name = ''manager'', rd_description = None, rd_is_system = Some True, rd_permissions = [''link:create'']\<rparr>,
                  \<lparr>rd_name = ''auditor'', rd_description = None, rd_is_system = Some True, rd_permissions = [''audit:view'']\<rparr>]\<rparr>"

lemma sample_seeded:
  obtains s1 db1 where "seed_base_roles (append ''p:'') (append ''r:'') ''roles.yaml'' sample_file sample_db = Inr (s1, db1)"
    "ls_roles_reprotected s1 = [''manager'']" "ls_roles_created s1 = [''auditor'']"
proof -
  have "(case seed_base_roles (append ''p:'') (append ''r:'') ''roles.yaml'' sample_file sample_db of
      Inl _ \<Rightarrow> False | Inr (s1, db1) \<Rightarrow> ls_roles_reprotected s1 = [''manager''] \<and> ls_roles_created s1 = [''auditor''])" by code_simp
  then show thesis using that by (auto split: sum.splits)
qed



end
