(* ===== verification/Sessions.thy ===== *)
theory Sessions
  imports Administration
begin

text \<open>
  Sessions and one-time tokens: the repositories of refresh sessions, e-mail
  verifications and password resets, the token part of
  \<^verbatim>\<open>infrastructure/auth/jwt_auth_service.py\<close>, the use cases \<^verbatim>\<open>refresh_session\<close> and
  \<^verbatim>\<open>sign_out\<close>, and the middleware that reads who is asking off a request
  (\<^verbatim>\<open>web/middleware/authentication.py\<close>).

  A sign-in starts a chain. Every refresh spends the token presented and adds its
  replacement to the chain; an access token names its chain, and is good while the chain
  has a row that is neither revoked nor expired.

  PyJWT is not part of the sources. What it makes of claims and of a token is a pair of
  parameters; \<open>jwt_decode\<close> is the call with the options of the sources, so what it returns
  has an expiry that has not passed and the claims \<open>sub\<close> and \<open>type\<close>.
\<close>

section \<open>Configuration\<close>

record jwt_claims =
  cl_sub :: string
  cl_email :: "string option"
  cl_exp :: moment
  cl_iat :: "moment option"
  cl_type :: string
  cl_jti :: "string option"
  cl_sid :: "string option"

record auth_config =
  ac_encode :: "jwt_claims \<Rightarrow> string"
  ac_decode :: "moment \<Rightarrow> string \<Rightarrow> jwt_claims option"
  ac_access_expire :: int
  ac_refresh_expire :: int

record refreshed_tokens =
  rt_access_token :: string
  rt_refresh_token :: string

section \<open>The repository of refresh sessions\<close>

definition session_save :: "refresh_session \<Rightarrow> database \<Rightarrow> (exn, database) result" where
  "session_save s db =
     (if list_ex (\<lambda>r. rs_id r \<noteq> rs_id s \<and> rs_token_id r = rs_token_id s) (db_sessions db)
      then Inl (IntegrityError ''ix_refresh_sessions_token_id'')
      else if rs_user_id s \<notin> set (map ur_id (db_users db)) then Inl (IntegrityError ''fk_refresh_sessions_user_id_users'')
      else Inr (db\<lparr>db_sessions := replace_or_append rs_id s (db_sessions db)\<rparr>))"

definition claim_for_rotation :: "moment \<Rightarrow> ident \<Rightarrow> ident \<Rightarrow> database \<Rightarrow> bool \<times> database" where
  "claim_for_rotation now token_id replacement_token_id db =
     (let wanted = (\<lambda>s. rs_token_id s = token_id \<and> rs_revoked_at s = None \<and> rs_replaced_by s = None \<and> rs_expires_at s > now)
      in (length (filter wanted (db_sessions db)) = 1,
          db\<lparr>db_sessions := map (\<lambda>s. if wanted s then s\<lparr>rs_replaced_by := Some replacement_token_id\<rparr> else s) (db_sessions db)\<rparr>))"

definition chain_is_live :: "moment \<Rightarrow> ident \<Rightarrow> database \<Rightarrow> bool" where
  "chain_is_live now chain_id db =
     list_ex (\<lambda>s. rs_chain_id s = chain_id \<and> rs_revoked_at s = None \<and> rs_expires_at s > now) (db_sessions db)"

definition revoke_chain :: "moment \<Rightarrow> ident \<Rightarrow> database \<Rightarrow> nat \<times> database" where
  "revoke_chain now chain_id db =
     (length (filter (\<lambda>s. rs_chain_id s = chain_id \<and> rs_revoked_at s = None) (db_sessions db)),
      db\<lparr>db_sessions := map (\<lambda>s. if rs_chain_id s = chain_id \<and> rs_revoked_at s = None
                                 then s\<lparr>rs_revoked_at := Some now\<rparr> else s) (db_sessions db)\<rparr>)"

definition find_by_token_id :: "ident \<Rightarrow> database \<Rightarrow> refresh_session option" where
  "find_by_token_id token_id db = List.find (\<lambda>s. rs_token_id s = token_id) (db_sessions db)"

definition delete_expired_sessions :: "moment \<Rightarrow> database \<Rightarrow> nat \<times> database" where
  "delete_expired_sessions now db =
     (length (filter (\<lambda>s. rs_expires_at s < now) (db_sessions db)),
      db\<lparr>db_sessions := filter (\<lambda>s. \<not> rs_expires_at s < now) (db_sessions db)\<rparr>)"

section \<open>Tokens\<close>

definition create_token ::
  "auth_config \<Rightarrow> moment \<Rightarrow> user \<Rightarrow> int \<Rightarrow> string \<Rightarrow> ident option \<Rightarrow> ident option \<Rightarrow> string" where
  "create_token ac now u expires_delta token_type token_id session_id =
     ac_encode ac \<lparr>cl_sub = us_id u, cl_email = Some (us_email u), cl_exp = now + expires_delta, cl_iat = Some now, cl_type = token_type,
       cl_jti = (case token_id of Some (c # cs) \<Rightarrow> Some (c # cs) | _ \<Rightarrow> None),
       cl_sid = (case session_id of Some (c # cs) \<Rightarrow> Some (c # cs) | _ \<Rightarrow> None)\<rparr>"

definition create_access_token :: "auth_config \<Rightarrow> moment \<Rightarrow> user \<Rightarrow> ident \<Rightarrow> string" where
  "create_access_token ac now u session_id = create_token ac now u (ac_access_expire ac) ''access'' None (Some session_id)"

definition validate_token :: "auth_config \<Rightarrow> moment \<Rightarrow> string \<Rightarrow> string \<Rightarrow> jwt_claims option" where
  "validate_token ac now token expected_type =
     (case ac_decode ac now token of
        None \<Rightarrow> None
      | Some p \<Rightarrow> if expected_type \<noteq> [] \<and> cl_type p \<noteq> expected_type then None else Some p)"

definition create_session_tokens ::
  "auth_config \<Rightarrow> moment \<Rightarrow> ident \<Rightarrow> ident \<Rightarrow> user \<Rightarrow> database \<Rightarrow> (exn, refreshed_tokens \<times> database) result" where
  "create_session_tokens ac now new_id token_id u db =
     (let session = refresh_session_create now new_id (us_id u) token_id (now + ac_refresh_expire ac) None
      in rbind (session_save session db) (\<lambda>db1. Inr
        (\<lparr>rt_access_token = create_access_token ac now u (rs_chain_id session),
          rt_refresh_token = create_token ac now u (ac_refresh_expire ac) ''refresh'' (Some token_id) None\<rparr>, db1)))"

definition revoke_session_chain :: "moment \<Rightarrow> ident \<Rightarrow> database \<Rightarrow> nat \<times> database" where
  "revoke_session_chain now chain_id db = revoke_chain now chain_id db"

definition truthy :: "string option \<Rightarrow> string option" where
  "truthy s = (case s of Some (c # cs) \<Rightarrow> Some (c # cs) | _ \<Rightarrow> None)"

definition revoke_refresh_token :: "auth_config \<Rightarrow> moment \<Rightarrow> string \<Rightarrow> database \<Rightarrow> bool \<times> database" where
  "revoke_refresh_token ac now refresh_token db =
     (case validate_token ac now refresh_token ''refresh'' of
        None \<Rightarrow> (False, db)
      | Some p \<Rightarrow>
          (case truthy (cl_jti p) of
             None \<Rightarrow> (False, db)
           | Some token_id \<Rightarrow>
               (case find_by_token_id token_id db of
                  None \<Rightarrow> (False, db)
                | Some s \<Rightarrow>
                    if rs_user_id s \<noteq> cl_sub p then (False, db)
                    else case revoke_chain now (rs_chain_id s) db of (revoked, db1) \<Rightarrow> (revoked > 0, db1))))"

text \<open>
  The rotation. It runs in one transaction, which is committed on the path that ends the
  chain, before the exception, and on the path that succeeds; every other path leaves the
  database as it was.
\<close>

definition refresh_access_token ::
  "auth_config \<Rightarrow> moment \<Rightarrow> ident \<Rightarrow> ident \<Rightarrow> string \<Rightarrow> database
   \<Rightarrow> (exn, refreshed_tokens option) result \<times> database" where
  "refresh_access_token ac now new_id new_token_id refresh_token db =
     (case validate_token ac now refresh_token ''refresh'' of
        None \<Rightarrow> (Inr None, db)
      | Some p \<Rightarrow>
          (case truthy (cl_jti p) of
             None \<Rightarrow> (Inr None, db)
           | Some token_id \<Rightarrow>
               if cl_sub p = [] then (Inr None, db)
               else case find_by_token_id token_id db of
                 None \<Rightarrow> (Inr None, db)
               | Some s \<Rightarrow>
                   if rs_user_id s \<noteq> cl_sub p then (Inr None, db)
                   else if \<not> session_is_usable now s then
                     (if rs_replaced_by s \<noteq> None
                      then (Inl (Domain (RefreshTokenReplayedError (cl_sub p) (rs_chain_id s))), snd (revoke_chain now (rs_chain_id s) db))
                      else (Inr None, db))
                   else case find_user_by_id (cl_sub p) db of
                     Inl e \<Rightarrow> (Inl e, db)
                   | Inr None \<Rightarrow> (Inr None, db)
                   | Inr (Some u) \<Rightarrow>
                       if \<not> us_is_active u then (Inr None, db)
                       else case claim_for_rotation now token_id new_token_id db of (claimed, db1) \<Rightarrow>
                         if \<not> claimed then (Inr None, db)
                         else case session_save (refresh_session_create now new_id (us_id u) new_token_id
                                (now + ac_refresh_expire ac) (Some (rs_chain_id s))) db1 of
                           Inl e \<Rightarrow> (Inl e, db)
                         | Inr db2 \<Rightarrow> (Inr (Some
                             \<lparr>rt_access_token = create_access_token ac now u (rs_chain_id s),
                              rt_refresh_token = create_token ac now u (ac_refresh_expire ac) ''refresh'' (Some new_token_id) None\<rparr>), db2)))"

section \<open>Refreshing and signing out\<close>

definition refresh_session_use_case ::
  "auth_config \<Rightarrow> moment \<Rightarrow> ident \<Rightarrow> ident \<Rightarrow> string \<Rightarrow> request_context option \<Rightarrow> database
   \<Rightarrow> (exn, refreshed_tokens option) result \<times> database \<times> audit_event list" where
  "refresh_session_use_case ac now new_id new_token_id refresh_token context db =
     (case refresh_access_token ac now new_id new_token_id refresh_token db of
        (Inl (Domain e), db1) \<Rightarrow>
          if err_class e = RefreshTokenReplayedErrorC
          then (Inr None, db1,
                if context = None then []
                else [RefreshTokenReplayed (case err_subject e of Some i \<Rightarrow> i | None \<Rightarrow> [])
                        (case err_chain e of Some i \<Rightarrow> i | None \<Rightarrow> [])])
          else (Inl (Domain e), db1, [])
      | (r, db1) \<Rightarrow> (r, db1, []))"

definition sign_out ::
  "auth_config \<Rightarrow> moment \<Rightarrow> request_context \<Rightarrow> string option \<Rightarrow> string option \<Rightarrow> database
   \<Rightarrow> bool \<times> database \<times> audit_event list" where
  "sign_out ac now cx refresh_token session_id db =
     (case truthy refresh_token of
        Some token \<Rightarrow>
          (let claims = validate_token ac now token ''refresh'';
               target = (case claims of None \<Rightarrow> None | Some p \<Rightarrow> truthy (Some (cl_sub p)));
               chain = (case session_id of Some c \<Rightarrow> Some c
                        | None \<Rightarrow> (case claims of None \<Rightarrow> None
                            | Some p \<Rightarrow> (case truthy (cl_jti p) of None \<Rightarrow> None
                                | Some token_id \<Rightarrow> map_option rs_chain_id (find_by_token_id token_id db))))
           in case revoke_refresh_token ac now token db of (ended, db1) \<Rightarrow>
                if ended then (True, db1, [SessionEnded target chain]) else (False, db1, []))
      | None \<Rightarrow>
          (case truthy session_id of
             Some chain \<Rightarrow>
               (case revoke_session_chain now chain db of (revoked, db1) \<Rightarrow>
                  if revoked > 0 then (True, db1, [SessionEnded (cx_current_user cx) (Some chain)]) else (False, db1, []))
           | None \<Rightarrow> (False, db, [])))"

section \<open>Who is asking\<close>

record http_request =
  hr_path :: string
  hr_authorization :: "string option"
  hr_access_cookie :: "string option"
  hr_endpoint :: "string option"
  hr_has_rule :: bool

datatype token_source = FromHeader | FromCookie

record signed_in =
  si_user :: user
  si_session_id :: ident
  si_source :: token_source

definition presented_token :: "http_request \<Rightarrow> (string \<times> token_source) option" where
  "presented_token rq =
     (case (case hr_authorization rq of
              Some h \<Rightarrow> if startswith h ''Bearer '' then truthy (Some (drop 7 h)) else None
            | None \<Rightarrow> None) of
        Some t \<Rightarrow> Some (t, FromHeader)
      | None \<Rightarrow> (case truthy (hr_access_cookie rq) of Some t \<Rightarrow> Some (t, FromCookie) | None \<Rightarrow> None))"

definition credential_presented :: "http_request \<Rightarrow> token_source \<Rightarrow> bool" where
  "credential_presented rq source =
     (let endpoint = (case hr_endpoint rq of Some e \<Rightarrow> e | None \<Rightarrow> [])
      in source = FromHeader \<and> endpoint \<noteq> ''health'' \<and> hd (split_on (CHR ''.'') endpoint) \<noteq> ''auth'' \<and> hr_has_rule rq)"

text \<open>
  A token that does not hold up is refused when it was presented in the header, and
  ignored when it came with a cookie: the request then goes on without an account.
  Reading a broken account row is an exception other than a domain error, which the
  middleware logs and treats as no account; the reader of the row raises domain errors
  only, which pass through.
\<close>

definition load_current_user ::
  "auth_config \<Rightarrow> moment \<Rightarrow> http_request \<Rightarrow> database \<Rightarrow> (exn, signed_in option) result" where
  "load_current_user ac now rq db =
     (if startswith (hr_path rq) ''/static/'' then Inr None
      else case presented_token rq of
        None \<Rightarrow> Inr None
      | Some (token, source) \<Rightarrow>
          (let reject = (if credential_presented rq source
                         then Inl (Domain (DomainError ''Authentication required'' ''UNAUTHENTICATED'')) else Inr None)
           in case validate_token ac now token ''access'' of
                None \<Rightarrow> reject
              | Some p \<Rightarrow>
                  (case truthy (cl_sid p) of
                     None \<Rightarrow> reject
                   | Some session_id \<Rightarrow>
                       if cl_sub p = [] then reject
                       else if \<not> chain_is_live now session_id db then reject
                       else case find_user_by_id (cl_sub p) db of
                         Inl (Domain e) \<Rightarrow> Inl (Domain e)
                       | Inl _ \<Rightarrow> Inr None
                       | Inr None \<Rightarrow> reject
                       | Inr (Some u) \<Rightarrow>
                           if us_is_active u then Inr (Some \<lparr>si_user = u, si_session_id = session_id, si_source = source\<rparr>)
                           else reject)))"

section \<open>What happens to the session rows\<close>

text \<open>
  The transactions that write session rows. The two identifiers of a new row come from
  \<^verbatim>\<open>uuid4\<close>: a history draws them outside everything drawn before.
\<close>

datatype session_op =
    StartSession moment ident ident user
  | RefreshSession moment ident ident string "request_context option"
  | SignOut moment request_context "string option" "string option"
  | RevokeAllForUser moment ident
  | DropExpired moment
  | DeleteAccounts "ident list"

definition session_do :: "auth_config \<Rightarrow> session_op \<Rightarrow> database \<Rightarrow> database" where
  "session_do ac op db =
     (case op of
        StartSession now new_id token_id u \<Rightarrow> (case create_session_tokens ac now new_id token_id u db of Inl _ \<Rightarrow> db | Inr (_, db1) \<Rightarrow> db1)
      | RefreshSession now new_id token_id token context \<Rightarrow> fst (snd (refresh_session_use_case ac now new_id token_id token context db))
      | SignOut now cx token session_id \<Rightarrow> fst (snd (sign_out ac now cx token session_id db))
      | RevokeAllForUser now user_id \<Rightarrow> snd (revoke_all_for_user now user_id db)
      | DropExpired now \<Rightarrow> snd (delete_expired_sessions now db)
      | DeleteAccounts gone \<Rightarrow> delete_users gone db)"

fun drawn :: "session_op \<Rightarrow> ident set" where
  "drawn (StartSession now new_id token_id u) = {new_id, token_id}"
| "drawn (RefreshSession now new_id token_id token context) = {new_id, token_id}"
| "drawn op = {}"

inductive session_run :: "auth_config \<Rightarrow> database \<times> ident set \<Rightarrow> database \<times> ident set \<Rightarrow> bool"
  for ac :: auth_config where
  idle: "session_run ac st st"
| more: "session_run ac st (db, used) \<Longrightarrow> drawn op \<inter> used = {}
         \<Longrightarrow> session_run ac st (session_do ac op db, used \<union> drawn op)"

text \<open>A history starts with no session; the empty string is no identifier.\<close>

definition session_reachable :: "auth_config \<Rightarrow> database \<times> ident set \<Rightarrow> bool" where
  "session_reachable ac st \<longleftrightarrow> (\<exists>db0. db_sessions db0 = [] \<and> session_run ac (db0, {[]}) st)"

text \<open>
  The specification the transactions refine: rows are revoked, removed, added as the
  start of a chain, or rotated, which spends a usable row and adds its successor.
\<close>

definition revoke_rows :: "moment \<Rightarrow> (refresh_session \<Rightarrow> bool) \<Rightarrow> refresh_session list \<Rightarrow> refresh_session list" where
  "revoke_rows now P = map (\<lambda>s. if P s \<and> rs_revoked_at s = None then s\<lparr>rs_revoked_at := Some now\<rparr> else s)"

definition spend_rows :: "ident \<Rightarrow> ident \<Rightarrow> refresh_session list \<Rightarrow> refresh_session list" where
  "spend_rows t t' = map (\<lambda>s. if rs_token_id s = t then s\<lparr>rs_replaced_by := Some t'\<rparr> else s)"

inductive chain_step :: "ident set \<Rightarrow> refresh_session list \<Rightarrow> refresh_session list \<Rightarrow> bool" where
  keep: "chain_step new ss ss"
| revoke: "chain_step new ss (revoke_rows now P ss)"
| remove: "chain_step new ss (filter P ss)"
| start: "rs_id s \<in> new \<Longrightarrow> rs_token_id s \<in> new \<Longrightarrow> rs_chain_id s = rs_token_id s
          \<Longrightarrow> chain_step new ss (ss @ [s])"
| rotate: "s \<in> set ss \<Longrightarrow> session_is_usable now s \<Longrightarrow> rs_id s' \<in> new \<Longrightarrow> rs_token_id s' \<in> new
           \<Longrightarrow> rs_chain_id s' = rs_chain_id s \<Longrightarrow> rs_user_id s' = rs_user_id s
           \<Longrightarrow> chain_step new ss (spend_rows (rs_token_id s) (rs_token_id s') ss @ [s'])"

definition sessions_ok :: "ident set \<Rightarrow> refresh_session list \<Rightarrow> bool" where
  "sessions_ok used ss \<longleftrightarrow>
     [] \<in> used \<and> distinct (map rs_token_id ss)
     \<and> (\<forall>s \<in> set ss. {rs_id s, rs_token_id s, rs_chain_id s} \<subseteq> used \<and> rs_chain_id s \<noteq> [])
     \<and> (\<forall>s \<in> set ss. \<forall>s' \<in> set ss. rs_chain_id s = rs_chain_id s' \<longrightarrow>
          rs_user_id s = rs_user_id s' \<and> (rs_replaced_by s = None \<and> rs_replaced_by s' = None \<longrightarrow> s = s'))"

definition chain_dead :: "ident \<Rightarrow> refresh_session list \<Rightarrow> bool" where
  "chain_dead c ss \<longleftrightarrow> (\<forall>s \<in> set ss. rs_chain_id s = c \<longrightarrow> rs_revoked_at s \<noteq> None)"

definition token_spent :: "ident \<Rightarrow> refresh_session list \<Rightarrow> bool" where
  "token_spent t ss \<longleftrightarrow> (\<forall>s \<in> set ss. rs_token_id s = t \<longrightarrow> rs_replaced_by s \<noteq> None)"

section \<open>Lemmas\<close>

lemma truthy_Some: "truthy x = Some y \<longleftrightarrow> x = Some y \<and> y \<noteq> []"
  by (auto simp: truthy_def split: option.splits list.splits)

lemma revoke_rows_keys [simp]:
  "map rs_token_id (revoke_rows now P ss) = map rs_token_id ss"
  by (simp add: revoke_rows_def comp_def if_distrib [of rs_token_id] cong: if_cong)

lemma spend_rows_keys [simp]:
  "map rs_token_id (spend_rows t t' ss) = map rs_token_id ss"
  by (simp add: spend_rows_def comp_def if_distrib [of rs_token_id] cong: if_cong)

lemma in_revoke_rows:
  assumes "r \<in> set (revoke_rows now P ss)"
  obtains s where "s \<in> set ss" "rs_id r = rs_id s" "rs_token_id r = rs_token_id s" "rs_chain_id r = rs_chain_id s"
    "rs_user_id r = rs_user_id s" "rs_replaced_by r = rs_replaced_by s"
    "r = (if P s \<and> rs_revoked_at s = None then s\<lparr>rs_revoked_at := Some now\<rparr> else s)"
proof -
  from assms obtain s where s: "s \<in> set ss"
    and r: "r = (if P s \<and> rs_revoked_at s = None then s\<lparr>rs_revoked_at := Some now\<rparr> else s)"
    unfolding revoke_rows_def set_map by (rule imageE)
  show thesis by (rule that [OF s _ _ _ _ _ r]) (simp_all add: r)
qed

lemma in_spend_rows:
  assumes "r \<in> set (spend_rows t t' ss)"
  obtains s where "s \<in> set ss" "rs_id r = rs_id s" "rs_token_id r = rs_token_id s" "rs_chain_id r = rs_chain_id s"
    "rs_user_id r = rs_user_id s" "rs_revoked_at r = rs_revoked_at s"
    "r = (if rs_token_id s = t then s\<lparr>rs_replaced_by := Some t'\<rparr> else s)"
proof -
  from assms obtain s where s: "s \<in> set ss" and r: "r = (if rs_token_id s = t then s\<lparr>rs_replaced_by := Some t'\<rparr> else s)"
    unfolding spend_rows_def set_map by (rule imageE)
  show thesis by (rule that [OF s _ _ _ _ _ r]) (simp_all add: r)
qed

lemma sessions_okD:
  assumes "sessions_ok used ss" and "s \<in> set ss"
  shows "rs_id s \<in> used" "rs_token_id s \<in> used" "rs_chain_id s \<in> used" "rs_chain_id s \<noteq> []"
  using assms by (auto simp: sessions_ok_def)

lemma sessions_ok_same:
  assumes "sessions_ok used ss" and "s \<in> set ss" "s' \<in> set ss"
  shows "rs_chain_id s = rs_chain_id s' \<Longrightarrow> rs_user_id s = rs_user_id s'"
    and "rs_chain_id s = rs_chain_id s' \<Longrightarrow> rs_replaced_by s = None \<Longrightarrow> rs_replaced_by s' = None \<Longrightarrow> s = s'"
    and "rs_token_id s = rs_token_id s' \<Longrightarrow> s = s'"
proof -
  have d: "inj_on rs_token_id (set ss)" using assms(1) by (simp add: sessions_ok_def distinct_map)
  show "rs_token_id s = rs_token_id s' \<Longrightarrow> s = s'" by (rule inj_onD [OF d _ assms(2,3)])
qed (use assms in \<open>unfold sessions_ok_def, metis\<close>)+

lemma sessions_okI:
  assumes "[] \<in> used" and "distinct (map rs_token_id ss)"
    and "\<And>s. s \<in> set ss \<Longrightarrow> rs_id s \<in> used \<and> rs_token_id s \<in> used \<and> rs_chain_id s \<in> used \<and> rs_chain_id s \<noteq> []"
    and "\<And>s s'. s \<in> set ss \<Longrightarrow> s' \<in> set ss \<Longrightarrow> rs_chain_id s = rs_chain_id s' \<Longrightarrow> rs_user_id s = rs_user_id s'"
    and "\<And>s s'. s \<in> set ss \<Longrightarrow> s' \<in> set ss \<Longrightarrow> rs_chain_id s = rs_chain_id s' \<Longrightarrow> rs_replaced_by s = None
          \<Longrightarrow> rs_replaced_by s' = None \<Longrightarrow> s = s'"
  shows "sessions_ok used ss"
  unfolding sessions_ok_def
proof (intro conjI ballI impI)
  show "[] \<in> used" by (rule assms(1))
  show "distinct (map rs_token_id ss)" by (rule assms(2))
next
  fix s assume "s \<in> set ss"
  from assms(3) [OF this] show "{rs_id s, rs_token_id s, rs_chain_id s} \<subseteq> used" "rs_chain_id s \<noteq> []" by simp_all
next
  fix s s' assume m: "s \<in> set ss" "s' \<in> set ss" "rs_chain_id s = rs_chain_id s'"
  show "rs_user_id s = rs_user_id s'" by (rule assms(4) [OF m])
  assume "rs_replaced_by s = None \<and> rs_replaced_by s' = None"
  then show "s = s'" by (elim conjE) (rule assms(5) [OF m])
qed

lemma sessions_ok_more: "sessions_ok used ss \<Longrightarrow> sessions_ok (used \<union> new) ss"
  unfolding sessions_ok_def by blast

lemma sessions_ok_filter: "sessions_ok used ss \<Longrightarrow> sessions_ok used (filter P ss)"
  unfolding sessions_ok_def by (simp add: distinct_map_filter)

lemma sessions_ok_revoke:
  assumes ok: "sessions_ok used ss" shows "sessions_ok used (revoke_rows now P ss)"
proof (rule sessions_okI)
  fix r r' assume m: "r \<in> set (revoke_rows now P ss)" "r' \<in> set (revoke_rows now P ss)" and c: "rs_chain_id r = rs_chain_id r'"
  from m(1) obtain s where s: "s \<in> set ss" "rs_chain_id r = rs_chain_id s" "rs_user_id r = rs_user_id s" "rs_replaced_by r = rs_replaced_by s"
      "r = (if P s \<and> rs_revoked_at s = None then s\<lparr>rs_revoked_at := Some now\<rparr> else s)"
    by (rule in_revoke_rows)
  from m(2) obtain s' where s': "s' \<in> set ss" "rs_chain_id r' = rs_chain_id s'" "rs_user_id r' = rs_user_id s'" "rs_replaced_by r' = rs_replaced_by s'"
      "r' = (if P s' \<and> rs_revoked_at s' = None then s'\<lparr>rs_revoked_at := Some now\<rparr> else s')"
    by (rule in_revoke_rows)
  have cc: "rs_chain_id s = rs_chain_id s'" using c s(2) s'(2) by simp
  show "rs_user_id r = rs_user_id r'" using sessions_ok_same(1) [OF ok s(1) s'(1) cc] s(3) s'(3) by simp
  assume "rs_replaced_by r = None" "rs_replaced_by r' = None"
  with s(4) s'(4) have "rs_replaced_by s = None" "rs_replaced_by s' = None" by simp_all
  with sessions_ok_same(2) [OF ok s(1) s'(1) cc] have "s = s'" by simp
  with s(5) s'(5) show "r = r'" by simp
next
  fix r assume "r \<in> set (revoke_rows now P ss)"
  then show "rs_id r \<in> used \<and> rs_token_id r \<in> used \<and> rs_chain_id r \<in> used \<and> rs_chain_id r \<noteq> []"
    by (rule in_revoke_rows) (metis sessions_okD [OF ok])
qed (use ok in \<open>simp_all add: sessions_ok_def\<close>)

lemma sessions_ok_start:
  assumes ok: "sessions_ok used ss" and new: "rs_id s \<notin> used" "rs_token_id s \<notin> used"
    and mem: "rs_id s \<in> new" "rs_token_id s \<in> new" and c: "rs_chain_id s = rs_token_id s"
  shows "sessions_ok (used \<union> new) (ss @ [s])"
proof (rule sessions_okI)
  have other: "rs_chain_id r \<noteq> rs_chain_id s \<and> rs_token_id r \<noteq> rs_token_id s" if "r \<in> set ss" for r
    using sessions_okD [OF ok that] new c by metis
  then have "rs_token_id s \<notin> set (map rs_token_id ss)" by (metis imageE list.set_map)
  then show "distinct (map rs_token_id (ss @ [s]))" using ok by (simp add: sessions_ok_def)
  show "[] \<in> used \<union> new" using ok by (simp add: sessions_ok_def)
  then have ne: "rs_token_id s \<noteq> []" using new(2) ok by (auto simp: sessions_ok_def)
  show "rs_id r \<in> used \<union> new \<and> rs_token_id r \<in> used \<union> new \<and> rs_chain_id r \<in> used \<union> new \<and> rs_chain_id r \<noteq> []"
    if "r \<in> set (ss @ [s])" for r
  proof (cases "r \<in> set ss")
    case True then show ?thesis using sessions_okD [OF ok True] by simp
  next
    case False with that have "r = s" by simp
    with mem c ne show ?thesis by simp
  qed
  fix r r' assume m: "r \<in> set (ss @ [s])" "r' \<in> set (ss @ [s])" and cc: "rs_chain_id r = rs_chain_id r'"
  have both: "r \<in> set ss \<and> r' \<in> set ss \<or> r = s \<and> r' = s" using m cc other by (metis insert_iff list.simps(15) rotate1.simps(2) set_rotate1)
  show "rs_user_id r = rs_user_id r'" using both sessions_ok_same(1) [OF ok _ _ cc] by blast
  show "r = r'" if "rs_replaced_by r = None" "rs_replaced_by r' = None"
    using both sessions_ok_same(2) [OF ok _ _ cc that] by blast
qed

lemma sessions_ok_rotate:
  assumes ok: "sessions_ok used ss" and s: "s \<in> set ss" "session_is_usable now s"
    and new: "rs_id s' \<notin> used" "rs_token_id s' \<notin> used" and mem: "rs_id s' \<in> new" "rs_token_id s' \<in> new"
    and c: "rs_chain_id s' = rs_chain_id s" and u: "rs_user_id s' = rs_user_id s"
  shows "sessions_ok (used \<union> new) (spend_rows (rs_token_id s) (rs_token_id s') ss @ [s'])"
proof (rule sessions_okI)
  let ?ss = "spend_rows (rs_token_id s) (rs_token_id s') ss"
  have unspent: "rs_replaced_by s = None" using s(2) by (simp add: session_is_usable_def)
  have "rs_token_id s' \<notin> set (map rs_token_id ss)" using ok new(2) by (auto simp: sessions_ok_def)
  then show "distinct (map rs_token_id (?ss @ [s']))" using ok
    unfolding map_append spend_rows_keys by (simp add: sessions_ok_def)
  show "[] \<in> used \<union> new" using ok by (simp add: sessions_ok_def)
  have old: "rs_replaced_by r \<noteq> None \<or> r \<in> set ss \<and> rs_chain_id r \<noteq> rs_chain_id s" if "r \<in> set ?ss" for r
    using that
  proof (rule in_spend_rows)
    fix q assume q: "q \<in> set ss" "r = (if rs_token_id q = rs_token_id s then q\<lparr>rs_replaced_by := Some (rs_token_id s')\<rparr> else q)"
    show ?thesis
    proof (cases "rs_token_id q = rs_token_id s")
      case True with q show ?thesis by simp
    next
      case False with q(2) have "r = q" by simp
      moreover have "rs_chain_id q = rs_chain_id s \<Longrightarrow> rs_replaced_by q \<noteq> None"
        using False sessions_ok_same(2) [OF ok q(1) s(1)] unspent by blast
      ultimately show ?thesis using q(1) by blast
    qed
  qed
  show "rs_id r \<in> used \<union> new \<and> rs_token_id r \<in> used \<union> new \<and> rs_chain_id r \<in> used \<union> new \<and> rs_chain_id r \<noteq> []"
    if "r \<in> set (?ss @ [s'])" for r
  proof (cases "r = s'")
    case True then show ?thesis using mem c sessions_okD [OF ok s(1)] by simp
  next
    case False with that have "r \<in> set ?ss" by simp
    then show ?thesis by (rule in_spend_rows) (use sessions_okD [OF ok] in simp)
  qed
  fix r r' assume m: "r \<in> set (?ss @ [s'])" "r' \<in> set (?ss @ [s'])" and cc: "rs_chain_id r = rs_chain_id r'"
  have origin: "\<exists>q \<in> set ss. rs_chain_id q = rs_chain_id p \<and> rs_user_id q = rs_user_id p" if "p \<in> set (?ss @ [s'])" for p
  proof (cases "p = s'")
    case True then show ?thesis using s(1) c u by metis
  next
    case False with that have "p \<in> set ?ss" by simp
    then show ?thesis by (rule in_spend_rows) metis
  qed
  show "rs_user_id r = rs_user_id r'" using origin [OF m(1)] origin [OF m(2)] cc sessions_ok_same(1) [OF ok] by metis
  assume none: "rs_replaced_by r = None" "rs_replaced_by r' = None"
  have "(r \<in> set ss \<and> rs_chain_id r \<noteq> rs_chain_id s) \<or> r = s'" "(r' \<in> set ss \<and> rs_chain_id r' \<noteq> rs_chain_id s) \<or> r' = s'"
    using m none old by (metis Un_iff empty_iff insert_iff list.set(1,2) set_append)+
  then show "r = r'" using cc c sessions_ok_same(2) [OF ok _ _ cc none] by metis
qed

theorem chain_step_ok:
  assumes "chain_step new ss ss'" and "sessions_ok used ss" and "new \<inter> used = {}"
  shows "sessions_ok (used \<union> new) ss'"
  using assms
proof (induction rule: chain_step.induct)
  case (start s new ss)
  then show ?case by (intro sessions_ok_start) auto
next
  case (rotate s ss now s' new)
  show ?case by (rule sessions_ok_rotate [OF rotate.prems(1) rotate.hyps(1,2) _ _ rotate.hyps(3-6)]) (use rotate in auto)
qed (auto intro: sessions_ok_more sessions_ok_revoke sessions_ok_filter)

lemma chain_step_dead:
  assumes "chain_step new ss ss'" and "c \<notin> new" and "chain_dead c ss"
  shows "chain_dead c ss'"
  using assms
proof (induction rule: chain_step.induct)
  case (revoke new ss now P)
  then show ?case unfolding chain_dead_def by (auto elim!: in_revoke_rows)
next
  case (start s new ss)
  then show ?case unfolding chain_dead_def by auto
next
  case (rotate s ss now s' new)
  have "rs_chain_id s \<noteq> c" using rotate by (auto simp: chain_dead_def session_is_usable_def)
  then have "rs_chain_id s' \<noteq> c" using rotate by simp
  moreover have "chain_dead c (spend_rows (rs_token_id s) (rs_token_id s') ss)"
    using rotate.prems unfolding chain_dead_def by (metis in_spend_rows)
  ultimately show ?case by (simp add: chain_dead_def)
qed (auto simp: chain_dead_def)

lemma chain_step_spent:
  assumes "chain_step new ss ss'" and "t \<notin> new" and "token_spent t ss"
  shows "token_spent t ss'"
  using assms
proof (induction rule: chain_step.induct)
  case (revoke new ss now P)
  then show ?case unfolding token_spent_def by (metis in_revoke_rows)
next
  case (rotate s ss now s' new)
  have "token_spent t (spend_rows (rs_token_id s) (rs_token_id s') ss)" unfolding token_spent_def
  proof (intro ballI impI)
    fix r assume "r \<in> set (spend_rows (rs_token_id s) (rs_token_id s') ss)" and t: "rs_token_id r = t"
    then show "rs_replaced_by r \<noteq> None"
      using rotate.prems(2) unfolding token_spent_def by (elim in_spend_rows) (metis refresh_session.select_convs refresh_session.surjective refresh_session.update_convs option.distinct(1))
  qed
  then show ?case using rotate unfolding token_spent_def by auto
qed (auto simp: token_spent_def)

lemma revoke_chain_rows [simp]:
  "db_sessions (snd (revoke_chain now c db)) = revoke_rows now (\<lambda>s. rs_chain_id s = c) (db_sessions db)"
  by (simp add: revoke_chain_def revoke_rows_def)

lemma revoke_all_for_user_rows [simp]:
  "db_sessions (snd (revoke_all_for_user now i db)) = revoke_rows now (\<lambda>s. rs_user_id s = i) (db_sessions db)"
  by (simp add: revoke_all_for_user_def revoke_rows_def)

lemma find_by_token_id_Some:
  "find_by_token_id t db = Some s \<Longrightarrow> s \<in> set (db_sessions db) \<and> rs_token_id s = t"
  by (auto simp: find_by_token_id_def find_Some_iff)

lemma session_save_Inr:
  assumes "session_save s db = Inr db'" and "rs_id s \<notin> rs_id ` set (db_sessions db)"
  shows "db' = db\<lparr>db_sessions := db_sessions db @ [s]\<rparr>"
  using assms by (simp add: session_save_def replace_or_append_def split: if_splits)

lemma find_user_by_id_Some:
  assumes "find_user_by_id i db = Inr (Some u)" shows "us_id u = i"
  using assms unfolding find_user_by_id_def
  by (rule find_user_Some) (auto dest: user_to_domain_Inr)

text \<open>The row a claim spends, and that a claim of a spent token fails.\<close>

lemma filter_key_single:
  "distinct (map f xs) \<Longrightarrow> x \<in> set xs \<Longrightarrow> filter (\<lambda>y. f y = f x) xs = [x]"
proof (induction xs)
  case (Cons a xs)
  then have a: "\<forall>y \<in> set xs. f y \<noteq> f a" by (metis distinct.simps(2) image_eqI list.set_map list.simps(9))
  show ?case
  proof (cases "x = a")
    case True with a show ?thesis by simp
  next
    case False with Cons a show ?thesis by auto
  qed
qed simp

lemma claim_usable:
  assumes ok: "sessions_ok used (db_sessions db)" and s: "s \<in> set (db_sessions db)" "session_is_usable now s"
  shows "claim_for_rotation now (rs_token_id s) t' db = (True, db\<lparr>db_sessions := spend_rows (rs_token_id s) t' (db_sessions db)\<rparr>)"
proof -
  have iff: "(rs_token_id r = rs_token_id s \<and> rs_revoked_at r = None \<and> rs_replaced_by r = None \<and> now < rs_expires_at r)
             = (rs_token_id r = rs_token_id s)" if "r \<in> set (db_sessions db)" for r
  proof -
    have "rs_token_id r = rs_token_id s \<Longrightarrow> r = s" by (rule sessions_ok_same(3) [OF ok that s(1)])
    with s(2) show ?thesis by (metis session_is_usable_def)
  qed
  have "distinct (map rs_token_id (db_sessions db))" using ok by (simp add: sessions_ok_def)
  note single = filter_key_single [OF this s(1)]
  have "filter (\<lambda>r. rs_token_id r = rs_token_id s \<and> rs_revoked_at r = None \<and> rs_replaced_by r = None \<and> now < rs_expires_at r) (db_sessions db) = [s]"
    unfolding single [symmetric] by (rule filter_cong [OF refl iff])
  moreover have "map (\<lambda>r. if rs_token_id r = rs_token_id s \<and> rs_revoked_at r = None \<and> rs_replaced_by r = None \<and> now < rs_expires_at r
        then r\<lparr>rs_replaced_by := Some t'\<rparr> else r) (db_sessions db) = spend_rows (rs_token_id s) t' (db_sessions db)"
    unfolding spend_rows_def by (rule map_cong [OF refl]) (simp add: iff)
  ultimately show ?thesis by (simp add: claim_for_rotation_def Let_def)
qed

lemma claim_spent:
  assumes "token_spent t (db_sessions db)" shows "\<not> fst (claim_for_rotation now t t' db)"
proof -
  have "filter (\<lambda>s. rs_token_id s = t \<and> rs_revoked_at s = None \<and> rs_replaced_by s = None \<and> now < rs_expires_at s) (db_sessions db) = []"
    using assms unfolding token_spent_def filter_empty_conv by blast
  then show ?thesis by (simp add: claim_for_rotation_def Let_def)
qed

lemma spend_rows_spent: "token_spent t (spend_rows t t' ss)"
  unfolding token_spent_def
proof (intro ballI impI)
  fix r assume "r \<in> set (spend_rows t t' ss)" and t: "rs_token_id r = t"
  from this(1) show "rs_replaced_by r \<noteq> None"
  proof (rule in_spend_rows)
    fix s assume "rs_token_id r = rs_token_id s" "r = (if rs_token_id s = t then s\<lparr>rs_replaced_by := Some t'\<rparr> else s)"
    with t show ?thesis by simp
  qed
qed

text \<open>The three ways a rotation can end.\<close>

lemma refresh_access_token_cases:
  assumes "refresh_access_token ac now i t token db = (r, db')"
  obtains (refused) "db' = db" "r = Inr None \<or> (\<exists>e. r = Inl e)"
    | (replayed) p s where "validate_token ac now token ''refresh'' = Some p" "find_by_token_id (the (cl_jti p)) db = Some s"
        "rs_replaced_by s \<noteq> None" "r = Inl (Domain (RefreshTokenReplayedError (cl_sub p) (rs_chain_id s)))"
        "db' = snd (revoke_chain now (rs_chain_id s) db)"
    | (rotated) p s u db1 where "validate_token ac now token ''refresh'' = Some p" "find_by_token_id (the (cl_jti p)) db = Some s"
        "session_is_usable now s" "rs_user_id s = cl_sub p" "find_user_by_id (cl_sub p) db = Inr (Some u)" "us_is_active u"
        "claim_for_rotation now (rs_token_id s) t db = (True, db1)"
        "session_save (refresh_session_create now i (us_id u) t (now + ac_refresh_expire ac) (Some (rs_chain_id s))) db1 = Inr db'"
        "r = Inr (Some \<lparr>rt_access_token = create_access_token ac now u (rs_chain_id s),
                        rt_refresh_token = create_token ac now u (ac_refresh_expire ac) ''refresh'' (Some t) None\<rparr>)"
proof (cases "\<exists>p s. validate_token ac now token ''refresh'' = Some p \<and> truthy (cl_jti p) = Some (the (cl_jti p)) \<and> cl_sub p \<noteq> []
    \<and> find_by_token_id (the (cl_jti p)) db = Some s \<and> rs_user_id s = cl_sub p")
  case False
  then have "r = Inr None \<and> db' = db" using assms unfolding refresh_access_token_def
    by (fastforce simp: truthy_Some split: option.splits if_splits)
  then show ?thesis by (intro refused) simp_all
next
  case True
  then obtain p s where p: "validate_token ac now token ''refresh'' = Some p" "truthy (cl_jti p) = Some (the (cl_jti p))" "cl_sub p \<noteq> []"
    "find_by_token_id (the (cl_jti p)) db = Some s" "rs_user_id s = cl_sub p" by (elim exE conjE)
  note eval = assms [unfolded refresh_access_token_def p(1) option.case p(2) if_not_P [OF p(3)] p(4)]
  show ?thesis
  proof (cases "session_is_usable now s")
    case False
    show ?thesis
    proof (cases "rs_replaced_by s")
      case None with eval p(5) False show ?thesis by (intro refused) simp_all
    next
      case (Some t2)
      with eval p(5) False show ?thesis by (intro replayed [OF p(1,4)]) simp_all
    qed
  next
    case usable: True
    show ?thesis
    proof (cases "\<exists>u. find_user_by_id (cl_sub p) db = Inr (Some u) \<and> us_is_active u")
      case False
      with eval p(5) usable have "db' = db \<and> (r = Inr None \<or> (\<exists>e. r = Inl e))"
        by (auto split: sum.splits option.splits if_splits)
      then show ?thesis by (elim conjE) (rule refused)
    next
      case True
      then obtain u where u: "find_user_by_id (cl_sub p) db = Inr (Some u)" "us_is_active u" by (elim exE conjE)
      obtain claimed db1 where c: "claim_for_rotation now (rs_token_id s) t db = (claimed, db1)" by (rule prod.exhaust)
      have t: "rs_token_id s = the (cl_jti p)" using find_by_token_id_Some [OF p(4)] by simp
      note eval2 = eval [folded t, simplified p(5) usable u c, simplified]
      show ?thesis
      proof (cases "claimed \<and> (\<exists>db2. session_save (refresh_session_create now i (us_id u) t (now + ac_refresh_expire ac) (Some (rs_chain_id s))) db1 = Inr db2)")
        case False
        with eval2 have "db' = db \<and> (r = Inr None \<or> (\<exists>e. r = Inl e))" by (auto split: sum.splits if_splits)
        then show ?thesis by (elim conjE) (rule refused)
      next
        case True
        then obtain db2 where cl: "claimed"
          and v: "session_save (refresh_session_create now i (us_id u) t (now + ac_refresh_expire ac) (Some (rs_chain_id s))) db1 = Inr db2"
          by (elim conjE exE)
        have r: "r = Inr (Some \<lparr>rt_access_token = create_access_token ac now u (rs_chain_id s),
            rt_refresh_token = create_token ac now u (ac_refresh_expire ac) ''refresh'' (Some t) None\<rparr>)" "db' = db2"
          using eval2 u(2) cl v by simp_all
        show ?thesis by (rule rotated [OF p(1,4) usable p(5) u c [unfolded eqTrueI [OF cl]] v [folded r(2)] r(1)])
      qed
    qed
  qed
qed


text \<open>Every transaction is a step of the specification.\<close>

lemma refresh_session_use_case_db:
  "fst (snd (refresh_session_use_case ac now i t token context db)) = snd (refresh_access_token ac now i t token db)"
  by (simp add: refresh_session_use_case_def split: prod.splits sum.splits exn.splits)

lemma refresh_session_create_fields [simp]:
  "rs_id (refresh_session_create now i u t x c) = i" "rs_user_id (refresh_session_create now i u t x c) = u"
  "rs_token_id (refresh_session_create now i u t x c) = t" "rs_expires_at (refresh_session_create now i u t x c) = x"
  "rs_revoked_at (refresh_session_create now i u t x c) = None" "rs_replaced_by (refresh_session_create now i u t x c) = None"
  "rs_chain_id (refresh_session_create now i u t x None) = t"
  by (simp_all add: refresh_session_create_def)

lemma refresh_session_create_chain [simp]:
  "c \<noteq> [] \<Longrightarrow> rs_chain_id (refresh_session_create now i u t x (Some c)) = c"
  by (cases c) (simp_all add: refresh_session_create_def)

lemma rotated_rows:
  assumes ok: "sessions_ok used (db_sessions db)" and i: "i \<notin> used"
    and s: "s \<in> set (db_sessions db)" "session_is_usable now s"
    and c: "claim_for_rotation now (rs_token_id s) t db = (True, db1)"
    and v: "session_save (refresh_session_create now i u t x (Some (rs_chain_id s))) db1 = Inr db'"
  shows "db_sessions db' = spend_rows (rs_token_id s) t (db_sessions db) @ [refresh_session_create now i u t x (Some (rs_chain_id s))]"
proof -
  let ?ss = "spend_rows (rs_token_id s) t (db_sessions db)"
  have db1: "db1 = db\<lparr>db_sessions := ?ss\<rparr>" using claim_usable [OF ok s] c by simp
  have "i \<notin> rs_id ` set ?ss"
  proof
    assume "i \<in> rs_id ` set ?ss"
    then obtain r where "r \<in> set ?ss" "i = rs_id r" by (rule imageE)
    then obtain q where "q \<in> set (db_sessions db)" "rs_id q = i" by (metis in_spend_rows)
    then show False using sessions_okD(1) [OF ok] i by metis
  qed
  then show ?thesis using session_save_Inr [OF v] by (simp add: db1)
qed

lemma started_rows:
  assumes ok: "sessions_ok used (db_sessions db)" and i: "i \<notin> used"
    and v: "create_session_tokens ac now i t u db = Inr (r, db')"
  shows "db_sessions db' = db_sessions db @ [refresh_session_create now i (us_id u) t (now + ac_refresh_expire ac) None]"
proof -
  have "i \<notin> rs_id ` set (db_sessions db)"
  proof
    assume "i \<in> rs_id ` set (db_sessions db)"
    then obtain q where "q \<in> set (db_sessions db)" "i = rs_id q" by (rule imageE)
    then show False using sessions_okD(1) [OF ok] i by metis
  qed
  moreover have "session_save (refresh_session_create now i (us_id u) t (now + ac_refresh_expire ac) None) db = Inr db'"
    using v by (simp add: create_session_tokens_def Let_def result_simps)
  ultimately have "db' = db\<lparr>db_sessions := db_sessions db @ [refresh_session_create now i (us_id u) t (now + ac_refresh_expire ac) None]\<rparr>"
    by (intro session_save_Inr) simp_all
  then show ?thesis by simp
qed

lemma refresh_is_chain_step:
  assumes ok: "sessions_ok used (db_sessions db)" and new: "i \<notin> used" "t \<notin> used"
    and run: "refresh_access_token ac now i t token db = (r, db')"
  shows "chain_step {i, t} (db_sessions db) (db_sessions db')"
  using run
proof (cases rule: refresh_access_token_cases)
  case refused then show ?thesis by (simp add: chain_step.keep)
next
  case (replayed p s) then show ?thesis by (simp add: chain_step.revoke)
next
  case (rotated p s u db1)
  have s: "s \<in> set (db_sessions db)" using find_by_token_id_Some [OF rotated(2)] by simp
  let ?s' = "refresh_session_create now i (us_id u) t (now + ac_refresh_expire ac) (Some (rs_chain_id s))"
  have "chain_step {i, t} (db_sessions db) (spend_rows (rs_token_id s) (rs_token_id ?s') (db_sessions db) @ [?s'])"
    by (rule chain_step.rotate [OF s rotated(3)])
       (use sessions_okD(4) [OF ok s] rotated(4) find_user_by_id_Some [OF rotated(5)] in simp_all)
  then show ?thesis using rotated_rows [OF ok new(1) s rotated(3,7,8)] by simp
qed

lemma sign_out_is_chain_step:
  "chain_step {} (db_sessions db) (db_sessions (fst (snd (sign_out ac now cx token sid db))))"
proof -
  have "db_sessions (snd (revoke_refresh_token ac now tok db)) = db_sessions db
        \<or> (\<exists>c. db_sessions (snd (revoke_refresh_token ac now tok db)) = revoke_rows now (\<lambda>s. rs_chain_id s = c) (db_sessions db))" for tok
    unfolding revoke_refresh_token_def
    by (auto split: option.splits simp: case_prod_beta)
  then have tok: "chain_step {} (db_sessions db) (db_sessions (snd (revoke_refresh_token ac now tok db)))" for tok
    by (metis chain_step.keep chain_step.revoke)
  show ?thesis
    by (auto simp: sign_out_def Let_def case_prod_beta revoke_session_chain_def tok chain_step.keep chain_step.revoke split: option.splits)
qed

theorem session_do_refines:
  assumes ok: "sessions_ok used (db_sessions db)" and new: "drawn op \<inter> used = {}"
  shows "chain_step (drawn op) (db_sessions db) (db_sessions (session_do ac op db))"
proof (cases op)
  case (StartSession now i t u)
  show ?thesis
  proof (cases "create_session_tokens ac now i t u db")
    case (Inl e) then show ?thesis by (simp add: session_do_def StartSession chain_step.keep)
  next
    case (Inr q)
    then obtain r db' where q: "create_session_tokens ac now i t u db = Inr (r, db')" by (cases q) simp
    let ?s = "refresh_session_create now i (us_id u) t (now + ac_refresh_expire ac) None"
    have "chain_step {i, t} (db_sessions db) (db_sessions db @ [?s])" by (rule chain_step.start) simp_all
    then show ?thesis using started_rows [OF ok _ q] new q by (simp add: session_do_def StartSession)
  qed
next
  case (RefreshSession now i t token cx)
  obtain r db' where q: "refresh_access_token ac now i t token db = (r, db')" by (rule prod.exhaust)
  then show ?thesis using refresh_is_chain_step [OF ok _ _ q] new
    by (simp add: session_do_def RefreshSession refresh_session_use_case_db)
next
  case (DropExpired now)
  then show ?thesis by (simp add: session_do_def delete_expired_sessions_def chain_step.remove)
qed (simp_all add: session_do_def sign_out_is_chain_step chain_step.revoke chain_step.remove)

end
