(* ===== verification/Journals.thy ===== *)
theory Journals
  imports Sessions
begin

text \<open>
  Reading the journals back (\<^verbatim>\<open>infrastructure/logging/journal_reader.py\<close>, the port
  \<^verbatim>\<open>application/ports/journal_reader.py\<close> and the use case \<^verbatim>\<open>read_journal.py\<close>). A file is the
  list of its bytes, and a line is kept as its bytes: the newline byte is part of no other
  character, so decoding a file and decoding its lines is the same. What \<^verbatim>\<open>json.loads\<close> makes of a
  line and what \<^verbatim>\<open>gzip\<close> makes of a packed file are arguments, about which nothing is assumed.
\<close>

section \<open>Filters\<close>

datatype journal = APPLICATION | ERROR | AUDIT

definition journal_value :: "journal \<Rightarrow> string" where
  "journal_value j = (case j of APPLICATION \<Rightarrow> ''application'' | ERROR \<Rightarrow> ''error'' | AUDIT \<Rightarrow> ''audit'')"

definition HEALTH_PROBE_EVENT_TYPE :: string where
  "HEALTH_PROBE_EVENT_TYPE = ''LOGGING_CHAIN_PROBE''"

text \<open>A value of a record: a text or something else.\<close>

datatype json_value = JText string | JOther nat

type_synonym json_fields = "(string \<times> json_value) list"

record journal_filter =
  jf_event_type :: "string option"
  jf_account :: "string option"
  jf_remote_addr :: "string option"
  jf_short_code :: "string option"
  jf_since :: "string option"
  jf_until :: "string option"

definition no_filter :: journal_filter where
  "no_filter = \<lparr>jf_event_type = None, jf_account = None, jf_remote_addr = None, jf_short_code = None, jf_since = None, jf_until = None\<rparr>"

definition jf_is_empty :: "journal_filter \<Rightarrow> bool" where
  "jf_is_empty f \<longleftrightarrow> truthy (jf_event_type f) = None \<and> truthy (jf_account f) = None \<and> truthy (jf_remote_addr f) = None
     \<and> truthy (jf_short_code f) = None \<and> truthy (jf_since f) = None \<and> truthy (jf_until f) = None"

definition within_the_range :: "journal_filter \<Rightarrow> json_value option \<Rightarrow> bool" where
  "within_the_range f stamp =
     (if truthy (jf_since f) = None \<and> truthy (jf_until f) = None then True
      else case stamp of
        Some (JText t) \<Rightarrow>
          if (case truthy (jf_since f) of None \<Rightarrow> False | Some since \<Rightarrow> take (length since) t < since) then False
          else if (case truthy (jf_until f) of None \<Rightarrow> False | Some until \<Rightarrow> take (length until) t > until) then False
          else True
      | _ \<Rightarrow> False)"

definition asked_for :: "string option \<Rightarrow> json_fields \<Rightarrow> string list \<Rightarrow> bool" where
  "asked_for term fs names = (case truthy term of None \<Rightarrow> True | Some v \<Rightarrow> \<exists>n \<in> set names. map_of fs n = Some (JText v))"

definition jf_matches :: "journal_filter \<Rightarrow> json_fields \<Rightarrow> bool" where
  "jf_matches f fs =
     (if map_of fs ''event_type'' = Some (JText HEALTH_PROBE_EVENT_TYPE) \<and> jf_event_type f \<noteq> Some HEALTH_PROBE_EVENT_TYPE then False
      else if jf_is_empty f then True
      else if fs = [] then False
      else if \<not> asked_for (jf_event_type f) fs [''event_type''] then False
      else if \<not> asked_for (jf_account f) fs [''user_id'', ''target_user_id''] then False
      else if \<not> asked_for (jf_remote_addr f) fs [''remote_addr''] then False
      else if \<not> asked_for (jf_short_code f) fs [''short_code''] then False
      else within_the_range f (map_of fs ''timestamp''))"

record journal_line =
  jl_raw :: string
  jl_fields :: json_fields
  jl_parsed :: bool
  jl_source :: string

record journal_page =
  jp_lines :: "journal_line list"
  jp_total_scanned :: nat
  jp_reached_start :: bool
  jp_files_read :: "string list"
  jp_oldest_available :: "string option"

definition HARD_LIMIT :: nat where "HARD_LIMIT = 2000"

section \<open>The end of a file\<close>

definition BLOCK :: nat where "BLOCK = 64 * 1024"

definition SCAN_LIMIT :: nat where "SCAN_LIMIT = 50000"

definition newline :: char where "newline = char_of (10::nat)"

text \<open>The blocks of a file from its end, until more lines have ended than are wanted.\<close>

function read_back :: "string \<Rightarrow> nat \<Rightarrow> nat \<Rightarrow> string list \<Rightarrow> nat \<Rightarrow> string list \<times> nat" where
  "read_back content wanted position chunks newlines =
     (if position > 0 \<and> newlines \<le> wanted
      then let step = min BLOCK position;
               position1 = position - step;
               chunk = take step (drop position1 content)
           in read_back content wanted position1 (chunks @ [chunk]) (newlines + count_list chunk newline)
      else (chunks, position))"
  by pat_completeness auto
termination
  by (relation "measure (\<lambda>(content, wanted, position, chunks, newlines). position)") (auto simp: BLOCK_def)

declare read_back.simps [simp del]

definition without_trailing :: "string list \<Rightarrow> string list" where
  "without_trailing lines = (if lines \<noteq> [] \<and> last lines = [] then butlast lines else lines)"

definition last_ones :: "nat \<Rightarrow> 'a list \<Rightarrow> 'a list" where
  "last_ones n xs = drop (length xs - n) xs"

text \<open>A packed file is walked from the front with a window of the last lines.\<close>

fun window_over :: "nat \<Rightarrow> string list \<Rightarrow> string list \<Rightarrow> string list" where
  "window_over wanted window [] = window"
| "window_over wanted window (raw # rest) =
     window_over wanted (let w = window @ [raw] in if length w > wanted then tl w else w) rest"

definition is_packed :: "string \<Rightarrow> bool" where
  "is_packed name = endswith name ''.gz''"

definition lines_backwards :: "(string \<Rightarrow> string) \<Rightarrow> string \<Rightarrow> string \<Rightarrow> nat \<Rightarrow> string list \<times> bool" where
  "lines_backwards inflate name content wanted =
     (if is_packed name
      then (window_over wanted [] (without_trailing (split_on newline (inflate content))), True)
      else case read_back content wanted (length content) [] 0 of (chunks, position) \<Rightarrow>
        (let buffer = concat (rev chunks);
             reached_start = (position = 0);
             lines = without_trailing (split_on newline buffer)
         in (last_ones wanted lines, reached_start)))"

section \<open>The files of a journal\<close>

text \<open>A directory is the list of its files. What rotation leaves beside a journal has a number, and may be packed.\<close>

type_synonym log_dir = "(string \<times> string) list"

definition generation_of :: "string \<Rightarrow> string \<Rightarrow> nat option" where
  "generation_of live name =
     (if length live > 4 \<and> endswith live ''.log'' \<and> startswith name (live @ ''.'')
      then let rest = drop (length live + 1) name;
               digits = (if endswith rest ''.gz'' then take (length rest - 3) rest else rest)
           in if digits \<noteq> [] \<and> list_all is_digit digits then Some (nat (number_of 10 digits)) else None
      else None)"

definition archives_of :: "log_dir \<Rightarrow> string \<Rightarrow> string list" where
  "archives_of dir live =
     map snd (sort_key fst (sort_key snd (concat (map (\<lambda>name. case generation_of live name of None \<Rightarrow> [] | Some g \<Rightarrow> [(g, name)]) (map fst dir)))))"

definition parse_line :: "(string \<Rightarrow> json_fields option) \<Rightarrow> string \<Rightarrow> string \<Rightarrow> journal_line" where
  "parse_line loads source raw =
     (case loads raw of
        None \<Rightarrow> \<lparr>jl_raw = raw, jl_fields = [], jl_parsed = False, jl_source = source\<rparr>
      | Some fs \<Rightarrow> \<lparr>jl_raw = raw, jl_fields = fs, jl_parsed = True, jl_source = source\<rparr>)"

definition is_plain :: "journal_filter option \<Rightarrow> bool" where
  "is_plain sought = (case sought of None \<Rightarrow> True | Some f \<Rightarrow> jf_is_empty f)"

text \<open>
  The loop over the files. The result tells whether the loop was left early, which lines were
  collected, what was scanned and read, and whether the last file was read to its start.
\<close>

fun tail_loop ::
  "(string \<Rightarrow> string) \<Rightarrow> (string \<Rightarrow> json_fields option) \<Rightarrow> log_dir \<Rightarrow> journal_filter \<Rightarrow> nat \<Rightarrow> nat \<Rightarrow> string list
   \<Rightarrow> journal_line list \<Rightarrow> nat \<Rightarrow> string list \<Rightarrow> bool \<Rightarrow> bool \<times> journal_line list \<times> nat \<times> string list \<times> bool" where
  "tail_loop inflate loads dir f wanted budget [] collected scanned files reached = (False, collected, scanned, files, reached)"
| "tail_loop inflate loads dir f wanted budget (name # names) collected scanned files reached =
     (case map_of dir name of
        None \<Rightarrow> tail_loop inflate loads dir f wanted budget names collected scanned files reached
      | Some content \<Rightarrow>
          if budget \<le> scanned then (True, collected, scanned, files, reached)
          else case lines_backwards inflate name content (budget - scanned) of (lines, hit_start) \<Rightarrow>
            let files1 = files @ [name];
                scanned1 = scanned + length lines;
                collected1 = filter (\<lambda>l. jf_matches f (jl_fields l)) (map (parse_line loads name) lines) @ collected
            in if length collected1 \<ge> wanted \<or> scanned1 \<ge> budget then (True, collected1, scanned1, files1, False)
               else tail_loop inflate loads dir f wanted budget names collected1 scanned1 files1 hit_start)"

definition clamp_limit :: "int \<Rightarrow> nat" where
  "clamp_limit limit = nat (max 0 (min limit (int HARD_LIMIT)))"

definition tail_once ::
  "(string \<Rightarrow> string) \<Rightarrow> (string \<Rightarrow> json_fields option) \<Rightarrow> log_dir \<Rightarrow> string \<Rightarrow> int \<Rightarrow> bool \<Rightarrow> journal_filter option \<Rightarrow> bool \<Rightarrow> journal_page" where
  "tail_once inflate loads dir live limit include_archives sought deep =
     (let wanted = clamp_limit limit;
          looking_for = (case sought of None \<Rightarrow> no_filter | Some f \<Rightarrow> f);
          archives = archives_of dir live;
          oldest = (if archives = [] then None else Some (last archives))
      in if wanted = 0
         then \<lparr>jp_lines = [], jp_total_scanned = 0, jp_reached_start = False, jp_files_read = [], jp_oldest_available = oldest\<rparr>
         else let budget = (if deep \<or> \<not> is_plain sought then SCAN_LIMIT else wanted)
              in case tail_loop inflate loads dir looking_for wanted budget (live # (if include_archives then archives else [])) [] 0 [] False of
                   (left, collected, scanned, files, reached) \<Rightarrow>
                     \<lparr>jp_lines = last_ones wanted collected, jp_total_scanned = scanned,
                      jp_reached_start =
                        (if left then reached else if files = [] \<and> archives = [] then True else reached \<and> (include_archives \<or> archives = [])),
                      jp_files_read = files, jp_oldest_available = oldest\<rparr>)"

definition journal_tail ::
  "(string \<Rightarrow> string) \<Rightarrow> (string \<Rightarrow> json_fields option) \<Rightarrow> log_dir \<Rightarrow> string \<Rightarrow> int \<Rightarrow> bool \<Rightarrow> journal_filter option \<Rightarrow> journal_page" where
  "journal_tail inflate loads dir live limit include_archives sought =
     (let page = tail_once inflate loads dir live limit include_archives sought False;
          short = (length (jp_lines page) < clamp_limit limit)
      in if short \<and> \<not> jp_reached_start page \<and> is_plain sought
         then tail_once inflate loads dir live limit include_archives sought True else page)"

section \<open>Who may read\<close>

definition LOGS_VIEW :: string where
  "LOGS_VIEW = ''logs:view''"

definition PERMISSION_FOR :: "journal \<Rightarrow> string" where
  "PERMISSION_FOR j = (case j of AUDIT \<Rightarrow> AUDIT_VIEW | APPLICATION \<Rightarrow> LOGS_VIEW | ERROR \<Rightarrow> LOGS_VIEW)"

definition DEFAULT_LINES :: int where "DEFAULT_LINES = 200"

definition require_may_read_journal :: "journal \<Rightarrow> request_context \<Rightarrow> database \<Rightarrow> (exn, unit) result" where
  "require_may_read_journal j cx db =
     (let required = PERMISSION_FOR j
      in rbind (load_actor cx db) (\<lambda>requester.
           if is_allowed db requester required then Inr ()
           else if requester = None then Inl (Domain (DomainError ''Authentication required'' ''UNAUTHENTICATED''))
           else Inl (Domain (PermissionDeniedError ''Not authorized'' [required] [] None []))))"

record journal_viewed =
  jv_journal :: string
  jv_reason :: string
  jv_filters :: "(string \<times> string) list"

definition why_this_read_is_recorded :: "bool \<Rightarrow> bool \<Rightarrow> string" where
  "why_this_read_is_recorded searching archives = (if searching then ''searched'' else if archives then ''archives'' else ''opened'')"

definition terms_of :: "journal_filter option \<Rightarrow> (string \<times> string) list" where
  "terms_of sought =
     (case sought of
        None \<Rightarrow> []
      | Some f \<Rightarrow>
          concat (map (\<lambda>(name, value). case truthy value of None \<Rightarrow> [] | Some v \<Rightarrow> [(name, v)])
            [(''event_type'', jf_event_type f), (''account'', jf_account f), (''remote_addr'', jf_remote_addr f),
             (''short_code'', jf_short_code f), (''since'', jf_since f), (''until'', jf_until f)]))"

definition record_the_read :: "journal \<Rightarrow> bool \<Rightarrow> bool \<Rightarrow> journal_filter option \<Rightarrow> journal_viewed list" where
  "record_the_read j include_archives following sought =
     (let searching = (case sought of None \<Rightarrow> False | Some f \<Rightarrow> \<not> jf_is_empty f)
      in if following then []
         else [\<lparr>jv_journal = journal_value j, jv_reason = why_this_read_is_recorded searching include_archives, jv_filters = terms_of sought\<rparr>])"

definition read_journal ::
  "(journal \<Rightarrow> string) \<Rightarrow> (string \<Rightarrow> string) \<Rightarrow> (string \<Rightarrow> json_fields option) \<Rightarrow> log_dir \<Rightarrow> journal \<Rightarrow> request_context \<Rightarrow> int \<Rightarrow> bool \<Rightarrow> bool
   \<Rightarrow> journal_filter option \<Rightarrow> database \<Rightarrow> (exn, journal_page) result \<times> journal_viewed list" where
  "read_journal file_names inflate loads dir j cx limit include_archives following sought db =
     (case require_may_read_journal j cx db of
        Inl e \<Rightarrow> (Inl e, [])
      | Inr _ \<Rightarrow>
          (Inr (journal_tail inflate loads dir (file_names j @ ''.log'') limit include_archives sought),
           record_the_read j include_archives following sought))"

section \<open>Lemmas: the last ones of a list\<close>

lemma last_ones_all: "length xs \<le> n \<Longrightarrow> last_ones n xs = xs"
  by (simp add: last_ones_def)

lemma last_ones_append: "last_ones n (xs @ ys) = last_ones (n - length ys) xs @ last_ones n ys"
  by (cases "n \<le> length ys") (simp_all add: last_ones_def)

lemma length_last_ones [simp]: "length (last_ones n xs) = min n (length xs)"
  by (simp add: last_ones_def)

lemma last_ones_long: "n \<le> length ys \<Longrightarrow> last_ones n (xs @ ys) = last_ones n ys"
  by (simp add: last_ones_append) (simp add: last_ones_def)

lemma last_ones_map: "last_ones n (map f xs) = map f (last_ones n xs)"
  by (simp add: last_ones_def drop_map)

lemma last_ones_suffix: "\<exists>ys. xs = ys @ last_ones n xs"
  unfolding last_ones_def by (metis append_take_drop_id)

lemma last_ones_last_ones: "n \<le> k \<Longrightarrow> last_ones n (last_ones k xs) = last_ones n xs"
proof -
  assume "n \<le> k"
  then have "length xs - (length xs - k) - n + (length xs - k) = length xs - n" by arith
  then show ?thesis by (simp add: last_ones_def drop_drop)
qed

text \<open>Looking further does not change a page that is already full.\<close>

lemma last_ones_filter_enough:
  assumes "n \<le> k" and "w \<le> length (filter P (last_ones n xs))"
  shows "last_ones w (filter P (last_ones k xs)) = last_ones w (filter P (last_ones n xs))"
proof -
  obtain ys where "last_ones k xs = ys @ last_ones n xs" using last_ones_suffix [of "last_ones k xs" n] last_ones_last_ones [OF assms(1)] by metis
  then show ?thesis using assms(2) by (simp add: last_ones_long)
qed

section \<open>Lemmas: the lines of a file\<close>

definition file_lines :: "(string \<Rightarrow> string) \<Rightarrow> string \<Rightarrow> string \<Rightarrow> string list" where
  "file_lines inflate name content = without_trailing (split_on newline (if is_packed name then inflate content else content))"

lemma window_over_is_last: "length window \<le> wanted \<Longrightarrow> window_over wanted window lines = last_ones wanted (window @ lines)"
proof (induction lines arbitrary: window)
  case (Cons raw rest)
  show ?case
  proof (cases "length window < wanted")
    case True
    then show ?thesis using Cons.IH [of "window @ [raw]"] by (simp add: Let_def)
  next
    case False
    then have full: "length window = wanted" using Cons.prems by simp
    let ?w = "tl (window @ [raw])"
    have l: "length ?w = wanted" using full by simp
    have "last_ones wanted (window @ raw # rest) = last_ones wanted (tl (window @ [raw]) @ rest)"
      using full by (cases window) (auto simp: last_ones_def)
    then show ?thesis using Cons.IH [of ?w] l full by (simp add: Let_def)
  qed
qed (simp add: last_ones_all)

lemma read_back_suffix:
  assumes "concat (rev chunks) = drop position content" and "newlines = count_list (drop position content) newline"
    and "position \<le> length content" and "read_back content wanted position chunks newlines = (chunks1, position1)"
  shows "concat (rev chunks1) = drop position1 content \<and> position1 \<le> length content
    \<and> (position1 = 0 \<or> wanted < count_list (drop position1 content) newline)"
  using assms
proof (induction content wanted position chunks newlines rule: read_back.induct)
  case (1 content wanted position chunks newlines)
  show ?case
  proof (cases "position > 0 \<and> newlines \<le> wanted")
    case True
    define step where "step = min BLOCK position"
    define chunk where "chunk = take step (drop (position - step) content)"
    have split: "drop (position - step) content = chunk @ drop position content"
    proof -
      have "step \<le> position" by (simp add: step_def)
      then show ?thesis unfolding chunk_def using append_take_drop_id [of step "drop (position - step) content"] by (simp add: drop_drop)
    qed
    have "read_back content wanted (position - step) (chunks @ [chunk]) (newlines + count_list chunk newline) = (chunks1, position1)"
      using 1(5) True by (subst (asm) read_back.simps) (simp add: Let_def step_def chunk_def)
    then show ?thesis
      using 1(1) [OF True step_def refl chunk_def] 1(2-4) by (simp add: split)
  next
    case False
    then show ?thesis using 1(2-5) read_back.simps [of content wanted position chunks newlines] by auto
  qed
qed

lemma split_on_length: "length (split_on sep s) = count_list s sep + 1"
  by (induction s) (auto split: list.splits)

lemma split_on_append: "split_on sep (a @ b) = butlast (split_on sep a) @ (last (split_on sep a) @ hd (split_on sep b)) # tl (split_on sep b)"
proof (induction a)
  case (Cons c a)
  then show ?case by (cases "split_on sep a"; cases "tl (split_on sep a)") (auto split: list.splits)
qed simp

lemma without_trailing_length: "length xs - 1 \<le> length (without_trailing xs)" "length (without_trailing xs) \<le> length xs"
  by (simp_all add: without_trailing_def)

lemma without_trailing_append: "ys \<noteq> [] \<Longrightarrow> without_trailing (xs @ ys) = xs @ without_trailing ys"
  by (auto simp: without_trailing_def butlast_append)

lemma torn_line_is_cut_off:
  assumes "wanted < count_list b newline"
  shows "last_ones wanted (without_trailing (split_on newline (a @ b))) = last_ones wanted (without_trailing (split_on newline b))"
proof -
  let ?t = "tl (split_on newline b)"
  have len: "length ?t = count_list b newline" by (simp add: split_on_length)
  then have ne: "?t \<noteq> []" using assms by (metis length_0_conv not_less_zero)
  have b: "split_on newline b = [hd (split_on newline b)] @ ?t" by simp
  have enough: "wanted \<le> length (without_trailing ?t)" using without_trailing_length(1) [of ?t] len assms by linarith
  have "without_trailing (split_on newline (a @ b)) = (butlast (split_on newline a) @ [last (split_on newline a) @ hd (split_on newline b)]) @ without_trailing ?t"
    unfolding split_on_append using without_trailing_append [OF ne, of "butlast (split_on newline a) @ [last (split_on newline a) @ hd (split_on newline b)]"] by simp
  moreover have "without_trailing (split_on newline b) = [hd (split_on newline b)] @ without_trailing ?t"
    using without_trailing_append [OF ne, of "[hd (split_on newline b)]"] b by simp
  ultimately show ?thesis by (simp only: last_ones_long [OF enough])
qed

lemma lines_backwards_are_the_last:
  assumes "lines_backwards inflate name content wanted = (lines, hit_start)"
  shows "lines = last_ones wanted (file_lines inflate name content)" and "hit_start \<or> wanted \<le> length lines"
proof -
  have "lines = last_ones wanted (file_lines inflate name content) \<and> (hit_start \<or> wanted \<le> length lines)"
  proof (cases "is_packed name")
    case True
    then show ?thesis using assms window_over_is_last [of "[]" wanted] by (auto simp: lines_backwards_def file_lines_def)
  next
    case False
    obtain chunks position where r: "read_back content wanted (length content) [] 0 = (chunks, position)" by (rule prod.exhaust)
    from read_back_suffix [OF _ _ _ r]
    have s: "concat (rev chunks) = drop position content" "position = 0 \<or> wanted < count_list (drop position content) newline" by simp_all
    have l: "lines = last_ones wanted (without_trailing (split_on newline (drop position content)))" "hit_start = (position = 0)"
      using assms False r s(1) by (auto simp: lines_backwards_def Let_def)
    show ?thesis
    proof (cases "position = 0")
      case False
      then have c: "wanted < count_list (drop position content) newline" using s(2) by simp
      have "lines = last_ones wanted (without_trailing (split_on newline content))"
        using torn_line_is_cut_off [OF c, of "take position content"] l(1) by simp
      moreover have "wanted \<le> length lines"
        using l(1) c without_trailing_length(1) [of "split_on newline (drop position content)"] by (simp add: split_on_length)
      ultimately show ?thesis using \<open>\<not> is_packed name\<close> by (simp add: file_lines_def)
    qed (use l \<open>\<not> is_packed name\<close> in \<open>simp add: file_lines_def\<close>)
  qed
  then show "lines = last_ones wanted (file_lines inflate name content)" and "hit_start \<or> wanted \<le> length lines" by blast+
qed

lemma lines_backwards_short:
  assumes "length (file_lines inflate name content) < wanted"
  shows "lines_backwards inflate name content wanted = (file_lines inflate name content, True)"
proof -
  obtain lines hit_start where lb: "lines_backwards inflate name content wanted = (lines, hit_start)" by (rule prod.exhaust)
  from lines_backwards_are_the_last [OF lb] assms show ?thesis by (auto simp: lb last_ones_all)
qed

section \<open>Lemmas: the files of a journal\<close>

text \<open>The records of some files, given newest file first, in the order in which they were written.\<close>

definition records_of :: "(string \<Rightarrow> string) \<Rightarrow> (string \<Rightarrow> json_fields option) \<Rightarrow> log_dir \<Rightarrow> string \<Rightarrow> journal_line list" where
  "records_of inflate loads dir name =
     (case map_of dir name of None \<Rightarrow> [] | Some content \<Rightarrow> map (parse_line loads name) (file_lines inflate name content))"

definition journal_records :: "(string \<Rightarrow> string) \<Rightarrow> (string \<Rightarrow> json_fields option) \<Rightarrow> log_dir \<Rightarrow> string list \<Rightarrow> journal_line list" where
  "journal_records inflate loads dir names = concat (map (records_of inflate loads dir) (rev names))"

lemma tail_loop_files:
  "tail_loop inflate loads dir f wanted budget names collected scanned files reached = (left, collected1, scanned1, files1, reached1) \<Longrightarrow> \<exists>more. files1 = files @ more"
proof (induction names arbitrary: collected scanned files reached)
  case (Cons name names)
  then show ?case by (fastforce simp: Let_def split: option.splits if_splits prod.splits)
qed simp

lemma tail_loop_spec:
  assumes "tail_loop inflate loads dir f wanted budget names collected scanned files reached = (left, collected1, scanned1, files1, reached1)"
    and "scanned < budget" and "length collected < wanted"
  shows "last_ones wanted collected1 =
      last_ones wanted (filter (\<lambda>l. jf_matches f (jl_fields l)) (last_ones (budget - scanned) (journal_records inflate loads dir names)) @ collected)
    \<and> scanned1 \<le> budget \<and> (left \<longrightarrow> \<not> reached1)
    \<and> (\<not> left \<longrightarrow> scanned1 = scanned + length (journal_records inflate loads dir names) \<and> length collected1 < wanted \<and> scanned1 < budget
         \<and> (files1 = [] \<longrightarrow> journal_records inflate loads dir names = [])
         \<and> collected1 = filter (\<lambda>l. jf_matches f (jl_fields l)) (journal_records inflate loads dir names) @ collected)"
  using assms
proof (induction names arbitrary: collected scanned files reached)
  case Nil
  then show ?case by (auto simp: journal_records_def last_ones_def)
next
  case (Cons name names)
  let ?m = "\<lambda>l. jf_matches f (jl_fields l)" and ?rest = "journal_records inflate loads dir names"
  have all: "journal_records inflate loads dir (name # names) = ?rest @ records_of inflate loads dir name" by (simp add: journal_records_def)
  show ?case
  proof (cases "map_of dir name")
    case None
    then have same: "journal_records inflate loads dir (name # names) = ?rest" by (simp add: all records_of_def)
    have "tail_loop inflate loads dir f wanted budget names collected scanned files reached = (left, collected1, scanned1, files1, reached1)"
      using Cons.prems(1) None by simp
    from Cons.IH [OF this Cons.prems(2,3)] show ?thesis unfolding same .
  next
    case (Some content)
    obtain lines hit_start where lb: "lines_backwards inflate name content (budget - scanned) = (lines, hit_start)" by (rule prod.exhaust)
    let ?L = "file_lines inflate name content" and ?recs = "map (parse_line loads name) (file_lines inflate name content)"
    have lines: "map (parse_line loads name) lines = last_ones (budget - scanned) ?recs" and len: "length lines = min (budget - scanned) (length ?recs)"
      using lines_backwards_are_the_last(1) [OF lb] by (simp_all add: last_ones_map)
    let ?c = "filter ?m (map (parse_line loads name) lines) @ collected"
    have read: "filter ?m (last_ones (budget - scanned) (?rest @ ?recs)) @ collected
        = filter ?m (last_ones (budget - scanned - length ?recs) ?rest) @ ?c"
      by (simp add: last_ones_append lines)
    have recs: "records_of inflate loads dir name = ?recs" by (simp add: records_of_def Some)
    show ?thesis
    proof (cases "length ?c \<ge> wanted \<or> scanned + length lines \<ge> budget")
      case True
      then have res: "left" "collected1 = ?c" "scanned1 = scanned + length lines" "\<not> reached1"
        using Cons.prems(1,2) by (auto simp: Some lb Let_def split: if_splits)
      have "last_ones wanted ?c = last_ones wanted (filter ?m (last_ones (budget - scanned - length ?recs) ?rest) @ ?c)"
      proof (cases "length ?c \<ge> wanted")
        case True
        then show ?thesis by (rule last_ones_long [symmetric])
      next
        case False
        then have "budget - scanned - length ?recs = 0" using \<open>length ?c \<ge> wanted \<or> scanned + length lines \<ge> budget\<close> len by linarith
        then show ?thesis by (simp add: last_ones_def)
      qed
      then show ?thesis using res len Cons.prems(2) by (simp add: all recs read del: filter_append)
    next
      case False
      then have short: "length ?recs < budget - scanned" "length lines = length ?recs" "lines = ?L" "scanned + length lines < budget" "length ?c < wanted"
        using len lines_backwards_are_the_last(1) [OF lb] by (auto simp: last_ones_all)
      have t: "tail_loop inflate loads dir f wanted budget names ?c (scanned + length lines) (files @ [name]) hit_start = (left, collected1, scanned1, files1, reached1)"
        using Cons.prems(1,2) False by (simp add: Some lb Let_def)
      have b: "budget - (scanned + length lines) = budget - scanned - length ?recs" using short(2) by simp
      have c: "filter ?m (?rest @ ?recs) @ collected = filter ?m ?rest @ ?c" by (simp add: short(3))
      have "files1 \<noteq> []" using tail_loop_files [OF t] by auto
      moreover have "scanned + length lines + length ?rest = scanned + length (?rest @ ?recs)" using short(2) by simp
      ultimately show ?thesis unfolding all recs read c using Cons.IH [OF t short(4,5)] unfolding b by (metis (no_types, lifting))
    qed
  qed
qed

text \<open>One read: the end of what it may look at, and everything there is when it says so.\<close>

lemma tail_once_spec:
  fixes inflate loads dir live limit include_archives sought deep
  defines "page \<equiv> tail_once inflate loads dir live limit include_archives sought deep"
    and "m \<equiv> \<lambda>l. jf_matches (case sought of None \<Rightarrow> no_filter | Some f \<Rightarrow> f) (jl_fields l)"
    and "budget \<equiv> if deep \<or> \<not> is_plain sought then SCAN_LIMIT else clamp_limit limit"
    and "files \<equiv> live # (if include_archives then archives_of dir live else [])"
  shows "jp_lines page = last_ones (clamp_limit limit) (filter m (last_ones budget (journal_records inflate loads dir files)))"
    and "jp_total_scanned page \<le> budget"
    and "jp_reached_start page \<Longrightarrow> jp_lines page = filter m (journal_records inflate loads dir (live # archives_of dir live))
      \<and> jp_total_scanned page = length (journal_records inflate loads dir (live # archives_of dir live))
      \<and> journal_records inflate loads dir files = journal_records inflate loads dir (live # archives_of dir live)
      \<and> length (journal_records inflate loads dir files) \<le> budget"
proof -
  let ?w = "clamp_limit limit" and ?R = "journal_records inflate loads dir files"
  let ?claim = "jp_lines page = last_ones ?w (filter m (last_ones budget ?R)) \<and> jp_total_scanned page \<le> budget
    \<and> (jp_reached_start page \<longrightarrow> jp_lines page = filter m (journal_records inflate loads dir (live # archives_of dir live))
      \<and> jp_total_scanned page = length (journal_records inflate loads dir (live # archives_of dir live))
      \<and> ?R = journal_records inflate loads dir (live # archives_of dir live) \<and> length ?R \<le> budget)"
  have ?claim
  proof (cases "?w = 0")
    case True
    then show ?thesis by (simp add: page_def tail_once_def last_ones_def Let_def)
  next
    case False
    obtain left collected scanned read reached where t: "tail_loop inflate loads dir (case sought of None \<Rightarrow> no_filter | Some f \<Rightarrow> f) ?w budget files [] 0 [] False
        = (left, collected, scanned, read, reached)" by (metis prod_cases5)
    have b: "0 < budget" "(0::nat) < ?w" using False by (simp_all add: budget_def SCAN_LIMIT_def)
    note spec = tail_loop_spec [OF t b(1), simplified, OF b(2)[simplified]]
    have page: "jp_lines page = last_ones ?w collected" "jp_total_scanned page = scanned"
      "jp_reached_start page = (if left then reached else if read = [] \<and> archives_of dir live = [] then True
        else reached \<and> (include_archives \<or> archives_of dir live = []))"
      using t False by (simp_all add: page_def tail_once_def Let_def budget_def files_def)
    have c: "last_ones ?w collected = last_ones ?w (filter m (last_ones budget ?R))" "scanned \<le> budget" "left \<longrightarrow> \<not> reached"
      "\<not> left \<longrightarrow> scanned = length ?R \<and> length collected < ?w \<and> scanned < budget \<and> (read = [] \<longrightarrow> ?R = []) \<and> collected = filter m ?R"
      unfolding m_def using spec by blast+
    have "?R = journal_records inflate loads dir (live # archives_of dir live)" "\<not> left" if "jp_reached_start page"
    proof -
      show nl: "\<not> left" using that c(3) page(3) by (auto split: if_splits)
      show "?R = journal_records inflate loads dir (live # archives_of dir live)"
        using that page(3) nl by (cases "include_archives \<or> archives_of dir live = []") (auto simp: files_def)
    qed
    moreover have "last_ones ?w collected = collected" if "\<not> left" by (rule last_ones_all) (use c(4) that in linarith)
    ultimately show ?thesis using c(1,2,4) unfolding page(1,2) by auto
  qed
  then show "jp_lines page = last_ones ?w (filter m (last_ones budget ?R))" "jp_total_scanned page \<le> budget"
    "jp_reached_start page \<Longrightarrow> jp_lines page = filter m (journal_records inflate loads dir (live # archives_of dir live))
      \<and> jp_total_scanned page = length (journal_records inflate loads dir (live # archives_of dir live))
      \<and> ?R = journal_records inflate loads dir (live # archives_of dir live) \<and> length ?R \<le> budget"
    by blast+
qed

lemma clamp_limit_small: "clamp_limit limit \<le> HARD_LIMIT" "clamp_limit limit \<le> SCAN_LIMIT"
  by (auto simp: clamp_limit_def HARD_LIMIT_def SCAN_LIMIT_def)

section \<open>Lemmas: who reads\<close>

text \<open>
  A page is handed out only to whom the permission of that journal is granted, and a read
  leaves one record unless it continues another; a refused read shows and records nothing.
\<close>

lemma read_journal_entitled:
  assumes "fst (read_journal file_names inflate loads dir j cx limit include_archives following sought db) = Inr page"
  shows "\<exists>u. load_actor cx db = Inr u \<and> is_allowed db u (PERMISSION_FOR j)"
    and "length (snd (read_journal file_names inflate loads dir j cx limit include_archives following sought db)) = (if following then 0 else 1)"
  using assms
  by (auto simp: read_journal_def require_may_read_journal_def record_the_read_def Let_def result_simps split: sum.splits if_splits)

lemma read_journal_refused:
  assumes "load_actor cx db = Inr u" and "\<not> is_allowed db u (PERMISSION_FOR j)"
  shows "\<exists>d. read_journal file_names inflate loads dir j cx limit include_archives following sought db = (Inl (Domain d), [])
    \<and> err_code d = (if u = None then ''UNAUTHENTICATED'' else ''FORBIDDEN'')"
  using assms by (simp add: read_journal_def require_may_read_journal_def DomainError_def PermissionDeniedError_def base_error_def Let_def)

section \<open>Properties\<close>


text \<open>Two lines of a rotated file behind one of the live file; the last two lines are asked for.\<close>

definition sample_dir :: log_dir where
  "sample_dir = [(''audit.log'', ''c'' @ [newline]), (''audit.log.1'', ''a'' @ [newline] @ ''b'' @ [newline]), (''error.log'', [])]"


end
