(* ===== verification/Session_Runs.thy ===== *)
theory Session_Runs
  imports Sessions
begin

text \<open>
  Histories of logins. What every step of the specification keeps holds along every history
  of transactions; from that, that a login has one good refresh token, that a token is
  exchanged once, that a replay and a sign-out end a login for good, and that the tokens of
  a login work until then. The last part builds a concrete history with a concrete token
  library, on which the theorems are applied.
\<close>

section \<open>Histories\<close>

lemma session_run_ok:
  assumes "session_run ac st st'" and "sessions_ok (snd st) (db_sessions (fst st))"
  shows "sessions_ok (snd st') (db_sessions (fst st')) \<and> snd st \<subseteq> snd st'"
  using assms
proof (induction rule: session_run.induct)
  case (more st db used op)
  then have "sessions_ok used (db_sessions db)" "snd st \<subseteq> used" by simp_all
  then show ?case using chain_step_ok [OF session_do_refines _ more.hyps(2)] more.hyps(2) by auto
qed simp

lemma session_reachable_ok:
  "session_reachable ac (db, used) \<Longrightarrow> sessions_ok used (db_sessions db)"
proof -
  assume "session_reachable ac (db, used)"
  then obtain db0 where db0: "db_sessions db0 = []" "session_run ac (db0, {[]}) (db, used)"
    unfolding session_reachable_def by (elim exE conjE)
  have "sessions_ok {[]} (db_sessions db0)" by (simp add: sessions_ok_def db0(1))
  then show ?thesis using session_run_ok [OF db0(2)] by simp
qed

text \<open>What every step of the specification keeps is kept along every history.\<close>

locale session_law =
  fixes P :: "ident \<Rightarrow> refresh_session list \<Rightarrow> bool"
  assumes step: "chain_step new ss ss' \<Longrightarrow> k \<notin> new \<Longrightarrow> P k ss \<Longrightarrow> P k ss'"
begin

lemma along:
  assumes run: "session_run ac st st'" and ok: "sessions_ok (snd st) (db_sessions (fst st))"
    and k: "k \<in> snd st" and start: "P k (db_sessions (fst st))"
  shows "P k (db_sessions (fst st'))"
  using run ok k start
proof (induction rule: session_run.induct)
  case (more st db used op)
  have ok: "sessions_ok used (db_sessions db)" and sub: "snd st \<subseteq> used"
    using session_run_ok [OF more.hyps(1) more.prems(1)] by simp_all
  have "k \<notin> drawn op" using sub more.prems(2) more.hyps(2) by auto
  moreover have "P k (db_sessions db)" using more.IH more.prems by simp
  ultimately show ?case using step [OF session_do_refines [OF ok more.hyps(2)]] by simp
qed simp

end

interpretation dead: session_law chain_dead
  by unfold_locales (rule chain_step_dead)

interpretation spent: session_law token_spent
  by unfold_locales (rule chain_step_spent)

lemma revoked_chain_is_dead: "chain_dead c (revoke_rows now (\<lambda>s. rs_chain_id s = c) ss)"
  unfolding chain_dead_def
proof (intro ballI impI)
  fix r assume "r \<in> set (revoke_rows now (\<lambda>s. rs_chain_id s = c) ss)" and c: "rs_chain_id r = c"
  from this(1) show "rs_revoked_at r \<noteq> None"
  proof (rule in_revoke_rows)
    fix s assume "rs_chain_id r = rs_chain_id s"
      "r = (if rs_chain_id s = c \<and> rs_revoked_at s = None then s\<lparr>rs_revoked_at := Some now\<rparr> else s)"
    with c show ?thesis by (cases "rs_revoked_at s") simp_all
  qed
qed

lemma dead_chain_not_live: "chain_dead c (db_sessions db) \<Longrightarrow> \<not> chain_is_live now c db"
  by (auto simp: chain_dead_def chain_is_live_def list_ex_iff)

lemma load_current_user_live:
  assumes "load_current_user ac now rq db = Inr (Some si)"
  shows "chain_is_live now (si_session_id si) db"
  using assms unfolding load_current_user_def
  by (auto simp: Let_def split: option.splits if_splits prod.splits sum.splits exn.splits)

lemma replay_ends_chain:
  assumes "validate_token ac now token ''refresh'' = Some p" and "cl_jti p = Some t" and "t \<noteq> []" and "cl_sub p \<noteq> []"
    and "find_by_token_id t db = Some s" and "rs_user_id s = cl_sub p" and "rs_replaced_by s \<noteq> None"
  shows "refresh_session_use_case ac now i t' token context db =
    (Inr None, snd (revoke_chain now (rs_chain_id s) db), if context = None then [] else [RefreshTokenReplayed (cl_sub p) (rs_chain_id s)])"
proof -
  have "truthy (cl_jti p) = Some t" by (simp add: truthy_Some assms)
  moreover have "\<not> session_is_usable now s" using assms(7) by (simp add: session_is_usable_def)
  ultimately have "refresh_access_token ac now i t' token db =
      (Inl (Domain (RefreshTokenReplayedError (cl_sub p) (rs_chain_id s))), snd (revoke_chain now (rs_chain_id s) db))"
    using assms by (simp add: refresh_access_token_def)
  then show ?thesis by (simp add: refresh_session_use_case_def RefreshTokenReplayedError_def base_error_def)
qed

lemma refresh_of_spent_token:
  assumes "token_spent t (db_sessions db)" and "validate_token ac now token ''refresh'' = Some p" and "cl_jti p = Some t"
  shows "fst (refresh_access_token ac now i t' token db) \<noteq> Inr (Some r)"
proof
  assume r: "fst (refresh_access_token ac now i t' token db) = Inr (Some r)"
  obtain q db' where run: "refresh_access_token ac now i t' token db = (q, db')" by (rule prod.exhaust)
  from run show False
  proof (cases rule: refresh_access_token_cases)
    case (rotated p' s u db1)
    then have "rs_token_id s = t" using assms(2,3) find_by_token_id_Some [OF rotated(2)] by simp
    with claim_spent [OF assms(1)] rotated(7) show False by (metis fst_conv)
  qed (use r run in auto)
qed

lemma find_user_same:
  assumes "db_users db' = db_users db" "db_roles db' = db_roles db" "db_permissions db' = db_permissions db"
  shows "find_user P db' = find_user P db"
proof -
  have "role_to_domain db' = role_to_domain db" using assms by (simp add: role_to_domain_def fun_eq_iff)
  then have "user_to_domain db' = user_to_domain db"
    using assms by (intro ext) (simp add: user_to_domain_def user_roles_def)
  then show ?thesis using assms(1) by (simp add: find_user_def split: option.split)
qed

lemma find_user_by_id_sessions [simp]: "find_user_by_id i (db\<lparr>db_sessions := ss\<rparr>) = find_user_by_id i db"
  unfolding find_user_by_id_def by (rule find_user_same) simp_all

section \<open>Properties\<close>

text \<open>PyJWT reads the same claims off a token at any time it accepts it.\<close>

definition jwt_stable :: "auth_config \<Rightarrow> bool" where
  "jwt_stable ac \<longleftrightarrow> (\<forall>now now' token p p'. ac_decode ac now token = Some p \<longrightarrow> ac_decode ac now' token = Some p' \<longrightarrow> p = p')"


text \<open>
  C9. In every state a history of sign-ins, refreshes, sign-outs, revocations and sweeps
  reaches, a login has at most one refresh token that is still good, and all of its rows
  belong to one account.
\<close>

theorem one_refresh_token_per_login:
  assumes "session_reachable ac (db, used)"
  shows "length (filter (\<lambda>s. rs_chain_id s = c \<and> session_is_usable now s) (db_sessions db)) \<le> 1
    \<and> (\<forall>s \<in> set (db_sessions db). \<forall>s' \<in> set (db_sessions db). rs_chain_id s = rs_chain_id s' \<longrightarrow> rs_user_id s = rs_user_id s')"
proof
  have ok: "sessions_ok used (db_sessions db)" by (rule session_reachable_ok [OF assms])
  let ?us = "filter (\<lambda>s. rs_chain_id s = c \<and> session_is_usable now s) (db_sessions db)"
  have "distinct (db_sessions db)" using ok by (simp add: sessions_ok_def distinct_map)
  then have d: "distinct ?us" by simp
  have "s = s'" if "s \<in> set ?us" "s' \<in> set ?us" for s s'
    using that by (intro sessions_ok_same(2) [OF ok]) (simp_all add: session_is_usable_def)
  then have "card (set ?us) \<le> Suc 0" unfolding card_le_Suc0_iff_eq [OF List.finite_set] by (intro ballI)
  then show "length ?us \<le> 1" using distinct_card [OF d] by simp
  show "\<forall>s \<in> set (db_sessions db). \<forall>s' \<in> set (db_sessions db). rs_chain_id s = rs_chain_id s' \<longrightarrow> rs_user_id s = rs_user_id s'"
    using sessions_ok_same(1) [OF ok] by metis
qed

text \<open>
  C7. Presenting a refresh token that was already exchanged ends the login it belongs to,
  in whatever state the token is replayed: the caller is refused, the replay is recorded,
  and from then on, whatever happens next, the login is not live and no request is signed
  in by an access token of it.
\<close>

theorem replay_ends_the_login:
  assumes reach: "session_reachable ac (db, used)"
    and token: "validate_token ac now token ''refresh'' = Some p" "cl_jti p = Some t" "t \<noteq> []" "cl_sub p \<noteq> []"
    and row: "find_by_token_id t db = Some s" "rs_user_id s = cl_sub p" "rs_replaced_by s \<noteq> None"
    and new: "i \<notin> used" "t' \<notin> used"
    and later: "session_run ac (session_do ac (RefreshSession now i t' token (Some cx)) db, used \<union> {i, t'}) (db', used')"
  shows "refresh_session_use_case ac now i t' token (Some cx) db =
           (Inr None, session_do ac (RefreshSession now i t' token (Some cx)) db, [RefreshTokenReplayed (cl_sub p) (rs_chain_id s)])
    \<and> \<not> chain_is_live now' (rs_chain_id s) db'
    \<and> (\<forall>rq si. load_current_user ac now' rq db' = Inr (Some si) \<longrightarrow> si_session_id si \<noteq> rs_chain_id s)"
proof -
  note use_case = replay_ends_chain [OF token row, of i t' "Some cx"]
  let ?db1 = "session_do ac (RefreshSession now i t' token (Some cx)) db"
  have db1: "?db1 = snd (revoke_chain now (rs_chain_id s) db)" by (simp add: session_do_def use_case)
  have ok: "sessions_ok used (db_sessions db)" by (rule session_reachable_ok [OF reach])
  have step: "sessions_ok (used \<union> {i, t'}) (db_sessions ?db1)"
    using chain_step_ok [OF session_do_refines [OF ok, of "RefreshSession now i t' token (Some cx)" ac] ok] new by simp
  have s: "s \<in> set (db_sessions db)" using find_by_token_id_Some [OF row(1)] by simp
  have "chain_dead (rs_chain_id s) (db_sessions ?db1)" unfolding db1 revoke_chain_rows by (rule revoked_chain_is_dead)
  then have "chain_dead (rs_chain_id s) (db_sessions db')"
    using dead.along [OF later, of "rs_chain_id s"] step sessions_okD(3) [OF ok s] by simp
  then have dead: "\<not> chain_is_live now' (rs_chain_id s) db'" by (rule dead_chain_not_live)
  then have "\<forall>rq si. load_current_user ac now' rq db' = Inr (Some si) \<longrightarrow> si_session_id si \<noteq> rs_chain_id s"
    by (metis load_current_user_live)
  with dead show ?thesis by (simp add: use_case db1)
qed

text \<open>
  C8. A refresh token is exchanged once. After the exchange succeeded, no later one with the
  same token does, whatever happens in between; and a request that had read the token's row
  before the exchange loses too, because its claim of the row fails.
\<close>

theorem refresh_token_is_spent_once:
  assumes reach: "session_reachable ac (db, used)" and jwt: "jwt_stable ac"
    and token: "validate_token ac now token ''refresh'' = Some p" "cl_jti p = Some t"
    and new: "i \<notin> used" "t1 \<notin> used"
    and won: "refresh_access_token ac now i t1 token db = (Inr (Some r), db1)"
    and later: "session_run ac (db1, used \<union> {i, t1}) (db2, used2)"
  shows "fst (refresh_access_token ac now2 i2 t2 token db2) \<noteq> Inr (Some r2)
    \<and> \<not> fst (claim_for_rotation now2 t t2 db2)"
proof -
  have ok: "sessions_ok used (db_sessions db)" by (rule session_reachable_ok [OF reach])
  note step = chain_step_ok [OF refresh_is_chain_step [OF ok new won] ok]
  have "t \<in> used \<and> token_spent t (db_sessions db1)" using won
  proof (cases rule: refresh_access_token_cases)
    case (rotated p' s u db0)
    have s: "s \<in> set (db_sessions db)" "rs_token_id s = t"
      using find_by_token_id_Some [OF rotated(2)] rotated(1) token by simp_all
    have "token_spent t (spend_rows (rs_token_id s) t1 (db_sessions db))" unfolding s(2) by (rule spend_rows_spent)
    moreover have "t \<noteq> t1" using sessions_okD(2) [OF ok s(1)] s(2) new(2) by metis
    ultimately have "token_spent t (db_sessions db1)"
      unfolding rotated_rows [OF ok new(1) s(1) rotated(3,7,8)] token_spent_def by auto
    then show ?thesis using sessions_okD(2) [OF ok s(1)] s(2) by simp
  qed simp_all
  then have spent: "token_spent t (db_sessions db2)"
    using spent.along [OF later, of t] step new by simp
  have "fst (refresh_access_token ac now2 i2 t2 token db2) \<noteq> Inr (Some r2)"
  proof (cases "validate_token ac now2 token ''refresh''")
    case None then show ?thesis by (simp add: refresh_access_token_def)
  next
    case (Some p2)
    have "ac_decode ac now2 token = Some p2" "ac_decode ac now token = Some p"
      using Some token(1) by (simp_all add: validate_token_def split: option.splits if_splits)
    then have "p2 = p" using jwt unfolding jwt_stable_def by blast
    with Some token(2) show ?thesis by (intro refresh_of_spent_token [OF spent]) simp_all
  qed
  then show ?thesis using claim_spent [OF spent] by simp
qed

text \<open>
  PyJWT reads back what it wrote: the claims the sources use, as long as the token has at
  least a second to live (it keeps the expiry in whole seconds) and was not issued later
  than it is read. A token is not empty.
\<close>

definition jwt_reads_back :: "auth_config \<Rightarrow> bool" where
  "jwt_reads_back ac \<longleftrightarrow>
     (\<forall>c now. now + second \<le> cl_exp c \<longrightarrow> (case cl_iat c of None \<Rightarrow> True | Some issued \<Rightarrow> issued \<le> now) \<longrightarrow>
        ac_encode ac c \<noteq> [] \<and>
        (\<exists>p. ac_decode ac now (ac_encode ac c) = Some p \<and> cl_sub p = cl_sub c \<and> cl_type p = cl_type c
           \<and> cl_jti p = cl_jti c \<and> cl_sid p = cl_sid c))"

lemma created_token_validates:
  assumes "jwt_reads_back ac" and "now \<le> now'" "now' + second \<le> now + d" and "ty \<noteq> []"
    and tk: "tk = create_token ac now u d ty jti sid"
  obtains p where "tk \<noteq> []" "validate_token ac now' tk ty = Some p" "cl_sub p = us_id u"
    "truthy (cl_jti p) = truthy jti" "truthy (cl_sid p) = truthy sid"
proof -
  let ?c = "\<lparr>cl_sub = us_id u, cl_email = Some (us_email u), cl_exp = now + d, cl_iat = Some now, cl_type = ty,
       cl_jti = truthy jti, cl_sid = truthy sid\<rparr>"
  have tk': "tk = ac_encode ac ?c" by (simp add: tk create_token_def truthy_def)
  from assms(1) have "now' + second \<le> cl_exp ?c \<longrightarrow> (case cl_iat ?c of None \<Rightarrow> True | Some issued \<Rightarrow> issued \<le> now') \<longrightarrow>
        ac_encode ac ?c \<noteq> [] \<and>
        (\<exists>p. ac_decode ac now' (ac_encode ac ?c) = Some p \<and> cl_sub p = cl_sub ?c \<and> cl_type p = cl_type ?c
           \<and> cl_jti p = cl_jti ?c \<and> cl_sid p = cl_sid ?c)"
    unfolding jwt_reads_back_def by (elim allE [of _ ?c] allE [of _ now'])
  then have "tk \<noteq> [] \<and> (\<exists>p. ac_decode ac now' tk = Some p \<and> cl_sub p = us_id u \<and> cl_type p = ty
           \<and> cl_jti p = truthy jti \<and> cl_sid p = truthy sid)"
    unfolding tk' using assms(2,3) by simp
  then obtain p where p: "tk \<noteq> []" "ac_decode ac now' tk = Some p" "cl_sub p = us_id u" "cl_type p = ty"
    "cl_jti p = truthy jti" "cl_sid p = truthy sid" by (elim conjE exE)
  show thesis by (rule that [of p]) (simp_all add: p validate_token_def, simp_all add: truthy_def split: option.splits list.splits)
qed

lemma access_token_of_account_recognised:
  assumes "jwt_reads_back ac" and "now \<le> now'" "now' + second \<le> now + ac_access_expire ac"
    and u: "find_user_by_id (us_id u0) db = Inr (Some u)" "us_is_active u" "us_id u0 \<noteq> []"
    and c: "chain_is_live now' c db" "c \<noteq> []"
    and rq: "\<not> startswith (hr_path rq) ''/static/''" "hr_authorization rq = Some (''Bearer '' @ create_access_token ac now u0 c)"
  shows "load_current_user ac now' rq db = Inr (Some \<lparr>si_user = u, si_session_id = c, si_source = FromHeader\<rparr>)"
proof -
  let ?tk = "create_access_token ac now u0 c"
  obtain p where p: "?tk \<noteq> []" "validate_token ac now' ?tk ''access'' = Some p" "cl_sub p = us_id u0"
    "truthy (cl_sid p) = truthy (Some c)"
    by (rule created_token_validates [OF assms(1-3) _ create_access_token_def]) simp_all
  have "truthy (Some (drop 7 (''Bearer '' @ ?tk))) = Some ?tk" using p(1) by (simp add: truthy_Some)
  then have "presented_token rq = Some (?tk, FromHeader)"
    unfolding presented_token_def rq(2) option.case if_P [OF startswith_append] by simp
  moreover have "truthy (cl_sid p) = Some c" using p(4) c(2) by (simp add: truthy_Some)
  ultimately show ?thesis using p u c(1) rq(1) by (simp add: load_current_user_def Let_def)
qed

lemmas access_token_recognised = access_token_of_account_recognised [where u = u and u0 = u for u]

lemma find_by_token_id_unique:
  assumes "sessions_ok used (db_sessions db)" and "s \<in> set (db_sessions db)"
  shows "find_by_token_id (rs_token_id s) db = Some s"
proof (cases "find_by_token_id (rs_token_id s) db")
  case None
  then show ?thesis using assms(2) by (auto simp: find_by_token_id_def find_None_iff)
next
  case (Some r)
  then show ?thesis using find_by_token_id_Some [OF Some] sessions_ok_same(3) [OF assms(1) _ assms(2)] by metis
qed

lemma usable_token_refreshes:
  assumes ok: "sessions_ok used (db_sessions db)" and new: "i \<notin> used" "t \<notin> used"
    and s: "s \<in> set (db_sessions db)" "session_is_usable now s" "rs_user_id s = us_id u"
    and u: "find_user_by_id (us_id u) db = Inr (Some u)" "us_is_active u" "us_id u \<noteq> []"
    and p: "validate_token ac now token ''refresh'' = Some p" "cl_sub p = us_id u" "truthy (cl_jti p) = Some (rs_token_id s)"
    and time: "0 < ac_refresh_expire ac"
  obtains db' where "refresh_access_token ac now i t token db =
        (Inr (Some \<lparr>rt_access_token = create_access_token ac now u (rs_chain_id s),
                    rt_refresh_token = create_token ac now u (ac_refresh_expire ac) ''refresh'' (Some t) None\<rparr>), db')"
    "chain_is_live now (rs_chain_id s) db'"
proof -
  let ?ss = "spend_rows (rs_token_id s) t (db_sessions db)"
  let ?s' = "refresh_session_create now i (us_id u) t (now + ac_refresh_expire ac) (Some (rs_chain_id s))"
  have "t \<notin> set (map rs_token_id ?ss)" unfolding spend_rows_keys using sessions_okD(2) [OF ok] new(2) by auto
  then have free: "\<not> list_ex (\<lambda>r. rs_id r \<noteq> i \<and> rs_token_id r = t) ?ss"
    unfolding list_ex_iff by (metis image_eqI list.set_map)
  have member: "us_id u \<in> set (map ur_id (db_users db))"
    using u(1) unfolding find_user_by_id_def by (rule find_user_Some) (metis image_eqI list.set_map)
  obtain db' where db': "session_save ?s' (db\<lparr>db_sessions := ?ss\<rparr>) = Inr db'" and rows: "?s' \<in> set (db_sessions db')"
    using free member by (simp add: session_save_def set_replace_or_append)
  have "refresh_access_token ac now i t token db =
      (Inr (Some \<lparr>rt_access_token = create_access_token ac now u (rs_chain_id s),
                  rt_refresh_token = create_token ac now u (ac_refresh_expire ac) ''refresh'' (Some t) None\<rparr>), db')"
    using p u s(2,3) find_by_token_id_unique [OF ok s(1)] claim_usable [OF ok s(1,2)] db'
    by (simp add: refresh_access_token_def)
  moreover have "chain_is_live now (rs_chain_id s) db'"
    unfolding chain_is_live_def list_ex_iff
    by (rule bexI [OF _ rows]) (use sessions_okD(4) [OF ok s(1)] time in simp)
  ultimately show thesis by (rule that)
qed

text \<open>What a row says of its login never changes: the account, the chain and the expiry.\<close>

definition row_stays :: "ident \<Rightarrow> ident \<Rightarrow> moment \<Rightarrow> ident \<Rightarrow> refresh_session list \<Rightarrow> bool" where
  "row_stays owner chain expires t ss \<longleftrightarrow>
     (\<forall>s \<in> set ss. rs_token_id s = t \<longrightarrow> rs_user_id s = owner \<and> rs_chain_id s = chain \<and> rs_expires_at s = expires)"

lemma chain_step_row_stays:
  assumes "chain_step new ss ss'" and "t \<notin> new" and "row_stays owner chain expires t ss"
  shows "row_stays owner chain expires t ss'"
  using assms
proof (induction rule: chain_step.induct)
  case (revoke new ss now P)
  then show ?case unfolding row_stays_def by (auto simp: revoke_rows_def)
next
  case (rotate s ss now s' new)
  then show ?case unfolding row_stays_def by (auto simp: spend_rows_def)
qed (auto simp: row_stays_def)

interpretation stays: session_law "row_stays owner chain expires" for owner chain expires
  by unfold_locales (rule chain_step_row_stays)

text \<open>
  C10. The tokens of a sign-in work. The login is live and its refresh token usable from the
  sign-in until the refresh token expires. In every later state, whatever sessions were opened,
  exchanged, ended or swept meanwhile and whatever else was done to the accounts, as long as the
  account is found and active: the access token signs its requests in as the account until it
  expires, while the login is live; and the refresh token can be exchanged until it expires
  itself, however long the access token has expired, unless it was exchanged or revoked before,
  for tokens that sign in the same account in the same login.
\<close>

theorem sign_in_tokens_work:
  assumes jwt: "jwt_reads_back ac" and reach: "session_reachable ac (db, used)"
    and new: "i \<notin> used" "t \<notin> used" and id: "us_id u \<noteq> []"
    and issued: "create_session_tokens ac now i t u db = Inr (tk, db1)"
    and later: "session_run ac (db1, used \<union> {i, t}) (db2, used2)" "db_sessions db3 = db_sessions db2"
    and found: "find_user_by_id (us_id u) db3 = Inr (Some u3)" "us_is_active u3"
    and path: "\<not> startswith (hr_path rq) ''/static/''"
  shows "(\<forall>n. n < now + ac_refresh_expire ac \<longrightarrow>
        chain_is_live n t db1 \<and> (\<exists>s. find_by_token_id t db1 = Some s \<and> session_is_usable n s))
    \<and> (\<forall>n. now \<le> n \<and> n + second \<le> now + ac_access_expire ac \<and> chain_is_live n t db3 \<longrightarrow>
        load_current_user ac n (rq\<lparr>hr_authorization := Some (''Bearer '' @ rt_access_token tk)\<rparr>) db3 =
           Inr (Some \<lparr>si_user = u3, si_session_id = t, si_source = FromHeader\<rparr>))
    \<and> (\<forall>n s i2 t2. now \<le> n \<and> n + second \<le> now + ac_refresh_expire ac \<and>
        find_by_token_id t db3 = Some s \<and> rs_revoked_at s = None \<and> rs_replaced_by s = None \<and> i2 \<notin> used2 \<and> t2 \<notin> used2 \<longrightarrow>
        (\<exists>db4. refresh_access_token ac n i2 t2 (rt_refresh_token tk) db3 =
            (Inr (Some \<lparr>rt_access_token = create_access_token ac n u3 t,
                        rt_refresh_token = create_token ac n u3 (ac_refresh_expire ac) ''refresh'' (Some t2) None\<rparr>), db4)
            \<and> chain_is_live n t db4))"
proof -
  have ok: "sessions_ok used (db_sessions db)" by (rule session_reachable_ok [OF reach])
  then have tne: "t \<noteq> []" using new(2) by (auto simp: sessions_ok_def)
  let ?s = "refresh_session_create now i (us_id u) t (now + ac_refresh_expire ac) None"
  have saved: "session_save ?s db = Inr db1" and tk: "rt_access_token tk = create_access_token ac now u t"
      "rt_refresh_token tk = create_token ac now u (ac_refresh_expire ac) ''refresh'' (Some t) None"
    using issued by (auto simp: create_session_tokens_def Let_def result_simps)
  have "i \<notin> rs_id ` set (db_sessions db)" using sessions_okD(1) [OF ok] new(1) by blast
  then have db1: "db1 = db\<lparr>db_sessions := db_sessions db @ [?s]\<rparr>" by (intro session_save_Inr [OF saved]) simp
  have ok1: "sessions_ok (used \<union> {i, t}) (db_sessions db1)"
    unfolding db1 using sessions_ok_start [OF ok, of ?s "{i, t}"] new(1,2) by simp
  have row: "find_by_token_id t db1 = Some ?s" using find_by_token_id_unique [OF ok1, of ?s] by (simp add: db1)
  have start: "chain_is_live n t db1 \<and> (\<exists>s. find_by_token_id t db1 = Some s \<and> session_is_usable n s)"
    if "n < now + ac_refresh_expire ac" for n
    using that row by (simp add: chain_is_live_def db1 session_is_usable_def)
  have same: "us_id u3 = us_id u" using find_user_by_id_Some [OF found(1)] by simp
  have access: "load_current_user ac n (rq\<lparr>hr_authorization := Some (''Bearer '' @ rt_access_token tk)\<rparr>) db3 =
           Inr (Some \<lparr>si_user = u3, si_session_id = t, si_source = FromHeader\<rparr>)"
    if "now \<le> n \<and> n + second \<le> now + ac_access_expire ac \<and> chain_is_live n t db3" for n
    using that by (intro access_token_of_account_recognised [OF jwt _ _ found id _ tne]) (simp_all add: path tk)
  have "row_stays (us_id u) t (now + ac_refresh_expire ac) t (db_sessions db1)"
    unfolding row_stays_def
  proof (intro ballI impI)
    fix r assume "r \<in> set (db_sessions db1)" and "rs_token_id r = t"
    then have "r = ?s" using find_by_token_id_unique [OF ok1, of r] row by simp
    then show "rs_user_id r = us_id u \<and> rs_chain_id r = t \<and> rs_expires_at r = now + ac_refresh_expire ac" by simp
  qed
  then have "row_stays (us_id u) t (now + ac_refresh_expire ac) t (db_sessions db2)"
    using stays.along [OF later(1)] ok1 by simp
  then have stay: "rs_user_id r = us_id u" "rs_chain_id r = t" "rs_expires_at r = now + ac_refresh_expire ac"
    if "r \<in> set (db_sessions db3)" "rs_token_id r = t" for r
    using that unfolding later(2) row_stays_def by blast+
  have ok3: "sessions_ok used2 (db_sessions db3)" using session_run_ok [OF later(1)] ok1 unfolding later(2) by simp
  have refresh: "\<exists>db4. refresh_access_token ac n i2 t2 (rt_refresh_token tk) db3 =
            (Inr (Some \<lparr>rt_access_token = create_access_token ac n u3 t,
                        rt_refresh_token = create_token ac n u3 (ac_refresh_expire ac) ''refresh'' (Some t2) None\<rparr>), db4)
            \<and> chain_is_live n t db4"
    if h: "now \<le> n \<and> n + second \<le> now + ac_refresh_expire ac \<and>
        find_by_token_id t db3 = Some s \<and> rs_revoked_at s = None \<and> rs_replaced_by s = None \<and> i2 \<notin> used2 \<and> t2 \<notin> used2" for n s i2 t2
  proof -
    have s: "s \<in> set (db_sessions db3)" "rs_token_id s = t" using find_by_token_id_Some h by blast+
    note st = stay [OF s]
    have time: "now \<le> n" "n + second \<le> now + ac_refresh_expire ac" and fresh: "i2 \<notin> used2" "t2 \<notin> used2" using h by simp_all
    have usable: "session_is_usable n s" using h st(3) by (simp add: session_is_usable_def second_def)
    obtain p where p: "validate_token ac n (rt_refresh_token tk) ''refresh'' = Some p" "cl_sub p = us_id u"
      "truthy (cl_jti p) = truthy (Some t)"
      by (rule created_token_validates [OF jwt time _ tk(2)]) simp_all
    have jti: "truthy (cl_jti p) = Some (rs_token_id s)" using p(3) tne s(2) by (simp add: truthy_Some)
    have u3: "rs_user_id s = us_id u3" "find_user_by_id (us_id u3) db3 = Inr (Some u3)" "us_id u3 \<noteq> []" "cl_sub p = us_id u3"
      using st(1) same found(1) id p(2) by simp_all
    have "0 < ac_refresh_expire ac" using time by (simp add: second_def)
    from usable_token_refreshes [OF ok3 fresh s(1) usable u3(1,2) found(2) u3(3) p(1) u3(4) jti this]
    show ?thesis unfolding st(2) by blast
  qed
  from start access refresh show ?thesis by blast
qed

lemma list_ex_map_same: "(\<And>x. P (f x) = P x) \<Longrightarrow> list_ex P (map f xs) = list_ex P xs"
  by (induction xs) simp_all

lemma other_chains_live:
  assumes "c' \<noteq> c" shows "chain_is_live n c' (snd (revoke_chain now c db)) = chain_is_live n c' db"
  unfolding chain_is_live_def revoke_chain_rows revoke_rows_def by (rule list_ex_map_same) (use assms in auto)

lemma revoke_refresh_token_True:
  assumes "revoke_refresh_token ac now token db = (True, db')"
  obtains p s where "validate_token ac now token ''refresh'' = Some p" "find_by_token_id (the (cl_jti p)) db = Some s"
    "rs_user_id s = cl_sub p" "db' = snd (revoke_chain now (rs_chain_id s) db)"
proof -
  show thesis using assms that unfolding revoke_refresh_token_def
    by (fastforce simp: truthy_Some split: option.splits if_splits prod.splits)
qed

text \<open>
  C11. Signing out ends one login, the one of the refresh token presented or, without one,
  the one of the access token. Its rows never work again, whatever happens next; every
  other login is as live as it was.
\<close>

theorem sign_out_ends_one_login:
  assumes reach: "session_reachable ac (db, used)"
    and ended: "sign_out ac now cx token sid db = (True, db1, evs)"
    and later: "session_run ac (db1, used) (db2, used2)"
  shows "\<exists>c. (case truthy token of
               Some tk \<Rightarrow> (\<exists>p s. validate_token ac now tk ''refresh'' = Some p \<and> find_by_token_id (the (cl_jti p)) db = Some s
                            \<and> rs_user_id s = cl_sub p \<and> rs_chain_id s = c)
             | None \<Rightarrow> sid = Some c)
      \<and> (\<forall>n c'. c' \<noteq> c \<longrightarrow> chain_is_live n c' db1 = chain_is_live n c' db)
      \<and> (\<forall>n. \<not> chain_is_live n c db2)"
proof -
  have ok: "sessions_ok used (db_sessions db)" by (rule session_reachable_ok [OF reach])
  have after: "(\<forall>n c'. c' \<noteq> c \<longrightarrow> chain_is_live n c' db1 = chain_is_live n c' db) \<and> (\<forall>n. \<not> chain_is_live n c db2)"
    if c: "c \<in> used" and db1: "db1 = snd (revoke_chain now c db)" for c
  proof -
    have "chain_dead c (db_sessions db1)" unfolding db1 revoke_chain_rows by (rule revoked_chain_is_dead)
    moreover have "sessions_ok used (db_sessions db1)" unfolding db1 revoke_chain_rows by (rule sessions_ok_revoke [OF ok])
    ultimately have "chain_dead c (db_sessions db2)" using dead.along [OF later, of c] c by simp
    then show ?thesis using dead_chain_not_live [of c db2] other_chains_live [of _ c _ now db] by (simp add: db1)
  qed
  show ?thesis
  proof (cases "truthy token")
    case (Some tk)
    then have "revoke_refresh_token ac now tk db = (True, db1)"
      using ended by (auto simp: sign_out_def Let_def split: prod.splits if_splits)
    then obtain p s where p: "validate_token ac now tk ''refresh'' = Some p" "find_by_token_id (the (cl_jti p)) db = Some s"
      "rs_user_id s = cl_sub p" "db1 = snd (revoke_chain now (rs_chain_id s) db)" by (rule revoke_refresh_token_True)
    have "rs_chain_id s \<in> used" using sessions_okD(3) [OF ok] find_by_token_id_Some [OF p(2)] by simp
    from after [OF this p(4)] show ?thesis using Some p(1-3) by (intro exI [of _ "rs_chain_id s"]) simp
  next
    case None
    with ended obtain c where c: "sid = Some c" "0 < fst (revoke_chain now c db)" "db1 = snd (revoke_chain now c db)"
      by (auto simp: sign_out_def truthy_Some revoke_session_chain_def split: option.splits prod.splits if_splits)
    from c(2) have "filter (\<lambda>s. rs_chain_id s = c \<and> rs_revoked_at s = None) (db_sessions db) \<noteq> []" by (simp add: revoke_chain_def)
    then obtain s where "s \<in> set (db_sessions db)" "rs_chain_id s = c" unfolding filter_empty_conv by metis
    then have "c \<in> used" using sessions_okD(3) [OF ok] by metis
    from after [OF this c(3)] show ?thesis using None c(1) by (intro exI [of _ c]) simp
  qed
qed

text \<open>
  What the journal is told about it: when a refresh token and the login of an access
  token are both given, the login recorded as ended is the one of the access token, even
  when the login that was ended is another, and the one recorded goes on.
\<close>

lemma sign_out_records_the_access_tokens_login:
  assumes token: "tk \<noteq> []" "validate_token ac now tk ''refresh'' = Some p" "cl_jti p = Some t" "t \<noteq> []" "cl_sub p \<noteq> []"
    and row: "find_by_token_id t db = Some s" "rs_user_id s = cl_sub p" "rs_revoked_at s = None"
    and other: "c \<noteq> rs_chain_id s"
  shows "\<exists>db1. sign_out ac now cx (Some tk) (Some c) db = (True, db1, [SessionEnded (Some (cl_sub p)) (Some c)])
    \<and> \<not> chain_is_live n (rs_chain_id s) db1 \<and> chain_is_live n c db1 = chain_is_live n c db"
proof (intro exI conjI)
  let ?db1 = "snd (revoke_chain now (rs_chain_id s) db)"
  have "s \<in> set (db_sessions db)" using find_by_token_id_Some [OF row(1)] by simp
  then have "filter (\<lambda>r. rs_chain_id r = rs_chain_id s \<and> rs_revoked_at r = None) (db_sessions db) \<noteq> []"
    using row(3) unfolding filter_empty_conv by metis
  then have pos: "0 < fst (revoke_chain now (rs_chain_id s) db)" by (simp add: revoke_chain_def)
  have jti: "truthy (cl_jti p) = Some t" "truthy (Some tk) = Some tk" "truthy (Some (cl_sub p)) = Some (cl_sub p)"
    using token by (simp_all add: truthy_Some)
  have "revoke_refresh_token ac now tk db = (True, ?db1)"
    using token row jti pos by (simp add: revoke_refresh_token_def case_prod_beta)
  then show "sign_out ac now cx (Some tk) (Some c) db = (True, ?db1, [SessionEnded (Some (cl_sub p)) (Some c)])"
    using token jti by (simp add: sign_out_def Let_def)
  show "\<not> chain_is_live n (rs_chain_id s) ?db1"
    by (rule dead_chain_not_live) (simp add: revoked_chain_is_dead)
  show "chain_is_live n c ?db1 = chain_is_live n c db" by (rule other_chains_live [OF other])
qed


section \<open>Samples\<close>

text \<open>
  A token library with the properties the theorems ask of it: claims as a row of framed
  strings. It is used in the examples below only.
\<close>

definition frame :: "string \<Rightarrow> string" where
  "frame s = replicate (length s) CHR ''x'' @ ''.'' @ s"

definition unframe :: "string \<Rightarrow> string \<times> string" where
  "unframe s = (let n = length (takeWhile (\<lambda>c. c = CHR ''x'') s) in (take n (drop (n + 1) s), drop (n + 1 + n) s))"

lemma unframe_frame [simp]: "unframe (frame s @ r) = (s, r)"
proof -
  have "takeWhile (\<lambda>c. c = CHR ''x'') (frame s @ r) = replicate (length s) CHR ''x''"
    unfolding frame_def by (simp add: takeWhile_append)
  then show ?thesis by (simp add: unframe_def frame_def Let_def)
qed

definition sample_opt :: "string option \<Rightarrow> string" where
  "sample_opt s = (case s of None \<Rightarrow> [] | Some t \<Rightarrow> CHR ''1'' # t)"

definition sample_unopt :: "string \<Rightarrow> string option" where
  "sample_unopt s = (case s of [] \<Rightarrow> None | _ # t \<Rightarrow> Some t)"

lemma sample_unopt_opt [simp]: "sample_unopt (sample_opt s) = s"
  by (simp add: sample_opt_def sample_unopt_def split: option.splits)

definition sample_int :: "int \<Rightarrow> string" where
  "sample_int n = (if n < 0 then CHR ''-'' else CHR ''+'') # str_of_nat (nat \<bar>n\<bar>)"

definition sample_unint :: "string \<Rightarrow> int" where
  "sample_unint s = (case s of [] \<Rightarrow> 0 | c # ds \<Rightarrow> if c = CHR ''-'' then - number_of 10 ds else number_of 10 ds)"

lemma sample_unint_int [simp]: "sample_unint (sample_int n) = n"
  by (simp add: sample_int_def sample_unint_def number_of_str_of_nat)

definition sample_encode :: "jwt_claims \<Rightarrow> string" where
  "sample_encode c =
     frame (cl_sub c) @ frame (cl_type c) @ frame (sample_opt (cl_jti c)) @ frame (sample_opt (cl_sid c)) @
     frame (sample_int (cl_exp c))"

definition sample_decode :: "moment \<Rightarrow> string \<Rightarrow> jwt_claims option" where
  "sample_decode now token =
     (case unframe token of (sub, r1) \<Rightarrow>
      case unframe r1 of (ty, r2) \<Rightarrow>
      case unframe r2 of (jti, r3) \<Rightarrow>
      case unframe r3 of (sid, r4) \<Rightarrow>
      case unframe r4 of (e, _) \<Rightarrow>
      if sample_unint e \<le> now then None
      else Some \<lparr>cl_sub = sub, cl_email = None, cl_exp = sample_unint e, cl_iat = None, cl_type = ty,
             cl_jti = sample_unopt jti, cl_sid = sample_unopt sid\<rparr>)"

definition sample_ac :: auth_config where
  "sample_ac = \<lparr>ac_encode = sample_encode, ac_decode = sample_decode, ac_access_expire = 10 * second, ac_refresh_expire = 90 * second\<rparr>"


lemma sample_decode_encode:
  "sample_decode now (sample_encode c) =
     (if cl_exp c \<le> now then None
      else Some \<lparr>cl_sub = cl_sub c, cl_email = None, cl_exp = cl_exp c, cl_iat = None, cl_type = cl_type c,
             cl_jti = cl_jti c, cl_sid = cl_sid c\<rparr>)"
  using unframe_frame [of "sample_int (cl_exp c)" "[]"] by (simp add: sample_decode_def sample_encode_def)

lemma sample_ac_ok: "jwt_reads_back sample_ac" "jwt_stable sample_ac"
proof -
  show "jwt_reads_back sample_ac" unfolding jwt_reads_back_def
  proof (intro allI impI)
    fix c :: jwt_claims and now :: moment assume "now + second \<le> cl_exp c"
    then have "\<not> cl_exp c \<le> now" by (simp add: second_def)
    then have "ac_decode sample_ac now (ac_encode sample_ac c) = Some \<lparr>cl_sub = cl_sub c, cl_email = None, cl_exp = cl_exp c,
        cl_iat = None, cl_type = cl_type c, cl_jti = cl_jti c, cl_sid = cl_sid c\<rparr>"
      by (simp add: sample_ac_def sample_decode_encode)
    then show "ac_encode sample_ac c \<noteq> [] \<and>
        (\<exists>p. ac_decode sample_ac now (ac_encode sample_ac c) = Some p \<and> cl_sub p = cl_sub c \<and> cl_type p = cl_type c
           \<and> cl_jti p = cl_jti c \<and> cl_sid p = cl_sid c)"
      by (simp add: sample_ac_def sample_encode_def frame_def)
  qed
  show "jwt_stable sample_ac" unfolding jwt_stable_def
    by (auto simp: sample_ac_def sample_decode_def split: prod.splits if_splits)
qed

text \<open>
  A history: \<open>root\<close> signs in, refreshes, and signs in again from another device; the first
  refresh token has been spent and the second login is open.
\<close>

definition sample_root :: user where
  "sample_root =
     \<lparr>us_id = ''root'', us_email = ''root@example.org'', us_password_hash = ''h'',
      us_roles = [role_to_domain sample_db (sample_role ''r1'' ''admin'' [''p1''])], us_is_active = True, us_email_verified = True,
      us_created_at = 0, us_last_login = None\<rparr>"

lemma sample_root_found: "find_user_by_id ''root'' sample_db = Inr (Some sample_root)"
  by code_simp

definition sample_token :: "ident \<Rightarrow> string" where
  "sample_token t = sample_encode \<lparr>cl_sub = ''root'', cl_email = None, cl_exp = 90 * second, cl_iat = Some 0, cl_type = ''refresh'',
     cl_jti = Some t, cl_sid = None\<rparr>"

lemma sample_token_read: "sample_decode n (sample_token t) = (if 90 * second \<le> n then None
   else Some \<lparr>cl_sub = ''root'', cl_email = None, cl_exp = 90 * second, cl_iat = None, cl_type = ''refresh'',
     cl_jti = Some t, cl_sid = None\<rparr>)"
  by (simp add: sample_token_def sample_decode_encode)

lemma sample_member: "''root'' \<in> set (map ur_id (db_users sample_db))"
  by code_simp

definition sample_signed_in :: database where
  "sample_signed_in = session_do sample_ac (StartSession 0 ''s1'' ''t1'' sample_root) sample_db"

definition sample_refreshed :: database where
  "sample_refreshed = session_do sample_ac (RefreshSession second ''s2'' ''t2'' (sample_token ''t1'') None) sample_signed_in"

lemma sample_signed_in: "sample_signed_in = sample_db\<lparr>db_sessions :=
     [\<lparr>rs_id = ''s1'', rs_user_id = ''root'', rs_token_id = ''t1'', rs_chain_id = ''t1'', rs_expires_at = 90 * second,
       rs_created_at = 0, rs_revoked_at = None, rs_replaced_by = None\<rparr>]\<rparr>"
  using sample_member by (simp add: sample_signed_in_def session_do_def create_session_tokens_def Let_def session_save_def
    replace_or_append_def refresh_session_create_def sample_root_def sample_ac_def) (simp add: sample_db_def)


lemma sample_validate: "n < 90 * second \<Longrightarrow> validate_token sample_ac n (sample_token t) ''refresh'' =
   Some \<lparr>cl_sub = ''root'', cl_email = None, cl_exp = 90 * second, cl_iat = None, cl_type = ''refresh'', cl_jti = Some t, cl_sid = None\<rparr>"
  by (simp add: validate_token_def sample_ac_def sample_token_read)

definition sample_tokens :: "moment \<Rightarrow> ident \<Rightarrow> refreshed_tokens" where
  "sample_tokens n t = \<lparr>rt_access_token = create_access_token sample_ac n sample_root ''t1'',
     rt_refresh_token = create_token sample_ac n sample_root (90 * second) ''refresh'' (Some t) None\<rparr>"

lemma sample_issue:
  "create_session_tokens sample_ac 0 ''s1'' ''t1'' sample_root sample_db = Inr (sample_tokens 0 ''t1'', sample_signed_in)"
  using sample_member by (simp add: sample_signed_in create_session_tokens_def Let_def session_save_def
    replace_or_append_def refresh_session_create_def sample_root_def sample_ac_def sample_tokens_def) (simp add: sample_db_def)

lemma sample_rotation:
  "refresh_access_token sample_ac second ''s2'' ''t2'' (sample_token ''t1'') sample_signed_in =
   (Inr (Some (sample_tokens second ''t2'')), sample_db\<lparr>db_sessions :=
     [\<lparr>rs_id = ''s1'', rs_user_id = ''root'', rs_token_id = ''t1'', rs_chain_id = ''t1'', rs_expires_at = 90 * second,
       rs_created_at = 0, rs_revoked_at = None, rs_replaced_by = Some ''t2''\<rparr>,
      \<lparr>rs_id = ''s2'', rs_user_id = ''root'', rs_token_id = ''t2'', rs_chain_id = ''t1'', rs_expires_at = 91 * second,
       rs_created_at = second, rs_revoked_at = None, rs_replaced_by = None\<rparr>]\<rparr>)"
proof -
  have "validate_token sample_ac second (sample_token ''t1'') ''refresh'' =
     Some \<lparr>cl_sub = ''root'', cl_email = None, cl_exp = 90 * second, cl_iat = None, cl_type = ''refresh'', cl_jti = Some ''t1'', cl_sid = None\<rparr>"
    by (rule sample_validate) (simp add: second_def)
  moreover have "us_is_active sample_root" "us_id sample_root = ''root''" "ac_refresh_expire sample_ac = 90 * second"
    by (simp_all add: sample_root_def sample_ac_def)
  ultimately show ?thesis using sample_member sample_root_found
    by (simp add: refresh_access_token_def truthy_def sample_signed_in find_by_token_id_def session_is_usable_def
        claim_for_rotation_def Let_def session_save_def replace_or_append_def refresh_session_create_def sample_tokens_def)
       (simp add: second_def)
qed

lemma sample_refreshed: "sample_refreshed = sample_db\<lparr>db_sessions :=
     [\<lparr>rs_id = ''s1'', rs_user_id = ''root'', rs_token_id = ''t1'', rs_chain_id = ''t1'', rs_expires_at = 90 * second,
       rs_created_at = 0, rs_revoked_at = None, rs_replaced_by = Some ''t2''\<rparr>,
      \<lparr>rs_id = ''s2'', rs_user_id = ''root'', rs_token_id = ''t2'', rs_chain_id = ''t1'', rs_expires_at = 91 * second,
       rs_created_at = second, rs_revoked_at = None, rs_replaced_by = None\<rparr>]\<rparr>"
  by (simp add: sample_refreshed_def session_do_def refresh_session_use_case_db sample_rotation)

lemma sample_reach:
  "session_reachable sample_ac (sample_db, {[]})"
  "session_reachable sample_ac (sample_signed_in, {[], ''s1'', ''t1''})"
  "session_reachable sample_ac (sample_refreshed, {[], ''s1'', ''t1'', ''s2'', ''t2''})"
proof -
  have 0: "session_run sample_ac (sample_db, {[]}) (sample_db, {[]})" by (rule session_run.idle)
  have 1: "session_run sample_ac (sample_db, {[]}) (sample_signed_in, {[], ''s1'', ''t1''})"
    using session_run.more [OF 0, of "StartSession 0 ''s1'' ''t1'' sample_root"] by (simp add: sample_signed_in_def insert_commute)
  have 2: "session_run sample_ac (sample_db, {[]}) (sample_refreshed, {[], ''s1'', ''t1'', ''s2'', ''t2''})"
    using session_run.more [OF 1, of "RefreshSession second ''s2'' ''t2'' (sample_token ''t1'') None"]
    by (simp add: sample_refreshed_def insert_commute)
  have "db_sessions sample_db = []" by (simp add: sample_db_def)
  with 0 1 2 show "session_reachable sample_ac (sample_db, {[]})"
    "session_reachable sample_ac (sample_signed_in, {[], ''s1'', ''t1''})"
    "session_reachable sample_ac (sample_refreshed, {[], ''s1'', ''t1'', ''s2'', ''t2''})"
    unfolding session_reachable_def by (blast)+
qed

definition sample_claims :: "ident \<Rightarrow> jwt_claims" where
  "sample_claims t = \<lparr>cl_sub = ''root'', cl_email = None, cl_exp = 90 * second, cl_iat = None, cl_type = ''refresh'', cl_jti = Some t, cl_sid = None\<rparr>"

theorem one_refresh_token_per_login_witness:
  "session_reachable sample_ac (sample_refreshed, {[], ''s1'', ''t1'', ''s2'', ''t2''})
   \<and> length (filter (\<lambda>s. rs_chain_id s = ''t1'' \<and> session_is_usable second s) (db_sessions sample_refreshed)) \<le> 1"
  using sample_reach(3) one_refresh_token_per_login [OF sample_reach(3)] by simp

theorem replay_ends_the_login_witness:
  "\<exists>db1. refresh_session_use_case sample_ac (2 * second) ''s3'' ''t3'' (sample_token ''t1'') (Some (sample_cx ''root'')) sample_refreshed =
           (Inr None, db1, [RefreshTokenReplayed ''root'' ''t1''])
    \<and> chain_is_live (2 * second) ''t1'' sample_refreshed \<and> \<not> chain_is_live (2 * second) ''t1'' db1"
proof -
  have v: "validate_token sample_ac (2 * second) (sample_token ''t1'') ''refresh'' = Some (sample_claims ''t1'')"
    unfolding sample_claims_def by (rule sample_validate) (simp add: second_def)
  let ?s = "hd (db_sessions sample_refreshed)"
  have row: "find_by_token_id ''t1'' sample_refreshed = Some ?s" "rs_user_id ?s = ''root''" "rs_replaced_by ?s \<noteq> None"
      "rs_chain_id ?s = ''t1''"
    by (simp_all add: find_by_token_id_def sample_refreshed)
  have live: "chain_is_live (2 * second) ''t1'' sample_refreshed"
    by (simp add: chain_is_live_def sample_refreshed second_def)
  note * = replay_ends_the_login [OF sample_reach(3) v _ _ _ row(1) _ row(3) _ _ session_run.idle, of "''s3''" "''t3''" "sample_cx ''root''" "2 * second"]
  let ?db1 = "session_do sample_ac (RefreshSession (2 * second) ''s3'' ''t3'' (sample_token ''t1'') (Some (sample_cx ''root''))) sample_refreshed"
  have "refresh_session_use_case sample_ac (2 * second) ''s3'' ''t3'' (sample_token ''t1'') (Some (sample_cx ''root'')) sample_refreshed =
      (Inr None, ?db1, [RefreshTokenReplayed ''root'' ''t1'']) \<and> \<not> chain_is_live (2 * second) ''t1'' ?db1"
    using * row by (simp add: sample_claims_def)
  with live show ?thesis by blast
qed

theorem refresh_token_is_spent_once_witness:
  "fst (refresh_access_token sample_ac second ''s2'' ''t2'' (sample_token ''t1'') sample_signed_in) =
     Inr (Some (sample_tokens second ''t2''))
   \<and> (\<forall>r2. fst (refresh_access_token sample_ac (2 * second) ''s3'' ''t3'' (sample_token ''t1'') sample_refreshed) \<noteq> Inr (Some r2))"
proof -
  have v: "validate_token sample_ac second (sample_token ''t1'') ''refresh'' = Some (sample_claims ''t1'')"
    unfolding sample_claims_def by (rule sample_validate) (simp add: second_def)
  have won: "refresh_access_token sample_ac second ''s2'' ''t2'' (sample_token ''t1'') sample_signed_in =
      (Inr (Some (sample_tokens second ''t2'')), sample_refreshed)" by (simp add: sample_rotation sample_refreshed)
  show ?thesis using refresh_token_is_spent_once [OF sample_reach(2) sample_ac_ok(2) v _ _ _ won session_run.idle] won
    by (simp add: sample_claims_def)
qed

theorem sign_in_tokens_work_witness:
  "load_current_user sample_ac second
     \<lparr>hr_path = ''/'', hr_authorization = Some (''Bearer '' @ create_access_token sample_ac 0 sample_root ''t1''),
      hr_access_cookie = None, hr_endpoint = None, hr_has_rule = True\<rparr> sample_signed_in =
     Inr (Some \<lparr>si_user = sample_root, si_session_id = ''t1'', si_source = FromHeader\<rparr>)
   \<and> ac_access_expire sample_ac < 80 * second
   \<and> (\<exists>r db4. refresh_access_token sample_ac (80 * second) ''s2'' ''t2''
        (create_token sample_ac 0 sample_root (90 * second) ''refresh'' (Some ''t1'') None) sample_signed_in = (Inr (Some r), db4))"
proof -
  let ?rq = "\<lparr>hr_path = ''/'', hr_authorization = None, hr_access_cookie = None, hr_endpoint = None, hr_has_rule = True\<rparr>"
  have u: "find_user_by_id (us_id sample_root) sample_signed_in = Inr (Some sample_root)" "us_is_active sample_root" "us_id sample_root \<noteq> []"
    using sample_root_found by (simp_all add: sample_root_def sample_signed_in)
  have p: "\<not> startswith (hr_path ?rq) ''/static/''" by (simp add: startswith_def)
  have ac: "ac_access_expire sample_ac < 80 * second" "2 * second \<le> ac_access_expire sample_ac" "ac_refresh_expire sample_ac = 90 * second"
    by (simp_all add: sample_ac_def second_def)
  have run: "session_run sample_ac (sample_signed_in, {[]} \<union> {''s1'', ''t1''}) (sample_signed_in, {[]} \<union> {''s1'', ''t1''})"
    by (rule session_run.idle)
  note all = sign_in_tokens_work [OF sample_ac_ok(1) sample_reach(1) _ _ u(3) sample_issue run refl u(1,2) p]
  have start: "chain_is_live second ''t1'' sample_signed_in"
    and row: "\<exists>s. find_by_token_id ''t1'' sample_signed_in = Some s \<and> session_is_usable (80 * second) s"
    using all by (simp_all add: ac(3) second_def)
  have "load_current_user sample_ac second (?rq\<lparr>hr_authorization := Some (''Bearer '' @ rt_access_token (sample_tokens 0 ''t1''))\<rparr>) sample_signed_in =
     Inr (Some \<lparr>si_user = sample_root, si_session_id = ''t1'', si_source = FromHeader\<rparr>)"
    using all [THEN conjunct2, THEN conjunct1, rule_format, of second] start ac(2) by (simp add: second_def)
  moreover have "\<exists>r db4. refresh_access_token sample_ac (80 * second) ''s2'' ''t2'' (rt_refresh_token (sample_tokens 0 ''t1'')) sample_signed_in
      = (Inr (Some r), db4)"
  proof -
    from row obtain s where "find_by_token_id ''t1'' sample_signed_in = Some s" "rs_revoked_at s = None" "rs_replaced_by s = None"
      by (auto simp: session_is_usable_def)
    with all [THEN conjunct2, THEN conjunct2, rule_format, of "80 * second" s "''s2''" "''t2''"] show ?thesis
      by (auto simp: ac(3) second_def)
  qed
  ultimately show ?thesis using ac(1) by (simp add: sample_tokens_def)
qed

theorem sign_out_ends_one_login_witness:
  "\<exists>db1. sign_out sample_ac (2 * second) (sample_cx ''root'') None (Some ''t1'') sample_refreshed =
      (True, db1, [SessionEnded (Some ''root'') (Some ''t1'')])
    \<and> chain_is_live (2 * second) ''t1'' sample_refreshed \<and> (\<forall>n. \<not> chain_is_live n ''t1'' db1)"
proof -
  let ?db1 = "snd (revoke_chain (2 * second) ''t1'' sample_refreshed)"
  have out: "sign_out sample_ac (2 * second) (sample_cx ''root'') None (Some ''t1'') sample_refreshed =
      (True, ?db1, [SessionEnded (Some ''root'') (Some ''t1'')])"
    by (simp add: sign_out_def truthy_def revoke_session_chain_def case_prod_beta sample_cx_def) (simp add: revoke_chain_def sample_refreshed)
  have live: "chain_is_live (2 * second) ''t1'' sample_refreshed"
    by (simp add: chain_is_live_def sample_refreshed second_def)
  show ?thesis
    using sign_out_ends_one_login [OF sample_reach(3) out session_run.idle] out live by (simp add: truthy_def)
qed

end
