(* ===== verification/Web_Guards.thy ===== *)
theory Web_Guards
  imports Session_Runs Rate_Limit Code_Policies
begin

text \<open>
  What a request passes before any handler sees it (\<^verbatim>\<open>web/middleware\<close>, in the order in which
  \<^verbatim>\<open>web/app_factory.py\<close> registers them): the check of the host, the account that is asking, the
  rate limit, the protection against forged writes, and the check of the query parameters;
  and how an exception is answered. The message authentication code of \<^verbatim>\<open>hmac\<close> is computed
  from SHA-256. The parameters an endpoint declares, which the service reads off its own
  routes, are an argument, as is the draw of a nonce.
\<close>

section \<open>Requests\<close>

record web_request = http_request +
  wr_method :: string
  wr_host :: string
  wr_remote_addr :: "string option"
  wr_origin :: "string option"
  wr_referer :: "string option"
  wr_csrf_header :: "string option"
  wr_forwarded_for :: "string option"
  wr_refresh_cookie :: "string option"
  wr_csrf_cookie :: "string option"
  wr_rule :: string
  wr_args :: "string list"

record web_config =
  wc_secret_key :: string
  wc_base_url :: string
  wc_cors_origins :: "string list"
  wc_allowed_hosts :: "string list"
  wc_trusted_proxies :: "string list"
  wc_default_limit :: int
  wc_default_period :: int
  wc_rate_limits :: "(string \<times> int \<times> int) list"
  wc_auth_disabled :: bool

section \<open>How an exception is answered\<close>

definition STATUS_BY_CODE :: "(string \<times> int) list" where
  "STATUS_BY_CODE =
     [(''UNAUTHENTICATED'', 401), (''FORBIDDEN'', 403), (''USER_NOT_FOUND'', 404), (''ROLE_NOT_FOUND'', 404),
      (''JOURNAL_NOT_FOUND'', 404), (''INVALID_CREDENTIALS'', 401), (''REFRESH_TOKEN_REPLAYED'', 401),
      (''ACCOUNT_INACTIVE'', 403), (''VALIDATION_ERROR'', 400), (''ROLE_NOT_ASSIGNABLE'', 400), (''LINK_NOT_FOUND'', 404),
      (''LINK_EXPIRED'', 410), (''GUEST_LINK_LIMIT'', 429), (''CODE_GENERATION_FAILED'', 500), (''LINK_CONFLICT'', 500),
      (''LINK_CODE_TAKEN'', 409), (''CONFIGURATION_ERROR'', 500), (''REGISTRATION_UNAVAILABLE'', 503),
      (''MAIL_NOT_HANDED_OFF'', 503), (''ROLE_ALREADY_EXISTS'', 409), (''EMAIL_ALREADY_REGISTERED'', 409),
      (''ROLE_IS_SYSTEM'', 400), (''PERMISSIONS_NOT_FOUND'', 400)]"

definition status_for :: "string \<Rightarrow> int" where
  "status_for c = (case map_of STATUS_BY_CODE c of None \<Rightarrow> 500 | Some s \<Rightarrow> s)"

definition CODES_WORDED_FOR_THE_CLIENT :: "string list" where
  "CODES_WORDED_FOR_THE_CLIENT = [''REGISTRATION_UNAVAILABLE'', ''MAIL_NOT_HANDED_OFF'']"

text \<open>The text of an answer before translation; a translated text has the same shape.\<close>

definition client_message :: "domain_error \<Rightarrow> string" where
  "client_message e =
     (if status_for (err_code e) \<ge> 500 \<and> err_code e \<notin> set CODES_WORDED_FOR_THE_CLIENT
      then ''An internal error occurred'' else err_message e)"

record error_answer =
  ea_status :: int
  ea_code :: string
  ea_message :: string

definition respond_to :: "exn \<Rightarrow> error_answer" where
  "respond_to e =
     (case e of
        Domain d \<Rightarrow>
          if is_validation_error d then
            \<lparr>ea_status = (case map_of STATUS_BY_CODE (err_code d) of None \<Rightarrow> 400 | Some s \<Rightarrow> s), ea_code = err_code d, ea_message = err_message d\<rparr>
          else if err_class d = LinkNotFoundErrorC then
            \<lparr>ea_status = 404, ea_code = err_code d, ea_message = err_message d\<rparr>
          else \<lparr>ea_status = status_for (err_code d), ea_code = err_code d, ea_message = client_message d\<rparr>
      | _ \<Rightarrow> \<lparr>ea_status = 500, ea_code = ''INTERNAL_SERVER_ERROR'', ea_message = ''An internal error occurred''\<rparr>)"

section \<open>The host\<close>

definition normalise_host :: "string option \<Rightarrow> string" where
  "normalise_host value =
     (let candidate = strip (case value of None \<Rightarrow> [] | Some v \<Rightarrow> v)
      in if candidate = [] then []
         else let candidate1 = (if contains candidate ''//'' then candidate else ''//'' @ candidate)
              in case urlparse candidate1 of
                   None \<Rightarrow> []
                 | Some p \<Rightarrow> lower (rstrip_char (CHR ''.'') (hostname p)))"

definition normalise_all :: "string list \<Rightarrow> string list" where
  "normalise_all values =
     fold (\<lambda>value seen. let host = normalise_host (Some value) in if host \<noteq> [] \<and> host \<notin> set seen then seen @ [host] else seen) values []"

text \<open>With no allowed host the check is not registered.\<close>

definition host_is_allowed :: "web_config \<Rightarrow> web_request \<Rightarrow> bool" where
  "host_is_allowed wc rq =
     (let allowed = normalise_all (wc_allowed_hosts wc)
      in allowed = [] \<or> normalise_host (Some (wr_host rq)) \<in> set allowed)"

section \<open>The address of the client\<close>

definition str_of_ip :: "ip \<Rightarrow> string" where
  "str_of_ip a = (case a of IPv4 n \<Rightarrow> str_of_v4 n | IPv6 n scope_id \<Rightarrow> str_of_v6 n scope_id)"

definition as_client_address :: "string \<Rightarrow> string option" where
  "as_client_address value =
     (let candidate0 = strip value;
          candidate = (if startswith candidate0 ''['' \<and> endswith candidate0 '']'' then butlast (drop 1 candidate0) else candidate0)
      in if CHR ''%'' \<in> set candidate then None else map_option str_of_ip (ip_address candidate))"

definition get_client_ip :: "web_config \<Rightarrow> web_request \<Rightarrow> string" where
  "get_client_ip wc rq =
     (let remote_addr = (case wr_remote_addr rq of None \<Rightarrow> [] | Some a \<Rightarrow> a)
      in if remote_addr \<in> set (wc_trusted_proxies wc)
         then (case truthy (wr_forwarded_for rq) of
                 None \<Rightarrow> remote_addr
               | Some forwarded_for \<Rightarrow>
                   (case truthy (as_client_address (snd (snd (rpartition_on (CHR '','') forwarded_for)))) of
                      None \<Rightarrow> remote_addr | Some nearest \<Rightarrow> nearest))
         else remote_addr)"

section \<open>The rate limit\<close>

definition EXEMPT_ENDPOINTS :: "string list" where
  "EXEMPT_ENDPOINTS = [''health'']"

definition STATIC_PREFIX :: string where
  "STATIC_PREFIX = ''/static/''"

definition endpoint_text :: "web_request \<Rightarrow> string" where
  "endpoint_text rq = (case hr_endpoint rq of None \<Rightarrow> ''None'' | Some e \<Rightarrow> e)"

definition limiter_key :: "web_config \<Rightarrow> web_request \<Rightarrow> signed_in option \<Rightarrow> string" where
  "limiter_key wc rq who =
     (case who of Some si \<Rightarrow> ''user:'' @ us_id (si_user si) | None \<Rightarrow> get_client_ip wc rq) @ '':'' @ endpoint_text rq"

definition limit_for :: "web_config \<Rightarrow> web_request \<Rightarrow> int \<times> int" where
  "limit_for wc rq =
     (case hr_endpoint rq of
        None \<Rightarrow> (wc_default_limit wc, wc_default_period wc)
      | Some e \<Rightarrow> (case map_of (wc_rate_limits wc) e of None \<Rightarrow> (wc_default_limit wc, wc_default_period wc) | Some p \<Rightarrow> p))"

definition unthrottled :: "web_config \<Rightarrow> web_request \<Rightarrow> bool" where
  "unthrottled wc rq \<longleftrightarrow>
     startswith (hr_path rq) STATIC_PREFIX \<or>
     (case hr_endpoint rq of
        None \<Rightarrow> False
      | Some e \<Rightarrow> e \<in> set EXEMPT_ENDPOINTS \<or> (wc_auth_disabled wc \<and> startswith e ''auth.''))"

text \<open>The answer of the limiter: nothing to say, or the refusal.\<close>

definition check_rate_limit ::
  "(moment \<Rightarrow> string \<Rightarrow> int \<Rightarrow> int \<Rightarrow> 'l \<Rightarrow> rate_decision \<times> 'l) \<Rightarrow> web_config \<Rightarrow> moment \<Rightarrow> web_request \<Rightarrow> signed_in option \<Rightarrow> 'l
   \<Rightarrow> bool \<times> 'l" where
  "check_rate_limit check wc now rq who lim =
     (if unthrottled wc rq then (True, lim)
      else case limit_for wc rq of (limit, period) \<Rightarrow>
        (case check now (limiter_key wc rq who) limit period lim of (decision, lim1) \<Rightarrow> (rd_allowed decision, lim1)))"

section \<open>Forged writes\<close>

definition CSRF_TOKEN_TTL_SECONDS :: int where
  "CSRF_TOKEN_TTL_SECONDS = 12 * 3600"

definition SAFE_METHODS :: "string list" where
  "SAFE_METHODS = [''GET'', ''HEAD'', ''OPTIONS'', ''TRACE'']"

definition COOKIE_AUTHORITY_ENDPOINTS :: "string list" where
  "COOKIE_AUTHORITY_ENDPOINTS = [''auth.refresh_token'', ''auth.logout'']"

definition hmac_sha256 :: "bytes \<Rightarrow> bytes \<Rightarrow> bytes" where
  "hmac_sha256 key msg =
     (let key1 = (if length key > 64 then sha256 key else key);
          block = key1 @ replicate (64 - length key1) 0
      in sha256 (map (\<lambda>b. b XOR 92) block @ sha256 (map (\<lambda>b. b XOR 54) block @ msg)))"

definition csrf_message :: "string \<Rightarrow> string \<Rightarrow> int \<Rightarrow> string" where
  "csrf_message user_id nonce issued_at = user_id @ '':'' @ nonce @ '':'' @ str_of_int issued_at"

definition csrf_signature :: "string \<Rightarrow> string \<Rightarrow> string \<Rightarrow> int \<Rightarrow> string" where
  "csrf_signature secret_key user_id nonce issued_at =
     hexdigest (hmac_sha256 (utf8_encode secret_key) (utf8_encode (csrf_message user_id nonce issued_at)))"

definition build_csrf_token :: "string \<Rightarrow> string \<Rightarrow> string \<Rightarrow> moment \<Rightarrow> string" where
  "build_csrf_token secret_key user_id nonce now =
     (let issued_at = now div second
      in nonce @ ''.'' @ str_of_int issued_at @ ''.'' @ csrf_signature secret_key user_id nonce issued_at)"

text \<open>\<^verbatim>\<open>int(s)\<close>: white space around, a sign, digits that single underscores may separate, at most 4300 of them.\<close>

definition python_int :: "string \<Rightarrow> int option" where
  "python_int s =
     (let t = strip s;
          body = (case t of [] \<Rightarrow> [] | c # cs \<Rightarrow> if c = CHR ''+'' \<or> c = CHR ''-'' then cs else t);
          parts = split_on (CHR ''_'') body;
          n = number_of 10 (concat parts)
      in if list_all (\<lambda>p. p \<noteq> [] \<and> list_all is_digit p) parts \<and> length (concat parts) \<le> 4300
         then Some (if startswith t ''-'' then - n else n) else None)"

definition verify_csrf_token :: "string \<Rightarrow> moment \<Rightarrow> string \<Rightarrow> string \<Rightarrow> bool" where
  "verify_csrf_token secret_key now user_id token =
     (case split_on (CHR ''.'') token of
        [nonce, raw_issued_at, signature] \<Rightarrow>
          if nonce = [] \<or> signature = [] then False
          else (case python_int raw_issued_at of
                  None \<Rightarrow> False
                | Some issued_at \<Rightarrow>
                    if now div second - issued_at > CSRF_TOKEN_TTL_SECONDS then False
                    else signature = csrf_signature secret_key user_id nonce issued_at)
      | _ \<Rightarrow> False)"

definition LOOPBACK_TWINS :: "(string \<times> string) list" where
  "LOOPBACK_TWINS = [(''localhost'', ''127.0.0.1''), (''127.0.0.1'', ''localhost'')]"

text \<open>Reading the port of a malformed authority raises, and the service does not start.\<close>

definition loopback_twin :: "parse_result \<Rightarrow> (exn, string list) result" where
  "loopback_twin p =
     (case map_of LOOPBACK_TWINS (hostname p) of
        None \<Rightarrow> Inr []
      | Some twin \<Rightarrow>
          (case port_of p of
             Inl _ \<Rightarrow> Inl (ValueError ''port'')
           | Inr port \<Rightarrow>
               Inr [pr_scheme p @ ''://'' @ twin @ (case port of None \<Rightarrow> [] | Some n \<Rightarrow> if n = 0 then [] else '':'' @ str_of_int n)]))"

definition build_allowed_origins :: "web_config \<Rightarrow> (exn, string list) result" where
  "build_allowed_origins wc =
     (let origins = map (rstrip_char (CHR ''/'')) (wc_cors_origins wc)
      in if wc_base_url wc = [] then Inr origins
         else case urlparse (wc_base_url wc) of
           None \<Rightarrow> Inl (ValueError ''BASE_URL'')
         | Some p \<Rightarrow>
             if pr_scheme p \<noteq> [] \<and> pr_netloc p \<noteq> []
             then rbind (loopback_twin p) (\<lambda>twins. Inr (origins @ [pr_scheme p @ ''://'' @ pr_netloc p] @ twins))
             else Inr origins)"

definition has_auth_cookie :: "web_request \<Rightarrow> bool" where
  "has_auth_cookie rq \<longleftrightarrow> truthy (hr_access_cookie rq) \<noteq> None \<or> truthy (wr_refresh_cookie rq) \<noteq> None"

definition is_cookie_authenticated :: "web_request \<Rightarrow> signed_in option \<Rightarrow> bool" where
  "is_cookie_authenticated rq who \<longleftrightarrow>
     (if \<exists>e. hr_endpoint rq = Some e \<and> e \<in> set COOKIE_AUTHORITY_ENDPOINTS then has_auth_cookie rq
      else if map_option si_source who = Some FromHeader then False
      else has_auth_cookie rq)"

definition resolve_user_id :: "auth_config \<Rightarrow> moment \<Rightarrow> web_request \<Rightarrow> string option" where
  "resolve_user_id ac now rq =
     (case (case truthy (hr_access_cookie rq) of None \<Rightarrow> None | Some token \<Rightarrow> validate_token ac now token ''access'') of
        Some payload \<Rightarrow> Some (cl_sub payload)
      | None \<Rightarrow>
          (case (case truthy (wr_refresh_cookie rq) of None \<Rightarrow> None | Some token \<Rightarrow> validate_token ac now token ''refresh'') of
             Some payload \<Rightarrow> Some (cl_sub payload)
           | None \<Rightarrow> None))"

definition origin_is_allowed :: "string list \<Rightarrow> web_request \<Rightarrow> (exn, bool) result" where
  "origin_is_allowed allowed_origins rq =
     (case truthy (wr_origin rq) of
        Some origin \<Rightarrow> Inr (rstrip_char (CHR ''/'') origin \<in> set allowed_origins)
      | None \<Rightarrow>
          (case truthy (wr_referer rq) of
             None \<Rightarrow> Inr True
           | Some referer \<Rightarrow>
               (case urlparse referer of
                  None \<Rightarrow> Inl (ValueError ''Referer'')
                | Some p \<Rightarrow>
                    if pr_scheme p = [] \<or> pr_netloc p = [] then Inr False
                    else Inr (rstrip_char (CHR ''/'') (pr_scheme p @ ''://'' @ pr_netloc p) \<in> set allowed_origins))))"

text \<open>Whether the request may go on.\<close>

definition enforce_csrf ::
  "auth_config \<Rightarrow> web_config \<Rightarrow> string list \<Rightarrow> moment \<Rightarrow> web_request \<Rightarrow> signed_in option \<Rightarrow> (exn, bool) result" where
  "enforce_csrf ac wc allowed_origins now rq who =
     (if wr_method rq \<in> set SAFE_METHODS then Inr True
      else if \<not> is_cookie_authenticated rq who then Inr True
      else rbind (origin_is_allowed allowed_origins rq) (\<lambda>allowed.
        if \<not> allowed then Inr False
        else case (truthy (wr_csrf_cookie rq), truthy (wr_csrf_header rq)) of
          (Some cookie_token, Some header_token) \<Rightarrow>
            if cookie_token \<noteq> header_token then Inr False
            else (case truthy (resolve_user_id ac now rq) of
                    None \<Rightarrow> Inr False
                  | Some user_id \<Rightarrow> Inr (verify_csrf_token (wc_secret_key wc) now user_id cookie_token))
        | _ \<Rightarrow> Inr False))"

text \<open>The token an answer sets as a cookie, unless it already sets one.\<close>

definition issue_csrf_cookie :: "auth_config \<Rightarrow> web_config \<Rightarrow> moment \<Rightarrow> string \<Rightarrow> bool \<Rightarrow> web_request \<Rightarrow> string option" where
  "issue_csrf_cookie ac wc now nonce already_set rq =
     (if startswith (hr_path rq) ''/static/'' \<or> already_set \<or> \<not> has_auth_cookie rq then None
      else case truthy (resolve_user_id ac now rq) of
        None \<Rightarrow> None
      | Some user_id \<Rightarrow>
          (case truthy (wr_csrf_cookie rq) of
             Some existing \<Rightarrow>
               if verify_csrf_token (wc_secret_key wc) now user_id existing then None
               else Some (build_csrf_token (wc_secret_key wc) user_id nonce now)
           | None \<Rightarrow> Some (build_csrf_token (wc_secret_key wc) user_id nonce now)))"

section \<open>Query parameters\<close>

definition API_PREFIX :: string where
  "API_PREFIX = ''/api/v1''"

definition refuse_undeclared_query_parameters ::
  "(string \<times> string \<Rightarrow> string list option) \<Rightarrow> web_request \<Rightarrow> (exn, unit) result" where
  "refuse_undeclared_query_parameters declared rq =
     (case (if \<not> hr_has_rule rq \<or> \<not> startswith (wr_rule rq) API_PREFIX then None else declared (wr_rule rq, wr_method rq)) of
        None \<Rightarrow> Inr ()
      | Some allowed \<Rightarrow>
          (case sort (remdups (filter (\<lambda>a. a \<notin> set allowed) (wr_args rq))) of
             [] \<Rightarrow> Inr ()
           | name # _ \<Rightarrow>
               Inl (Domain (ValidationError (apos @ name @ apos @ '' is not a parameter of this endpoint'') name
                 (Some (apos @ ''%(name)s'' @ apos @ '' is not a parameter of this endpoint'')) [(''name'', PStr name)]))))"

section \<open>The gate\<close>

datatype verdict = Refused int string | Admitted "signed_in option"

definition refusal :: "exn \<Rightarrow> verdict" where
  "refusal e = Refused (ea_status (respond_to e)) (ea_code (respond_to e))"

definition before_request ::
  "(string \<times> string \<Rightarrow> string list option) \<Rightarrow> (moment \<Rightarrow> string \<Rightarrow> int \<Rightarrow> int \<Rightarrow> 'l \<Rightarrow> rate_decision \<times> 'l) \<Rightarrow> auth_config \<Rightarrow> web_config
   \<Rightarrow> string list \<Rightarrow> moment \<Rightarrow> web_request \<Rightarrow> database \<Rightarrow> 'l \<Rightarrow> verdict \<times> 'l" where
  "before_request declared check ac wc allowed_origins now rq db lim =
     (if \<not> host_is_allowed wc rq then (Refused 400 ''BAD_REQUEST'', lim)
      else case load_current_user ac now (http_request.truncate rq) db of
        Inl e \<Rightarrow> (refusal e, lim)
      | Inr who \<Rightarrow>
          (case check_rate_limit check wc now rq who lim of (pass, lim1) \<Rightarrow>
             if \<not> pass then (Refused 429 ''RATE_LIMIT_EXCEEDED'', lim1)
             else case enforce_csrf ac wc allowed_origins now rq who of
               Inl e \<Rightarrow> (refusal e, lim1)
             | Inr False \<Rightarrow> (Refused 403 ''CSRF_TOKEN_INVALID'', lim1)
             | Inr True \<Rightarrow>
                 (case refuse_undeclared_query_parameters declared rq of
                    Inl e \<Rightarrow> (refusal e, lim1)
                  | Inr _ \<Rightarrow> (Admitted who, lim1))))"


section \<open>Lemmas: tokens\<close>

lemma split_on_first: "sep \<notin> set a \<Longrightarrow> split_on sep (a @ sep # b) = a # split_on sep b"
  by (induction a) auto

lemma signature_text:
  "CHR ''.'' \<notin> set (csrf_signature secret user_id nonce issued_at)" "csrf_signature secret user_id nonce issued_at \<noteq> []"
proof -
  have "length (csrf_signature secret user_id nonce issued_at) = 64"
    by (simp add: csrf_signature_def hmac_sha256_def Let_def)
  then show "csrf_signature secret user_id nonce issued_at \<noteq> []" by auto
  have "list_all is_lower_hex (csrf_signature secret user_id nonce issued_at)"
    unfolding csrf_signature_def hmac_sha256_def Let_def by (intro hexdigest_lower_hex ballI sha256_byte)
  moreover have "\<not> is_lower_hex (CHR ''.'')" by code_simp
  ultimately show "CHR ''.'' \<notin> set (csrf_signature secret user_id nonce issued_at)" by (auto simp: list_all_iff)
qed

lemma str_of_nat_length: "n < 10 ^ k \<Longrightarrow> 0 < k \<Longrightarrow> length (str_of_nat n) \<le> k"
proof (induction k arbitrary: n)
  case (Suc k)
  show ?case
  proof (cases "n < 10")
    case False
    then have "0 < k" using Suc.prems by (cases k) auto
    moreover have "n div 10 < 10 ^ k" using Suc.prems by (simp add: less_mult_imp_div_less mult.commute)
    ultimately have "length (str_of_nat (n div 10)) \<le> k" by (intro Suc.IH)
    with False show ?thesis by (subst str_of_nat.simps) simp
  qed (subst str_of_nat.simps, simp)
qed simp

lemma python_int_prints:
  assumes "n < 10 ^ 12" shows "python_int (str_of_nat n) = Some (int n)"
proof -
  have d: "list_all is_digit (str_of_nat n)" "str_of_nat n \<noteq> []" using str_of_nat_digits by auto
  have no: "c \<notin> set (str_of_nat n)" if "\<not> is_digit c" for c using d(1) that by (auto simp: list_all_iff)
  have plain: "\<not> is_digit (CHR ''_'')" "\<not> is_digit (CHR ''+'')" "\<not> is_digit (CHR ''-'')" by code_simp+
  have sp: "is_digit c \<Longrightarrow> \<not> is_space c" for c by (auto simp: is_digit_def is_space_def char_range_def code_def)
  have strip: "strip (str_of_nat n) = str_of_nat n"
  proof -
    have "\<forall>c \<in> set (str_of_nat n). \<not> is_space c" using d(1) sp by (auto simp: list_all_iff)
    then have "dropWhile is_space (str_of_nat n) = str_of_nat n" "dropWhile is_space (rev (str_of_nat n)) = rev (str_of_nat n)"
      using d(2) hd_in_set [of "str_of_nat n"] hd_in_set [of "rev (str_of_nat n)"] by (auto simp: dropWhile_eq_self_iff)
    then show ?thesis by (simp add: strip_def lstrip_def)
  qed
  obtain c cs where c: "str_of_nat n = c # cs" using d(2) by (cases "str_of_nat n") auto
  have first: "c \<noteq> CHR ''+''" "c \<noteq> CHR ''-''" using no plain c by force+
  have "split_on (CHR ''_'') (str_of_nat n) = [str_of_nat n]" by (intro split_on_absent no plain)
  moreover have "length (str_of_nat n) \<le> 4300" using str_of_nat_length [OF assms] by simp
  moreover have "\<not> startswith (str_of_nat n) ''-''" using first by (simp add: c startswith_def)
  ultimately show ?thesis
    using d first number_of_str_of_nat [of n] unfolding python_int_def strip Let_def by (simp add: c)
qed

lemma utf8_char_first: "utf8_char c @ a = utf8_char d @ b \<Longrightarrow> c = d \<and> a = b"
proof -
  assume eq: "utf8_char c @ a = utf8_char d @ b"
  have bound: "code x < 256" for x by (simp add: code_def)
  have "int (code c) = int (code d) \<and> a = b"
    using eq bound [of c] bound [of d] by (auto simp: utf8_char_def is_ascii_char_def split: if_splits) (metis div_mult_mod_eq of_nat_eq_iff code_inject)+
  then show ?thesis by simp
qed

lemma utf8_encode_inj: "utf8_encode a = utf8_encode b \<Longrightarrow> a = b"
proof (induction a arbitrary: b)
  case Nil
  then show ?case by (cases b) (auto simp: utf8_encode_def utf8_char_def split: if_splits)
next
  case (Cons c a)
  obtain d b' where b: "b = d # b'" using Cons.prems by (cases b) (auto simp: utf8_encode_def utf8_char_def split: if_splits)
  have "utf8_char c @ utf8_encode a = utf8_char d @ utf8_encode b'" using Cons.prems by (simp add: b utf8_encode_def)
  from utf8_char_first [OF this] Cons.IH show ?case by (simp add: b)
qed

text \<open>
  A token names the account it was issued to, up to a collision of the message authentication
  code on the two messages at hand, and the second it was issued in.
\<close>

definition hmac_collision :: "string \<Rightarrow> string \<Rightarrow> string \<Rightarrow> bool" where
  "hmac_collision secret m m' \<longleftrightarrow> utf8_encode m \<noteq> utf8_encode m'
     \<and> hexdigest (hmac_sha256 (utf8_encode secret) (utf8_encode m)) = hexdigest (hmac_sha256 (utf8_encode secret) (utf8_encode m'))"

lemma csrf_token_verifies:
  assumes "CHR ''.'' \<notin> set nonce" "nonce \<noteq> []" and t: "0 \<le> t" "t div second < 10 ^ 12"
  shows "verify_csrf_token secret now u (build_csrf_token secret v nonce t) \<longleftrightarrow>
    now div second - t div second \<le> CSRF_TOKEN_TTL_SECONDS \<and> csrf_signature secret v nonce (t div second) = csrf_signature secret u nonce (t div second)"
proof -
  have issued: "str_of_int (t div second) = str_of_nat (nat (t div second))" "0 \<le> t div second"
    using t(1) by (simp_all add: str_of_int_def second_def pos_imp_zdiv_nonneg_iff)
  have "CHR ''.'' \<notin> set (str_of_nat n)" for n
    using str_of_nat_digits [of n] by (auto simp: list_all_iff is_digit_def char_range_def code_def)
  then have "split_on (CHR ''.'') (build_csrf_token secret v nonce t) =
      [nonce, str_of_nat (nat (t div second)), csrf_signature secret v nonce (t div second)]"
    using assms(1) signature_text(1) by (simp add: build_csrf_token_def Let_def issued split_on_first split_on_absent)
  moreover have "python_int (str_of_nat (nat (t div second))) = Some (t div second)"
    using python_int_prints [of "nat (t div second)"] t(2) issued(2) by (simp add: nat_less_iff)
  ultimately show ?thesis using assms(2) signature_text(2) by (auto simp: verify_csrf_token_def)
qed

lemma foreign_token_collides:
  assumes "csrf_signature secret v nonce t = csrf_signature secret u nonce t" and "v \<noteq> u"
  shows "hmac_collision secret (csrf_message v nonce t) (csrf_message u nonce t)"
proof -
  have "csrf_message v nonce t \<noteq> csrf_message u nonce t" using assms(2) by (simp add: csrf_message_def)
  then have "utf8_encode (csrf_message v nonce t) \<noteq> utf8_encode (csrf_message u nonce t)" using utf8_encode_inj by blast
  then show ?thesis using assms(1) unfolding hmac_collision_def csrf_signature_def by blast
qed

section \<open>Lemmas: the gate\<close>

lemma admitted_steps:
  assumes "before_request declared check ac wc origins now rq db lim = (Admitted who, lim')"
  shows "host_is_allowed wc rq" and "load_current_user ac now (http_request.truncate rq) db = Inr who"
    and "check_rate_limit check wc now rq who lim = (True, lim')" and "enforce_csrf ac wc origins now rq who = Inr True"
    and "refuse_undeclared_query_parameters declared rq = Inr ()"
  using assms by (auto simp: before_request_def refusal_def split: if_splits sum.splits prod.splits bool.splits)

lemma cookie_user_is_resolved:
  assumes "load_current_user ac now (http_request.truncate rq) db = Inr (Some si)" and "si_source si = FromCookie"
  shows "resolve_user_id ac now rq = Some (us_id (si_user si))"
proof -
  have f: "hr_access_cookie (http_request.truncate rq) = hr_access_cookie rq" by (simp add: http_request.truncate_def)
  obtain token source p where pt: "presented_token (http_request.truncate rq) = Some (token, source)" and v: "validate_token ac now token ''access'' = Some p"
    and u: "find_user_by_id (cl_sub p) db = Inr (Some (si_user si))" and s: "source = si_source si"
    using assms(1) by (auto simp: load_current_user_def Let_def split: if_splits option.splits sum.splits exn.splits prod.splits)
  have "truthy (hr_access_cookie rq) = Some token"
    using pt s assms(2) by (auto simp: presented_token_def f split: option.splits if_splits)
  then show ?thesis using v find_user_by_id_Some [OF u] by (simp add: resolve_user_id_def)
qed

lemma ml_check_step:
  assumes w: "window_inv limit period t0 acc (lim key)" and le: "t0 \<le> now" and p: "0 < period"
    and c: "ml_check now k l q lim = (d, lim1)" and same: "k = key \<Longrightarrow> l = limit \<and> q = period"
  shows "window_inv limit period now (acc @ (if k = key \<and> rd_allowed d then [now] else [])) (lim1 key)"
proof -
  let ?kept = "filter (\<lambda>ts. now - q * second < ts) (lim k)"
  have d: "rd_allowed d \<longleftrightarrow> int (length ?kept) < l" and l1: "lim1 = lim(k := (if rd_allowed d then ?kept @ [now] else ?kept))"
    using c by (auto simp: ml_check_def ml_is_allowed_def Let_def split: if_splits)
  show ?thesis
  proof (cases "k = key")
    case True
    then show ?thesis using window_inv_pass [OF w le p] window_inv_prune(2) [OF w le] d l1 same by auto
  next
    case False
    then show ?thesis using window_inv_later [OF w le] l1 by simp
  qed
qed

text \<open>Requests one after the other through the gate, on the limiter in memory.\<close>

fun gate_run ::
  "(string \<times> string \<Rightarrow> string list option) \<Rightarrow> auth_config \<Rightarrow> web_config \<Rightarrow> string list \<Rightarrow> (moment \<times> web_request \<times> database) list
   \<Rightarrow> memory_limiter \<Rightarrow> verdict list" where
  "gate_run declared ac wc origins [] lim = []"
| "gate_run declared ac wc origins ((now, rq, db) # rs) lim =
     (case before_request declared ml_check ac wc origins now rq db lim of (v, lim1) \<Rightarrow>
        v # gate_run declared ac wc origins rs lim1)"

text \<open>The moments at which requests without an account from an address reached an endpoint.\<close>

definition let_in :: "string \<Rightarrow> string \<Rightarrow> (moment \<times> web_request \<times> database) list \<Rightarrow> verdict list \<Rightarrow> moment list" where
  "let_in a e rs vs =
     map (fst \<circ> fst) (filter (\<lambda>((now, rq, db), v). v = Admitted None \<and> wr_remote_addr rq = Some a \<and> hr_endpoint rq = Some e
        \<and> \<not> startswith (hr_path rq) STATIC_PREFIX) (zip rs vs))"

definition endpoint_named :: "web_request \<Rightarrow> bool" where
  "endpoint_named rq \<longleftrightarrow> (case hr_endpoint rq of None \<Rightarrow> True | Some e \<Rightarrow> CHR '':'' \<notin> set e \<and> e \<noteq> ''None'')"

lemma last_separator: "a @ c # b = a' @ c # b' \<Longrightarrow> c \<notin> set b \<Longrightarrow> c \<notin> set b' \<Longrightarrow> a = a' \<and> b = b'"
  by (induction a arbitrary: a') (auto simp: Cons_eq_append_conv append_eq_Cons_conv)

lemma key_names_endpoint:
  assumes key: "limiter_key wc rq who = a @ '':'' @ e" and "endpoint_named rq" and e: "CHR '':'' \<notin> set e" "e \<noteq> ''None''"
  shows "hr_endpoint rq = Some e"
proof -
  have "CHR '':'' \<notin> set (endpoint_text rq)" using assms(2) by (auto simp: endpoint_named_def endpoint_text_def split: option.splits)
  from last_separator [OF _ this e(1)] key have "endpoint_text rq = e" by (auto simp: limiter_key_def)
  then show ?thesis using e(2) by (auto simp: endpoint_text_def split: option.splits)
qed

lemma before_request_limiter:
  assumes "before_request declared check ac wc origins now rq db lim = (v, lim1)"
  shows "lim1 = lim \<and> (\<nexists>who. v = Admitted who) \<or> (\<exists>who b. check_rate_limit check wc now rq who lim = (b, lim1) \<and> (\<forall>who'. v = Admitted who' \<longrightarrow> who' = who \<and> b))"
  using assms by (auto simp: before_request_def refusal_def split: if_splits sum.splits prod.splits bool.splits)

lemma gate_run_inv:
  assumes lim: "limit_for wc r0 = (limit, period)" "hr_endpoint r0 = Some e" and p: "0 < period"
    and e: "CHR '':'' \<notin> set e" "e \<noteq> ''None''" "e \<notin> set EXEMPT_ENDPOINTS" "\<not> (wc_auth_disabled wc \<and> startswith e ''auth.'')"
    and a: "a \<notin> set (wc_trusted_proxies wc)"
    and "sorted (map fst rs)" "\<forall>r \<in> set rs. t0 \<le> fst r" "\<forall>r \<in> set rs. endpoint_named (fst (snd r))"
    and "window_inv limit period t0 acc (st (a @ '':'' @ e))"
  shows "\<exists>passed. int (in_window period t (acc @ passed)) \<le> max 0 limit \<and>
    in_window period t (let_in a e rs (gate_run declared ac wc origins rs st)) \<le> in_window period t passed"
  using assms(9-12)
proof (induction rs arbitrary: t0 acc st)
  case Nil
  then show ?case by (intro exI [of _ "[]"]) (simp add: window_inv_def let_in_def in_window_def)
next
  case (Cons r rs)
  let ?key = "a @ '':'' @ e"
  obtain now rq db where r: "r = (now, rq, db)" by (rule prod_cases3)
  obtain v st1 where b: "before_request declared ml_check ac wc origins now rq db st = (v, st1)" by (rule prod.exhaust)
  have le: "t0 \<le> now" and named: "endpoint_named rq" using Cons.prems(2,3) by (auto simp: r)
  have rest: "sorted (map fst rs)" "\<forall>x \<in> set rs. now \<le> fst x" "\<forall>x \<in> set rs. endpoint_named (fst (snd x))"
    using Cons.prems(1,3) by (auto simp: r)
  let ?mine = "v = Admitted None \<and> wr_remote_addr rq = Some a \<and> hr_endpoint rq = Some e \<and> \<not> startswith (hr_path rq) STATIC_PREFIX"
  have "\<exists>new. window_inv limit period now (acc @ new) (st1 ?key) \<and> (?mine \<longrightarrow> new = [now])"
  proof (cases "\<exists>who d. \<not> unthrottled wc rq \<and> ml_check now (limiter_key wc rq who) (fst (limit_for wc rq)) (snd (limit_for wc rq)) st = (d, st1)
      \<and> (\<forall>who'. v = Admitted who' \<longrightarrow> who' = who \<and> rd_allowed d)")
    case True
    then obtain who d where c: "ml_check now (limiter_key wc rq who) (fst (limit_for wc rq)) (snd (limit_for wc rq)) st = (d, st1)"
      and v: "\<forall>who'. v = Admitted who' \<longrightarrow> who' = who \<and> rd_allowed d" by blast
    have same: "fst (limit_for wc rq) = limit \<and> snd (limit_for wc rq) = period" if "limiter_key wc rq who = ?key"
      using key_names_endpoint [OF that named e(1,2)] lim by (simp add: limit_for_def)
    have "window_inv limit period now (acc @ (if limiter_key wc rq who = ?key \<and> rd_allowed d then [now] else [])) (st1 ?key)"
      by (rule ml_check_step [OF Cons.prems(4) le p c same])
    moreover have "limiter_key wc rq who = ?key \<and> rd_allowed d" if ?mine
      using that v a by (auto simp: limiter_key_def get_client_ip_def endpoint_text_def Let_def)
    ultimately show ?thesis by (intro exI [of _ "if limiter_key wc rq who = ?key \<and> rd_allowed d then [now] else []"]) auto
  next
    case False
    have "st1 = st \<and> \<not> ?mine"
    proof (cases "\<exists>who. v = Admitted who")
      case no: False
      then show ?thesis using before_request_limiter [OF b] False
        by (auto simp: check_rate_limit_def case_prod_beta split: if_splits) (metis prod.collapse)
    next
      case yes: True
      then show ?thesis using before_request_limiter [OF b] False e(3,4)
        by (auto simp: check_rate_limit_def case_prod_beta unthrottled_def split: if_splits) (metis prod.collapse)+
    qed
    then show ?thesis using window_inv_later [OF Cons.prems(4) le] by (intro exI [of _ "[]"]) auto
  qed
  then obtain new where new: "window_inv limit period now (acc @ new) (st1 ?key)" "?mine \<longrightarrow> new = [now]" by blast
  from Cons.IH [of now "acc @ new" st1, OF rest new(1)] obtain passed where q: "int (in_window period t ((acc @ new) @ passed)) \<le> max 0 limit"
    "in_window period t (let_in a e rs (gate_run declared ac wc origins rs st1)) \<le> in_window period t passed" by blast
  have "let_in a e (r # rs) (gate_run declared ac wc origins (r # rs) st) = (if ?mine then [now] else []) @ let_in a e rs (gate_run declared ac wc origins rs st1)"
    by (simp add: let_in_def r b)
  then have "in_window period t (let_in a e (r # rs) (gate_run declared ac wc origins (r # rs) st)) \<le> in_window period t (new @ passed)"
    using q(2) new(2) by (auto simp: in_window_def)
  then show ?case using q(1) by (intro exI [of _ "new @ passed"]) simp
qed

section \<open>A sample request\<close>

definition sample_wc :: web_config where
  "sample_wc = \<lparr>wc_secret_key = ''secret'', wc_base_url = ''https://ls.example'', wc_cors_origins = [], wc_allowed_hosts = [],
     wc_trusted_proxies = [''10.0.0.1''], wc_default_limit = 2, wc_default_period = 60, wc_rate_limits = [], wc_auth_disabled = False\<rparr>"

definition sample_logout :: web_request where
  "sample_logout =
     \<lparr>hr_path = ''/api/v1/auth/logout'', hr_authorization = None, hr_access_cookie = None, hr_endpoint = Some ''auth.logout'', hr_has_rule = True,
      wr_method = ''POST'', wr_host = ''ls.example'', wr_remote_addr = Some ''203.0.113.7'', wr_origin = Some ''https://ls.example'', wr_referer = None,
      wr_csrf_header = Some (build_csrf_token ''secret'' ''root'' ''n0nce'' 0), wr_forwarded_for = None,
      wr_refresh_cookie = Some (sample_token ''t1''), wr_csrf_cookie = Some (build_csrf_token ''secret'' ''root'' ''n0nce'' 0),
      wr_rule = ''/api/v1/auth/logout'', wr_args = []\<rparr>"

lemma sample_logout_names:
  "resolve_user_id sample_ac 0 sample_logout = Some ''root''" "is_cookie_authenticated sample_logout None"
proof -
  have "sample_token ''t1'' \<noteq> []" by (simp add: sample_token_def sample_encode_def frame_def)
  then have tr: "truthy (Some (sample_token ''t1'')) = Some (sample_token ''t1'')" by (simp add: truthy_Some)
  have "(0::moment) < 90 * second" by (simp add: second_def)
  from sample_validate [OF this]
  show "resolve_user_id sample_ac 0 sample_logout = Some ''root''"
    by (simp add: resolve_user_id_def sample_logout_def tr truthy_def [of None])
  show "is_cookie_authenticated sample_logout None"
    by (simp add: is_cookie_authenticated_def has_auth_cookie_def sample_logout_def tr COOKIE_AUTHORITY_ENDPOINTS_def)
qed

lemma sample_logout_admitted:
  "before_request (\<lambda>_. None) ml_check sample_ac sample_wc [''https://ls.example''] 0 sample_logout sample_db (\<lambda>_. [])
   = (Admitted None, (\<lambda>_. [])(''203.0.113.7:auth.logout'' := [0]))"
proof -
  have v: "verify_csrf_token ''secret'' 0 ''root'' (build_csrf_token ''secret'' ''root'' ''n0nce'' 0)"
    by (subst csrf_token_verifies) (simp_all add: CSRF_TOKEN_TTL_SECONDS_def)
  have "build_csrf_token ''secret'' ''root'' ''n0nce'' 0 \<noteq> []" by (simp add: build_csrf_token_def Let_def)
  then have t: "truthy (Some (build_csrf_token ''secret'' ''root'' ''n0nce'' 0)) = Some (build_csrf_token ''secret'' ''root'' ''n0nce'' 0)"
    by (simp add: truthy_Some)
  note u = sample_logout_names(1) and cookie = sample_logout_names(2)
  have slash: "rstrip_char (CHR ''/'') ''https://ls.example'' = ''https://ls.example''" by code_simp
  have o: "origin_is_allowed [''https://ls.example''] sample_logout = Inr True"
    by (simp add: origin_is_allowed_def sample_logout_def truthy_def slash)
  have csrf: "enforce_csrf sample_ac sample_wc [''https://ls.example''] 0 sample_logout None = Inr True"
  proof -
    have r: "truthy (Some ''root'') = Some ''root''" by (simp add: truthy_def)
    have f: "wr_method sample_logout \<notin> set SAFE_METHODS" "wr_csrf_cookie sample_logout = Some (build_csrf_token ''secret'' ''root'' ''n0nce'' 0)"
      "wr_csrf_header sample_logout = Some (build_csrf_token ''secret'' ''root'' ''n0nce'' 0)" "wc_secret_key sample_wc = ''secret''"
      by (simp_all add: sample_logout_def SAFE_METHODS_def sample_wc_def)
    show ?thesis using cookie by (simp add: enforce_csrf_def f o t u r v)
  qed
  have "load_current_user sample_ac 0 (http_request.truncate sample_logout) sample_db = Inr None"
    by (simp add: load_current_user_def presented_token_def sample_logout_def http_request.truncate_def truthy_def)
  moreover have "check_rate_limit ml_check sample_wc 0 sample_logout None (\<lambda>_. []) = (True, (\<lambda>_. [])(''203.0.113.7:auth.logout'' := [0]))"
    by (simp add: check_rate_limit_def unthrottled_def STATIC_PREFIX_def EXEMPT_ENDPOINTS_def limit_for_def limiter_key_def get_client_ip_def
        endpoint_text_def ml_check_def ml_is_allowed_def sample_logout_def sample_wc_def startswith_def)
  ultimately show ?thesis using csrf
    by (simp add: before_request_def host_is_allowed_def normalise_all_def sample_wc_def)
       (simp add: refuse_undeclared_query_parameters_def)
qed

section \<open>Properties\<close>




definition sample_visit_rq :: "string \<Rightarrow> web_request" where
  "sample_visit_rq forwarded =
     \<lparr>hr_path = ''/abc123'', hr_authorization = None, hr_access_cookie = None, hr_endpoint = Some ''redirect_to_original'', hr_has_rule = True,
      wr_method = ''GET'', wr_host = ''ls.example'', wr_remote_addr = Some ''203.0.113.7'', wr_origin = None, wr_referer = None,
      wr_csrf_header = None, wr_forwarded_for = Some forwarded, wr_refresh_cookie = None, wr_csrf_cookie = None,
      wr_rule = ''/<short_code>'', wr_args = []\<rparr>"


end
