(* ===== verification/Environment.thy ===== *)
theory Environment
  imports Web_Guards
begin

text \<open>
  How a setting is read: \<^verbatim>\<open>infrastructure/configs/app/env.py\<close> and the part of
  \<^verbatim>\<open>infrastructure/configs/app/factory.py\<close> that chooses a profile and publishes the \<^verbatim>\<open>.env\<close> files
  into the environment. The environment of the process is a map from names to texts. What
  \<^verbatim>\<open>python-dotenv\<close> finds and reads is an argument, about which nothing is assumed but that the
  keys of a file are distinct where a property needs it.
\<close>

section \<open>Reading a text\<close>

type_synonym environ = "string \<Rightarrow> string option"

definition TRUE_VALUES :: "string list" where
  "TRUE_VALUES = [''true'', ''1'', ''yes'', ''on'']"

definition FALSE_VALUES :: "string list" where
  "FALSE_VALUES = [''false'', ''0'', ''no'', ''off'']"

definition to_bool :: "string \<Rightarrow> bool option" where
  "to_bool raw =
     (let normalized = lower (strip raw)
      in if normalized \<in> set TRUE_VALUES then Some True
         else if normalized \<in> set FALSE_VALUES then Some False
         else None)"

definition to_list :: "string \<Rightarrow> string list" where
  "to_list raw = map strip (filter (\<lambda>item. strip item \<noteq> []) (split_on (CHR '','') raw))"

text \<open>
  \<^verbatim>\<open>float(raw)\<close>. A finite number is kept as the decimal it was written as, mantissa and
  exponent; what is rounded to infinity or to zero in double precision is told apart, since
  that is all the settings ask of a number besides its sign.
\<close>

datatype py_float = Decimal int int | Infinity bool | NaN

definition digit_part :: "string \<Rightarrow> string option" where
  "digit_part s =
     (let parts = split_on (CHR ''_'') s
      in if list_all (\<lambda>p. p \<noteq> [] \<and> list_all is_digit p) parts then Some (concat parts) else None)"

definition split_sign :: "string \<Rightarrow> bool \<times> string" where
  "split_sign s =
     (case s of [] \<Rightarrow> (False, []) | c # cs \<Rightarrow> if c = CHR ''-'' then (True, cs) else if c = CHR ''+'' then (False, cs) else (False, s))"

definition exponent_part :: "string \<times> string \<times> string \<Rightarrow> int option" where
  "exponent_part split =
     (case split of (_, mark, rest) \<Rightarrow>
        if mark = [] then Some 0
        else case split_sign rest of (negative, digits) \<Rightarrow>
          map_option (\<lambda>ds. if negative then - number_of 10 ds else number_of 10 ds) (digit_part digits))"

definition mantissa_part :: "string \<Rightarrow> (string \<times> string) option" where
  "mantissa_part s =
     (case partition_on (CHR ''.'') s of (whole, dot, fraction) \<Rightarrow>
        let w = (if dot \<noteq> [] \<and> whole = [] then Some [] else digit_part whole);
            f = (if fraction = [] then Some [] else digit_part fraction)
        in if dot \<noteq> [] \<and> whole = [] \<and> fraction = [] then None
           else (case w of None \<Rightarrow> None | Some wd \<Rightarrow> (case f of None \<Rightarrow> None | Some fd \<Rightarrow> Some (wd, fd))))"

definition at_least_power :: "int \<Rightarrow> int \<Rightarrow> int \<Rightarrow> int \<Rightarrow> bool" where
  "at_least_power m e numerator denominator \<longleftrightarrow>
     m * 10 ^ nat e * denominator \<ge> numerator * 10 ^ nat (- e)"

definition rounded :: "bool \<Rightarrow> int \<Rightarrow> int \<Rightarrow> py_float" where
  "rounded negative m e =
     (if at_least_power m e (2 ^ 1024 - 2 ^ 970) 1 then Infinity negative
      else if \<not> at_least_power m e 1 (2 ^ 1075) \<or> m * 10 ^ nat e * 2 ^ 1075 = 10 ^ nat (- e) then Decimal 0 0
      else Decimal (if negative then - m else m) e)"

definition to_float :: "string \<Rightarrow> py_float option" where
  "to_float raw =
     (case split_sign (strip raw) of (negative, text) \<Rightarrow>
        let body = lower text
        in if body = ''inf'' \<or> body = ''infinity'' then Some (Infinity negative)
           else if body = ''nan'' then Some NaN
           else (case mantissa_part (fst (partition_on (CHR ''e'') body)) of
                   None \<Rightarrow> None
                 | Some (w, f) \<Rightarrow>
                     (case exponent_part (partition_on (CHR ''e'') body) of
                        None \<Rightarrow> None
                      | Some x \<Rightarrow> Some (rounded negative (number_of 10 (w @ f)) (x - int (length f))))))"

fun isfinite :: "py_float \<Rightarrow> bool" where
  "isfinite (Decimal m e) = True"
| "isfinite _ = False"

fun at_most_zero :: "py_float \<Rightarrow> bool" where
  "at_most_zero (Decimal m e) = (m \<le> 0)"
| "at_most_zero (Infinity negative) = negative"
| "at_most_zero NaN = False"

section \<open>Reading a variable\<close>

definition is_unset :: "string option \<Rightarrow> bool" where
  "is_unset raw = (case raw of None \<Rightarrow> True | Some s \<Rightarrow> strip s = [])"

definition read_env :: "environ \<Rightarrow> string \<Rightarrow> string option" where
  "read_env env name = (if is_unset (env name) then None else env name)"

datatype profile = Development | Staging | Production | Testing

text \<open>
  What a configuration object reads from: its class, the environment of the process, the two
  secrets drawn when the module was loaded, the root of the source tree, and three functions of
  other packages, \<^verbatim>\<open>make_url\<close> and \<^verbatim>\<open>render_as_string\<close> of SQLAlchemy and \<^verbatim>\<open>Locale.parse\<close> of Babel.
\<close>

record db_url =
  du_drivername :: string
  du_username :: "string option"
  du_password :: "string option"
  du_host :: "string option"
  du_port :: "int option"
  du_database :: "string option"
  du_query :: "(string \<times> string list) list"

record process =
  pr_secret_key :: string
  pr_pepper :: string
  pr_root :: "string option"
  pr_make_url :: "string \<Rightarrow> db_url option"
  pr_render :: "bool \<Rightarrow> db_url \<Rightarrow> string"
  pr_locale_parses :: "string \<Rightarrow> bool"

record config =
  cf_profile :: profile
  cf_environ :: environ
  cf_process :: process

definition IGNORE_ENV :: "config \<Rightarrow> bool" where
  "IGNORE_ENV c \<longleftrightarrow> cf_profile c = Testing"

definition read_env_for :: "config \<Rightarrow> string \<Rightarrow> string option" where
  "read_env_for c name = (if IGNORE_ENV c then None else read_env (cf_environ c) name)"

text \<open>What is wrong with a configuration. A message is a constructor with the values it names.\<close>

datatype config_error =
    InvalidVariable string string
  | MustBeSet string
  | RedisUrlMissing
  | SecretIsDefault string
  | DomainIsUrl string
  | DomainIsPath string
  | DomainMissing
  | DatabaseUrlUnparsable
  | IllegalCharacters string string
  | NameHasQuery
  | NameClimbs
  | UnsupportedDatabaseType string
  | PartsMissing "string list"
  | PartAtDefault string
  | NotPostgresql string bool bool
  | InvalidScheme string
  | OutsideBounds string
  | BatchDoesNotFit int int int
  | PortOutside string int
  | NotPositive string int
  | NotPositiveFinite string
  | Negative string int
  | NeverExpires string int
  | GuestOutlivesCeiling int int
  | MailContradiction string
  | MailFromInvalid string
  | SweptTooEarly
  | InvalidLogLevel string
  | NoLanguage
  | DefaultLanguageMissing string
  | LanguageUnreadable string
  | InvalidJournalName string string
  | InvalidSameSite string
  | CorsOpenToAll
  | UnknownEnvironment string
  | Refused string string

definition env_field :: "(string \<Rightarrow> 'a option) \<Rightarrow> config \<Rightarrow> string \<Rightarrow> 'a \<Rightarrow> (config_error, 'a) result" where
  "env_field caster c name fallback =
     (if IGNORE_ENV c then Inr fallback
      else case cf_environ c name of
        None \<Rightarrow> Inr fallback
      | Some raw \<Rightarrow>
          if is_unset (Some raw) then Inr fallback
          else (case caster raw of None \<Rightarrow> Inl (InvalidVariable name raw) | Some v \<Rightarrow> Inr v))"

definition env_int :: "config \<Rightarrow> string \<Rightarrow> int \<Rightarrow> (config_error, int) result" where
  "env_int c name fallback = env_field python_int c name fallback"

definition env_float :: "config \<Rightarrow> string \<Rightarrow> py_float \<Rightarrow> (config_error, py_float) result" where
  "env_float c name fallback = env_field to_float c name fallback"

definition env_bool :: "config \<Rightarrow> string \<Rightarrow> bool \<Rightarrow> (config_error, bool) result" where
  "env_bool c name fallback = env_field to_bool c name fallback"

text \<open>The casters of texts and lists never fail.\<close>

definition env_str :: "config \<Rightarrow> string \<Rightarrow> string \<Rightarrow> string" where
  "env_str c name fallback = (case read_env_for c name of None \<Rightarrow> fallback | Some raw \<Rightarrow> raw)"

definition env_list :: "config \<Rightarrow> string \<Rightarrow> string list \<Rightarrow> string list" where
  "env_list c name fallback = (case read_env_for c name of None \<Rightarrow> fallback | Some raw \<Rightarrow> to_list raw)"

section \<open>Paths\<close>

text \<open>What is used of \<^verbatim>\<open>pathlib\<close> on POSIX: the root, the parts and the join of two paths.\<close>

definition path_root :: "string \<Rightarrow> string" where
  "path_root s = (if startswith s ''//'' \<and> \<not> startswith s ''///'' then ''//'' else if startswith s ''/'' then ''/'' else [])"

definition path_parts :: "string \<Rightarrow> string list" where
  "path_parts s = filter (\<lambda>p. p \<noteq> [] \<and> p \<noteq> ''.'') (split_on (CHR ''/'') s)"

definition path_text :: "string \<Rightarrow> string list \<Rightarrow> string" where
  "path_text root parts = (if root = [] \<and> parts = [] then ''.'' else root @ join_with ''/'' parts)"

definition path_join :: "string \<Rightarrow> string \<Rightarrow> string" where
  "path_join a b =
     (if path_root b \<noteq> [] then path_text (path_root b) (path_parts b)
      else path_text (path_root a) (path_parts a @ path_parts b))"

section \<open>Choosing a profile and publishing the files\<close>

record dotenv =
  de_is_file :: "string \<Rightarrow> bool"
  de_find :: "string \<Rightarrow> string"
  de_values :: "string \<Rightarrow> (string \<times> string option) list"

definition read_env_file :: "process \<Rightarrow> dotenv \<Rightarrow> string \<Rightarrow> (string \<times> string) list" where
  "read_env_file p de filename =
     (let candidate = (case pr_root p of
                         None \<Rightarrow> []
                       | Some root \<Rightarrow> if de_is_file de (path_join root filename) then path_join root filename else []);
          path = (if candidate = [] then de_find de filename else candidate)
      in if path = [] then []
         else concat (map (\<lambda>(k, v). case v of None \<Rightarrow> [] | Some t \<Rightarrow> [(k, t)]) (de_values de path)))"

definition dotenv_was_preloaded :: "environ \<Rightarrow> bool" where
  "dotenv_was_preloaded env = (case env ''FLASK_RUN_FROM_CLI'' of None \<Rightarrow> False | Some s \<Rightarrow> s \<noteq> [])"

definition is_replaceable :: "bool \<Rightarrow> (string \<times> string) list \<Rightarrow> environ \<Rightarrow> string \<Rightarrow> bool" where
  "is_replaceable preloaded shared env key =
     (if is_unset (env key) then True else preloaded \<and> env key = map_of shared key)"

definition publish_if :: "(environ \<Rightarrow> string \<Rightarrow> bool) \<Rightarrow> (string \<times> string) list \<Rightarrow> environ \<Rightarrow> environ" where
  "publish_if may items env = fold (\<lambda>(key, v) e. if may e key then e(key \<mapsto> v) else e) items env"

definition apply_env_files :: "process \<Rightarrow> dotenv \<Rightarrow> string \<Rightarrow> (string \<times> string) list \<Rightarrow> environ \<Rightarrow> environ" where
  "apply_env_files p de env_name shared env =
     (let profile = read_env_file p de (''.env.'' @ env_name);
          preloaded = dotenv_was_preloaded env;
          env1 = publish_if (is_replaceable preloaded shared) profile env
      in publish_if (\<lambda>e key. is_unset (e key)) shared env1)"

definition DEFAULT_ENV :: string where
  "DEFAULT_ENV = ''development''"

definition NO_DOTENV_ENVS :: "string list" where
  "NO_DOTENV_ENVS = [''testing'']"

definition CONFIG_MAP :: "(string \<times> profile) list" where
  "CONFIG_MAP = [(''development'', Development), (''staging'', Staging), (''production'', Production), (''testing'', Testing)]"

definition named_env :: "process \<Rightarrow> dotenv \<Rightarrow> environ \<Rightarrow> string option \<Rightarrow> string option" where
  "named_env p de env arg =
     (let from_process = (if is_unset arg then env ''FLASK_ENV'' else arg);
          from_file = (if is_unset from_process then map_of (read_env_file p de ''.env'') ''FLASK_ENV'' else from_process)
      in case from_file of None \<Rightarrow> None | Some s \<Rightarrow> if is_unset (Some s) then None else Some (lower (strip s)))"

definition resolve_env :: "process \<Rightarrow> dotenv \<Rightarrow> environ \<Rightarrow> string option \<Rightarrow> string" where
  "resolve_env p de env arg = (case named_env p de env arg of None \<Rightarrow> DEFAULT_ENV | Some name \<Rightarrow> name)"

definition create_config_unvalidated ::
  "process \<Rightarrow> dotenv \<Rightarrow> string option \<Rightarrow> environ \<Rightarrow> (config_error, config) result" where
  "create_config_unvalidated p de arg env =
     (let name = resolve_env p de env arg
      in case map_of CONFIG_MAP name of
           None \<Rightarrow> Inl (UnknownEnvironment name)
         | Some prof \<Rightarrow>
             let env1 = (if name \<in> set NO_DOTENV_ENVS then env
                         else apply_env_files p de name (read_env_file p de ''.env'') env)
             in Inr \<lparr>cf_profile = prof, cf_environ = env1, cf_process = p\<rparr>)"

section \<open>Lemmas: publishing\<close>

lemma is_unset_None [simp]: "is_unset None"
  by (simp add: is_unset_def)

text \<open>A pass over a file asks about a key once, when its turn comes.\<close>

lemma publish_if_other: "k \<notin> fst ` set items \<Longrightarrow> publish_if may items env k = env k"
  by (induction items arbitrary: env) (auto simp: publish_if_def)

lemma publish_if_key:
  assumes "distinct (map fst items)" and "\<And>e e'. e k = e' k \<Longrightarrow> may e k = may e' k"
  shows "publish_if may items env k = (case map_of items k of None \<Rightarrow> env k | Some v \<Rightarrow> if may env k then Some v else env k)"
  using assms(1)
proof (induction items arbitrary: env)
  case Nil
  show ?case by (simp add: publish_if_def)
next
  case (Cons kv items)
  obtain key v where kv: "kv = (key, v)" by fastforce
  let ?e = "if may env key then env(key \<mapsto> v) else env"
  have step: "publish_if may (kv # items) env = publish_if may items ?e" by (simp add: publish_if_def kv)
  show ?case
  proof (cases "key = k")
    case True
    then have "k \<notin> fst ` set items" using Cons.prems kv by auto
    then show ?thesis using True unfolding step by (simp add: publish_if_other kv)
  next
    case False
    then have same: "?e k = env k" by simp
    have may: "may ?e k = may env k" using same by (rule assms(2))
    have rest: "publish_if may items ?e k = (case map_of items k of None \<Rightarrow> ?e k | Some v \<Rightarrow> if may ?e k then Some v else ?e k)"
      using Cons.prems by (intro Cons.IH) simp
    have "map_of (kv # items) k = map_of items k" using False kv by simp
    then show ?thesis unfolding step rest may same by (rule ssubst) (rule refl)
  qed
qed

lemma apply_env_files_key:
  assumes "distinct (map fst (read_env_file p de (''.env.'' @ n)))" and "distinct (map fst shared)"
  shows "apply_env_files p de n shared env k =
    (let prof = map_of (read_env_file p de (''.env.'' @ n)) k;
         e1 = (case prof of None \<Rightarrow> env k
               | Some v \<Rightarrow> if is_unset (env k) \<or> dotenv_was_preloaded env \<and> env k = map_of shared k then Some v else env k)
     in case map_of shared k of None \<Rightarrow> e1 | Some v \<Rightarrow> if is_unset e1 then Some v else e1)"
proof -
  let ?file = "read_env_file p de (''.env.'' @ n)" and ?may = "is_replaceable (dotenv_was_preloaded env) shared"
  have one: "publish_if ?may ?file env k = (case map_of ?file k of None \<Rightarrow> env k | Some v \<Rightarrow> if ?may env k then Some v else env k)"
    by (rule publish_if_key [OF assms(1)]) (simp add: is_replaceable_def)
  have two: "publish_if (\<lambda>e key. is_unset (e key)) shared e k = (case map_of shared k of None \<Rightarrow> e k | Some v \<Rightarrow> if is_unset (e k) then Some v else e k)" for e
    by (rule publish_if_key [OF assms(2)]) simp
  show ?thesis unfolding apply_env_files_def Let_def two one by (simp add: is_replaceable_def split: option.splits)
qed

section \<open>Properties\<close>

text \<open>The order the factory documents: the first place that really sets a variable.\<close>

fun first_set :: "string option list \<Rightarrow> string option" where
  "first_set [] = None"
| "first_set (v # vs) = (if is_unset v then first_set vs else v)"

text \<open>
  The two ways a process is started: with the environment its operator gave it, or by the
  \<^verbatim>\<open>flask\<close> command, which marks itself and fills in what the operator did not export from \<^verbatim>\<open>.env\<close>.
\<close>

definition started_from :: "(string \<times> string) list \<Rightarrow> environ \<Rightarrow> environ \<Rightarrow> bool" where
  "started_from shared own env \<longleftrightarrow>
     env = own \<and> \<not> dotenv_was_preloaded env
     \<or> dotenv_was_preloaded env
       \<and> (\<forall>k. k \<noteq> ''FLASK_RUN_FROM_CLI'' \<longrightarrow> env k = (case own k of None \<Rightarrow> map_of shared k | Some v \<Rightarrow> Some v))"


section \<open>Witnesses\<close>

definition site_process :: process where
  "site_process = \<lparr>pr_secret_key = ''drawn'', pr_pepper = ''drawn too'', pr_root = None,
     pr_make_url = (\<lambda>s. Some \<lparr>du_drivername = takeWhile (\<lambda>ch. ch \<noteq> CHR '':'') s, du_username = None, du_password = None,
        du_host = None, du_port = None, du_database = Some (drop 1 (dropWhile (\<lambda>ch. ch \<noteq> CHR '':'') s)), du_query = []\<rparr>),
     pr_render = (\<lambda>hide u. du_drivername u @ '':'' @ (case du_database u of None \<Rightarrow> [] | Some d \<Rightarrow> d)),
     pr_locale_parses = (\<lambda>tag. True)\<rparr>"

definition site_files :: dotenv where
  "site_files = \<lparr>de_is_file = (\<lambda>path. False), de_find = (\<lambda>filename. filename),
     de_values = (\<lambda>path. if path = ''.env'' then [(''PORT'', Some ''80''), (''FLASK_ENV'', Some ''production'')]
        else if path = ''.env.production'' then [(''PORT'', Some ''8080'')] else [])\<rparr>"


end
