(* ===== verification/Configuration.thy ===== *)
theory Configuration
  imports Environment
begin

text \<open>
  The settings of the program and what is asked of them: \<^verbatim>\<open>infrastructure/configs/app/base.py\<close> with
  the four profiles beside it and \<^verbatim>\<open>create_config\<close> of the factory. A setting is a function of the
  configuration object; one that has to be converted may fail and is a result. What an
  attribute of a profile overrides is a case of the same definition.
\<close>

section \<open>The settings\<close>

text \<open>The two profiles that are deployed, and the two modes of Flask.\<close>

definition deployed :: "config \<Rightarrow> bool" where
  "deployed c \<longleftrightarrow> cf_profile c = Staging \<or> cf_profile c = Production"

definition DEBUG :: "config \<Rightarrow> bool" where
  "DEBUG c \<longleftrightarrow> cf_profile c = Development"

definition TESTING :: "config \<Rightarrow> bool" where
  "TESTING c \<longleftrightarrow> cf_profile c = Testing"

subsection \<open>Flags and logs\<close>

definition LOGGING_ENABLED :: "config \<Rightarrow> (config_error, bool) result" where
  "LOGGING_ENABLED c = env_bool c ''LOGGING_ENABLED'' True"

definition AUDIT_ENABLED :: "config \<Rightarrow> (config_error, bool) result" where
  "AUDIT_ENABLED c = env_bool c ''AUDIT_ENABLED'' True"

definition CACHE_ENABLED :: "config \<Rightarrow> (config_error, bool) result" where
  "CACHE_ENABLED c = env_bool c ''CACHE_ENABLED'' True"

definition AUTO_SEED_ROLES :: "config \<Rightarrow> (config_error, bool) result" where
  "AUTO_SEED_ROLES c = (if cf_profile c = Testing then Inr True else env_bool c ''AUTO_SEED_ROLES'' (\<not> deployed c))"

definition LOGGER_TYPE :: "config \<Rightarrow> string" where
  "LOGGER_TYPE c = env_str c ''LOGGER_TYPE'' ''auto''"

definition AUDIT_TYPE :: "config \<Rightarrow> string" where
  "AUDIT_TYPE c = env_str c ''AUDIT_TYPE'' ''auto''"

definition default_log_dir :: "config \<Rightarrow> string" where
  "default_log_dir c = (if cf_profile c = Staging then ''/var/log/link_shortener/staging'' else ''datas/logs'')"

definition LOG_DIR :: "config \<Rightarrow> string" where
  "LOG_DIR c = (let configured = (case read_env_for c ''LOG_DIR'' of None \<Rightarrow> default_log_dir c | Some v \<Rightarrow> v)
     in case pr_root (cf_process c) of None \<Rightarrow> configured | Some root \<Rightarrow> path_join root configured)"

definition LOG_FILENAME :: "config \<Rightarrow> string" where
  "LOG_FILENAME c = env_str c ''LOG_FILENAME'' ''application''"

definition AUDIT_LOG_FILENAME :: "config \<Rightarrow> string" where
  "AUDIT_LOG_FILENAME c = env_str c ''AUDIT_LOG_FILENAME'' ''audit''"

definition ERROR_LOG_FILENAME :: "config \<Rightarrow> string" where
  "ERROR_LOG_FILENAME c = env_str c ''ERROR_LOG_FILENAME'' ''error''"

definition LOG_LEVEL :: "config \<Rightarrow> string" where
  "LOG_LEVEL c = env_str c ''LOG_LEVEL'' (if deployed c then ''INFO'' else ''DEBUG'')"

definition LOG_TO_CONSOLE :: "config \<Rightarrow> (config_error, bool) result" where
  "LOG_TO_CONSOLE c = env_bool c ''LOG_TO_CONSOLE'' (\<not> deployed c)"

definition LOG_TO_FILE :: "config \<Rightarrow> (config_error, bool) result" where
  "LOG_TO_FILE c = env_bool c ''LOG_TO_FILE'' (deployed c)"

definition SQLALCHEMY_LOG_LEVEL :: "config \<Rightarrow> string" where
  "SQLALCHEMY_LOG_LEVEL c = env_str c ''SQLALCHEMY_LOG_LEVEL'' ''WARNING''"

definition WERKZEUG_LOG_LEVEL :: "config \<Rightarrow> string" where
  "WERKZEUG_LOG_LEVEL c = env_str c ''WERKZEUG_LOG_LEVEL'' ''WARNING''"

definition FAILOVER_CHECK_INTERVAL :: "config \<Rightarrow> (config_error, py_float) result" where
  "FAILOVER_CHECK_INTERVAL c = env_float c ''FAILOVER_CHECK_INTERVAL'' (Decimal 30 0)"

subsection \<open>Security\<close>

definition SECRET_KEY :: "config \<Rightarrow> (config_error, string) result" where
  "SECRET_KEY c = (case cf_profile c of
        Testing \<Rightarrow> Inr ''test-secret-key''
      | Development \<Rightarrow> Inr (env_str c ''SECRET_KEY'' (pr_secret_key (cf_process c)))
      | _ \<Rightarrow> (case read_env_for c ''SECRET_KEY'' of None \<Rightarrow> Inl (MustBeSet ''SECRET_KEY'') | Some v \<Rightarrow> if v = [] then Inl (MustBeSet ''SECRET_KEY'') else Inr v))"

definition SHORT_CODE_SECRET_PEPPER :: "config \<Rightarrow> (config_error, string) result" where
  "SHORT_CODE_SECRET_PEPPER c = (case cf_profile c of
        Testing \<Rightarrow> Inr ''test-pepper''
      | Development \<Rightarrow> Inr (env_str c ''SHORT_CODE_PEPPER'' (pr_pepper (cf_process c)))
      | _ \<Rightarrow> (case read_env_for c ''SHORT_CODE_PEPPER'' of None \<Rightarrow> Inl (MustBeSet ''SHORT_CODE_PEPPER'') | Some v \<Rightarrow> if v = [] then Inl (MustBeSet ''SHORT_CODE_PEPPER'') else Inr v))"

definition SESSION_COOKIE_SECURE :: "config \<Rightarrow> (config_error, bool) result" where
  "SESSION_COOKIE_SECURE c = env_bool c ''SESSION_COOKIE_SECURE'' (deployed c)"

definition SESSION_COOKIE_SAMESITE :: "config \<Rightarrow> string" where
  "SESSION_COOKIE_SAMESITE c = env_str c ''SESSION_COOKIE_SAMESITE'' ''Lax''"

definition SESSION_COOKIE_HTTPONLY :: "config \<Rightarrow> (config_error, bool) result" where
  "SESSION_COOKIE_HTTPONLY c = env_bool c ''SESSION_COOKIE_HTTPONLY'' True"

definition COOKIE_SECURE :: "config \<Rightarrow> (config_error, bool) result" where
  "COOKIE_SECURE c = env_bool c ''COOKIE_SECURE'' (deployed c)"

subsection \<open>Addresses and links\<close>

definition HOST :: "config \<Rightarrow> string" where
  "HOST c = env_str c ''HOST'' (if cf_profile c = Production then ''0.0.0.0'' else ''localhost'')"

definition PORT :: "config \<Rightarrow> (config_error, int) result" where
  "PORT c = env_int c ''PORT'' (if cf_profile c = Production then 8000 else 5000)"

definition USE_HTTPS :: "config \<Rightarrow> (config_error, bool) result" where
  "USE_HTTPS c = env_bool c ''USE_HTTPS'' (deployed c)"

definition HSTS_MAX_AGE :: "config \<Rightarrow> (config_error, int) result" where
  "HSTS_MAX_AGE c = env_int c ''HSTS_MAX_AGE'' 31536000"

definition DOMAIN :: "config \<Rightarrow> string option" where
  "DOMAIN c = read_env_for c ''DOMAIN''"

definition domain_value :: "config \<Rightarrow> string" where
  "domain_value c = strip (case DOMAIN c of None \<Rightarrow> [] | Some v \<Rightarrow> v)"

definition BASE_URL :: "config \<Rightarrow> (config_error, string) result" where
  "BASE_URL c = (let domain = domain_value c
     in if domain \<noteq> []
        then rbind (USE_HTTPS c) (\<lambda>https. Inr ((if https then ''https'' else ''http'') @ ''://'' @ domain))
        else rbind (PORT c) (\<lambda>port. Inr (''http://'' @ HOST c @ '':'' @ str_of_int port @ ''/'')))"

definition ALLOWED_SCHEMES :: "config \<Rightarrow> string list" where
  "ALLOWED_SCHEMES c = env_list c ''ALLOWED_SCHEMES'' [''http'', ''https'']"

definition MAX_URL_LENGTH :: "config \<Rightarrow> (config_error, int) result" where
  "MAX_URL_LENGTH c = env_int c ''MAX_URL_LENGTH'' 2048"

definition ALLOW_INTERNAL_TARGETS :: "config \<Rightarrow> (config_error, bool) result" where
  "ALLOW_INTERNAL_TARGETS c = env_bool c ''ALLOW_INTERNAL_TARGETS'' False"

definition SHORT_CODE_LENGTH :: "config \<Rightarrow> (config_error, int) result" where
  "SHORT_CODE_LENGTH c = env_int c ''SHORT_CODE_LENGTH'' 7"

definition SHORT_CODE_MIN_LENGTH :: "config \<Rightarrow> (config_error, int) result" where
  "SHORT_CODE_MIN_LENGTH c = env_int c ''SHORT_CODE_MIN_LENGTH'' (int MIN_LENGTH)"

definition SHORT_CODE_MAX_LENGTH :: "config \<Rightarrow> (config_error, int) result" where
  "SHORT_CODE_MAX_LENGTH c = env_int c ''SHORT_CODE_MAX_LENGTH'' (int MAX_LENGTH)"

definition MAX_COLLISION_ATTEMPTS :: "config \<Rightarrow> (config_error, int) result" where
  "MAX_COLLISION_ATTEMPTS c = env_int c ''MAX_COLLISION_ATTEMPTS'' 5"

definition POPULAR_THRESHOLD :: "config \<Rightarrow> (config_error, int) result" where
  "POPULAR_THRESHOLD c = env_int c ''POPULAR_THRESHOLD'' 100"

definition RECENT_DAYS :: "config \<Rightarrow> (config_error, int) result" where
  "RECENT_DAYS c = env_int c ''RECENT_DAYS'' 7"

definition VISIT_TRACKING_ENABLED :: "config \<Rightarrow> (config_error, bool) result" where
  "VISIT_TRACKING_ENABLED c = env_bool c ''VISIT_TRACKING_ENABLED'' True"

definition VISIT_RETENTION_DAYS :: "config \<Rightarrow> (config_error, int) result" where
  "VISIT_RETENTION_DAYS c = env_int c ''VISIT_RETENTION_DAYS'' 90"

definition SECURITY_EVENT_RETENTION_DAYS :: "config \<Rightarrow> (config_error, int) result" where
  "SECURITY_EVENT_RETENTION_DAYS c = env_int c ''SECURITY_EVENT_RETENTION_DAYS'' 365"

definition MAX_BATCH_ITEMS :: int where
  "MAX_BATCH_ITEMS = 100"

definition BATCH_CREATE_LIMIT :: "config \<Rightarrow> (config_error, int) result" where
  "BATCH_CREATE_LIMIT c = (if cf_profile c = Testing then Inr MAX_BATCH_ITEMS else env_int c ''BATCH_CREATE_LIMIT'' 100)"

definition MAX_CONTENT_LENGTH :: "config \<Rightarrow> (config_error, int) result" where
  "MAX_CONTENT_LENGTH c = env_int c ''MAX_CONTENT_LENGTH'' 1048576"

definition GUEST_LINK_LIMIT :: "config \<Rightarrow> (config_error, int) result" where
  "GUEST_LINK_LIMIT c = env_int c ''GUEST_LINK_LIMIT'' 10"

definition GUEST_LINK_WINDOW_DAYS :: "config \<Rightarrow> (config_error, int) result" where
  "GUEST_LINK_WINDOW_DAYS c = env_int c ''GUEST_LINK_WINDOW_DAYS'' 1"

definition DEFAULT_GUEST_TTL_SECONDS :: "config \<Rightarrow> (config_error, int) result" where
  "DEFAULT_GUEST_TTL_SECONDS c = env_int c ''DEFAULT_GUEST_TTL_SECONDS'' (7 * 24 * 3600)"

definition MAX_TTL_SECONDS :: "config \<Rightarrow> (config_error, int) result" where
  "MAX_TTL_SECONDS c = env_int c ''MAX_TTL_SECONDS'' (10 * 365 * 24 * 3600)"

definition SUPPORTED_LANGUAGES :: "config \<Rightarrow> string list" where
  "SUPPORTED_LANGUAGES c = env_list c ''SUPPORTED_LANGUAGES'' [''en'', ''ru'', ''zh'']"

definition DEFAULT_LANGUAGE :: "config \<Rightarrow> string" where
  "DEFAULT_LANGUAGE c = env_str c ''DEFAULT_LANGUAGE'' ''en''"

subsection \<open>Tokens, limits and origins\<close>

definition JWT_ACCESS_TOKEN_EXPIRE_MINUTES :: "config \<Rightarrow> (config_error, int) result" where
  "JWT_ACCESS_TOKEN_EXPIRE_MINUTES c = env_int c ''JWT_ACCESS_TOKEN_EXPIRE_MINUTES'' 15"

definition JWT_REFRESH_TOKEN_EXPIRE_DAYS :: "config \<Rightarrow> (config_error, int) result" where
  "JWT_REFRESH_TOKEN_EXPIRE_DAYS c = env_int c ''JWT_REFRESH_TOKEN_EXPIRE_DAYS'' 7"

definition JWT_ALGORITHM :: "config \<Rightarrow> string" where
  "JWT_ALGORITHM c = env_str c ''JWT_ALGORITHM'' ''HS256''"

definition DEFAULT_ROLE_NAME :: "config \<Rightarrow> string" where
  "DEFAULT_ROLE_NAME c = env_str c ''DEFAULT_ROLE_NAME'' ''user''"

definition DEFAULT_RATE_LIMIT :: "config \<Rightarrow> (config_error, int) result" where
  "DEFAULT_RATE_LIMIT c = env_int c ''DEFAULT_RATE_LIMIT'' 100"

definition DEFAULT_RATE_LIMIT_PERIOD :: "config \<Rightarrow> (config_error, int) result" where
  "DEFAULT_RATE_LIMIT_PERIOD c = env_int c ''DEFAULT_RATE_LIMIT_PERIOD'' 60"

definition LOGIN_ACCOUNT_FAILURE_LIMIT :: "config \<Rightarrow> (config_error, int) result" where
  "LOGIN_ACCOUNT_FAILURE_LIMIT c = env_int c ''LOGIN_ACCOUNT_FAILURE_LIMIT'' 10"

definition LOGIN_ACCOUNT_FAILURE_PERIOD :: "config \<Rightarrow> (config_error, int) result" where
  "LOGIN_ACCOUNT_FAILURE_PERIOD c = env_int c ''LOGIN_ACCOUNT_FAILURE_PERIOD'' 900"

definition RATE_LIMITS :: "(string \<times> int \<times> int) list" where
  "RATE_LIMITS =
     [(''api.create_short_link'', 30, 60),
      (''api.get_link_info'', 100, 60),
      (''api.get_extended_link_info'', 50, 60),
      (''api.batch_create'', 5, 60),
      (''api.get_stats'', 10, 60),
      (''redirect_to_original'', 200, 60),
      (''auth.login'', 5, 60),
      (''auth.register'', 3, 3600),
      (''auth.refresh_token'', 10, 60),
      (''auth.logout'', 20, 60),
      (''auth.verify_email'', 10, 60),
      (''auth.resend_verification'', 3, 3600),
      (''auth.change_password'', 5, 60),
      (''auth.forgot_password'', 3, 3600),
      (''auth.reset_password'', 10, 60)]"

definition RATE_LIMIT_AUTH_DISABLED :: "config \<Rightarrow> (config_error, bool) result" where
  "RATE_LIMIT_AUTH_DISABLED c = env_bool c ''RATE_LIMIT_AUTH_DISABLED'' False"

definition CORS_ORIGINS :: "config \<Rightarrow> string list" where
  "CORS_ORIGINS c = env_list c ''CORS_ORIGINS'' (if deployed c then [] else [''http://localhost:5000''])"

definition TRUSTED_PROXIES :: "config \<Rightarrow> string list" where
  "TRUSTED_PROXIES c = env_list c ''TRUSTED_PROXIES'' []"

definition ALLOWED_HOSTS :: "config \<Rightarrow> string list" where
  "ALLOWED_HOSTS c = env_list c ''ALLOWED_HOSTS'' []"

subsection \<open>The database\<close>

definition USE_ALEMBIC :: "config \<Rightarrow> (config_error, bool) result" where
  "USE_ALEMBIC c = (if cf_profile c = Testing then Inr False else env_bool c ''USE_ALEMBIC'' True)"

definition SQLALCHEMY_ECHO :: "config \<Rightarrow> (config_error, bool) result" where
  "SQLALCHEMY_ECHO c = env_bool c ''SQLALCHEMY_ECHO'' False"

definition DATABASE_TYPE :: "config \<Rightarrow> string" where
  "DATABASE_TYPE c = (if cf_profile c = Testing then ''sqlite'' else env_str c ''DATABASE_TYPE'' ''sqlite'')"

definition DATABASE_HOST :: "config \<Rightarrow> string" where
  "DATABASE_HOST c = env_str c ''DATABASE_HOST'' ''localhost''"

definition DATABASE_PORT :: "config \<Rightarrow> (config_error, int) result" where
  "DATABASE_PORT c = env_int c ''DATABASE_PORT'' 5432"

definition DATABASE_NAME :: "config \<Rightarrow> string" where
  "DATABASE_NAME c = env_str c ''DATABASE_NAME'' ''db_shortener''"

definition DATABASE_USER :: "config \<Rightarrow> string" where
  "DATABASE_USER c = env_str c ''DATABASE_USER'' []"

definition DATABASE_PASSWORD :: "config \<Rightarrow> string" where
  "DATABASE_PASSWORD c = env_str c ''DATABASE_PASSWORD'' []"

definition DATABASE_DIR :: "config \<Rightarrow> string" where
  "DATABASE_DIR c = env_str c ''DATABASE_DIR'' ''datas/databases''"

definition DATABASE_URL :: "config \<Rightarrow> string" where
  "DATABASE_URL c = (if cf_profile c = Testing then ''sqlite:///:memory:'' else env_str c ''DATABASE_URL'' [])"

definition DATABASE_CONNECT_TIMEOUT :: "config \<Rightarrow> (config_error, int) result" where
  "DATABASE_CONNECT_TIMEOUT c = env_int c ''DATABASE_CONNECT_TIMEOUT'' 3"

definition DATABASE_STATEMENT_TIMEOUT :: "config \<Rightarrow> (config_error, int) result" where
  "DATABASE_STATEMENT_TIMEOUT c = env_int c ''DATABASE_STATEMENT_TIMEOUT'' 10"

definition DATABASE_POOL_PRE_PING :: "config \<Rightarrow> (config_error, bool) result" where
  "DATABASE_POOL_PRE_PING c = env_bool c ''DATABASE_POOL_PRE_PING'' True"

subsection \<open>Caches, queue and mail\<close>

definition CACHE_LINK_PREFIX :: "config \<Rightarrow> string" where
  "CACHE_LINK_PREFIX c = env_str c ''CACHE_LINK_PREFIX'' ''link_shortener''"

definition CACHE_LINK_TTL :: "config \<Rightarrow> (config_error, int) result" where
  "CACHE_LINK_TTL c = env_int c ''CACHE_LINK_TTL'' (if cf_profile c = Development then 20 else 3600)"

definition CACHE_STATS_TTL :: "config \<Rightarrow> (config_error, int) result" where
  "CACHE_STATS_TTL c = env_int c ''CACHE_STATS_TTL'' (if cf_profile c = Development then 20 else 300)"

definition REDIS_ENABLED :: "config \<Rightarrow> (config_error, bool) result" where
  "REDIS_ENABLED c = (if cf_profile c = Testing then Inr False else env_bool c ''REDIS_ENABLED'' (deployed c))"

definition REDIS_URL :: "config \<Rightarrow> (config_error, string) result" where
  "REDIS_URL c = (case cf_profile c of
        Testing \<Rightarrow> Inr ''redis://localhost:6379/0''
      | Development \<Rightarrow> Inr (env_str c ''REDIS_URL'' ''redis://localhost:6379/0'')
      | p \<Rightarrow> rbind (REDIS_ENABLED c) (\<lambda>enabled.
               case read_env_for c ''REDIS_URL'' of
                 None \<Rightarrow> if enabled then Inl RedisUrlMissing else Inr (if p = Staging then ''redis://localhost:6379/0'' else [])
               | Some url \<Rightarrow> Inr url))"

definition REDIS_CONNECT_TIMEOUT :: "config \<Rightarrow> (config_error, int) result" where
  "REDIS_CONNECT_TIMEOUT c = env_int c ''REDIS_CONNECT_TIMEOUT'' 2"

definition REDIS_SOCKET_TIMEOUT :: "config \<Rightarrow> (config_error, int) result" where
  "REDIS_SOCKET_TIMEOUT c = env_int c ''REDIS_SOCKET_TIMEOUT'' 2"

definition REDIS_RETRY_INTERVAL :: "config \<Rightarrow> (config_error, int) result" where
  "REDIS_RETRY_INTERVAL c = env_int c ''REDIS_RETRY_INTERVAL'' 10"

definition CELERY_ENABLED :: "config \<Rightarrow> (config_error, bool) result" where
  "CELERY_ENABLED c = env_bool c ''CELERY_ENABLED'' False"

definition CELERY_BROKER_URL :: "config \<Rightarrow> string" where
  "CELERY_BROKER_URL c = env_str c ''CELERY_BROKER_URL'' []"

definition CELERY_RESULT_BACKEND :: "config \<Rightarrow> string" where
  "CELERY_RESULT_BACKEND c = env_str c ''CELERY_RESULT_BACKEND'' []"

definition MAIL_ENABLED :: "config \<Rightarrow> (config_error, bool) result" where
  "MAIL_ENABLED c = (if cf_profile c = Testing then Inr False else env_bool c ''MAIL_ENABLED'' False)"

definition MAIL_HOST :: "config \<Rightarrow> string" where
  "MAIL_HOST c = env_str c ''MAIL_HOST'' (if cf_profile c = Development then ''localhost'' else [])"

definition MAIL_PORT :: "config \<Rightarrow> (config_error, int) result" where
  "MAIL_PORT c = env_int c ''MAIL_PORT'' (if cf_profile c = Development then 1025 else 587)"

definition MAIL_USERNAME :: "config \<Rightarrow> string" where
  "MAIL_USERNAME c = env_str c ''MAIL_USERNAME'' []"

definition MAIL_PASSWORD :: "config \<Rightarrow> string" where
  "MAIL_PASSWORD c = env_str c ''MAIL_PASSWORD'' []"

definition MAIL_USE_TLS :: "config \<Rightarrow> (config_error, bool) result" where
  "MAIL_USE_TLS c = env_bool c ''MAIL_USE_TLS'' (cf_profile c \<noteq> Development)"

definition MAIL_USE_SSL :: "config \<Rightarrow> (config_error, bool) result" where
  "MAIL_USE_SSL c = env_bool c ''MAIL_USE_SSL'' False"

definition MAIL_FROM :: "config \<Rightarrow> string" where
  "MAIL_FROM c = env_str c ''MAIL_FROM'' (if cf_profile c = Development then ''no-reply@link-shortener.local'' else [])"

definition REQUIRE_MAIL_TLS :: "config \<Rightarrow> bool" where
  "REQUIRE_MAIL_TLS c \<longleftrightarrow> deployed c"

definition MAIL_TIMEOUT :: "config \<Rightarrow> (config_error, py_float) result" where
  "MAIL_TIMEOUT c = env_float c ''MAIL_TIMEOUT'' (Decimal 10 0)"

definition EMAIL_VERIFICATION_TTL_HOURS :: "config \<Rightarrow> (config_error, int) result" where
  "EMAIL_VERIFICATION_TTL_HOURS c = env_int c ''EMAIL_VERIFICATION_TTL_HOURS'' 24"

definition PASSWORD_RESET_TTL_MINUTES :: "config \<Rightarrow> (config_error, int) result" where
  "PASSWORD_RESET_TTL_MINUTES c = env_int c ''PASSWORD_RESET_TTL_MINUTES'' 60"

definition UNVERIFIED_ACCOUNT_TTL_HOURS :: "config \<Rightarrow> (config_error, int) result" where
  "UNVERIFIED_ACCOUNT_TTL_HOURS c = env_int c ''UNVERIFIED_ACCOUNT_TTL_HOURS'' 72"

definition HEALTH_CHECK_TIMEOUT :: "config \<Rightarrow> (config_error, py_float) result" where
  "HEALTH_CHECK_TIMEOUT c = env_float c ''HEALTH_CHECK_TIMEOUT'' (Decimal 5 0)"

section \<open>The database that is opened\<close>

definition get_backend_name :: "db_url \<Rightarrow> string" where
  "get_backend_name u = takeWhile (\<lambda>ch. ch \<noteq> CHR ''+'') (du_drivername u)"

definition url_create :: "string \<Rightarrow> db_url" where
  "url_create driver = \<lparr>du_drivername = driver, du_username = None, du_password = None, du_host = None, du_port = None,
     du_database = None, du_query = []\<rparr>"

text \<open>\<^verbatim>\<open>s.replace(old, new)\<close> for a text to be replaced that is not empty.\<close>

function replace_text :: "string \<Rightarrow> string \<Rightarrow> string \<Rightarrow> string" where
  "replace_text old new [] = []"
| "replace_text old new (ch # s) =
     (if old \<noteq> [] \<and> startswith (ch # s) old then new @ replace_text old new (drop (length old) (ch # s))
      else ch # replace_text old new s)"
  by pat_completeness auto
termination
  by (relation "measure (\<lambda>(old, new, s). length s)") (auto simp: neq_Nil_conv)

definition MASK :: string where
  "MASK = ''***''"

definition credential_names :: "db_url \<Rightarrow> string list" where
  "credential_names u = filter (\<lambda>name. endswith (lower name) ''password'') (map fst (du_query u))"

definition mask_query :: "db_url \<Rightarrow> db_url" where
  "mask_query u = u\<lparr>du_query := fold (\<lambda>name q. dict_set name [MASK] q) (credential_names u) (du_query u)\<rparr>"

definition display_url :: "process \<Rightarrow> string \<Rightarrow> string" where
  "display_url p url =
     (case pr_make_url p url of
        None \<Rightarrow> ''<unparsable database url>''
      | Some u \<Rightarrow>
          let parsed = (if truthy (du_password u) = None then u\<lparr>du_password := None\<rparr> else u)
          in if credential_names parsed = [] then pr_render p True parsed
             else replace_text ''%2A%2A%2A'' MASK (pr_render p True (mask_query parsed)))"

definition DEFAULT_POSTGRESQL_DRIVER :: string where
  "DEFAULT_POSTGRESQL_DRIVER = ''psycopg''"

definition normalise_backend :: "process \<Rightarrow> string \<Rightarrow> string" where
  "normalise_backend p url =
     (case pr_make_url p url of
        None \<Rightarrow> url
      | Some parsed \<Rightarrow>
          let driver = lower (du_drivername parsed)
          in if driver = ''postgres'' \<or> driver = ''postgresql''
             then pr_render p False (parsed\<lparr>du_drivername := ''postgresql+'' @ DEFAULT_POSTGRESQL_DRIVER\<rparr>)
             else if startswith driver ''postgres+''
             then pr_render p False (parsed\<lparr>du_drivername := ''postgresql'' @ drop (length ''postgres'') driver\<rparr>)
             else url)"

text \<open>The path of a SQLite file; the directory that is created on the way is left out.\<close>

definition sqlite_path :: "config \<Rightarrow> string" where
  "sqlite_path c =
     (let name = DATABASE_NAME c
      in if name = '':memory:'' \<or> path_root name \<noteq> [] then name
         else if path_root (DATABASE_DIR c) \<noteq> [] then path_join (DATABASE_DIR c) name
         else (case pr_root (cf_process c) of
                 None \<Rightarrow> name
               | Some root \<Rightarrow> path_join (path_join root (DATABASE_DIR c)) name))"

definition missing_parts :: "config \<Rightarrow> string list" where
  "missing_parts c =
     map fst (filter (\<lambda>(name, v). v = [])
       [(''DATABASE_USER'', DATABASE_USER c), (''DATABASE_HOST'', DATABASE_HOST c), (''DATABASE_NAME'', DATABASE_NAME c)])"

definition get_database_url :: "config \<Rightarrow> (config_error, string) result" where
  "get_database_url c =
     (if DATABASE_URL c \<noteq> [] then Inr (normalise_backend (cf_process c) (strip (DATABASE_URL c)))
      else if DATABASE_TYPE c = ''sqlite''
      then Inr (pr_render (cf_process c) False ((url_create ''sqlite'')\<lparr>du_database := Some (sqlite_path c)\<rparr>))
      else if DATABASE_TYPE c = ''postgresql''
      then if missing_parts c \<noteq> [] then Inl (PartsMissing (missing_parts c))
           else rbind (DATABASE_PORT c) (\<lambda>port.
             Inr (pr_render (cf_process c) False
               ((url_create ''postgresql+psycopg'')\<lparr>du_username := Some (DATABASE_USER c), du_password := Some (DATABASE_PASSWORD c),
                  du_host := Some (DATABASE_HOST c), du_port := Some port, du_database := Some (DATABASE_NAME c)\<rparr>)))
      else Inl (UnsupportedDatabaseType (DATABASE_TYPE c)))"

definition display_database_url :: "config \<Rightarrow> string" where
  "display_database_url c =
     (case get_database_url c of Inl _ \<Rightarrow> ''<unparsable database url>'' | Inr url \<Rightarrow> display_url (cf_process c) url)"

definition parsed_backend :: "config \<Rightarrow> string option" where
  "parsed_backend c =
     (case get_database_url c of
        Inl _ \<Rightarrow> None
      | Inr url \<Rightarrow> map_option get_backend_name (pr_make_url (cf_process c) url))"

definition database_backend :: "config \<Rightarrow> string" where
  "database_backend c = (case parsed_backend c of None \<Rightarrow> DATABASE_TYPE c | Some b \<Rightarrow> b)"

definition pool_setting :: "config \<Rightarrow> string \<Rightarrow> int \<Rightarrow> (config_error, int) result" where
  "pool_setting c name fallback =
     (if database_backend c \<noteq> ''postgresql'' then Inr 0
      else if IGNORE_ENV c then Inr fallback
      else (case read_env (cf_environ c) name of
              None \<Rightarrow> Inr fallback
            | Some raw \<Rightarrow> (case python_int raw of None \<Rightarrow> Inl (InvalidVariable name raw) | Some v \<Rightarrow> Inr v)))"

definition DATABASE_POOL_SIZE :: "config \<Rightarrow> (config_error, int) result" where
  "DATABASE_POOL_SIZE c = pool_setting c ''DATABASE_POOL_SIZE'' 5"

definition DATABASE_MAX_OVERFLOW :: "config \<Rightarrow> (config_error, int) result" where
  "DATABASE_MAX_OVERFLOW c = pool_setting c ''DATABASE_MAX_OVERFLOW'' 5"

definition DATABASE_POOL_RECYCLE :: "config \<Rightarrow> (config_error, int) result" where
  "DATABASE_POOL_RECYCLE c = pool_setting c ''DATABASE_POOL_RECYCLE'' 3600"

record pool_params =
  pp_pool_size :: int
  pp_max_overflow :: int
  pp_pool_recycle :: int
  pp_pool_pre_ping :: bool

definition get_pool_params :: "config \<Rightarrow> (config_error, pool_params) result" where
  "get_pool_params c =
     rbind (DATABASE_POOL_SIZE c) (\<lambda>size. rbind (DATABASE_MAX_OVERFLOW c) (\<lambda>overflow.
     rbind (DATABASE_POOL_RECYCLE c) (\<lambda>recycle. rbind (DATABASE_POOL_PRE_PING c) (\<lambda>ping.
       Inr \<lparr>pp_pool_size = size, pp_max_overflow = overflow, pp_pool_recycle = recycle, pp_pool_pre_ping = ping\<rparr>))))"

section \<open>What is wrong with a configuration\<close>

definition cors_errors :: "config \<Rightarrow> config_error list" where
  "cors_errors c = (if DEBUG c \<or> TESTING c then [] else if ''*'' \<notin> set (map strip (CORS_ORIGINS c)) then [] else [CorsOpenToAll])"

text \<open>\<^verbatim>\<open>[A-Za-z0-9][A-Za-z0-9._-]*\<close> on the whole of a name.\<close>

definition JOURNAL_NAME :: "string \<Rightarrow> bool" where
  "JOURNAL_NAME name =
     (case name of [] \<Rightarrow> False
      | ch # rest \<Rightarrow> is_alnum ch \<and> list_all (\<lambda>d. is_alnum d \<or> d = CHR ''.'' \<or> d = CHR ''_'' \<or> d = CHR ''-'') rest)"

definition journal_name_errors :: "config \<Rightarrow> config_error list" where
  "journal_name_errors c =
     concat (map (\<lambda>(setting, name). if JOURNAL_NAME name then [] else [InvalidJournalName setting name])
       [(''LOG_FILENAME'', LOG_FILENAME c), (''AUDIT_LOG_FILENAME'', AUDIT_LOG_FILENAME c), (''ERROR_LOG_FILENAME'', ERROR_LOG_FILENAME c)])"

definition complain :: "bool \<Rightarrow> config_error \<Rightarrow> config_error list" where
  "complain wrong e = (if wrong then [e] else [])"

definition bounds_errors :: "config \<Rightarrow> (config_error, config_error list) result" where
  "bounds_errors c =
     rbind (MAX_URL_LENGTH c) (\<lambda>max_url. rbind (SHORT_CODE_MIN_LENGTH c) (\<lambda>min_length. rbind (SHORT_CODE_MAX_LENGTH c) (\<lambda>max_length.
     rbind (BATCH_CREATE_LIMIT c) (\<lambda>batch. rbind (MAX_CONTENT_LENGTH c) (\<lambda>content. rbind (SHORT_CODE_LENGTH c) (\<lambda>code_length.
       Inr (map InvalidScheme (filter (\<lambda>s. s \<notin> {''http'', ''https''}) (ALLOWED_SCHEMES c))
         @ complain (max_url > 2048) (OutsideBounds ''MAX_URL_LENGTH should not exceed 2048'')
         @ complain (max_url < 1) (OutsideBounds ''MAX_URL_LENGTH must be positive'')
         @ complain (min_length < int MIN_LENGTH) (OutsideBounds ''SHORT_CODE_MIN_LENGTH'')
         @ complain (max_length > int MAX_LENGTH) (OutsideBounds ''SHORT_CODE_MAX_LENGTH'')
         @ complain (batch > MAX_BATCH_ITEMS) (OutsideBounds ''BATCH_CREATE_LIMIT'')
         @ complain (content < 1) (OutsideBounds ''MAX_CONTENT_LENGTH'')
         @ complain (0 < content \<and> content < batch * max_url) (BatchDoesNotFit content batch max_url)
         @ complain (\<not> (min_length \<le> code_length \<and> code_length \<le> max_length)) (OutsideBounds ''SHORT_CODE_LENGTH''))))))))"

definition language_errors :: "config \<Rightarrow> config_error list" where
  "language_errors c =
     (let supported = filter (\<lambda>tag. tag \<noteq> []) (map (\<lambda>tag. lower (strip tag)) (SUPPORTED_LANGUAGES c))
      in (if supported = [] then [NoLanguage]
          else complain (lower (strip (DEFAULT_LANGUAGE c)) \<notin> set supported) (DefaultLanguageMissing (DEFAULT_LANGUAGE c)))
         @ map LanguageUnreadable (filter (\<lambda>tag. \<not> pr_locale_parses (cf_process c) tag) supported))"

text \<open>\<^verbatim>\<open>s.upper()\<close> as far as a comparison with names of ASCII letters can tell.\<close>

definition upper_ascii :: "string \<Rightarrow> string" where
  "upper_ascii s = map (\<lambda>ch. if char_range (CHR ''a'') (CHR ''z'') ch then char_of (code ch - 32) else ch) s"

definition log_level_errors :: "config \<Rightarrow> config_error list" where
  "log_level_errors c =
     complain (upper_ascii (LOG_LEVEL c) \<notin> set [''DEBUG'', ''INFO'', ''WARNING'', ''ERROR'', ''CRITICAL'']) (InvalidLogLevel (LOG_LEVEL c))"

definition session_cookie_errors :: "config \<Rightarrow> config_error list" where
  "session_cookie_errors c =
     complain (SESSION_COOKIE_SAMESITE c \<notin> set [''Strict'', ''Lax'', ''None'']) (InvalidSameSite (SESSION_COOKIE_SAMESITE c))"

definition secret_errors :: "config \<Rightarrow> config_error list" where
  "secret_errors c =
     concat (map (\<lambda>(value, env_name, drawn).
         case value of Inl e \<Rightarrow> [e] | Inr v \<Rightarrow> complain (v = drawn) (SecretIsDefault env_name))
       [(SECRET_KEY c, ''SECRET_KEY'', pr_secret_key (cf_process c)),
        (SHORT_CODE_SECRET_PEPPER c, ''SHORT_CODE_PEPPER'', pr_pepper (cf_process c))])"

definition redis_errors :: "config \<Rightarrow> (config_error, config_error list) result" where
  "redis_errors c =
     rbind (REDIS_ENABLED c) (\<lambda>enabled.
       if \<not> enabled then Inr []
       else (case REDIS_URL c of Inl e \<Rightarrow> Inr [e] | Inr url \<Rightarrow> Inr (complain (url = []) (MustBeSet ''REDIS_URL''))))"

definition domain_errors :: "config \<Rightarrow> config_error list" where
  "domain_errors c =
     (let domain = domain_value c
      in if domain = [] then []
         else if contains domain ''://'' then [DomainIsUrl domain]
         else if CHR ''/'' \<in> set domain then [DomainIsPath domain]
         else [])"

definition illegal_in :: "string \<Rightarrow> string" where
  "illegal_in s = filter (\<lambda>ch. ch \<in> set s) ''?#@/''"

definition database_errors :: "config \<Rightarrow> config_error list" where
  "database_errors c =
     complain (DATABASE_URL c \<noteq> [] \<and> pr_make_url (cf_process c) (strip (DATABASE_URL c)) = None) DatabaseUrlUnparsable
     @ (if DATABASE_TYPE c = ''postgresql''
        then complain (illegal_in (DATABASE_NAME c) \<noteq> []) (IllegalCharacters ''DATABASE_NAME'' (illegal_in (DATABASE_NAME c)))
          @ complain (illegal_in (DATABASE_HOST c) \<noteq> []) (IllegalCharacters ''DATABASE_HOST'' (illegal_in (DATABASE_HOST c)))
        else [])
     @ (if DATABASE_TYPE c = ''sqlite'' \<and> DATABASE_NAME c \<noteq> '':memory:''
        then complain (CHR ''?'' \<in> set (DATABASE_NAME c)) NameHasQuery
          @ complain (''..'' \<in> set (path_parts (DATABASE_NAME c))) NameClimbs
        else [])
     @ complain (DATABASE_TYPE c \<notin> set [''sqlite'', ''postgresql'']) (UnsupportedDatabaseType (DATABASE_TYPE c))"

definition validate_database :: "config \<Rightarrow> (config_error list, unit) result" where
  "validate_database c = (if database_errors c \<noteq> [] then Inl (database_errors c) else Inr ())"

definition deployed_backend_errors :: "config \<Rightarrow> config_error list" where
  "deployed_backend_errors c =
     (if DEBUG c \<or> TESTING c then []
      else case parsed_backend c of
        None \<Rightarrow> []
      | Some backend \<Rightarrow>
          if backend = ''postgresql'' then []
          else [NotPostgresql (display_database_url c) (DATABASE_URL c \<noteq> []) (backend = ''sqlite'')])"

definition default_secrets_in_use :: "config \<Rightarrow> (config_error, string list) result" where
  "default_secrets_in_use c =
     rbind (SECRET_KEY c) (\<lambda>key. rbind (SHORT_CODE_SECRET_PEPPER c) (\<lambda>pepper.
       Inr ((if key = pr_secret_key (cf_process c) then [''SECRET_KEY''] else [])
         @ (if pepper = pr_pepper (cf_process c) then [''SHORT_CODE_PEPPER''] else []))))"

text \<open>The settings of a list are all read before the first of them is judged.\<close>

definition read_all :: "config \<Rightarrow> (string \<times> (config \<Rightarrow> (config_error, int) result)) list \<Rightarrow> (config_error, (string \<times> int) list) result" where
  "read_all c settings = rmap (\<lambda>(name, get). rbind (get c) (\<lambda>v. Inr (name, v))) settings"

definition positive_settings :: "(string \<times> (config \<Rightarrow> (config_error, int) result)) list" where
  "positive_settings =
     [(''GUEST_LINK_LIMIT'', GUEST_LINK_LIMIT), (''GUEST_LINK_WINDOW_DAYS'', GUEST_LINK_WINDOW_DAYS),
      (''BATCH_CREATE_LIMIT'', BATCH_CREATE_LIMIT), (''MAX_COLLISION_ATTEMPTS'', MAX_COLLISION_ATTEMPTS),
      (''DEFAULT_RATE_LIMIT'', DEFAULT_RATE_LIMIT), (''DEFAULT_RATE_LIMIT_PERIOD'', DEFAULT_RATE_LIMIT_PERIOD),
      (''JWT_ACCESS_TOKEN_EXPIRE_MINUTES'', JWT_ACCESS_TOKEN_EXPIRE_MINUTES),
      (''JWT_REFRESH_TOKEN_EXPIRE_DAYS'', JWT_REFRESH_TOKEN_EXPIRE_DAYS)]"

definition non_negative_settings :: "(string \<times> (config \<Rightarrow> (config_error, int) result)) list" where
  "non_negative_settings =
     [(''CACHE_LINK_TTL'', CACHE_LINK_TTL), (''DATABASE_CONNECT_TIMEOUT'', DATABASE_CONNECT_TIMEOUT),
      (''DATABASE_STATEMENT_TIMEOUT'', DATABASE_STATEMENT_TIMEOUT), (''CACHE_STATS_TTL'', CACHE_STATS_TTL),
      (''POPULAR_THRESHOLD'', POPULAR_THRESHOLD), (''RECENT_DAYS'', RECENT_DAYS),
      (''VISIT_RETENTION_DAYS'', VISIT_RETENTION_DAYS), (''SECURITY_EVENT_RETENTION_DAYS'', SECURITY_EVENT_RETENTION_DAYS),
      (''HSTS_MAX_AGE'', HSTS_MAX_AGE)]"

definition lifetime_settings :: "(string \<times> (config \<Rightarrow> (config_error, int) result)) list" where
  "lifetime_settings = [(''DEFAULT_GUEST_TTL_SECONDS'', DEFAULT_GUEST_TTL_SECONDS), (''MAX_TTL_SECONDS'', MAX_TTL_SECONDS)]"

definition confirmation_settings :: "(string \<times> (config \<Rightarrow> (config_error, int) result)) list" where
  "confirmation_settings =
     [(''EMAIL_VERIFICATION_TTL_HOURS'', EMAIL_VERIFICATION_TTL_HOURS), (''UNVERIFIED_ACCOUNT_TTL_HOURS'', UNVERIFIED_ACCOUNT_TTL_HOURS)]"

definition complaints :: "(int \<Rightarrow> bool) \<Rightarrow> (string \<Rightarrow> int \<Rightarrow> config_error) \<Rightarrow> (string \<times> int) list \<Rightarrow> config_error list" where
  "complaints wrong e settings = concat (map (\<lambda>(name, v). complain (wrong v) (e name v)) settings)"

definition numeric_errors :: "config \<Rightarrow> (config_error, config_error list) result" where
  "numeric_errors c =
     rbind (PORT c) (\<lambda>port. rbind (read_all c positive_settings) (\<lambda>positive. rbind (HEALTH_CHECK_TIMEOUT c) (\<lambda>budget.
     rbind (read_all c non_negative_settings) (\<lambda>non_negative. rbind (read_all c lifetime_settings) (\<lambda>lifetimes.
     rbind (MAX_TTL_SECONDS c) (\<lambda>max_ttl. rbind (DEFAULT_GUEST_TTL_SECONDS c) (\<lambda>guest_ttl.
     rbind (FAILOVER_CHECK_INTERVAL c) (\<lambda>interval.
       Inr (complain (\<not> (1 \<le> port \<and> port \<le> 65535)) (PortOutside ''PORT'' port)
         @ complaints (\<lambda>v. v < 1) NotPositive positive
         @ complain (\<not> isfinite budget \<or> at_most_zero budget) (NotPositiveFinite ''HEALTH_CHECK_TIMEOUT'')
         @ complaints (\<lambda>v. v < 0) Negative non_negative
         @ complaints (\<lambda>v. v < 1) NeverExpires lifetimes
         @ complain (0 < max_ttl \<and> max_ttl < guest_ttl) (GuestOutlivesCeiling guest_ttl max_ttl)
         @ complain (\<not> isfinite interval \<or> at_most_zero interval) (NotPositiveFinite ''FAILOVER_CHECK_INTERVAL''))))))))))"

text \<open>What is asked of the mail settings once something intends to submit.\<close>

definition submission_errors :: "config \<Rightarrow> bool \<Rightarrow> bool \<Rightarrow> config_error list" where
  "submission_errors c tls ssl =
     complain (MAIL_HOST c = []) (MustBeSet ''MAIL_HOST'')
     @ (if MAIL_FROM c = [] then [MustBeSet ''MAIL_FROM'']
        else complain (\<not> EMAIL_PATTERN_RE (MAIL_FROM c)) (MailFromInvalid (MAIL_FROM c)))
     @ complain (REQUIRE_MAIL_TLS c \<and> \<not> (tls \<or> ssl)) (MailContradiction ''this profile requires encryption'')
     @ complain (MAIL_USERNAME c \<noteq> [] \<and> \<not> (tls \<or> ssl)) (MailContradiction ''MAIL_USERNAME without encryption'')
     @ complain (MAIL_PASSWORD c \<noteq> [] \<and> MAIL_USERNAME c = []) (MailContradiction ''MAIL_PASSWORD without MAIL_USERNAME'')
     @ complain (MAIL_USERNAME c \<noteq> [] \<and> MAIL_PASSWORD c = []) (MailContradiction ''MAIL_USERNAME without MAIL_PASSWORD'')"

definition mail_errors :: "config \<Rightarrow> (config_error, config_error list) result" where
  "mail_errors c =
     rbind (MAIL_USE_TLS c) (\<lambda>tls. rbind (if tls then MAIL_USE_SSL c else Inr False) (\<lambda>both.
     rbind (MAIL_PORT c) (\<lambda>port. rbind (MAIL_TIMEOUT c) (\<lambda>timeout. rbind (MAIL_ENABLED c) (\<lambda>enabled.
       let transport = complain both (MailContradiction ''MAIL_USE_TLS and MAIL_USE_SSL'')
             @ complain (\<not> (1 \<le> port \<and> port \<le> 65535)) (PortOutside ''MAIL_PORT'' port)
             @ complain (\<not> isfinite timeout \<or> at_most_zero timeout) (NotPositiveFinite ''MAIL_TIMEOUT'')
       in if \<not> enabled then Inr transport
          else rbind (if tls \<or> \<not> (REQUIRE_MAIL_TLS c \<or> MAIL_USERNAME c \<noteq> []) then Inr False else MAIL_USE_SSL c) (\<lambda>ssl.
            Inr (transport @ submission_errors c tls ssl)))))))"

definition confirmation_errors :: "config \<Rightarrow> (config_error, config_error list) result" where
  "confirmation_errors c =
     rbind (read_all c confirmation_settings) (\<lambda>hours. rbind (PASSWORD_RESET_TTL_MINUTES c) (\<lambda>minutes.
     rbind (UNVERIFIED_ACCOUNT_TTL_HOURS c) (\<lambda>unverified. rbind (EMAIL_VERIFICATION_TTL_HOURS c) (\<lambda>verification.
       Inr (complaints (\<lambda>v. v < 1) NotPositive hours
         @ complain (minutes < 1) (NotPositive ''PASSWORD_RESET_TTL_MINUTES'' minutes)
         @ complain (unverified < verification) SweptTooEarly)))))"

text \<open>The list of the base class, and what the two deployed profiles add to it.\<close>

definition base_errors :: "config \<Rightarrow> (config_error, config_error list) result" where
  "base_errors c =
     rbind (bounds_errors c) (\<lambda>bounds. rbind (redis_errors c) (\<lambda>redis. rbind (numeric_errors c) (\<lambda>numeric.
     rbind (mail_errors c) (\<lambda>mail. rbind (confirmation_errors c) (\<lambda>confirmation.
       Inr ((if \<not> DEBUG c \<and> \<not> TESTING c then secret_errors c else [])
         @ domain_errors c @ database_errors c @ deployed_backend_errors c
         @ bounds @ redis @ numeric @ mail @ confirmation
         @ log_level_errors c @ language_errors c @ journal_name_errors c @ session_cookie_errors c @ cors_errors c))))))"

definition unnamed_part :: "config \<Rightarrow> string \<Rightarrow> bool" where
  "unnamed_part c name \<longleftrightarrow>
     (if name = ''DATABASE_HOST'' then DATABASE_HOST c = ''localhost'' else DATABASE_NAME c = ''db_shortener'')
     \<and> is_unset (read_env_for c name)"

definition deployed_errors :: "config \<Rightarrow> config_error list" where
  "deployed_errors c =
     (case get_database_url c of Inl e \<Rightarrow> [e] | Inr _ \<Rightarrow> [])
     @ (if DATABASE_URL c = [] \<and> DATABASE_TYPE c = ''postgresql''
        then map PartAtDefault (filter (unnamed_part c) [''DATABASE_HOST'', ''DATABASE_NAME'']) else [])
     @ complain (domain_value c = []) DomainMissing"

definition collect_errors :: "config \<Rightarrow> (config_error, config_error list) result" where
  "collect_errors c = rbind (base_errors c) (\<lambda>errors. Inr (errors @ (if deployed c then deployed_errors c else [])))"

text \<open>A setting that cannot be read raises at once; everything else is told together, each thing once.\<close>

datatype config_failure = Raised config_error | ConfigurationErrors "config_error list"

definition each_once :: "'a list \<Rightarrow> 'a list" where
  "each_once xs = rev (remdups (rev xs))"

definition validate :: "config \<Rightarrow> (config_failure, unit) result" where
  "validate c =
     (case collect_errors c of
        Inl e \<Rightarrow> Inl (Raised e)
      | Inr errors \<Rightarrow> if each_once errors \<noteq> [] then Inl (ConfigurationErrors (each_once errors)) else Inr ())"

definition create_config :: "process \<Rightarrow> dotenv \<Rightarrow> string option \<Rightarrow> environ \<Rightarrow> (config_failure, config) result" where
  "create_config p de arg env =
     (case create_config_unvalidated p de arg env of
        Inl e \<Rightarrow> Inl (Raised e)
      | Inr c \<Rightarrow> rbind (validate c) (\<lambda>_. Inr c))"

section \<open>Lemmas: nothing to complain about\<close>

lemma complain_Nil [simp]: "complain wrong e = [] \<longleftrightarrow> \<not> wrong"
  by (simp add: complain_def)

lemma complaints_Nil [simp]: "complaints wrong e settings = [] \<longleftrightarrow> (\<forall>x \<in> set settings. \<not> wrong (snd x))"
  by (auto simp: complaints_def)

lemma each_once_Nil [simp]: "each_once xs = [] \<longleftrightarrow> xs = []"
  by (simp add: each_once_def)

lemma validate_accepts: "validate c = Inr () \<longleftrightarrow> collect_errors c = Inr []"
  by (auto simp: validate_def split: sum.splits)

lemma read_all_Cons:
  "read_all c ((name, get) # rest) = Inr vs \<longleftrightarrow> (\<exists>v ws. get c = Inr v \<and> read_all c rest = Inr ws \<and> vs = (name, v) # ws)"
  by (auto simp: read_all_def result_simps)

lemma read_all_Nil: "read_all c [] = Inr vs \<longleftrightarrow> vs = []"
  by (auto simp: read_all_def)

lemmas read_all_simps = read_all_Nil read_all_Cons

lemma read_all_within:
  "read_all c settings = Inr vs \<Longrightarrow> \<forall>x \<in> set vs. P (snd x) \<Longrightarrow> \<forall>(name, get) \<in> set settings. \<exists>v. get c = Inr v \<and> P v"
proof (induction settings arbitrary: vs)
  case (Cons s rest)
  obtain n g where s: "s = (n, g)" by fastforce
  from Cons.prems(1) obtain v ws where v: "g c = Inr v" "read_all c rest = Inr ws" "vs = (n, v) # ws"
    unfolding s read_all_Cons by blast
  have "\<forall>(name, get) \<in> set rest. \<exists>v. get c = Inr v \<and> P v" using Cons.IH [OF v(2)] Cons.prems(2) v(3) by simp
  then show ?case using v(1,3) Cons.prems(2) s by simp
qed simp

lemma bounds_kept:
  assumes "bounds_errors c = Inr []"
  obtains max_url batch content least most len where
    "MAX_URL_LENGTH c = Inr max_url" "1 \<le> max_url" "max_url \<le> 2048"
    "BATCH_CREATE_LIMIT c = Inr batch" "batch \<le> MAX_BATCH_ITEMS"
    "MAX_CONTENT_LENGTH c = Inr content" "batch * max_url \<le> content"
    "SHORT_CODE_MIN_LENGTH c = Inr least" "SHORT_CODE_LENGTH c = Inr len" "SHORT_CODE_MAX_LENGTH c = Inr most"
    "int MIN_LENGTH \<le> least" "least \<le> len" "len \<le> most" "most \<le> int MAX_LENGTH"
    "set (ALLOWED_SCHEMES c) \<subseteq> {''http'', ''https''}"
proof -
  from assms obtain max_url least most batch content len where r:
    "MAX_URL_LENGTH c = Inr max_url" "SHORT_CODE_MIN_LENGTH c = Inr least" "SHORT_CODE_MAX_LENGTH c = Inr most"
    "BATCH_CREATE_LIMIT c = Inr batch" "MAX_CONTENT_LENGTH c = Inr content" "SHORT_CODE_LENGTH c = Inr len"
    and e: "map InvalidScheme (filter (\<lambda>s. s \<notin> {''http'', ''https''}) (ALLOWED_SCHEMES c)) = []"
    "\<not> max_url > 2048" "\<not> max_url < 1" "\<not> least < int MIN_LENGTH" "\<not> most > int MAX_LENGTH" "\<not> batch > MAX_BATCH_ITEMS"
    "\<not> content < 1" "\<not> (0 < content \<and> content < batch * max_url)" "least \<le> len \<and> len \<le> most"
    unfolding bounds_errors_def rbind_eq_Inr sum.inject append_is_Nil_conv complain_Nil by blast
  have "set (ALLOWED_SCHEMES c) \<subseteq> {''http'', ''https''}" using e(1) unfolding map_is_Nil_conv filter_empty_conv by blast
  then show thesis using that r e by auto
qed

lemma numbers_kept:
  assumes "numeric_errors c = Inr []"
  obtains (numbers) port budget interval guest_ttl max_ttl where
    "PORT c = Inr port" "1 \<le> port" "port \<le> 65535"
    "\<forall>(name, get) \<in> set positive_settings. \<exists>v. get c = Inr v \<and> 1 \<le> v"
    "\<forall>(name, get) \<in> set non_negative_settings. \<exists>v. get c = Inr v \<and> 0 \<le> v"
    "HEALTH_CHECK_TIMEOUT c = Inr budget" "isfinite budget" "\<not> at_most_zero budget"
    "FAILOVER_CHECK_INTERVAL c = Inr interval" "isfinite interval" "\<not> at_most_zero interval"
    "DEFAULT_GUEST_TTL_SECONDS c = Inr guest_ttl" "MAX_TTL_SECONDS c = Inr max_ttl" "1 \<le> guest_ttl" "guest_ttl \<le> max_ttl"
proof -
  from assms obtain port positive budget non_negative lifetimes max_ttl guest_ttl interval where r:
    "PORT c = Inr port" "read_all c positive_settings = Inr positive" "HEALTH_CHECK_TIMEOUT c = Inr budget"
    "read_all c non_negative_settings = Inr non_negative" "read_all c lifetime_settings = Inr lifetimes"
    "MAX_TTL_SECONDS c = Inr max_ttl" "DEFAULT_GUEST_TTL_SECONDS c = Inr guest_ttl" "FAILOVER_CHECK_INTERVAL c = Inr interval"
    and e: "1 \<le> port \<and> port \<le> 65535" "\<forall>x \<in> set positive. \<not> snd x < 1" "isfinite budget \<and> \<not> at_most_zero budget"
    "\<forall>x \<in> set non_negative. \<not> snd x < 0" "\<forall>x \<in> set lifetimes. \<not> snd x < 1" "\<not> (0 < max_ttl \<and> max_ttl < guest_ttl)"
    "isfinite interval \<and> \<not> at_most_zero interval"
    unfolding numeric_errors_def rbind_eq_Inr sum.inject append_is_Nil_conv complain_Nil complaints_Nil by blast
  have pos: "\<forall>(name, get) \<in> set positive_settings. \<exists>v. get c = Inr v \<and> 1 \<le> v"
    by (rule read_all_within [OF r(2)]) (use e(2) in force)
  have non: "\<forall>(name, get) \<in> set non_negative_settings. \<exists>v. get c = Inr v \<and> 0 \<le> v"
    by (rule read_all_within [OF r(4)]) (use e(4) in force)
  have "1 \<le> guest_ttl" "1 \<le> max_ttl"
    using r(5,6,7) e(5) by (auto simp: lifetime_settings_def read_all_simps)
  then show thesis using numbers [OF r(1) _ _ pos non r(3) _ _ r(8) _ _ r(7) r(6)] e by auto
qed

lemma accepted_parts:
  assumes "validate c = Inr ()"
  shows "bounds_errors c = Inr []" "redis_errors c = Inr []" "numeric_errors c = Inr []" "mail_errors c = Inr []"
    "confirmation_errors c = Inr []" "domain_errors c = []" "database_errors c = []" "deployed_backend_errors c = []"
    "journal_name_errors c = []" "cors_errors c = []"
    "deployed c \<Longrightarrow> secret_errors c = []" "deployed c \<Longrightarrow> deployed_errors c = []"
proof -
  have "deployed c \<Longrightarrow> \<not> DEBUG c \<and> \<not> TESTING c" by (auto simp: deployed_def DEBUG_def TESTING_def)
  then show "bounds_errors c = Inr []" "redis_errors c = Inr []" "numeric_errors c = Inr []" "mail_errors c = Inr []"
    "confirmation_errors c = Inr []" "domain_errors c = []" "database_errors c = []" "deployed_backend_errors c = []"
    "journal_name_errors c = []" "cors_errors c = []"
    "deployed c \<Longrightarrow> secret_errors c = []" "deployed c \<Longrightarrow> deployed_errors c = []"
    using assms unfolding validate_accepts collect_errors_def base_errors_def rbind_eq_Inr sum.inject append_is_Nil_conv
    by (simp_all split: if_splits)
qed

text \<open>A journal whose name is accepted is a file of the directory of logs: its name has no separator.\<close>

lemma journal_name_is_no_path: "JOURNAL_NAME name \<Longrightarrow> CHR ''/'' \<notin> set name \<and> name \<noteq> ''..'' \<and> name \<noteq> []"
  by (auto simp: JOURNAL_NAME_def list_all_iff is_alnum_def is_alpha_def is_digit_def char_range_def code_def split: list.splits)

text \<open>What \<open>display_url\<close> hands to the renderer carries the mask under every name that ends in \<^verbatim>\<open>password\<close>.\<close>

lemma dict_set_lookup: "map_of (dict_set k v q) k' = (if k' = k then Some v else map_of q k')"
  by (induction q) auto

lemma mask_query_masks:
  assumes "endswith (lower name) ''password''" and "map_of (du_query (mask_query u)) name = Some v"
  shows "v = [MASK]"
proof -
  have "map_of (fold (\<lambda>n q. dict_set n [MASK] q) ns q) name = (if name \<in> set ns then Some [MASK] else map_of q name)" for ns q
    by (induction ns arbitrary: q) (auto simp: dict_set_lookup)
  moreover have "name \<in> set (credential_names u)" if "map_of (du_query u) name = Some w" for w
    using assms(1) map_of_SomeD [OF that] by (force simp: credential_names_def)
  ultimately show ?thesis using assms(2) by (auto simp: mask_query_def split: if_splits)
qed

lemma deployed_modes: "deployed c \<Longrightarrow> \<not> DEBUG c \<and> \<not> TESTING c \<and> \<not> IGNORE_ENV c"
  by (auto simp: deployed_def DEBUG_def TESTING_def IGNORE_ENV_def)

lemma secrets_of_a_deployment:
  assumes "deployed c" and "secret_errors c = []"
  obtains key pepper where "SECRET_KEY c = Inr key" "read_env_for c ''SECRET_KEY'' = Some key" "key \<noteq> pr_secret_key (cf_process c)"
    "SHORT_CODE_SECRET_PEPPER c = Inr pepper" "read_env_for c ''SHORT_CODE_PEPPER'' = Some pepper" "pepper \<noteq> pr_pepper (cf_process c)"
proof -
  obtain key pepper where k: "SECRET_KEY c = Inr key" "key \<noteq> pr_secret_key (cf_process c)"
    "SHORT_CODE_SECRET_PEPPER c = Inr pepper" "pepper \<noteq> pr_pepper (cf_process c)"
    using assms(2) by (auto simp: secret_errors_def complain_def split: sum.splits if_splits)
  moreover from this assms(1) have "read_env_for c ''SECRET_KEY'' = Some key" "read_env_for c ''SHORT_CODE_PEPPER'' = Some pepper"
    by (auto simp: SECRET_KEY_def SHORT_CODE_SECRET_PEPPER_def deployed_def split: option.splits if_splits)
  ultimately show thesis using that by blast
qed

lemma redis_of_a_deployment:
  assumes "deployed c" and "redis_errors c = Inr []" and "REDIS_ENABLED c = Inr True"
  shows "\<exists>url. REDIS_URL c = Inr url \<and> url \<noteq> [] \<and> read_env_for c ''REDIS_URL'' = Some url"
proof -
  obtain url where u: "REDIS_URL c = Inr url" "url \<noteq> []"
    using assms(2,3) by (auto simp: redis_errors_def split: sum.splits)
  moreover have "read_env_for c ''REDIS_URL'' = Some url"
    using u(1) assms(1,3) by (auto simp: REDIS_URL_def deployed_def split: option.splits if_splits)
  ultimately show ?thesis by blast
qed

lemma mail_of_a_deployment:
  assumes "deployed c" and "mail_errors c = Inr []" and "MAIL_ENABLED c = Inr True"
  shows "MAIL_USE_TLS c = Inr True \<and> MAIL_USE_SSL c = Inr False \<or> MAIL_USE_TLS c = Inr False \<and> MAIL_USE_SSL c = Inr True"
proof -
  obtain tls both port timeout ssl where r: "MAIL_USE_TLS c = Inr tls" "(if tls then MAIL_USE_SSL c else Inr False) = Inr both"
    "(if tls \<or> \<not> (REQUIRE_MAIL_TLS c \<or> MAIL_USERNAME c \<noteq> []) then Inr False else MAIL_USE_SSL c) = Inr ssl"
    and e: "\<not> both" "submission_errors c tls ssl = []"
    using assms(2,3) unfolding mail_errors_def rbind_eq_Inr Let_def
    by (auto simp: rbind_eq_Inr simp del: if_split split: if_split_asm)
  have "REQUIRE_MAIL_TLS c" using assms(1) by (simp add: REQUIRE_MAIL_TLS_def)
  moreover from this e(2) have "tls \<or> ssl" by (auto simp: submission_errors_def)
  ultimately show ?thesis using r e(1) by (cases tls) auto
qed

section \<open>Properties\<close>

text \<open>
  C25. What a deployed profile comes up with. If the factory hands out a configuration for
  staging or production, both secrets were set and are not the ones drawn at random at
  start-up, the domain is a host name, whatever database can be opened is PostgreSQL, Redis
  has an address of its own if it is used, mail leaves encrypted in one way if it is sent, and
  no list of origins admits everybody.
\<close>

theorem deployed_configuration_is_safe:
  assumes "create_config p de arg env = Inr c" and "deployed c"
  shows "(\<exists>key pepper. SECRET_KEY c = Inr key \<and> strip key \<noteq> [] \<and> key \<noteq> pr_secret_key p
      \<and> SHORT_CODE_SECRET_PEPPER c = Inr pepper \<and> strip pepper \<noteq> [] \<and> pepper \<noteq> pr_pepper p) \<and>
    (domain_value c \<noteq> [] \<and> CHR ''/'' \<notin> set (domain_value c)) \<and>
    (\<exists>url. get_database_url c = Inr url \<and> (\<forall>u. pr_make_url p url = Some u \<longrightarrow> get_backend_name u = ''postgresql'')) \<and>
    (REDIS_ENABLED c = Inr True \<longrightarrow> (\<exists>url. REDIS_URL c = Inr url \<and> url \<noteq> [] \<and> read_env_for c ''REDIS_URL'' = Some url)) \<and>
    (MAIL_ENABLED c = Inr True \<longrightarrow> MAIL_USE_TLS c = Inr True \<and> MAIL_USE_SSL c = Inr False
           \<or> MAIL_USE_TLS c = Inr False \<and> MAIL_USE_SSL c = Inr True) \<and>
    (''*'' \<notin> set (CORS_ORIGINS c))"
proof -
  have v: "validate c = Inr ()" and p: "cf_process c = p"
    using assms(1) by (auto simp: create_config_def create_config_unvalidated_def Let_def result_simps split: sum.splits option.splits)
  note parts = accepted_parts [OF v] and modes = deployed_modes [OF assms(2)]
  have strip_read: "strip x \<noteq> []" if "read_env_for c n = Some x" for n x
    using that by (auto simp: read_env_for_def read_env_def is_unset_def split: if_splits option.splits)
  have c1: "\<exists>key pepper. SECRET_KEY c = Inr key \<and> strip key \<noteq> [] \<and> key \<noteq> pr_secret_key p
      \<and> SHORT_CODE_SECRET_PEPPER c = Inr pepper \<and> strip pepper \<noteq> [] \<and> pepper \<noteq> pr_pepper p"
    using secrets_of_a_deployment [OF assms(2) parts(11) [OF assms(2)]] strip_read unfolding p by metis
  have c2: "domain_value c \<noteq> [] \<and> CHR ''/'' \<notin> set (domain_value c)"
    using parts(12) [OF assms(2)] parts(6) by (auto simp: deployed_errors_def domain_errors_def Let_def split: if_splits)
  have c3: "\<exists>url. get_database_url c = Inr url \<and> (\<forall>u. pr_make_url p url = Some u \<longrightarrow> get_backend_name u = ''postgresql'')"
    using parts(12) [OF assms(2)] parts(8) modes p
    by (auto simp: deployed_errors_def deployed_backend_errors_def parsed_backend_def split: sum.splits if_splits option.splits)
  have c4: "REDIS_ENABLED c = Inr True \<longrightarrow> (\<exists>url. REDIS_URL c = Inr url \<and> url \<noteq> [] \<and> read_env_for c ''REDIS_URL'' = Some url)"
    using redis_of_a_deployment [OF assms(2) parts(2)] by blast
  have c5: "MAIL_ENABLED c = Inr True \<longrightarrow> MAIL_USE_TLS c = Inr True \<and> MAIL_USE_SSL c = Inr False
           \<or> MAIL_USE_TLS c = Inr False \<and> MAIL_USE_SSL c = Inr True"
    using mail_of_a_deployment [OF assms(2) parts(4)] by blast
  have c6: "''*'' \<notin> set (CORS_ORIGINS c)"
  proof
    assume "''*'' \<in> set (CORS_ORIGINS c)"
    moreover have "strip ''*'' = ''*''" by code_simp
    ultimately have "''*'' \<in> set (map strip (CORS_ORIGINS c))" by force
    then show False using parts(10) modes by (simp add: cors_errors_def split: if_splits)
  qed
  show ?thesis by (rule conjI [OF c1 conjI [OF c2 conjI [OF c3 conjI [OF c4 conjI [OF c5 c6]]]]])
qed


section \<open>Witnesses\<close>

definition site_environ :: environ where
  "site_environ = map_of [(''SECRET_KEY'', ''s3cret''), (''SHORT_CODE_PEPPER'', ''p3pper''), (''DOMAIN'', ''go.example''),
     (''DATABASE_URL'', ''postgres://db/links''), (''REDIS_URL'', ''redis://cache''), (''PORT'', ''443'')]"

lemma site_is_accepted:
  "case create_config site_process site_files None site_environ of Inl _ \<Rightarrow> False
   | Inr c \<Rightarrow> deployed c \<and> get_database_url c = Inr ''postgresql+psycopg://db/links''"
  by code_simp

theorem deployed_configuration_is_safe_witness:
  "\<exists>c. create_config site_process site_files None site_environ = Inr c \<and> domain_value c \<noteq> []
     \<and> get_database_url c = Inr ''postgresql+psycopg://db/links''"
proof -
  obtain c where "create_config site_process site_files None site_environ = Inr c" "deployed c"
    "get_database_url c = Inr ''postgresql+psycopg://db/links''" using site_is_accepted by (auto split: sum.splits)
  with deployed_configuration_is_safe [of site_process site_files None site_environ c] show ?thesis by blast
qed


end
