(* ===== verification/Migration_Url.thy ===== *)
theory Migration_Url
  imports Configuration
begin

text \<open>
  Which database a migration opens: \<^verbatim>\<open>infrastructure/configs/app/migration_url.py\<close>, with the driver
  arguments of \<^verbatim>\<open>infrastructure/database/manager.py\<close> that it shares with the application. The
  environment of the process is read before and after the \<^verbatim>\<open>.env\<close> files were published into it,
  as the code does.
\<close>

section \<open>The URL\<close>

definition HANDOFF_ENV_VAR :: string where
  "HANDOFF_ENV_VAR = ''ALEMBIC_DATABASE_URL''"

definition handed_over_url :: "process \<Rightarrow> environ \<Rightarrow> string option" where
  "handed_over_url p env =
     (case env HANDOFF_ENV_VAR of
        None \<Rightarrow> None
      | Some raw \<Rightarrow> if is_unset (Some raw) then None else Some (normalise_backend p (strip raw)))"

definition PROFILES_ALLOWED_A_DEFAULT_DATABASE :: "string list" where
  "PROFILES_ALLOWED_A_DEFAULT_DATABASE = [''development'']"

text \<open>\<^verbatim>\<open>_refuse_a_database_nobody_named\<close>: the first part that is still the default is named.\<close>

definition refuse_a_database_nobody_named :: "string \<Rightarrow> config \<Rightarrow> (config_error, unit) result" where
  "refuse_a_database_nobody_named profile c =
     (if profile \<in> set PROFILES_ALLOWED_A_DEFAULT_DATABASE then Inr ()
      else if DATABASE_URL c \<noteq> [] \<or> DATABASE_TYPE c \<noteq> ''postgresql'' then Inr ()
      else (case filter (unnamed_part c) [''DATABASE_HOST'', ''DATABASE_NAME''] of
              [] \<Rightarrow> Inr ()
            | name # _ \<Rightarrow> Inl (Refused ''a database nobody named'' name)))"

definition refuse_a_database_a_migration_should_not_touch ::
  "string \<Rightarrow> string option \<Rightarrow> config \<Rightarrow> string \<Rightarrow> (config_error, unit) result" where
  "refuse_a_database_a_migration_should_not_touch profile named c url =
     (case pr_make_url (cf_process c) url of
        None \<Rightarrow> Inl DatabaseUrlUnparsable
      | Some parsed \<Rightarrow>
          if get_backend_name parsed \<noteq> ''sqlite'' then Inr ()
          else if named \<noteq> None \<and> profile \<in> set PROFILES_ALLOWED_A_DEFAULT_DATABASE then Inr ()
          else let database = (case du_database parsed of None \<Rightarrow> [] | Some d \<Rightarrow> d)
               in if database = [] \<or> contains database '':memory:''
                  then Inl (Refused ''a database inside this process'' profile)
                  else if \<not> is_unset (read_env_for c ''DATABASE_URL'') then Inr ()
                  else if named = None then Inl (Refused ''nothing names a profile'' profile)
                  else Inl (Refused ''a SQLite database no DATABASE_URL named'' profile))"

definition refuse_a_target_a_migration_should_not_touch ::
  "dotenv \<Rightarrow> config \<Rightarrow> environ \<Rightarrow> string \<Rightarrow> string option \<Rightarrow> (config_error, unit) result" where
  "refuse_a_target_a_migration_should_not_touch de c env url arg =
     (let named = named_env (cf_process c) de env arg;
          profile = resolve_env (cf_process c) de env named
      in rbind (refuse_a_database_a_migration_should_not_touch profile named c url) (\<lambda>_.
           refuse_a_database_nobody_named profile c))"

definition resolve_database_url ::
  "process \<Rightarrow> dotenv \<Rightarrow> string option \<Rightarrow> environ \<Rightarrow> (config_failure, string) result" where
  "resolve_database_url p de arg env =
     (case handed_over_url p env of
        Some url \<Rightarrow> Inr url
      | None \<Rightarrow>
          (case create_config_unvalidated p de (Some (resolve_env p de env (named_env p de env arg))) env of
             Inl e \<Rightarrow> Inl (Raised e)
           | Inr c \<Rightarrow>
               (case (if DATABASE_URL c = [] then validate_database c else Inr ()) of
                  Inl errors \<Rightarrow> Inl (ConfigurationErrors errors)
                | Inr _ \<Rightarrow>
                    (case get_database_url c of
                       Inl e \<Rightarrow> Inl (Raised e)
                     | Inr url \<Rightarrow>
                         (case refuse_a_target_a_migration_should_not_touch de c (cf_environ c) url arg of
                            Inl e \<Rightarrow> Inl (Raised e)
                          | Inr _ \<Rightarrow> Inr url)))))"

section \<open>The arguments of the driver\<close>

text \<open>A value of the mapping: a number or a text.\<close>

datatype driver_value = DNumber int | DText string

definition postgresql_connect_args :: "int \<Rightarrow> int \<Rightarrow> (string \<times> driver_value) list" where
  "postgresql_connect_args connect_timeout statement_timeout =
     (if connect_timeout \<noteq> 0 then [(''connect_timeout'', DNumber connect_timeout)] else [])
     @ (if statement_timeout \<noteq> 0
        then [(''options'', DText (''-c statement_timeout='' @ str_of_int (statement_timeout * 1000))),
              (''keepalives'', DNumber 1), (''keepalives_idle'', DNumber 5), (''keepalives_interval'', DNumber 2), (''keepalives_count'', DNumber 3)]
        else [])"

text \<open>A setting read off the base class, which no profile detaches from the environment.\<close>

definition base_int :: "environ \<Rightarrow> string \<Rightarrow> int \<Rightarrow> (config_error, int) result" where
  "base_int env name fallback =
     (case read_env env name of
        None \<Rightarrow> Inr fallback
      | Some raw \<Rightarrow> (case python_int raw of None \<Rightarrow> Inl (InvalidVariable name raw) | Some v \<Rightarrow> Inr v))"

definition migration_connect_args :: "process \<Rightarrow> environ \<Rightarrow> string \<Rightarrow> (config_error, (string \<times> driver_value) list) result" where
  "migration_connect_args p env url =
     (case pr_make_url p url of
        None \<Rightarrow> Inl DatabaseUrlUnparsable
      | Some u \<Rightarrow>
          if get_backend_name u \<noteq> ''postgresql'' then Inr []
          else rbind (base_int env ''DATABASE_CONNECT_TIMEOUT'' 3) (\<lambda>connect_timeout.
               rbind (base_int env ''DATABASE_STATEMENT_TIMEOUT'' 10) (\<lambda>statement_timeout.
                 Inr (postgresql_connect_args connect_timeout statement_timeout))))"

section \<open>The engine of the application\<close>

record engine_arguments =
  ea_echo :: bool
  ea_pool :: "pool_params option"
  ea_connect_args :: "(string \<times> driver_value) list"
  ea_foreign_keys :: bool

text \<open>\<^verbatim>\<open>DatabaseManager.connect\<close>: what the engine is created with, and whether the pragma is set on each connection.\<close>

definition db_connect :: "bool \<Rightarrow> string \<Rightarrow> int \<Rightarrow> int \<Rightarrow> pool_params \<Rightarrow> engine_arguments" where
  "db_connect echo database_type connect_timeout statement_timeout pool =
     \<lparr>ea_echo = echo,
      ea_pool = (if database_type = ''postgresql'' then Some pool else None),
      ea_connect_args = (if database_type = ''postgresql'' then postgresql_connect_args connect_timeout statement_timeout else []),
      ea_foreign_keys = (database_type = ''sqlite'')\<rparr>"

text \<open>The database component of the container, wired from the settings.\<close>

definition database_component :: "config \<Rightarrow> (config_error, string \<times> engine_arguments) result" where
  "database_component c =
     rbind (get_database_url c) (\<lambda>url. rbind (SQLALCHEMY_ECHO c) (\<lambda>echo. rbind (get_pool_params c) (\<lambda>pool.
     rbind (DATABASE_CONNECT_TIMEOUT c) (\<lambda>connect_timeout. rbind (DATABASE_STATEMENT_TIMEOUT c) (\<lambda>statement_timeout.
       Inr (url, db_connect echo (database_backend c) connect_timeout statement_timeout pool))))))"

section \<open>Lemmas\<close>

lemma read_env_Some: "read_env env name = Some v \<Longrightarrow> env name = Some v \<and> strip v \<noteq> []"
  by (auto simp: read_env_def is_unset_def split: if_splits option.splits)

lemma read_env_for_set: "\<not> is_unset (read_env_for c name) \<longleftrightarrow> read_env_for c name \<noteq> None"
  by (auto simp: read_env_for_def read_env_def is_unset_def split: option.splits if_splits)

lemma base_int_env_int: "\<not> IGNORE_ENV c \<Longrightarrow> base_int (cf_environ c) name v = env_int c name v"
  by (simp add: base_int_def env_int_def env_field_def read_env_def split: option.split)

lemma strip_lower: "strip (lower s) = lower (strip s)"
  by (simp add: strip_def lower_def dropWhile_map o_def rev_map)

lemma dropWhile_twice: "dropWhile P (dropWhile P xs) = dropWhile P xs"
  by (induction xs) auto

lemma dropWhile_rev_dropWhile: "dropWhile P (rev (dropWhile P (rev (dropWhile P xs)))) = rev (dropWhile P (rev (dropWhile P xs)))"
proof -
  let ?ys = "dropWhile P xs" and ?zs = "dropWhile P (rev (dropWhile P xs))"
  have "rev ?zs = [] \<or> hd (rev ?zs) = hd ?ys \<and> ?ys \<noteq> []"
  proof (cases ?zs)
    case (Cons z zs)
    obtain pre where "rev ?ys = pre @ ?zs" by (metis takeWhile_dropWhile_id)
    then have "?ys = rev ?zs @ rev pre" by (metis rev_append rev_rev_ident)
    then show ?thesis using Cons by (metis Nil_is_append_conv hd_append2 Nil_is_rev_conv list.distinct(1))
  qed simp
  then show ?thesis by (metis hd_dropWhile dropWhile_eq_self_iff)
qed

lemma strip_idem: "strip (strip s) = strip s"
  by (simp add: strip_def dropWhile_rev_dropWhile dropWhile_twice)

text \<open>The name of a profile is written in one way, so it is found again.\<close>

lemma named_env_normal: "named_env p de env arg = Some n \<Longrightarrow> lower (strip n) = n \<and> \<not> is_unset (Some n)"
  by (auto simp: named_env_def Let_def is_unset_def strip_lower strip_idem split: option.splits if_splits)
     (simp_all add: lower_def)

lemma both_parts_named:
  assumes "refuse_a_database_nobody_named profile c = Inr ()" and "profile \<noteq> ''development''"
    and "DATABASE_URL c = []" and "DATABASE_TYPE c = ''postgresql''"
  shows "\<not> unnamed_part c ''DATABASE_HOST'' \<and> \<not> unnamed_part c ''DATABASE_NAME''"
  using assms by (auto simp: refuse_a_database_nobody_named_def PROFILES_ALLOWED_A_DEFAULT_DATABASE_def split: list.splits if_splits)

text \<open>A file that passes belongs to the profile for development, or was named.\<close>

lemma sqlite_target:
  assumes "refuse_a_database_a_migration_should_not_touch profile named c url = Inr ()"
    and "pr_make_url (cf_process c) url = Some u" and "get_backend_name u = ''sqlite''"
  shows "named \<noteq> None \<and> profile = ''development''
    \<or> read_env_for c ''DATABASE_URL'' \<noteq> None \<and> (\<exists>d. du_database u = Some d \<and> d \<noteq> [] \<and> \<not> contains d '':memory:'')"
  using assms
  by (auto simp: refuse_a_database_a_migration_should_not_touch_def PROFILES_ALLOWED_A_DEFAULT_DATABASE_def Let_def read_env_for_set
      split: if_splits option.splits)

lemma resolved_from_settings:
  assumes "resolve_database_url p de arg env = Inr url" and "handed_over_url p env = None"
  obtains c where "create_config_unvalidated p de (Some (resolve_env p de env (named_env p de env arg))) env = Inr c"
    "cf_process c = p" "get_database_url c = Inr url"
    "refuse_a_target_a_migration_should_not_touch de c (cf_environ c) url arg = Inr ()"
proof -
  from assms obtain c where c: "create_config_unvalidated p de (Some (resolve_env p de env (named_env p de env arg))) env = Inr c"
    "get_database_url c = Inr url" "refuse_a_target_a_migration_should_not_touch de c (cf_environ c) url arg = Inr ()"
    by (auto simp: resolve_database_url_def split: sum.splits)
  moreover have "cf_process c = p" using c(1) by (auto simp: create_config_unvalidated_def Let_def split: option.splits)
  ultimately show thesis using that by blast
qed

section \<open>Properties\<close>

text \<open>
  C29. What a bare migration runs against. A SQLite database is migrated only where somebody
  named the profile for development, or where \<^verbatim>\<open>DATABASE_URL\<close> is set for the profile and names a
  file that outlives the process; and a server whose host and database are the built-in
  defaults is migrated only under the profile for development. The only way past is the URL
  that a caller hands over.
\<close>

theorem migration_has_a_chosen_target:
  assumes "resolve_database_url p de arg env = Inr url" and "handed_over_url p env = None"
  shows "\<exists>c u named. create_config_unvalidated p de (Some (resolve_env p de env (named_env p de env arg))) env = Inr c \<and>
    get_database_url c = Inr url \<and> pr_make_url p url = Some u \<and> named = named_env p de (cf_environ c) arg \<and>
    (get_backend_name u = ''sqlite'' \<longrightarrow>
       named = Some ''development''
       \<or> read_env_for c ''DATABASE_URL'' \<noteq> None \<and> (\<exists>d. du_database u = Some d \<and> d \<noteq> [] \<and> \<not> contains d '':memory:'')) \<and>
    (DATABASE_URL c = [] \<longrightarrow> DATABASE_TYPE c = ''postgresql'' \<longrightarrow>
       named \<in> {None, Some ''development''} \<or> \<not> unnamed_part c ''DATABASE_HOST'' \<and> \<not> unnamed_part c ''DATABASE_NAME'')"
proof -
  obtain c where c: "create_config_unvalidated p de (Some (resolve_env p de env (named_env p de env arg))) env = Inr c"
    "cf_process c = p" "get_database_url c = Inr url"
    "refuse_a_target_a_migration_should_not_touch de c (cf_environ c) url arg = Inr ()"
    by (rule resolved_from_settings [OF assms])
  define named where "named = named_env p de (cf_environ c) arg"
  define profile where "profile = resolve_env p de (cf_environ c) named"
  have r: "refuse_a_database_a_migration_should_not_touch profile named c url = Inr ()" "refuse_a_database_nobody_named profile c = Inr ()"
    using c(4) c(2) by (simp_all add: refuse_a_target_a_migration_should_not_touch_def Let_def result_simps named_def profile_def)
  obtain u where u: "pr_make_url p url = Some u"
    using r(1) c(2) by (auto simp: refuse_a_database_a_migration_should_not_touch_def split: option.splits)
  have name: "named = Some n \<Longrightarrow> profile = n" for n
  proof -
    assume n: "named = Some n"
    then have "lower (strip n) = n \<and> \<not> is_unset (Some n)" unfolding named_def by (rule named_env_normal)
    then show "profile = n" by (simp add: profile_def n resolve_env_def named_env_def)
  qed
  have one: "get_backend_name u = ''sqlite'' \<longrightarrow> named = Some ''development''
       \<or> read_env_for c ''DATABASE_URL'' \<noteq> None \<and> (\<exists>d. du_database u = Some d \<and> d \<noteq> [] \<and> \<not> contains d '':memory:'')"
    using sqlite_target [OF r(1), of u] u c(2) name by (cases named) auto
  have two: "named \<in> {None, Some ''development''} \<or> \<not> unnamed_part c ''DATABASE_HOST'' \<and> \<not> unnamed_part c ''DATABASE_NAME''"
    if "DATABASE_URL c = []" "DATABASE_TYPE c = ''postgresql''"
    using both_parts_named [OF r(2) _ that] name by (cases named) auto
  show ?thesis using c(1,3) u one two named_def by blast
qed

section \<open>Witnesses\<close>

definition moved_environ :: environ where
  "moved_environ = map_of [(''FLASK_ENV'', ''staging''), (''DATABASE_URL'', ''sqlite:///srv/links.db'')]"

theorem migration_has_a_chosen_target_witness:
  "resolve_database_url site_process site_files None moved_environ = Inr ''sqlite:///srv/links.db'' \<and>
   resolve_database_url site_process site_files None Map.empty \<noteq> Inr ''sqlite:///srv/links.db'' \<and>
   (\<exists>u. pr_make_url site_process ''sqlite:///srv/links.db'' = Some u \<and> (\<exists>d. du_database u = Some d \<and> \<not> contains d '':memory:''))"
proof -
  have r: "resolve_database_url site_process site_files None moved_environ = Inr ''sqlite:///srv/links.db''"
    "resolve_database_url site_process site_files None Map.empty \<noteq> Inr ''sqlite:///srv/links.db''"
    "handed_over_url site_process moved_environ = None" by code_simp+
  have s: "case pr_make_url site_process ''sqlite:///srv/links.db'' of None \<Rightarrow> False | Some u \<Rightarrow> get_backend_name u = ''sqlite''"
    by code_simp
  have n: "case create_config_unvalidated site_process site_files
       (Some (resolve_env site_process site_files moved_environ (named_env site_process site_files moved_environ None))) moved_environ of
     Inl _ \<Rightarrow> False | Inr c \<Rightarrow> named_env site_process site_files (cf_environ c) None = Some ''staging''" by code_simp
  obtain c u named where w: "create_config_unvalidated site_process site_files
       (Some (resolve_env site_process site_files moved_environ (named_env site_process site_files moved_environ None))) moved_environ = Inr c"
    "pr_make_url site_process ''sqlite:///srv/links.db'' = Some u" "named = named_env site_process site_files (cf_environ c) None"
    "get_backend_name u = ''sqlite'' \<longrightarrow> named = Some ''development''
       \<or> read_env_for c ''DATABASE_URL'' \<noteq> None \<and> (\<exists>d. du_database u = Some d \<and> d \<noteq> [] \<and> \<not> contains d '':memory:'')"
    using migration_has_a_chosen_target [OF r(1,3)] by blast
  have "named = Some ''staging''" using n w(1,3) by simp
  then have "\<exists>d. du_database u = Some d \<and> \<not> contains d '':memory:''" using w(4) s w(2) by auto
  then show ?thesis using r(1,2) w(2) by blast
qed

end
