(* ===== verification/Link_Invariants.thy ===== *)
theory Link_Invariants
  imports Link_Service
begin

text \<open>
  What the link use cases keep. The cache is coherent with the table when whatever its two
  lookups by code can still find says of a code what the table says: the same address and
  the same expiry. The lemmas inside the locale \<open>link_cache\<close> show that every use case keeps
  the table well formed and the cache coherent, and that following a link through a
  coherent cache is following it in the table; the properties are their instances for the
  in-memory provider, over every run of the service.
\<close>

section \<open>Coherence\<close>

definition agrees_code :: "link_table \<Rightarrow> (short_code \<rightharpoonup> link) \<Rightarrow> bool" where
  "agrees_code tbl m \<longleftrightarrow> (\<forall>k l. m k = Some l \<longrightarrow>
     (\<exists>r. find_by_code k tbl = Some r \<and> lk_url r = lk_url l \<and> lk_expires r = lk_expires l))"

definition agrees_redirect :: "link_table \<Rightarrow> (short_code \<rightharpoonup> cached_redirect) \<Rightarrow> bool" where
  "agrees_redirect tbl m \<longleftrightarrow> (\<forall>k q. m k = Some q \<longrightarrow>
     (\<exists>r. find_by_code k tbl = Some r \<and> lk_url r = cr_url q \<and> lk_expires r = cr_expires q))"

definition coherent ::
  "('c \<Rightarrow> short_code \<rightharpoonup> link) \<Rightarrow> ('c \<Rightarrow> short_code \<rightharpoonup> cached_redirect) \<Rightarrow> ('c \<Rightarrow> bool) \<Rightarrow> link_table \<Rightarrow> 'c \<Rightarrow> bool" where
  "coherent by_code by_redirect cache_ok tbl c \<longleftrightarrow>
     cache_ok c \<and> agrees_code tbl (by_code c) \<and> agrees_redirect tbl (by_redirect c)"

text \<open>What following a link means, without any cache.\<close>

definition redirect_spec :: "moment \<Rightarrow> string \<Rightarrow> link_table \<Rightarrow> (exn, string) result" where
  "redirect_spec now s tbl =
     (if \<not> CODE_PATTERN s then Inl (Domain (LinkNotFoundError (Some s)))
      else case find_by_code s tbl of
        None \<Rightarrow> Inl (Domain (LinkNotFoundError (Some s)))
      | Some l \<Rightarrow> if is_expired now l then Inl (Domain (LinkExpiredError s)) else Inr (lk_url l))"

lemma agrees_code_mono: "m' \<subseteq>\<^sub>m m \<Longrightarrow> agrees_code tbl m \<Longrightarrow> agrees_code tbl m'"
  unfolding agrees_code_def map_le_def by (metis domI)

lemma agrees_redirect_mono: "m' \<subseteq>\<^sub>m m \<Longrightarrow> agrees_redirect tbl m \<Longrightarrow> agrees_redirect tbl m'"
  unfolding agrees_redirect_def map_le_def by (metis domI)

lemma agrees_code_upd:
  "agrees_code tbl m \<Longrightarrow> find_by_code k tbl = Some r \<Longrightarrow> lk_url r = lk_url l \<Longrightarrow> lk_expires r = lk_expires l \<Longrightarrow>
     agrees_code tbl (m(k \<mapsto> l))"
  by (simp add: agrees_code_def)

lemma agrees_redirect_upd:
  "agrees_redirect tbl m \<Longrightarrow> find_by_code k tbl = Some r \<Longrightarrow> lk_url r = cr_url q \<Longrightarrow> lk_expires r = cr_expires q \<Longrightarrow>
     agrees_redirect tbl (m(k \<mapsto> q))"
  by (simp add: agrees_redirect_def)

text \<open>A table that still answers for every code it answered for, and alike.\<close>

definition answers_alike :: "short_code set \<Rightarrow> link_table \<Rightarrow> link_table \<Rightarrow> bool" where
  "answers_alike K tbl tbl' \<longleftrightarrow> (\<forall>k \<in> K. \<forall>r. find_by_code k tbl = Some r \<longrightarrow>
     (\<exists>r'. find_by_code k tbl' = Some r' \<and> lk_url r' = lk_url r \<and> lk_expires r' = lk_expires r))"

lemma agrees_code_table:
  assumes "agrees_code tbl m" and "answers_alike (- D) tbl tbl'" and "\<forall>k \<in> D. m k = None"
  shows "agrees_code tbl' m"
  unfolding agrees_code_def
proof (intro allI impI)
  fix k l assume k: "m k = Some l"
  with assms(3) have "k \<in> - D" by auto
  with k assms(1,2) show "\<exists>r. find_by_code k tbl' = Some r \<and> lk_url r = lk_url l \<and> lk_expires r = lk_expires l"
    unfolding agrees_code_def answers_alike_def by (metis (no_types, lifting))
qed

lemma agrees_redirect_table:
  assumes "agrees_redirect tbl m" and "answers_alike (- D) tbl tbl'" and "\<forall>k \<in> D. m k = None"
  shows "agrees_redirect tbl' m"
  unfolding agrees_redirect_def
proof (intro allI impI)
  fix k q assume k: "m k = Some q"
  with assms(3) have "k \<in> - D" by auto
  with k assms(1,2) show "\<exists>r. find_by_code k tbl' = Some r \<and> lk_url r = cr_url q \<and> lk_expires r = cr_expires q"
    unfolding agrees_redirect_def answers_alike_def by (metis (no_types, lifting))
qed

lemma answers_alike_append: "answers_alike K tbl (tbl @ ls)"
  by (auto simp: answers_alike_def find_by_code_append)

lemma answers_alike_increment:
  "repo_increment_clicks now c tbl = Inr tbl' \<Longrightarrow> answers_alike K tbl tbl'"
  by (auto simp: answers_alike_def repo_increment_clicks_def find_by_code_map split: if_splits)

lemma answers_alike_filter:
  assumes "distinct (codes_of tbl)"
  shows "answers_alike (- lk_code ` {l \<in> set tbl. \<not> P l}) tbl (filter P tbl)"
  unfolding answers_alike_def
proof (intro ballI allI impI)
  fix k r assume "k \<in> - lk_code ` {l \<in> set tbl. \<not> P l}" "find_by_code k tbl = Some r"
  moreover from this have "r \<in> set tbl" "lk_code r = k" using find_by_code_Some by blast+
  ultimately have "P r" by blast
  then show "\<exists>r'. find_by_code k (filter P tbl) = Some r' \<and> lk_url r' = lk_url r \<and> lk_expires r' = lk_expires r"
    using \<open>find_by_code k tbl = Some r\<close> by (simp add: find_by_code_filter [OF assms])
qed

section \<open>What a client of the cache may conclude\<close>

context link_cache
begin

abbreviation coh :: "link_table \<Rightarrow> 'c \<Rightarrow> bool" where
  "coh \<equiv> coherent by_code by_redirect inv"

lemma coh_shrinks: "coh tbl c \<Longrightarrow> inv c' \<Longrightarrow> shrinks by_code by_redirect c c' \<Longrightarrow> coh tbl c'"
  unfolding coherent_def shrinks_def using agrees_code_mono agrees_redirect_mono by blast

lemma coh_get_redirect:
  assumes "coh tbl c" and "co_get_redirect ops now k c = (q, c')"
  shows "coh tbl c'" and "q = Some x \<Longrightarrow> \<exists>r. find_by_code k tbl = Some r \<and> lk_url r = cr_url x \<and> lk_expires r = cr_expires x"
proof -
  have i: "inv c" using assms(1) by (simp add: coherent_def)
  from get_redirect [OF this assms(2)] show "coh tbl c'" using coh_shrinks [OF assms(1)] by blast
  show "q = Some x \<Longrightarrow> \<exists>r. find_by_code k tbl = Some r \<and> lk_url r = cr_url x \<and> lk_expires r = cr_expires x"
    using get_redirect [OF i assms(2)] assms(1) by (simp add: coherent_def agrees_redirect_def)
qed

lemma coh_get_by_code:
  assumes "coh tbl c" and "co_get_by_code ops now k c = (q, c')"
  shows "coh tbl c'" and "q = Some x \<Longrightarrow> \<exists>r. find_by_code k tbl = Some r \<and> lk_url r = lk_url x \<and> lk_expires r = lk_expires x"
proof -
  have i: "inv c" using assms(1) by (simp add: coherent_def)
  from get_by_code [OF this assms(2)] show "coh tbl c'" using coh_shrinks [OF assms(1)] by blast
  show "q = Some x \<Longrightarrow> \<exists>r. find_by_code k tbl = Some r \<and> lk_url r = lk_url x \<and> lk_expires r = lk_expires x"
    using get_by_code [OF i assms(2)] assms(1) by (simp add: coherent_def agrees_code_def)
qed

lemma coh_get_by_hash: "coh tbl c \<Longrightarrow> co_get_by_hash ops now h sc c = (q, c') \<Longrightarrow> coh tbl c'"
  using get_by_hash coh_shrinks by (metis coherent_def)

lemma coh_get_by_hashes: "coh tbl c \<Longrightarrow> co_get_by_hashes ops now hs sc c = (q, c') \<Longrightarrow> coh tbl c'"
  using get_by_hashes coh_shrinks by (metis coherent_def)

lemma coh_save:
  assumes "coh tbl c" and "find_by_code (lk_code l) tbl = Some l"
  shows "coh tbl (co_save ops now l c)"
proof -
  have i: "inv c" "agrees_code tbl (by_code c)" "agrees_redirect tbl (by_redirect c)"
    using assms(1) by (simp_all add: coherent_def)
  have "agrees_code tbl ((by_code c)(lk_code l \<mapsto> l))"
    by (rule agrees_code_upd [OF i(2) assms(2)]) simp_all
  moreover have "agrees_redirect tbl ((by_redirect c)(lk_code l \<mapsto> redirect_of l))"
    by (rule agrees_redirect_upd [OF i(3) assms(2)]) (simp_all add: redirect_of_def)
  ultimately show ?thesis
    using save [OF i(1), of now l] agrees_code_mono agrees_redirect_mono unfolding coherent_def by blast
qed

lemma coh_save_redirect:
  assumes "coh tbl c" and "find_by_code k tbl = Some r" and "lk_url r = url" and "lk_expires r = e"
  shows "coh tbl (co_save_redirect ops now k url e c)"
proof -
  have i: "inv c" "agrees_code tbl (by_code c)" "agrees_redirect tbl (by_redirect c)"
    using assms(1) by (simp_all add: coherent_def)
  have "agrees_redirect tbl ((by_redirect c)(k \<mapsto> \<lparr>cr_code = k, cr_url = url, cr_expires = e\<rparr>))"
    by (rule agrees_redirect_upd [OF i(3) assms(2)]) (simp_all add: assms(3,4))
  then show ?thesis
    using save_redirect [OF i(1), of now k url e] i(2,3) agrees_code_mono agrees_redirect_mono
    unfolding coherent_def by blast
qed

lemma coh_delete_stats: "coh tbl c \<Longrightarrow> coh tbl (co_delete_stats ops c)"
  using delete_stats coh_shrinks by (metis coherent_def)

text \<open>A deletion leaves a coherent cache that no longer answers for the code.\<close>

definition silent :: "short_code set \<Rightarrow> 'c \<Rightarrow> bool" where
  "silent K c \<longleftrightarrow> (\<forall>k \<in> K. by_code c k = None \<and> by_redirect c k = None)"

lemma silent_mono: "silent K c \<Longrightarrow> by_code c' \<subseteq>\<^sub>m by_code c \<Longrightarrow> by_redirect c' \<subseteq>\<^sub>m by_redirect c \<Longrightarrow> silent K c'"
  unfolding silent_def map_le_def by (metis domIff)

lemma upd_None_le: "m(k := None) \<subseteq>\<^sub>m m"
  by (simp add: map_le_def)

lemma delete_forgets:
  assumes "inv c" and "by_code c' \<subseteq>\<^sub>m (by_code c)(k := None)" and "by_redirect c' \<subseteq>\<^sub>m (by_redirect c)(k := None)" and "inv c'"
  shows "coh tbl c \<Longrightarrow> coh tbl c'" and "silent K c \<Longrightarrow> silent (insert k K) c'"
proof -
  have le: "by_code c' \<subseteq>\<^sub>m by_code c" "by_redirect c' \<subseteq>\<^sub>m by_redirect c"
    using map_le_trans [OF assms(2) upd_None_le] map_le_trans [OF assms(3) upd_None_le] .
  then show "coh tbl c \<Longrightarrow> coh tbl c'" using coh_shrinks assms(4) by (simp add: shrinks_def)
  have "by_code c' k = None" "by_redirect c' k = None"
    using assms(2,3) unfolding map_le_def by (metis domIff fun_upd_same)+
  then show "silent K c \<Longrightarrow> silent (insert k K) c'" using silent_mono [OF _ le] by (simp add: silent_def)
qed

lemma coh_delete:
  assumes "coh tbl c" and "silent K c"
  shows "coh tbl (snd (co_delete ops l c))" "silent (insert (lk_code l) K) (snd (co_delete ops l c))"
proof -
  have i: "inv c" using assms(1) by (simp add: coherent_def)
  obtain b c' where d: "co_delete ops l c = (b, c')" by fastforce
  from delete [OF i d] delete_forgets [OF i, of c' "lk_code l"] assms
  show "coh tbl (snd (co_delete ops l c))" "silent (insert (lk_code l) K) (snd (co_delete ops l c))"
    by (simp_all add: d)
qed

lemma coh_delete_by_code:
  assumes "coh tbl c" and "silent K c"
  shows "coh tbl (snd (co_delete_by_code ops k c))" "silent (insert k K) (snd (co_delete_by_code ops k c))"
proof -
  have i: "inv c" using assms(1) by (simp add: coherent_def)
  obtain b c' where d: "co_delete_by_code ops k c = (b, c')" by fastforce
  from delete_by_code [OF i d] delete_forgets [OF i, of c' k] assms
  show "coh tbl (snd (co_delete_by_code ops k c))" "silent (insert k K) (snd (co_delete_by_code ops k c))"
    by (simp_all add: d)
qed

lemma coh_delete_redirect:
  assumes "coh tbl c" and "silent K c"
  shows "coh tbl (co_delete_redirect ops k c)" "silent K (co_delete_redirect ops k c)"
proof -
  have i: "inv c" using assms(1) by (simp add: coherent_def)
  note law = delete_redirect [OF i, of k]
  have d: "inv (co_delete_redirect ops k c)" "by_code (co_delete_redirect ops k c) \<subseteq>\<^sub>m by_code c"
    using law by simp_all
  have d': "by_redirect (co_delete_redirect ops k c) \<subseteq>\<^sub>m by_redirect c"
    by (rule map_le_trans [OF law [THEN conjunct2, THEN conjunct2] upd_None_le])
  then show "coh tbl (co_delete_redirect ops k c)" using coh_shrinks [OF assms(1) d(1)] d(2) d' by (simp add: shrinks_def)
  show "silent K (co_delete_redirect ops k c)" by (rule silent_mono [OF assms(2) d(2) d'])
qed

lemma silent_delete_stats: "coh tbl c \<Longrightarrow> silent K c \<Longrightarrow> silent K (co_delete_stats ops c)"
  using delete_stats silent_mono unfolding shrinks_def coherent_def by blast

text \<open>Rows may go once the cache is silent about them.\<close>

lemma coh_remove:
  assumes "coh tbl c" and "silent D c" and "answers_alike (- D) tbl tbl'"
  shows "coh tbl' c"
  using assms agrees_code_table [of tbl "by_code c" D tbl'] agrees_redirect_table [of tbl "by_redirect c" D tbl']
  unfolding coherent_def silent_def by blast

lemma coh_alike: "coh tbl c \<Longrightarrow> answers_alike UNIV tbl tbl' \<Longrightarrow> coh tbl' c"
  using coh_remove [of tbl c "{}" tbl'] by (simp add: silent_def)

end

section \<open>What the use cases do to the table\<close>

lemmas state_simps [simp] = on_cache_def on_db_def tell_audit_def

text \<open>The two ports return value objects: every code and every hash they return is a valid one.\<close>

definition ports_ok :: "link_config \<Rightarrow> bool" where
  "ports_ok cfg \<longleftrightarrow> (\<forall>s c. lc_generate cfg s = Inr c \<longrightarrow> CODE_PATTERN c) \<and> (\<forall>u h. lc_hash cfg u = Inr h \<longrightarrow> HASH_PATTERN h)"

lemma try_codes_Some:
  "try_codes candidate tbl ns = Inr (Some c) \<Longrightarrow> find_by_code c tbl = None \<and> (\<exists>n. candidate n = Inr c)"
  by (induction ns) (auto simp: result_simps split: if_splits)

lemma generate_unique_code_Inr:
  assumes "generate_unique_code cfg uu url tbl = Inr c"
  shows "find_by_code c tbl = None" and "\<exists>s. lc_generate cfg s = Inr c"
proof -
  have "find_by_code c tbl = None \<and> (\<exists>n. generate_unique (lc_generate cfg) (lc_idna cfg) url n = Inr c \<or>
      generate_fresh (lc_generate cfg) (lc_idna cfg) url (uu n) = Inr c)"
    using assms by (auto simp: generate_unique_code_def result_simps dest!: try_codes_Some split: option.splits)
  then show "find_by_code c tbl = None" "\<exists>s. lc_generate cfg s = Inr c"
    by (auto simp: generate_unique_def generate_fresh_def result_simps split: if_splits)
qed

text \<open>What a link is before it is saved: decided on the table as it was read.\<close>

lemma prepare_link_Inr:
  assumes "prepare_link cfg now dr url h owner guest ttl chosen tbl = Inr l"
  shows "lk_id l = dr_link_id dr \<and> lk_hash l = h \<and> lk_url l = url \<and> lk_created l = now \<and> lk_owner l = owner \<and> lk_guest l = guest
      \<and> lk_expires l = (if ttl > 0 then Some (now + ttl * second) else None) \<and> \<not> is_expired now l"
    and "guest = Some g \<Longrightarrow> count_guest_links_by_identifier now g (lc_guest_link_window_days cfg) tbl < lc_guest_link_limit cfg"
    and "chosen = Some (lk_code l) \<or> (chosen = None \<and> (\<exists>s. lc_generate cfg s = Inr (lk_code l)))"
proof -
  from assms obtain c where o:
      "(case guest of None \<Rightarrow> Inr () | Some g \<Rightarrow>
          if guest_allowance now g (lc_guest_link_limit cfg) (lc_guest_link_window_days cfg) tbl = 0
          then Inl (Domain (guest_quota_spent (lc_guest_link_limit cfg) (lc_guest_link_window_days cfg))) else Inr ()) = Inr ()"
      "(case chosen of Some k \<Rightarrow> if find_by_code k tbl \<noteq> None then Inl (Domain (LinkCodeTakenError k)) else Inr k
        | None \<Rightarrow> generate_unique_code cfg (dr_uuid_hex dr) url tbl) = Inr c"
      "link_create now (dr_link_id dr) h c url owner guest ttl = Inr l"
    unfolding prepare_link_def by (auto simp: result_simps)
  note lc = link_create_Inr [OF o(3)]
  show "lk_id l = dr_link_id dr \<and> lk_hash l = h \<and> lk_url l = url \<and> lk_created l = now \<and> lk_owner l = owner \<and> lk_guest l = guest
      \<and> lk_expires l = (if ttl > 0 then Some (now + ttl * second) else None) \<and> \<not> is_expired now l"
    using lc link_create_not_expired [OF o(3)] by simp
  show "guest = Some g \<Longrightarrow> count_guest_links_by_identifier now g (lc_guest_link_window_days cfg) tbl < lc_guest_link_limit cfg"
    using o(1) by (auto simp: guest_allowance_def links_left_for_guest_def split: if_split_asm)
  show "chosen = Some (lk_code l) \<or> (chosen = None \<and> (\<exists>s. lc_generate cfg s = Inr (lk_code l)))"
    using o(2) generate_unique_code_Inr(2) lc by (auto split: option.splits if_split_asm)
qed

lemma prepare_link_wf:
  assumes "prepare_link cfg now dr url h owner guest ttl chosen tbl = Inr l" and "ports_ok cfg" and "HASH_PATTERN h"
    and "case chosen of None \<Rightarrow> True | Some c \<Rightarrow> CODE_PATTERN c" and "case owner of None \<Rightarrow> True | Some i \<Rightarrow> strip i \<noteq> []"
  shows "link_wf l"
  using prepare_link_Inr(1,3) [OF assms(1)] assms(2-5) by (auto simp: ports_ok_def link_wf_def)

lemma new_link_Inr:
  assumes "new_link cfg now dr url h owner guest ttl chosen db = Inr (l, db')" and "dr_link_id dr \<notin> set (ids_of (db_links db))"
  shows "db' = db\<lparr>db_links := db_links db @ [l]\<rparr>"
    and "lk_id l = dr_link_id dr \<and> lk_hash l = h \<and> lk_url l = url \<and> lk_created l = now \<and> lk_owner l = owner \<and> lk_guest l = guest
      \<and> lk_expires l = (if ttl > 0 then Some (now + ttl * second) else None) \<and> \<not> is_expired now l"
    and "lk_code l \<notin> set (codes_of (db_links db))"
    and "owner_known (map ur_id (db_users db)) l"
    and "guest = Some g \<Longrightarrow>
      count_guest_links_by_identifier now g (lc_guest_link_window_days cfg) (db_links db) < lc_guest_link_limit cfg"
    and "chosen = Some (lk_code l) \<or> (chosen = None \<and> (\<exists>s. lc_generate cfg s = Inr (lk_code l)))"
    and "prepare_link cfg now dr url h owner guest ttl chosen (db_links db) = Inr l"
proof -
  from assms(1) obtain l0 tbl where o: "prepare_link cfg now dr url h owner guest ttl chosen (db_links db) = Inr l0"
      "save_link (map ur_id (db_users db)) l0 (db_links db) = Inr (l, tbl)" "db' = db\<lparr>db_links := tbl\<rparr>"
    unfolding new_link_def by (auto simp: result_simps)
  have "l0 = l" using o(2) by (auto simp: save_link_def split: if_split_asm)
  with o(1) show p: "prepare_link cfg now dr url h owner guest ttl chosen (db_links db) = Inr l" by simp
  note facts = prepare_link_Inr [OF p]
  have fresh: "lk_id l \<notin> set (ids_of (db_links db))" using facts(1) assms(2) by simp
  from o(2) have s: "lk_code l \<notin> set (codes_of (db_links db))" "owner_known (map ur_id (db_users db)) l" "tbl = db_links db @ [l]"
    unfolding \<open>l0 = l\<close> save_link_new [OF fresh] by (auto split: if_split_asm)
  show "db' = db\<lparr>db_links := db_links db @ [l]\<rparr>" using o(3) s(3) by simp
  show "lk_code l \<notin> set (codes_of (db_links db))" "owner_known (map ur_id (db_users db)) l" using s by simp_all
  show "lk_id l = dr_link_id dr \<and> lk_hash l = h \<and> lk_url l = url \<and> lk_created l = now \<and> lk_owner l = owner \<and> lk_guest l = guest
      \<and> lk_expires l = (if ttl > 0 then Some (now + ttl * second) else None) \<and> \<not> is_expired now l"
    and "guest = Some g \<Longrightarrow>
      count_guest_links_by_identifier now g (lc_guest_link_window_days cfg) (db_links db) < lc_guest_link_limit cfg"
    and "chosen = Some (lk_code l) \<or> (chosen = None \<and> (\<exists>s. lc_generate cfg s = Inr (lk_code l)))" by (fact facts)+
qed

lemma new_link_wf:
  assumes "new_link cfg now dr url h owner guest ttl chosen db = Inr (l, db')" and "dr_link_id dr \<notin> set (ids_of (db_links db))"
    and "table_wf (db_links db)" and "ports_ok cfg" and "HASH_PATTERN h"
    and "case chosen of None \<Rightarrow> True | Some c \<Rightarrow> CODE_PATTERN c"
    and "case owner of None \<Rightarrow> True | Some i \<Rightarrow> strip i \<noteq> []"
  shows "table_wf (db_links db')"
proof -
  note n = new_link_Inr [OF assms(1,2)]
  have "link_wf l" by (rule prepare_link_wf [OF n(7) assms(4-7)])
  then show ?thesis using n(1-3) assms(2,3) by (auto simp: table_wf_def)
qed

lemma create_inputs_Inr:
  assumes "create_inputs cfg url cx ttl custom = Inr (u, h, owner, chosen)" and "ports_ok cfg"
  shows "u = url" "HASH_PATTERN h" "lc_hash cfg url = Inr h" "owner = cx_current_user cx"
    "case owner of None \<Rightarrow> True | Some i \<Rightarrow> strip i \<noteq> []" "case chosen of None \<Rightarrow> True | Some c \<Rightarrow> CODE_PATTERN c"
    "0 \<le> ttl" "ttl \<le> lc_max_ttl_seconds cfg"
proof -
  from assms(1) have o: "validate_ttl cfg ttl = Inr ()" "read_custom_code custom = Inr chosen"
      "OriginalUrl (lc_idna cfg) (url_rules_of cfg) url = Inr u" "lc_hash cfg u = Inr h"
      "(case cx_current_user cx of None \<Rightarrow> Inr None | Some i \<Rightarrow> rbind (OwnerID i) (\<lambda>o'. Inr (Some o'))) = Inr owner"
    by (auto simp: create_inputs_def result_simps)
  have nt: "\<not> trusted (url_rules_of cfg)" by (simp add: url_rules_of_def)
  show "u = url" using OriginalUrl_Inr [OF o(3) nt] by blast
  then show "lc_hash cfg url = Inr h" using o(4) by simp
  then show "HASH_PATTERN h" using assms(2) by (auto simp: ports_ok_def)
  show "owner = cx_current_user cx" "case owner of None \<Rightarrow> True | Some i \<Rightarrow> strip i \<noteq> []"
    using o(5) by (auto simp: result_simps split: option.splits)
  show "case chosen of None \<Rightarrow> True | Some c \<Rightarrow> CODE_PATTERN c"
    using o(2) by (auto simp: read_custom_code_def result_simps split: option.splits list.splits if_splits)
  show "0 \<le> ttl" "ttl \<le> lc_max_ttl_seconds cfg" using o(1) by (simp_all add: validate_ttl_def split: if_splits)
qed

lemma requester_scope_wf [simp]: "scope_wf (requester_scope cx)"
  by (simp add: requester_scope_def for_owner_def for_guest_def split: option.split)

lemma retry_conflicts_cases:
  assumes "retry_conflicts attempt_once exhausted ns st = (r, st')" and "Q st"
    and "\<And>n st1 e st2. Q st1 \<Longrightarrow> attempt_once n st1 = (Inl e, st2) \<Longrightarrow> is_link_conflict e \<Longrightarrow> Q st2"
  shows "(\<exists>n st1. n \<in> set ns \<and> Q st1 \<and> attempt_once n st1 = (r, st')) \<or> (r = Inl exhausted \<and> Q st')"
  using assms(1,2)
proof (induction ns arbitrary: st)
  case Nil
  then show ?case by auto
next
  case (Cons n ns)
  obtain r1 st1 where a: "attempt_once n st = (r1, st1)" by fastforce
  show ?case
  proof (cases "\<exists>e. r1 = Inl e \<and> is_link_conflict e")
    case True
    with Cons.prems(1) a have "retry_conflicts attempt_once exhausted ns st1 = (r, st')" by auto
    moreover have "Q st1" using True a Cons.prems(2) assms(3) by blast
    ultimately show ?thesis using Cons.IH by (meson list.set_intros(2))
  next
    case False
    with Cons.prems(1) a have "attempt_once n st = (r, st')" by (auto split: sum.splits)
    with Cons.prems(2) show ?thesis by (meson list.set_intros(1))
  qed
qed

lemma response_from_link_Inr:
  "response_from_link base n fc l = Inr r \<Longrightarrow> sr_short_code r = lk_code l \<and> sr_is_new r = n \<and> sr_original_url r = lk_url l
     \<and> sr_link_id r = lk_id l \<and> sr_expires_at r = lk_expires l"
  by (auto simp: response_from_link_def result_simps)

lemma response_from_link_no_conflict: "response_from_link base n fc l = Inl e \<Longrightarrow> \<not> is_link_conflict e"
  by (auto simp: response_from_link_def build_short_url_def is_link_conflict_def result_simps split: if_splits)

section \<open>The use cases through a cache\<close>

text \<open>What a creation comes to: a live link is reused and the store is untouched, or a new one is added.\<close>

definition reused :: "moment \<Rightarrow> url_hash \<Rightarrow> dedup_scope \<Rightarrow> link_table \<Rightarrow> (exn, short_link_response) result \<Rightarrow> bool" where
  "reused now h sc tbl r \<longleftrightarrow> (\<exists>l fc base. l \<in> set tbl \<and> lk_hash l = h \<and> link_scope l = sc \<and> \<not> is_expired now l
     \<and> r = response_from_link base False fc l)"

context link_cache
begin

definition ok :: "'c service \<Rightarrow> bool" where
  "ok st \<longleftrightarrow> table_wf (links_in st) \<and> coh (links_in st) (sv_cache st)"

text \<open>
  A redirect answers from the cache or from the table. Where the cache is coherent with a
  table that answers for every code of the store alike, and may answer for more, the answer
  is that of the one or of the other.
\<close>

lemma redirect_between:
  assumes coh: "coh vt (sv_cache st)" and sub: "\<And>k r. find_by_code k (links_in st) = Some r \<Longrightarrow> find_by_code k vt = Some r"
    and run: "redirect_link ops now s cx st = (r, st')"
  shows "(r = redirect_spec now s vt \<or> r = redirect_spec now s (links_in st)) \<and> sv_db st' = sv_db st \<and> coh vt (sv_cache st')"
proof (cases "CODE_PATTERN s")
  case False
  with assms show ?thesis by (simp add: redirect_link_def code_to_look_up_def redirect_spec_def ShortCode_def)
next
  case True
  then have code: "code_to_look_up s = Inr s" by (simp add: code_to_look_up_def ShortCode_def)
  let ?tbl = "links_in st"
  obtain q c1 where g: "co_get_redirect ops now s (sv_cache st) = (q, c1)" by fastforce
  obtain l c2 where b: "co_get_by_code ops now s c1 = (l, c2)" by fastforce
  note h1 = coh_get_redirect [OF coh g]
  note h2 = coh_get_by_code [OF h1(1) b]
  note defs = redirect_link_def code g b answer_def Let_def redirect_spec_def True
  show ?thesis
  proof (cases q)
    case (Some x)
    then obtain t where "find_by_code s vt = Some t" "lk_url t = cr_url x" "lk_expires t = cr_expires x" using h1(2) by blast
    with Some run h1(1) show ?thesis
      by (auto simp: defs redirect_is_expired_def is_expired_def split: if_splits)
  next
    case q: None
    show ?thesis
    proof (cases l)
      case (Some x)
      then obtain t where t: "find_by_code s vt = Some t" "lk_url t = lk_url x" "lk_expires t = lk_expires x" using h2(2) by blast
      have "coh vt (co_save_redirect ops now s (lk_url x) (lk_expires x) c2)"
        using coh_save_redirect [OF h2(1) t] .
      with q Some t run h2(1) show ?thesis by (auto simp: defs is_expired_def split: if_splits)
    next
      case l: None
      show ?thesis
      proof (cases "find_by_code s ?tbl")
        case None
        with q l run h2(1) show ?thesis by (auto simp: defs)
      next
        case (Some t)
        then have "find_by_code (lk_code t) vt = Some t" using find_by_code_Some sub by metis
        then have "coh vt (co_save ops now t c2)" by (rule coh_save [OF h2(1)])
        with q l Some run h2(1) show ?thesis by (auto simp: defs split: if_splits)
      qed
    qed
  qed
qed

lemma redirect_refines:
  assumes "ok st" and "redirect_link ops now s cx st = (r, st')"
  shows "r = redirect_spec now s (links_in st) \<and> sv_db st' = sv_db st \<and> ok st'"
  using redirect_between [of "links_in st" st now s cx r st'] assms by (auto simp: ok_def)

lemma silent_empty [simp]: "silent {} c"
  by (simp add: silent_def)

lemma cached_candidate_ok:
  assumes "cached_candidate ops now h sc st = (cand, st2)" and "coh (links_in st) (sv_cache st)"
  shows "sv_db st2 = sv_db st \<and> coh (links_in st) (sv_cache st2)"
    and "cand = Some l \<Longrightarrow> l \<in> set (links_in st) \<and> lk_hash l = h \<and> link_scope l = sc \<and> \<not> is_expired now l"
proof -
  obtain cl c1 where g: "co_get_by_hash ops now h sc (sv_cache st) = (cl, c1)" by fastforce
  have c1: "coh (links_in st) c1" by (rule coh_get_by_hash [OF assms(2) g])
  then have "coh (links_in st) (snd (co_delete ops k c1))" for k using coh_delete(1) silent_empty by blast
  with assms(1) c1 show "sv_db st2 = sv_db st \<and> coh (links_in st) (sv_cache st2)"
    by (auto simp: cached_candidate_def g Let_def split: option.splits)
  show "cand = Some l \<Longrightarrow> l \<in> set (links_in st) \<and> lk_hash l = h \<and> link_scope l = sc \<and> \<not> is_expired now l"
    using assms(1) find_by_code_Some
    by (auto simp: cached_candidate_def g Let_def confirm_def split: option.splits if_split_asm)
qed

lemma find_or_create_ok:
  assumes "find_or_create ops cfg now dr url h sc owner guest ttl chosen st = (r, st')" and "ok st" and "scope_wf sc"
    and "dr_link_id dr \<notin> set (ids_of (links_in st))"
  shows "(sv_db st' = sv_db st \<and> coh (links_in st) (sv_cache st') \<and>
      (reused now h sc (links_in st) r \<or> (\<exists>e. r = Inl e \<and> find_live_by_hash now h sc (links_in st) = None \<and>
         new_link cfg now dr url h owner guest ttl chosen (sv_db st) = Inl e)))
    \<or> (\<exists>l. find_live_by_hash now h sc (links_in st) = None \<and>
         new_link cfg now dr url h owner guest ttl chosen (sv_db st) = Inr (l, sv_db st') \<and>
         coh (links_in st') (sv_cache st') \<and> r = response_from_link (lc_base_url cfg) True False l)"
proof -
  obtain cand st2 where c: "cached_candidate ops now h sc st = (cand, st2)" by fastforce
  have coh0: "coh (links_in st) (sv_cache st)" and wf: "table_wf (links_in st)" using assms(2) by (simp_all add: ok_def)
  note k = cached_candidate_ok [OF c coh0]
  have db: "sv_db st2 = sv_db st" and coh2: "coh (links_in st) (sv_cache st2)" using k(1) by simp_all
  have d: "distinct (codes_of (links_in st))" using wf by (simp add: table_wf_def)
  show ?thesis
  proof (cases cand)
    case (Some l)
    then have "reused now h sc (links_in st) r" using k(2) assms(1) unfolding reused_def find_or_create_def c by auto
    with Some assms(1) db coh2 show ?thesis by (simp add: find_or_create_def c)
  next
    case cn: None
    show ?thesis
    proof (cases "find_live_by_hash now h sc (links_in st)")
      case (Some l)
      note f = find_live_by_hash_Some [OF Some]
      then have "reused now h sc (links_in st) r"
        using assms(1) live_in_scope_iff [OF assms(3)] cn Some db
        unfolding reused_def find_or_create_def c by auto
      moreover have "coh (links_in st) (co_save ops now l (sv_cache st2))"
        using coh_save [OF coh2] find_by_code_unique [OF d] f by blast
      ultimately show ?thesis using cn Some assms(1) db by (auto simp: find_or_create_def c)
    next
      case live: None
      show ?thesis
      proof (cases "new_link cfg now dr url h owner guest ttl chosen (sv_db st)")
        case (Inl e)
        with cn live assms(1) db coh2 show ?thesis by (auto simp: find_or_create_def c)
      next
        case (Inr p)
        then obtain l db' where n: "new_link cfg now dr url h owner guest ttl chosen (sv_db st) = Inr (l, db')" by (cases p) auto
        note nl = new_link_Inr [OF n assms(4)]
        have "coh (links_in st @ [l]) (sv_cache st2)" by (rule coh_alike [OF coh2 answers_alike_append])
        moreover have "find_by_code (lk_code l) (links_in st @ [l]) = Some l"
          using nl(3) by (simp add: find_by_code_append find_by_code_None [THEN iffD2] find_by_code_def [of _ "[l]"])
        ultimately have "coh (links_in st @ [l]) (co_delete_stats ops (co_save ops now l (sv_cache st2)))"
          by (intro coh_delete_stats coh_save)
        with cn live n nl(1) assms(1) db show ?thesis by (auto simp: find_or_create_def c)
      qed
    qed
  qed
qed

end

section \<open>Changes of the table\<close>

text \<open>
  The table changes in four ways. A link is added only where no live link of its scope has
  its hash, and for a guest only within the quota.
\<close>

inductive table_change :: "link_config \<Rightarrow> moment \<Rightarrow> link_table \<Rightarrow> link_table \<Rightarrow> bool" for cfg now where
  same: "table_change cfg now tbl tbl"
| added: "find_live_by_hash now (lk_hash l) (link_scope l) tbl = None \<Longrightarrow>
     lk_created l = now \<Longrightarrow> lk_code l \<notin> set (codes_of tbl) \<Longrightarrow> lk_id l \<notin> set (ids_of tbl) \<Longrightarrow>
     (\<And>g. lk_owner l = None \<Longrightarrow> lk_guest l = Some g \<Longrightarrow>
        count_guest_links_by_identifier now g (lc_guest_link_window_days cfg) tbl < lc_guest_link_limit cfg) \<Longrightarrow>
     table_change cfg now tbl (tbl @ [l])"
| counted: "repo_increment_clicks now c tbl = Inr tbl' \<Longrightarrow> table_change cfg now tbl tbl'"
| removed: "table_change cfg now tbl (filter P tbl)"

definition one_live_link :: "moment \<Rightarrow> link_table \<Rightarrow> bool" where
  "one_live_link now tbl \<longleftrightarrow> (\<forall>l \<in> set tbl. \<forall>l' \<in> set tbl.
     lk_hash l = lk_hash l' \<and> link_scope l = link_scope l' \<and> \<not> is_expired now l \<and> \<not> is_expired now l' \<longrightarrow> l = l')"

definition within_quota :: "link_config \<Rightarrow> moment \<Rightarrow> link_table \<Rightarrow> bool" where
  "within_quota cfg now tbl \<longleftrightarrow> (\<forall>g.
     count_guest_links_by_identifier now g (lc_guest_link_window_days cfg) tbl \<le> lc_guest_link_limit cfg)"

lemma is_expired_mono: "is_expired now l \<Longrightarrow> now \<le> now' \<Longrightarrow> is_expired now' l"
  by (auto simp: is_expired_def split: option.splits)

lemma one_live_link_later: "one_live_link now tbl \<Longrightarrow> now \<le> now' \<Longrightarrow> one_live_link now' tbl"
  unfolding one_live_link_def by (meson is_expired_mono)

lemma count_guest_later:
  assumes "now \<le> now'"
  shows "count_guest_links_by_identifier now' g w tbl \<le> count_guest_links_by_identifier now g w tbl"
proof -
  have "length (filter (\<lambda>l. lk_owner l = None \<and> lk_guest l = Some g \<and> lk_created l \<ge> now' - w * day) tbl)
      \<le> length (filter (\<lambda>l. lk_owner l = None \<and> lk_guest l = Some g \<and> lk_created l \<ge> now - w * day) tbl)"
    using assms by (induction tbl) auto
  then show ?thesis by (simp add: count_guest_links_by_identifier_def)
qed

lemma within_quota_later: "within_quota cfg now tbl \<Longrightarrow> now \<le> now' \<Longrightarrow> within_quota cfg now' tbl"
  unfolding within_quota_def using count_guest_later order_trans by blast

lemma link_scope_increment [simp]: "link_scope (increment_clicks now l) = link_scope l"
  "is_expired t (increment_clicks now l) = is_expired t l"
  by (simp_all add: link_scope_def is_expired_def split: option.split)

lemma count_guest_map:
  assumes "\<And>l. lk_owner (f l) = lk_owner l \<and> lk_guest (f l) = lk_guest l \<and> lk_created (f l) = lk_created l"
  shows "count_guest_links_by_identifier now g w (map f tbl) = count_guest_links_by_identifier now g w tbl"
  by (simp add: count_guest_links_by_identifier_def filter_map o_def assms)

lemma count_guest_filter_le:
  "count_guest_links_by_identifier now g w (filter P tbl) \<le> count_guest_links_by_identifier now g w tbl"
  unfolding count_guest_links_by_identifier_def by (induction tbl) auto

lemma table_change_one_live_link:
  assumes "table_change cfg now tbl tbl'" and "one_live_link now tbl"
  shows "one_live_link now tbl'"
  using assms
proof (induction rule: table_change.induct)
  case (same tbl)
  then show ?case .
next
  case (added l tbl)
  have "\<not> (lk_hash r = lk_hash l \<and> link_scope r = link_scope l \<and> \<not> is_expired now r)" if "r \<in> set tbl" for r
    using added(1) that by (auto simp: find_live_by_hash_None live_in_scope_iff)
  then show ?case using added.prems unfolding one_live_link_def by auto
next
  case (counted c tbl tbl')
  then have t: "tbl' = map (\<lambda>l. if lk_code l = c then increment_clicks now l else l) tbl"
    by (simp add: repo_increment_clicks_def split: if_splits)
  let ?f = "\<lambda>l. if lk_code l = c then increment_clicks now l else l"
  have f: "lk_hash (?f l) = lk_hash l" "link_scope (?f l) = link_scope l" "is_expired now (?f l) = is_expired now l" for l
    by simp_all
  show ?case
    unfolding t one_live_link_def set_map
  proof (intro ballI impI)
    fix a b assume "a \<in> ?f ` set tbl" "b \<in> ?f ` set tbl"
      and e: "lk_hash a = lk_hash b \<and> link_scope a = link_scope b \<and> \<not> is_expired now a \<and> \<not> is_expired now b"
    then obtain x y where xy: "x \<in> set tbl" "y \<in> set tbl" "a = ?f x" "b = ?f y" by blast
    with e f have "lk_hash x = lk_hash y \<and> link_scope x = link_scope y \<and> \<not> is_expired now x \<and> \<not> is_expired now y" by metis
    with xy counted.prems have "x = y" unfolding one_live_link_def by blast
    with xy show "a = b" by simp
  qed
next
  case (removed tbl P)
  then show ?case by (auto simp: one_live_link_def)
qed

lemma table_change_within_quota:
  assumes "table_change cfg now tbl tbl'" and "within_quota cfg now tbl"
  shows "within_quota cfg now tbl'"
  using assms
proof (induction rule: table_change.induct)
  case (same tbl)
  then show ?case .
next
  case (added l tbl)
  have "count_guest_links_by_identifier now g w (tbl @ [l]) = count_guest_links_by_identifier now g w tbl
      + (if lk_owner l = None \<and> lk_guest l = Some g \<and> lk_created l \<ge> now - w * day then 1 else 0)" for g w
    by (simp add: count_guest_links_by_identifier_def)
  then show ?case using added(5) added.prems by (fastforce simp: within_quota_def)
next
  case (counted c tbl tbl')
  then have t: "tbl' = map (\<lambda>l. if lk_code l = c then increment_clicks now l else l) tbl"
    by (simp add: repo_increment_clicks_def split: if_splits)
  have "count_guest_links_by_identifier now g w tbl' = count_guest_links_by_identifier now g w tbl" for g w
    unfolding t by (rule count_guest_map) simp
  then show ?case using counted.prems by (simp add: within_quota_def)
next
  case (removed tbl P)
  then show ?case unfolding within_quota_def using count_guest_filter_le order_trans by blast
qed

lemma owner_scope:
  assumes "lk_owner l = cx_current_user cx" and "lk_guest l = (if cx_current_user cx = None then cx_remote_addr cx else None)"
  shows "link_scope l = requester_scope cx"
  using assms by (auto simp: link_scope_def requester_scope_def split: option.splits)

section \<open>Every use case keeps the service in order\<close>

context link_cache
begin

lemma create_outcome:
  assumes "create_short_link ops cfg now drs url cx ttl custom st = (r, st')" and "ok st" and "ports_ok cfg"
    and "\<And>n. dr_link_id (drs n) \<notin> set (ids_of (links_in st))"
  shows "(sv_db st' = sv_db st \<and> ok st' \<and>
      ((\<exists>e. r = Inl e) \<or> (\<exists>h. lc_hash cfg url = Inr h \<and> reused now h (requester_scope cx) (links_in st) r)))
    \<or> (\<exists>l h. lc_hash cfg url = Inr h \<and> lk_hash l = h \<and> lk_url l = url \<and> link_scope l = requester_scope cx \<and>
         lk_created l = now \<and> \<not> is_expired now l \<and> links_in st' = links_in st @ [l] \<and> ok st' \<and>
         table_change cfg now (links_in st) (links_in st') \<and>
         (cx_current_user cx = None \<longrightarrow> cx_remote_addr cx \<noteq> None \<longrightarrow> 0 < lc_default_guest_ttl_seconds cfg \<longrightarrow>
            (\<exists>t. lk_expires l = Some t \<and> t \<le> now + lc_default_guest_ttl_seconds cfg * second)) \<and>
         r = response_from_link (lc_base_url cfg) True False l)"
proof (cases "create_inputs cfg url cx ttl custom")
  case (Inl e)
  with assms(1,2) show ?thesis by (auto simp: create_short_link_def)
next
  case (Inr p)
  then obtain u h owner chosen where inp: "create_inputs cfg url cx ttl custom = Inr (u, h, owner, chosen)" by (cases p) auto
  note ci = create_inputs_Inr [OF inp assms(3)]
  let ?g = "if cx_current_user cx = None then cx_remote_addr cx else None"
  let ?foc = "\<lambda>n. find_or_create ops cfg now (drs n) url h (requester_scope cx) owner ?g (guest_ttl cfg ?g ttl) chosen"
  let ?Q = "\<lambda>s. sv_db s = sv_db st \<and> ok s"
  let ?ex = "Domain (CodeGenerationError ''Failed to store a short link: every attempt lost a race with a concurrent creation'')"
  have run: "retry_conflicts ?foc ?ex [0..<lc_max_collision_attempts cfg] st = (r, st')"
    using assms(1) unfolding create_short_link_def by (simp add: inp ci(1) Let_def)
  have wf: "table_wf (links_in st)" using assms(2) by (simp add: ok_def)
  have once: "?Q st2 \<and> ((\<exists>e. r1 = Inl e) \<or> reused now h (requester_scope cx) (links_in st) r1) \<or>
      (\<exists>l. new_link cfg now (drs n) url h owner ?g (guest_ttl cfg ?g ttl) chosen (sv_db st) = Inr (l, sv_db st2) \<and>
         find_live_by_hash now h (requester_scope cx) (links_in st) = None \<and>
         coh (links_in st2) (sv_cache st2) \<and> r1 = response_from_link (lc_base_url cfg) True False l)"
    if q: "?Q st1" and f: "?foc n st1 = (r1, st2)" for n st1 r1 st2
    using find_or_create_ok [OF f] q assms(4) [of n] wf by (auto simp: ok_def)
  have keep: "?Q st2" if "?Q st1" "?foc n st1 = (Inl e, st2)" "is_link_conflict e" for n st1 e st2
    using once [OF that(1,2)] that(3) response_from_link_no_conflict by metis
  from retry_conflicts_cases [OF run, of ?Q] keep assms(2)
  consider n st1 where "?Q st1" "?foc n st1 = (r, st')" | "r = Inl ?ex" "?Q st'" by blast
  then show ?thesis
  proof cases
    case 2
    then show ?thesis by auto
  next
    case 1
    from once [OF this] consider "?Q st'" "(\<exists>e. r = Inl e) \<or> reused now h (requester_scope cx) (links_in st) r"
      | l where "new_link cfg now (drs n) url h owner ?g (guest_ttl cfg ?g ttl) chosen (sv_db st) = Inr (l, sv_db st')"
         "find_live_by_hash now h (requester_scope cx) (links_in st) = None"
         "coh (links_in st') (sv_cache st')" "r = response_from_link (lc_base_url cfg) True False l" by blast
    then show ?thesis
    proof cases
      case 1
      then show ?thesis using ci(3) by blast
    next
      case 2
      note nl = new_link_Inr [OF 2(1) assms(4)]
      have links: "links_in st' = links_in st @ [l]" using nl(1) by simp
      have sc: "link_scope l = requester_scope cx" using nl(2) ci(4) by (intro owner_scope) simp_all
      have tc: "table_change cfg now (links_in st) (links_in st @ [l])"
      proof (rule table_change.added)
        show "find_live_by_hash now (lk_hash l) (link_scope l) (links_in st) = None" using 2(2) nl(2) sc by simp
        show "count_guest_links_by_identifier now g (lc_guest_link_window_days cfg) (links_in st) < lc_guest_link_limit cfg"
          if "lk_owner l = None" "lk_guest l = Some g" for g using nl(5) [of g] nl(2) that by simp
      qed (use nl(2,3) assms(4) [of n] in simp_all)
      have "table_wf (links_in st')" using new_link_wf [OF 2(1) assms(4) wf assms(3) ci(2,6,5)] by simp
      then have "ok st'" using 2(3) by (simp add: ok_def)
      moreover have "\<exists>t. lk_expires l = Some t \<and> t \<le> now + lc_default_guest_ttl_seconds cfg * second"
        if "cx_current_user cx = None" "cx_remote_addr cx \<noteq> None" "0 < lc_default_guest_ttl_seconds cfg"
        using nl(2) that ci(7) by (auto simp: guest_ttl_def second_def split: option.splits)
      ultimately show ?thesis using links sc tc nl(2) ci(3) 2(4) by auto
    qed
  qed
qed

lemma update_stats_ok:
  assumes "ok st"
  shows "ok (update_link_stats ops rv now i s cx st) \<and>
    table_change cfg now (links_in st) (links_in (update_link_stats ops rv now i s cx st))"
proof (cases "ShortCode s")
  case (Inl e)
  with assms show ?thesis by (simp add: update_link_stats_def table_change.same)
next
  case (Inr c)
  have wf: "table_wf (links_in st)" and coh: "coh (links_in st) (sv_cache st)" using assms by (simp_all add: ok_def)
  show ?thesis
  proof (cases "repo_increment_clicks now c (links_in st)")
    case (Inl e)
    have "coh (links_in st) (snd (co_delete_by_code ops c (co_delete_redirect ops c (sv_cache st))))"
      using coh_delete_redirect [OF coh silent_empty] coh_delete_by_code(1) by blast
    with wf show ?thesis unfolding update_link_stats_def Inr sum.case Inl by (simp add: ok_def table_change.same)
  next
    case i: (Inr tbl')
    have "coh tbl' (sv_cache st)" by (rule coh_alike [OF coh answers_alike_increment [OF i]])
    with increment_wf [OF wf i] table_change.counted [OF i] show ?thesis
      unfolding update_link_stats_def Inr sum.case i by (simp add: ok_def)
  qed
qed

lemma drop_cached_silent:
  assumes "coh tbl c" and "case l of None \<Rightarrow> True | Some x \<Rightarrow> lk_code x = k"
  shows "coh tbl (drop_cached ops k l c)" "silent {k} (drop_cached ops k l c)"
proof -
  let ?c1 = "case l of Some x \<Rightarrow> snd (co_delete ops x c) | None \<Rightarrow> snd (co_delete_by_code ops k c)"
  have c1: "coh tbl ?c1" "silent {k} ?c1"
    using coh_delete [OF assms(1) silent_empty] coh_delete_by_code [OF assms(1) silent_empty] assms(2)
    by (auto split: option.splits)
  note c2 = coh_delete_redirect [OF c1, of k]
  show "coh tbl (drop_cached ops k l c)" unfolding drop_cached_def by (rule coh_delete_stats [OF c2(1)])
  show "silent {k} (drop_cached ops k l c)" unfolding drop_cached_def by (rule silent_delete_stats [OF c2])
qed

lemma delete_link_ok:
  assumes "delete_link ops s cx enf auth st = (r, st')" and "ok st"
  shows "ok st' \<and> table_change cfg now (links_in st) (links_in st') \<and> (r = Inr True \<longrightarrow> s \<notin> set (codes_of (links_in st')))"
proof (cases "CODE_PATTERN s")
  case False
  with assms show ?thesis by (auto simp: delete_link_def code_to_look_up_def ShortCode_def table_change.same)
next
  case True
  then have code: "code_to_look_up s = Inr s" by (simp add: code_to_look_up_def ShortCode_def)
  have wf: "table_wf (links_in st)" and coh: "coh (links_in st) (sv_cache st)" using assms(2) by (simp_all add: ok_def)
  have d: "distinct (codes_of (links_in st))" "distinct (ids_of (links_in st))" using wf by (simp_all add: table_wf_def)
  show ?thesis
  proof (cases "find_by_code s (links_in st)")
    case None
    with assms(1) wf drop_cached_silent(1) [OF coh, of s None] show ?thesis
      by (auto simp: delete_link_def code ok_def table_change.same)
  next
    case (Some l)
    then have l: "l \<in> set (links_in st)" "lk_code l = s" using find_by_code_Some by blast+
    let ?tbl = "filter (\<lambda>k. lk_id k \<noteq> lk_id l) (links_in st)"
    have gone: "lk_code ` {k \<in> set (links_in st). \<not> lk_id k \<noteq> lk_id l} = {s}"
      using l d(2) by (auto simp: distinct_map inj_on_def)
    have "coh ?tbl (drop_cached ops s (Some l) (sv_cache st))"
    proof (rule coh_remove)
      show "coh (links_in st) (drop_cached ops s (Some l) (sv_cache st))" "silent {s} (drop_cached ops s (Some l) (sv_cache st))"
        using drop_cached_silent [OF coh, of s "Some l"] l(2) by simp_all
      show "answers_alike (- {s}) (links_in st) ?tbl"
        using answers_alike_filter [OF d(1), of "\<lambda>k. lk_id k \<noteq> lk_id l"] unfolding gone .
    qed
    moreover have "s \<notin> set (codes_of ?tbl)"
    proof
      assume "s \<in> set (codes_of ?tbl)"
      then obtain k where "k \<in> set (links_in st)" "lk_code k = s" "lk_id k \<noteq> lk_id l" by auto
      with l d(1) have "k = l" unfolding distinct_map by (metis inj_onD)
      with \<open>lk_id k \<noteq> lk_id l\<close> show False by simp
    qed
    ultimately show ?thesis
      using assms Some wf table_wf_filter [OF wf]
      by (auto simp: delete_link_def code delete_link_row_def ok_def table_change.same table_change.removed
          split: sum.splits if_split_asm)
  qed
qed

lemma fold_delete_silent:
  "coh tbl c \<Longrightarrow> silent K c \<Longrightarrow> coh tbl (fold (\<lambda>l c. snd (co_delete ops l c)) ls c) \<and>
     silent (lk_code ` set ls \<union> K) (fold (\<lambda>l c. snd (co_delete ops l c)) ls c)"
proof (induction ls arbitrary: c K)
  case Nil
  then show ?case by simp
next
  case (Cons l ls)
  note d = coh_delete [OF Cons.prems, of l]
  have "lk_code ` set ls \<union> insert (lk_code l) K = lk_code ` set (l # ls) \<union> K" by auto
  with Cons.IH [OF d] show ?case by simp
qed

lemma clean_expired_ok:
  assumes "ok st"
  shows "ok (snd (clean_expired_links ops now st)) \<and>
    table_change cfg now (links_in st) (links_in (snd (clean_expired_links ops now st)))"
proof -
  have wf: "table_wf (links_in st)" and coh: "coh (links_in st) (sv_cache st)" using assms by (simp_all add: ok_def)
  have d: "distinct (codes_of (links_in st))" "distinct (ids_of (links_in st))" using wf by (simp_all add: table_wf_def)
  let ?tbl = "filter (\<lambda>l. \<not> is_expired now l) (links_in st)" and ?gone = "filter (is_expired now) (links_in st)"
  let ?c = "fold (\<lambda>l c. snd (co_delete ops l c)) ?gone (sv_cache st)"
  have f: "coh (links_in st) ?c" "silent (lk_code ` set ?gone) ?c"
    using fold_delete_silent [OF coh silent_empty, of ?gone] by simp_all
  have "lk_code ` {l \<in> set (links_in st). \<not> \<not> is_expired now l} = lk_code ` set ?gone" by auto
  then have "coh ?tbl ?c"
    using answers_alike_filter [OF d(1), of "\<lambda>l. \<not> is_expired now l"] by (intro coh_remove [OF f]) simp
  moreover from this have "coh ?tbl (co_delete_stats ops ?c)" by (rule coh_delete_stats)
  moreover have "coh ?tbl (sv_cache st)" if "?gone = []" using that \<open>coh ?tbl ?c\<close> by simp
  ultimately show ?thesis
    using table_wf_filter [OF wf] by (auto simp add: clean_expired_links_def Let_def delete_expired_eq [OF d(2)] ok_def table_change.removed split: if_splits)
qed

lemma drop_cached_links_silent:
  "coh tbl c \<Longrightarrow> silent K c \<Longrightarrow> coh tbl (drop_cached_links ops ls c) \<and> silent (lk_code ` set ls \<union> K) (drop_cached_links ops ls c)"
proof (induction ls arbitrary: c K)
  case Nil
  then show ?case by simp
next
  case (Cons l ls)
  note d = coh_delete_redirect [OF coh_delete [OF Cons.prems, of l], of "lk_code l"]
  have "lk_code ` set ls \<union> insert (lk_code l) K = lk_code ` set (l # ls) \<union> K" by auto
  with Cons.IH [OF d] show ?case by simp
qed

lemma delete_user_ok:
  assumes "delete_user ops i cx (sv_db st) (sv_cache st) = Inr (b, db', c', ev)" and "ok st"
  shows "ok (st\<lparr>sv_db := db', sv_cache := c', sv_audit := sv_audit st @ ev\<rparr>) \<and> table_change cfg now (links_in st) (db_links db')"
proof -
  have wf: "table_wf (links_in st)" and coh: "coh (links_in st) (sv_cache st)" using assms(2) by (simp_all add: ok_def)
  have d: "distinct (codes_of (links_in st))" "distinct (ids_of (links_in st))" using wf by (simp_all add: table_wf_def)
  let ?gone = "filter (\<lambda>l. lk_owner l = Some i) (links_in st)" and ?tbl = "filter (\<lambda>l. lk_owner l \<noteq> Some i) (links_in st)"
  let ?c = "drop_cached_links ops ?gone (sv_cache st)"
  have owner: "filter (\<lambda>l. case lk_owner l of None \<Rightarrow> True | Some j \<Rightarrow> j \<notin> set [i]) ?tbl = ?tbl"
    unfolding filter_filter by (rule filter_cong) (auto split: option.split)
  from assms(1) have cases: "(db' = sv_db st \<and> c' = sv_cache st) \<or>
      (db_links db' = ?tbl \<and> c' = (if ?gone = [] then sv_cache st else co_delete_stats ops ?c))"
    using owner
    by (auto simp: delete_user_def Let_def delete_user_row_def delete_by_owner_eq [OF d(2)] result_simps split: prod.splits if_split_asm)
  have f: "coh (links_in st) ?c" "silent (lk_code ` set ?gone) ?c"
    using drop_cached_links_silent [OF coh silent_empty, of ?gone] by simp_all
  have "lk_code ` {l \<in> set (links_in st). \<not> lk_owner l \<noteq> Some i} = lk_code ` set ?gone" by auto
  then have c: "coh ?tbl ?c"
    using answers_alike_filter [OF d(1), of "\<lambda>l. lk_owner l \<noteq> Some i"] by (intro coh_remove [OF f]) simp
  have "coh ?tbl (if ?gone = [] then sv_cache st else co_delete_stats ops ?c)"
  proof (cases "?gone = []")
    case True
    with c show ?thesis by simp
  next
    case False
    then show ?thesis using coh_delete_stats [OF c] by simp
  qed
  with cases coh wf table_wf_filter [OF wf] show ?thesis
    by (auto simp: ok_def table_change.same table_change.removed)
qed

end

end
