(* ===== verification/Batch.thy ===== *)
theory Batch
  imports Link_Invariants "HOL-Library.Multiset" "HOL-Library.Sublist"
begin

text \<open>
  Creating many links in one request (\<^verbatim>\<open>application/use_cases/batch\<close>): the grouper, the
  fetcher, the creator with its collision loop, the response builder and the use case
  that runs them. The draws of \<^verbatim>\<open>uuid4\<close> are arguments: the identifier of each new link and
  the fresh part of each further code, by the hash of the group and the number of the
  attempt. The measured processing time is left out.
\<close>

section \<open>Answers\<close>

record refusal =
  rf_code :: string
  rf_message :: string
  rf_template :: string
  rf_params :: "(string \<times> param_value) list"
  rf_retry_after :: "int option"

definition refusal_from_error :: "domain_error \<Rightarrow> refusal" where
  "refusal_from_error e =
     \<lparr>rf_code = err_code e, rf_message = err_message e, rf_template = err_template e, rf_params = err_params e,
      rf_retry_after = err_retry_after e\<rparr>"

text \<open>\<^verbatim>\<open>Refusal.of\<close> is only called without parameters.\<close>

definition refusal_of :: "string \<Rightarrow> string \<Rightarrow> refusal" where
  "refusal_of msg errcode =
     \<lparr>rf_code = errcode, rf_message = msg, rf_template = msg, rf_params = [], rf_retry_after = None\<rparr>"

record batch_item =
  bi_success :: bool
  bi_url :: string
  bi_short_code :: "string option"
  bi_original_url :: "string option"
  bi_short_url :: "string option"
  bi_clicks :: int
  bi_expires_at :: "moment option"
  bi_error :: "refusal option"
  bi_is_new :: bool
  bi_from_cache :: bool
  bi_duplicate_of :: "string option"
  bi_link_id :: "ident option"

definition item_success ::
  "string \<Rightarrow> string \<Rightarrow> string \<Rightarrow> string \<Rightarrow> int \<Rightarrow> bool \<Rightarrow> bool \<Rightarrow> string option \<Rightarrow> moment option \<Rightarrow> ident option
   \<Rightarrow> (exn, batch_item) result" where
  "item_success url short_code original_url base_url clicks is_new from_cache duplicate_of expires_at link_id =
     rbind (build_short_url base_url short_code) (\<lambda>short_url. Inr
       \<lparr>bi_success = True, bi_url = url, bi_short_code = Some short_code, bi_original_url = Some original_url,
        bi_short_url = Some short_url, bi_clicks = clicks, bi_expires_at = expires_at, bi_error = None,
        bi_is_new = is_new, bi_from_cache = from_cache, bi_duplicate_of = duplicate_of, bi_link_id = link_id\<rparr>)"

definition item_error :: "string \<Rightarrow> refusal \<Rightarrow> batch_item" where
  "item_error url err =
     \<lparr>bi_success = False, bi_url = url, bi_short_code = None, bi_original_url = None, bi_short_url = None,
      bi_clicks = 0, bi_expires_at = None, bi_error = Some err, bi_is_new = False, bi_from_cache = False,
      bi_duplicate_of = None, bi_link_id = None\<rparr>"

record batch_response =
  br_items :: "batch_item list"
  br_total :: nat
  br_successful :: nat
  br_failed :: nat
  br_from_cache_count :: nat
  br_from_db_count :: nat
  br_new_count :: nat

definition count_items :: "(batch_item \<Rightarrow> bool) \<Rightarrow> batch_item list \<Rightarrow> nat" where
  "count_items P results = length (filter P results)"

definition batch_from_results :: "batch_item list \<Rightarrow> batch_response" where
  "batch_from_results results =
     \<lparr>br_items = results, br_total = length results, br_successful = count_items bi_success results,
      br_failed = length results - count_items bi_success results,
      br_from_cache_count = count_items bi_from_cache results,
      br_from_db_count = count_items (\<lambda>r. bi_success r \<and> \<not> bi_is_new r \<and> \<not> bi_from_cache r \<and>
         (bi_duplicate_of r = None \<or> bi_duplicate_of r = Some [])) results,
      br_new_count = count_items bi_is_new results\<rparr>"

section \<open>Grouping\<close>

record url_group =
  ug_hash :: url_hash
  ug_url :: string
  ug_urls :: "string list"

record rejected_url =
  rj_url :: string
  rj_refusal :: refusal

definition append_url :: "url_hash \<Rightarrow> string \<Rightarrow> url_group \<Rightarrow> url_group" where
  "append_url h url g = (if ug_hash g = h then g\<lparr>ug_urls := ug_urls g @ [url]\<rparr> else g)"

definition add_to_group :: "url_hash \<Rightarrow> string \<Rightarrow> string \<Rightarrow> url_group list \<Rightarrow> url_group list" where
  "add_to_group h original_url url groups =
     (if h \<in> set (map ug_hash groups)
      then map (append_url h url) groups
      else groups @ [\<lparr>ug_hash = h, ug_url = original_url, ug_urls = [url]\<rparr>])"

definition read_item :: "link_config \<Rightarrow> string \<Rightarrow> (exn, string \<times> url_hash) result" where
  "read_item cfg url =
     rbind (OriginalUrl (lc_idna cfg) (url_rules_of cfg) url) (\<lambda>original_url.
     rbind (lc_hash cfg original_url) (\<lambda>url_hash. Inr (original_url, url_hash)))"

fun group_urls ::
  "link_config \<Rightarrow> string list \<Rightarrow> url_group list \<Rightarrow> rejected_url list \<Rightarrow> (exn, url_group list \<times> rejected_url list) result" where
  "group_urls cfg [] by_hash rejected = Inr (by_hash, rejected)"
| "group_urls cfg (url # urls) by_hash rejected =
     (case read_item cfg url of
        Inr (original_url, url_hash) \<Rightarrow> group_urls cfg urls (add_to_group url_hash original_url url by_hash) rejected
      | Inl (ValueError msg) \<Rightarrow>
          group_urls cfg urls by_hash (rejected @ [\<lparr>rj_url = url, rj_refusal = refusal_of msg ''VALIDATION_ERROR''\<rparr>])
      | Inl (Domain e) \<Rightarrow>
          if is_validation_error e
          then group_urls cfg urls by_hash (rejected @ [\<lparr>rj_url = url, rj_refusal = refusal_from_error e\<rparr>])
          else Inl (Domain e)
      | Inl e \<Rightarrow> Inl e)"

section \<open>Looking up\<close>

definition confirm_step ::
  "'c cache_ops \<Rightarrow> moment \<Rightarrow> dedup_scope \<Rightarrow> (short_code \<times> link option) list \<Rightarrow> url_hash \<times> link
   \<Rightarrow> (url_hash \<times> link) list \<times> 'c \<Rightarrow> (url_hash \<times> link) list \<times> 'c" where
  "confirm_step ops now sc stored e acc =
     (case map_of stored (lk_code (snd e)) of
        Some (Some l) \<Rightarrow>
          if lk_hash l = fst e \<and> link_scope l = sc \<and> \<not> is_expired now l then (fst acc @ [(fst e, l)], snd acc)
          else (fst acc, snd (co_delete ops (snd e) (snd acc)))
      | _ \<Rightarrow> (fst acc, snd (co_delete ops (snd e) (snd acc))))"

definition confirm_cached ::
  "'c cache_ops \<Rightarrow> moment \<Rightarrow> dedup_scope \<Rightarrow> (url_hash \<times> link option) list \<Rightarrow> link_table \<Rightarrow> 'c
   \<Rightarrow> (url_hash \<times> link) list \<times> 'c" where
  "confirm_cached ops now sc cached_map tbl c =
     (let cands = [(h, l). (h, Some l) \<leftarrow> cached_map];
          stored = find_by_codes (map (\<lambda>(h, l). lk_code l) cands) tbl
      in fold (confirm_step ops now sc stored) cands ([], c))"

definition known_items ::
  "string \<Rightarrow> bool \<Rightarrow> (url_hash \<Rightarrow> link option) \<Rightarrow> url_group list \<Rightarrow> (exn, batch_item list) result" where
  "known_items base_url from_cache found groups =
     rmap (\<lambda>(url, l). item_success url (lk_code l) (lk_url l) base_url (lk_clicks l) False from_cache None (lk_expires l) None)
       (concat (map (\<lambda>g. case found (ug_hash g) of Some l \<Rightarrow> map (\<lambda>url. (url, l)) (ug_urls g) | None \<Rightarrow> []) groups))"

definition fetch ::
  "'c cache_ops \<Rightarrow> moment \<Rightarrow> string \<Rightarrow> url_group list \<Rightarrow> dedup_scope \<Rightarrow> link_table \<Rightarrow> 'c
   \<Rightarrow> (exn, batch_item list \<times> url_group list \<times> link list) result \<times> 'c" where
  "fetch ops now base_url groups sc tbl c =
     (if groups = [] then (Inr ([], [], []), c)
      else case co_get_by_hashes ops now (map ug_hash groups) sc c of (cached_map, c1) \<Rightarrow>
        case confirm_cached ops now sc cached_map tbl c1 of (confirmed, c2) \<Rightarrow>
        let not_in_cache = filter (\<lambda>g. map_of confirmed (ug_hash g) = None) groups;
            db_map = find_live_by_hashes now (map ug_hash not_in_cache) sc tbl;
            in_db = (\<lambda>h. case map_of db_map h of Some (Some l) \<Rightarrow> Some l | _ \<Rightarrow> None)
        in (rbind (known_items base_url True (map_of confirmed) groups) (\<lambda>cache_results.
              if not_in_cache = [] then Inr (cache_results, [], [])
              else rbind (known_items base_url False in_db not_in_cache) (\<lambda>db_results. Inr
                (cache_results @ db_results, filter (\<lambda>g. in_db (ug_hash g) = None) not_in_cache,
                 [l. g \<leftarrow> not_in_cache, Some l \<leftarrow> [in_db (ug_hash g)]]))), c2))"

section \<open>Creating\<close>

record batch_draws =
  bd_link_id :: "url_hash \<Rightarrow> ident"
  bd_uuid_hex :: "url_hash \<Rightarrow> nat \<Rightarrow> string"

record resolution =
  rs_resolved :: "(url_hash \<times> short_code) list"
  rs_attempts :: "url_hash \<Rightarrow> nat"
  rs_occupied :: "short_code list"

text \<open>
  One pass over the cands of \<open>_resolve_collisions\<close>: a free code is taken and occupied,
  a taken one is replaced by another attempt until the attempts of its group are spent.
  Below the bound the next attempt is derived from the URL, above it from a fresh draw.
\<close>

definition next_code :: "link_config \<Rightarrow> batch_draws \<Rightarrow> url_group list \<Rightarrow> url_hash \<Rightarrow> nat \<Rightarrow> (exn, short_code) result" where
  "next_code cfg bd groups h n =
     (case List.find (\<lambda>g. ug_hash g = h) groups of
        None \<Rightarrow> Inl (LookupError h)
      | Some g \<Rightarrow>
          if n \<le> lc_max_collision_attempts cfg then generate_unique (lc_generate cfg) (lc_idna cfg) (ug_url g) n
          else generate_fresh (lc_generate cfg) (lc_idna cfg) (ug_url g) (bd_uuid_hex bd h n))"

fun collision_round ::
  "link_config \<Rightarrow> batch_draws \<Rightarrow> url_group list \<Rightarrow> (url_hash \<times> short_code) list \<Rightarrow> resolution
   \<Rightarrow> (url_hash \<times> short_code) list \<Rightarrow> (exn, resolution \<times> (url_hash \<times> short_code) list) result" where
  "collision_round cfg bd groups [] rs next_round = Inr (rs, next_round)"
| "collision_round cfg bd groups ((h, c) # rest) rs next_round =
     (if c \<notin> set (rs_occupied rs)
      then collision_round cfg bd groups rest
             (rs\<lparr>rs_resolved := rs_resolved rs @ [(h, c)], rs_occupied := c # rs_occupied rs\<rparr>) next_round
      else let n = rs_attempts rs h + 1; rs' = rs\<lparr>rs_attempts := (rs_attempts rs)(h := n)\<rparr>
           in if n > lc_max_collision_attempts cfg * 2 then collision_round cfg bd groups rest rs' next_round
              else rbind (next_code cfg bd groups h n) (\<lambda>c'.
                     collision_round cfg bd groups rest rs' (dict_set h c' next_round)))"

text \<open>What the loop still has to do: for each candidate, the attempts it has left and one.\<close>

definition work_left :: "link_config \<Rightarrow> (url_hash \<Rightarrow> nat) \<Rightarrow> (url_hash \<times> short_code) list \<Rightarrow> nat" where
  "work_left cfg attempts xs = sum_list (map (\<lambda>(h, c). Suc (lc_max_collision_attempts cfg * 2 - attempts h)) xs)"

lemma work_left_simps [simp]:
  "work_left cfg a [] = 0"
  "work_left cfg a ((h, c) # xs) = Suc (lc_max_collision_attempts cfg * 2 - a h) + work_left cfg a xs"
  by (simp_all add: work_left_def)

lemma work_left_bump: "a h \<le> n \<Longrightarrow> work_left cfg (a(h := n)) xs \<le> work_left cfg a xs"
  by (induction xs) auto

lemma work_left_dict_set:
  "work_left cfg a (dict_set h c xs) \<le> work_left cfg a xs + Suc (lc_max_collision_attempts cfg * 2 - a h)"
  by (induction xs) auto

lemma collision_round_work:
  "collision_round cfg bd groups cands rs nxt = Inr (rs', nxt') \<Longrightarrow>
     work_left cfg (rs_attempts rs') nxt' + length cands \<le> work_left cfg (rs_attempts rs) cands + work_left cfg (rs_attempts rs) nxt"
proof (induction cfg bd groups cands rs nxt rule: collision_round.induct)
  case (1 cfg bd groups rs nxt)
  then show ?case by simp
next
  case (2 cfg bd groups h c rest rs nxt)
  let ?a = "rs_attempts rs" and ?n = "rs_attempts rs h + 1"
  let ?rs = "rs\<lparr>rs_attempts := ?a(h := ?n)\<rparr>"
  have bump: "work_left cfg (?a(h := ?n)) ys \<le> work_left cfg ?a ys" for ys by (rule work_left_bump) simp
  show ?case
  proof (cases "c \<in> set (rs_occupied rs)")
    case False
    with 2 show ?thesis by simp
  next
    case occ: True
    show ?thesis
    proof (cases "?n > lc_max_collision_attempts cfg * 2")
      case True
      then have "collision_round cfg bd groups rest ?rs nxt = Inr (rs', nxt')" using occ 2(4) by (simp add: Let_def)
      from 2(2) [OF _ refl refl True this] occ have
        "work_left cfg (rs_attempts rs') nxt' + length rest \<le> work_left cfg (?a(h := ?n)) rest + work_left cfg (?a(h := ?n)) nxt"
        by (simp add: fun_upd_def)
      then show ?thesis using bump [of rest] bump [of nxt] by simp
    next
      case False
      then obtain c' where "next_code cfg bd groups h ?n = Inr c'"
        and r: "collision_round cfg bd groups rest ?rs (dict_set h c' nxt) = Inr (rs', nxt')"
        using occ 2(4) by (auto simp: Let_def rbind_eq_Inr)
      from 2(3) [OF _ refl refl False r] occ have
        "work_left cfg (rs_attempts rs') nxt' + length rest
           \<le> work_left cfg (?a(h := ?n)) rest + work_left cfg (?a(h := ?n)) (dict_set h c' nxt)" by (simp add: fun_upd_def)
      also have "\<dots> \<le> work_left cfg ?a rest + (work_left cfg ?a nxt + Suc (lc_max_collision_attempts cfg * 2 - ?n))"
        using bump [of rest] bump [of nxt] work_left_dict_set [of cfg "?a(h := ?n)" h c' nxt] by simp
      finally show ?thesis using False by simp
    qed
  qed
qed

function resolve_collisions ::
  "link_config \<Rightarrow> batch_draws \<Rightarrow> url_group list \<Rightarrow> link_table \<Rightarrow> (url_hash \<times> short_code) list \<Rightarrow> resolution
   \<Rightarrow> (exn, (url_hash \<times> short_code) list) result" where
  "resolve_collisions cfg bd groups tbl cands rs =
     (if cands = [] then Inr (rs_resolved rs)
      else let stored = find_by_codes (remdups (map snd cands)) tbl;
               rs1 = rs\<lparr>rs_occupied := [c. (c, Some l) \<leftarrow> stored] @ rs_occupied rs\<rparr>
           in case collision_round cfg bd groups cands rs1 [] of
                Inl e \<Rightarrow> Inl e
              | Inr (rs2, next_round) \<Rightarrow> resolve_collisions cfg bd groups tbl next_round rs2)"
  by pat_completeness auto
termination
proof (relation "measure (\<lambda>(cfg, bd, groups, tbl, cands, rs). work_left cfg (rs_attempts rs) cands)", goal_cases)
  case 1
  then show ?case by simp
next
  case (2 cfg bd groups tbl cands rs stored rs1 p rs2 next_round)
  then have "work_left cfg (rs_attempts rs2) next_round + length cands \<le> work_left cfg (rs_attempts rs1) cands"
    using collision_round_work [of cfg bd groups cands rs1 "[]" rs2 next_round] by simp
  moreover have "0 < length cands" using 2 by simp
  ultimately have "work_left cfg (rs_attempts rs2) next_round < work_left cfg (rs_attempts rs1) cands" by linarith
  then show ?case using 2 by simp
qed

declare resolve_collisions.simps [simp del]

fun first_codes ::
  "link_config \<Rightarrow> url_group list \<Rightarrow> (url_hash \<times> short_code) list \<Rightarrow> (exn, (url_hash \<times> short_code) list) result" where
  "first_codes cfg [] hash_to_code = Inr hash_to_code"
| "first_codes cfg (g # gs) hash_to_code =
     rbind (generate_for_url (lc_generate cfg) (lc_idna cfg) (ug_url g)) (\<lambda>c.
       first_codes cfg gs (dict_set (ug_hash g) c hash_to_code))"

definition create_new_links ::
  "link_config \<Rightarrow> moment \<Rightarrow> batch_draws \<Rightarrow> link_table \<Rightarrow> url_group list \<Rightarrow> owner_id option \<Rightarrow> string option \<Rightarrow> int
   \<Rightarrow> (exn, link list) result" where
  "create_new_links cfg now bd tbl groups owner guest_identifier ttl_seconds =
     (if groups = [] then Inr []
      else rbind (first_codes cfg groups []) (\<lambda>hash_to_code.
        rbind (resolve_collisions cfg bd groups tbl hash_to_code
                 \<lparr>rs_resolved = [], rs_attempts = (\<lambda>_. 0), rs_occupied = []\<rparr>) (\<lambda>resolved.
        rmap (\<lambda>(g, c). link_create now (bd_link_id bd (ug_hash g)) (ug_hash g) c (ug_url g) owner guest_identifier ttl_seconds)
          [(g, c). g \<leftarrow> groups, Some c \<leftarrow> [map_of resolved (ug_hash g)]])))"

section \<open>The use case\<close>

definition new_items :: "(url_hash \<Rightarrow> link option) \<Rightarrow> string \<Rightarrow> url_group \<Rightarrow> (exn, batch_item list) result" where
  "new_items hash_to_link base_url g =
     (case hash_to_link (ug_hash g) of
        None \<Rightarrow> Inr (map (\<lambda>url. item_error url (refusal_of ''The link could not be stored'' ''LINK_NOT_STORED'')) (ug_urls g))
      | Some l \<Rightarrow>
          (case ug_urls g of
             [] \<Rightarrow> Inl (LookupError ''list index out of range'')
           | url # urls \<Rightarrow>
               rbind (item_success url (lk_code l) (lk_url l) base_url (lk_clicks l) True False None (lk_expires l) (Some (lk_id l))) (\<lambda>fst_item.
               rbind (rmap (\<lambda>u. item_success u (lk_code l) (lk_url l) base_url (lk_clicks l) False False (Some (lk_url l))
                              (lk_expires l) None) urls) (\<lambda>others. Inr (fst_item # others)))))"

definition build_from_new_links :: "url_group list \<Rightarrow> link list \<Rightarrow> string \<Rightarrow> (exn, batch_item list) result" where
  "build_from_new_links groups saved_links base_url =
     rbind (rmap (new_items (map_of (rev (map (\<lambda>l. (lk_hash l, l)) saved_links))) base_url) groups)
       (\<lambda>itemss. Inr (concat itemss))"

definition apply_guest_quota ::
  "link_config \<Rightarrow> url_group list \<Rightarrow> int option \<Rightarrow> url_group list \<times> batch_item list" where
  "apply_guest_quota cfg groups_to_create remaining =
     (case remaining of
        None \<Rightarrow> (groups_to_create, [])
      | Some n \<Rightarrow>
          if int (length groups_to_create) \<le> n then (groups_to_create, [])
          else (take (nat n) groups_to_create,
                map (\<lambda>url. item_error url (refusal_from_error
                       (guest_quota_spent (lc_guest_link_limit cfg) (lc_guest_link_window_days cfg))))
                  (concat (map ug_urls (drop (nat n) groups_to_create)))))"

type_synonym batch_outcome = "batch_item list \<times> url_group list \<times> link list \<times> batch_item list \<times> link list"

definition look_up_and_create ::
  "'c cache_ops \<Rightarrow> link_config \<Rightarrow> moment \<Rightarrow> batch_draws \<Rightarrow> url_group list \<Rightarrow> dedup_scope \<Rightarrow> owner_id option
   \<Rightarrow> string option \<Rightarrow> int \<Rightarrow> ('c, batch_outcome) use_case" where
  "look_up_and_create ops cfg now bd valid_groups sc owner guest_id ttl_seconds st =
     (case fetch ops now (lc_base_url cfg) valid_groups sc (links_in st) (sv_cache st) of
        (Inl e, c) \<Rightarrow> (Inl e, st\<lparr>sv_cache := c\<rparr>)
      | (Inr (fetched_results, missing, links_found_in_db), c) \<Rightarrow>
          let st1 = st\<lparr>sv_cache := c\<rparr>;
              remaining_quota = map_option (\<lambda>g. guest_allowance now g (lc_guest_link_limit cfg)
                 (lc_guest_link_window_days cfg) (links_in st)) guest_id
          in case apply_guest_quota cfg missing remaining_quota of (groups_to_create, quota_results) \<Rightarrow>
            (case rbind (create_new_links cfg now bd (links_in st) groups_to_create owner guest_id ttl_seconds) (\<lambda>new_links.
                    if new_links = [] then Inr ([], links_in st)
                    else save_many_links (map ur_id (db_users (sv_db st))) new_links (links_in st)) of
               Inl e \<Rightarrow> (Inl e, st1)
             | Inr (saved_links, tbl) \<Rightarrow>
                 (Inr (fetched_results, groups_to_create, links_found_in_db, quota_results, saved_links),
                  tell_audit (map (\<lambda>l. UrlCreated (lk_code l) (lk_url l)) saved_links)
                    (on_db (\<lambda>db. db\<lparr>db_links := tbl\<rparr>) st1))))"

definition batch_answer ::
  "link_config \<Rightarrow> batch_item list \<Rightarrow> batch_outcome \<Rightarrow> (exn, batch_response) result" where
  "batch_answer cfg invalid_results outcome =
     (case outcome of (fetched_results, groups_to_create, links_found_in_db, quota_results, saved_links) \<Rightarrow>
        if quota_results \<noteq> [] \<and> saved_links = [] \<and> fetched_results = [] \<and> invalid_results = []
        then Inl (Domain (guest_quota_spent (lc_guest_link_limit cfg) (lc_guest_link_window_days cfg)))
        else rbind (build_from_new_links groups_to_create saved_links (lc_base_url cfg)) (\<lambda>new_results.
          Inr (batch_from_results (fetched_results @ new_results @ quota_results @ invalid_results))))"

definition batch_create_links ::
  "'c cache_ops \<Rightarrow> link_config \<Rightarrow> nat \<Rightarrow> moment \<Rightarrow> (nat \<Rightarrow> batch_draws) \<Rightarrow> string list \<Rightarrow> request_context
   \<Rightarrow> ('c, batch_response) use_case" where
  "batch_create_links ops cfg batch_limit now bds urls cx st =
     (if urls = [] then (Inr (batch_from_results []), st)
      else if length urls > batch_limit then
        (Inl (Domain (ValidationError
           (''Batch limit exceeded. Max: '' @ str_of_nat batch_limit @ '', requested: '' @ str_of_nat (length urls)) ''urls''
           (Some ''Batch limit exceeded. Max: %(max)s, requested: %(requested)s'')
           [(''max'', PInt (int batch_limit)), (''requested'', PInt (int (length urls)))])), st)
      else case group_urls cfg urls [] [] of
        Inl e \<Rightarrow> (Inl e, st)
      | Inr (valid_groups, rejected) \<Rightarrow>
          let invalid_results = map (\<lambda>r. item_error (rj_url r) (rj_refusal r)) rejected
          in if valid_groups = [] then (Inr (batch_from_results invalid_results), st)
          else case (case cx_current_user cx of None \<Rightarrow> Inr None | Some i \<Rightarrow> rbind (OwnerID i) (\<lambda>o'. Inr (Some o'))) of
            Inl e \<Rightarrow> (Inl e, st)
          | Inr owner \<Rightarrow>
              let guest_id = (if owner = None then cx_remote_addr cx else None);
                  ttl_seconds = (if guest_id \<noteq> None then lc_default_guest_ttl_seconds cfg else 0);
                  sc = (case owner of Some i \<Rightarrow> for_owner i | None \<Rightarrow> for_guest guest_id)
              in case retry_conflicts
                   (\<lambda>attempt. look_up_and_create ops cfg now (bds attempt) valid_groups sc owner guest_id ttl_seconds)
                   (Domain (LinkConflictError ''Batch creation kept losing races with concurrent creations''))
                   [0..<lc_max_collision_attempts cfg] st of
                (Inl e, st1) \<Rightarrow> (Inl e, st1)
              | (Inr outcome, st1) \<Rightarrow>
                  (batch_answer cfg invalid_results outcome,
                   if snd (snd (snd (snd outcome))) \<noteq> [] then on_cache (co_delete_stats ops) st1 else st1))"

section \<open>The groups\<close>

definition groups_wf :: "link_config \<Rightarrow> url_group list \<Rightarrow> bool" where
  "groups_wf cfg gs \<longleftrightarrow> distinct (map ug_hash gs) \<and>
     (\<forall>g \<in> set gs. ug_urls g \<noteq> [] \<and> (\<exists>url. read_item cfg url = Inr (ug_url g, ug_hash g)))"

lemma append_url_keeps [simp]:
  "ug_hash (append_url h url g) = ug_hash g" "ug_url (append_url h url g) = ug_url g"
  "ug_hash \<circ> append_url h url = ug_hash" "ug_urls (append_url h url g) = [] \<longleftrightarrow> ug_hash g \<noteq> h \<and> ug_urls g = []"
  by (auto simp: append_url_def)

lemma add_to_group_wf:
  assumes "groups_wf cfg gs" and "read_item cfg url = Inr (u, h)"
  shows "groups_wf cfg (add_to_group h u url gs)"
  using assms by (auto simp: groups_wf_def add_to_group_def)

lemma urls_after_append:
  assumes "distinct (map ug_hash gs)" and "h \<in> set (map ug_hash gs)"
  shows "mset (concat (map ug_urls (map (append_url h url) gs)))
    = add_mset url (mset (concat (map ug_urls gs)))"
  using assms
proof (induction gs)
  case Nil
  then show ?case by simp
next
  case (Cons g gs)
  show ?case
  proof (cases "ug_hash g = h")
    case True
    with Cons.prems have "h \<notin> ug_hash ` set gs" by simp
    then have "\<forall>x \<in> set gs. ug_hash x \<noteq> h" by blast
    then have "map (append_url h url) gs = gs" by (intro map_idI) (simp add: append_url_def)
    moreover have "append_url h url g = g\<lparr>ug_urls := ug_urls g @ [url]\<rparr>" using True by (simp add: append_url_def)
    ultimately show ?thesis by (simp del: map_map)
  next
    case False
    then have "append_url h url g = g" by (simp add: append_url_def)
    with False Cons show ?thesis by simp
  qed
qed

lemma add_to_group_urls:
  "distinct (map ug_hash gs) \<Longrightarrow>
     mset (concat (map ug_urls (add_to_group h u url gs))) = add_mset url (mset (concat (map ug_urls gs)))"
  using urls_after_append [of gs h url] by (simp add: add_to_group_def)

lemma group_urls_Inr:
  assumes "group_urls cfg urls gs rj = Inr (gs', rj')" and "groups_wf cfg gs"
  shows "groups_wf cfg gs' \<and> mset (concat (map ug_urls gs')) + mset (map rj_url rj') =
      mset (concat (map ug_urls gs)) + mset (map rj_url rj) + mset urls"
  using assms
proof (induction cfg urls gs rj rule: group_urls.induct)
  case (1 cfg gs rj)
  then show ?case by simp
next
  case (2 cfg url urls gs rj)
  show ?case
  proof (cases "read_item cfg url")
    case (Inr p)
    obtain u h where p: "p = (u, h)" by fastforce
    have run: "group_urls cfg urls (add_to_group h u url gs) rj = Inr (gs', rj')" using "2.prems"(1) Inr p by simp
    have wf: "groups_wf cfg (add_to_group h u url gs)" using add_to_group_wf [OF "2.prems"(2)] Inr p by simp
    have "distinct (map ug_hash gs)" using "2.prems"(2) by (simp add: groups_wf_def)
    with "2.IH"(3) [OF Inr p [symmetric] run wf] show ?thesis by (simp add: add_to_group_urls)
  next
    case (Inl e)
    show ?thesis
    proof (cases e)
      case (Domain d)
      with Inl 2 show ?thesis by (cases "is_validation_error d") simp_all
    qed (use Inl 2 in simp_all)
  qed
qed

section \<open>The collision loop\<close>

text \<open>
  Between two steps of the loop: no hash occurs twice among what is resolved, what is
  tried and what is put off; the resolved codes are distinct, occupied and not in the
  table; and every candidate that the table has is known to be occupied.
\<close>

definition round_ok ::
  "url_hash set \<Rightarrow> link_table \<Rightarrow> (url_hash \<times> short_code) list \<Rightarrow> (url_hash \<times> short_code) list \<Rightarrow> resolution \<Rightarrow> bool" where
  "round_ok H tbl cands nxt rs \<longleftrightarrow>
     distinct (map fst (rs_resolved rs @ cands @ nxt)) \<and> fst ` set (rs_resolved rs @ cands @ nxt) \<subseteq> H \<and>
     list_all (\<lambda>e. CODE_PATTERN (snd e)) (rs_resolved rs @ cands @ nxt) \<and>
     distinct (map snd (rs_resolved rs)) \<and>
     snd ` set (rs_resolved rs) \<subseteq> set (rs_occupied rs) - set (codes_of tbl) \<and>
     snd ` set cands \<inter> set (codes_of tbl) \<subseteq> set (rs_occupied rs)"

lemma dict_set_new: "k \<notin> fst ` set m \<Longrightarrow> dict_set k v m = m @ [(k, v)]"
  by (induction m) auto

lemma next_code_valid:
  assumes "ports_ok cfg" and "next_code cfg bd groups h n = Inr c"
  shows "CODE_PATTERN c"
  using assms by (auto simp: next_code_def ports_ok_def generate_unique_def generate_fresh_def rbind_eq_Inr
      split: option.splits if_splits)

lemma round_ok_take:
  assumes "round_ok H tbl ((h, c) # rest) nxt rs" and "c \<notin> set (rs_occupied rs)"
  shows "round_ok H tbl rest nxt (rs\<lparr>rs_resolved := rs_resolved rs @ [(h, c)], rs_occupied := c # rs_occupied rs\<rparr>)"
  using assms unfolding round_ok_def by auto

lemma round_ok_drop:
  assumes "round_ok H tbl ((h, c) # rest) nxt rs"
  shows "round_ok H tbl rest nxt (rs\<lparr>rs_attempts := a\<rparr>)"
  using assms unfolding round_ok_def by auto

lemma round_ok_retry:
  assumes "round_ok H tbl ((h, c) # rest) nxt rs" and "CODE_PATTERN c'"
  shows "round_ok H tbl rest (dict_set h c' nxt) (rs\<lparr>rs_attempts := a\<rparr>)"
proof -
  have "h \<notin> fst ` set nxt" using assms(1) by (auto simp: round_ok_def)
  then show ?thesis using assms unfolding round_ok_def by (auto simp: dict_set_new)
qed

lemma collision_round_ok:
  assumes "collision_round cfg bd groups cands rs nxt = Inr (rs', nxt')" and "round_ok H tbl cands nxt rs" and "ports_ok cfg"
  shows "round_ok H tbl [] nxt' rs'"
  using assms
proof (induction cfg bd groups cands rs nxt rule: collision_round.induct)
  case (1 cfg bd groups rs nxt)
  then show ?case by simp
next
  case (2 cfg bd groups h c rest rs nxt)
  let ?n = "rs_attempts rs h + 1"
  let ?rs = "rs\<lparr>rs_attempts := (rs_attempts rs)(h := ?n)\<rparr>"
  show ?case
  proof (cases "c \<in> set (rs_occupied rs)")
    case False
    with 2 round_ok_take [OF 2(5) False] show ?thesis by simp
  next
    case occ: True
    show ?thesis
    proof (cases "?n > lc_max_collision_attempts cfg * 2")
      case True
      then have "collision_round cfg bd groups rest ?rs nxt = Inr (rs', nxt')" using occ 2(4) by (simp add: Let_def)
      from 2(2) [OF _ refl refl True this round_ok_drop [OF 2(5)] 2(6)] occ show ?thesis by simp
    next
      case False
      then obtain c' where c': "next_code cfg bd groups h ?n = Inr c'"
        and r: "collision_round cfg bd groups rest ?rs (dict_set h c' nxt) = Inr (rs', nxt')"
        using occ 2(4) by (auto simp: Let_def rbind_eq_Inr)
      from 2(3) [OF _ refl refl False r round_ok_retry [OF 2(5) next_code_valid [OF 2(6) c']] 2(6)] occ
      show ?thesis by simp
    qed
  qed
qed

lemma stored_codes: "set [c. (c, Some l) \<leftarrow> find_by_codes cs tbl] = set cs \<inter> set (codes_of tbl)" (is "?L = ?R")
proof -
  have "c \<in> ?L \<longleftrightarrow> (\<exists>l. (c, Some l) \<in> set (find_by_codes cs tbl))" for c
    by (force split: option.splits)
  then have "c \<in> ?L \<longleftrightarrow> c \<in> ?R" for c unfolding find_by_codes_entry by auto
  then show ?thesis by blast
qed

lemma round_ok_start:
  assumes "round_ok H tbl [] cands rs"
  shows "round_ok H tbl cands [] (rs\<lparr>rs_occupied := [c. (c, Some l) \<leftarrow> find_by_codes (remdups (map snd cands)) tbl] @ rs_occupied rs\<rparr>)"
  using assms stored_codes [of "remdups (map snd cands)" tbl] unfolding round_ok_def by auto

lemma resolve_collisions_ok:
  assumes "resolve_collisions cfg bd groups tbl cands rs = Inr resolved" and "round_ok H tbl [] cands rs" and "ports_ok cfg"
  shows "distinct (map fst resolved) \<and> fst ` set resolved \<subseteq> H \<and> list_all (\<lambda>e. CODE_PATTERN (snd e)) resolved \<and>
    distinct (map snd resolved) \<and> snd ` set resolved \<inter> set (codes_of tbl) = {}"
  using assms
proof (induction cfg bd groups tbl cands rs rule: resolve_collisions.induct)
  case (1 cfg bd groups tbl cands rs)
  show ?case
  proof (cases "cands = []")
    case True
    with 1(2) have "resolved = rs_resolved rs" by (simp add: resolve_collisions.simps)
    with 1(3) True show ?thesis by (auto simp: round_ok_def)
  next
    case False
    let ?rs = "rs\<lparr>rs_occupied := [c. (c, Some l) \<leftarrow> find_by_codes (remdups (map snd cands)) tbl] @ rs_occupied rs\<rparr>"
    from 1(2) False obtain rs2 nxt where r: "collision_round cfg bd groups cands ?rs [] = Inr (rs2, nxt)"
      and more: "resolve_collisions cfg bd groups tbl nxt rs2 = Inr resolved"
      by (subst (asm) resolve_collisions.simps) (auto simp: Let_def split: sum.splits)
    have "round_ok H tbl [] nxt rs2" by (rule collision_round_ok [OF r round_ok_start [OF 1(3)] 1(4)])
    from 1(1) [OF False refl refl r refl more this 1(4)] show ?thesis .
  qed
qed

text \<open>The loop ends with an answer whenever the generator answers.\<close>

lemma collision_round_total:
  assumes "\<And>h n. h \<in> H \<Longrightarrow> \<exists>c. next_code cfg bd groups h n = Inr c" and "fst ` set (cands @ nxt) \<subseteq> H"
  shows "\<exists>rs' nxt'. collision_round cfg bd groups cands rs nxt = Inr (rs', nxt') \<and> fst ` set nxt' \<subseteq> H"
  using assms(2)
proof (induction cands arbitrary: rs nxt)
  case Nil
  then show ?case by simp
next
  case (Cons e rest)
  obtain h c where e: "e = (h, c)" by fastforce
  obtain c' where "next_code cfg bd groups h (rs_attempts rs h + 1) = Inr c'" using assms(1) Cons.prems e by fastforce
  moreover have "fst ` set (rest @ dict_set h c' nxt) \<subseteq> H" "fst ` set (rest @ nxt) \<subseteq> H" using Cons.prems e by (simp_all add: image_Un)
  ultimately show ?case using Cons.IH e by (simp add: Let_def rbind_def)
qed

lemma resolve_collisions_total:
  assumes "\<And>h n. h \<in> H \<Longrightarrow> \<exists>c. next_code cfg bd groups h n = Inr c" and "fst ` set cands \<subseteq> H"
  shows "\<exists>resolved. resolve_collisions cfg bd groups tbl cands rs = Inr resolved"
  using assms
proof (induction cfg bd groups tbl cands rs rule: resolve_collisions.induct)
  case (1 cfg bd groups tbl cands rs)
  let ?rs = "rs\<lparr>rs_occupied := [c. (c, Some l) \<leftarrow> find_by_codes (remdups (map snd cands)) tbl] @ rs_occupied rs\<rparr>"
  from collision_round_total [OF 1(2), where H = H and cands = cands and nxt = "[]" and rs = ?rs] 1(3)
  obtain rs2 nxt where r: "collision_round cfg bd groups cands ?rs [] = Inr (rs2, nxt)" "fst ` set nxt \<subseteq> H" by auto
  show ?case
  proof (cases "cands = []")
    case True
    then show ?thesis by (simp add: resolve_collisions.simps)
  next
    case False
    from 1(1) [OF False refl refl r(1) refl 1(2) r(2)] show ?thesis
      using False r(1) by (subst resolve_collisions.simps) (simp add: Let_def)
  qed
qed

section \<open>The new links\<close>

lemma first_codes_Inr:
  assumes "first_codes cfg gs m = Inr m'" and "ports_ok cfg" and "distinct (map fst m)" and "list_all (\<lambda>e. CODE_PATTERN (snd e)) m"
  shows "fst ` set m' = fst ` set m \<union> ug_hash ` set gs \<and> distinct (map fst m') \<and> list_all (\<lambda>e. CODE_PATTERN (snd e)) m'"
  using assms
proof (induction gs arbitrary: m)
  case Nil
  then show ?case by simp
next
  case (Cons g gs)
  then obtain c where c: "generate_for_url (lc_generate cfg) (lc_idna cfg) (ug_url g) = Inr c"
    and r: "first_codes cfg gs (dict_set (ug_hash g) c m) = Inr m'" by (auto simp: rbind_eq_Inr)
  have "CODE_PATTERN c" using c Cons.prems(2) by (auto simp: generate_for_url_def rbind_eq_Inr ports_ok_def)
  with Cons.prems(4) have "list_all (\<lambda>e. CODE_PATTERN (snd e)) (dict_set (ug_hash g) c m)" by (induction m) auto
  with Cons.IH [OF r] Cons.prems show ?case by auto
qed

definition made_for :: "batch_draws \<Rightarrow> moment \<Rightarrow> owner_id option \<Rightarrow> string option \<Rightarrow> int \<Rightarrow> url_group \<Rightarrow> link \<Rightarrow> bool" where
  "made_for bd now owner guest ttl g l \<longleftrightarrow>
     lk_hash l = ug_hash g \<and> lk_url l = ug_url g \<and> lk_id l = bd_link_id bd (ug_hash g) \<and> lk_created l = now \<and>
     lk_owner l = owner \<and> lk_guest l = guest \<and> lk_clicks l = 0 \<and>
     lk_expires l = (if ttl > 0 then Some (now + ttl * second) else None)"

lemma resolved_pairs:
  "[(g, c). g \<leftarrow> groups, Some c \<leftarrow> [map_of m (ug_hash g)]]
     = map (\<lambda>g. (g, the (map_of m (ug_hash g)))) (filter (\<lambda>g. map_of m (ug_hash g) \<noteq> None) groups)"
  by (induction groups) (auto split: option.split)

lemma create_new_links_Inr:
  assumes "create_new_links cfg now bd tbl groups owner guest ttl = Inr ls" and "ports_ok cfg" and "distinct (map ug_hash groups)"
  shows "\<exists>gs. list_all2 (made_for bd now owner guest ttl) gs ls \<and> subseq gs groups \<and>
     distinct (codes_of ls) \<and> list_all (\<lambda>l. CODE_PATTERN (lk_code l) \<and> lk_code l \<notin> set (codes_of tbl)) ls"
proof (cases "groups = []")
  case True
  with assms(1) show ?thesis by (auto simp: create_new_links_def intro: exI [of _ "[]"])
next
  case False
  with assms(1) obtain m resolved where m: "first_codes cfg groups [] = Inr m"
    and r: "resolve_collisions cfg bd groups tbl m \<lparr>rs_resolved = [], rs_attempts = (\<lambda>_. 0), rs_occupied = []\<rparr> = Inr resolved"
    and ls: "rmap (\<lambda>(g, c). link_create now (bd_link_id bd (ug_hash g)) (ug_hash g) c (ug_url g) owner guest ttl)
        [(g, c). g \<leftarrow> groups, Some c \<leftarrow> [map_of resolved (ug_hash g)]] = Inr ls"
    by (auto simp: create_new_links_def rbind_eq_Inr)
  have "round_ok (ug_hash ` set groups) tbl [] m \<lparr>rs_resolved = [], rs_attempts = (\<lambda>_. 0), rs_occupied = []\<rparr>"
    using first_codes_Inr [OF m assms(2)] by (simp add: round_ok_def)
  note res = resolve_collisions_ok [OF r this assms(2)]
  let ?gs = "filter (\<lambda>g. map_of resolved (ug_hash g) \<noteq> None) groups" and ?c = "\<lambda>g. the (map_of resolved (ug_hash g))"
  have each: "list_all2 (\<lambda>g l. link_create now (bd_link_id bd (ug_hash g)) (ug_hash g) (?c g) (ug_url g) owner guest ttl = Inr l) ?gs ls"
    using ls unfolding resolved_pairs rmap_eq_Inr by (simp add: list_all2_map1)
  then have made: "list_all2 (made_for bd now owner guest ttl) ?gs ls"
    by (rule list_all2_mono) (auto simp: made_for_def dest: link_create_Inr)
  have codes: "codes_of ls = map ?c ?gs"
    using each by (induction rule: list_all2_induct) (auto dest: link_create_Inr)
  have inj: "inj_on ?c (set ?gs)"
  proof (rule inj_onI)
    fix g g' assume g: "g \<in> set ?gs" "g' \<in> set ?gs" "?c g = ?c g'"
    then have "(ug_hash g, ?c g) \<in> set resolved" "(ug_hash g', ?c g) \<in> set resolved" by (fastforce dest: map_of_SomeD)+
    moreover have "inj_on snd (set resolved)" using res by (simp add: distinct_map)
    ultimately have "ug_hash g = ug_hash g'" by (metis fst_conv inj_onD snd_conv)
    moreover have "inj_on ug_hash (set groups)" using assms(3) by (simp add: distinct_map)
    ultimately show "g = g'" using g by (meson filter_is_subset inj_onD subsetD)
  qed
  have in_resolved: "?c g \<in> snd ` set resolved" if "g \<in> set ?gs" for g using that by (force dest: map_of_SomeD)
  have good: "CODE_PATTERN c \<and> c \<notin> set (codes_of tbl)" if "c \<in> snd ` set resolved" for c
    using res that by (auto simp: list_all_iff)
  have "list_all (\<lambda>c. CODE_PATTERN c \<and> c \<notin> set (codes_of tbl)) (map ?c ?gs)"
    unfolding list_all_iff using good [OF in_resolved] by (simp only: set_map ball_simps) (intro ballI)
  then have "list_all (\<lambda>c. CODE_PATTERN c \<and> c \<notin> set (codes_of tbl)) (codes_of ls)" unfolding codes .
  moreover have "distinct ?gs" using assms(3) by (simp add: distinct_map)
  then have "distinct (codes_of ls)" unfolding codes using inj by (simp add: distinct_map)
  moreover have "subseq ?gs groups" by simp
  ultimately show ?thesis using made by (auto simp: list.pred_map o_def)
qed

section \<open>Properties\<close>

text \<open>
  C36. The collision loop of a batch always ends with an answer, given a generator that
  answers: no bound on the number of collisions is assumed. What it settles is safe to
  store: at most one code for each group, all codes different from each other and from
  every code in the table, each a valid short code.
\<close>

theorem collision_loop_settles:
  assumes "ports_ok cfg" and "distinct (map fst m)" and "fst ` set m \<subseteq> ug_hash ` set groups"
    and "list_all (\<lambda>e. CODE_PATTERN (snd e)) m"
    and "\<And>h n. h \<in> ug_hash ` set groups \<Longrightarrow> \<exists>c. next_code cfg bd groups h n = Inr c"
  shows "\<exists>resolved. resolve_collisions cfg bd groups tbl m \<lparr>rs_resolved = [], rs_attempts = (\<lambda>_. 0), rs_occupied = []\<rparr> = Inr resolved \<and>
    distinct (map fst resolved) \<and> fst ` set resolved \<subseteq> ug_hash ` set groups \<and> distinct (map snd resolved) \<and>
    (\<forall>e \<in> set resolved. CODE_PATTERN (snd e) \<and> snd e \<notin> set (codes_of tbl))"
proof -
  let ?rs = "\<lparr>rs_resolved = [], rs_attempts = (\<lambda>_. 0), rs_occupied = []\<rparr>"
  obtain resolved where r: "resolve_collisions cfg bd groups tbl m ?rs = Inr resolved"
    using resolve_collisions_total [OF assms(5,3)] by blast
  have "round_ok (ug_hash ` set groups) tbl [] m ?rs" using assms(2-4) by (simp add: round_ok_def)
  from resolve_collisions_ok [OF r this assms(1)] r show ?thesis by (auto simp: list_all_iff)
qed

definition two_groups :: "url_group list" where
  "two_groups = [\<lparr>ug_hash = ''h1'', ug_url = ''http://a.example/'', ug_urls = [''http://a.example/'']\<rparr>,
     \<lparr>ug_hash = ''h2'', ug_url = ''http://b.example/'', ug_urls = [''http://b.example/'']\<rparr>]"

definition sample_cfg :: link_config where
  "sample_cfg =
     \<lparr>lc_idna = no_idna, lc_generate = (\<lambda>s. Inr ''abc1234''), lc_hash = (\<lambda>u. Inr (replicate 64 (CHR ''a''))),
      lc_base_url = ''https://sho.rt'', lc_allowed_schemes = [''http'', ''https''], lc_max_url_length = 2048,
      lc_allow_internal_targets = False, lc_guest_link_limit = 5, lc_guest_link_window_days = 1,
      lc_default_guest_ttl_seconds = 3600, lc_max_ttl_seconds = 86400, lc_max_collision_attempts = 3\<rparr>"

lemma sample_ports_ok: "ports_ok sample_cfg"
proof -
  have "CODE_PATTERN ''abc1234''" "HASH_PATTERN (replicate 64 (CHR ''a''))" by code_simp+
  then show ?thesis by (simp add: ports_ok_def sample_cfg_def)
qed

text \<open>
  A generator that knows one code only: of two groups one gets it, the other is given up
  after its attempts.
\<close>

theorem collision_loop_settles_witness:
  "\<exists>resolved. resolve_collisions sample_cfg \<lparr>bd_link_id = (\<lambda>h. h), bd_uuid_hex = (\<lambda>h n. [])\<rparr> two_groups []
      [(''h1'', ''abc1234''), (''h2'', ''abc1234'')] \<lparr>rs_resolved = [], rs_attempts = (\<lambda>_. 0), rs_occupied = []\<rparr> = Inr resolved
    \<and> distinct (map snd resolved)"
proof -
  let ?bd = "\<lparr>bd_link_id = (\<lambda>h. h), bd_uuid_hex = (\<lambda>h n. [])\<rparr>"
  let ?m = "[(''h1'', ''abc1234''), (''h2'', ''abc1234'')]"
  have pat: "CODE_PATTERN ''abc1234''" by code_simp
  have norm: "(\<exists>u. normalize no_idna ''http://a.example/'' = Inr u) \<and> (\<exists>u. normalize no_idna ''http://b.example/'' = Inr u)"
  proof
    have "(case normalize no_idna ''http://a.example/'' of Inr _ \<Rightarrow> True | Inl _ \<Rightarrow> False)" by code_simp
    then show "\<exists>u. normalize no_idna ''http://a.example/'' = Inr u" by (auto split: sum.splits)
    have "(case normalize no_idna ''http://b.example/'' of Inr _ \<Rightarrow> True | Inl _ \<Rightarrow> False)" by code_simp
    then show "\<exists>u. normalize no_idna ''http://b.example/'' = Inr u" by (auto split: sum.splits)
  qed
  have total: "\<exists>c. next_code sample_cfg ?bd two_groups h n = Inr c" if "h \<in> ug_hash ` set two_groups" for h n
    using that norm by (auto simp: next_code_def two_groups_def sample_cfg_def generate_unique_def generate_fresh_def rbind_def)
  show ?thesis
    using collision_loop_settles [OF sample_ports_ok _ _ _ total, of ?m "[]"] pat by (auto simp: two_groups_def)
qed

end
