(* ===== verification/Batch_Invariants.thy ===== *)
theory Batch_Invariants
  imports Batch
begin

text \<open>
  What a batch keeps and what it answers. The links it adds are, one after another,
  additions that the single creation could have made (Link_Invariants), the cache stays
  coherent, and every URL of the request gets exactly one answer.
\<close>

section \<open>Adding several links\<close>

text \<open>The links of one batch: one scope, the same moment, fresh codes, identifiers and hashes.\<close>

definition addable :: "link_config \<Rightarrow> moment \<Rightarrow> link_table \<Rightarrow> link list \<Rightarrow> bool" where
  "addable cfg now tbl ls \<longleftrightarrow>
     distinct (map lk_hash ls) \<and> distinct (codes_of (tbl @ ls)) \<and> distinct (ids_of (tbl @ ls)) \<and>
     (\<forall>l \<in> set ls. lk_created l = now \<and> find_live_by_hash now (lk_hash l) (link_scope l) tbl = None) \<and>
     (\<forall>l \<in> set ls. \<forall>g. lk_owner l = None \<longrightarrow> lk_guest l = Some g \<longrightarrow>
        count_guest_links_by_identifier now g (lc_guest_link_window_days cfg) tbl + int (length ls) \<le> lc_guest_link_limit cfg)"

lemma count_guest_append:
  "count_guest_links_by_identifier now g w (tbl @ ls) \<le> count_guest_links_by_identifier now g w tbl + int (length ls)"
  by (simp add: count_guest_links_by_identifier_def)

lemma table_changes_added:
  assumes "distinct (codes_of tbl)" and "distinct (ids_of tbl)" and "addable cfg now tbl ls"
  shows "(table_change cfg now)\<^sup>*\<^sup>* tbl (tbl @ ls)"
  using assms(3)
proof (induction ls rule: rev_induct)
  case Nil
  then show ?case by simp
next
  case (snoc l ls)
  have "addable cfg now tbl ls" using snoc.prems unfolding addable_def by fastforce
  then have "(table_change cfg now)\<^sup>*\<^sup>* tbl (tbl @ ls)" by (rule snoc.IH)
  moreover have "table_change cfg now (tbl @ ls) ((tbl @ ls) @ [l])"
  proof (rule table_change.added)
    have "find_live_by_hash now (lk_hash l) (link_scope l) tbl = None" using snoc.prems by (simp add: addable_def)
    moreover have "lk_hash l \<notin> lk_hash ` set ls" using snoc.prems by (simp add: addable_def)
    then have "\<forall>r \<in> set ls. lk_hash r \<noteq> lk_hash l" by (metis imageI)
    ultimately show "find_live_by_hash now (lk_hash l) (link_scope l) (tbl @ ls) = None"
      by (auto simp: find_live_by_hash_None)
    show "lk_created l = now" using snoc.prems by (simp add: addable_def)
    show "lk_code l \<notin> set (codes_of (tbl @ ls))" "lk_id l \<notin> set (ids_of (tbl @ ls))"
      using snoc.prems by (simp_all add: addable_def)
    show "count_guest_links_by_identifier now g (lc_guest_link_window_days cfg) (tbl @ ls) < lc_guest_link_limit cfg"
      if "lk_owner l = None" "lk_guest l = Some g" for g
    proof -
      have "count_guest_links_by_identifier now g (lc_guest_link_window_days cfg) tbl + int (length (ls @ [l])) \<le> lc_guest_link_limit cfg"
        using snoc.prems that by (simp add: addable_def)
      with count_guest_append [of now g "lc_guest_link_window_days cfg" tbl ls] show ?thesis by simp
    qed
  qed
  ultimately show ?case by simp
qed

lemma table_changes_one_live_link:
  "(table_change cfg now)\<^sup>*\<^sup>* tbl tbl' \<Longrightarrow> one_live_link now tbl \<Longrightarrow> one_live_link now tbl'"
  by (induction rule: rtranclp_induct) (auto intro: table_change_one_live_link)

lemma table_changes_within_quota:
  "(table_change cfg now)\<^sup>*\<^sup>* tbl tbl' \<Longrightarrow> within_quota cfg now tbl \<Longrightarrow> within_quota cfg now tbl'"
  by (induction rule: rtranclp_induct) (auto intro: table_change_within_quota)

section \<open>Looking up\<close>

lemma item_success_url: "item_success url c u b k n f d e i = Inr x \<Longrightarrow> bi_url x = url"
  by (auto simp: item_success_def rbind_eq_Inr)

lemma item_success_no_conflict: "item_success url c u b k n f d e i = Inl x \<Longrightarrow> \<not> is_link_conflict x"
  by (auto simp: item_success_def rbind_eq_Inl rbind_eq_Inr build_short_url_def is_link_conflict_def split: if_splits)

lemma item_error_url [simp]: "bi_url (item_error url e) = url"
  by (simp add: item_error_def)

lemma rmap_urls:
  assumes "rmap f xs = Inr ys" and "\<And>x y. f x = Inr y \<Longrightarrow> bi_url y = u x"
  shows "map bi_url ys = map u xs"
  using assms(1) unfolding rmap_eq_Inr
  by (induction rule: list_all2_induct) (simp_all add: assms(2))

lemma known_items_urls:
  assumes "known_items base fc found gs = Inr items"
  shows "map bi_url items = concat (map (\<lambda>g. if found (ug_hash g) = None then [] else ug_urls g) gs)"
proof -
  let ?ps = "concat (map (\<lambda>g. case found (ug_hash g) of Some l \<Rightarrow> map (\<lambda>url. (url, l)) (ug_urls g) | None \<Rightarrow> []) gs)"
  have "map bi_url items = map fst ?ps"
    using assms unfolding known_items_def by (rule rmap_urls) (auto dest: item_success_url)
  also have "\<dots> = concat (map (\<lambda>g. if found (ug_hash g) = None then [] else ug_urls g) gs)"
    by (induction gs) (auto simp: o_def split: option.split)
  finally show ?thesis .
qed

lemma urls_split:
  "mset (concat (map (\<lambda>g. if P g then [] else ug_urls g) gs)) + mset (concat (map ug_urls (filter P gs)))
     = mset (concat (map ug_urls gs))"
  by (induction gs) auto

definition answers_for :: "moment \<Rightarrow> dedup_scope \<Rightarrow> link_table \<Rightarrow> url_hash \<Rightarrow> link \<Rightarrow> bool" where
  "answers_for now sc tbl h l \<longleftrightarrow> l \<in> set tbl \<and> lk_hash l = h \<and> link_scope l = sc \<and> \<not> is_expired now l"

lemma map_of_find_by_codes_Some:
  "map_of (find_by_codes cs tbl) c = Some (Some l) \<Longrightarrow> l \<in> set tbl \<and> lk_code l = c"
  by (auto simp: map_of_find_by_codes dest: find_by_code_Some split: if_splits)

lemma fetch_Inr:
  assumes "fetch ops now base gs sc tbl c = (Inr (items, missing, found), c')" and "scope_wf sc"
  shows "mset (map bi_url items) + mset (concat (map ug_urls missing)) = mset (concat (map ug_urls gs))
    \<and> subseq missing gs \<and> (\<forall>g \<in> set missing. find_live_by_hash now (ug_hash g) sc tbl = None)"
proof (cases "gs = []")
  case True
  with assms(1) show ?thesis by (simp add: fetch_def)
next
  case False
  obtain cm c1 where cm: "co_get_by_hashes ops now (map ug_hash gs) sc c = (cm, c1)" by fastforce
  obtain confirmed c2 where cf: "confirm_cached ops now sc cm tbl c1 = (confirmed, c2)" by fastforce
  let ?P = "\<lambda>g. map_of confirmed (ug_hash g) = None"
  let ?miss = "filter ?P gs"
  let ?db = "\<lambda>h. case map_of (find_live_by_hashes now (map ug_hash ?miss) sc tbl) h of Some (Some l) \<Rightarrow> Some l | _ \<Rightarrow> None"
  have db: "?db (ug_hash g) = find_live_by_hash now (ug_hash g) sc tbl" if "g \<in> set ?miss" for g
    using that by (auto simp: map_of_find_live_by_hashes split: option.split)
  from assms(1) False obtain ci where ci: "known_items base True (map_of confirmed) gs = Inr ci"
    and rest: "(if ?miss = [] then Inr (ci, [], [])
        else rbind (known_items base False ?db ?miss) (\<lambda>db_results. Inr
                (ci @ db_results, filter (\<lambda>g. ?db (ug_hash g) = None) ?miss,
                 [l. g \<leftarrow> ?miss, Some l \<leftarrow> [?db (ug_hash g)]]))) = Inr (items, missing, found)"
    by (auto simp: fetch_def cm cf Let_def rbind_eq_Inr)
  have a: "mset (map bi_url ci) + mset (concat (map ug_urls ?miss)) = mset (concat (map ug_urls gs))"
    unfolding known_items_urls [OF ci] by (rule urls_split)
  show ?thesis
  proof (cases "?miss = []")
    case True
    with rest a show ?thesis by simp
  next
    case False
    with rest obtain di where di: "known_items base False ?db ?miss = Inr di" "items = ci @ di"
      "missing = filter (\<lambda>g. ?db (ug_hash g) = None) ?miss" by (auto simp: rbind_eq_Inr)
    have "mset (map bi_url di) + mset (concat (map ug_urls missing)) = mset (concat (map ug_urls ?miss))"
      unfolding known_items_urls [OF di(1)] di(3) by (rule urls_split)
    with a di(2) have "mset (map bi_url items) + mset (concat (map ug_urls missing)) = mset (concat (map ug_urls gs))" by (simp add: add.assoc)
    moreover have "subseq missing gs" unfolding di(3) using subseq_filter_left subseq_order.trans by blast
    moreover have "find_live_by_hash now (ug_hash g) sc tbl = None" if "g \<in> set missing" for g
      using that db [of g] unfolding di(3) by simp
    ultimately show ?thesis by blast
  qed
qed

section \<open>Creating and answering\<close>

lemma apply_guest_quota_split:
  assumes "apply_guest_quota cfg gs remaining = (tc, qr)"
  shows "mset (concat (map ug_urls tc)) + mset (map bi_url qr) = mset (concat (map ug_urls gs)) \<and> subseq tc gs
    \<and> (\<forall>n. remaining = Some n \<longrightarrow> 0 \<le> n \<longrightarrow> int (length tc) \<le> n)"
proof -
  have "concat (map ug_urls gs) = concat (map ug_urls (take k gs)) @ concat (map ug_urls (drop k gs))" for k
    by (metis append_take_drop_id concat_append map_append)
  then have "mset (concat (map ug_urls (take k gs))) + mset (concat (map ug_urls (drop k gs))) = mset (concat (map ug_urls gs))" for k
    by (metis mset_append)
  then show ?thesis
    using assms by (auto simp: apply_guest_quota_def multiset.map_comp o_def take_is_prefix prefix_imp_subseq split: option.splits if_splits)
qed

lemma new_items_urls:
  assumes "new_items found base g = Inr items"
  shows "map bi_url items = ug_urls g"
proof (cases "found (ug_hash g)")
  case None
  with assms show ?thesis by (auto simp: new_items_def o_def)
next
  case (Some l)
  with assms obtain url urls x xs where g: "ug_urls g = url # urls" "items = x # xs"
    and x: "item_success url (lk_code l) (lk_url l) base (lk_clicks l) True False None (lk_expires l) (Some (lk_id l)) = Inr x"
    and xs: "rmap (\<lambda>u. item_success u (lk_code l) (lk_url l) base (lk_clicks l) False False (Some (lk_url l))
        (lk_expires l) None) urls = Inr xs"
    by (auto simp: new_items_def rbind_eq_Inr split: list.splits)
  have "map bi_url xs = map (\<lambda>u. u) urls" by (rule rmap_urls [OF xs]) (rule item_success_url)
  with g item_success_url [OF x] show ?thesis by simp
qed

lemma build_from_new_links_urls:
  assumes "build_from_new_links gs saved base = Inr items"
  shows "map bi_url items = concat (map ug_urls gs)"
proof -
  obtain itemss where r: "items = concat itemss"
    and m: "list_all2 (\<lambda>g xs. new_items (map_of (rev (map (\<lambda>l. (lk_hash l, l)) saved))) base g = Inr xs) gs itemss"
    using assms by (auto simp: build_from_new_links_def rbind_eq_Inr rmap_eq_Inr)
  from m have "map bi_url (concat itemss) = concat (map ug_urls gs)"
    by (induction rule: list_all2_induct) (simp_all add: new_items_urls)
  with r show ?thesis by simp
qed

lemma subseq_distinct_map: "subseq xs ys \<Longrightarrow> distinct (map f ys) \<Longrightarrow> distinct (map f xs)"
  by (metis distinct_nthsI nths_map subseq_conv_nths)

lemma made_for_facts:
  assumes "list_all2 (made_for bd now owner guest ttl) gs ls"
  shows "map lk_hash ls = map ug_hash gs" "\<forall>l \<in> set ls. lk_created l = now \<and> lk_owner l = owner \<and> lk_guest l = guest
      \<and> lk_expires l = (if ttl > 0 then Some (now + ttl * second) else None) \<and> (\<exists>g \<in> set gs. lk_hash l = ug_hash g \<and> lk_url l = ug_url g)"
  using assms by (induction rule: list_all2_induct) (auto simp: made_for_def)

lemma save_many_links_Inr:
  "save_many_links uids ls tbl = Inr (ls', tbl') \<Longrightarrow> ls' = ls \<and> tbl' = tbl @ ls \<and> distinct (ids_of (tbl @ ls))"
  by (auto simp: save_many_links_def split: if_splits)

lemma created_links_wf:
  assumes "create_new_links cfg now bd tbl tc owner guest ttl = Inr ls" and "ports_ok cfg" and "groups_wf cfg gs"
    and "subseq tc gs" and "case owner of None \<Rightarrow> True | Some i \<Rightarrow> strip i \<noteq> []"
  shows "list_all link_wf ls"
proof -
  have dist: "distinct (map ug_hash tc)" using assms(3) subseq_distinct_map [OF assms(4)] unfolding groups_wf_def by blast
  from create_new_links_Inr [OF assms(1,2) dist] obtain gs' where
    gs': "list_all2 (made_for bd now owner guest ttl) gs' ls" "subseq gs' tc"
      "list_all (\<lambda>l. CODE_PATTERN (lk_code l) \<and> lk_code l \<notin> set (codes_of tbl)) ls" by blast
  note f = made_for_facts [OF gs'(1)]
  have in_tc: "set gs' \<subseteq> set tc" "set tc \<subseteq> set gs" using gs'(2) assms(4) notin_set_nthsI subseq_conv_nths by (metis subsetI)+
  have "HASH_PATTERN (lk_hash l)" if "l \<in> set ls" for l
  proof -
    from f(2) that in_tc obtain g where "g \<in> set gs" "lk_hash l = ug_hash g" by (meson subsetD)
    with assms(3) obtain url where "read_item cfg url = Inr (ug_url g, lk_hash l)" unfolding groups_wf_def by metis
    then show ?thesis using assms(2) by (auto simp: read_item_def rbind_eq_Inr ports_ok_def)
  qed
  then show ?thesis using gs'(3) f(2) assms(5) by (auto simp: list_all_iff link_wf_def split: option.splits)
qed

lemma stored_links_ok:
  assumes "create_new_links cfg now bd tbl tc owner guest ttl = Inr ls" and "ports_ok cfg" and "groups_wf cfg gs"
    and "subseq tc gs" and "\<forall>g \<in> set tc. find_live_by_hash now (ug_hash g) sc tbl = None"
    and "table_wf tbl" and "distinct (ids_of (tbl @ ls))"
    and "case owner of Some i \<Rightarrow> strip i \<noteq> [] \<and> guest = None \<and> sc = for_owner i | None \<Rightarrow> sc = for_guest guest"
    and "\<forall>g. guest = Some g \<longrightarrow>
       count_guest_links_by_identifier now g (lc_guest_link_window_days cfg) tbl + int (length tc) \<le> lc_guest_link_limit cfg \<or> tc = []"
  shows "addable cfg now tbl ls \<and> table_wf (tbl @ ls) \<and> (\<forall>l \<in> set ls. link_scope l = sc)"
proof -
  have dist: "distinct (map ug_hash tc)" using assms(3) subseq_distinct_map [OF assms(4)] unfolding groups_wf_def by blast
  from create_new_links_Inr [OF assms(1,2) dist] obtain gs' where
    gs': "list_all2 (made_for bd now owner guest ttl) gs' ls" "subseq gs' tc" "distinct (codes_of ls)"
      "list_all (\<lambda>l. CODE_PATTERN (lk_code l) \<and> lk_code l \<notin> set (codes_of tbl)) ls" by blast
  note f = made_for_facts [OF gs'(1)]
  have in_tc: "set gs' \<subseteq> set tc" "set tc \<subseteq> set gs" using gs'(2) assms(4) notin_set_nthsI subseq_conv_nths by (metis subsetI)+
  have len: "length ls \<le> length tc" using gs'(1,2) by (metis list_all2_lengthD list_emb_length)
  have sc: "link_scope l = sc" if "l \<in> set ls" for l
    using f(2) that assms(8) by (auto simp: link_scope_def split: option.splits)
  have "set (codes_of tbl) \<inter> set (codes_of ls) = {}"
    using gs'(4) unfolding list_all_iff by (intro Int_emptyI) (metis imageE set_map)
  then have codes: "distinct (codes_of (tbl @ ls))" using gs'(3) assms(6) by (simp add: table_wf_def)
  have "case owner of None \<Rightarrow> True | Some i \<Rightarrow> strip i \<noteq> []" using assms(8) by (auto split: option.splits)
  then have "list_all link_wf ls" by (rule created_links_wf [OF assms(1-4)])
  then have wf: "table_wf (tbl @ ls)" using assms(6,7) codes by (simp add: table_wf_def)
  have "find_live_by_hash now (lk_hash l) (link_scope l) tbl = None" if "l \<in> set ls" for l
    using f(2) that assms(5) in_tc sc [OF that] by (metis subsetD)
  moreover have "count_guest_links_by_identifier now g (lc_guest_link_window_days cfg) tbl + int (length ls) \<le> lc_guest_link_limit cfg"
    if "l \<in> set ls" "lk_guest l = Some g" for l g
  proof -
    have "tc \<noteq> []" using len that(1) by auto
    moreover have "guest = Some g" using f(2) that by metis
    ultimately show ?thesis using assms(9) len by fastforce
  qed
  ultimately have "addable cfg now tbl ls"
    unfolding addable_def using codes assms(7) f subseq_distinct_map [OF gs'(2) dist] by simp
  with wf sc show ?thesis by blast
qed

text \<open>Each stored link answers for one of the groups, and no group has two.\<close>

definition stored_for :: "url_group list \<Rightarrow> link list \<Rightarrow> bool" where
  "stored_for tc saved \<longleftrightarrow> distinct (map ug_hash tc) \<and> distinct (map lk_hash saved) \<and> lk_hash ` set saved \<subseteq> ug_hash ` set tc"

lemma create_new_links_stored_for:
  assumes "create_new_links cfg now bd tbl tc owner guest ttl = Inr ls" and "ports_ok cfg" and "distinct (map ug_hash tc)"
  shows "stored_for tc ls"
proof -
  from create_new_links_Inr [OF assms] obtain gs' where
    gs': "list_all2 (made_for bd now owner guest ttl) gs' ls" "subseq gs' tc" by blast
  have h: "map lk_hash ls = map ug_hash gs'" by (rule made_for_facts(1) [OF gs'(1)])
  have "set gs' \<subseteq> set tc" using gs'(2) notin_set_nthsI subseq_conv_nths by (metis subsetI)
  then have "set (map lk_hash ls) \<subseteq> ug_hash ` set tc" unfolding h by auto
  moreover have "distinct (map lk_hash ls)" unfolding h by (rule subseq_distinct_map [OF gs'(2) assms(3)])
  ultimately show ?thesis using assms(3) by (simp add: stored_for_def)
qed

lemma item_success_flags:
  "item_success url c u b k n f d e i = Inr x \<Longrightarrow> bi_is_new x = n \<and> bi_success x \<and> bi_from_cache x = f"
  by (auto simp: item_success_def rbind_eq_Inr)

lemma item_error_flags [simp]: "\<not> bi_is_new (item_error url e)" "\<not> bi_success (item_error url e)"
  by (simp_all add: item_error_def)

lemma known_items_old: "known_items base fc found gs = Inr items \<Longrightarrow> list_all (\<lambda>i. \<not> bi_is_new i) items"
proof -
  assume "known_items base fc found gs = Inr items"
  then have "list_all2 (\<lambda>x i. \<not> bi_is_new i)
      (concat (map (\<lambda>g. case found (ug_hash g) of Some l \<Rightarrow> map (\<lambda>url. (url, l)) (ug_urls g) | None \<Rightarrow> []) gs)) items"
    unfolding known_items_def rmap_eq_Inr by (rule list_all2_mono) (auto dest: item_success_flags)
  then show ?thesis by (induction rule: list_all2_induct) simp_all
qed

lemma fetch_old: "fetch ops now base gs sc tbl c = (Inr (items, missing, found), c') \<Longrightarrow> list_all (\<lambda>i. \<not> bi_is_new i) items"
  by (auto simp: fetch_def Let_def rbind_eq_Inr dest: known_items_old split: prod.splits if_splits)

lemma apply_guest_quota_old: "apply_guest_quota cfg gs remaining = (tc, qr) \<Longrightarrow> list_all (\<lambda>i. \<not> bi_is_new i) qr"
  by (auto simp: apply_guest_quota_def list_all_iff split: option.splits if_splits)

lemma new_items_new:
  assumes "new_items found base g = Inr xs"
  shows "count_items bi_is_new xs = (if found (ug_hash g) = None then 0 else 1)"
proof (cases "found (ug_hash g)")
  case None
  with assms have "list_all (\<lambda>i. \<not> bi_is_new i) xs" by (auto simp: new_items_def list_all_iff)
  with None show ?thesis by (simp add: count_items_def list_all_iff)
next
  case (Some l)
  with assms obtain url urls x ys where g: "xs = x # ys"
    and x: "item_success url (lk_code l) (lk_url l) base (lk_clicks l) True False None (lk_expires l) (Some (lk_id l)) = Inr x"
    and ys: "rmap (\<lambda>u. item_success u (lk_code l) (lk_url l) base (lk_clicks l) False False (Some (lk_url l))
        (lk_expires l) None) urls = Inr ys"
    by (auto simp: new_items_def rbind_eq_Inr split: list.splits)
  have "list_all2 (\<lambda>u i. \<not> bi_is_new i) urls ys"
    using ys unfolding rmap_eq_Inr by (rule list_all2_mono) (auto dest: item_success_flags)
  then have "list_all (\<lambda>i. \<not> bi_is_new i) ys" by (induction rule: list_all2_induct) simp_all
  with Some g item_success_flags [OF x] show ?thesis by (simp add: count_items_def list_all_iff)
qed

lemma build_from_new_links_new:
  assumes "build_from_new_links tc saved base = Inr items" and "stored_for tc saved"
  shows "count_items bi_is_new items = length saved"
proof -
  let ?found = "map_of (rev (map (\<lambda>l. (lk_hash l, l)) saved))"
  obtain itemss where r: "items = concat itemss" and m: "list_all2 (\<lambda>g xs. new_items ?found base g = Inr xs) tc itemss"
    using assms(1) by (auto simp: build_from_new_links_def rbind_eq_Inr rmap_eq_Inr)
  let ?hit = "filter (\<lambda>h. h \<in> lk_hash ` set saved) (map ug_hash tc)"
  have found: "?found h = None \<longleftrightarrow> h \<notin> lk_hash ` set saved" for h
    by (simp add: map_of_eq_None_iff image_image)
  from m have "count_items bi_is_new (concat itemss) = length ?hit"
    by (induction rule: list_all2_induct) (simp_all add: count_items_def new_items_new [unfolded count_items_def] found)
  also have "\<dots> = card (set ?hit)"
    using assms(2) by (intro distinct_card [symmetric] distinct_filter) (simp add: stored_for_def)
  also have "set ?hit = set (map lk_hash saved)" using assms(2) by (auto simp: stored_for_def)
  also have "card \<dots> = length saved" using assms(2) unfolding stored_for_def by (metis distinct_card length_map)
  finally show ?thesis using r by simp
qed

lemma guest_allowance_nonneg: "0 \<le> guest_allowance now g limit w tbl"
  by (simp add: guest_allowance_def links_left_for_guest_def)

context link_cache
begin

lemma confirm_cached_coh:
  assumes "confirm_cached ops now sc cm tbl c = (confirmed, c')" and "coh tbl c"
  shows "coh tbl c'"
proof -
  have del: "coh tbl (snd (co_delete ops l k))" if "coh tbl k" for l k
    by (rule coh_delete(1) [OF that silent_empty])
  have "coh tbl (snd (fold (confirm_step ops now sc stored) cands acc))" if "coh tbl (snd acc)" for stored cands acc
    using that
  proof (induction cands arbitrary: acc)
    case Nil
    then show ?case by simp
  next
    case (Cons e cands)
    then have "coh tbl (snd (confirm_step ops now sc stored e acc))"
      by (auto simp: confirm_step_def del split: option.split)
    then show ?case using Cons.IH by simp
  qed
  from this [of "([], c)"] assms show ?thesis by (metis confirm_cached_def snd_conv)
qed

lemma fetch_coh:
  assumes "fetch ops now base gs sc tbl c = (r, c')" and "coh tbl c"
  shows "coh tbl c'"
proof (cases "gs = []")
  case True
  with assms show ?thesis by (simp add: fetch_def)
next
  case False
  obtain cm c1 where cm: "co_get_by_hashes ops now (map ug_hash gs) sc c = (cm, c1)" by fastforce
  obtain cf c2 where cf: "confirm_cached ops now sc cm tbl c1 = (cf, c2)" by fastforce
  from assms(1) False cm cf have "c' = c2" by (simp add: fetch_def Let_def)
  with confirm_cached_coh [OF cf coh_get_by_hashes [OF assms(2) cm]] show ?thesis by simp
qed

definition batch_stored ::
  "link_config \<Rightarrow> moment \<Rightarrow> url_group list \<Rightarrow> dedup_scope \<Rightarrow> 'c service \<Rightarrow> (exn, batch_outcome) result \<Rightarrow> 'c service \<Rightarrow> bool" where
  "batch_stored cfg now gs sc st r st' \<longleftrightarrow> ok st' \<and>
     (case r of
        Inl e \<Rightarrow> sv_db st' = sv_db st
      | Inr (fetched, tc, found, qr, saved) \<Rightarrow>
          (table_change cfg now)\<^sup>*\<^sup>* (links_in st) (links_in st') \<and> links_in st' = links_in st @ saved \<and>
          (\<forall>l \<in> set saved. link_scope l = sc \<and> lk_created l = now) \<and> stored_for tc saved \<and>
          list_all (\<lambda>i. \<not> bi_is_new i) (fetched @ qr) \<and>
          mset (map bi_url fetched) + mset (concat (map ug_urls tc)) + mset (map bi_url qr) = mset (concat (map ug_urls gs)))"

lemma look_up_and_create_ok:
  assumes run: "look_up_and_create ops cfg now bd gs sc owner guest ttl st = (r, st')" and ok: "ok st" and ports: "ports_ok cfg"
    and gs: "groups_wf cfg gs"
    and who: "case owner of Some i \<Rightarrow> strip i \<noteq> [] \<and> guest = None \<and> sc = for_owner i | None \<Rightarrow> sc = for_guest guest"
  shows "batch_stored cfg now gs sc st r st'"
proof -
  have wf: "table_wf (links_in st)" and coh: "coh (links_in st) (sv_cache st)" using ok by (simp_all add: ok_def)
  have d: "distinct (codes_of (links_in st))" "distinct (ids_of (links_in st))" using wf by (simp_all add: table_wf_def)
  have swf: "scope_wf sc" using who by (auto simp: scope_wf_def for_owner_def for_guest_def DedupScope_def split: option.splits)
  obtain fr c where fr: "fetch ops now (lc_base_url cfg) gs sc (links_in st) (sv_cache st) = (fr, c)" by fastforce
  have c: "coh (links_in st) c" by (rule fetch_coh [OF fr coh])
  show ?thesis
  proof (cases fr)
    case (Inl e)
    with run fr c wf show ?thesis by (auto simp: look_up_and_create_def ok_def batch_stored_def)
  next
    case (Inr p)
    then obtain fetched missing found where p: "fr = Inr (fetched, missing, found)" by (cases p) auto
    note f = fetch_Inr [OF fr [unfolded p] swf]
    let ?rem = "map_option (\<lambda>g. guest_allowance now g (lc_guest_link_limit cfg) (lc_guest_link_window_days cfg) (links_in st)) guest"
    obtain tc qr where q: "apply_guest_quota cfg missing ?rem = (tc, qr)" by fastforce
    note aq = apply_guest_quota_split [OF q]
    let ?save = "rbind (create_new_links cfg now bd (links_in st) tc owner guest ttl) (\<lambda>new_links.
                    if new_links = [] then Inr ([], links_in st)
                    else save_many_links (map ur_id (db_users (sv_db st))) new_links (links_in st))"
    show ?thesis
    proof (cases ?save)
      case (Inl e)
      with run fr p q c wf show ?thesis by (auto simp: look_up_and_create_def ok_def batch_stored_def Let_def)
    next
      case sv: (Inr z)
      then obtain saved tbl where z: "?save = Inr (saved, tbl)" by (cases z) auto
      then obtain ls where ls: "create_new_links cfg now bd (links_in st) tc owner guest ttl = Inr ls"
        and s: "saved = ls" "tbl = links_in st @ ls" "distinct (ids_of (links_in st @ ls))"
        using d by (auto simp: rbind_eq_Inr dest: save_many_links_Inr split: if_splits)
      have quota: "\<forall>g. guest = Some g \<longrightarrow> count_guest_links_by_identifier now g (lc_guest_link_window_days cfg) (links_in st)
          + int (length tc) \<le> lc_guest_link_limit cfg \<or> tc = []"
      proof (intro allI impI)
        fix g assume g: "guest = Some g"
        with aq guest_allowance_nonneg have
          "int (length tc) \<le> guest_allowance now g (lc_guest_link_limit cfg) (lc_guest_link_window_days cfg) (links_in st)" by simp
        then show "count_guest_links_by_identifier now g (lc_guest_link_window_days cfg) (links_in st)
          + int (length tc) \<le> lc_guest_link_limit cfg \<or> tc = []"
          by (auto simp: guest_allowance_def links_left_for_guest_def max_def split: if_splits)
      qed
      have sub: "subseq tc gs" using aq f subseq_order.trans by blast
      have fresh: "\<forall>g \<in> set tc. find_live_by_hash now (ug_hash g) sc (links_in st) = None"
        using aq f notin_set_nthsI subseq_conv_nths by metis
      note st = stored_links_ok [OF ls ports gs sub fresh wf s(3) who quota]
      have "coh (links_in st @ ls) c" by (rule coh_alike [OF c answers_alike_append])
      with run fr p q z s st table_changes_added [OF d] f aq have
        "r = Inr (fetched, tc, found, qr, saved)" "ok st'" "links_in st' = links_in st @ saved"
        "(table_change cfg now)\<^sup>*\<^sup>* (links_in st) (links_in st')"
        by (auto simp: look_up_and_create_def ok_def Let_def)
      moreover have "\<forall>l \<in> set saved. link_scope l = sc \<and> lk_created l = now"
        using st s(1) by (simp add: addable_def)
      moreover have "mset (map bi_url fetched) + mset (concat (map ug_urls tc)) + mset (map bi_url qr) = mset (concat (map ug_urls gs))"
        using f aq by (metis add.assoc)
      moreover have "stored_for tc saved"
        using create_new_links_stored_for [OF ls ports] gs subseq_distinct_map [OF sub] s(1) unfolding groups_wf_def by blast
      moreover have "list_all (\<lambda>i. \<not> bi_is_new i) (fetched @ qr)"
        using fetch_old fr p apply_guest_quota_old [OF q] by auto
      ultimately show ?thesis by (simp add: batch_stored_def)
    qed
  qed
qed

lemma batch_answer_urls:
  assumes "batch_answer cfg invalid (fetched, tc, found, qr, saved) = Inr resp"
  shows "mset (map bi_url (br_items resp)) =
    mset (map bi_url fetched) + mset (concat (map ug_urls tc)) + mset (map bi_url qr) + mset (map bi_url invalid)"
proof -
  from assms obtain new_results where n: "build_from_new_links tc saved (lc_base_url cfg) = Inr new_results"
    and resp: "resp = batch_from_results (fetched @ new_results @ qr @ invalid)"
    by (auto simp: batch_answer_def rbind_eq_Inr split: if_splits)
  have "mset (map bi_url new_results) = mset (concat (map ug_urls tc))" using build_from_new_links_urls [OF n] by simp
  then show ?thesis using resp by (simp add: batch_from_results_def)
qed

lemma batch_answer_new:
  assumes "batch_answer cfg invalid (fetched, tc, found, qr, saved) = Inr resp" and "stored_for tc saved"
    and "list_all (\<lambda>i. \<not> bi_is_new i) (fetched @ qr @ invalid)"
  shows "br_new_count resp = length saved"
proof -
  from assms(1) obtain new_results where n: "build_from_new_links tc saved (lc_base_url cfg) = Inr new_results"
    and resp: "resp = batch_from_results (fetched @ new_results @ qr @ invalid)"
    by (auto simp: batch_answer_def rbind_eq_Inr split: if_splits)
  have old: "count_items bi_is_new xs = 0" if "list_all (\<lambda>i. \<not> bi_is_new i) xs" for xs
    using that by (simp add: count_items_def list_all_iff)
  have "count_items bi_is_new (xs @ ys) = count_items bi_is_new xs + count_items bi_is_new ys" for xs ys
    by (simp add: count_items_def)
  then show ?thesis using resp build_from_new_links_new [OF n assms(2)] assms(3) old by (simp add: batch_from_results_def)
qed

lemma batch_owner:
  assumes "(case cx_current_user cx of None \<Rightarrow> Inr None | Some i \<Rightarrow> rbind (OwnerID i) (\<lambda>o'. Inr (Some o'))) = Inr owner"
    and "guest = (if owner = None then cx_remote_addr cx else None)"
    and "sc = (case owner of Some i \<Rightarrow> for_owner i | None \<Rightarrow> for_guest guest)"
  shows "case owner of Some i \<Rightarrow> strip i \<noteq> [] \<and> guest = None \<and> sc = for_owner i | None \<Rightarrow> sc = for_guest guest"
    "sc = requester_scope cx"
  using assms by (auto simp: result_simps requester_scope_def split: option.splits)

lemma batch_attempts_ok:
  assumes run: "retry_conflicts (\<lambda>attempt. look_up_and_create ops cfg now (bds attempt) gs sc owner guest ttl)
      (Domain (LinkConflictError ex)) ns st = (r, st')"
    and ok: "ok st" and ports: "ports_ok cfg" and gs: "groups_wf cfg gs"
    and who: "case owner of Some i \<Rightarrow> strip i \<noteq> [] \<and> guest = None \<and> sc = for_owner i | None \<Rightarrow> sc = for_guest guest"
  shows "batch_stored cfg now gs sc st r st'"
proof -
  let ?once = "\<lambda>attempt. look_up_and_create ops cfg now (bds attempt) gs sc owner guest ttl"
  let ?Q = "\<lambda>s. sv_db s = sv_db st \<and> ok s"
  have once: "batch_stored cfg now gs sc st r1 s2" if "?Q s1" "?once n s1 = (r1, s2)" for n s1 r1 s2
    using look_up_and_create_ok [OF that(2) _ ports gs who] that(1) unfolding batch_stored_def by (cases r1) auto
  then have "?Q s2" if "?Q s1" "?once n s1 = (Inl e, s2)" for n s1 e s2
    using that by (fastforce simp: batch_stored_def)
  with retry_conflicts_cases [OF run, of ?Q] ok
  have "(\<exists>n s1. ?Q s1 \<and> ?once n s1 = (r, st')) \<or> (r = Inl (Domain (LinkConflictError ex)) \<and> ?Q st')" by blast
  then show ?thesis using once by (auto simp: batch_stored_def)
qed

lemma batch_create_links_ok:
  assumes run: "batch_create_links ops cfg batch_limit now bds urls cx st = (r, st')" and ok: "ok st" and ports: "ports_ok cfg"
  shows "ok st' \<and> (table_change cfg now)\<^sup>*\<^sup>* (links_in st) (links_in st') \<and>
    (\<exists>ls. links_in st' = links_in st @ ls \<and> (\<forall>l \<in> set ls. link_scope l = requester_scope cx \<and> lk_created l = now) \<and>
       (\<forall>resp. r = Inr resp \<longrightarrow> mset (map bi_url (br_items resp)) = mset urls \<and> br_new_count resp = length ls))"
proof -
  let ?owner = "case cx_current_user cx of None \<Rightarrow> Inr None | Some i \<Rightarrow> rbind (OwnerID i) (\<lambda>o'. Inr (Some o'))"
  consider (empty) "urls = []" | (big) "urls \<noteq> []" "length urls > batch_limit"
    | (bad) e where "urls \<noteq> []" "\<not> length urls > batch_limit" "group_urls cfg urls [] [] = Inl e"
    | (none) rej where "urls \<noteq> []" "\<not> length urls > batch_limit" "group_urls cfg urls [] [] = Inr ([], rej)"
    | (nobody) gs rej e where "urls \<noteq> []" "\<not> length urls > batch_limit" "group_urls cfg urls [] [] = Inr (gs, rej)" "gs \<noteq> []" "?owner = Inl e"
    | (go) gs rej owner where "urls \<noteq> []" "\<not> length urls > batch_limit" "group_urls cfg urls [] [] = Inr (gs, rej)" "gs \<noteq> []" "?owner = Inr owner"
    by (cases "group_urls cfg urls [] []"; cases ?owner) force+
  then show ?thesis
  proof cases
    case empty
    with run ok show ?thesis by (auto simp: batch_create_links_def batch_from_results_def count_items_def)
  next
    case big
    with run ok show ?thesis by (auto simp: batch_create_links_def)
  next
    case bad
    with run ok show ?thesis by (auto simp: batch_create_links_def)
  next
    case none
    have new: "count_items bi_is_new (map (\<lambda>r. item_error (rj_url r) (rj_refusal r)) rej) = 0" by (simp add: count_items_def filter_map o_def)
    have "mset (map rj_url rej) = mset urls" using group_urls_Inr [OF none(3)] by (simp add: groups_wf_def)
    with none run ok new show ?thesis
      by (auto simp: batch_create_links_def batch_from_results_def multiset.map_comp o_def Let_def)
  next
    case nobody
    with run ok show ?thesis by (auto simp: batch_create_links_def Let_def)
  next
    case go
    have gw: "groups_wf cfg gs" and urls: "mset (concat (map ug_urls gs)) + mset (map rj_url rej) = mset urls"
      using group_urls_Inr [OF go(3)] by (simp_all add: groups_wf_def)
    define guest where "guest = (if owner = None then cx_remote_addr cx else None)"
    define ttl where "ttl = (if guest \<noteq> None then lc_default_guest_ttl_seconds cfg else 0)"
    define sc where "sc = (case owner of Some i \<Rightarrow> for_owner i | None \<Rightarrow> for_guest guest)"
    note who = batch_owner [OF go(5) guest_def sc_def]
    let ?run = "retry_conflicts (\<lambda>attempt. look_up_and_create ops cfg now (bds attempt) gs sc owner guest ttl)
        (Domain (LinkConflictError ''Batch creation kept losing races with concurrent creations''))
        [0..<lc_max_collision_attempts cfg] st"
    let ?invalid = "map (\<lambda>r. item_error (rj_url r) (rj_refusal r)) rej"
    have run': "(case ?run of (Inl e, st1) \<Rightarrow> (Inl e, st1)
        | (Inr outcome, st1) \<Rightarrow> (batch_answer cfg ?invalid outcome,
            if snd (snd (snd (snd outcome))) \<noteq> [] then on_cache (co_delete_stats ops) st1 else st1)) = (r, st')"
      using run go unfolding sc_def ttl_def guest_def batch_create_links_def Let_def by simp
    obtain q st1 where q: "?run = (q, st1)" by fastforce
    note st1 = batch_attempts_ok [OF q ok ports gw who(1)]
    show ?thesis
    proof (cases q)
      case (Inl e)
      with st1 have "sv_db st1 = sv_db st \<and> ok st1" by (simp add: batch_stored_def)
      moreover have "r = Inl e" "st' = st1"
using run' q Inl by simp_all
      ultimately show ?thesis by auto
    next
      case (Inr out)
      with st1 obtain fetched tc found qr saved where out: "out = (fetched, tc, found, qr, saved)" and ok1: "ok st1"
        and ch: "(table_change cfg now)\<^sup>*\<^sup>* (links_in st) (links_in st1)" "links_in st1 = links_in st @ saved"
          "\<forall>l \<in> set saved. link_scope l = sc \<and> lk_created l = now"
        and new: "stored_for tc saved" "list_all (\<lambda>i. \<not> bi_is_new i) (fetched @ qr)"
        and u: "mset (map bi_url fetched) + mset (concat (map ug_urls tc)) + mset (map bi_url qr) = mset (concat (map ug_urls gs))"
        by (cases out) (auto simp: batch_stored_def)
      have r: "r = batch_answer cfg ?invalid out"
        and s: "st' = (if saved \<noteq> [] then on_cache (co_delete_stats ops) st1 else st1)"
        using run' q Inr out by simp_all
      have "ok st'" using ok1 s coh_delete_stats by (simp add: ok_def)
      moreover have "links_in st' = links_in st1" using s by simp
      moreover have "mset (map bi_url (br_items resp)) = mset urls" if "r = Inr resp" for resp
        using batch_answer_urls [of cfg _ fetched tc found qr saved resp] that r out u urls
        by (simp add: multiset.map_comp o_def)
      moreover have "list_all (\<lambda>i. \<not> bi_is_new i) (fetched @ qr @ ?invalid)" using new(2) by (auto simp: list_all_iff)
      then have "br_new_count resp = length saved" if "r = Inr resp" for resp
        using batch_answer_new [of cfg ?invalid fetched tc found qr saved resp] that r out new(1) by simp
      ultimately show ?thesis using ch who(2) by simp
    qed
  qed
qed

end

end
