(* ===== verification/Link_Runs.thy ===== *)
theory Link_Runs
  imports Batch_Invariants
begin

text \<open>
  The link service as a state machine. A step is one whole request or one run of a sweep, at a
  reading of the clock that never goes back; a run is a sequence of steps, by any number of
  visitors in any order. It is the history of one process with its cache, or of several that
  share one: the memory cache is not shared, and what another process does behind it is the
  subject of \<open>visits_run\<close>. Requests of a run do not overlap; creations that do are the subject
  of \<open>raced_run\<close>. The invariant of Link_Invariants is kept along every run, and the properties
  of the service are read off it.
\<close>

section \<open>Steps and runs\<close>

inductive service_step :: "'c cache_ops \<Rightarrow> link_config \<Rightarrow> moment \<Rightarrow> 'c service \<Rightarrow> 'c service \<Rightarrow> bool" for ops cfg now where
  create: "create_short_link ops cfg now drs url cx ttl custom st = (r, st') \<Longrightarrow>
     (\<And>n. dr_link_id (drs n) \<notin> set (ids_of (links_in st))) \<Longrightarrow> service_step ops cfg now st st'"
| create_many: "batch_create_links ops cfg batch_limit now bds urls cx st = (r, st') \<Longrightarrow> service_step ops cfg now st st'"
| follow: "redirect_link ops now s cx st = (r, st') \<Longrightarrow> service_step ops cfg now st st'"
| count: "service_step ops cfg now st (update_link_stats ops record_visits now i s cx st)"
| delete: "delete_link ops s cx enforce authorized st = (r, st') \<Longrightarrow> service_step ops cfg now st st'"
| sweep: "clean_expired_links ops now st = (n, st') \<Longrightarrow> service_step ops cfg now st st'"
| delete_account: "delete_user ops i cx (sv_db st) (sv_cache st) = Inr (b, db', c', ev) \<Longrightarrow>
     service_step ops cfg now st (st\<lparr>sv_db := db', sv_cache := c', sv_audit := sv_audit st @ ev\<rparr>)"
| elsewhere: "db_links db' = links_in st \<Longrightarrow>
     service_step ops cfg now st (st\<lparr>sv_db := db', sv_audit := evs, sv_tasks := tasks\<rparr>)"

inductive service_run :: "'c cache_ops \<Rightarrow> link_config \<Rightarrow> moment \<Rightarrow> 'c service \<Rightarrow> moment \<Rightarrow> 'c service \<Rightarrow> bool" for ops cfg where
  start: "service_run ops cfg t st t st"
| more: "service_run ops cfg t0 st0 t1 st1 \<Longrightarrow> t1 \<le> t2 \<Longrightarrow> service_step ops cfg t2 st1 st2 \<Longrightarrow>
     service_run ops cfg t0 st0 t2 st2"

text \<open>What a run keeps of the table, whatever the cache.\<close>

definition table_inv :: "link_config \<Rightarrow> moment \<Rightarrow> link_table \<Rightarrow> bool" where
  "table_inv cfg now tbl \<longleftrightarrow> table_wf tbl \<and> one_live_link now tbl \<and> within_quota cfg now tbl"

lemma table_inv_later: "table_inv cfg now tbl \<Longrightarrow> now \<le> now' \<Longrightarrow> table_inv cfg now' tbl"
  using one_live_link_later within_quota_later by (auto simp: table_inv_def)

context link_cache
begin

definition service_ok :: "link_config \<Rightarrow> moment \<Rightarrow> 'c service \<Rightarrow> bool" where
  "service_ok cfg now st \<longleftrightarrow> ok st \<and> table_inv cfg now (links_in st)"

lemma service_okI:
  assumes "service_ok cfg now st" and "ok st'" and "(table_change cfg now)\<^sup>*\<^sup>* (links_in st) (links_in st')"
  shows "service_ok cfg now st'"
  using assms table_changes_one_live_link table_changes_within_quota
  by (auto simp: service_ok_def table_inv_def ok_def)

lemma service_step_ok:
  assumes "service_step ops cfg now st st'" and "service_ok cfg now st" and "ports_ok cfg"
  shows "service_ok cfg now st'"
proof -
  have ok: "ok st" using assms(2) by (simp add: service_ok_def)
  note many = service_okI [OF assms(2)]
  have keep: "service_ok cfg now s" if "ok s" "table_change cfg now (links_in st) (links_in s)" for s
    using many [OF that(1)] that(2) by blast
  from assms(1) show ?thesis
  proof cases
    case (create drs url cx ttl custom r)
    have "ok st' \<and> table_change cfg now (links_in st) (links_in st')"
      using create_outcome [OF create(1) ok assms(3) create(2)] table_change.same by metis
    then show ?thesis using keep by blast
  next
    case (create_many batch_limit bds urls cx r)
    from batch_create_links_ok [OF create_many ok assms(3)] show ?thesis using many by blast
  next
    case (follow s cx r)
    from redirect_refines [OF ok follow] show ?thesis
      using keep [of st'] table_change.same [of cfg now "links_in st"] by simp
  next
    case (count rv i s cx)
    from update_stats_ok [OF ok, of rv now i s cx cfg] show ?thesis unfolding count using keep by blast
  next
    case (delete s cx enf auth r)
    from delete_link_ok [OF delete ok] show ?thesis using keep by blast
  next
    case (sweep n)
    from clean_expired_ok [OF ok, of now cfg] show ?thesis using keep [of st'] sweep by simp
  next
    case (delete_account i cx b db' c' ev)
    from delete_user_ok [OF delete_account(2) ok, of cfg now] show ?thesis
      unfolding delete_account(1) using keep by auto
  next
    case (elsewhere db' evs tasks)
    have "ok st'" using ok elsewhere by (simp add: ok_def)
    then show ?thesis using keep [of st'] elsewhere table_change.same [of cfg now "links_in st"] by simp
  qed
qed

lemma service_run_ok:
  assumes "service_run ops cfg t0 st0 t st" and "service_ok cfg t0 st0" and "ports_ok cfg"
  shows "service_ok cfg t st \<and> t0 \<le> t"
  using assms
proof (induction rule: service_run.induct)
  case (start t st)
  then show ?case by simp
next
  case (more t0 st0 t1 st1 t2 st2)
  then have "service_ok cfg t1 st1" "t0 \<le> t1" by simp_all
  then have "service_ok cfg t2 st1"
    using table_inv_later more.hyps(2) unfolding service_ok_def by blast
  then show ?case using service_step_ok [OF more.hyps(3) _ more.prems(2)] more.hyps(2) \<open>t0 \<le> t1\<close> by simp
qed

end

text \<open>A start: an empty cache before a table that keeps the constraints.\<close>

lemma mem_start:
  assumes "sv_cache st = mc_init p link_ttl stats_ttl" and "table_inv cfg now (links_in st)"
  shows "mem.service_ok cfg now st"
proof -
  have "agrees_code (links_in st) (mc_by_code (sv_cache st))" "agrees_redirect (links_in st) (mc_by_redirect (sv_cache st))"
    using assms(1) by (simp_all add: agrees_code_def agrees_redirect_def mc_by_code_def mc_by_redirect_def mc_init_def)
  then show ?thesis
    using assms mc_inv_init by (simp add: mem.service_ok_def mem.ok_def coherent_def table_inv_def)
qed

definition fresh_start :: "link_config \<Rightarrow> moment \<Rightarrow> memory_cache service \<Rightarrow> bool" where
  "fresh_start cfg now st \<longleftrightarrow>
     (\<exists>p link_ttl stats_ttl. sv_cache st = mc_init p link_ttl stats_ttl) \<and> table_inv cfg now (links_in st)"

lemma mem_reachable:
  assumes "service_run memory_ops cfg t0 st0 t st" and "fresh_start cfg t0 st0" and "ports_ok cfg"
  shows "mem.service_ok cfg t st" "mem.ok st" "table_inv cfg t (links_in st)"
proof -
  have "mem.service_ok cfg t0 st0" using assms(2) mem_start unfolding fresh_start_def by blast
  then show "mem.service_ok cfg t st" using mem.service_run_ok [OF assms(1) _ assms(3)] by blast
  then show "mem.ok st" "table_inv cfg t (links_in st)" by (simp_all add: mem.service_ok_def)
qed

text \<open>The generator and the hash that the program configures are admissible ports.\<close>

lemma program_ports_ok:
  assumes "lc_generate cfg = b64_generate default_generator" and "lc_hash cfg = calculate idna"
  shows "ports_ok cfg"
proof -
  have "CODE_PATTERN c" if "b64_generate default_generator s = Inr c" for s c
    using default_gen.b64_generate_length [of s] that by auto
  moreover have "HASH_PATTERN h" if "calculate idna u = Inr h" for u h
    using that by (auto simp: calculate_def rbind_eq_Inr)
  ultimately show ?thesis using assms by (simp add: ports_ok_def)
qed

lemma batch_create_links_resp:
  assumes "batch_create_links ops cfg batch_limit now bds urls cx st = (Inr resp, st')"
  obtains xs where "resp = batch_from_results xs"
proof -
  have "\<exists>xs. x = batch_from_results xs" if "batch_answer cfg inv out = Inr x" for inv out x
    using that by (auto simp: batch_answer_def rbind_eq_Inr split: prod.splits if_split_asm)
  then have "\<exists>xs. resp = batch_from_results xs"
    using assms unfolding batch_create_links_def Let_def by (force split: if_split_asm sum.splits prod.splits)
  then show thesis using that by blast
qed

lemma live_link_is_followed:
  assumes "table_wf tbl" and "l \<in> set tbl" and "\<not> is_expired now l"
  shows "redirect_spec now (lk_code l) tbl = Inr (lk_url l)"
proof -
  have "find_by_code (lk_code l) tbl = Some l" using assms(1,2) find_by_code_unique by (auto simp: table_wf_def)
  moreover have "CODE_PATTERN (lk_code l)" using assms(1,2) by (auto simp: table_wf_def list_all_iff link_wf_def)
  ultimately show ?thesis using assms(3) by (simp add: redirect_spec_def)
qed

section \<open>A cache behind the store\<close>

text \<open>
  Each process that keeps its cache in memory has its own, so it does not learn of the rows
  that another process, the command line among them, deletes or adds. Between such a change and
  now, visitors follow links and their visits are counted; the codes that were counted are
  collected.
\<close>

inductive visits_run :: "'c cache_ops \<Rightarrow> string set \<Rightarrow> 'c service \<Rightarrow> 'c service \<Rightarrow> bool" for ops where
  none: "visits_run ops {} st st"
| followed: "visits_run ops K st0 st \<Longrightarrow> redirect_link ops now s cx st = (r, st') \<Longrightarrow> visits_run ops K st0 st'"
| counted: "visits_run ops K st0 st \<Longrightarrow> visits_run ops (insert s K) st0 (update_link_stats ops record_visits now i s cx st)"

text \<open>What such a cache may still answer for: the table, and behind it the old one less the codes that were counted.\<close>

definition remembered :: "string set \<Rightarrow> link_table \<Rightarrow> link_table \<Rightarrow> link_table" where
  "remembered K old tbl = tbl @ filter (\<lambda>l. lk_code l \<notin> K) old"

lemma find_remembered:
  "find_by_code k (remembered K old tbl) =
     (case find_by_code k tbl of Some l \<Rightarrow> Some l | None \<Rightarrow> if k \<in> K then None else find_by_code k old)"
proof -
  have "find_by_code k (filter (\<lambda>l. lk_code l \<notin> K) old) = (if k \<in> K then None else find_by_code k old)"
    by (induction old) (auto simp: find_by_code_def)
  then show ?thesis by (simp add: remembered_def find_by_code_append split: option.split)
qed

lemma spec_remembered:
  "redirect_spec now s (remembered K old tbl) = redirect_spec now s tbl \<or>
   (s \<notin> K \<and> s \<notin> set (codes_of tbl) \<and> redirect_spec now s (remembered K old tbl) = redirect_spec now s old)"
  using find_by_code_None [of s tbl] unfolding redirect_spec_def find_remembered
  by (cases "find_by_code s tbl") auto

lemma increments_found: "repo_increment_clicks now c tbl = Inr tbl' \<Longrightarrow> find_by_code c tbl \<noteq> None"
  by (auto simp: repo_increment_clicks_def find_by_code_None list_ex_iff split: if_splits)

context link_cache
begin

lemma counted_remembered:
  assumes coh: "coh (remembered K old (links_in st)) (sv_cache st)" and wf: "table_wf old"
    and st': "st' = update_link_stats ops rv now i s cx st"
  shows "coh (remembered (insert s K) old (links_in st')) (sv_cache st')"
proof (cases "CODE_PATTERN s")
  case False
  have "s \<notin> set (codes_of old)" using wf False by (auto simp: table_wf_def list_all_iff link_wf_def)
  then have "lk_code l \<noteq> s" if "l \<in> set old" for l using that by auto
  then have "filter (\<lambda>l. lk_code l \<notin> insert s K) old = filter (\<lambda>l. lk_code l \<notin> K) old" by (intro filter_cong) auto
  with False coh st' show ?thesis by (simp add: update_link_stats_def ShortCode_def remembered_def)
next
  case True
  then have code: "ShortCode s = Inr s" by (simp add: ShortCode_def)
  show ?thesis
  proof (cases "repo_increment_clicks now s (links_in st)")
    case (Inl e)
    let ?c = "snd (co_delete_by_code ops s (co_delete_redirect ops s (sv_cache st)))"
    have c: "sv_cache st' = ?c" "links_in st' = links_in st" by (simp_all add: st' update_link_stats_def code Inl)
    note d = coh_delete_redirect [OF coh silent_empty, of s]
    note dd = coh_delete_by_code [OF d, of s]
    have "answers_alike (- {s}) (remembered K old (links_in st)) (remembered (insert s K) old (links_in st))"
      unfolding answers_alike_def find_remembered by (auto split: option.splits)
    with dd show ?thesis unfolding c by (rule coh_remove)
  next
    case inc: (Inr tbl')
    have c: "sv_cache st' = sv_cache st" "links_in st' = tbl'" by (simp_all add: st' update_link_stats_def code inc)
    have alike: "answers_alike UNIV (links_in st) tbl'" by (rule answers_alike_increment [OF inc])
    have same: "find_by_code k tbl' = None \<longleftrightarrow> find_by_code k (links_in st) = None" for k
      using inc by (auto simp: repo_increment_clicks_def find_by_code_map split: if_splits)
    have "answers_alike UNIV (remembered K old (links_in st)) (remembered (insert s K) old tbl')"
      unfolding answers_alike_def find_remembered
    proof (intro ballI allI impI)
      fix k r assume k: "(case find_by_code k (links_in st) of Some l \<Rightarrow> Some l | None \<Rightarrow> if k \<in> K then None else find_by_code k old) = Some r"
      show "\<exists>r'. (case find_by_code k tbl' of Some l \<Rightarrow> Some l | None \<Rightarrow> if k \<in> insert s K then None else find_by_code k old) = Some r' \<and>
          lk_url r' = lk_url r \<and> lk_expires r' = lk_expires r"
      proof (cases "find_by_code k (links_in st)")
        case None
        then have "k \<noteq> s" using increments_found [OF inc] by auto
        with None k same [of k] show ?thesis by simp
      next
        case (Some x)
        with alike obtain x' where "find_by_code k tbl' = Some x'" "lk_url x' = lk_url x" "lk_expires x' = lk_expires x"
          unfolding answers_alike_def by blast
        with Some k show ?thesis by simp
      qed
    qed
    with coh show ?thesis unfolding c by (rule coh_alike)
  qed
qed

lemma visits_remembered:
  assumes "visits_run ops K st0 st" and "table_wf old" and "coh (remembered {} old (links_in st0)) (sv_cache st0)"
  shows "coh (remembered K old (links_in st)) (sv_cache st)"
  using assms
proof (induction rule: visits_run.induct)
  case (none st)
  then show ?case by simp
next
  case (followed K st0 st now s cx r st')
  have "\<And>k r. find_by_code k (links_in st) = Some r \<Longrightarrow> find_by_code k (remembered K old (links_in st)) = Some r"
    by (simp add: find_remembered)
  from redirect_between [OF followed.IH [OF followed.prems] this followed.hyps(2)] show ?case by simp
next
  case (counted K st0 st s rv now i cx)
  then show ?case using counted_remembered by blast
qed

text \<open>Rows deleted and added by another process: the cache is coherent with the new table and, behind it, the old one.\<close>

lemma changed_behind:
  assumes "ok st" and "db_links db' = filter P (links_in st) @ ls" and "set (codes_of ls) \<inter> set (codes_of (links_in st)) = {}"
  shows "coh (remembered {} (links_in st) (db_links db')) (sv_cache st)"
proof -
  have d: "distinct (codes_of (links_in st))" using assms(1) by (simp add: ok_def table_wf_def)
  have "find_by_code k (remembered {} (links_in st) (db_links db')) = Some r" if "find_by_code k (links_in st) = Some r" for k r
  proof -
    have "k \<in> set (codes_of (links_in st))" using that find_by_code_None [of k "links_in st"] by auto
    then have "find_by_code k ls = None" using assms(3) find_by_code_None [of k ls] by blast
    with that show ?thesis by (simp add: find_remembered assms(2) find_by_code_append find_by_code_filter [OF d])
  qed
  then have "answers_alike UNIV (links_in st) (remembered {} (links_in st) (db_links db'))" by (simp add: answers_alike_def)
  moreover have "coh (links_in st) (sv_cache st)" using assms(1) by (simp add: ok_def)
  ultimately show ?thesis by (metis coh_alike)
qed

lemma stale_redirect:
  assumes "ok st" and "db_links db' = filter P (links_in st) @ ls" and "set (codes_of ls) \<inter> set (codes_of (links_in st)) = {}"
    and run: "visits_run ops K (st\<lparr>sv_db := db'\<rparr>) st2"
  shows "fst (redirect_link ops now s cx st2) = redirect_spec now s (links_in st2) \<or>
    (s \<notin> K \<and> s \<notin> set (codes_of (links_in st2)) \<and> fst (redirect_link ops now s cx st2) = redirect_spec now s (links_in st))"
proof -
  have wf: "table_wf (links_in st)" using assms(1) by (simp add: ok_def)
  have "coh (remembered {} (links_in st) (links_in (st\<lparr>sv_db := db'\<rparr>))) (sv_cache (st\<lparr>sv_db := db'\<rparr>))"
    using changed_behind [OF assms(1-3)] by simp
  from visits_remembered [OF run wf this] have coh: "coh (remembered K (links_in st) (links_in st2)) (sv_cache st2)" .
  obtain r st3 where red: "redirect_link ops now s cx st2 = (r, st3)" by fastforce
  have "\<And>k r. find_by_code k (links_in st2) = Some r \<Longrightarrow> find_by_code k (remembered K (links_in st) (links_in st2)) = Some r"
    by (simp add: find_remembered)
  from redirect_between [OF coh this red] show ?thesis
    using spec_remembered [of now s K "links_in st" "links_in st2"] by (auto simp: red)
qed

end

section \<open>Creations that race\<close>

text \<open>
  Requests that run at the same time decide on the table as they read it and save into the
  table as it has become: the snapshot of a creation is any table at all. What stands between
  them is the repository, with the constraints of the table. Rows may go and clicks be counted
  at any time.
\<close>

inductive raced_run :: "link_config \<Rightarrow> link_table \<Rightarrow> link_table \<Rightarrow> bool" for cfg where
  start: "raced_run cfg tbl tbl"
| stored: "raced_run cfg tbl0 tbl \<Longrightarrow> create_inputs cfg url cx ttl custom = Inr (u, h, owner, chosen) \<Longrightarrow>
    prepare_link cfg now dr u h owner guest ttl' chosen snapshot = Inr l \<Longrightarrow> dr_link_id dr \<notin> set (ids_of tbl) \<Longrightarrow>
    save_link uids l tbl = Inr (l', tbl') \<Longrightarrow> raced_run cfg tbl0 tbl'"
| stored_many: "raced_run cfg tbl0 tbl \<Longrightarrow> group_urls cfg urls [] [] = Inr (gs, rejected) \<Longrightarrow> subseq tc gs \<Longrightarrow>
    (case owner of None \<Rightarrow> True | Some i \<Rightarrow> OwnerID i = Inr i) \<Longrightarrow>
    create_new_links cfg now bd snapshot tc owner guest ttl = Inr ls \<Longrightarrow>
    save_many_links uids ls tbl = Inr (ls', tbl') \<Longrightarrow> raced_run cfg tbl0 tbl'"
| removed: "raced_run cfg tbl0 tbl \<Longrightarrow> raced_run cfg tbl0 (filter P tbl)"
| counted: "raced_run cfg tbl0 tbl \<Longrightarrow> repo_increment_clicks now c tbl = Inr tbl' \<Longrightarrow> raced_run cfg tbl0 tbl'"

lemma raced_run_wf:
  assumes "raced_run cfg tbl0 tbl" and "table_wf tbl0" and "ports_ok cfg"
  shows "table_wf tbl"
  using assms
proof (induction rule: raced_run.induct)
  case (start tbl)
  then show ?case by simp
next
  case (stored tbl0 tbl url cx ttl custom u h owner chosen now dr guest ttl' snapshot l uids l' tbl')
  note inputs = create_inputs_Inr [OF stored.hyps(2) stored.prems(2)]
  have "link_wf l" by (rule prepare_link_wf [OF stored.hyps(3) stored.prems(2) inputs(2,6,5)])
  moreover have "lk_id l \<notin> set (ids_of tbl)" using prepare_link_Inr(1) [OF stored.hyps(3)] stored.hyps(4) by simp
  ultimately show ?case using save_link_wf stored.IH stored.hyps(5) stored.prems by blast
next
  case (stored_many tbl0 tbl urls gs rejected tc owner now bd snapshot guest ttl ls uids ls' tbl')
  have "case owner of None \<Rightarrow> True | Some i \<Rightarrow> strip i \<noteq> []" using stored_many.hyps(4) by (auto split: option.splits)
  moreover have "groups_wf cfg gs" using group_urls_Inr [OF stored_many.hyps(2)] by (simp add: groups_wf_def)
  ultimately have "list_all link_wf ls" using created_links_wf [OF stored_many.hyps(5) stored_many.prems(2) _ stored_many.hyps(3)] by blast
  then show ?case using save_many_links_wf stored_many.IH stored_many.hyps(6) stored_many.prems by blast
next
  case (removed tbl0 tbl P)
  then show ?case using table_wf_filter by blast
next
  case (counted tbl0 tbl now c tbl')
  then show ?case using increment_wf by blast
qed

text \<open>Where several live links of one scope have one hash, everybody is handed the oldest.\<close>

lemma find_live_is_oldest:
  assumes "find_live_by_hash now h sc tbl = Some l" and "l' \<in> set tbl" and "live_in_scope now sc l'" and "lk_hash l' = h"
  shows "(lk_created l, lk_id l) \<le> (lk_created l', lk_id l')"
proof -
  let ?rows = "filter (\<lambda>l. live_in_scope now sc l \<and> lk_hash l = h) tbl"
  obtain rest where rows: "sort_key (\<lambda>l. (lk_created l, lk_id l)) ?rows = l # rest"
    using assms(1) by (auto simp: find_live_by_hash_def oldest_first_def first_of_def split: list.splits)
  have "sorted (map (\<lambda>l. (lk_created l, lk_id l)) (l # rest))" unfolding rows [symmetric] by simp
  moreover have "l' \<in> set (l # rest)" unfolding rows [symmetric] using assms(2-4) by simp
  ultimately show ?thesis by auto
qed

section \<open>Properties\<close>

text \<open>
  C1. Following a link through the cache is following it in the store. In every state that
  the requests of a process lead to, at every later moment, a redirect answers exactly what the
  specification without a cache answers from the table of links: the target of a live link,
  that the link has expired, or that there is none; and it changes no row. When another process
  has deleted rows and added links under new codes behind the cache of this one, a redirect
  still answers what the table says, except that for a code whose row is gone it may answer
  what the table said before, and only until a visit of that code has been counted. Without a
  cache the answer is always that of the table.
\<close>

theorem redirect_refines_the_store:
  assumes "service_run memory_ops cfg t0 st0 t st" and "fresh_start cfg t0 st0" and "ports_ok cfg"
  shows "(fst (redirect_link memory_ops now s cx st) = redirect_spec now s (links_in st) \<and>
      sv_db (snd (redirect_link memory_ops now s cx st)) = sv_db st) \<and>
    (\<forall>P ls db' K st2. db_links db' = filter P (links_in st) @ ls \<and> set (codes_of ls) \<inter> set (codes_of (links_in st)) = {} \<and>
       visits_run memory_ops K (st\<lparr>sv_db := db'\<rparr>) st2 \<longrightarrow>
       fst (redirect_link memory_ops now s cx st2) = redirect_spec now s (links_in st2) \<or>
       (s \<notin> K \<and> s \<notin> set (codes_of (links_in st2)) \<and>
        fst (redirect_link memory_ops now s cx st2) = redirect_spec now s (links_in st))) \<and>
    fst (redirect_link null_ops now s cx st3) = redirect_spec now s (links_in st3)"
proof (intro conjI allI impI)
  note ok = mem_reachable(2) [OF assms]
  show "fst (redirect_link memory_ops now s cx st) = redirect_spec now s (links_in st)"
    "sv_db (snd (redirect_link memory_ops now s cx st)) = sv_db st"
    using mem.redirect_refines [OF ok, of now s cx] by (metis prod.collapse)+
  fix P ls db' K st2
  assume "db_links db' = filter P (links_in st) @ ls \<and> set (codes_of ls) \<inter> set (codes_of (links_in st)) = {} \<and>
    visits_run memory_ops K (st\<lparr>sv_db := db'\<rparr>) st2"
  then show "fst (redirect_link memory_ops now s cx st2) = redirect_spec now s (links_in st2) \<or>
       (s \<notin> K \<and> s \<notin> set (codes_of (links_in st2)) \<and> fst (redirect_link memory_ops now s cx st2) = redirect_spec now s (links_in st))"
    by (elim conjE) (rule mem.stale_redirect [OF ok])
next
  obtain r st' where r: "redirect_link null_ops now s cx st3 = (r, st')" by fastforce
  have "null.coh (links_in st3) (sv_cache st3)" by (simp add: coherent_def agrees_code_def agrees_redirect_def)
  from null.redirect_between [OF this _ r] show "fst (redirect_link null_ops now s cx st3) = redirect_spec now s (links_in st3)"
    by (simp add: r)
qed


text \<open>
  C5. What creating a link answers. Whenever the request succeeds, in any state that
  requests can lead to, the code in the answer is the code of a link that is live, that
  belongs to the requester and that has the hash of the URL; following that code at the
  same moment leads to that link's URL. The store either already had the link and is
  unchanged, or gained exactly this link, which then holds the very URL of the request
  and, when a guest created it, expires within the lifetime set for guests.
\<close>

theorem created_link_is_followed:
  assumes "service_run memory_ops cfg t0 st0 t st" and "fresh_start cfg t0 st0" and "ports_ok cfg" and "t \<le> now"
    and "\<And>n. dr_link_id (drs n) \<notin> set (ids_of (links_in st))"
    and "create_short_link memory_ops cfg now drs url cx ttl custom st = (Inr resp, st')"
  shows "\<exists>l. l \<in> set (links_in st') \<and> lk_code l = sr_short_code resp \<and> \<not> is_expired now l \<and>
    link_scope l = requester_scope cx \<and> lc_hash cfg url = Inr (lk_hash l) \<and>
    fst (redirect_link memory_ops now (sr_short_code resp) cx' st') = Inr (lk_url l) \<and>
    (if sr_is_new resp
     then links_in st' = links_in st @ [l] \<and> lk_url l = url \<and> lk_created l = now \<and>
       (cx_current_user cx = None \<longrightarrow> cx_remote_addr cx \<noteq> None \<longrightarrow> 0 < lc_default_guest_ttl_seconds cfg \<longrightarrow>
          (\<exists>e. lk_expires l = Some e \<and> e \<le> now + lc_default_guest_ttl_seconds cfg * second))
     else links_in st' = links_in st)"
proof -
  note ok = mem_reachable(2) [OF assms(1-3)]
  have out: "mem.ok st' \<and> (\<exists>l fc n base h. l \<in> set (links_in st') \<and> lc_hash cfg url = Inr h \<and> lk_hash l = h \<and>
      link_scope l = requester_scope cx \<and> \<not> is_expired now l \<and> Inr resp = response_from_link base n fc l \<and>
      (if n then links_in st' = links_in st @ [l] \<and> lk_url l = url \<and> lk_created l = now \<and>
         (cx_current_user cx = None \<longrightarrow> cx_remote_addr cx \<noteq> None \<longrightarrow> 0 < lc_default_guest_ttl_seconds cfg \<longrightarrow>
          (\<exists>e. lk_expires l = Some e \<and> e \<le> now + lc_default_guest_ttl_seconds cfg * second))
       else links_in st' = links_in st))"
    using mem.create_outcome [OF assms(6) ok assms(3,5)]
  proof (elim disjE conjE exE, goal_cases)
    case (1 e)
    then show ?case by simp
  next
    case (2 h)
    then obtain l fc base where "l \<in> set (links_in st)" "lk_hash l = h" "link_scope l = requester_scope cx"
      "\<not> is_expired now l" "Inr resp = response_from_link base False fc l" by (auto simp: reused_def)
    with 2 show ?case by (metis (full_types))
  next
    case (3 l h)
    then show ?case by (metis in_set_conv_decomp)
  qed
  then obtain l fc n base where l: "l \<in> set (links_in st')" "lc_hash cfg url = Inr (lk_hash l)" "link_scope l = requester_scope cx"
      "\<not> is_expired now l" "Inr resp = response_from_link base n fc l" and ok': "mem.ok st'" and
    n: "(if n then links_in st' = links_in st @ [l] \<and> lk_url l = url \<and> lk_created l = now \<and>
         (cx_current_user cx = None \<longrightarrow> cx_remote_addr cx \<noteq> None \<longrightarrow> 0 < lc_default_guest_ttl_seconds cfg \<longrightarrow>
          (\<exists>e. lk_expires l = Some e \<and> e \<le> now + lc_default_guest_ttl_seconds cfg * second))
       else links_in st' = links_in st)" by metis
  note r = response_from_link_Inr [OF l(5) [symmetric]]
  have "fst (redirect_link memory_ops now (lk_code l) cx' st') = redirect_spec now (lk_code l) (links_in st')"
    using mem.redirect_refines [OF ok', of now "lk_code l" cx'] by (metis prod.collapse)
  also have "\<dots> = Inr (lk_url l)" using ok' l(1,4) live_link_is_followed by (simp add: mem.ok_def)
  finally show ?thesis using l n r by metis
qed

text \<open>
  Asking again gives the same link. If a requester creates a link to a URL and, while
  that link is alive and after any further requests that have not removed it, asks for
  the same URL again, then an answer names the same code and the store is unchanged.
\<close>

lemma creation_is_idempotent:
  assumes "service_run memory_ops cfg t0 st0 t st" and "fresh_start cfg t0 st0" and "ports_ok cfg" and "t \<le> now"
    and "\<And>n. dr_link_id (drs n) \<notin> set (ids_of (links_in st))"
    and "l \<in> set (links_in st)" and "link_scope l = requester_scope cx" and "lc_hash cfg url = Inr (lk_hash l)" and "\<not> is_expired now l"
    and "create_short_link memory_ops cfg now drs url cx ttl custom st = (Inr resp, st')"
  shows "sr_short_code resp = lk_code l \<and> \<not> sr_is_new resp \<and> sv_db st' = sv_db st"
proof -
  have inv: "table_inv cfg now (links_in st)" using mem_reachable(3) [OF assms(1-3)] assms(4) table_inv_later by blast
  show ?thesis
    using mem.create_outcome [OF assms(10) mem_reachable(2) [OF assms(1-3)] assms(3,5)]
  proof (elim disjE conjE exE, goal_cases)
    case (1 e)
    then show ?case by simp
  next
    case (2 h)
    then obtain l' fc base where l': "l' \<in> set (links_in st)" "lk_hash l' = h" "link_scope l' = requester_scope cx"
      "\<not> is_expired now l'" "response_from_link base False fc l' = Inr resp" by (auto simp: reused_def)
    moreover have "h = lk_hash l" using 2 assms(8) by simp
    ultimately have "l' = l" using inv assms(6,7,9) unfolding table_inv_def one_live_link_def by metis
    then show ?case using response_from_link_Inr [OF l'(5)] 2(1) by simp
  next
    case (3 l' h)
    then have f: "mem.ok st'" "table_change cfg now (links_in st) (links_in st')" "links_in st' = links_in st @ [l']"
      "lk_hash l' = h" "lc_hash cfg url = Inr h" "link_scope l' = requester_scope cx" "\<not> is_expired now l'" by blast+
    have "one_live_link now (links_in st')"
      using inv table_change_one_live_link [OF f(2)] by (simp add: table_inv_def)
    moreover have "l \<in> set (links_in st')" "l' \<in> set (links_in st')" "lk_hash l = lk_hash l'" using f assms(6,8) by simp_all
    ultimately have "l' = l" using f(6,7) assms(7,9) unfolding one_live_link_def by metis
    moreover have "lk_code l' \<notin> set (codes_of (links_in st))" using f(1,3) by (simp add: mem.ok_def table_wf_def)
    ultimately show ?case using assms(6) by simp
  qed
qed

text \<open>
  A deleted link is gone. When a deletion reports success, the link is no longer in
  the store and its code no longer leads anywhere: the redirect answers, at every moment,
  that there is no such link, whatever had been cached.
\<close>

lemma deleted_link_is_gone:
  assumes "service_run memory_ops cfg t0 st0 t st" and "fresh_start cfg t0 st0" and "ports_ok cfg"
    and "delete_link memory_ops s cx enforce authorized st = (Inr True, st')"
  shows "fst (redirect_link memory_ops now s cx' st') = Inl (Domain (LinkNotFoundError (Some s))) \<and>
    s \<in> set (codes_of (links_in st)) \<and> links_in st' = filter (\<lambda>l. lk_code l \<noteq> s) (links_in st)"
proof -
  note ok = mem_reachable(2) [OF assms(1-3)]
  have d: "distinct (codes_of (links_in st))" "distinct (ids_of (links_in st))" using ok by (simp_all add: mem.ok_def table_wf_def)
  have gone: "mem.ok st'" "s \<notin> set (codes_of (links_in st'))" using mem.delete_link_ok [OF assms(4) ok] by simp_all
  have "fst (redirect_link memory_ops now s cx' st') = redirect_spec now s (links_in st')"
    using mem.redirect_refines [OF gone(1), of now s cx'] by (metis prod.collapse)
  also have "\<dots> = Inl (Domain (LinkNotFoundError (Some s)))"
    using gone(2) find_by_code_None [of s "links_in st'"] by (simp add: redirect_spec_def)
  finally have red: "fst (redirect_link memory_ops now s cx' st') = Inl (Domain (LinkNotFoundError (Some s)))" .
  obtain l where l: "find_by_code s (links_in st) = Some l" "links_in st' = filter (\<lambda>k. lk_id k \<noteq> lk_id l) (links_in st)"
    using assms(4) by (auto simp: delete_link_def code_to_look_up_def ShortCode_def delete_link_row_def remove_links_def
        split: sum.splits option.splits if_split_asm)
  have "l \<in> set (links_in st)" "lk_code l = s" using find_by_code_Some [OF l(1)] by simp_all
  moreover from this d have "lk_id k \<noteq> lk_id l \<longleftrightarrow> lk_code k \<noteq> s" if "k \<in> set (links_in st)" for k
    using that unfolding distinct_map by (metis inj_onD)
  then have "links_in st' = filter (\<lambda>l. lk_code l \<noteq> s) (links_in st)" unfolding l(2) by (intro filter_cong) simp_all
  ultimately show ?thesis using red by (metis imageI set_map)
qed


text \<open>
  C35. A batch answers every URL once. In every state that requests can lead to, the items
  of a successful batch name exactly the URLs of the request, each as often as it was
  sent; successes and failures add up to the total; the number of new links in the answer
  is the number of rows stored; and every stored link belongs to the requester.
\<close>

theorem batch_answers_every_url:
  assumes "service_run memory_ops cfg t0 st0 t st" and "fresh_start cfg t0 st0" and "ports_ok cfg"
    and "batch_create_links memory_ops cfg batch_limit now bds urls cx st = (Inr resp, st')"
  shows "mset (map bi_url (br_items resp)) = mset urls \<and> br_total resp = length urls \<and>
    br_successful resp + br_failed resp = br_total resp \<and>
    (\<exists>ls. links_in st' = links_in st @ ls \<and> br_new_count resp = length ls \<and>
       (\<forall>l \<in> set ls. link_scope l = requester_scope cx \<and> lk_created l = now))"
proof -
  from mem.batch_create_links_ok [OF assms(4) mem_reachable(2) [OF assms(1-3)] assms(3)] obtain ls
    where ls: "links_in st' = links_in st @ ls" "\<forall>l \<in> set ls. link_scope l = requester_scope cx \<and> lk_created l = now"
      "mset (map bi_url (br_items resp)) = mset urls" "br_new_count resp = length ls" by auto
  obtain xs where xs: "resp = batch_from_results xs" by (rule batch_create_links_resp [OF assms(4)])
  then have "br_items resp = xs" by (simp add: batch_from_results_def)
  then have "length xs = length urls" using mset_eq_length [OF ls(3)] by simp
  then have "br_total resp = length urls" "br_successful resp + br_failed resp = br_total resp"
    using xs length_filter_le [of bi_success xs] by (simp_all add: batch_from_results_def count_items_def)
  with ls show ?thesis by blast
qed

text \<open>
  Rows read back: a well-formed link whose URL was admitted, under whatever rules, is
  written as a row and read back as the same link.
\<close>

lemma stored_link_reads_back:
  assumes "link_wf l" and "OriginalUrl idna_encode rules (lk_url l) = Inr u"
  shows "to_domain (from_storage idna_encode) (to_model l) = Inr l"
  by (rule to_domain_to_model [OF assms(1)]) (metis admitted_readable [OF assms(2)])

section \<open>The properties on a small service\<close>

definition sample_service :: "memory_cache service" where
  "sample_service = \<lparr>sv_db = sample_db, sv_cache = mc_init ''ls'' 60 60, sv_audit = [], sv_tasks = []\<rparr>"

definition sample_draws :: "nat \<Rightarrow> draws" where
  "sample_draws n = \<lparr>dr_link_id = ''link1'', dr_uuid_hex = (\<lambda>_. ''0'')\<rparr>"

definition guest_cx :: request_context where
  "guest_cx = \<lparr>cx_remote_addr = Some ''203.0.113.7'', cx_user_agent = None, cx_current_user = None\<rparr>"

definition sample_row :: link where
  "sample_row =
     \<lparr>lk_id = ''link1'', lk_hash = replicate 64 (CHR ''a''), lk_code = ''abc1234'', lk_url = ''http://example.com/'',
      lk_created = 0, lk_clicks = 0, lk_accessed = None, lk_owner = None, lk_expires = Some 3600000000,
      lk_guest = Some ''203.0.113.7''\<rparr>"

definition sample_creation :: "(exn, short_link_response) result \<times> memory_cache service" where
  "sample_creation = create_short_link memory_ops sample_cfg 0 sample_draws ''http://example.com/'' guest_cx 0 None sample_service"

definition sample_st :: "memory_cache service" where
  "sample_st = snd sample_creation"

lemma sample_start: "fresh_start sample_cfg 0 sample_service"
  by (auto simp: fresh_start_def table_inv_def one_live_link_def within_quota_def sample_service_def sample_db_def
      sample_cfg_def count_guest_links_by_identifier_def)

text \<open>The state after the creation, computed once.\<close>

lemma sample_creation_value:
  "(case fst sample_creation of Inr r \<Rightarrow> sr_short_code r = ''abc1234'' \<and> sr_is_new r | Inl _ \<Rightarrow> False) \<and>
   snd sample_creation = sample_service\<lparr>sv_db := sample_db\<lparr>db_links := [sample_row]\<rparr>,
     sv_cache := mc_delete_stats (mc_save 0 sample_row (mc_init ''ls'' 60 60)),
     sv_audit := [UrlCreated ''abc1234'' ''http://example.com/'']\<rparr>"
  by code_simp

lemma sample_created: "(case fst sample_creation of Inr r \<Rightarrow> sr_short_code r = ''abc1234'' \<and> sr_is_new r | Inl _ \<Rightarrow> False)"
  using sample_creation_value by blast

lemma sample_st_value [code]:
  "sample_st = sample_service\<lparr>sv_db := sample_db\<lparr>db_links := [sample_row]\<rparr>,
     sv_cache := mc_delete_stats (mc_save 0 sample_row (mc_init ''ls'' 60 60)),
     sv_audit := [UrlCreated ''abc1234'' ''http://example.com/'']\<rparr>"
  using sample_creation_value unfolding sample_st_def by blast

lemma sample_draws_fresh: "dr_link_id (sample_draws n) \<notin> set (ids_of (links_in sample_service))"
  by (simp add: sample_service_def sample_db_def)

lemma sample_run_of: "service_run memory_ops sample_cfg 0 sample_service 0 sample_st"
  unfolding sample_st_def
  by (rule service_run.more [OF service_run.start], simp, rule service_step.create
      [where drs = sample_draws and url = "''http://example.com/''" and cx = guest_cx and ttl = 0 and custom = None and r = "fst sample_creation"])
     (simp_all add: sample_creation_def sample_draws_fresh [simplified])

text \<open>Another process deletes the row; this one counts a visit.\<close>

definition row_gone :: "memory_cache service" where
  "row_gone = sample_st\<lparr>sv_db := (sv_db sample_st)\<lparr>db_links := []\<rparr>\<rparr>"

definition visit_counted :: "memory_cache service" where
  "visit_counted = update_link_stats memory_ops True 1 ''v1'' ''abc1234'' guest_cx row_gone"

theorem redirect_refines_the_store_witness:
  "fst (redirect_link memory_ops 1 ''abc1234'' guest_cx sample_st) = Inr ''http://example.com/''
   \<and> fst (redirect_link memory_ops 1 ''abc1234'' guest_cx row_gone) = Inr ''http://example.com/''
   \<and> fst (redirect_link memory_ops 1 ''abc1234'' guest_cx visit_counted) = Inl (Domain (LinkNotFoundError (Some ''abc1234'')))"
proof -
  note all = redirect_refines_the_store [OF sample_run_of sample_start sample_ports_ok, of 1 "''abc1234''" guest_cx]
  have old: "redirect_spec 1 ''abc1234'' (links_in sample_st) = Inr ''http://example.com/''" by code_simp
  have stale: "fst (redirect_link memory_ops 1 ''abc1234'' guest_cx row_gone) = Inr ''http://example.com/''" by code_simp
  have gone: "links_in visit_counted = []" by code_simp
  have "visits_run memory_ops {''abc1234''} row_gone visit_counted"
    unfolding visit_counted_def by (rule visits_run.counted [OF visits_run.none])
  then have run: "visits_run memory_ops {''abc1234''} (sample_st\<lparr>sv_db := (sv_db sample_st)\<lparr>db_links := []\<rparr>\<rparr>) visit_counted"
    by (simp add: row_gone_def)
  have "fst (redirect_link memory_ops 1 ''abc1234'' guest_cx visit_counted) = redirect_spec 1 ''abc1234'' (links_in visit_counted)"
    using all [THEN conjunct2, THEN conjunct1, rule_format, of "(sv_db sample_st)\<lparr>db_links := []\<rparr>" "\<lambda>_. False" "[]", OF conjI, OF _ conjI, OF _ _ run]
    by simp
  also have "\<dots> = Inl (Domain (LinkNotFoundError (Some ''abc1234'')))" unfolding gone by code_simp
  finally show ?thesis using all old stale by simp
qed


theorem created_link_is_followed_witness:
  "fst (redirect_link memory_ops 0 ''abc1234'' guest_cx sample_st) = Inr ''http://example.com/''"
proof -
  obtain r where r: "fst sample_creation = Inr r" "sr_short_code r = ''abc1234''" "sr_is_new r"
    using sample_created by (auto split: sum.splits)
  then have "create_short_link memory_ops sample_cfg 0 sample_draws ''http://example.com/'' guest_cx 0 None sample_service
      = (Inr r, sample_st)" unfolding sample_creation_def sample_st_def by (metis prod.collapse)
  from created_link_is_followed [OF service_run.start sample_start sample_ports_ok order.refl sample_draws_fresh this, of guest_cx] r
  show ?thesis by auto
qed

definition other_draws :: "nat \<Rightarrow> draws" where
  "other_draws n = \<lparr>dr_link_id = ''link2'', dr_uuid_hex = (\<lambda>_. ''1'')\<rparr>"


definition sample_batch_draws :: "nat \<Rightarrow> batch_draws" where
  "sample_batch_draws n = \<lparr>bd_link_id = (\<lambda>h. ''link2''), bd_uuid_hex = (\<lambda>h n. ''0'')\<rparr>"

theorem batch_answers_every_url_witness:
  "\<exists>resp st'. batch_create_links memory_ops sample_cfg 10 1 sample_batch_draws [''http://example.com/'', ''nonsense''] guest_cx sample_st
       = (Inr resp, st') \<and> br_total resp = 2"
proof -
  let ?b = "batch_create_links memory_ops sample_cfg 10 1 sample_batch_draws [''http://example.com/'', ''nonsense''] guest_cx sample_st"
  have "(case fst ?b of Inr _ \<Rightarrow> True | Inl _ \<Rightarrow> False)" by code_simp
  then obtain resp where b: "?b = (Inr resp, snd ?b)" by (auto split: sum.splits simp: prod_eq_iff)
  from batch_answers_every_url [OF sample_run_of sample_start sample_ports_ok b] b show ?thesis by auto
qed

end
