(* ===== verification/Sign_In.thy ===== *)
theory Sign_In
  imports Sessions Rate_Limit Sha256
begin

text \<open>
  Signing in and the flows around it: the repositories of e-mail verifications and password
  resets, the password part of \<^verbatim>\<open>infrastructure/auth/jwt_auth_service.py\<close>,
  \<^verbatim>\<open>update_password\<close> of the user service, and the use cases of
  \<^verbatim>\<open>application/use_cases/auth\<close>: \<^verbatim>\<open>login\<close>, \<^verbatim>\<open>register\<close>, \<^verbatim>\<open>verify_email\<close>,
  \<^verbatim>\<open>resend_verification\<close>, \<^verbatim>\<open>request_password_reset\<close>, \<^verbatim>\<open>reset_password\<close> and
  \<^verbatim>\<open>change_password\<close>.

  \<^verbatim>\<open>bcrypt\<close> is not part of the sources: its two calls are parameters, the second one being
  \<open>None\<close> where it raises \<^verbatim>\<open>ValueError\<close>. The task queue is a parameter as well: whether it
  takes a message. A message handed to it is part of the outcome, with the token it carries.
  The comparison with a decoy hash when no account has the address only takes time.
\<close>

section \<open>Ports and answers\<close>

record auth_ports =
  ap_hashpw :: "string \<Rightarrow> string"
  ap_checkpw :: "string \<Rightarrow> string \<Rightarrow> bool option"

datatype mail = VerificationMail string string | PasswordResetMail string string | AccountExistsMail string

datatype handoff_outcome = SENT | NOTHING_TO_SEND | NOT_HANDED_OFF

record user_response =
  ux_id :: ident
  ux_email :: string
  ux_roles :: "string list"
  ux_is_active :: bool
  ux_email_verified :: bool
  ux_created_at :: moment
  ux_last_login :: "moment option"

definition from_user :: "user \<Rightarrow> user_response" where
  "from_user u =
     \<lparr>ux_id = us_id u, ux_email = us_email u, ux_roles = map rl_name (us_roles u), ux_is_active = us_is_active u,
      ux_email_verified = us_email_verified u, ux_created_at = us_created_at u, ux_last_login = us_last_login u\<rparr>"

record login_response =
  lr_access_token :: string
  lr_refresh_token :: string
  lr_user :: user_response

record failure_budget =
  fb_limit :: int
  fb_period :: int

text \<open>\<^verbatim>\<open>hashlib.sha256(s.encode("utf-8")).hexdigest()\<close>.\<close>

definition sha256_hex :: "string \<Rightarrow> string" where
  "sha256_hex s = hexdigest (sha256 (utf8_encode s))"

abbreviation digest :: "string \<Rightarrow> string" where
  "digest \<equiv> token_digest sha256_hex"

section \<open>The repositories of one-time tokens\<close>

definition token_save_error :: "one_time_token \<Rightarrow> one_time_token list \<Rightarrow> database \<Rightarrow> exn option" where
  "token_save_error t ts db =
     (if list_ex (\<lambda>r. ot_id r \<noteq> ot_id t \<and> ot_token_hash r = ot_token_hash t) ts then Some (IntegrityError ''token_hash'')
      else if ot_user_id t \<notin> set (map ur_id (db_users db)) then Some (IntegrityError ''user_id'')
      else None)"

definition verification_save :: "one_time_token \<Rightarrow> database \<Rightarrow> (exn, database) result" where
  "verification_save t db =
     (case token_save_error t (db_verifications db) db of
        Some e \<Rightarrow> Inl e
      | None \<Rightarrow> Inr (db\<lparr>db_verifications := replace_or_append ot_id t (db_verifications db)\<rparr>))"

definition reset_save :: "one_time_token \<Rightarrow> database \<Rightarrow> (exn, database) result" where
  "reset_save t db =
     (case token_save_error t (db_resets db) db of
        Some e \<Rightarrow> Inl e
      | None \<Rightarrow> Inr (db\<lparr>db_resets := replace_or_append ot_id t (db_resets db)\<rparr>))"

text \<open>
  The conditional update of a claim, which both repositories write out: the owner of the
  token is read first, then the row is marked, if it is neither used nor expired.
\<close>

definition claim_token :: "moment \<Rightarrow> string \<Rightarrow> one_time_token list \<Rightarrow> ident option \<times> one_time_token list" where
  "claim_token now token_hash ts =
     (case List.find (\<lambda>t. ot_token_hash t = token_hash) ts of
        None \<Rightarrow> (None, ts)
      | Some row \<Rightarrow>
          (let wanted = (\<lambda>t. ot_token_hash t = token_hash \<and> ot_used_at t = None \<and> ot_expires_at t > now)
           in (if length (filter wanted ts) = 1 then Some (ot_user_id row) else None,
               map (\<lambda>t. if wanted t then t\<lparr>ot_used_at := Some now\<rparr> else t) ts)))"

definition verification_claim :: "moment \<Rightarrow> string \<Rightarrow> database \<Rightarrow> ident option \<times> database" where
  "verification_claim now token_hash db =
     (case claim_token now token_hash (db_verifications db) of (owner, ts) \<Rightarrow> (owner, db\<lparr>db_verifications := ts\<rparr>))"

definition reset_claim :: "moment \<Rightarrow> string \<Rightarrow> database \<Rightarrow> ident option \<times> database" where
  "reset_claim now token_hash db =
     (case claim_token now token_hash (db_resets db) of (owner, ts) \<Rightarrow> (owner, db\<lparr>db_resets := ts\<rparr>))"

definition verification_invalidate :: "moment \<Rightarrow> ident \<Rightarrow> database \<Rightarrow> nat \<times> database" where
  "verification_invalidate now user_id db =
     (case invalidate_tokens now user_id (db_verifications db) of (n, ts) \<Rightarrow> (n, db\<lparr>db_verifications := ts\<rparr>))"

definition reset_invalidate :: "moment \<Rightarrow> ident \<Rightarrow> database \<Rightarrow> nat \<times> database" where
  "reset_invalidate now user_id db =
     (case invalidate_tokens now user_id (db_resets db) of (n, ts) \<Rightarrow> (n, db\<lparr>db_resets := ts\<rparr>))"

definition verification_delete_expired :: "moment \<Rightarrow> database \<Rightarrow> nat \<times> database" where
  "verification_delete_expired now db =
     (case delete_spent_tokens now (db_verifications db) of (n, ts) \<Rightarrow> (n, db\<lparr>db_verifications := ts\<rparr>))"

definition reset_delete_expired :: "moment \<Rightarrow> database \<Rightarrow> nat \<times> database" where
  "reset_delete_expired now db =
     (case delete_spent_tokens now (db_resets db) of (n, ts) \<Rightarrow> (n, db\<lparr>db_resets := ts\<rparr>))"

section \<open>Passwords\<close>

definition verify_password :: "auth_ports \<Rightarrow> string \<Rightarrow> string \<Rightarrow> bool" where
  "verify_password ap plain hashed = (case ap_checkpw ap plain hashed of None \<Rightarrow> False | Some ok \<Rightarrow> ok)"

definition authenticate :: "auth_ports \<Rightarrow> string \<Rightarrow> string \<Rightarrow> database \<Rightarrow> (exn, user option) result" where
  "authenticate ap email password db =
     rbind (Email email) (\<lambda>email_vo.
     rbind (find_user_by_email email_vo db) (\<lambda>found. Inr
       (case found of
          None \<Rightarrow> None
        | Some u \<Rightarrow> if verify_password ap password (us_password_hash u) then Some u else None)))"

definition service_update_password ::
  "auth_ports \<Rightarrow> moment \<Rightarrow> user \<Rightarrow> string \<Rightarrow> database \<Rightarrow> (exn, nat \<times> user \<times> database) result" where
  "service_update_password ap now u new_password db =
     (if new_password = [] then raise_validation ''Password must not be empty'' ''password''
      else rbind (hash_password (ap_hashpw ap) new_password) (\<lambda>hashed.
        rbind (PasswordHash hashed) (\<lambda>hash_vo.
        let u1 = u\<lparr>us_password_hash := hash_vo\<rparr>
        in rbind (save_user u1 db) (\<lambda>db1.
           let db2 = snd (reset_invalidate now (us_id u) db1)
           in case revoke_all_for_user now (us_id u) db2 of (revoked, db3) \<Rightarrow> Inr (revoked, u1, db3)))))"

section \<open>Signing in\<close>

definition failure_key :: "string \<Rightarrow> string" where
  "failure_key email = ''login-failure:'' @ sha256_hex (normalise email)"

definition budget_spent :: "'l limiter_ops \<Rightarrow> failure_budget \<Rightarrow> moment \<Rightarrow> string \<Rightarrow> 'l \<Rightarrow> bool \<times> 'l" where
  "budget_spent lo fb now email st =
     (if fb_limit fb \<le> 0 then (False, st)
      else case lo_get_remaining lo now (failure_key email) (fb_limit fb) (fb_period fb) st of (n, st1) \<Rightarrow> (n \<le> 0, st1))"

definition spend_budget :: "'l limiter_ops \<Rightarrow> failure_budget \<Rightarrow> moment \<Rightarrow> string \<Rightarrow> 'l \<Rightarrow> 'l" where
  "spend_budget lo fb now email st =
     (if fb_limit fb \<le> 0 then st
      else snd (lo_is_allowed lo now (failure_key email) (fb_limit fb) (fb_period fb) st))"

definition INVALID_CREDENTIALS :: exn where
  "INVALID_CREDENTIALS = Domain (DomainError ''Invalid email or password'' ''INVALID_CREDENTIALS'')"

text \<open>
  The login. It asks the budget, compares the password, and concludes: a wrong password
  spends the budget, a right one opens a session. Other attempts run between the three, so
  the conclusion is an operation of its own. The moment of the sign-in is committed before
  the session is, so an exception while the session is stored leaves it recorded.
\<close>

definition login_conclude ::
  "'l limiter_ops \<Rightarrow> failure_budget \<Rightarrow> auth_config \<Rightarrow> moment \<Rightarrow> ident \<Rightarrow> ident \<Rightarrow> string \<Rightarrow> (exn, user option) result
   \<Rightarrow> 'l \<Rightarrow> database \<Rightarrow> (exn, login_response) result \<times> 'l \<times> database \<times> audit_event list" where
  "login_conclude lo fb ac now new_id token_id email outcome st db =
     (case outcome of
        Inl e \<Rightarrow> (Inl e, st, db, [])
      | Inr None \<Rightarrow>
          (Inl INVALID_CREDENTIALS, spend_budget lo fb now email st, db, [LoginFailed email ''invalid_credentials'' None])
      | Inr (Some u) \<Rightarrow>
          if \<not> us_is_active u
          then (Inl INVALID_CREDENTIALS, st, db, [LoginFailed email ''account_deactivated'' (Some (us_id u))])
          else if \<not> us_email_verified u
          then (Inl INVALID_CREDENTIALS, st, db, [LoginFailed email ''email_not_verified'' (Some (us_id u))])
          else
            (let u1 = u\<lparr>us_last_login := Some now\<rparr>;
                 db1 = snd (record_login (us_id u) now db)
             in case create_session_tokens ac now new_id token_id u1 db1 of
                  Inl e \<Rightarrow> (Inl e, st, db1, [])
                | Inr (tokens, db2) \<Rightarrow>
                    (Inr \<lparr>lr_access_token = rt_access_token tokens, lr_refresh_token = rt_refresh_token tokens,
                          lr_user = from_user u1\<rparr>, st, db2, [LoginSucceeded (us_id u) (us_email u)])))"

definition login ::
  "'l limiter_ops \<Rightarrow> failure_budget \<Rightarrow> auth_ports \<Rightarrow> auth_config \<Rightarrow> moment \<Rightarrow> ident \<Rightarrow> ident \<Rightarrow> string \<Rightarrow> string
   \<Rightarrow> 'l \<Rightarrow> database \<Rightarrow> (exn, login_response) result \<times> 'l \<times> database \<times> audit_event list" where
  "login lo fb ap ac now new_id token_id email password st db =
     (case budget_spent lo fb now email st of (spent, st1) \<Rightarrow>
        if spent then (Inl INVALID_CREDENTIALS, st1, db, [LoginFailed email ''too_many_failures'' None])
        else login_conclude lo fb ac now new_id token_id email (authenticate ap email password db) st1 db)"

section \<open>Registration\<close>

definition REGISTRATION_UNAVAILABLE :: exn where
  "REGISTRATION_UNAVAILABLE = Domain (DomainError ''Registration is unavailable'' ''REGISTRATION_UNAVAILABLE'')"

text \<open>The transaction: nothing when the address has an account, else the new account.\<close>

definition register_tx ::
  "string \<Rightarrow> int \<Rightarrow> moment \<Rightarrow> ident \<Rightarrow> ident \<Rightarrow> string \<Rightarrow> email \<Rightarrow> string \<Rightarrow> database \<Rightarrow> (exn, user option \<times> database) result" where
  "register_tx default_role_name ttl_hours now new_id verification_id token email_vo hash_vo db =
     rbind (find_user_by_email email_vo db) (\<lambda>found.
     if found \<noteq> None then Inr (None, db)
     else case get_role_by_name default_role_name db of
       None \<Rightarrow> Inl REGISTRATION_UNAVAILABLE
     | Some r \<Rightarrow>
         (case require_roles_are_assignable [r] of
            Inl _ \<Rightarrow> Inl REGISTRATION_UNAVAILABLE
          | Inr _ \<Rightarrow>
              rbind (user_create now new_id email_vo hash_vo [r] False) (\<lambda>u.
              rbind (save_user u db) (\<lambda>db1.
              rbind (verification_save (verification_issue now verification_id (us_id u) (digest token) ttl_hours) db1) (\<lambda>db2.
              Inr (Some u, db2))))))"

definition register ::
  "auth_ports \<Rightarrow> string \<Rightarrow> int \<Rightarrow> moment \<Rightarrow> ident \<Rightarrow> ident \<Rightarrow> string \<Rightarrow> string \<Rightarrow> string \<Rightarrow> database
   \<Rightarrow> (exn, unit) result \<times> database \<times> mail list \<times> audit_event list" where
  "register ap default_role_name ttl_hours now new_id verification_id token email password db =
     (case Email email of
        Inl e \<Rightarrow> (Inl e, db, [], [])
      | Inr email_vo \<Rightarrow>
          (case rbind (hash_password (ap_hashpw ap) password) PasswordHash of
             Inl e \<Rightarrow> (Inl e, db, [], [])
           | Inr hash_vo \<Rightarrow>
               (case register_tx default_role_name ttl_hours now new_id verification_id token email_vo hash_vo db of
                  Inl (Domain e) \<Rightarrow>
                    if is_validation_error e \<and> err_field e = Some ''email'' then (Inr (), db, [AccountExistsMail email_vo], [])
                    else (Inl (Domain e), db, [], [])
                | Inl e \<Rightarrow> (Inl e, db, [], [])
                | Inr (None, db1) \<Rightarrow> (Inr (), db1, [AccountExistsMail email_vo], [])
                | Inr (Some u, db1) \<Rightarrow>
                    (Inr (), db1, [VerificationMail email_vo token], [Registered (us_id u) email_vo]))))"

section \<open>Confirming an address and replacing a password\<close>

definition verify_email :: "moment \<Rightarrow> string \<Rightarrow> database \<Rightarrow> (exn, database \<times> audit_event list) result" where
  "verify_email now token db =
     (case verification_claim now (digest token) db of
        (None, _) \<Rightarrow> raise_validation ''This confirmation link is not valid'' ''token''
      | (Some user_id, db1) \<Rightarrow>
          rbind (find_user_by_id user_id db1) (\<lambda>found.
          case found of
            None \<Rightarrow> raise_validation ''This confirmation link is not valid'' ''token''
          | Some u \<Rightarrow> rbind (save_user (u\<lparr>us_email_verified := True\<rparr>) db1) (\<lambda>db2. Inr (db2, [EmailConfirmed user_id]))))"

definition resend_verification ::
  "(mail \<Rightarrow> bool) \<Rightarrow> int \<Rightarrow> moment \<Rightarrow> ident \<Rightarrow> string \<Rightarrow> string \<Rightarrow> database
   \<Rightarrow> (exn, handoff_outcome \<times> database \<times> mail list) result" where
  "resend_verification accepts ttl_hours now new_id token email db =
     rbind (Email email) (\<lambda>email_vo.
     rbind (find_user_by_email email_vo db) (\<lambda>found.
     case found of
       None \<Rightarrow> Inr (NOTHING_TO_SEND, db, [])
     | Some u \<Rightarrow>
         if us_email_verified u then Inr (NOTHING_TO_SEND, db, [])
         else
           (let db1 = snd (verification_invalidate now (us_id u) db); m = VerificationMail email_vo token
            in rbind (verification_save (verification_issue now new_id (us_id u) (digest token) ttl_hours) db1) (\<lambda>db2.
               Inr (if accepts m then SENT else NOT_HANDED_OFF, db2, [m])))))"

definition request_password_reset ::
  "(mail \<Rightarrow> bool) \<Rightarrow> int \<Rightarrow> moment \<Rightarrow> ident \<Rightarrow> string \<Rightarrow> string \<Rightarrow> database
   \<Rightarrow> (exn, handoff_outcome \<times> database \<times> mail list) result" where
  "request_password_reset accepts ttl_minutes now new_id token email db =
     rbind (Email email) (\<lambda>email_vo.
     rbind (find_user_by_email email_vo db) (\<lambda>found.
     case found of
       None \<Rightarrow> Inr (NOTHING_TO_SEND, db, [])
     | Some u \<Rightarrow>
         if \<not> (us_is_active u \<and> us_email_verified u) then Inr (NOTHING_TO_SEND, db, [])
         else
           (let db1 = snd (reset_invalidate now (us_id u) db); m = PasswordResetMail email_vo token
            in rbind (reset_save (reset_issue now new_id (us_id u) (digest token) ttl_minutes) db1) (\<lambda>db2.
               Inr (if accepts m then SENT else NOT_HANDED_OFF, db2, [m])))))"

definition reset_password ::
  "auth_ports \<Rightarrow> moment \<Rightarrow> string \<Rightarrow> string \<Rightarrow> database \<Rightarrow> (exn, database \<times> audit_event list) result" where
  "reset_password ap now token new_password db =
     (case reset_claim now (digest token) db of
        (None, _) \<Rightarrow> raise_validation ''This reset link is not valid'' ''token''
      | (Some user_id, db1) \<Rightarrow>
          rbind (find_user_by_id user_id db1) (\<lambda>found.
          case found of
            None \<Rightarrow> raise_validation ''This reset link is not valid'' ''token''
          | Some u \<Rightarrow>
              if \<not> us_is_active u then raise_validation ''This reset link is not valid'' ''token''
              else rbind (service_update_password ap now u new_password db1) (\<lambda>(revoked, u1, db2).
                Inr (db2, [PasswordWasReset (us_id u) revoked]))))"

text \<open>The session of the caller is opened after the commit that ended the others.\<close>

definition change_password ::
  "auth_ports \<Rightarrow> auth_config \<Rightarrow> moment \<Rightarrow> ident \<Rightarrow> ident \<Rightarrow> ident \<Rightarrow> string \<Rightarrow> string \<Rightarrow> database
   \<Rightarrow> (exn, refreshed_tokens) result \<times> database \<times> audit_event list" where
  "change_password ap ac now new_id token_id user_id current_password new_password db =
     (case rbind (find_user_by_id user_id db) (\<lambda>found.
        case found of
          None \<Rightarrow> Inl (Domain (DomainError ''Authentication required'' ''UNAUTHENTICATED''))
        | Some u \<Rightarrow>
            if \<not> verify_password ap current_password (us_password_hash u)
            then raise_validation ''Current password is not correct'' ''current_password''
            else if verify_password ap new_password (us_password_hash u)
            then raise_validation ''The new password must differ from the current one'' ''new_password''
            else service_update_password ap now u new_password db) of
        Inl e \<Rightarrow> (Inl e, db, [])
      | Inr (revoked, u1, db1) \<Rightarrow>
          (case create_session_tokens ac now new_id token_id u1 db1 of
             Inl e \<Rightarrow> (Inl e, db1, [])
           | Inr (tokens, db2) \<Rightarrow> (Inr tokens, db2, [PasswordChanged (us_id u1) revoked])))"

definition resend_user_verification ::
  "(mail \<Rightarrow> bool) \<Rightarrow> int \<Rightarrow> moment \<Rightarrow> ident \<Rightarrow> string \<Rightarrow> ident \<Rightarrow> request_context \<Rightarrow> database
   \<Rightarrow> (exn, string \<times> handoff_outcome \<times> database \<times> mail list) result" where
  "resend_user_verification accepts ttl_hours now new_id token user_id cx db =
     rbind (require_may_act_on_user cx db user_id) (\<lambda>_.
     rbind (find_user_by_id user_id db) (\<lambda>found.
     case found of
       None \<Rightarrow> Inl (Domain (UserNotFoundError user_id))
     | Some u \<Rightarrow>
         rbind (resend_verification accepts ttl_hours now new_id token (us_email u) db) (\<lambda>(outcome, db1, mails).
         Inr (us_email u, outcome, db1, mails))))"

section \<open>Lemmas\<close>

lemma find_user_by_email_Some:
  assumes "find_user_by_email e db = Inr (Some u)"
  obtains m where "m \<in> set (db_users db)" "ur_email m = e" "user_to_domain db m = Inr u" "us_email u = e" "us_id u = ur_id m"
  using assms unfolding find_user_by_email_def by (rule find_user_Some) (auto dest: user_to_domain_Inr)

lemma find_user_member: "find_user P db = Inr (Some u) \<Longrightarrow> us_id u \<in> set (map ur_id (db_users db))"
  by (erule find_user_Some) (auto dest!: user_to_domain_Inr)

lemma record_login_ids [simp]:
  "map ur_id (db_users (snd (record_login i n db))) = map ur_id (db_users db)"
  by (simp add: record_login_def comp_def if_distrib [of ur_id] cong: if_cong)

lemma record_login_tables [simp]:
  "db_sessions (snd (record_login i n db)) = db_sessions db" "db_roles (snd (record_login i n db)) = db_roles db"
  "db_permissions (snd (record_login i n db)) = db_permissions db"
  "db_verifications (snd (record_login i n db)) = db_verifications db" "db_resets (snd (record_login i n db)) = db_resets db"
  by (simp_all add: record_login_def)

lemma create_session_tokens_total:
  assumes "us_id u \<in> set (map ur_id (db_users db))" and "t \<notin> rs_token_id ` set (db_sessions db)"
  obtains tk db' where "create_session_tokens ac now i t u db = Inr (tk, db')"
proof -
  have "\<not> list_ex (\<lambda>r. rs_id r \<noteq> i \<and> rs_token_id r = t) (db_sessions db)"
    unfolding list_ex_iff using assms(2) by (metis imageI)
  with assms(1) show thesis by (auto simp: create_session_tokens_def Let_def session_save_def intro: that)
qed

lemma authenticate_Some:
  "authenticate ap email password db = Inr (Some u) \<longleftrightarrow>
     (\<exists>e. Email email = Inr e \<and> find_user_by_email e db = Inr (Some u) \<and> verify_password ap password (us_password_hash u))"
  by (auto simp: authenticate_def result_simps split: option.splits if_splits)

text \<open>
  What the login makes of an address that is well formed and a row that can be read: who
  may enter, and the one answer for everybody else.
\<close>

definition may_enter :: "auth_ports \<Rightarrow> string \<Rightarrow> user option \<Rightarrow> bool" where
  "may_enter ap password found \<longleftrightarrow>
     (case found of None \<Rightarrow> False
      | Some u \<Rightarrow> verify_password ap password (us_password_hash u) \<and> us_is_active u \<and> us_email_verified u)"

lemma login_refuses:
  assumes "Email email = Inr e" and "find_user_by_email e db = Inr found"
    and "fst (budget_spent lo fb now email st) \<or> \<not> may_enter ap password found"
    and "login lo fb ap ac now i t email password st db = (r, st', db', evs)"
  shows "r = Inl INVALID_CREDENTIALS \<and> db' = db \<and> (\<exists>reason who. evs = [LoginFailed email reason who])"
proof -
  obtain spent st1 where b: "budget_spent lo fb now email st = (spent, st1)" by (rule prod.exhaust)
  show ?thesis
  proof (cases spent)
    case True
    with assms(4) b show ?thesis by (auto simp: login_def login_conclude_def)
  next
    case False
    with assms(3) b have no: "\<not> may_enter ap password found" by simp
    show ?thesis
    proof (cases found)
      case None
      with assms False b show ?thesis by (auto simp: login_def login_conclude_def authenticate_def)
    next
      case (Some u)
      with assms(1,2,4) False b no show ?thesis by (auto simp: login_def login_conclude_def authenticate_def may_enter_def split: if_splits)
    qed
  qed
qed

lemma login_admits:
  assumes "Email email = Inr e" and "find_user_by_email e db = Inr (Some u)"
    and "\<not> fst (budget_spent lo fb now email st)" and "may_enter ap password (Some u)"
    and fresh: "t \<notin> rs_token_id ` set (db_sessions db)"
  obtains tk db' where "create_session_tokens ac now i t (u\<lparr>us_last_login := Some now\<rparr>) (snd (record_login (us_id u) now db)) = Inr (tk, db')"
    "login lo fb ap ac now i t email password st db =
       (Inr \<lparr>lr_access_token = rt_access_token tk, lr_refresh_token = rt_refresh_token tk,
             lr_user = from_user (u\<lparr>us_last_login := Some now\<rparr>)\<rparr>,
        snd (budget_spent lo fb now email st), db', [LoginSucceeded (us_id u) (us_email u)])"
proof -
  let ?u = "u\<lparr>us_last_login := Some now\<rparr>" and ?db = "snd (record_login (us_id u) now db)"
  have "us_id ?u \<in> set (map ur_id (db_users ?db))"
    unfolding record_login_ids using find_user_member assms(2) unfolding find_user_by_email_def by fastforce
  moreover have "t \<notin> rs_token_id ` set (db_sessions ?db)" unfolding record_login_tables by (rule fresh)
  ultimately obtain tk db' where tk: "create_session_tokens ac now i t ?u ?db = Inr (tk, db')"
    by (rule create_session_tokens_total)
  obtain spent st1 where b: "budget_spent lo fb now email st = (spent, st1)" by (rule prod.exhaust)
  have "authenticate ap email password db = Inr (Some u)" using assms by (auto simp: authenticate_Some may_enter_def)
  with tk b assms(3,4) show thesis by (intro that [OF tk]) (simp add: login_def login_conclude_def may_enter_def)
qed

section \<open>Guessing\<close>

text \<open>
  A sequence of login attempts, each with its moment, the identifiers it draws, the address,
  the password and the database it finds, and the moments at which a password was compared
  and found wrong for the addresses that share a key.
\<close>

type_synonym attempt = "moment \<times> ident \<times> ident \<times> string \<times> string \<times> database"

fun wrong_guesses ::
  "failure_budget \<Rightarrow> auth_ports \<Rightarrow> auth_config \<Rightarrow> string \<Rightarrow> attempt list \<Rightarrow> memory_limiter \<Rightarrow> moment list" where
  "wrong_guesses fb ap ac key [] st = []"
| "wrong_guesses fb ap ac key ((now, i, t, email, password, db) # as) st =
     (case login memory_limiter_ops fb ap ac now i t email password st db of (r, st1, _, evs) \<Rightarrow>
        (if failure_key email = key \<and> evs = [LoginFailed email ''invalid_credentials'' None] then [now] else [])
        @ wrong_guesses fb ap ac key as st1)"

lemma memory_budget_spent:
  "0 < fb_limit fb \<Longrightarrow> budget_spent memory_limiter_ops fb now email st =
     (fb_limit fb \<le> int (length (filter (\<lambda>ts. ts > now - fb_period fb * second) (st (failure_key email)))), st)"
  by (auto simp: budget_spent_def memory_limiter_ops_def ml_get_remaining_def)

lemma login_limiter:
  assumes limit: "0 < fb_limit fb" and run: "login memory_limiter_ops fb ap ac now i t email password st db = (r, st1, db1, evs)"
  shows "if evs = [LoginFailed email ''invalid_credentials'' None]
         then int (length (filter (\<lambda>ts. ts > now - fb_period fb * second) (st (failure_key email)))) < fb_limit fb
           \<and> st1 = st(failure_key email := filter (\<lambda>ts. ts > now - fb_period fb * second) (st (failure_key email)) @ [now])
         else st1 = st"
proof -
  let ?kept = "filter (\<lambda>ts. ts > now - fb_period fb * second) (st (failure_key email))"
  have spend: "spend_budget memory_limiter_ops fb now email st = st(failure_key email := ?kept @ [now])"
    if "int (length ?kept) < fb_limit fb"
    using limit that by (simp add: spend_budget_def memory_limiter_ops_def ml_is_allowed_def Let_def)
  show ?thesis
  proof (cases "fb_limit fb \<le> int (length ?kept)")
    case True
    with run show ?thesis by (auto simp: login_def login_conclude_def memory_budget_spent [OF limit])
  next
    case False
    show ?thesis
    proof (cases "authenticate ap email password db = Inr None")
      case True
      with False run spend show ?thesis by (auto simp: login_def login_conclude_def memory_budget_spent [OF limit])
    next
      case no: False
      with False run show ?thesis
        by (auto simp: login_def login_conclude_def memory_budget_spent [OF limit] Let_def split: sum.splits option.splits if_splits prod.splits)
    qed
  qed
qed

lemma wrong_guesses_inv:
  assumes "0 < fb_limit fb" and "0 < fb_period fb"
    and "sorted (map fst as)" and "\<forall>a \<in> set as. t0 \<le> fst a" and "window_inv (fb_limit fb) (fb_period fb) t0 acc (st key)"
  shows "int (in_window (fb_period fb) n (acc @ wrong_guesses fb ap ac key as st)) \<le> fb_limit fb"
  using assms(3-5)
proof (induction as arbitrary: t0 acc st)
  case Nil
  have "int (in_window (fb_period fb) n acc) \<le> max 0 (fb_limit fb)" using Nil(3) by (simp add: window_inv_def)
  then show ?case using assms(1) by simp
next
  case (Cons a as)
  obtain now i t email password db where a: "a = (now, i, t, email, password, db)" by (metis surj_pair)
  obtain r st1 db1 evs where run: "login memory_limiter_ops fb ap ac now i t email password st db = (r, st1, db1, evs)"
    by (metis surj_pair)
  have le: "t0 \<le> now" using Cons.prems(2) a by simp
  have rest: "sorted (map fst as)" "\<forall>x \<in> set as. now \<le> fst x" using Cons.prems(1) a by auto
  let ?guess = "failure_key email = key \<and> evs = [LoginFailed email ''invalid_credentials'' None]"
  have "window_inv (fb_limit fb) (fb_period fb) now (acc @ (if ?guess then [now] else [])) (st1 key)"
  proof (cases ?guess)
    case True
    with login_limiter [OF assms(1) run] have "int (length (filter (\<lambda>ts. ts > now - fb_period fb * second) (st key))) < fb_limit fb"
      "st1 key = filter (\<lambda>ts. ts > now - fb_period fb * second) (st key) @ [now]" by auto
    then show ?thesis using window_inv_pass [OF Cons.prems(3) le assms(2)] True by simp
  next
    case False
    with login_limiter [OF assms(1) run] have "st1 key = st key" by (auto split: if_splits)
    then show ?thesis using window_inv_later [OF Cons.prems(3) le] False by auto
  qed
  from Cons.IH [of now "acc @ (if ?guess then [now] else [])" st1, OF rest this] show ?case by (simp add: a run)
qed

subsection \<open>Attempts that interleave\<close>

text \<open>
  Several attempts at once, each identified by a number: the one that asks the budget is let
  on or is refused, then compares a password with the database of that moment, then concludes
  with the limiter and the database of that moment. Besides, per key, the number of wrong
  guesses that have come to their end is counted, and an attempt keeps the count it found when
  it asked: it was overtaken when the count is another when it concludes.
\<close>

datatype login_phase = Idle | Asked string nat | Compared string nat "(exn, user option) result"

record attempts =
  at_limiter :: memory_limiter
  at_phase :: "nat \<Rightarrow> login_phase"
  at_guesses :: "string \<Rightarrow> nat"

datatype attempt_event =
    Asks nat moment string
  | Compares nat moment string database
  | Concludes nat moment ident ident database

fun event_moment :: "attempt_event \<Rightarrow> moment" where
  "event_moment (Asks n now email) = now"
| "event_moment (Compares n now password db) = now"
| "event_moment (Concludes n now i t db) = now"

text \<open>The step of one attempt, with the wrong guess it ends in: its moment, its key, whether it was overtaken.\<close>

fun attempt_step ::
  "failure_budget \<Rightarrow> auth_ports \<Rightarrow> auth_config \<Rightarrow> attempt_event \<Rightarrow> attempts \<Rightarrow> (moment \<times> string \<times> bool) list \<times> attempts" where
  "attempt_step fb ap ac (Asks n now email) s =
     (case budget_spent memory_limiter_ops fb now email (at_limiter s) of (spent, st1) \<Rightarrow>
        ([], s\<lparr>at_limiter := st1, at_phase := (at_phase s)(n := if spent then Idle else Asked email (at_guesses s (failure_key email)))\<rparr>))"
| "attempt_step fb ap ac (Compares n now password db) s =
     (case at_phase s n of
        Asked email seen \<Rightarrow> ([], s\<lparr>at_phase := (at_phase s)(n := Compared email seen (authenticate ap email password db))\<rparr>)
      | _ \<Rightarrow> ([], s))"
| "attempt_step fb ap ac (Concludes n now i t db) s =
     (case at_phase s n of
        Compared email seen outcome \<Rightarrow>
          (case login_conclude memory_limiter_ops fb ac now i t email outcome (at_limiter s) db of (r, st1, db1, evs) \<Rightarrow>
             let s1 = s\<lparr>at_limiter := st1, at_phase := (at_phase s)(n := Idle)\<rparr>; key = failure_key email
             in if evs = [LoginFailed email ''invalid_credentials'' None]
                then ([(now, key, at_guesses s key \<noteq> seen)], s1\<lparr>at_guesses := (at_guesses s)(key := Suc (at_guesses s key))\<rparr>)
                else ([], s1))
      | _ \<Rightarrow> ([], s))"

fun attempt_run ::
  "failure_budget \<Rightarrow> auth_ports \<Rightarrow> auth_config \<Rightarrow> attempt_event list \<Rightarrow> attempts \<Rightarrow> (moment \<times> string \<times> bool) list" where
  "attempt_run fb ap ac [] s = []"
| "attempt_run fb ap ac (e # es) s = (case attempt_step fb ap ac e s of (gs, s1) \<Rightarrow> gs @ attempt_run fb ap ac es s1)"

definition no_attempts :: attempts where
  "no_attempts = \<lparr>at_limiter = (\<lambda>_. []), at_phase = (\<lambda>_. Idle), at_guesses = (\<lambda>_. 0)\<rparr>"

text \<open>The wrong guesses under a key that no other one of the key overtook.\<close>

definition not_overtaken :: "string \<Rightarrow> (moment \<times> string \<times> bool) list \<Rightarrow> moment list" where
  "not_overtaken key gs = map fst (filter (\<lambda>(now, k, overtaken). k = key \<and> \<not> overtaken) gs)"

lemma not_overtaken_simps [simp]:
  "not_overtaken key [] = []"
  "not_overtaken key ((now, k, overtaken) # gs) = (if k = key \<and> \<not> overtaken then [now] else []) @ not_overtaken key gs"
  "not_overtaken key (gs @ gs') = not_overtaken key gs @ not_overtaken key gs'"
  by (auto simp: not_overtaken_def)

text \<open>
  What holds of a key in between: the storage against the recorded guesses, and an attempt
  that found the count it still has also still finds budget.
\<close>

fun seen_guesses :: "login_phase \<Rightarrow> (string \<times> nat) option" where
  "seen_guesses Idle = None"
| "seen_guesses (Asked email seen) = Some (failure_key email, seen)"
| "seen_guesses (Compared email seen outcome) = Some (failure_key email, seen)"

definition guess_inv :: "failure_budget \<Rightarrow> string \<Rightarrow> moment \<Rightarrow> moment list \<Rightarrow> attempts \<Rightarrow> bool" where
  "guess_inv fb key now acc s \<longleftrightarrow>
     window_inv (fb_limit fb) (fb_period fb) now acc (at_limiter s key) \<and>
     (\<forall>n t. seen_guesses (at_phase s n) = Some (key, at_guesses s key) \<longrightarrow> now \<le> t \<longrightarrow>
        int (length (filter (\<lambda>ts. ts > t - fb_period fb * second) (at_limiter s key))) < fb_limit fb) \<and>
     (\<forall>n seen. seen_guesses (at_phase s n) = Some (key, seen) \<longrightarrow> seen \<le> at_guesses s key)"

lemma guess_inv_later:
  assumes "guess_inv fb key now acc s" and "now \<le> now'" and "at_limiter s' key = at_limiter s key" and "at_guesses s' key = at_guesses s key"
    and "\<And>n. seen_guesses (at_phase s' n) = None \<or> seen_guesses (at_phase s' n) = seen_guesses (at_phase s n)"
  shows "guess_inv fb key now' acc s'"
  unfolding guess_inv_def assms(3,4)
proof (intro conjI allI impI)
  show "window_inv (fb_limit fb) (fb_period fb) now' acc (at_limiter s key)"
    using assms(1,2) window_inv_later by (auto simp: guess_inv_def)
  fix n
  show "int (length (filter (\<lambda>ts. ts > t - fb_period fb * second) (at_limiter s key))) < fb_limit fb"
    if "seen_guesses (at_phase s' n) = Some (key, at_guesses s key)" "now' \<le> t" for t
    using assms(1,2) assms(5) [of n] that unfolding guess_inv_def by (metis order_trans option.distinct(1))
  show "seen \<le> at_guesses s key" if "seen_guesses (at_phase s' n) = Some (key, seen)" for seen
    using assms(1) assms(5) [of n] that unfolding guess_inv_def by (metis option.distinct(1))
qed

lemma window_shrinks: "now \<le> t \<Longrightarrow> length (filter (\<lambda>ts. ts > t - p) xs) \<le> length (filter (\<lambda>ts. (ts :: int) > now - p) xs)"
  by (induction xs) auto

lemma guess_inv_asks:
  assumes "guess_inv fb key now acc s" and "now \<le> now'" and "0 < fb_limit fb"
    and "attempt_step fb ap ac (Asks n now' email) s = (gs, s')"
  shows "gs = [] \<and> guess_inv fb key now' acc s'"
proof -
  let ?spent = "fb_limit fb \<le> int (length (filter (\<lambda>ts. ts > now' - fb_period fb * second) (at_limiter s (failure_key email))))"
  let ?phase = "if ?spent then Idle else Asked email (at_guesses s (failure_key email))"
  have s': "gs = []" "s' = s\<lparr>at_limiter := at_limiter s, at_phase := (at_phase s)(n := ?phase)\<rparr>"
    using assms(4) by (auto simp: memory_budget_spent [OF assms(3)])
  have later: "guess_inv fb key now' acc s" by (rule guess_inv_later [OF assms(1,2)]) auto
  have fields: "at_limiter s' = at_limiter s" "at_guesses s' = at_guesses s" "at_phase s' = (at_phase s)(n := ?phase)"
    by (simp_all add: s'(2))
  have "guess_inv fb key now' acc s'"
    unfolding guess_inv_def fields
  proof (intro conjI allI impI)
    show "window_inv (fb_limit fb) (fb_period fb) now' acc (at_limiter s key)" using later by (simp add: guess_inv_def)
    fix m
    show "int (length (filter (\<lambda>ts. ts > t - fb_period fb * second) (at_limiter s key))) < fb_limit fb"
      if "seen_guesses (((at_phase s)(n := ?phase)) m) = Some (key, at_guesses s key)" "now' \<le> t" for t
    proof (cases "m = n")
      case True
      then have "\<not> ?spent" "failure_key email = key" using that(1) by (auto split: if_splits)
      then show ?thesis using window_shrinks [OF that(2), of "fb_period fb * second" "at_limiter s key"] by simp
    next
      case False
      then show ?thesis using later that unfolding guess_inv_def by auto
    qed
    show "seen \<le> at_guesses s key" if "seen_guesses (((at_phase s)(n := ?phase)) m) = Some (key, seen)" for seen
    proof (cases "m = n")
      case True
      then show ?thesis using that by (auto split: if_splits)
    next
      case False
      then show ?thesis using later that unfolding guess_inv_def by auto
    qed
  qed
  with s'(1) show ?thesis by simp
qed

lemma guess_inv_concludes:
  assumes inv: "guess_inv fb key now acc s" and le: "now \<le> now'" and pos: "0 < fb_limit fb" "0 < fb_period fb"
    and step: "attempt_step fb ap ac (Concludes n now' i t db) s = (gs, s')"
  shows "\<exists>new. guess_inv fb key now' (acc @ new) s' \<and> not_overtaken key gs \<in> {[], new}"
proof (cases "\<exists>email seen. at_phase s n = Compared email seen (Inr None)")
  case False
  then have "gs = [] \<and> at_limiter s' = at_limiter s \<and> at_guesses s' = at_guesses s \<and> (at_phase s' = at_phase s \<or> at_phase s' = (at_phase s)(n := Idle))"
    using step by (auto simp: login_conclude_def Let_def split: login_phase.splits sum.splits option.splits if_splits prod.splits)
  then have "guess_inv fb key now' (acc @ []) s' \<and> not_overtaken key gs = []"
    using guess_inv_later [OF inv le, of s'] by auto
  then show ?thesis by blast
next
  case True
  then obtain email seen where phase: "at_phase s n = Compared email seen (Inr None)" by blast
  let ?k = "failure_key email" and ?kept = "filter (\<lambda>ts. ts > now' - fb_period fb * second) (at_limiter s key)"
  let ?b = "int (length ?kept) < fb_limit fb"
  have s': "gs = [(now', ?k, at_guesses s ?k \<noteq> seen)]" "at_phase s' = (at_phase s)(n := Idle)"
      "at_guesses s' = (at_guesses s)(?k := Suc (at_guesses s ?k))"
      "at_limiter s' = snd (ml_is_allowed now' ?k (fb_limit fb) (fb_period fb) (at_limiter s))"
    using step pos(1) by (auto simp: phase login_conclude_def spend_budget_def memory_limiter_ops_def Let_def)
  show ?thesis
  proof (cases "?k = key")
    case False
    then have "guess_inv fb key now' (acc @ []) s' \<and> not_overtaken key gs = []"
      using guess_inv_later [OF inv le, of s'] s' by (auto simp: ml_is_allowed_def Let_def)
    then show ?thesis by blast
  next
    case key: True
    have kept: "at_limiter s' key = (if ?b then ?kept @ [now'] else ?kept)"
      using s'(4) key by (auto simp: ml_is_allowed_def Let_def)
    have w: "window_inv (fb_limit fb) (fb_period fb) now acc (at_limiter s key)" using inv by (simp add: guess_inv_def)
    let ?new = "if ?b then [now'] else []"
    have "window_inv (fb_limit fb) (fb_period fb) now' (acc @ ?new) (at_limiter s' key)"
      using window_inv_pass [OF w le pos(2)] window_inv_prune(2) [OF w le] kept by auto
    moreover have "seen' < at_guesses s' key" if "seen_guesses (at_phase s' m) = Some (key, seen')" for m seen'
      using inv that s'(2,3) key unfolding guess_inv_def by (auto simp: less_Suc_eq_le split: if_splits)
    ultimately have "guess_inv fb key now' (acc @ ?new) s'" unfolding guess_inv_def by (metis less_imp_le less_irrefl)
    moreover have "?b" if "at_guesses s ?k = seen"
      using inv phase key that le unfolding guess_inv_def by (metis seen_guesses.simps(3))
    then have "not_overtaken key gs \<in> {[], ?new}" using s'(1) key by auto
    ultimately show ?thesis by blast
  qed
qed

lemma guess_inv_step:
  assumes "guess_inv fb key now acc s" and "now \<le> event_moment e" and "0 < fb_limit fb" "0 < fb_period fb"
    and "attempt_step fb ap ac e s = (gs, s')"
  shows "\<exists>new. guess_inv fb key (event_moment e) (acc @ new) s' \<and> not_overtaken key gs \<in> {[], new}"
proof (cases e)
  case (Asks n now' email)
  with guess_inv_asks [OF assms(1) _ assms(3)] assms(2,5) have "gs = [] \<and> guess_inv fb key (event_moment e) (acc @ []) s'" by auto
  then show ?thesis by (metis insertI1 not_overtaken_simps(1))
next
  case (Compares n now' password db)
  then have "gs = [] \<and> guess_inv fb key (event_moment e) (acc @ []) s'"
    using assms(5) guess_inv_later [OF assms(1,2), of s'] by (auto split: login_phase.splits)
  then show ?thesis by (metis insertI1 not_overtaken_simps(1))
next
  case (Concludes n now' i t db)
  with guess_inv_concludes [OF assms(1) _ assms(3,4)] assms(2,5) show ?thesis by auto
qed

lemma in_window_append [simp]:
  "in_window period t [] = 0" "in_window period t (xs @ ys) = in_window period t xs + in_window period t ys"
  by (simp_all add: in_window_def)

lemma attempt_run_bounded:
  assumes "0 < fb_limit fb" "0 < fb_period fb" and "sorted (map event_moment es)" and "\<forall>e \<in> set es. t0 \<le> event_moment e"
    and "guess_inv fb key t0 acc s" and "in_window (fb_period fb) t done_before \<le> in_window (fb_period fb) t acc"
  shows "int (in_window (fb_period fb) t (done_before @ not_overtaken key (attempt_run fb ap ac es s))) \<le> fb_limit fb"
  using assms(3-6)
proof (induction es arbitrary: t0 acc s done_before)
  case Nil
  have "int (in_window (fb_period fb) t acc) \<le> max 0 (fb_limit fb)" using Nil.prems(3) by (simp add: guess_inv_def window_inv_def)
  with Nil.prems(4) assms(1) show ?case by simp
next
  case (Cons e es)
  obtain gs s' where step: "attempt_step fb ap ac e s = (gs, s')" by fastforce
  from guess_inv_step [OF Cons.prems(3) _ assms(1,2) step] Cons.prems(2) obtain new
    where new: "guess_inv fb key (event_moment e) (acc @ new) s'" "not_overtaken key gs \<in> {[], new}" by auto
  have "in_window (fb_period fb) t (done_before @ not_overtaken key gs) \<le> in_window (fb_period fb) t (acc @ new)"
    using new(2) Cons.prems(4) by auto
  from Cons.IH [OF _ _ new(1) this] Cons.prems(1) show ?case by (simp add: step add.assoc)
qed

section \<open>New accounts and new passwords\<close>

lemma verification_save_Inr:
  assumes "ot_token_hash t \<notin> ot_token_hash ` set (db_verifications db)" and "ot_user_id t \<in> set (map ur_id (db_users db))"
  shows "verification_save t db = Inr (db\<lparr>db_verifications := replace_or_append ot_id t (db_verifications db)\<rparr>)"
proof -
  have "\<not> list_ex (\<lambda>r. ot_id r \<noteq> ot_id t \<and> ot_token_hash r = ot_token_hash t) (db_verifications db)"
    unfolding list_ex_iff using assms(1) by (metis imageI)
  with assms(2) show ?thesis by (simp add: verification_save_def token_save_error_def)
qed

lemma user_to_row_fields [simp]:
  "ur_id (user_to_row u) = us_id u" "ur_email (user_to_row u) = us_email u" "ur_password_hash (user_to_row u) = us_password_hash u"
  "ur_is_active (user_to_row u) = us_is_active u" "ur_email_verified (user_to_row u) = us_email_verified u"
  "ur_role_ids (user_to_row u) = map rl_id (us_roles u)"
  by (simp_all add: user_to_row_def)

lemma save_new_user:
  assumes "\<And>r. r \<in> set (us_roles u) \<Longrightarrow> rl_id r \<in> set (map rr_id (db_roles db))" and "distinct (map rl_id (us_roles u))"
    and "us_email u \<notin> ur_email ` set (db_users db)" and "us_id u \<notin> ur_id ` set (db_users db)"
  shows "save_user u db = Inr (db\<lparr>db_users := db_users db @ [user_to_row u]\<rparr>)"
proof -
  have "List.find (\<lambda>r. rl_id r \<notin> set (map rr_id (db_roles db))) (us_roles u) = None"
    unfolding find_None_iff using assms(1) by metis
  moreover have "\<not> list_ex (\<lambda>m. ur_id m \<noteq> us_id u \<and> ur_email m = us_email u) (db_users db)"
    unfolding list_ex_iff using assms(3) by (metis imageI)
  ultimately show ?thesis using assms(2,4) by (simp add: save_user_def replace_or_append_def)
qed

text \<open>The account a registration adds, and the token it mails.\<close>

definition new_account :: "moment \<Rightarrow> ident \<Rightarrow> email \<Rightarrow> string \<Rightarrow> role \<Rightarrow> user" where
  "new_account now new_id e h r =
     \<lparr>us_id = new_id, us_email = e, us_password_hash = h, us_roles = [r], us_is_active = True, us_email_verified = False,
      us_created_at = now, us_last_login = None\<rparr>"

lemma register_taken:
  assumes "Email email = Inr e" and "rbind (hash_password (ap_hashpw ap) password) PasswordHash = Inr h"
    and "find_user_by_email e db = Inr (Some u)"
  shows "register ap d ttl now i v token email password db = (Inr (), db, [AccountExistsMail e], [])"
  using assms by (simp add: register_def register_tx_def)

lemma register_free:
  assumes "Email email = Inr e" and "rbind (hash_password (ap_hashpw ap) password) PasswordHash = Inr h"
    and free: "find_user_by_email e db = Inr None"
    and role: "get_role_by_name d db = Some r" "rl_name r \<noteq> GUEST_ROLE_NAME"
    and new: "i \<notin> ur_id ` set (db_users db)" "digest token \<notin> ot_token_hash ` set (db_verifications db)"
  shows "register ap d ttl now i v token email password db =
    (Inr (), db\<lparr>db_users := db_users db @ [user_to_row (new_account now i e h r)],
                db_verifications := replace_or_append ot_id (verification_issue now v i (digest token) ttl) (db_verifications db)\<rparr>,
     [VerificationMail e token], [Registered i e])"
proof -
  let ?u = "new_account now i e h r"
  obtain m where m: "m \<in> set (db_roles db)" "r = role_to_domain db m" using role(1) by (rule get_role_by_name_Some)
  have "e \<notin> ur_email ` set (db_users db)"
    using find_user_None [OF free [unfolded find_user_by_email_def]] by (metis (no_types, lifting) imageE)
  then have saved: "save_user ?u db = Inr (db\<lparr>db_users := db_users db @ [user_to_row ?u]\<rparr>)"
    using m new(1) by (intro save_new_user) (simp_all add: new_account_def role_to_domain_def)
  let ?db1 = "db\<lparr>db_users := db_users db @ [user_to_row ?u]\<rparr>" and ?t = "verification_issue now v i (digest token) ttl"
  have "verification_save ?t ?db1 = Inr (?db1\<lparr>db_verifications := replace_or_append ot_id ?t (db_verifications ?db1)\<rparr>)"
    by (rule verification_save_Inr) (use new(2) in \<open>simp_all add: verification_issue_def new_account_def\<close>)
  moreover have "user_create now i e h [r] False = Inr ?u"
    using role(2) by (simp add: user_create_def new_account_def)
  moreover have "us_id ?u = i" by (simp add: new_account_def)
  ultimately show ?thesis
    using assms(1-3) role saved by (simp add: register_def register_tx_def)
qed

text \<open>What replacing a password changes.\<close>

lemma service_update_password_Inr:
  assumes "service_update_password ap now u p db = Inr (n, u1, db')"
  obtains h where "hash_password (ap_hashpw ap) p = Inr h" "u1 = u\<lparr>us_password_hash := h\<rparr>"
    "save_user u1 db = Inr (db\<lparr>db_users := replace_or_append ur_id (user_to_row u1) (db_users db)\<rparr>)"
    "db_users db' = replace_or_append ur_id (user_to_row u1) (db_users db)"
    "db_resets db' = snd (invalidate_tokens now (us_id u) (db_resets db))"
    "db_sessions db' = revoke_rows now (\<lambda>s. rs_user_id s = us_id u) (db_sessions db)"
    "db_verifications db' = db_verifications db" "db_roles db' = db_roles db" "db_permissions db' = db_permissions db"
proof -
  from assms obtain hashed h db1 where h: "hash_password (ap_hashpw ap) p = Inr hashed" "PasswordHash hashed = Inr h"
    "u1 = u\<lparr>us_password_hash := h\<rparr>" "save_user u1 db = Inr db1"
    and db': "db' = snd (revoke_all_for_user now (us_id u) (snd (reset_invalidate now (us_id u) db1)))"
    by (auto simp: service_update_password_def Let_def result_simps case_prod_beta split: if_splits)
  have hh: "hashed = h" using h(2) by (simp add: PasswordHash_def split: if_splits)
  have db1: "db1 = db\<lparr>db_users := replace_or_append ur_id (user_to_row u1) (db_users db)\<rparr>"
    using h(4) by (simp add: save_user_def split: option.splits if_splits)
  show thesis
    by (rule that [of h]) (use h hh db1 in \<open>simp_all add: db' reset_invalidate_def revoke_all_for_user_def revoke_rows_def case_prod_beta\<close>)
qed

section \<open>One-time tokens\<close>

text \<open>
  What happens to a table of one-time tokens: a claim, the invalidation of an account's
  tokens, a deletion, and a new token, whose digest is among the digests drawn.
\<close>

inductive token_step :: "string set \<Rightarrow> one_time_token list \<Rightarrow> one_time_token list \<Rightarrow> bool" where
  claim: "token_step new ts (snd (claim_token now h ts))"
| invalidate: "token_step new ts (snd (invalidate_tokens now i ts))"
| remove: "token_step new ts (filter P ts)"
| issue: "ot_token_hash t \<in> new \<Longrightarrow> (\<And>r. r \<in> set ts \<Longrightarrow> ot_id r \<noteq> ot_id t \<Longrightarrow> ot_token_hash r \<noteq> ot_token_hash t)
          \<Longrightarrow> token_step new ts (replace_or_append ot_id t ts)"

abbreviation token_steps :: "string set \<Rightarrow> one_time_token list \<Rightarrow> one_time_token list \<Rightarrow> bool" where
  "token_steps new \<equiv> (token_step new)\<^sup>*\<^sup>*"

text \<open>The key and the unique column of the table.\<close>

definition tokens_ok :: "one_time_token list \<Rightarrow> bool" where
  "tokens_ok ts \<longleftrightarrow> distinct (map ot_id ts) \<and> inj_on ot_token_hash (set ts)"

definition token_used :: "string \<Rightarrow> one_time_token list \<Rightarrow> bool" where
  "token_used h ts \<longleftrightarrow> (\<forall>t \<in> set ts. ot_token_hash t = h \<longrightarrow> ot_used_at t \<noteq> None)"

definition mark :: "moment \<Rightarrow> (one_time_token \<Rightarrow> bool) \<Rightarrow> one_time_token list \<Rightarrow> one_time_token list" where
  "mark now P = map (\<lambda>t. if P t then t\<lparr>ot_used_at := Some now\<rparr> else t)"

lemma in_mark:
  assumes "r \<in> set (mark now P ts)"
  obtains t where "t \<in> set ts" "ot_id r = ot_id t" "ot_token_hash r = ot_token_hash t" "ot_user_id r = ot_user_id t"
    "r = (if P t then t\<lparr>ot_used_at := Some now\<rparr> else t)"
proof -
  from assms obtain t where t: "t \<in> set ts" and r: "r = (if P t then t\<lparr>ot_used_at := Some now\<rparr> else t)"
    unfolding mark_def set_map by (rule imageE)
  show thesis by (rule that [OF t _ _ _ r]) (simp_all add: r)
qed

lemma mark_ids [simp]: "map ot_id (mark now P ts) = map ot_id ts"
  by (simp add: mark_def comp_def if_distrib [of ot_id] cong: if_cong)

lemma mark_ok:
  assumes "tokens_ok ts" shows "tokens_ok (mark now P ts)"
  unfolding tokens_ok_def
proof (intro conjI inj_onI)
  show "distinct (map ot_id (mark now P ts))" unfolding mark_ids using assms by (simp add: tokens_ok_def)
  fix r r' assume m: "r \<in> set (mark now P ts)" "r' \<in> set (mark now P ts)" and h: "ot_token_hash r = ot_token_hash r'"
  from m(1) obtain t where t: "t \<in> set ts" "ot_token_hash r = ot_token_hash t" "r = (if P t then t\<lparr>ot_used_at := Some now\<rparr> else t)"
    by (rule in_mark)
  from m(2) obtain t' where t': "t' \<in> set ts" "ot_token_hash r' = ot_token_hash t'" "r' = (if P t' then t'\<lparr>ot_used_at := Some now\<rparr> else t')"
    by (rule in_mark)
  have "inj_on ot_token_hash (set ts)" using assms by (simp add: tokens_ok_def)
  then have "t = t'" using inj_onD [of ot_token_hash "set ts" t t'] t t' h by simp
  with t(3) t'(3) show "r = r'" by simp
qed

lemma mark_used:
  assumes "token_used h ts" shows "token_used h (mark now P ts)"
  unfolding token_used_def
proof (intro ballI impI)
  fix r assume "r \<in> set (mark now P ts)" and h: "ot_token_hash r = h"
  from this(1) show "ot_used_at r \<noteq> None"
  proof (rule in_mark)
    fix t assume "t \<in> set ts" "ot_token_hash r = ot_token_hash t" "r = (if P t then t\<lparr>ot_used_at := Some now\<rparr> else t)"
    with h assms show ?thesis by (cases "P t") (simp_all add: token_used_def)
  qed
qed

lemma claim_token_rows:
  "snd (claim_token now h ts) = mark now (\<lambda>t. ot_token_hash t = h \<and> ot_used_at t = None \<and> ot_expires_at t > now) ts"
proof (cases "List.find (\<lambda>t. ot_token_hash t = h) ts")
  case None
  then have "\<forall>t \<in> set ts. ot_token_hash t \<noteq> h" unfolding find_None_iff by blast
  then have "mark now (\<lambda>t. ot_token_hash t = h \<and> ot_used_at t = None \<and> ot_expires_at t > now) ts = ts"
    unfolding mark_def by (intro map_idI) simp
  with None show ?thesis by (simp add: claim_token_def)
next
  case (Some r) then show ?thesis by (simp add: claim_token_def mark_def Let_def)
qed

lemma invalidate_tokens_rows: "snd (invalidate_tokens now i ts) = mark now (\<lambda>t. ot_user_id t = i \<and> ot_used_at t = None) ts"
  by (simp add: invalidate_tokens_def mark_def)

lemma replace_or_append_ok:
  assumes ok: "tokens_ok ts" and new: "\<And>r. r \<in> set ts \<Longrightarrow> ot_id r \<noteq> ot_id t \<Longrightarrow> ot_token_hash r \<noteq> ot_token_hash t"
  shows "tokens_ok (replace_or_append ot_id t ts)"
  unfolding tokens_ok_def
proof
  show "distinct (map ot_id (replace_or_append ot_id t ts))"
    unfolding keys_replace_or_append using ok by (simp add: tokens_ok_def)
  have inj: "inj_on ot_token_hash {r \<in> set ts. ot_id r \<noteq> ot_id t}"
    using ok unfolding tokens_ok_def by (auto intro: inj_on_subset)
  have "ot_token_hash t \<notin> ot_token_hash ` {r \<in> set ts. ot_id r \<noteq> ot_id t}"
  proof
    assume "ot_token_hash t \<in> ot_token_hash ` {r \<in> set ts. ot_id r \<noteq> ot_id t}"
    then obtain r where "r \<in> set ts" "ot_id r \<noteq> ot_id t" "ot_token_hash t = ot_token_hash r" by (elim imageE CollectE conjE)
    with new show False by metis
  qed
  then show "inj_on ot_token_hash (set (replace_or_append ot_id t ts))"
    unfolding set_replace_or_append using inj by (simp add: inj_on_insert)
qed

lemma token_step_ok: "token_step new ts ts' \<Longrightarrow> tokens_ok ts \<Longrightarrow> tokens_ok ts'"
proof (induction rule: token_step.induct)
  case (remove new ts P)
  then show ?case by (auto simp: tokens_ok_def distinct_map_filter intro: inj_on_subset)
next
  case (issue t new ts)
  then show ?case by (intro replace_or_append_ok) metis+
qed (simp_all add: claim_token_rows invalidate_tokens_rows mark_ok)

lemma token_step_used: "token_step new ts ts' \<Longrightarrow> h \<notin> new \<Longrightarrow> token_used h ts \<Longrightarrow> token_used h ts'"
proof (induction rule: token_step.induct)
  case (remove new ts P)
  then show ?case by (simp add: token_used_def)
next
  case (issue t new ts)
  then show ?case unfolding token_used_def set_replace_or_append by auto
qed (simp_all add: claim_token_rows invalidate_tokens_rows mark_used)

lemma token_steps_ok: "token_steps new ts ts' \<Longrightarrow> tokens_ok ts \<Longrightarrow> tokens_ok ts'"
  by (induction rule: rtranclp_induct) (auto intro: token_step_ok)

lemma token_steps_used: "token_steps new ts ts' \<Longrightarrow> h \<notin> new \<Longrightarrow> token_used h ts \<Longrightarrow> token_used h ts'"
  by (induction rule: rtranclp_induct) (auto intro: token_step_used)

lemma claim_used:
  assumes "token_used h ts" shows "fst (claim_token now h ts) = None"
proof -
  have "filter (\<lambda>t. ot_token_hash t = h \<and> ot_used_at t = None \<and> ot_expires_at t > now) ts = []"
    using assms unfolding token_used_def filter_empty_conv by blast
  then show ?thesis by (simp add: claim_token_def Let_def split: option.splits)
qed

lemma claim_Some:
  assumes "tokens_ok ts" and "claim_token now h ts = (Some i, ts')"
  obtains t where "t \<in> set ts" "ot_token_hash t = h" "ot_user_id t = i" "token_is_usable now t" "token_used h ts'"
proof -
  let ?P = "\<lambda>t. ot_token_hash t = h \<and> ot_used_at t = None \<and> ot_expires_at t > now"
  from assms(2) obtain r where r: "List.find (\<lambda>t. ot_token_hash t = h) ts = Some r" "ot_user_id r = i"
    and one: "length (filter ?P ts) = 1"
    by (auto simp: claim_token_def Let_def split: option.splits if_splits)
  have rt: "r \<in> set ts" "ot_token_hash r = h" using r(1) by (auto simp: find_Some_iff)
  from one have "filter ?P ts \<noteq> []" by auto
  then obtain t where t: "t \<in> set ts" "?P t" unfolding filter_empty_conv by blast
  have same: "q \<in> set ts \<Longrightarrow> ot_token_hash q = h \<Longrightarrow> q = r" for q
    using assms(1) rt unfolding tokens_ok_def by (metis inj_onD)
  have "t = r" using same t by blast
  moreover have "token_used h ts'" unfolding token_used_def
  proof (intro ballI impI)
    fix q assume q: "q \<in> set ts'" and h: "ot_token_hash q = h"
    have "ts' = mark now ?P ts" using claim_token_rows [of now h ts] assms(2) by simp
    with q have "q \<in> set (mark now ?P ts)" by simp
    then obtain p where p: "p \<in> set ts" "ot_token_hash q = ot_token_hash p" "q = (if ?P p then p\<lparr>ot_used_at := Some now\<rparr> else p)"
      by (rule in_mark)
    have "p = r" by (rule same [OF p(1)]) (use p(2) h in simp)
    with p(3) t \<open>t = r\<close> show "ot_used_at q \<noteq> None" by simp
  qed
  ultimately show thesis using that [of r] rt r(2) t by (simp add: token_is_usable_def)
qed

text \<open>The two repositories behind one interface.\<close>

locale one_time_tokens =
  fixes rows :: "database \<Rightarrow> one_time_token list"
    and claim :: "moment \<Rightarrow> string \<Rightarrow> database \<Rightarrow> ident option \<times> database"
  assumes claim_rows: "claim_token now h (rows db) = (fst (claim now h db), rows (snd (claim now h db)))"
begin

lemma claim_marks:
  assumes "tokens_ok (rows db)" and "claim now h db = (Some i, db1)"
  shows "token_used h (rows db1)"
  using claim_Some [OF assms(1), of now h i "rows db1"] claim_rows [of now h db] assms(2) by auto

lemma refused_after:
  assumes "token_used h (rows db)" shows "\<exists>db'. claim now h db = (None, db')"
  using claim_used [OF assms, of now] claim_rows [of now h db] by (metis fst_conv prod.collapse)

end

interpretation verifications: one_time_tokens db_verifications verification_claim
  by unfold_locales (simp add: verification_claim_def case_prod_beta)

interpretation resets: one_time_tokens db_resets reset_claim
  by unfold_locales (simp add: reset_claim_def case_prod_beta)

end
