(* ===== verification/Wiring.thy ===== *)
theory Wiring
  imports Migration_Url Link_Runs Sign_In
begin

text \<open>
  What the container makes of a configuration (\<^verbatim>\<open>infrastructure/di\<close>): which implementation a
  component chooses, and the settings with which the services of the other theories are built.
  Together with what an accepted configuration promises, this closes the gap between the
  premises of those theories and the program as it is started.
\<close>

section \<open>Choosing an implementation\<close>

text \<open>\<^verbatim>\<open>CacheComponent.get_cache\<close>; \<open>connected\<close> tells whether the cache on Redis could be built.\<close>

datatype cache_choice = NullCache | RedisLinkCache string int int | InMemoryLinkCache string int int

definition get_cache :: "bool \<Rightarrow> bool \<Rightarrow> bool \<Rightarrow> string \<Rightarrow> int \<Rightarrow> int \<Rightarrow> cache_choice" where
  "get_cache cache_enabled redis_enabled connected link_prefix link_ttl stats_ttl =
     (if \<not> cache_enabled then NullCache
      else if redis_enabled then (if connected then RedisLinkCache link_prefix link_ttl stats_ttl else NullCache)
      else InMemoryLinkCache link_prefix link_ttl stats_ttl)"

definition cache_component :: "bool \<Rightarrow> config \<Rightarrow> (config_error, cache_choice) result" where
  "cache_component connected c =
     rbind (CACHE_ENABLED c) (\<lambda>enabled. rbind (REDIS_ENABLED c) (\<lambda>redis. rbind (REDIS_URL c) (\<lambda>url.
     rbind (CACHE_LINK_TTL c) (\<lambda>link_ttl. rbind (CACHE_STATS_TTL c) (\<lambda>stats_ttl.
     rbind (REDIS_CONNECT_TIMEOUT c) (\<lambda>_. rbind (REDIS_SOCKET_TIMEOUT c) (\<lambda>_. rbind (REDIS_RETRY_INTERVAL c) (\<lambda>_.
     rbind (SECRET_KEY c) (\<lambda>_.
       Inr (get_cache enabled redis connected (CACHE_LINK_PREFIX c) link_ttl stats_ttl))))))))))"

datatype limiter_choice = RedisRateLimiter string int | MemoryRateLimiter

definition rate_limiter_component :: "config \<Rightarrow> (config_error, limiter_choice) result" where
  "rate_limiter_component c =
     rbind (REDIS_ENABLED c) (\<lambda>redis. rbind (REDIS_URL c) (\<lambda>url. rbind (REDIS_CONNECT_TIMEOUT c) (\<lambda>_.
     rbind (REDIS_SOCKET_TIMEOUT c) (\<lambda>_. rbind (REDIS_RETRY_INTERVAL c) (\<lambda>retry_interval.
       Inr (if redis then RedisRateLimiter url retry_interval else MemoryRateLimiter))))))"

datatype mailer_choice = SMTPMailer string int string string string bool bool | NullMailer

definition mail_component :: "config \<Rightarrow> (config_error, mailer_choice) result" where
  "mail_component c =
     rbind (MAIL_ENABLED c) (\<lambda>enabled. rbind (MAIL_PORT c) (\<lambda>port. rbind (MAIL_USE_TLS c) (\<lambda>tls. rbind (MAIL_USE_SSL c) (\<lambda>ssl.
     rbind (MAIL_TIMEOUT c) (\<lambda>_.
       Inr (if enabled then SMTPMailer (MAIL_HOST c) port (MAIL_USERNAME c) (MAIL_PASSWORD c) (MAIL_FROM c) tls ssl else NullMailer))))))"

datatype queue_choice = CeleryTaskQueue int | NullTaskQueue

definition task_queue_component :: "config \<Rightarrow> (config_error, queue_choice) result" where
  "task_queue_component c =
     rbind (CELERY_ENABLED c) (\<lambda>enabled. rbind (REDIS_RETRY_INTERVAL c) (\<lambda>retry_interval.
       Inr (if enabled then CeleryTaskQueue retry_interval else NullTaskQueue)))"

section \<open>Building the services\<close>

text \<open>What can stop the container: a setting, or the constructor of a service.\<close>

datatype wiring_failure = Setting config_error | Constructor exn

definition setting :: "(config_error, 'a) result \<Rightarrow> (wiring_failure, 'a) result" where
  "setting r = (case r of Inl e \<Rightarrow> Inl (Setting e) | Inr v \<Rightarrow> Inr v)"

definition constructed :: "(exn, 'a) result \<Rightarrow> (wiring_failure, 'a) result" where
  "constructed r = (case r of Inl e \<Rightarrow> Inl (Constructor e) | Inr v \<Rightarrow> Inr v)"

definition get_code_generator :: "config \<Rightarrow> (wiring_failure, generator_settings) result" where
  "get_code_generator c =
     rbind (setting (SHORT_CODE_LENGTH c)) (\<lambda>code_length. rbind (setting (SHORT_CODE_MIN_LENGTH c)) (\<lambda>min_length.
     rbind (setting (SHORT_CODE_MAX_LENGTH c)) (\<lambda>max_length. rbind (setting (SHORT_CODE_SECRET_PEPPER c)) (\<lambda>pepper.
       constructed (Base64UrlCodeGenerator code_length min_length max_length pepper)))))"

text \<open>The settings of the link use cases; the encoder of host names is the parameter it is everywhere.\<close>

definition link_use_cases :: "(string \<Rightarrow> string + string) \<Rightarrow> config \<Rightarrow> (wiring_failure, link_config) result" where
  "link_use_cases idna c =
     rbind (get_code_generator c) (\<lambda>g. rbind (setting (BASE_URL c)) (\<lambda>base_url.
     rbind (setting (MAX_URL_LENGTH c)) (\<lambda>max_url_length. rbind (setting (ALLOW_INTERNAL_TARGETS c)) (\<lambda>internal.
     rbind (setting (MAX_COLLISION_ATTEMPTS c)) (\<lambda>attempts. rbind (setting (POPULAR_THRESHOLD c)) (\<lambda>_. rbind (setting (RECENT_DAYS c)) (\<lambda>_.
     rbind (setting (GUEST_LINK_LIMIT c)) (\<lambda>guest_limit. rbind (setting (GUEST_LINK_WINDOW_DAYS c)) (\<lambda>guest_window.
     rbind (setting (DEFAULT_GUEST_TTL_SECONDS c)) (\<lambda>guest_ttl. rbind (setting (MAX_TTL_SECONDS c)) (\<lambda>max_ttl.
     rbind (setting (VISIT_TRACKING_ENABLED c)) (\<lambda>_.
       Inr \<lparr>lc_idna = idna, lc_generate = b64_generate g, lc_hash = calculate idna, lc_base_url = base_url,
            lc_allowed_schemes = ALLOWED_SCHEMES c, lc_max_url_length = nat max_url_length, lc_allow_internal_targets = internal,
            lc_guest_link_limit = guest_limit, lc_guest_link_window_days = guest_window,
            lc_default_guest_ttl_seconds = guest_ttl, lc_max_ttl_seconds = max_ttl, lc_max_collision_attempts = nat attempts\<rparr>))))))))))))"

text \<open>The lifetimes of tokens, in the units the authentication service takes, and the budget of wrong guesses.\<close>

definition auth_component :: "(jwt_claims \<Rightarrow> string) \<Rightarrow> (moment \<Rightarrow> string \<Rightarrow> jwt_claims option) \<Rightarrow> config \<Rightarrow> (config_error, auth_config) result" where
  "auth_component encode decode c =
     rbind (SECRET_KEY c) (\<lambda>_. rbind (JWT_ACCESS_TOKEN_EXPIRE_MINUTES c) (\<lambda>access_minutes. rbind (JWT_REFRESH_TOKEN_EXPIRE_DAYS c) (\<lambda>refresh_days.
       Inr \<lparr>ac_encode = encode, ac_decode = decode, ac_access_expire = access_minutes * 60 * second,
            ac_refresh_expire = refresh_days * 86400 * second\<rparr>)))"

definition login_budget :: "config \<Rightarrow> (config_error, failure_budget) result" where
  "login_budget c =
     rbind (LOGIN_ACCOUNT_FAILURE_LIMIT c) (\<lambda>limit. rbind (LOGIN_ACCOUNT_FAILURE_PERIOD c) (\<lambda>period.
       Inr \<lparr>fb_limit = limit, fb_period = period\<rparr>))"

text \<open>What the guards of the web layer read off the configuration of the application.\<close>

definition web_settings :: "config \<Rightarrow> (config_error, web_config) result" where
  "web_settings c =
     rbind (SECRET_KEY c) (\<lambda>key. rbind (BASE_URL c) (\<lambda>base_url. rbind (DEFAULT_RATE_LIMIT c) (\<lambda>limit.
     rbind (DEFAULT_RATE_LIMIT_PERIOD c) (\<lambda>period. rbind (RATE_LIMIT_AUTH_DISABLED c) (\<lambda>auth_disabled.
       Inr \<lparr>wc_secret_key = key, wc_base_url = base_url, wc_cors_origins = CORS_ORIGINS c, wc_allowed_hosts = ALLOWED_HOSTS c,
            wc_trusted_proxies = TRUSTED_PROXIES c, wc_default_limit = limit, wc_default_period = period,
            wc_rate_limits = RATE_LIMITS, wc_auth_disabled = auth_disabled\<rparr>)))))"

section \<open>Lemmas\<close>

lemma setting_eq_Inr [simp]: "setting r = Inr v \<longleftrightarrow> r = Inr v"
  by (cases r) (simp_all add: setting_def)

lemma constructed_eq_Inr [simp]: "constructed r = Inr v \<longleftrightarrow> r = Inr v"
  by (cases r) (simp_all add: constructed_def)

text \<open>The generator of an accepted configuration is built, and is sound.\<close>

lemma accepted_generator:
  assumes "validate c = Inr ()" and "SHORT_CODE_SECRET_PEPPER c = Inr pepper"
  shows "\<exists>g. get_code_generator c = Inr g \<and> base64_settings g"
proof -
  obtain least len most where b: "SHORT_CODE_MIN_LENGTH c = Inr least" "SHORT_CODE_LENGTH c = Inr len" "SHORT_CODE_MAX_LENGTH c = Inr most"
    "int MIN_LENGTH \<le> least" "least \<le> len" "len \<le> most" "most \<le> int MAX_LENGTH"
    by (rule bounds_kept [OF accepted_parts(1) [OF assms(1)]])
  let ?g = "\<lparr>gs_code_length = len, gs_min_length = least, gs_max_length = most, gs_pepper = pepper\<rparr>"
  have "get_code_generator c = Inr ?g"
    using b assms(2) by (simp add: get_code_generator_def setting_def constructed_def Base64UrlCodeGenerator_def)
  moreover have "base64_settings ?g" using b by unfold_locales simp_all
  ultimately show ?thesis by blast
qed

lemma generator_ports_ok:
  assumes "base64_settings g" and "lc_generate cfg = b64_generate g" and "lc_hash cfg = calculate idna"
  shows "ports_ok cfg" and "code_generator (lc_generate cfg)"
proof -
  show total: "code_generator (lc_generate cfg)"
    unfolding assms(2) using base64_settings.b64_generate_length [OF assms(1)] by unfold_locales blast
  have "CODE_PATTERN x" if "lc_generate cfg s = Inr x" for s x
    using code_generator.generate_valid [OF total, of s] that by auto
  moreover have "HASH_PATTERN h" if "calculate idna u = Inr h" for u h
    using that by (auto simp: calculate_def rbind_eq_Inr)
  ultimately show "ports_ok cfg" using assms(3) by (simp add: ports_ok_def)
qed

lemma accepted_numbers:
  assumes "validate c = Inr ()"
  shows "\<forall>(name, get) \<in> set positive_settings. \<exists>v. get c = Inr v \<and> 1 \<le> v"
    and "\<exists>guest ceiling. DEFAULT_GUEST_TTL_SECONDS c = Inr guest \<and> MAX_TTL_SECONDS c = Inr ceiling \<and> 1 \<le> guest \<and> guest \<le> ceiling"
  by (rule numbers_kept [OF accepted_parts(3) [OF assms]], assumption)
     (rule numbers_kept [OF accepted_parts(3) [OF assms]], blast)

lemma wired_settings:
  assumes "link_use_cases idna c = Inr cfg"
  obtains g where "get_code_generator c = Inr g" "lc_generate cfg = b64_generate g" "lc_hash cfg = calculate idna"
    "SHORT_CODE_SECRET_PEPPER c = Inr (gs_pepper g)"
    "GUEST_LINK_LIMIT c = Inr (lc_guest_link_limit cfg)" "GUEST_LINK_WINDOW_DAYS c = Inr (lc_guest_link_window_days cfg)"
    "DEFAULT_GUEST_TTL_SECONDS c = Inr (lc_default_guest_ttl_seconds cfg)" "MAX_TTL_SECONDS c = Inr (lc_max_ttl_seconds cfg)"
    "\<exists>a. MAX_COLLISION_ATTEMPTS c = Inr a \<and> lc_max_collision_attempts cfg = nat a"
proof -
  from assms obtain g base longest internal attempts limit window guest ceiling where r:
    "get_code_generator c = Inr g" "MAX_COLLISION_ATTEMPTS c = Inr attempts" "GUEST_LINK_LIMIT c = Inr limit"
    "GUEST_LINK_WINDOW_DAYS c = Inr window" "DEFAULT_GUEST_TTL_SECONDS c = Inr guest" "MAX_TTL_SECONDS c = Inr ceiling"
    and cfg: "cfg = \<lparr>lc_idna = idna, lc_generate = b64_generate g, lc_hash = calculate idna, lc_base_url = base,
            lc_allowed_schemes = ALLOWED_SCHEMES c, lc_max_url_length = nat longest, lc_allow_internal_targets = internal,
            lc_guest_link_limit = limit, lc_guest_link_window_days = window,
            lc_default_guest_ttl_seconds = guest, lc_max_ttl_seconds = ceiling, lc_max_collision_attempts = nat attempts\<rparr>"
    unfolding link_use_cases_def rbind_eq_Inr setting_eq_Inr sum.inject by blast
  moreover have "SHORT_CODE_SECRET_PEPPER c = Inr (gs_pepper g)"
    using r(1) by (auto simp: get_code_generator_def rbind_eq_Inr Base64UrlCodeGenerator_def split: if_splits)
  ultimately show thesis using that by simp
qed

text \<open>What a run that starts from a table in order keeps, with the caches that live in the process.\<close>

definition served_in_order :: "'c cache_ops \<Rightarrow> link_config \<Rightarrow> moment \<Rightarrow> 'c service \<Rightarrow> bool" where
  "served_in_order ops cfg t st \<longleftrightarrow>
     (\<forall>g. count_guest_links_by_identifier t g (lc_guest_link_window_days cfg) (links_in st) \<le> lc_guest_link_limit cfg) \<and>
     (\<forall>now s cx. fst (redirect_link ops now s cx st) = redirect_spec now s (links_in st))"

context link_cache
begin

lemma ok_served_in_order: "service_ok cfg t st \<Longrightarrow> served_in_order ops cfg t st"
  unfolding served_in_order_def service_ok_def table_inv_def within_quota_def
  using redirect_refines by (metis prod.collapse)

end

lemma memory_serves_in_order:
  assumes "sv_cache st0 = mc_init p link_ttl stats_ttl" and "table_inv cfg t0 (links_in st0)" and "ports_ok cfg"
    and "service_run memory_ops cfg t0 st0 t st"
  shows "served_in_order memory_ops cfg t st"
  using mem.ok_served_in_order mem.service_run_ok [OF assms(4) mem_start [OF assms(1,2)] assms(3)] by blast

lemma null_serves_in_order:
  assumes "table_inv cfg t0 (links_in st0)" and "ports_ok cfg" and "service_run null_ops cfg t0 st0 t st"
  shows "served_in_order null_ops cfg t st"
proof -
  have "null.service_ok cfg t0 st0"
    using assms(1) by (simp add: null.service_ok_def null.ok_def table_inv_def coherent_def agrees_code_def agrees_redirect_def)
  then show ?thesis using null.ok_served_in_order null.service_run_ok [OF assms(3) _ assms(2)] by blast
qed

section \<open>Properties\<close>

text \<open>
  C26. From a configuration to the service. Whatever configuration is accepted, in whatever
  profile, the link service the container builds from it generates a valid code for every
  input, gives guests a positive lifetime within the ceiling and tries at least once to find a
  code. Whatever cache it uses and however requests race, codes and identifiers of its table
  stay unique and well formed. With the cache that the container chooses where it lives in the
  process, in memory or none, and requests that run one after another, no guest exceeds the
  quota and a redirect answers what the table says; the cache on Redis is another matter.
\<close>

theorem accepted_configuration_serves_in_order:
  assumes "validate c = Inr ()" and "link_use_cases idna c = Inr cfg"
  shows "code_generator (lc_generate cfg) \<and> 1 \<le> lc_max_collision_attempts cfg \<and>
    1 \<le> lc_default_guest_ttl_seconds cfg \<and> lc_default_guest_ttl_seconds cfg \<le> lc_max_ttl_seconds cfg \<and>
    1 \<le> lc_guest_link_limit cfg \<and> 1 \<le> lc_guest_link_window_days cfg \<and>
    (\<forall>tbl0 tbl. table_wf tbl0 \<and> raced_run cfg tbl0 tbl \<longrightarrow> distinct (codes_of tbl) \<and> distinct (ids_of tbl) \<and>
       (\<forall>l \<in> set tbl. CODE_PATTERN (lk_code l) \<and> HASH_PATTERN (lk_hash l))) \<and>
    (\<forall>connected. case cache_component connected c of
       Inr (InMemoryLinkCache p link_ttl stats_ttl) \<Rightarrow>
         (\<forall>t0 st0 t st. sv_cache st0 = mc_init p link_ttl stats_ttl \<and> table_inv cfg t0 (links_in st0) \<and>
            service_run memory_ops cfg t0 st0 t st \<longrightarrow> served_in_order memory_ops cfg t st)
     | Inr NullCache \<Rightarrow>
         (\<forall>t0 st0 t st. table_inv cfg t0 (links_in st0) \<and> service_run null_ops cfg t0 st0 t st \<longrightarrow> served_in_order null_ops cfg t st)
     | _ \<Rightarrow> True)"
proof -
  obtain g attempts where w: "get_code_generator c = Inr g" "lc_generate cfg = b64_generate g" "lc_hash cfg = calculate idna"
    "SHORT_CODE_SECRET_PEPPER c = Inr (gs_pepper g)"
    "GUEST_LINK_LIMIT c = Inr (lc_guest_link_limit cfg)" "GUEST_LINK_WINDOW_DAYS c = Inr (lc_guest_link_window_days cfg)"
    "DEFAULT_GUEST_TTL_SECONDS c = Inr (lc_default_guest_ttl_seconds cfg)" "MAX_TTL_SECONDS c = Inr (lc_max_ttl_seconds cfg)"
    and a: "MAX_COLLISION_ATTEMPTS c = Inr attempts" "lc_max_collision_attempts cfg = nat attempts"
    by (rule wired_settings [OF assms(2)]) blast
  have g: "base64_settings g" using accepted_generator [OF assms(1) w(4)] w(1) by auto
  note ports = generator_ports_ok [OF g w(2,3)]
  have pos: "1 \<le> attempts" "1 \<le> lc_guest_link_limit cfg" "1 \<le> lc_guest_link_window_days cfg"
    using accepted_numbers(1) [OF assms(1)] a(1) w(5,6) by (auto simp: positive_settings_def)
  have guest: "1 \<le> lc_default_guest_ttl_seconds cfg" "lc_default_guest_ttl_seconds cfg \<le> lc_max_ttl_seconds cfg"
    using accepted_numbers(2) [OF assms(1)] w(7,8) by auto
  have raced: "\<forall>tbl0 tbl. table_wf tbl0 \<and> raced_run cfg tbl0 tbl \<longrightarrow> distinct (codes_of tbl) \<and> distinct (ids_of tbl) \<and>
       (\<forall>l \<in> set tbl. CODE_PATTERN (lk_code l) \<and> HASH_PATTERN (lk_hash l))"
  proof (intro allI impI, elim conjE)
    fix tbl0 tbl assume "table_wf tbl0" "raced_run cfg tbl0 tbl"
    then have "table_wf tbl" using raced_run_wf ports(1) by blast
    then show "distinct (codes_of tbl) \<and> distinct (ids_of tbl) \<and> (\<forall>l \<in> set tbl. CODE_PATTERN (lk_code l) \<and> HASH_PATTERN (lk_hash l))"
      by (simp add: table_wf_def list_all_iff link_wf_def)
  qed
  have memory: "\<forall>t0 st0 t st. sv_cache st0 = mc_init p link_ttl stats_ttl \<and> table_inv cfg t0 (links_in st0) \<and>
            service_run memory_ops cfg t0 st0 t st \<longrightarrow> served_in_order memory_ops cfg t st" for p link_ttl stats_ttl
    using memory_serves_in_order [OF _ _ ports(1)] by blast
  have none: "\<forall>t0 st0 t st. table_inv cfg t0 (links_in st0) \<and> service_run null_ops cfg t0 st0 t st \<longrightarrow> served_in_order null_ops cfg t st"
    using null_serves_in_order [OF _ ports(1)] by blast
  have cached: "case cache_component connected c of
       Inr (InMemoryLinkCache p link_ttl stats_ttl) \<Rightarrow>
         (\<forall>t0 st0 t st. sv_cache st0 = mc_init p link_ttl stats_ttl \<and> table_inv cfg t0 (links_in st0) \<and>
            service_run memory_ops cfg t0 st0 t st \<longrightarrow> served_in_order memory_ops cfg t st)
     | Inr NullCache \<Rightarrow>
         (\<forall>t0 st0 t st. table_inv cfg t0 (links_in st0) \<and> service_run null_ops cfg t0 st0 t st \<longrightarrow> served_in_order null_ops cfg t st)
     | _ \<Rightarrow> True" for connected
    using memory none by (simp split: sum.split cache_choice.split)
  have "1 \<le> lc_max_collision_attempts cfg" using pos(1) a(2) by (simp add: nat_le_eq_zle)
  then show ?thesis by (intro conjI allI ports(2) guest pos(2,3) raced cached)
qed

text \<open>
  One number is not judged: with a window of no length the budget of wrong guesses is never
  spent, whatever its limit says, and such a configuration is accepted.
\<close>

lemma zero_period_budget_is_never_spent:
  assumes "fb_period fb = 0" and "\<forall>ts \<in> set (st (failure_key email)). ts \<le> now"
  shows "\<not> fst (budget_spent memory_limiter_ops fb now email st)"
  using assms by (auto simp: budget_spent_def memory_limiter_ops_def ml_get_remaining_def not_less filter_empty_conv)

lemma zero_period_is_accepted:
  "case validate \<lparr>cf_profile = Production, cf_environ = site_environ(''LOGIN_ACCOUNT_FAILURE_PERIOD'' \<mapsto> ''0''), cf_process = site_process\<rparr> of
     Inl _ \<Rightarrow> False | Inr _ \<Rightarrow> True"
  "login_budget \<lparr>cf_profile = Production, cf_environ = site_environ(''LOGIN_ACCOUNT_FAILURE_PERIOD'' \<mapsto> ''0''), cf_process = site_process\<rparr>
     = Inr \<lparr>fb_limit = 10, fb_period = 0\<rparr>"
  by code_simp+

section \<open>Witnesses\<close>

definition site_config :: config where
  "site_config = \<lparr>cf_profile = Production, cf_environ = site_environ, cf_process = site_process\<rparr>"

theorem accepted_configuration_serves_in_order_witness:
  "\<exists>cfg. link_use_cases Inr site_config = Inr cfg \<and> lc_default_guest_ttl_seconds cfg = 604800 \<and> 604800 \<le> lc_max_ttl_seconds cfg"
proof -
  have v: "validate site_config = Inr ()" by code_simp
  have "case link_use_cases Inr site_config of Inl _ \<Rightarrow> False | Inr cfg \<Rightarrow> lc_default_guest_ttl_seconds cfg = 604800" by code_simp
  then obtain cfg where "link_use_cases Inr site_config = Inr cfg" "lc_default_guest_ttl_seconds cfg = 604800" by (auto split: sum.splits)
  with accepted_configuration_serves_in_order [OF v this(1)] show ?thesis by auto
qed

end
