(* ===== verification/Mail_Queue.thy ===== *)
theory Mail_Queue
  imports Wiring
begin

text \<open>
  Work that a request starts and does not wait for: the messages (\<^verbatim>\<open>infrastructure/mail\<close> and the
  use cases \<^verbatim>\<open>application/use_cases/auth/send_*.py\<close>) and the task queue
  (\<^verbatim>\<open>infrastructure/task_queue\<close>). A conversation with a mail server is the list of what crossed the
  wire, each entry with whether the connection was encrypted then; the server is a function
  that answers a history, about which nothing is assumed. What Jinja renders is an argument.
  The locale \<open>mail_handoff\<close> is what the port \<^verbatim>\<open>TaskQueue\<close> promises about messages; the queue on a
  broker and the one that sends on the spot are interpretations of it.
\<close>

section \<open>A conversation with a mail server\<close>

record mail_message =
  mm_from :: string
  mm_to :: string
  mm_subject :: string
  mm_body :: string

datatype wire_event = ConnectTo string int | StartTls | Ehlo | LogIn string string | SendMessage mail_message | Quit | CloseSocket

type_synonym wire = "(bool \<times> wire_event) list"

text \<open>
  A server: whether the command that ends the history succeeds, and whether the answer to the
  last \<^verbatim>\<open>QUIT\<close> is the expected one or none.
\<close>

record mail_server =
  ms_accepts :: "wire \<Rightarrow> bool"
  ms_says_goodbye :: "wire \<Rightarrow> bool"

record smtp_mailer =
  sm_host :: string
  sm_port :: int
  sm_username :: string
  sm_password :: string
  sm_sender :: string
  sm_use_tls :: bool
  sm_use_ssl :: bool

datatype mail_error = HeaderError | MailDeliveryError

text \<open>\<^verbatim>\<open>EmailMessage\<close> refuses a header whose value has more than one line.\<close>

definition is_line_break :: "char \<Rightarrow> bool" where
  "is_line_break ch \<longleftrightarrow> 10 \<le> code ch \<and> code ch \<le> 13 \<or> 28 \<le> code ch \<and> code ch \<le> 30 \<or> code ch = 133"

fun lines_in :: "string \<Rightarrow> nat" where
  "lines_in [] = 0"
| "lines_in (ch # s) =
     (if code ch = 13 \<and> s \<noteq> [] \<and> code (hd s) = 10 then lines_in s
      else if is_line_break ch then Suc (lines_in s)
      else if s = [] then 1 else lines_in s)"

definition email_message :: "string \<Rightarrow> string \<Rightarrow> string \<Rightarrow> string \<Rightarrow> (mail_error, mail_message) result" where
  "email_message sender recipient subject body =
     (if lines_in sender > 1 \<or> lines_in recipient > 1 \<or> lines_in subject > 1 then Inl HeaderError
      else Inr \<lparr>mm_from = sender, mm_to = recipient, mm_subject = subject, mm_body = body\<rparr>)"

text \<open>A connection that will not be used is said goodbye to and closed, whatever the server makes of it.\<close>

definition discard :: "bool \<Rightarrow> wire \<Rightarrow> wire" where
  "discard enc w = w @ [(enc, Quit), (enc, CloseSocket)]"

definition smtp_connect :: "mail_server \<Rightarrow> smtp_mailer \<Rightarrow> (mail_error, bool) result \<times> wire" where
  "smtp_connect ms m =
     (if sm_use_ssl m
      then let w = [(True, ConnectTo (sm_host m) (sm_port m))]
           in (if ms_accepts ms w then Inr True else Inl MailDeliveryError, w)
      else let w = [(False, ConnectTo (sm_host m) (sm_port m))]
           in if \<not> ms_accepts ms w then (Inl MailDeliveryError, w)
              else if \<not> sm_use_tls m then (Inr False, w)
              else let w1 = w @ [(False, StartTls)]
                   in if \<not> ms_accepts ms w1 then (Inl MailDeliveryError, discard False w1)
                      else let w2 = w1 @ [(True, Ehlo)]
                           in if \<not> ms_accepts ms w2 then (Inl MailDeliveryError, discard True w2)
                              else (Inr True, w2))"

text \<open>What is said inside the \<^verbatim>\<open>with\<close> block: the password only on an encrypted connection, then the message.\<close>

definition converse :: "mail_server \<Rightarrow> smtp_mailer \<Rightarrow> mail_message \<Rightarrow> bool \<Rightarrow> wire \<Rightarrow> bool \<times> wire" where
  "converse ms m msg enc w =
     (if sm_username m \<noteq> [] \<and> \<not> enc then (False, w)
      else let w1 = (if sm_username m \<noteq> [] then w @ [(enc, LogIn (sm_username m) (sm_password m))] else w)
           in if sm_username m \<noteq> [] \<and> \<not> ms_accepts ms w1 then (False, w1)
              else let w2 = w1 @ [(enc, SendMessage msg)] in (ms_accepts ms w2, w2))"

definition smtp_send :: "mail_server \<Rightarrow> smtp_mailer \<Rightarrow> string \<Rightarrow> string \<Rightarrow> string \<Rightarrow> (mail_error, unit) result \<times> wire" where
  "smtp_send ms m recipient subject body =
     (case email_message (sm_sender m) recipient subject body of
        Inl e \<Rightarrow> (Inl e, [])
      | Inr msg \<Rightarrow>
          (case smtp_connect ms m of
             (Inl e, w) \<Rightarrow> (Inl e, w)
           | (Inr enc, w) \<Rightarrow>
               (case converse ms m msg enc w of (fine, w1) \<Rightarrow>
                  (if fine \<and> ms_says_goodbye ms (w1 @ [(enc, Quit)]) then Inr () else Inl MailDeliveryError,
                   discard enc w1))))"

text \<open>A mailer is the one on a server or the one that drops what it is given.\<close>

definition mailer_send :: "mail_server \<Rightarrow> mailer_choice \<Rightarrow> string \<Rightarrow> string \<Rightarrow> string \<Rightarrow> (mail_error, unit) result \<times> wire" where
  "mailer_send ms choice recipient subject body =
     (case choice of
        NullMailer \<Rightarrow> (Inr (), [])
      | SMTPMailer host port username password sender tls ssl \<Rightarrow>
          smtp_send ms \<lparr>sm_host = host, sm_port = port, sm_username = username, sm_password = password, sm_sender = sender,
            sm_use_tls = tls, sm_use_ssl = ssl\<rparr> recipient subject body)"

section \<open>The messages\<close>

text \<open>\<^verbatim>\<open>quote(token, safe="")\<close>.\<close>

definition unreserved :: "int \<Rightarrow> bool" where
  "unreserved b \<longleftrightarrow> 48 \<le> b \<and> b \<le> 57 \<or> 65 \<le> b \<and> b \<le> 90 \<or> 97 \<le> b \<and> b \<le> 122 \<or> b \<in> {95, 46, 45, 126}"

definition hex_digit :: "int \<Rightarrow> char" where
  "hex_digit n = (if n < 10 then char_of (nat (48 + n)) else char_of (nat (55 + n)))"

definition quote_byte :: "int \<Rightarrow> string" where
  "quote_byte b = (if unreserved b then [char_of (nat b)] else [CHR ''%'', hex_digit (b div 16), hex_digit (b mod 16)])"

definition quote :: "string \<Rightarrow> string" where
  "quote s = concat (map quote_byte (utf8_encode s))"

definition VERIFY_PATH :: string where
  "VERIFY_PATH = ''/verify''"

definition RESET_PATH :: string where
  "RESET_PATH = ''/reset-password''"

definition SIGN_IN_PATH :: string where
  "SIGN_IN_PATH = ''/login''"

definition token_url :: "string \<Rightarrow> string \<Rightarrow> string \<Rightarrow> string" where
  "token_url base_url path token = rstrip_char (CHR ''/'') base_url @ path @ ''?token='' @ quote token"

text \<open>The renderer: a template, a language and the values it needs give a text.\<close>

datatype template_value = TText string | TNumber int

type_synonym renderer = "string \<Rightarrow> string option \<Rightarrow> (string \<times> template_value) list \<Rightarrow> string"

definition verification_email :: "renderer \<Rightarrow> string \<Rightarrow> int \<Rightarrow> string option \<Rightarrow> string \<times> string" where
  "verification_email render confirm_url ttl_hours language =
     (strip (render ''verification_subject.txt'' language []),
      render ''verification_body.txt'' language [(''confirm_url'', TText confirm_url), (''ttl_hours'', TNumber ttl_hours)])"

definition password_reset_email :: "renderer \<Rightarrow> string \<Rightarrow> int \<Rightarrow> string option \<Rightarrow> string \<times> string" where
  "password_reset_email render reset_url ttl_minutes language =
     (strip (render ''password_reset_subject.txt'' language []),
      render ''password_reset_body.txt'' language [(''reset_url'', TText reset_url), (''ttl_minutes'', TNumber ttl_minutes)])"

definition account_exists_email :: "renderer \<Rightarrow> string \<Rightarrow> string option \<Rightarrow> string \<times> string" where
  "account_exists_email render sign_in_url language =
     (strip (render ''account_exists_subject.txt'' language []),
      render ''account_exists_body.txt'' language [(''sign_in_url'', TText sign_in_url)])"

text \<open>What a request leaves for later, and what of it travels through the broker.\<close>

record full_context =
  fc_request_id :: string
  fc_remote_addr :: "string option"
  fc_user_agent :: "string option"
  fc_request_path :: "string option"
  fc_request_method :: "string option"
  fc_current_user :: "ident option"
  fc_language :: "string option"

type_synonym task_fields = "(string \<times> string option) list"

definition task_context :: "full_context \<Rightarrow> task_fields" where
  "task_context cx =
     [(''request_id'', Some (fc_request_id cx)), (''remote_addr'', fc_remote_addr cx), (''user_agent'', fc_user_agent cx),
      (''request_path'', fc_request_path cx), (''request_method'', fc_request_method cx), (''language'', fc_language cx)]"

definition context_of_task :: "task_fields \<Rightarrow> full_context" where
  "context_of_task d =
     (let get = (\<lambda>k. case map_of d k of None \<Rightarrow> None | Some v \<Rightarrow> v)
      in \<lparr>fc_request_id = (case get ''request_id'' of None \<Rightarrow> [] | Some v \<Rightarrow> v), fc_remote_addr = get ''remote_addr'',
          fc_user_agent = get ''user_agent'', fc_request_path = get ''request_path'', fc_request_method = get ''request_method'',
          fc_current_user = None, fc_language = get ''language''\<rparr>)"

record mail_settings =
  ml_choice :: mailer_choice
  ml_render :: renderer
  ml_base_url :: string
  ml_ttl_hours :: int
  ml_ttl_minutes :: int

definition send_verification_email ::
  "mail_server \<Rightarrow> mail_settings \<Rightarrow> string \<Rightarrow> string \<Rightarrow> full_context \<Rightarrow> (mail_error, unit) result \<times> wire" where
  "send_verification_email ms stg email token cx =
     (case verification_email (ml_render stg) (token_url (ml_base_url stg) VERIFY_PATH token) (ml_ttl_hours stg) (fc_language cx) of
        (subject, body) \<Rightarrow> mailer_send ms (ml_choice stg) email subject body)"

definition send_password_reset_email ::
  "mail_server \<Rightarrow> mail_settings \<Rightarrow> string \<Rightarrow> string \<Rightarrow> full_context \<Rightarrow> (mail_error, unit) result \<times> wire" where
  "send_password_reset_email ms stg email token cx =
     (case password_reset_email (ml_render stg) (token_url (ml_base_url stg) RESET_PATH token) (ml_ttl_minutes stg) (fc_language cx) of
        (subject, body) \<Rightarrow> mailer_send ms (ml_choice stg) email subject body)"

definition send_account_exists_email ::
  "mail_server \<Rightarrow> mail_settings \<Rightarrow> string \<Rightarrow> full_context \<Rightarrow> (mail_error, unit) result \<times> wire" where
  "send_account_exists_email ms stg email cx =
     (case account_exists_email (ml_render stg) (rstrip_char (CHR ''/'') (ml_base_url stg) @ SIGN_IN_PATH) (fc_language cx) of
        (subject, body) \<Rightarrow> mailer_send ms (ml_choice stg) email subject body)"

section \<open>The queue on a broker\<close>

text \<open>A message that is asked for, with the request that asks for it or with what of it travels.\<close>

datatype 'cx mail_task =
    VerificationTask string string 'cx
  | PasswordResetTask string string 'cx
  | AccountExistsTask string 'cx

datatype task = LinkAccessedTask string task_fields | MailTask "task_fields mail_task"

record celery_queue =
  cq_retry_interval :: int
  cq_failed_at :: "moment option"
  cq_published :: "task list"

definition celery_queue_init :: "int \<Rightarrow> celery_queue" where
  "celery_queue_init retry_interval = \<lparr>cq_retry_interval = retry_interval, cq_failed_at = None, cq_published = []\<rparr>"

definition cq_claim_attempt :: "moment \<Rightarrow> celery_queue \<Rightarrow> bool \<times> celery_queue" where
  "cq_claim_attempt now q =
     (case cq_failed_at q of
        None \<Rightarrow> (True, q)
      | Some failed_at \<Rightarrow>
          if now - failed_at < cq_retry_interval q * second then (False, q)
          else (True, q\<lparr>cq_failed_at := Some now\<rparr>))"

text \<open>The end of an attempt, which other callers may have run past: the broker took the task or did not.\<close>

definition cq_finish_attempt :: "moment \<Rightarrow> bool \<Rightarrow> task \<Rightarrow> celery_queue \<Rightarrow> celery_queue" where
  "cq_finish_attempt now taken t q =
     (if taken then q\<lparr>cq_published := cq_published q @ [t], cq_failed_at := None\<rparr> else q\<lparr>cq_failed_at := Some now\<rparr>)"

text \<open>One call alone: \<open>now\<close> when it asks, \<open>later\<close> when the broker has answered.\<close>

definition cq_enqueue_link_accessed :: "moment \<Rightarrow> moment \<Rightarrow> bool \<Rightarrow> string \<Rightarrow> full_context \<Rightarrow> celery_queue \<Rightarrow> celery_queue" where
  "cq_enqueue_link_accessed now later taken short_code cx q =
     (case cq_claim_attempt now q of
        (False, q1) \<Rightarrow> q1
      | (True, q1) \<Rightarrow> cq_finish_attempt later taken (LinkAccessedTask short_code (task_context cx)) q1)"

text \<open>A message asks no back-off and reports.\<close>

definition cq_enqueue_mail :: "bool \<Rightarrow> full_context mail_task \<Rightarrow> celery_queue \<Rightarrow> bool \<times> celery_queue" where
  "cq_enqueue_mail taken m q =
     (if taken then (True, q\<lparr>cq_published := cq_published q @ [MailTask (map_mail_task task_context m)]\<rparr>) else (False, q))"

section \<open>The queue that sends on the spot\<close>

type_synonym mail_fn = "string \<Rightarrow> string \<Rightarrow> full_context \<Rightarrow> (mail_error, unit) result"

record null_queue =
  nq_send_verification_fn :: "mail_fn option"
  nq_send_password_reset_fn :: "mail_fn option"
  nq_send_account_exists_fn :: "(string \<Rightarrow> full_context \<Rightarrow> (mail_error, unit) result) option"
  nq_sent :: "full_context mail_task list"

definition nq_send :: "null_queue \<Rightarrow> full_context mail_task \<Rightarrow> (mail_error, unit) result option" where
  "nq_send q m =
     (case m of
        VerificationTask email token cx \<Rightarrow> map_option (\<lambda>f. f email token cx) (nq_send_verification_fn q)
      | PasswordResetTask email token cx \<Rightarrow> map_option (\<lambda>f. f email token cx) (nq_send_password_reset_fn q)
      | AccountExistsTask email cx \<Rightarrow> map_option (\<lambda>f. f email cx) (nq_send_account_exists_fn q))"

definition nq_enqueue_mail :: "full_context mail_task \<Rightarrow> null_queue \<Rightarrow> bool \<times> null_queue" where
  "nq_enqueue_mail m q =
     (case nq_send q m of
        None \<Rightarrow> (False, q)
      | Some (Inl _) \<Rightarrow> (False, q)
      | Some (Inr _) \<Rightarrow> (True, q\<lparr>nq_sent := nq_sent q @ [m]\<rparr>))"

definition nq_enqueue_link_accessed :: "(string \<Rightarrow> full_context \<Rightarrow> 's \<Rightarrow> (exn, unit) result \<times> 's) option \<Rightarrow> string \<Rightarrow> full_context \<Rightarrow> 's \<Rightarrow> 's" where
  "nq_enqueue_link_accessed update_fn short_code cx st =
     (case update_fn of None \<Rightarrow> st | Some update \<Rightarrow> snd (update short_code cx st))"

section \<open>The worker\<close>

definition run_mail_task :: "mail_server \<Rightarrow> mail_settings \<Rightarrow> task_fields mail_task \<Rightarrow> (mail_error, unit) result \<times> wire" where
  "run_mail_task ms stg t =
     (case t of
        VerificationTask email token d \<Rightarrow> send_verification_email ms stg email token (context_of_task d)
      | PasswordResetTask email token d \<Rightarrow> send_password_reset_email ms stg email token (context_of_task d)
      | AccountExistsTask email d \<Rightarrow> send_account_exists_email ms stg email (context_of_task d))"

definition MAX_RETRIES :: nat where
  "MAX_RETRIES = 3"

text \<open>A task that fails is run again, with the server as it is then, as long as retries are left.\<close>

fun work_off :: "(nat \<Rightarrow> mail_server) \<Rightarrow> mail_settings \<Rightarrow> task_fields mail_task \<Rightarrow> nat list \<Rightarrow> bool \<times> wire list" where
  "work_off servers stg t [] = (False, [])"
| "work_off servers stg t (n # rest) =
     (case run_mail_task (servers n) stg t of
        (Inr _, w) \<Rightarrow> (True, [w])
      | (Inl _, w) \<Rightarrow> (case work_off servers stg t rest of (ok, ws) \<Rightarrow> (ok, w # ws)))"

definition mail_worker :: "(nat \<Rightarrow> mail_server) \<Rightarrow> mail_settings \<Rightarrow> task_fields mail_task \<Rightarrow> bool \<times> wire list" where
  "mail_worker servers stg t = work_off servers stg t [0..<Suc MAX_RETRIES]"

text \<open>The same for a click, with the use case that counts it.\<close>

fun count_click :: "(nat \<Rightarrow> string \<Rightarrow> full_context \<Rightarrow> 's \<Rightarrow> (exn, unit) result \<times> 's) \<Rightarrow> string \<Rightarrow> task_fields \<Rightarrow> nat list \<Rightarrow> 's \<Rightarrow> bool \<times> 's" where
  "count_click update short_code d [] st = (False, st)"
| "count_click update short_code d (n # rest) st =
     (case update n short_code (context_of_task d) st of
        (Inr _, st1) \<Rightarrow> (True, st1)
      | (Inl _, st1) \<Rightarrow> count_click update short_code d rest st1)"

definition process_link_accessed :: "(nat \<Rightarrow> string \<Rightarrow> full_context \<Rightarrow> 's \<Rightarrow> (exn, unit) result \<times> 's) \<Rightarrow> string \<Rightarrow> task_fields \<Rightarrow> 's \<Rightarrow> bool \<times> 's" where
  "process_link_accessed update short_code d = count_click update short_code d [0..<Suc MAX_RETRIES]"

section \<open>What the port promises about messages\<close>

fun enqueue_all :: "('s \<Rightarrow> 'm \<Rightarrow> bool \<times> 's) \<Rightarrow> 'm list \<Rightarrow> 's \<Rightarrow> bool list \<times> 's" where
  "enqueue_all enqueue [] q = ([], q)"
| "enqueue_all enqueue (m # ms) q =
     (case enqueue q m of (ok, q1) \<Rightarrow> case enqueue_all enqueue ms q1 of (oks, q2) \<Rightarrow> (ok # oks, q2))"

locale mail_handoff =
  fixes enqueue :: "'s \<Rightarrow> full_context mail_task \<Rightarrow> bool \<times> 's"
    and handed :: "'s \<Rightarrow> task_fields mail_task list"
  assumes reports: "enqueue q m = (ok, q') \<Longrightarrow> handed q' = handed q @ (if ok then [map_mail_task task_context m] else [])"
begin

text \<open>Exactly the messages it reported as handed over are on their way, in that order.\<close>

lemma handed_over_as_reported:
  "enqueue_all enqueue ms q = (oks, q') \<Longrightarrow> length oks = length ms \<and> handed q' = handed q @ map (map_mail_task task_context \<circ> fst) (filter snd (zip ms oks))"
proof (induction ms arbitrary: q oks)
  case (Cons m ms)
  obtain ok q1 where one: "enqueue q m = (ok, q1)" by fastforce
  obtain oks1 where rest: "enqueue_all enqueue ms q1 = (oks1, q')" "oks = ok # oks1"
    using Cons.prems one by (auto split: prod.splits)
  show ?case using Cons.IH [OF rest(1)] reports [OF one] rest(2) by simp
qed simp

end

definition mails_of :: "task list \<Rightarrow> task_fields mail_task list" where
  "mails_of ts = concat (map (\<lambda>t. case t of MailTask m \<Rightarrow> [m] | LinkAccessedTask _ _ \<Rightarrow> []) ts)"

interpretation celery_mail: mail_handoff "\<lambda>q m. cq_enqueue_mail (broker q m) m q" "\<lambda>q. mails_of (cq_published q)" for broker
  by unfold_locales (auto simp: cq_enqueue_mail_def mails_of_def split: if_splits)

interpretation null_mail: mail_handoff "\<lambda>q m. nq_enqueue_mail m q" "\<lambda>q. map (map_mail_task task_context) (nq_sent q)"
  by unfold_locales (auto simp: nq_enqueue_mail_def split: option.splits sum.splits)

section \<open>Histories of the queue on a broker\<close>

text \<open>Callers ask, brokers answer and messages pass in any order.\<close>

datatype queue_event = Asks moment | Answered moment bool task | Mails bool "full_context mail_task"

fun event_time :: "queue_event \<Rightarrow> moment option" where
  "event_time (Asks t) = Some t"
| "event_time (Answered t _ _) = Some t"
| "event_time (Mails _ _) = None"

fun queue_step :: "queue_event \<Rightarrow> celery_queue \<Rightarrow> celery_queue" where
  "queue_step (Asks now) q = snd (cq_claim_attempt now q)"
| "queue_step (Answered now taken t) q = cq_finish_attempt now taken t q"
| "queue_step (Mails taken m) q = snd (cq_enqueue_mail taken m q)"

fun granted :: "queue_event list \<Rightarrow> celery_queue \<Rightarrow> moment list" where
  "granted [] q = []"
| "granted (e # es) q =
     (case e of Asks now \<Rightarrow> if fst (cq_claim_attempt now q) then [now] else [] | _ \<Rightarrow> []) @ granted es (queue_step e q)"

definition broker_down :: "queue_event list \<Rightarrow> bool" where
  "broker_down es \<longleftrightarrow> (\<forall>e \<in> set es. case e of Answered _ taken _ \<Rightarrow> \<not> taken | _ \<Rightarrow> True)"

definition in_order :: "moment \<Rightarrow> queue_event list \<Rightarrow> bool" where
  "in_order t es \<longleftrightarrow> sorted (t # List.map_filter event_time es)"

lemma in_order_simps:
  "in_order t [] = True"
  "in_order t (e # es) = (case event_time e of None \<Rightarrow> in_order t es | Some t' \<Rightarrow> t \<le> t' \<and> in_order t' es)"
  by (auto simp: in_order_def map_filter_simps split: option.splits)

lemma broker_down_simps:
  "broker_down []" "broker_down (e # es) = ((case e of Answered _ taken _ \<Rightarrow> \<not> taken | _ \<Rightarrow> True) \<and> broker_down es)"
  by (simp_all add: broker_down_def)

lemma granted_apart:
  assumes "broker_down es" and "in_order t es" and "cq_failed_at q = Some f" and "0 \<le> cq_retry_interval q" and "f \<le> t"
  shows "sorted_wrt (\<lambda>a b. a + cq_retry_interval q * second \<le> b) (f # granted es q)"
  using assms
proof (induction es arbitrary: t q f)
  case (Cons e es)
  have i: "cq_retry_interval (queue_step e q) = cq_retry_interval q"
    by (cases e) (auto simp: cq_claim_attempt_def cq_finish_attempt_def cq_enqueue_mail_def split: option.splits)
  have down: "broker_down es" using Cons.prems(1) by (simp add: broker_down_simps)
  show ?case
  proof (cases e)
    case (Asks now)
    show ?thesis
    proof (cases "now - f < cq_retry_interval q * second")
      case True
      then have "granted (e # es) q = granted es q" using Asks Cons.prems(3) by (simp add: cq_claim_attempt_def)
      then show ?thesis using Cons.IH [OF down _ Cons.prems(3,4), of now] Cons.prems(2,5) Asks by (simp add: in_order_simps)
    next
      case False
      let ?q = "q\<lparr>cq_failed_at := Some now\<rparr>"
      have "granted (e # es) q = now # granted es ?q" using Asks Cons.prems(3) False by (simp add: cq_claim_attempt_def)
      moreover have "sorted_wrt (\<lambda>a b. a + cq_retry_interval q * second \<le> b) (now # granted es ?q)"
        using Cons.IH [OF down, of now ?q now] Cons.prems(2,4) Asks by (simp add: in_order_simps)
      ultimately show ?thesis using False Cons.prems(4) by (fastforce simp: second_def)
    qed
  next
    case (Answered now taken t')
    let ?q = "q\<lparr>cq_failed_at := Some now\<rparr>"
    have "granted (e # es) q = granted es ?q" using Answered Cons.prems(1) by (simp add: cq_finish_attempt_def broker_down_simps)
    moreover have "f \<le> now" using Cons.prems(2,5) Answered by (simp add: in_order_simps)
    moreover have "sorted_wrt (\<lambda>a b. a + cq_retry_interval q * second \<le> b) (now # granted es ?q)"
      using Cons.IH [OF down, of now ?q now] Cons.prems(2,4) Answered by (simp add: in_order_simps)
    ultimately show ?thesis by fastforce
  next
    case (Mails taken m)
    have "cq_failed_at (queue_step e q) = Some f" using Mails Cons.prems(3) by (simp add: cq_enqueue_mail_def)
    then show ?thesis using Cons.IH [OF down, of t "queue_step e q" f] Cons.prems(2,4,5) Mails i by (simp add: in_order_simps)
  qed
qed simp

section \<open>Lemmas: the conversation\<close>

text \<open>What must not be read on the way: a password, a message.\<close>

fun confidential :: "wire_event \<Rightarrow> bool" where
  "confidential (LogIn _ _) = True"
| "confidential (SendMessage _) = True"
| "confidential _ = False"

lemma smtp_connect_wire:
  assumes "smtp_connect ms m = (r, w)"
  shows "\<forall>x \<in> set w. \<not> confidential (snd x)" and "r = Inr enc \<Longrightarrow> (enc \<longleftrightarrow> sm_use_tls m \<or> sm_use_ssl m)"
    and "w \<noteq> []" and "(\<exists>e. r = Inl e) \<Longrightarrow> ms_accepts ms [hd w] \<Longrightarrow> snd (last w) = CloseSocket"
  using assms by (auto simp: smtp_connect_def discard_def Let_def split: if_splits)

lemma converse_wire:
  assumes "converse ms m msg enc w = (fine, w1)"
  obtains ext where "w1 = w @ ext" and "\<forall>x \<in> set ext. fst x = enc"
    and "\<forall>x \<in> set ext. snd x = LogIn (sm_username m) (sm_password m) \<and> enc \<and> sm_username m \<noteq> [] \<or> snd x = SendMessage msg"
    and "fine \<longleftrightarrow> (enc, SendMessage msg) \<in> set ext \<and> ms_accepts ms w1"
  using assms by (auto simp: converse_def Let_def split: if_splits)

lemma smtp_send_wire:
  assumes "smtp_send ms m recipient subject body = (r, w)"
  defines "msg \<equiv> \<lparr>mm_from = sm_sender m, mm_to = recipient, mm_subject = subject, mm_body = body\<rparr>"
  shows "(enc, LogIn u p) \<in> set w \<Longrightarrow> enc"
    and "sm_use_tls m \<or> sm_use_ssl m \<Longrightarrow> (enc, ev) \<in> set w \<Longrightarrow> confidential ev \<Longrightarrow> enc"
    and "(enc, SendMessage msg') \<in> set w \<Longrightarrow> msg' = msg"
    and "w \<noteq> [] \<Longrightarrow> ms_accepts ms [hd w] \<Longrightarrow> snd (last w) = CloseSocket"
    and "r = Inr () \<Longrightarrow> \<exists>enc. (enc, SendMessage msg) \<in> set w"
proof -
  have "((enc, LogIn u p) \<in> set w \<longrightarrow> enc) \<and> (sm_use_tls m \<or> sm_use_ssl m \<longrightarrow> (enc, ev) \<in> set w \<longrightarrow> confidential ev \<longrightarrow> enc) \<and>
    ((enc, SendMessage msg') \<in> set w \<longrightarrow> msg' = msg) \<and>
    (w \<noteq> [] \<longrightarrow> ms_accepts ms [hd w] \<longrightarrow> snd (last w) = CloseSocket) \<and> (r = Inr () \<longrightarrow> (\<exists>enc. (enc, SendMessage msg) \<in> set w))"
  proof (cases "email_message (sm_sender m) recipient subject body")
    case (Inl e)
    then show ?thesis using assms(1) by (auto simp: smtp_send_def)
  next
    case (Inr x)
    have x: "x = msg" using Inr by (auto simp: email_message_def msg_def split: if_splits)
    obtain rc w0 where c: "smtp_connect ms m = (rc, w0)" by fastforce
    note plain = smtp_connect_wire(1) [OF c]
    show ?thesis
    proof (cases rc)
      case (Inl e)
      then have "r = Inl e" "w = w0" using assms(1) Inr c by (simp_all add: smtp_send_def)
      then show ?thesis using plain smtp_connect_wire(4) [OF c] Inl by auto
    next
      case con: (Inr secure)
      obtain fine w1 where v: "converse ms m msg secure w0 = (fine, w1)" by fastforce
      obtain ext where ext: "w1 = w0 @ ext" "\<forall>x \<in> set ext. fst x = secure"
        "\<forall>x \<in> set ext. snd x = LogIn (sm_username m) (sm_password m) \<and> secure \<and> sm_username m \<noteq> [] \<or> snd x = SendMessage msg"
        "fine \<longleftrightarrow> (secure, SendMessage msg) \<in> set ext \<and> ms_accepts ms w1" by (rule converse_wire [OF v])
      have w: "w = w0 @ ext @ [(secure, Quit), (secure, CloseSocket)]" "r = Inr () \<Longrightarrow> fine"
        using assms(1) Inr c con v ext(1) x by (auto simp: smtp_send_def discard_def split: if_splits)
      have tls: "secure \<longleftrightarrow> sm_use_tls m \<or> sm_use_ssl m" using smtp_connect_wire(2) [OF c con] .
      have said: "fst x = secure \<and> (snd x = LogIn (sm_username m) (sm_password m) \<and> secure \<or> snd x = SendMessage msg)"
        if "x \<in> set w" "confidential (snd x)" for x
        using that plain ext(2,3) unfolding w(1) by auto
      have "enc" if "(enc, LogIn u p) \<in> set w" using said [OF that] by simp
      moreover have "enc" if "sm_use_tls m \<or> sm_use_ssl m" "(enc, ev) \<in> set w" "confidential ev" using said [OF that(2)] that tls by simp
      moreover have "msg' = msg" if "(enc, SendMessage msg') \<in> set w" using said [OF that] by simp
      moreover have "snd (last w) = CloseSocket" by (simp add: w(1))
      moreover have "(secure, SendMessage msg) \<in> set w" if "r = Inr ()" using w(2) [OF that] ext(4) by (simp add: w(1))
      ultimately show ?thesis by blast
    qed
  qed
  then show "(enc, LogIn u p) \<in> set w \<Longrightarrow> enc"
    and "sm_use_tls m \<or> sm_use_ssl m \<Longrightarrow> (enc, ev) \<in> set w \<Longrightarrow> confidential ev \<Longrightarrow> enc"
    and "(enc, SendMessage msg') \<in> set w \<Longrightarrow> msg' = msg"
    and "w \<noteq> [] \<Longrightarrow> ms_accepts ms [hd w] \<Longrightarrow> snd (last w) = CloseSocket"
    and "r = Inr () \<Longrightarrow> \<exists>enc. (enc, SendMessage msg) \<in> set w" by blast+
qed

text \<open>A worker hands over the same kind of message at each attempt, and stops at the first that succeeds.\<close>

lemma work_off_attempts:
  "work_off servers stg t ns = (ok, ws) \<Longrightarrow> length ws \<le> length ns \<and>
     (\<forall>i < length ws. \<exists>r. run_mail_task (servers (ns ! i)) stg t = (r, ws ! i)) \<and>
     (ok \<longrightarrow> (\<exists>n. run_mail_task (servers n) stg t = (Inr (), last ws)))"
proof (induction ns arbitrary: ws)
  case (Cons n ns)
  obtain r w where r: "run_mail_task (servers n) stg t = (r, w)" by fastforce
  show ?case
  proof (cases r)
    case (Inl e)
    obtain ws1 where ws1: "work_off servers stg t ns = (ok, ws1)" "ws = w # ws1"
      using Cons.prems r Inl by (auto split: prod.splits)
    have "ws1 \<noteq> []" if "ok" using ws1(1) that by (cases ns) (auto split: prod.splits sum.splits)
    then show ?thesis using Cons.IH [OF ws1(1)] ws1(2) r by (auto simp: nth_Cons split: nat.splits)
  next
    case (Inr u)
    then have "ws = [w]" using Cons.prems r by simp
    then show ?thesis using r Inr by auto
  qed
qed simp

fun task_address :: "'cx mail_task \<Rightarrow> string" where
  "task_address (VerificationTask email _ _) = email"
| "task_address (PasswordResetTask email _ _) = email"
| "task_address (AccountExistsTask email _) = email"

lemma run_mail_task_send:
  obtains subject body where "run_mail_task ms stg t = mailer_send ms (ml_choice stg) (task_address t) subject body"
  by (cases t) (auto simp: run_mail_task_def send_verification_email_def send_password_reset_email_def send_account_exists_email_def
      verification_email_def password_reset_email_def account_exists_email_def intro: that)

lemma mailer_send_encrypted:
  assumes "mailer_send ms (SMTPMailer host port username password sender tls ssl) recipient subject body = (r, w)" and "tls \<or> ssl"
  shows "(\<forall>(enc, ev) \<in> set w. confidential ev \<longrightarrow> enc) \<and> (\<forall>enc msg. (enc, SendMessage msg) \<in> set w \<longrightarrow> mm_to msg = recipient \<and> mm_from msg = sender)
    \<and> (w \<noteq> [] \<longrightarrow> ms_accepts ms [hd w] \<longrightarrow> snd (last w) = CloseSocket) \<and> (r = Inr () \<longrightarrow> (\<exists>msg. (True, SendMessage msg) \<in> set w))"
proof -
  let ?m = "\<lparr>sm_host = host, sm_port = port, sm_username = username, sm_password = password, sm_sender = sender, sm_use_tls = tls, sm_use_ssl = ssl\<rparr>"
  have s: "smtp_send ms ?m recipient subject body = (r, w)" using assms(1) by (simp add: mailer_send_def)
  note wire = smtp_send_wire [OF s]
  have enc: "enc" if "(enc, ev) \<in> set w" "confidential ev" for enc ev using wire(2) [OF _ that] assms(2) by simp
  moreover have "mm_to msg = recipient \<and> mm_from msg = sender" if "(enc, SendMessage msg) \<in> set w" for enc msg using wire(3) [OF that] by simp
  moreover have "\<exists>msg. (True, SendMessage msg) \<in> set w" if ok: "r = Inr ()"
  proof -
    obtain b msg where b: "(b, SendMessage msg) \<in> set w" using wire(5) [OF ok] by blast
    then have "b = True" using enc [OF b] by simp
    then show ?thesis using b by blast
  qed
  ultimately show ?thesis using wire(4) by blast
qed

text \<open>A token of the alphabet that tokens are drawn from stands in its link as it is, and what travels with a task comes back.\<close>

lemma quote_plain:
  assumes "\<forall>ch \<in> set s. is_ascii_char ch \<and> unreserved (int (code ch))"
  shows "quote s = s"
proof -
  have "concat (map quote_byte (utf8_char ch)) = [ch]" if "ch \<in> set s" for ch
    using assms that by (auto simp: utf8_char_def is_ascii_char_def quote_byte_def code_def)
  then show ?thesis by (induction s) (simp_all add: quote_def utf8_encode_def)
qed

lemma context_travels: "context_of_task (task_context cx) = cx\<lparr>fc_current_user := None\<rparr>"
  by (simp add: context_of_task_def task_context_def)

section \<open>Properties\<close>

text \<open>
  C39. How mail leaves a deployed service, whatever the server answers and however often a
  worker has to try: no password and no message crosses the wire before the connection is
  encrypted, a message goes from the configured sender to the address of its task, every
  connection that was opened is closed again, there are at most four attempts, and a task
  counts as done only when a message was submitted.
\<close>

theorem mail_leaves_encrypted:
  assumes "create_config p de arg env = Inr c" and "deployed c"
    and "mail_component c = Inr (SMTPMailer host port username password sender tls ssl)"
    and "ml_choice stg = SMTPMailer host port username password sender tls ssl" and "mail_worker servers stg t = (ok, ws)"
  shows "length ws \<le> 4 \<and>
    (\<forall>i < length ws. (\<forall>(enc, ev) \<in> set (ws ! i). confidential ev \<longrightarrow> enc) \<and>
       (\<forall>enc msg. (enc, SendMessage msg) \<in> set (ws ! i) \<longrightarrow> mm_to msg = task_address t \<and> mm_from msg = sender) \<and>
       (ws ! i \<noteq> [] \<longrightarrow> ms_accepts (servers i) [hd (ws ! i)] \<longrightarrow> snd (last (ws ! i)) = CloseSocket)) \<and>
    (ok \<longrightarrow> (\<exists>msg. (True, SendMessage msg) \<in> set (last ws)))"
proof -
  have v: "validate c = Inr ()" using assms(1) by (auto simp: create_config_def result_simps split: sum.splits)
  have on: "MAIL_ENABLED c = Inr True" "MAIL_USE_TLS c = Inr tls" "MAIL_USE_SSL c = Inr ssl"
    using assms(3) by (auto simp: mail_component_def rbind_eq_Inr split: if_splits)
  then have secure: "tls \<or> ssl" using mail_of_a_deployment [OF assms(2) accepted_parts(4) [OF v]] by auto
  note attempts = work_off_attempts [OF assms(5) [unfolded mail_worker_def]]
  have each: "(\<forall>(enc, ev) \<in> set w. confidential ev \<longrightarrow> enc) \<and>
      (\<forall>enc msg. (enc, SendMessage msg) \<in> set w \<longrightarrow> mm_to msg = task_address t \<and> mm_from msg = sender) \<and>
      (w \<noteq> [] \<longrightarrow> ms_accepts (servers n) [hd w] \<longrightarrow> snd (last w) = CloseSocket) \<and> (r = Inr () \<longrightarrow> (\<exists>msg. (True, SendMessage msg) \<in> set w))"
    if run: "run_mail_task (servers n) stg t = (r, w)" for n r w
  proof -
    obtain subject body where "run_mail_task (servers n) stg t = mailer_send (servers n) (ml_choice stg) (task_address t) subject body"
      by (rule run_mail_task_send)
    then have "mailer_send (servers n) (SMTPMailer host port username password sender tls ssl) (task_address t) subject body = (r, w)"
      using run assms(4) by simp
    then show ?thesis using secure by (rule mailer_send_encrypted)
  qed
  have len: "length ws \<le> 4" using attempts by (simp add: MAX_RETRIES_def)
  have "\<exists>r. run_mail_task (servers i) stg t = (r, ws ! i)" if "i < length ws" for i
  proof -
    have "[0..<Suc MAX_RETRIES] ! i = i" using that len by (subst nth_upt) (simp_all add: MAX_RETRIES_def)
    then show ?thesis using attempts that by metis
  qed
  moreover have "\<exists>msg. (True, SendMessage msg) \<in> set (last ws)" if "ok" using attempts that each by blast
  ultimately show ?thesis using len each by blast
qed

text \<open>
  C40. The broker during an outage. From the moment a publication failed, and as long as none
  succeeds, callers that interleave in any way attempt to publish clicks at most once per
  retry interval; messages pass by the back-off and do not disturb it; and with the first
  success everybody is let through again.
\<close>

theorem broker_outage_is_probed_once_per_interval:
  assumes "broker_down es" and "in_order t es" and "0 \<le> cq_retry_interval q"
  shows "sorted_wrt (\<lambda>a b. a + cq_retry_interval q * second \<le> b) (t # granted es (cq_finish_attempt t False tk q)) \<and>
    fst (cq_claim_attempt now (cq_finish_attempt t' True tk' (fold queue_step es (cq_finish_attempt t False tk q))))"
proof -
  have "sorted_wrt (\<lambda>a b. a + cq_retry_interval (cq_finish_attempt t False tk q) * second \<le> b)
      (t # granted es (cq_finish_attempt t False tk q))"
    by (rule granted_apart [OF assms(1,2)]) (use assms(3) in \<open>simp_all add: cq_finish_attempt_def\<close>)
  then show ?thesis by (simp add: cq_finish_attempt_def cq_claim_attempt_def)
qed

section \<open>Witnesses\<close>

definition mail_environ :: environ where
  "mail_environ = site_environ(''MAIL_ENABLED'' \<mapsto> ''true'', ''MAIL_HOST'' \<mapsto> ''mx.example'', ''MAIL_FROM'' \<mapsto> ''no-reply@go.example'')"

definition site_mail :: mail_settings where
  "site_mail = \<lparr>ml_choice = SMTPMailer ''mx.example'' 587 [] [] ''no-reply@go.example'' True False, ml_render = (\<lambda>name language values. name),
     ml_base_url = ''https://go.example'', ml_ttl_hours = 24, ml_ttl_minutes = 60\<rparr>"

text \<open>A server that is out of reach at first.\<close>

definition late_server :: "nat \<Rightarrow> mail_server" where
  "late_server n = \<lparr>ms_accepts = (\<lambda>w. n > 0), ms_says_goodbye = (\<lambda>w. True)\<rparr>"

theorem mail_leaves_encrypted_witness:
  "\<exists>ws. mail_worker late_server site_mail (VerificationTask ''ann@example.com'' ''t0ken'' []) = (True, ws) \<and> length ws = 2 \<and>
     (\<exists>msg. (True, SendMessage msg) \<in> set (last ws))"
proof -
  let ?run = "mail_worker late_server site_mail (VerificationTask ''ann@example.com'' ''t0ken'' [])"
  have c: "case create_config site_process site_files None mail_environ of Inl _ \<Rightarrow> False
    | Inr c \<Rightarrow> deployed c \<and> mail_component c = Inr (ml_choice site_mail)" by code_simp
  then obtain c where c: "create_config site_process site_files None mail_environ = Inr c" "deployed c"
      "mail_component c = Inr (SMTPMailer ''mx.example'' 587 [] [] ''no-reply@go.example'' True False)"
    by (auto simp: site_mail_def split: sum.splits)
  have "fst ?run" "length (snd ?run) = 2" by code_simp+
  moreover have "ml_choice site_mail = SMTPMailer ''mx.example'' 587 [] [] ''no-reply@go.example'' True False" by (simp add: site_mail_def)
  moreover obtain ok ws where r: "?run = (ok, ws)" by fastforce
  ultimately show ?thesis using mail_leaves_encrypted [OF c _ r] by auto
qed

theorem broker_outage_is_probed_once_per_interval_witness:
  "granted [Asks 5, Asks 20000000, Asks 20000001] (cq_finish_attempt 0 False (LinkAccessedTask ''abc1234'' []) (celery_queue_init 10)) = [20000000] \<and>
   fst (cq_claim_attempt 30000001 (cq_finish_attempt 30000000 True (LinkAccessedTask ''abc1234'' []) (fold queue_step [Asks 5, Asks 20000000, Asks 20000001]
     (cq_finish_attempt 0 False (LinkAccessedTask ''abc1234'' []) (celery_queue_init 10)))))"
proof -
  have "granted [Asks 5, Asks 20000000, Asks 20000001] (cq_finish_attempt 0 False (LinkAccessedTask ''abc1234'' []) (celery_queue_init 10)) = [20000000]"
    by code_simp
  moreover have "broker_down [Asks 5, Asks 20000000, Asks 20000001]" "in_order 0 [Asks 5, Asks 20000000, Asks 20000001]"
    by (simp_all add: broker_down_def in_order_simps)
  ultimately show ?thesis
    using broker_outage_is_probed_once_per_interval [of "[Asks 5, Asks 20000000, Asks 20000001]" 0 "celery_queue_init 10"
        "LinkAccessedTask ''abc1234'' []" 30000001 30000000 "LinkAccessedTask ''abc1234'' []"]
    by (simp add: celery_queue_init_def)
qed

end
