(* ===== verification/Sign_In_Runs.thy ===== *)
theory Sign_In_Runs
  imports Sign_In Session_Runs
begin

text \<open>
  Histories of the authentication use cases, and what follows about them: who may sign in and
  what the others learn, how often a password can be guessed, what a registration changes and
  tells, that a mailed link works once, what a new password ends, and that a registered
  account can sign in once its address is confirmed.
\<close>

section \<open>Histories\<close>

datatype auth_op =
    OpLogin failure_budget moment ident ident string string memory_limiter
  | OpRegister string int moment ident ident string string string
  | OpVerifyEmail moment string
  | OpResendVerification int moment ident string string
  | OpRequestReset int moment ident string string
  | OpResetPassword moment string string
  | OpChangePassword moment ident ident ident string string
  | OpConfirmEmail moment ident request_context
  | OpDropSpent moment
  | OpSession session_op

definition auth_do :: "auth_ports \<Rightarrow> auth_config \<Rightarrow> auth_op \<Rightarrow> database \<Rightarrow> database" where
  "auth_do ap ac op db =
     (case op of
        OpLogin fb now i t email password st \<Rightarrow> fst (snd (snd (login memory_limiter_ops fb ap ac now i t email password st db)))
      | OpRegister d ttl now i v token email password \<Rightarrow> fst (snd (register ap d ttl now i v token email password db))
      | OpVerifyEmail now token \<Rightarrow> (case verify_email now token db of Inl _ \<Rightarrow> db | Inr (db1, _) \<Rightarrow> db1)
      | OpResendVerification ttl now i token email \<Rightarrow>
          (case resend_verification (\<lambda>_. True) ttl now i token email db of Inl _ \<Rightarrow> db | Inr (_, db1, _) \<Rightarrow> db1)
      | OpRequestReset ttl now i token email \<Rightarrow>
          (case request_password_reset (\<lambda>_. True) ttl now i token email db of Inl _ \<Rightarrow> db | Inr (_, db1, _) \<Rightarrow> db1)
      | OpResetPassword now token password \<Rightarrow> (case reset_password ap now token password db of Inl _ \<Rightarrow> db | Inr (db1, _) \<Rightarrow> db1)
      | OpChangePassword now i t user_id current new \<Rightarrow> fst (snd (change_password ap ac now i t user_id current new db))
      | OpConfirmEmail now user_id cx \<Rightarrow> (case confirm_user_email now user_id cx db of Inl _ \<Rightarrow> db | Inr (_, db1, _) \<Rightarrow> db1)
      | OpDropSpent now \<Rightarrow> snd (reset_delete_expired now (snd (verification_delete_expired now db)))
      | OpSession sop \<Rightarrow> session_do ac sop db)"

text \<open>The digests of the tokens an operation mails.\<close>

fun mailed :: "auth_op \<Rightarrow> string set" where
  "mailed (OpRegister d ttl now i v token email password) = {digest token}"
| "mailed (OpResendVerification ttl now i token email) = {digest token}"
| "mailed (OpRequestReset ttl now i token email) = {digest token}"
| "mailed op = {}"

text \<open>A history in which the token with a given digest is not drawn again.\<close>

inductive auth_run :: "auth_ports \<Rightarrow> auth_config \<Rightarrow> string \<Rightarrow> database \<Rightarrow> database \<Rightarrow> bool"
  for ap :: auth_ports and ac :: auth_config and h :: string where
  idle: "auth_run ap ac h db db"
| more: "auth_run ap ac h db db1 \<Longrightarrow> h \<notin> mailed op \<Longrightarrow> auth_run ap ac h db (auth_do ap ac op db1)"

definition token_tables :: "(one_time_token list \<Rightarrow> one_time_token list \<Rightarrow> bool) \<Rightarrow> database \<Rightarrow> database \<Rightarrow> bool" where
  "token_tables R db db' \<longleftrightarrow> R (db_verifications db) (db_verifications db') \<and> R (db_resets db) (db_resets db')"

lemma token_tables_same:
  "db_verifications db' = db_verifications db \<Longrightarrow> db_resets db' = db_resets db \<Longrightarrow> token_tables (token_steps new) db db'"
  by (simp add: token_tables_def)

lemma save_user_tables:
  assumes "save_user u db = Inr db'"
  shows "db_verifications db' = db_verifications db \<and> db_resets db' = db_resets db \<and> db_sessions db' = db_sessions db"
  using assms by (auto simp: save_user_def split: option.splits if_splits)

lemma session_save_tables:
  assumes "session_save s db = Inr db'" shows "db_verifications db' = db_verifications db \<and> db_resets db' = db_resets db"
  using assms by (auto simp: session_save_def split: if_splits)

lemma create_session_tokens_tables:
  assumes "create_session_tokens ac now i t u db = Inr (tk, db')"
  shows "db_verifications db' = db_verifications db \<and> db_resets db' = db_resets db"
  using assms session_save_tables by (auto simp: create_session_tokens_def Let_def result_simps)

lemma verification_save_steps:
  assumes "verification_save t db = Inr db'"
  shows "token_step {ot_token_hash t} (db_verifications db) (db_verifications db') \<and> db_resets db' = db_resets db"
proof -
  from assms have no: "\<not> list_ex (\<lambda>r. ot_id r \<noteq> ot_id t \<and> ot_token_hash r = ot_token_hash t) (db_verifications db)"
    and db': "db' = db\<lparr>db_verifications := replace_or_append ot_id t (db_verifications db)\<rparr>"
    by (auto simp: verification_save_def token_save_error_def split: if_splits)
  have "token_step {ot_token_hash t} (db_verifications db) (replace_or_append ot_id t (db_verifications db))"
    by (rule token_step.issue) (use no in \<open>unfold list_ex_iff, blast+\<close>)
  then show ?thesis by (simp add: db')
qed

lemma reset_save_steps:
  assumes "reset_save t db = Inr db'"
  shows "token_step {ot_token_hash t} (db_resets db) (db_resets db') \<and> db_verifications db' = db_verifications db"
proof -
  from assms have no: "\<not> list_ex (\<lambda>r. ot_id r \<noteq> ot_id t \<and> ot_token_hash r = ot_token_hash t) (db_resets db)"
    and db': "db' = db\<lparr>db_resets := replace_or_append ot_id t (db_resets db)\<rparr>"
    by (auto simp: reset_save_def token_save_error_def split: if_splits)
  have "token_step {ot_token_hash t} (db_resets db) (replace_or_append ot_id t (db_resets db))"
    by (rule token_step.issue) (use no in \<open>unfold list_ex_iff, blast+\<close>)
  then show ?thesis by (simp add: db')
qed

lemma login_tables:
  "token_tables (token_steps new) db (fst (snd (snd (login lo fb ap ac now i t email password st db))))"
  by (rule token_tables_same; unfold login_def login_conclude_def;
      auto simp: Let_def dest: create_session_tokens_tables split: prod.splits sum.splits option.splits)

lemma register_tables:
  "token_tables (token_steps {digest token}) db (fst (snd (register ap d ttl now i v token email password db)))"
proof -
  have tx: "token_tables (token_steps {digest token}) db db'"
    if "register_tx d ttl now i v token e h db = Inr (u, db')" for e h u db'
  proof (cases u)
    case None
    with that have "db' = db" by (auto simp: register_tx_def result_simps split: if_splits option.splits sum.splits)
    then show ?thesis by (simp add: token_tables_def)
  next
    case (Some a)
    with that obtain b db1 where "save_user b db = Inr db1"
      and "verification_save (verification_issue now v (us_id b) (digest token) ttl) db1 = Inr db'"
      by (auto simp: register_tx_def result_simps split: if_splits option.splits sum.splits)
    then show ?thesis using save_user_tables verification_save_steps
      by (fastforce simp: token_tables_def verification_issue_def)
  qed
  have same: "token_tables (token_steps {digest token}) db db" by (simp add: token_tables_def)
  show ?thesis unfolding register_def
    by (auto simp: same intro: tx split: sum.splits exn.splits option.splits prod.splits)
qed

lemma verification_claim_tables:
  "token_tables (token_steps new) db (snd (verification_claim now h db))"
  using token_step.claim [of new "db_verifications db" now h]
  by (auto simp: token_tables_def verification_claim_def case_prod_beta)

lemma reset_claim_tables:
  "token_tables (token_steps new) db (snd (reset_claim now h db))"
  using token_step.claim [of new "db_resets db" now h]
  by (auto simp: token_tables_def reset_claim_def case_prod_beta)

lemma token_tables_trans:
  "token_tables (token_steps new) db db1 \<Longrightarrow> token_tables (token_steps new) db1 db2 \<Longrightarrow> token_tables (token_steps new) db db2"
  unfolding token_tables_def by (metis rtranclp_trans)

lemma service_update_password_tables:
  assumes "service_update_password ap now u p db = Inr (n, u1, db')"
  shows "token_tables (token_steps new) db db'"
  using assms
proof (rule service_update_password_Inr)
  assume "db_resets db' = snd (invalidate_tokens now (us_id u) (db_resets db))" "db_verifications db' = db_verifications db"
  then show ?thesis using token_step.invalidate [of new "db_resets db" now "us_id u"] by (auto simp: token_tables_def)
qed

lemma verify_email_tables:
  assumes "verify_email now token db = Inr (db', evs)"
  shows "token_tables (token_steps new) db db'"
proof -
  from assms obtain i db1 u where "verification_claim now (digest token) db = (Some i, db1)" "save_user u db1 = Inr db'"
    by (auto simp: verify_email_def result_simps split: prod.splits option.splits)
  then show ?thesis using verification_claim_tables [of new db now "digest token"] save_user_tables
    by (fastforce simp: token_tables_def)
qed

lemma reset_password_tables:
  assumes "reset_password ap now token p db = Inr (db', evs)"
  shows "token_tables (token_steps new) db db'"
proof -
  from assms obtain i db1 u n u1 where "reset_claim now (digest token) db = (Some i, db1)"
    "service_update_password ap now u p db1 = Inr (n, u1, db')"
    by (auto simp: reset_password_def result_simps split: prod.splits option.splits if_splits)
  then show ?thesis using reset_claim_tables [of new db now "digest token"] service_update_password_tables token_tables_trans
    by (metis snd_conv)
qed

lemma resend_verification_tables:
  assumes "resend_verification acc ttl now i token email db = Inr (o', db', ms)"
  shows "token_tables (token_steps {digest token}) db db'"
proof (cases "db' = db")
  case False
  from assms obtain e found where f: "Email email = Inr e" "find_user_by_email e db = Inr found"
    by (auto simp: resend_verification_def result_simps)
  from False assms f obtain u where u: "found = Some u" "\<not> (us_email_verified u)"
    by (cases found) (auto simp: resend_verification_def split: if_splits)
  with assms f have "verification_save (verification_issue now i (us_id u) (digest token) ttl) (snd (verification_invalidate now (us_id u) db)) = Inr db'"
    by (auto simp: resend_verification_def result_simps Let_def)
  from verification_save_steps [OF this] have
    "token_step {digest token} (snd (invalidate_tokens now (us_id u) (db_verifications db))) (db_verifications db')" "db_resets db' = db_resets db"
    by (simp_all add: verification_issue_def verification_invalidate_def case_prod_beta)
  then show ?thesis using token_step.invalidate [of "{digest token}" "db_verifications db" now "us_id u"]
    by (auto simp: token_tables_def)
qed (simp add: token_tables_def)

lemma request_password_reset_tables:
  assumes "request_password_reset acc ttl now i token email db = Inr (o', db', ms)"
  shows "token_tables (token_steps {digest token}) db db'"
proof (cases "db' = db")
  case False
  from assms obtain e found where f: "Email email = Inr e" "find_user_by_email e db = Inr found"
    by (auto simp: request_password_reset_def result_simps)
  from False assms f obtain u where u: "found = Some u" "\<not> (\<not> (us_is_active u \<and> us_email_verified u))"
    by (cases found) (auto simp: request_password_reset_def split: if_splits)
  with assms f have "reset_save (reset_issue now i (us_id u) (digest token) ttl) (snd (reset_invalidate now (us_id u) db)) = Inr db'"
    by (auto simp: request_password_reset_def result_simps Let_def)
  from reset_save_steps [OF this] have
    "token_step {digest token} (snd (invalidate_tokens now (us_id u) (db_resets db))) (db_resets db')" "db_verifications db' = db_verifications db"
    by (simp_all add: reset_issue_def reset_invalidate_def case_prod_beta)
  then show ?thesis using token_step.invalidate [of "{digest token}" "db_resets db" now "us_id u"]
    by (auto simp: token_tables_def)
qed (simp add: token_tables_def)

lemma change_password_tables:
  "token_tables (token_steps new) db (fst (snd (change_password ap ac now i t user_id cur p db)))"
proof -
  let ?tx = "rbind (find_user_by_id user_id db) (\<lambda>found.
        case found of
          None \<Rightarrow> Inl (Domain (DomainError ''Authentication required'' ''UNAUTHENTICATED''))
        | Some u \<Rightarrow>
            if \<not> verify_password ap cur (us_password_hash u)
            then raise_validation ''Current password is not correct'' ''current_password''
            else if verify_password ap p (us_password_hash u)
            then raise_validation ''The new password must differ from the current one'' ''new_password''
            else service_update_password ap now u p db)"
  show ?thesis
  proof (cases ?tx)
    case (Inl e) then show ?thesis by (simp add: change_password_def token_tables_def)
  next
    case (Inr q)
    obtain n u1 db1 where q: "q = (n, u1, db1)" by (rule prod_cases3)
    from Inr q obtain u where "service_update_password ap now u p db = Inr (n, u1, db1)"
      by (auto simp: result_simps split: option.splits if_splits)
    note up = service_update_password_tables [OF this, of new]
    show ?thesis
    proof (cases "create_session_tokens ac now i t u1 db1")
      case (Inl e) with Inr q up show ?thesis by (simp add: change_password_def)
    next
      case (Inr r)
      obtain tk db2 where r: "r = (tk, db2)" by (rule prod.exhaust)
      from create_session_tokens_tables [OF Inr [unfolded r]] have "token_tables (token_steps new) db1 db2"
        by (intro token_tables_same) simp_all
      with up have "token_tables (token_steps new) db db2" by (rule token_tables_trans)
      then show ?thesis using \<open>?tx = Inr q\<close> q Inr r by (simp add: change_password_def)
    qed
  qed
qed

lemma confirm_user_email_tables:
  assumes "confirm_user_email now i cx db = Inr (u, db', evs)"
  shows "token_tables (token_steps new) db db'"
proof -
  from assms obtain v db1 where db1: "db1 = db \<or> save_user v db = Inr db1"
    and db': "db' = db1\<lparr>db_verifications := snd (invalidate_tokens now i (db_verifications db1))\<rparr>"
    by (auto simp: confirm_user_email_def result_simps Let_def split: option.splits if_splits)
  have "db_verifications db1 = db_verifications db \<and> db_resets db1 = db_resets db" using db1 save_user_tables by blast
  then show ?thesis using token_step.invalidate [of new "db_verifications db" now i] by (auto simp: token_tables_def db')
qed

lemma drop_spent_tables:
  "token_tables (token_steps new) db (snd (reset_delete_expired now (snd (verification_delete_expired now db))))"
proof -
  have "snd (delete_spent_tokens now ts) = filter (\<lambda>t. \<not> (ot_expires_at t < now \<or> ot_used_at t \<noteq> None)) ts" for ts
    by (simp add: delete_spent_tokens_def Let_def)
  then show ?thesis using token_step.remove [of new]
    by (auto simp: token_tables_def reset_delete_expired_def verification_delete_expired_def case_prod_beta intro!: r_into_rtranclp)
qed

lemma session_tables:
  assumes "\<And>gone. sop \<noteq> DeleteAccounts gone"
  shows "db_verifications (session_do ac sop db) = db_verifications db \<and> db_resets (session_do ac sop db) = db_resets db"
proof (cases sop)
  case (StartSession now i t u)
  then show ?thesis using create_session_tokens_tables by (auto simp: session_do_def split: sum.splits)
next
  case (RefreshSession now i t token cx)
  obtain r db' where q: "refresh_access_token ac now i t token db = (r, db')" by (rule prod.exhaust)
  from q have "db_verifications db' = db_verifications db \<and> db_resets db' = db_resets db"
  proof (cases rule: refresh_access_token_cases)
    case (rotated p s u db1)
    have "db_verifications db1 = db_verifications db \<and> db_resets db1 = db_resets db"
      using rotated(7) by (auto simp: claim_for_rotation_def Let_def)
    then show ?thesis using session_save_tables [OF rotated(8)] by simp
  qed (simp_all add: revoke_chain_def)
  then show ?thesis using q by (simp add: session_do_def RefreshSession refresh_session_use_case_db)
next
  case (SignOut now cx token sid)
  have "db_verifications (snd (revoke_refresh_token ac now tk db)) = db_verifications db
      \<and> db_resets (snd (revoke_refresh_token ac now tk db)) = db_resets db" for tk
    unfolding revoke_refresh_token_def
    by (auto simp: case_prod_beta revoke_chain_def split: option.splits)
  then show ?thesis
    by (auto simp: session_do_def SignOut sign_out_def Let_def case_prod_beta revoke_session_chain_def revoke_chain_def split: option.splits)
qed (use assms in \<open>simp_all add: session_do_def revoke_all_for_user_def delete_expired_sessions_def\<close>)

lemma auth_do_tables: "token_tables (token_steps (mailed op)) db (auth_do ap ac op db)"
proof (cases op)
  case (OpSession sop)
  show ?thesis
  proof (cases "\<exists>gone. sop = DeleteAccounts gone")
    case True
    then show ?thesis using token_step.remove [of "{}"]
      by (auto simp: OpSession auth_do_def session_do_def token_tables_def intro!: r_into_rtranclp)
  next
    case False
    then show ?thesis using session_tables [of sop ac db] by (simp add: OpSession auth_do_def token_tables_def)
  qed
qed (auto simp: auth_do_def login_tables register_tables change_password_tables drop_spent_tables token_tables_same split: sum.splits
     intro: verify_email_tables reset_password_tables resend_verification_tables request_password_reset_tables confirm_user_email_tables)

lemma auth_run_tables:
  assumes "auth_run ap ac h db db'"
  shows "token_tables (\<lambda>ts ts'. tokens_ok ts \<longrightarrow> token_used h ts \<longrightarrow> tokens_ok ts' \<and> token_used h ts') db db'"
  using assms
proof (induction rule: auth_run.induct)
  case (more db db1 op)
  with auth_do_tables [of op db1 ap ac] show ?case
    unfolding token_tables_def by (blast dest: token_steps_ok token_steps_used)
qed (simp add: token_tables_def)

section \<open>Properties\<close>



text \<open>
  Registration tells nothing about who has an account: for an acceptable address and
  password the answer is the same whether the address is taken. A taken address changes
  nothing and mails its owner a notice; a free one adds one account, active, not confirmed,
  with the default role alone and the hash of the password, and mails the address a token,
  of which only the digest is stored.
\<close>

lemma registration_tells_nothing:
  assumes "Email email = Inr e" and "rbind (hash_password (ap_hashpw ap) password) PasswordHash = Inr h"
    and "find_user_by_email e db = Inr found"
    and "get_role_by_name d db = Some r" "rl_name r \<noteq> GUEST_ROLE_NAME"
    and "i \<notin> ur_id ` set (db_users db)" "digest token \<notin> ot_token_hash ` set (db_verifications db)"
    and "register ap d ttl now i v token email password db = (answer, db', mails, evs)"
  shows "answer = Inr () \<and>
    (if found \<noteq> None then db' = db \<and> mails = [AccountExistsMail e]
     else (\<exists>m. db_users db' = db_users db @ [m] \<and> ur_id m = i \<and> ur_email m = e \<and> ur_password_hash m = ap_hashpw ap password
             \<and> ur_is_active m \<and> \<not> ur_email_verified m \<and> ur_role_ids m = [rl_id r])
        \<and> mails = [VerificationMail e token]
        \<and> (\<exists>t \<in> set (db_verifications db'). ot_user_id t = i \<and> ot_token_hash t = digest token \<and> ot_used_at t = None)
        \<and> db_sessions db' = db_sessions db \<and> db_roles db' = db_roles db)"
proof (cases found)
  case (Some u)
  then show ?thesis using register_taken [OF assms(1,2) assms(3)[unfolded Some]] assms(8) by simp
next
  case None
  let ?t = "verification_issue now v i (digest token) ttl"
  have h: "h = ap_hashpw ap password"
    using assms(2) by (auto simp: hash_password_def result_simps PasswordHash_def split: if_splits)
  note free = register_free [OF assms(1,2) assms(3)[unfolded None] assms(4-7)]
  have "?t \<in> set (replace_or_append ot_id ?t (db_verifications db))" by (simp add: set_replace_or_append)
  moreover have "ot_user_id ?t = i" "ot_token_hash ?t = digest token" "ot_used_at ?t = None" by (simp_all add: verification_issue_def)
  ultimately have "\<exists>t \<in> set (replace_or_append ot_id ?t (db_verifications db)). ot_user_id t = i \<and> ot_token_hash t = digest token \<and> ot_used_at t = None"
    by (intro bexI [of _ ?t]) simp_all
  then show ?thesis using assms(8) None h by (auto simp: free new_account_def)
qed

text \<open>
  C16. A mailed link works once. After it confirmed an address, or replaced a password, the
  same link is refused, whatever happens in between, as long as the same token is not drawn
  again.
\<close>

theorem mailed_link_works_once:
  assumes "tokens_ok (db_verifications db)" "tokens_ok (db_resets db)" and run: "auth_run ap ac (digest token) db1 db2"
  shows "(verify_email now token db = Inr (db1, evs) \<longrightarrow>
            verify_email now' token db2 = raise_validation ''This confirmation link is not valid'' ''token'')
    \<and> (reset_password ap now token p db = Inr (db1, evs) \<longrightarrow>
            reset_password ap now' token p' db2 = raise_validation ''This reset link is not valid'' ''token'')"
proof (intro conjI impI)
  assume v: "verify_email now token db = Inr (db1, evs)"
  then obtain i dba u where c: "verification_claim now (digest token) db = (Some i, dba)" "save_user u dba = Inr db1"
    by (auto simp: verify_email_def result_simps split: prod.splits option.splits)
  have "token_used (digest token) (db_verifications db1)"
    using verifications.claim_marks [OF assms(1) c(1)] save_user_tables [OF c(2)] by simp
  moreover have "tokens_ok (db_verifications db1)"
    using verify_email_tables [OF v, of "{}"] token_steps_ok assms(1) unfolding token_tables_def by blast
  ultimately have "token_used (digest token) (db_verifications db2)"
    using auth_run_tables [OF run] by (simp add: token_tables_def)
  from verifications.refused_after [OF this, of now'] show "verify_email now' token db2 = raise_validation ''This confirmation link is not valid'' ''token''"
    by (auto simp: verify_email_def)
next
  assume v: "reset_password ap now token p db = Inr (db1, evs)"
  then obtain i dba u n u1 where c: "reset_claim now (digest token) db = (Some i, dba)" "service_update_password ap now u p dba = Inr (n, u1, db1)"
    by (auto simp: reset_password_def result_simps split: prod.splits option.splits if_splits)
  have "token_used (digest token) (db_resets dba)" by (rule resets.claim_marks [OF assms(2) c(1)])
  then have "token_used (digest token) (db_resets db1)"
    using service_update_password_tables [OF c(2), of "{}"] token_steps_used unfolding token_tables_def by blast
  moreover have "tokens_ok (db_resets db1)"
    using reset_password_tables [OF v, of "{}"] token_steps_ok assms(2) unfolding token_tables_def by blast
  ultimately have "token_used (digest token) (db_resets db2)"
    using auth_run_tables [OF run] by (simp add: token_tables_def)
  from resets.refused_after [OF this, of now'] show "reset_password ap now' token p' db2 = raise_validation ''This reset link is not valid'' ''token''"
    by (auto simp: reset_password_def)
qed


lemma revoke_rows_others:
  "filter (\<lambda>s. rs_user_id s \<noteq> i) (revoke_rows now (\<lambda>s. rs_user_id s = i) ss) = filter (\<lambda>s. rs_user_id s \<noteq> i) ss"
  by (induction ss) (simp_all add: revoke_rows_def)

lemma revoked_rows_of_user:
  assumes "s \<in> set (revoke_rows now (\<lambda>s. rs_user_id s = i) ss)" and "rs_user_id s = i" shows "rs_revoked_at s \<noteq> None"
  using assms(1)
proof (rule in_revoke_rows)
  fix q assume "rs_user_id s = rs_user_id q" "s = (if rs_user_id q = i \<and> rs_revoked_at q = None then q\<lparr>rs_revoked_at := Some now\<rparr> else q)"
  with assms(2) show ?thesis by (cases "rs_revoked_at q") simp_all
qed

lemma invalidated_tokens_of_user:
  assumes "r \<in> set (snd (invalidate_tokens now i ts))" and "ot_user_id r = i" shows "ot_used_at r \<noteq> None"
  using assms(1) unfolding invalidate_tokens_rows
proof (rule in_mark)
  fix q assume "ot_user_id r = ot_user_id q" "r = (if ot_user_id q = i \<and> ot_used_at q = None then q\<lparr>ot_used_at := Some now\<rparr> else q)"
  with assms(2) show ?thesis by (cases "ot_used_at q") simp_all
qed

text \<open>
  C17. A reset replaces everything the old password held. It needs a token that was issued
  for the account, is not used and has not expired; afterwards the account has the hash of
  the new password, every session of the account is revoked, every reset link of it is
  used, and the other accounts, with their sessions, are as they were.
\<close>

theorem reset_ends_what_the_password_held:
  assumes "tokens_ok (db_resets db)" and "reset_password ap now token p db = Inr (db', evs)"
  shows "\<exists>i n. (\<exists>t \<in> set (db_resets db). ot_token_hash t = digest token \<and> ot_user_id t = i \<and> token_is_usable now t)
    \<and> evs = [PasswordWasReset i n]
    \<and> (\<exists>m \<in> set (db_users db'). ur_id m = i) \<and> (\<forall>m \<in> set (db_users db'). ur_id m = i \<longrightarrow> ur_password_hash m = ap_hashpw ap p)
    \<and> (\<forall>s \<in> set (db_sessions db'). rs_user_id s = i \<longrightarrow> rs_revoked_at s \<noteq> None)
    \<and> (\<forall>t \<in> set (db_resets db'). ot_user_id t = i \<longrightarrow> ot_used_at t \<noteq> None)
    \<and> {m \<in> set (db_users db'). ur_id m \<noteq> i} = {m \<in> set (db_users db). ur_id m \<noteq> i}
    \<and> filter (\<lambda>s. rs_user_id s \<noteq> i) (db_sessions db') = filter (\<lambda>s. rs_user_id s \<noteq> i) (db_sessions db)"
proof -
  from assms(2) obtain i dba u n u1 where c: "reset_claim now (digest token) db = (Some i, dba)"
    and found: "find_user_by_id i dba = Inr (Some u)"
    and up: "service_update_password ap now u p dba = Inr (n, u1, db')" and evs: "evs = [PasswordWasReset (us_id u) n]"
    by (auto simp: reset_password_def result_simps split: prod.splits option.splits if_splits)
  have ui: "us_id u = i" by (rule find_user_by_id_Some [OF found])
  from c have cl: "claim_token now (digest token) (db_resets db) = (Some i, db_resets dba)"
    and dba: "db_users dba = db_users db" "db_sessions dba = db_sessions db"
    by (auto simp: reset_claim_def split: prod.splits)
  obtain t where t: "t \<in> set (db_resets db)" "ot_token_hash t = digest token" "ot_user_id t = i" "token_is_usable now t"
    using assms(1) cl by (rule claim_Some)
  obtain h where h: "hash_password (ap_hashpw ap) p = Inr h" "u1 = u\<lparr>us_password_hash := h\<rparr>"
    and users: "db_users db' = replace_or_append ur_id (user_to_row u1) (db_users dba)"
    and rs: "db_resets db' = snd (invalidate_tokens now (us_id u) (db_resets dba))"
    and ss: "db_sessions db' = revoke_rows now (\<lambda>s. rs_user_id s = us_id u) (db_sessions dba)"
    using up by (rule service_update_password_Inr)
  have hash: "h = ap_hashpw ap p" using h(1) by (auto simp: hash_password_def result_simps)
  have row: "ur_id (user_to_row u1) = i" "ur_password_hash (user_to_row u1) = ap_hashpw ap p" using h(2) hash ui by simp_all
  have su: "set (db_users db') = insert (user_to_row u1) {y \<in> set (db_users db). ur_id y \<noteq> i}"
    unfolding users dba(1) set_replace_or_append row(1) ..
  have revoked: "rs_revoked_at s \<noteq> None" if "s \<in> set (db_sessions db')" "rs_user_id s = i" for s
    using that revoked_rows_of_user unfolding ss ui by metis
  have used: "ot_used_at r \<noteq> None" if "r \<in> set (db_resets db')" "ot_user_id r = i" for r
    using that invalidated_tokens_of_user unfolding rs ui by metis
  have others: "filter (\<lambda>s. rs_user_id s \<noteq> i) (db_sessions db') = filter (\<lambda>s. rs_user_id s \<noteq> i) (db_sessions db)"
    unfolding ss dba(2) ui by (rule revoke_rows_others)
  show ?thesis
  proof (rule exI [of _ i], rule exI [of _ n], intro conjI)
    show "\<exists>t \<in> set (db_resets db). ot_token_hash t = digest token \<and> ot_user_id t = i \<and> token_is_usable now t" using t by blast
    show "evs = [PasswordWasReset i n]" using evs ui by simp
    show "\<exists>m \<in> set (db_users db'). ur_id m = i" "\<forall>m \<in> set (db_users db'). ur_id m = i \<longrightarrow> ur_password_hash m = ap_hashpw ap p"
      unfolding su using row by auto
    show "{m \<in> set (db_users db'). ur_id m \<noteq> i} = {m \<in> set (db_users db). ur_id m \<noteq> i}" unfolding su using row by auto
  qed (use revoked used others in blast)+
qed

section \<open>From registration to the first request\<close>

text \<open>The row of one account: no other row has its identifier or its address.\<close>

definition account_row :: "database \<Rightarrow> user_row \<Rightarrow> bool" where
  "account_row db m \<longleftrightarrow> m \<in> set (db_users db) \<and>
     (\<forall>m' \<in> set (db_users db). ur_id m' = ur_id m \<or> ur_email m' = ur_email m \<longrightarrow> m' = m)"

definition readable :: "user_row \<Rightarrow> bool" where
  "readable m \<longleftrightarrow> email_from_storage (ur_email m) = Inr (ur_email m) \<and> PasswordHash (ur_password_hash m) = Inr (ur_password_hash m)"

definition row_user :: "database \<Rightarrow> user_row \<Rightarrow> user" where
  "row_user db m =
     \<lparr>us_id = ur_id m, us_email = ur_email m, us_password_hash = ur_password_hash m, us_roles = user_roles db m,
      us_is_active = ur_is_active m, us_email_verified = ur_email_verified m, us_created_at = ur_created_at m,
      us_last_login = ur_last_login m\<rparr>"

lemma find_user_only:
  assumes "m \<in> set (db_users db)" and "P m" and "\<And>m'. m' \<in> set (db_users db) \<Longrightarrow> P m' \<Longrightarrow> m' = m" and "readable m"
  shows "find_user P db = Inr (Some (row_user db m))"
proof -
  have "List.find P (db_users db) = Some m"
  proof (cases "List.find P (db_users db)")
    case None with assms(1,2) show ?thesis by (auto simp: find_None_iff)
  next
    case (Some m') then show ?thesis using assms(3) by (metis find_Some_iff nth_mem)
  qed
  moreover have "user_to_domain db m = Inr (row_user db m)"
    using assms(4) by (simp add: user_to_domain_def readable_def row_user_def)
  ultimately show ?thesis by (simp add: find_user_def)
qed

lemma account_row_found:
  assumes "account_row db m" and "readable m"
  shows "find_user_by_id (ur_id m) db = Inr (Some (row_user db m))" "find_user_by_email (ur_email m) db = Inr (Some (row_user db m))"
  unfolding find_user_by_id_def find_user_by_email_def using assms
  by (auto simp: account_row_def intro!: find_user_only)

lemma row_user_roles:
  assumes "distinct (map rr_id (db_roles db))"
  shows "distinct (map rl_id (user_roles db m))" "r \<in> set (user_roles db m) \<Longrightarrow> rl_id r \<in> set (map rr_id (db_roles db))"
proof -
  have "map rl_id (user_roles db m) = map rr_id (filter (\<lambda>r. rr_id r \<in> set (ur_role_ids m)) (db_roles db))"
    by (simp add: user_roles_def role_to_domain_def comp_def)
  then show "distinct (map rl_id (user_roles db m))" using assms by (simp add: distinct_map_filter)
  show "r \<in> set (user_roles db m) \<Longrightarrow> rl_id r \<in> set (map rr_id (db_roles db))"
    by (auto simp: user_roles_def role_to_domain_def)
qed

lemma account_row_save:
  assumes row: "account_row db m" and u: "us_id u = ur_id m" "us_email u = ur_email m" "us_roles u = user_roles db m"
    and roles: "distinct (map rr_id (db_roles db))"
  shows "save_user u db = Inr (db\<lparr>db_users := replace_or_append ur_id (user_to_row u) (db_users db)\<rparr>)"
    and "account_row (db\<lparr>db_users := replace_or_append ur_id (user_to_row u) (db_users db)\<rparr>) (user_to_row u)"
proof -
  have "List.find (\<lambda>r. rl_id r \<notin> set (map rr_id (db_roles db))) (us_roles u) = None"
    unfolding find_None_iff u(3) using row_user_roles(2) [OF roles] by metis
  moreover have "\<not> list_ex (\<lambda>x. ur_id x \<noteq> us_id u \<and> ur_email x = us_email u) (db_users db)"
    unfolding list_ex_iff u using row by (metis account_row_def)
  ultimately show "save_user u db = Inr (db\<lparr>db_users := replace_or_append ur_id (user_to_row u) (db_users db)\<rparr>)"
    using row_user_roles(1) [OF roles, of m] u(3) by (simp add: save_user_def)
  have "m' = user_to_row u" if "m' \<in> set (replace_or_append ur_id (user_to_row u) (db_users db))"
    "ur_id m' = ur_id (user_to_row u) \<or> ur_email m' = ur_email (user_to_row u)" for m'
    using that row u unfolding set_replace_or_append account_row_def by auto
  then show "account_row (db\<lparr>db_users := replace_or_append ur_id (user_to_row u) (db_users db)\<rparr>) (user_to_row u)"
    unfolding account_row_def by (simp add: set_replace_or_append)
qed

lemma account_row_record_login:
  assumes row: "account_row db m"
  shows "account_row (snd (record_login (ur_id m) n db)) (m\<lparr>ur_last_login := Some n\<rparr>)"
proof -
  let ?f = "\<lambda>x. if ur_id x = ur_id m then x\<lparr>ur_last_login := Some n\<rparr> else x"
  have us: "db_users (snd (record_login (ur_id m) n db)) = map ?f (db_users db)" by (simp add: record_login_def)
  have mem: "m \<in> set (db_users db)" using row by (simp add: account_row_def)
  show ?thesis unfolding account_row_def us
  proof (intro conjI ballI impI)
    show "m\<lparr>ur_last_login := Some n\<rparr> \<in> set (map ?f (db_users db))" unfolding set_map by (rule image_eqI [OF _ mem]) simp
    fix m' assume "m' \<in> set (map ?f (db_users db))" and same: "ur_id m' = ur_id (m\<lparr>ur_last_login := Some n\<rparr>) \<or> ur_email m' = ur_email (m\<lparr>ur_last_login := Some n\<rparr>)"
    then obtain x where x: "x \<in> set (db_users db)" "m' = ?f x" unfolding set_map by (elim imageE)
    have "ur_id m' = ur_id x" "ur_email m' = ur_email x" by (simp_all add: x(2))
    then have "x = m" using same x(1) row by (auto simp: account_row_def)
    then show "m' = m\<lparr>ur_last_login := Some n\<rparr>" using x(2) by simp
  qed
qed

lemma claim_usable_token:
  assumes ok: "tokens_ok ts" and t: "t \<in> set ts" "token_is_usable now t"
  shows "fst (claim_token now (ot_token_hash t) ts) = Some (ot_user_id t)"
proof -
  have same: "r \<in> set ts \<Longrightarrow> ot_token_hash r = ot_token_hash t \<Longrightarrow> r = t" for r
    using ok t(1) unfolding tokens_ok_def by (metis inj_onD)
  have "List.find (\<lambda>r. ot_token_hash r = ot_token_hash t) ts = Some t"
  proof (cases "List.find (\<lambda>r. ot_token_hash r = ot_token_hash t) ts")
    case None with t(1) show ?thesis by (auto simp: find_None_iff)
  next
    case (Some r) then show ?thesis using same by (metis (mono_tags, lifting) find_Some_iff nth_mem)
  qed
  moreover have "filter (\<lambda>r. ot_token_hash r = ot_token_hash t \<and> ot_used_at r = None \<and> ot_expires_at r > now) ts = [t]"
  proof -
    have d: "distinct ts" using ok by (auto simp: tokens_ok_def distinct_map)
    have "filter (\<lambda>r. ot_token_hash r = ot_token_hash t \<and> ot_used_at r = None \<and> ot_expires_at r > now) ts = filter (\<lambda>r. r = t) ts"
      by (rule filter_cong [OF refl]) (use same t(2) in \<open>auto simp: token_is_usable_def\<close>)
    moreover have "filter (\<lambda>r. r = t) ts = [t]" using filter_key_single [of "\<lambda>x. x" ts t] d t(1) by simp
    ultimately show ?thesis by simp
  qed
  ultimately show ?thesis by (simp add: claim_token_def Let_def)
qed


lemma account_row_tables:
  "db_users db' = db_users db \<Longrightarrow> account_row db' m = account_row db m"
  by (simp add: account_row_def)

lemma confirmed_by_link:
  assumes row: "account_row db m" "readable m" and roles: "distinct (map rr_id (db_roles db))"
    and token: "tokens_ok (db_verifications db)" "t \<in> set (db_verifications db)" "ot_token_hash t = digest token"
      "ot_user_id t = ur_id m" "token_is_usable now t"
  obtains db' m' where "verify_email now token db = Inr (db', [EmailConfirmed (ur_id m)])" "account_row db' m'" "readable m'"
    "ur_id m' = ur_id m" "ur_email m' = ur_email m" "ur_password_hash m' = ur_password_hash m" "ur_is_active m' = ur_is_active m"
    "ur_email_verified m'" "db_sessions db' = db_sessions db"
proof -
  obtain dba where c: "verification_claim now (digest token) db = (Some (ur_id m), dba)"
    and dba: "db_users dba = db_users db" "db_roles dba = db_roles db" "db_sessions dba = db_sessions db"
    using claim_usable_token [OF token(1,2,5)] token(3,4)
    by (cases "claim_token now (digest token) (db_verifications db)") (auto simp: verification_claim_def)
  have rowa: "account_row dba m" using row(1) account_row_tables [OF dba(1)] by simp
  let ?u = "(row_user dba m)\<lparr>us_email_verified := True\<rparr>"
  have u: "us_id ?u = ur_id m" "us_email ?u = ur_email m" "us_roles ?u = user_roles dba m" by (simp_all add: row_user_def)
  note saved = account_row_save [OF rowa u roles [folded dba(2)]]
  have "verify_email now token db =
      Inr (dba\<lparr>db_users := replace_or_append ur_id (user_to_row ?u) (db_users dba)\<rparr>, [EmailConfirmed (ur_id m)])"
    using c account_row_found(1) [OF rowa row(2)] saved(1) by (simp add: verify_email_def)
  moreover have "readable (user_to_row ?u)" using row(2) by (simp add: readable_def row_user_def)
  ultimately show thesis by (rule that [OF _ saved(2)]) (simp_all add: row_user_def dba(3))
qed

lemma account_row_signs_in:
  assumes row: "account_row db m" "readable m" and ok: "ur_is_active m" "ur_email_verified m"
      "verify_password ap password (ur_password_hash m)"
    and addr: "Email email = Inr (ur_email m)" and budget: "\<not> fst (budget_spent lo fb now email st)"
    and t: "t \<notin> rs_token_id ` set (db_sessions db)" "t \<noteq> []" and i: "ur_id m \<noteq> []"
    and jwt: "jwt_reads_back ac" "second \<le> ac_access_expire ac" "0 < ac_refresh_expire ac"
    and path: "\<not> startswith (hr_path rq) ''/static/''"
  obtains lr st' db' u where "login lo fb ap ac now j t email password st db = (Inr lr, st', db', [LoginSucceeded (ur_id m) (ur_email m)])"
    "load_current_user ac now (rq\<lparr>hr_authorization := Some (''Bearer '' @ lr_access_token lr)\<rparr>) db' =
       Inr (Some \<lparr>si_user = u, si_session_id = t, si_source = FromHeader\<rparr>)" "us_id u = ur_id m"
proof -
  let ?u = "row_user db m"
  have found: "find_user_by_email (ur_email m) db = Inr (Some ?u)" by (rule account_row_found(2) [OF row])
  have enter: "may_enter ap password (Some ?u)" using ok by (simp add: may_enter_def row_user_def)
  let ?u1 = "?u\<lparr>us_last_login := Some now\<rparr>" and ?db1 = "snd (record_login (us_id ?u) now db)"
  obtain tk db2 where tk: "create_session_tokens ac now j t ?u1 ?db1 = Inr (tk, db2)"
    and run: "login lo fb ap ac now j t email password st db =
       (Inr \<lparr>lr_access_token = rt_access_token tk, lr_refresh_token = rt_refresh_token tk, lr_user = from_user ?u1\<rparr>,
        snd (budget_spent lo fb now email st), db2, [LoginSucceeded (us_id ?u) (us_email ?u)])"
    by (rule login_admits [OF addr found budget enter t(1)])
  have idu: "us_id ?u = ur_id m" "us_email ?u = ur_email m" by (simp_all add: row_user_def)
  let ?s = "refresh_session_create now j (us_id ?u1) t (now + ac_refresh_expire ac) None"
  have saved: "session_save ?s ?db1 = Inr db2" and access: "rt_access_token tk = create_access_token ac now ?u1 t"
    using tk by (auto simp: create_session_tokens_def Let_def result_simps)
  from saved have db2: "db2 = ?db1\<lparr>db_sessions := replace_or_append rs_id ?s (db_sessions ?db1)\<rparr>"
    by (simp add: session_save_def split: if_splits)
  have row2: "account_row ?db1 (m\<lparr>ur_last_login := Some now\<rparr>)" unfolding idu(1) by (rule account_row_record_login [OF row(1)])
  have "row_user ?db1 (m\<lparr>ur_last_login := Some now\<rparr>) = ?u1"
    by (simp add: row_user_def user_roles_def role_to_domain_def [abs_def])
  then have "find_user_by_id (us_id ?u1) db2 = Inr (Some ?u1)"
    using account_row_found(1) [OF row2] row(2) by (simp add: db2 readable_def row_user_def)
  moreover have "chain_is_live now t db2"
    unfolding chain_is_live_def list_ex_iff
    by (rule bexI [of _ ?s]) (use jwt(3) in \<open>simp_all add: db2 set_replace_or_append\<close>)
  ultimately have "load_current_user ac now (rq\<lparr>hr_authorization := Some (''Bearer '' @ create_access_token ac now ?u1 t)\<rparr>) db2 =
       Inr (Some \<lparr>si_user = ?u1, si_session_id = t, si_source = FromHeader\<rparr>)"
    by (intro access_token_recognised [OF jwt(1)]) (use jwt(2) ok i t(2) path idu in \<open>simp_all add: row_user_def\<close>)
  moreover have "us_id ?u1 = ur_id m" using idu(1) by simp
  ultimately show thesis by (intro that [OF run [unfolded idu]]) (simp_all only: access login_response.simps)
qed


text \<open>
  C13. The whole way in. Whoever registers a free address cannot sign in before the address
  is confirmed; the mailed token confirms it until it expires; then the password opens a
  session, and the access token signs the next request in as the new account. bcrypt accepts
  a password for the hash it made of it.
\<close>

theorem registered_account_signs_in:
  assumes wf: "accounts_wf db" "tokens_ok (db_verifications db)"
    and addr: "Email email = Inr e" and h: "rbind (hash_password (ap_hashpw ap) password) PasswordHash = Inr h"
    and free: "find_user_by_email e db = Inr None"
    and role: "get_role_by_name d db = Some r" "rl_name r \<noteq> GUEST_ROLE_NAME"
    and new: "i \<notin> ur_id ` set (db_users db)" "digest token \<notin> ot_token_hash ` set (db_verifications db)" "i \<noteq> []"
    and reg: "register ap d ttl n0 i v token email password db = (answer, db1, mails, evs)"
    and time: "n1 < n0 + ttl * hour"
    and bcrypt: "ap_checkpw ap password (ap_hashpw ap password) = Some True"
    and budget: "\<not> fst (budget_spent lo fb n2 email st)"
    and t: "t \<notin> rs_token_id ` set (db_sessions db)" "t \<noteq> []"
    and jwt: "jwt_reads_back ac" "second \<le> ac_access_expire ac" "0 < ac_refresh_expire ac"
    and path: "\<not> startswith (hr_path rq) ''/static/''"
  shows "fst (login lo fb ap ac n2 j t email password st db1) = Inl INVALID_CREDENTIALS
    \<and> (\<exists>db2 lr st' db3 u. verify_email n1 token db1 = Inr (db2, [EmailConfirmed i])
        \<and> login lo fb ap ac n2 j t email password st db2 = (Inr lr, st', db3, [LoginSucceeded i e])
        \<and> load_current_user ac n2 (rq\<lparr>hr_authorization := Some (''Bearer '' @ lr_access_token lr)\<rparr>) db3 =
            Inr (Some \<lparr>si_user = u, si_session_id = t, si_source = FromHeader\<rparr>)
        \<and> us_id u = i)"
proof -
  let ?m = "user_to_row (new_account n0 i e h r)" and ?t = "verification_issue n0 v i (digest token) ttl"
  have db1: "db1 = db\<lparr>db_users := db_users db @ [?m], db_verifications := replace_or_append ot_id ?t (db_verifications db)\<rparr>"
    using register_free [OF addr h free role new(1,2)] reg by simp
  have m: "ur_id ?m = i" "ur_email ?m = e" "ur_password_hash ?m = h" "ur_is_active ?m" "\<not> ur_email_verified ?m"
    by (simp_all add: new_account_def)
  have "h = ap_hashpw ap password" "PasswordHash h = Inr h"
    using h by (auto simp: hash_password_def result_simps PasswordHash_def split: if_splits)
  then have pw: "verify_password ap password h" and ph: "PasswordHash h = Inr h" using bcrypt by (simp_all add: verify_password_def)
  have "email_from_storage e = Inr e"
    using addr by (auto simp: email_from_storage_def result_simps Email_eq_Inr email_pattern_lower)
  with ph have readable: "readable ?m" using m by (simp add: readable_def)
  have "e \<notin> ur_email ` set (db_users db)"
    using find_user_None [OF free [unfolded find_user_by_email_def]] by (metis (no_types, lifting) imageE)
  then have row: "account_row db1 ?m" using new(1) m unfolding account_row_def db1 by auto
  have roles: "distinct (map rr_id (db_roles db1))" using wf(1) by (simp add: db1 accounts_wf_def)
  have "ot_token_hash q \<noteq> ot_token_hash ?t" if "q \<in> set (db_verifications db)" for q
    using imageI [OF that, of ot_token_hash] new(2) by (auto simp: verification_issue_def)
  then have tok: "tokens_ok (db_verifications db1)" using replace_or_append_ok [OF wf(2), of ?t] by (simp add: db1)
  have mem: "?t \<in> set (db_verifications db1)" by (simp add: db1 set_replace_or_append)
  have before: "fst (login lo fb ap ac n2 j t email password st db1) = Inl INVALID_CREDENTIALS"
  proof -
    obtain r' st' db' evs' where l: "login lo fb ap ac n2 j t email password st db1 = (r', st', db', evs')" by (metis surj_pair)
    have "\<not> may_enter ap password (Some (row_user db1 ?m))" using m by (simp add: may_enter_def row_user_def)
    with login_refuses [OF addr account_row_found(2) [OF row readable, unfolded m(2)] _ l] l show ?thesis by simp
  qed
  obtain db2 m2 where v: "verify_email n1 token db1 = Inr (db2, [EmailConfirmed (ur_id ?m)])" "account_row db2 m2" "readable m2"
    "ur_id m2 = ur_id ?m" "ur_email m2 = ur_email ?m" "ur_password_hash m2 = ur_password_hash ?m" "ur_is_active m2 = ur_is_active ?m"
    "ur_email_verified m2" "db_sessions db2 = db_sessions db1"
    by (rule confirmed_by_link [OF row readable roles tok mem])
       (use time m in \<open>simp_all add: verification_issue_def token_is_usable_def\<close>)
  have fresh2: "t \<notin> rs_token_id ` set (db_sessions db2)" unfolding v(9) using t(1) by (simp add: db1)
  obtain lr st' db3 u where "login lo fb ap ac n2 j t email password st db2 = (Inr lr, st', db3, [LoginSucceeded (ur_id m2) (ur_email m2)])"
    "load_current_user ac n2 (rq\<lparr>hr_authorization := Some (''Bearer '' @ lr_access_token lr)\<rparr>) db3 =
       Inr (Some \<lparr>si_user = u, si_session_id = t, si_source = FromHeader\<rparr>)" "us_id u = ur_id m2"
    by (rule account_row_signs_in [OF v(2,3) _ v(8) _ _ budget fresh2 t(2) _ jwt path])
       (use v m pw addr new(3) in simp_all)
  with before v(1,4,5) m show ?thesis by auto
qed

section \<open>Samples\<close>

text \<open>
  A stand-in for bcrypt that accepts a password for the hash it made of it, and the
  password \<^verbatim>\<open>correct horse\<close> for the hash of the sample accounts.
\<close>

definition sample_ap :: auth_ports where
  "sample_ap = \<lparr>ap_hashpw = (\<lambda>p. CHR ''#'' # p), ap_checkpw = (\<lambda>p h. Some (h = CHR ''#'' # p \<or> h = ''h'' \<and> p = ''correct horse''))\<rparr>"

definition sample_budget :: failure_budget where
  "sample_budget = \<lparr>fb_limit = 5, fb_period = 60\<rparr>"

definition no_requests :: memory_limiter where
  "no_requests = (\<lambda>_. [])"

definition sample_new_token :: "ident \<Rightarrow> one_time_token" where
  "sample_new_token i = \<lparr>ot_id = ''v1'', ot_user_id = i, ot_token_hash = digest ''tok'', ot_expires_at = 10, ot_created_at = 0, ot_used_at = None\<rparr>"

definition sample_bob :: user where
  "sample_bob =
     \<lparr>us_id = ''bob'', us_email = ''bob@example.org'', us_password_hash = ''h'',
      us_roles = [role_to_domain sample_db (sample_role ''r2'' ''user'' [''p2''])], us_is_active = True, us_email_verified = False,
      us_created_at = 0, us_last_login = None\<rparr>"

lemma sample_reads:
  "Email ''root@example.org'' = Inr ''root@example.org''" "Email ''new@example.org'' = Inr ''new@example.org''"
  "find_user_by_email ''root@example.org'' sample_db = Inr (Some sample_root)"
  "find_user_by_email ''new@example.org'' sample_db = Inr None"
  "find_user_by_id ''bob'' sample_db = Inr (Some sample_bob)"
  "get_role_by_name ''user'' sample_db = Some (role_to_domain sample_db (sample_role ''r2'' ''user'' [''p2'']))"
  by code_simp+

lemma sample_hash: "hash_password (ap_hashpw sample_ap) ''a long new secret'' = Inr ''#a long new secret''"
  by code_simp

lemma sample_budget_left: "\<not> fst (budget_spent memory_limiter_ops sample_budget n email no_requests)"
  by (simp add: memory_budget_spent sample_budget_def no_requests_def)



lemma sample_register:
  "rbind (hash_password (ap_hashpw sample_ap) ''a long new secret'') PasswordHash = Inr ''#a long new secret''"
  "rl_name (role_to_domain sample_db (sample_role ''r2'' ''user'' [''p2''])) \<noteq> GUEST_ROLE_NAME"
  "''eve'' \<notin> ur_id ` set (db_users sample_db)" "digest ''tok'' \<notin> ot_token_hash ` set (db_verifications sample_db)"
  by (simp_all add: sample_hash) (code_simp, code_simp, code_simp, simp add: sample_db_def)

lemma find_user_by_id_tokens [simp]:
  "find_user_by_id i (db\<lparr>db_verifications := ts\<rparr>) = find_user_by_id i db" "find_user_by_id i (db\<lparr>db_resets := ts\<rparr>) = find_user_by_id i db"
  unfolding find_user_by_id_def by (rule find_user_same, simp_all)+

lemma sample_saves:
  "case save_user (sample_bob\<lparr>us_email_verified := True\<rparr>) sample_db of Inl _ \<Rightarrow> False | Inr _ \<Rightarrow> True"
  "case save_user (sample_root\<lparr>us_password_hash := ''#a long new secret''\<rparr>) sample_db of Inl _ \<Rightarrow> False | Inr _ \<Rightarrow> True"
  by code_simp+

lemma save_user_tokens:
  "save_user u (db\<lparr>db_verifications := ts\<rparr>) = (case save_user u db of Inl e \<Rightarrow> Inl e | Inr db' \<Rightarrow> Inr (db'\<lparr>db_verifications := ts\<rparr>))"
  "save_user u (db\<lparr>db_resets := ts\<rparr>) = (case save_user u db of Inl e \<Rightarrow> Inl e | Inr db' \<Rightarrow> Inr (db'\<lparr>db_resets := ts\<rparr>))"
  by (simp_all add: save_user_def split: option.splits)

lemma sample_claim:
  "claim_token 5 (digest ''tok'') [sample_new_token i] = (Some i, [(sample_new_token i)\<lparr>ot_used_at := Some 5\<rparr>])"
  by (simp add: claim_token_def sample_new_token_def)

definition sample_confirming :: database where
  "sample_confirming = sample_db\<lparr>db_verifications := [sample_new_token ''bob'']\<rparr>"

definition sample_resetting :: database where
  "sample_resetting = sample_db\<lparr>db_resets := [sample_new_token ''root'']\<rparr>"

lemma sample_verified: "\<exists>db1 evs. verify_email 5 ''tok'' sample_confirming = Inr (db1, evs)"
proof -
  from sample_saves(1) obtain db1 where "save_user (sample_bob\<lparr>us_email_verified := True\<rparr>) sample_db = Inr db1"
    by (auto split: sum.splits)
  then show ?thesis
    by (simp add: verify_email_def verification_claim_def sample_confirming_def sample_claim sample_reads save_user_tokens)
qed

lemma sample_reset: "\<exists>db1 evs. reset_password sample_ap 5 ''tok'' ''a long new secret'' sample_resetting = Inr (db1, evs)"
proof -
  from sample_saves(2) obtain db1 where "save_user (sample_root\<lparr>us_password_hash := ''#a long new secret''\<rparr>) sample_db = Inr db1"
    by (auto split: sum.splits)
  moreover have "PasswordHash ''#a long new secret'' = Inr ''#a long new secret''" using sample_register(1) by (simp add: sample_hash)
  moreover have "us_is_active sample_root" "us_id sample_root = ''root''" by (simp_all add: sample_root_def)
  ultimately show ?thesis
    by (simp add: reset_password_def reset_claim_def sample_resetting_def sample_claim sample_root_found save_user_tokens
        service_update_password_def sample_hash Let_def case_prod_beta)
qed

theorem mailed_link_works_once_witness:
  "(\<exists>db1 evs. verify_email 5 ''tok'' sample_confirming = Inr (db1, evs)
      \<and> verify_email 6 ''tok'' db1 = raise_validation ''This confirmation link is not valid'' ''token'')
   \<and> (\<exists>db1 evs. reset_password sample_ap 5 ''tok'' ''a long new secret'' sample_resetting = Inr (db1, evs)
      \<and> reset_password sample_ap 6 ''tok'' ''another new secret'' db1 = raise_validation ''This reset link is not valid'' ''token'')"
proof -
  have ok: "tokens_ok (db_verifications sample_confirming)" "tokens_ok (db_resets sample_confirming)"
    "tokens_ok (db_verifications sample_resetting)" "tokens_ok (db_resets sample_resetting)"
    by (simp_all add: tokens_ok_def sample_confirming_def sample_resetting_def) (simp_all add: sample_db_def)
  from sample_verified obtain db1 evs where v: "verify_email 5 ''tok'' sample_confirming = Inr (db1, evs)" by blast
  from sample_reset obtain db2 evs2 where r: "reset_password sample_ap 5 ''tok'' ''a long new secret'' sample_resetting = Inr (db2, evs2)" by blast
  have "verify_email 6 ''tok'' db1 = raise_validation ''This confirmation link is not valid'' ''token''"
    by (rule mp [OF conjunct1 [OF mailed_link_works_once [OF ok(1,2) auth_run.idle [of sample_ap sample_ac]]] v])
  moreover have "reset_password sample_ap 6 ''tok'' ''another new secret'' db2 = raise_validation ''This reset link is not valid'' ''token''"
    by (rule mp [OF conjunct2 [OF mailed_link_works_once [OF ok(3,4) auth_run.idle [of sample_ap sample_ac]]] r])
  ultimately show ?thesis using v r by (intro conjI exI)
qed

theorem reset_ends_what_the_password_held_witness:
  "\<exists>db1 i n. reset_password sample_ap 5 ''tok'' ''a long new secret'' sample_resetting = Inr (db1, [PasswordWasReset i n])
     \<and> (\<forall>m \<in> set (db_users db1). ur_id m = i \<longrightarrow> ur_password_hash m = ''#a long new secret'')"
proof -
  have ok: "tokens_ok (db_resets sample_resetting)" by (simp add: tokens_ok_def sample_resetting_def)
  from sample_reset obtain db1 evs where r: "reset_password sample_ap 5 ''tok'' ''a long new secret'' sample_resetting = Inr (db1, evs)" by blast
  have "ap_hashpw sample_ap ''a long new secret'' = ''#a long new secret''" by (simp add: sample_ap_def)
  with reset_ends_what_the_password_held [OF ok r] r show ?thesis by (metis (no_types, lifting))
qed

theorem registered_account_signs_in_witness:
  "\<exists>db1 db2 lr st' db3. register sample_ap ''user'' 24 0 ''eve'' ''v1'' ''tok'' ''new@example.org'' ''a long new secret'' sample_db
        = (Inr (), db1, [VerificationMail ''new@example.org'' ''tok''], [Registered ''eve'' ''new@example.org''])
     \<and> verify_email 5 ''tok'' db1 = Inr (db2, [EmailConfirmed ''eve''])
     \<and> login memory_limiter_ops sample_budget sample_ap sample_ac 6 ''s1'' ''t1'' ''new@example.org'' ''a long new secret'' no_requests db2
        = (Inr lr, st', db3, [LoginSucceeded ''eve'' ''new@example.org''])"
proof -
  let ?rq = "\<lparr>hr_path = ''/'', hr_authorization = None, hr_access_cookie = None, hr_endpoint = None, hr_has_rule = True\<rparr>"
  note reg = register_free [OF sample_reads(2) sample_register(1) sample_reads(4,6) sample_register(2-4), of 24 0 "''v1''"]
  have wf: "accounts_wf sample_db" "tokens_ok (db_verifications sample_db)"
    by (simp_all add: accounts_wf_def tokens_ok_def sample_db_def sample_user_def sample_role_def sample_perm_def)
  have p: "\<not> startswith (hr_path ?rq) ''/static/''" by (simp add: startswith_def)
  have fresh: "''t1'' \<notin> rs_token_id ` set (db_sessions sample_db)" by (simp add: sample_db_def)
  have bc: "ap_checkpw sample_ap ''a long new secret'' (ap_hashpw sample_ap ''a long new secret'') = Some True" by (simp add: sample_ap_def)
  have ac: "second \<le> ac_access_expire sample_ac" "0 < ac_refresh_expire sample_ac" by (simp_all add: sample_ac_def second_def)
  have t: "5 < (0::int) + 24 * hour" by (simp add: hour_def second_def)
  from registered_account_signs_in [OF wf sample_reads(2) sample_register(1) sample_reads(4,6) sample_register(2-4) _ reg t bc
      sample_budget_left [of 6] fresh _ sample_ac_ok(1) ac p, of "''s1''"] reg
  show ?thesis by fastforce
qed

end
