(* ===== verification/Auth_Web.thy ===== *)
theory Auth_Web
  imports Sign_In_Runs Web_Guards Wiring
begin

text \<open>
  The endpoints below \<^verbatim>\<open>/api/v1/auth\<close> (\<^verbatim>\<open>web/controllers/auth_controller.py\<close>): how a body is read
  (\<^verbatim>\<open>web/request_body.py\<close>, \<^verbatim>\<open>web/schemas/auth_requests.py\<close>), what each handler answers, which
  cookies it sets, and the whole way of a request through the gate, a handler and the hook
  that hands out the token against forged writes. A decoded body is a value: what
  \<^verbatim>\<open>json\<close> makes of the bytes is an argument. Of Pydantic the sources use that a declared field
  is a text or absent and, in the strict models, that no other field is there. A browser is
  its cookies.
\<close>

section \<open>Reading a body\<close>

datatype body_value =
    BNull
  | BText string
  | BNumber int
  | BList "body_value list"
  | BObject "(string \<times> body_value) list"
  | BOther nat

text \<open>What was sent: not offered as JSON, offered and empty, not JSON, nested too deeply, or a value.\<close>

datatype request_body = NotOffered | OfferedEmpty | NoJson | NestedTooDeeply | Decoded body_value

datatype web_error = Raised exn | SchemaRefusal | MalformedBody | UnsupportedMediaType

definition invalid :: "string \<Rightarrow> string option \<Rightarrow> web_error" where
  "invalid msg fld = Raised (Domain ((ValidationError msg [] None [])\<lparr>err_field := fld\<rparr>))"

definition decoded_body :: "request_body \<Rightarrow> (web_error, body_value) result" where
  "decoded_body b =
     (case b of
        NotOffered \<Rightarrow> Inl UnsupportedMediaType
      | OfferedEmpty \<Rightarrow> Inl MalformedBody
      | NoJson \<Rightarrow> Inl MalformedBody
      | NestedTooDeeply \<Rightarrow> Inl (invalid ''Request body is nested too deeply'' (Some ''body''))
      | Decoded v \<Rightarrow> Inr v)"

definition json_object :: "request_body \<Rightarrow> (web_error, (string \<times> body_value) list) result" where
  "json_object b =
     rbind (decoded_body b) (\<lambda>data.
       case data of
         BNull \<Rightarrow> Inr []
       | BObject flds \<Rightarrow> Inr flds
       | _ \<Rightarrow> Inl (invalid ''Request body must be a JSON object'' (Some ''body'')))"

definition optional_json_object :: "request_body \<Rightarrow> (web_error, (string \<times> body_value) list) result" where
  "optional_json_object b = (if b = NotOffered \<or> b = OfferedEmpty then Inr [] else json_object b)"

definition text_or_null :: "body_value \<Rightarrow> bool" where
  "text_or_null v = (case v of BNull \<Rightarrow> True | BText _ \<Rightarrow> True | _ \<Rightarrow> False)"

text \<open>A model with its declared fields; a strict one refuses every other field.\<close>

definition read_model :: "bool \<Rightarrow> string list \<Rightarrow> (string \<times> body_value) list \<Rightarrow> (web_error, string \<Rightarrow> string option) result" where
  "read_model strict declared flds =
     (if list_all (\<lambda>(name, v). if name \<in> set declared then text_or_null v else \<not> strict) flds
      then Inr (\<lambda>name. case map_of flds name of Some (BText s) \<Rightarrow> truthy (Some s) | _ \<Rightarrow> None)
      else Inl SchemaRefusal)"

definition CredentialsRequest :: "string list" where
  "CredentialsRequest = [''email'', ''password'']"

definition EmailRequest :: "string list" where
  "EmailRequest = [''email'']"

definition VerifyEmailRequest :: "string list" where
  "VerifyEmailRequest = [''token'']"

definition ResetPasswordRequest :: "string list" where
  "ResetPasswordRequest = [''token'', ''new_password'']"

definition ChangePasswordRequest :: "string list" where
  "ChangePasswordRequest = [''current_password'', ''new_password'']"

definition RefreshTokenRequest :: "string list" where
  "RefreshTokenRequest = [''refresh_token'']"

definition strict_body :: "string list \<Rightarrow> request_body \<Rightarrow> (web_error, string \<Rightarrow> string option) result" where
  "strict_body model b = rbind (json_object b) (read_model True model)"

text \<open>A field without which the handler goes no further.\<close>

definition required :: "string option \<Rightarrow> string \<Rightarrow> string option \<Rightarrow> (web_error, string) result" where
  "required v msg fld = (case v of None \<Rightarrow> Inl (invalid msg fld) | Some s \<Rightarrow> Inr s)"

definition read_credentials :: "request_body \<Rightarrow> (web_error, string \<times> string) result" where
  "read_credentials b =
     rbind (strict_body CredentialsRequest b) (\<lambda>body.
     rbind (required (body ''email'') ''Email and password are required'' None) (\<lambda>email.
     rbind (required (body ''password'') ''Email and password are required'' None) (\<lambda>password. Inr (email, password))))"

definition read_refresh_token :: "web_request \<Rightarrow> request_body \<Rightarrow> (web_error, string option) result" where
  "read_refresh_token rq b =
     (case truthy (wr_refresh_cookie rq) of
        Some token \<Rightarrow> Inr (Some token)
      | None \<Rightarrow> rbind (optional_json_object b) (\<lambda>flds. rbind (read_model False RefreshTokenRequest flds) (\<lambda>body. Inr (body ''refresh_token''))))"

section \<open>Answers\<close>

record cookie =
  ck_name :: string
  ck_value :: string
  ck_httponly :: bool
  ck_secure :: bool
  ck_samesite :: string
  ck_max_age :: int
  ck_path :: string

datatype cookie_change = SetCookie cookie | DeleteCookie string

record auth_user =
  uw_id :: string
  uw_email :: string
  uw_roles :: "string list"
  uw_is_active :: bool

definition from_dto :: "user_response \<Rightarrow> auth_user" where
  "from_dto ux = \<lparr>uw_id = ux_id ux, uw_email = ux_email ux, uw_roles = ux_roles ux, uw_is_active = ux_is_active ux\<rparr>"

datatype answer_body =
    MessageResponse string
  | TokenPairResponse string string auth_user
  | RefreshResponse string string
  | ErrorResponse string string

record auth_answer =
  aa_status :: int
  aa_body :: answer_body
  aa_cookies :: "cookie_change list"

definition error_response :: "string \<Rightarrow> string \<Rightarrow> int \<Rightarrow> auth_answer" where
  "error_response error_code message status = \<lparr>aa_status = status, aa_body = ErrorResponse error_code message, aa_cookies = []\<rparr>"

definition message_answer :: "string \<Rightarrow> int \<Rightarrow> auth_answer" where
  "message_answer message status = \<lparr>aa_status = status, aa_body = MessageResponse message, aa_cookies = []\<rparr>"

definition handle_error :: "web_error \<Rightarrow> auth_answer" where
  "handle_error e =
     (case e of
        Raised x \<Rightarrow> error_response (ea_code (respond_to x)) (ea_message (respond_to x)) (ea_status (respond_to x))
      | SchemaRefusal \<Rightarrow> error_response ''VALIDATION_ERROR'' ''Request validation failed'' 400
      | MalformedBody \<Rightarrow> error_response ''BAD_REQUEST'' ''Malformed request body'' 400
      | UnsupportedMediaType \<Rightarrow> error_response ''UNSUPPORTED_MEDIA_TYPE'' ''The service expects a JSON body'' 415)"

section \<open>The handlers\<close>

record 'l auth_web =
  aw_limiter :: "'l limiter_ops"
  aw_check :: "moment \<Rightarrow> string \<Rightarrow> int \<Rightarrow> int \<Rightarrow> 'l \<Rightarrow> rate_decision \<times> 'l"
  aw_budget :: failure_budget
  aw_ports :: auth_ports
  aw_auth :: auth_config
  aw_web :: web_config
  aw_origins :: "string list"
  aw_declared :: "string \<times> string \<Rightarrow> string list option"
  aw_default_role :: string
  aw_verification_hours :: int
  aw_reset_minutes :: int
  aw_accepts :: "mail \<Rightarrow> bool"
  aw_cookie_secure :: bool
  aw_access_minutes :: int
  aw_refresh_days :: int

record 'l auth_state =
  at_limiter :: 'l
  at_db :: database
  at_mails :: "mail list"
  at_audit :: "audit_event list"

text \<open>What a request draws: identifiers, a token to be mailed, a nonce.\<close>

record auth_draws =
  dr_id :: ident
  dr_token_id :: ident
  dr_token :: string
  dr_nonce :: string

type_synonym 'l view = "'l auth_state \<Rightarrow> (web_error, auth_answer) result \<times> 'l auth_state"

definition CSRF_COOKIE_NAME :: string where
  "CSRF_COOKIE_NAME = ''csrf_token''"

definition CSRF_COOKIE_MAX_AGE :: int where
  "CSRF_COOKIE_MAX_AGE = 7 * 24 * 3600"

definition access_cookie_max_age :: "'l auth_web \<Rightarrow> int" where
  "access_cookie_max_age aw = aw_access_minutes aw * 60"

definition refresh_cookie_max_age :: "'l auth_web \<Rightarrow> int" where
  "refresh_cookie_max_age aw = aw_refresh_days aw * 24 * 3600"

definition token_cookies :: "'l auth_web \<Rightarrow> string \<Rightarrow> string \<Rightarrow> cookie_change list" where
  "token_cookies aw access_token refresh_token =
     [SetCookie \<lparr>ck_name = ''access_token'', ck_value = access_token, ck_httponly = True, ck_secure = aw_cookie_secure aw,
        ck_samesite = ''Strict'', ck_max_age = access_cookie_max_age aw, ck_path = ''/''\<rparr>,
      SetCookie \<lparr>ck_name = ''refresh_token'', ck_value = refresh_token, ck_httponly = True, ck_secure = aw_cookie_secure aw,
        ck_samesite = ''Strict'', ck_max_age = refresh_cookie_max_age aw, ck_path = ''/''\<rparr>]"

definition csrf_cookie :: "'l auth_web \<Rightarrow> string \<Rightarrow> cookie_change" where
  "csrf_cookie aw token =
     SetCookie \<lparr>ck_name = CSRF_COOKIE_NAME, ck_value = token, ck_httponly = False, ck_secure = aw_cookie_secure aw,
       ck_samesite = ''Strict'', ck_max_age = CSRF_COOKIE_MAX_AGE, ck_path = ''/''\<rparr>"

definition cleared_cookies :: "cookie_change list" where
  "cleared_cookies = [DeleteCookie ''refresh_token'', DeleteCookie ''access_token'', DeleteCookie CSRF_COOKIE_NAME]"

definition login_view :: "'l auth_web \<Rightarrow> moment \<Rightarrow> auth_draws \<Rightarrow> request_body \<Rightarrow> 'l view" where
  "login_view aw now dr b st =
     (case read_credentials b of
        Inl e \<Rightarrow> (Inl e, st)
      | Inr (email, password) \<Rightarrow>
          (case login (aw_limiter aw) (aw_budget aw) (aw_ports aw) (aw_auth aw) now (dr_id dr) (dr_token_id dr) email password
                 (at_limiter st) (at_db st) of
             (r, lim, db, evs) \<Rightarrow>
               (case r of
                  Inl (Domain d) \<Rightarrow>
                    if is_validation_error d then Inl (Raised (Domain d))
                    else Inr (error_response (err_code d) (client_message d) 401)
                | Inl e \<Rightarrow> Inl (Raised e)
                | Inr lr \<Rightarrow>
                    Inr \<lparr>aa_status = 200, aa_body = TokenPairResponse (lr_access_token lr) (lr_refresh_token lr) (from_dto (lr_user lr)),
                         aa_cookies = token_cookies aw (lr_access_token lr) (lr_refresh_token lr) @
                           [csrf_cookie aw (build_csrf_token (wc_secret_key (aw_web aw)) (ux_id (lr_user lr)) (dr_nonce dr) now)]\<rparr>,
                st\<lparr>at_limiter := lim, at_db := db, at_audit := at_audit st @ evs\<rparr>)))"

definition REGISTERED_OR_NOT :: string where
  "REGISTERED_OR_NOT = ''If that address can be registered, a link has been sent to it.''"

definition register_view :: "'l auth_web \<Rightarrow> moment \<Rightarrow> auth_draws \<Rightarrow> request_body \<Rightarrow> 'l view" where
  "register_view aw now dr b st =
     (case read_credentials b of
        Inl e \<Rightarrow> (Inl e, st)
      | Inr (email, password) \<Rightarrow>
          (case register (aw_ports aw) (aw_default_role aw) (aw_verification_hours aw) now (dr_id dr) (dr_token_id dr) (dr_token dr)
                 email password (at_db st) of
             (r, db, mails, evs) \<Rightarrow>
               (case r of
                  Inl (Domain d) \<Rightarrow>
                    if is_validation_error d then Inl (Raised (Domain d))
                    else Inr (error_response (err_code d) (client_message d) 400)
                | Inl e \<Rightarrow> Inl (Raised e)
                | Inr _ \<Rightarrow> Inr (message_answer REGISTERED_OR_NOT 202),
                st\<lparr>at_db := db, at_mails := at_mails st @ mails, at_audit := at_audit st @ evs\<rparr>)))"

definition verify_email_view :: "moment \<Rightarrow> web_request \<Rightarrow> string option \<Rightarrow> request_body \<Rightarrow> 'l view" where
  "verify_email_view now rq token_arg b st =
     (case (case truthy token_arg of
              Some token \<Rightarrow> Inr (Some token)
            | None \<Rightarrow> if wr_method rq = ''POST'' then rbind (strict_body VerifyEmailRequest b) (\<lambda>body. Inr (body ''token'')) else Inr None) of
        Inl e \<Rightarrow> (Inl e, st)
      | Inr None \<Rightarrow> (Inl (invalid ''This confirmation link is not valid'' (Some ''token'')), st)
      | Inr (Some token) \<Rightarrow>
          (case verify_email now token (at_db st) of
             Inl e \<Rightarrow> (Inl (Raised e), st)
           | Inr (db, evs) \<Rightarrow>
               (Inr (message_answer ''Email confirmed. You can sign in now.'' 200), st\<lparr>at_db := db, at_audit := at_audit st @ evs\<rparr>)))"

definition NEEDS_CONFIRMING_OR_NOT :: string where
  "NEEDS_CONFIRMING_OR_NOT = ''If that address needs confirming, a link has been sent to it.''"

definition resend_verification_view :: "'l auth_web \<Rightarrow> moment \<Rightarrow> auth_draws \<Rightarrow> request_body \<Rightarrow> 'l view" where
  "resend_verification_view aw now dr b st =
     (case rbind (strict_body EmailRequest b) (\<lambda>body. required (body ''email'') ''Email is required'' (Some ''email'')) of
        Inl e \<Rightarrow> (Inl e, st)
      | Inr email \<Rightarrow>
          (case resend_verification (aw_accepts aw) (aw_verification_hours aw) now (dr_id dr) (dr_token dr) email (at_db st) of
             Inl e \<Rightarrow> (Inl (Raised e), st)
           | Inr (outcome, db, mails) \<Rightarrow>
               (Inr (message_answer NEEDS_CONFIRMING_OR_NOT 202), st\<lparr>at_db := db, at_mails := at_mails st @ mails\<rparr>)))"

definition change_password_view :: "'l auth_web \<Rightarrow> moment \<Rightarrow> auth_draws \<Rightarrow> signed_in option \<Rightarrow> request_body \<Rightarrow> 'l view" where
  "change_password_view aw now dr who b st =
     (case who of
        None \<Rightarrow> (Inl (Raised (Domain (DomainError ''Authentication required'' ''UNAUTHENTICATED''))), st)
      | Some si \<Rightarrow>
          (case rbind (strict_body ChangePasswordRequest b) (\<lambda>body.
                rbind (required (body ''current_password'') ''Current password is required'' (Some ''current_password'')) (\<lambda>current_password.
                rbind (required (body ''new_password'') ''New password is required'' (Some ''new_password'')) (\<lambda>new_password.
                Inr (current_password, new_password)))) of
             Inl e \<Rightarrow> (Inl e, st)
           | Inr (current_password, new_password) \<Rightarrow>
               (case change_password (aw_ports aw) (aw_auth aw) now (dr_id dr) (dr_token_id dr) (us_id (si_user si)) current_password new_password
                      (at_db st) of
                  (r, db, evs) \<Rightarrow>
                    (case r of
                       Inl e \<Rightarrow> Inl (Raised e)
                     | Inr tokens \<Rightarrow>
                         Inr \<lparr>aa_status = 200, aa_body = RefreshResponse (rt_access_token tokens) (rt_refresh_token tokens),
                              aa_cookies = token_cookies aw (rt_access_token tokens) (rt_refresh_token tokens)\<rparr>,
                     st\<lparr>at_db := db, at_audit := at_audit st @ evs\<rparr>))))"

definition HAS_ACCOUNT_OR_NOT :: string where
  "HAS_ACCOUNT_OR_NOT = ''If that address has an account, a link to reset its password has been sent to it.''"

definition forgot_password_view :: "'l auth_web \<Rightarrow> moment \<Rightarrow> auth_draws \<Rightarrow> request_body \<Rightarrow> 'l view" where
  "forgot_password_view aw now dr b st =
     (case rbind (strict_body EmailRequest b) (\<lambda>body. required (body ''email'') ''Email is required'' (Some ''email'')) of
        Inl e \<Rightarrow> (Inl e, st)
      | Inr email \<Rightarrow>
          (case request_password_reset (aw_accepts aw) (aw_reset_minutes aw) now (dr_id dr) (dr_token dr) email (at_db st) of
             Inl e \<Rightarrow> (Inl (Raised e), st)
           | Inr (outcome, db, mails) \<Rightarrow>
               (Inr (message_answer HAS_ACCOUNT_OR_NOT 202), st\<lparr>at_db := db, at_mails := at_mails st @ mails\<rparr>)))"

definition reset_password_view :: "'l auth_web \<Rightarrow> moment \<Rightarrow> request_body \<Rightarrow> 'l view" where
  "reset_password_view aw now b st =
     (case rbind (strict_body ResetPasswordRequest b) (\<lambda>body.
           rbind (required (body ''token'') ''This reset link is not valid'' (Some ''token'')) (\<lambda>token.
           rbind (required (body ''new_password'') ''New password is required'' (Some ''new_password'')) (\<lambda>new_password.
           Inr (token, new_password)))) of
        Inl e \<Rightarrow> (Inl e, st)
      | Inr (token, new_password) \<Rightarrow>
          (case reset_password (aw_ports aw) now token new_password (at_db st) of
             Inl e \<Rightarrow> (Inl (Raised e), st)
           | Inr (db, evs) \<Rightarrow>
               (Inr (message_answer ''Password changed. You can sign in now.'' 200), st\<lparr>at_db := db, at_audit := at_audit st @ evs\<rparr>)))"

definition logout_view :: "'l auth_web \<Rightarrow> moment \<Rightarrow> web_request \<Rightarrow> request_context \<Rightarrow> signed_in option \<Rightarrow> request_body \<Rightarrow> 'l view" where
  "logout_view aw now rq cx who b st =
     (case read_refresh_token rq b of
        Inl e \<Rightarrow> (Inl e, st)
      | Inr refresh_token \<Rightarrow>
          (case sign_out (aw_auth aw) now cx refresh_token (map_option si_session_id who) (at_db st) of
             (ended, db, evs) \<Rightarrow>
               (Inr \<lparr>aa_status = 200, aa_body = MessageResponse ''Logged out'', aa_cookies = cleared_cookies\<rparr>,
                st\<lparr>at_db := db, at_audit := at_audit st @ evs\<rparr>)))"

definition refresh_token_view :: "'l auth_web \<Rightarrow> moment \<Rightarrow> auth_draws \<Rightarrow> web_request \<Rightarrow> request_context \<Rightarrow> request_body \<Rightarrow> 'l view" where
  "refresh_token_view aw now dr rq cx b st =
     (case read_refresh_token rq b of
        Inl e \<Rightarrow> (Inl e, st)
      | Inr None \<Rightarrow> (Inr (error_response ''UNAUTHENTICATED'' ''No refresh token'' 401), st)
      | Inr (Some token) \<Rightarrow>
          (case refresh_session_use_case (aw_auth aw) now (dr_id dr) (dr_token_id dr) token (Some cx) (at_db st) of
             (r, db, evs) \<Rightarrow>
               (case r of
                  Inl e \<Rightarrow> Inl (Raised e)
                | Inr None \<Rightarrow>
                    Inr ((error_response ''UNAUTHENTICATED'' ''Invalid or expired refresh token'' 401)\<lparr>aa_cookies := cleared_cookies\<rparr>)
                | Inr (Some tokens) \<Rightarrow>
                    Inr \<lparr>aa_status = 200, aa_body = RefreshResponse (rt_access_token tokens) (rt_refresh_token tokens),
                         aa_cookies = token_cookies aw (rt_access_token tokens) (rt_refresh_token tokens)\<rparr>,
                st\<lparr>at_db := db, at_audit := at_audit st @ evs\<rparr>)))"

section \<open>The whole way of a request\<close>

definition create_request_context :: "web_config \<Rightarrow> web_request \<Rightarrow> string option \<Rightarrow> signed_in option \<Rightarrow> request_context" where
  "create_request_context wc rq user_agent who =
     \<lparr>cx_remote_addr = Some (get_client_ip wc rq), cx_user_agent = user_agent, cx_current_user = map_option (us_id \<circ> si_user) who\<rparr>"

text \<open>The handler of an endpoint of the blueprint.\<close>

definition auth_view ::
  "'l auth_web \<Rightarrow> moment \<Rightarrow> auth_draws \<Rightarrow> string \<Rightarrow> web_request \<Rightarrow> string option \<Rightarrow> string option \<Rightarrow> signed_in option \<Rightarrow> request_body \<Rightarrow> 'l view option" where
  "auth_view aw now dr endpoint rq token_arg user_agent who b =
     (if endpoint = ''auth.login'' then Some (login_view aw now dr b)
      else if endpoint = ''auth.register'' then Some (register_view aw now dr b)
      else if endpoint = ''auth.refresh_token'' then Some (refresh_token_view aw now dr rq (create_request_context (aw_web aw) rq user_agent who) b)
      else if endpoint = ''auth.logout'' then Some (logout_view aw now rq (create_request_context (aw_web aw) rq user_agent who) who b)
      else if endpoint = ''auth.verify_email'' then Some (verify_email_view now rq token_arg b)
      else if endpoint = ''auth.resend_verification'' then Some (resend_verification_view aw now dr b)
      else if endpoint = ''auth.change_password'' then Some (change_password_view aw now dr who b)
      else if endpoint = ''auth.forgot_password'' then Some (forgot_password_view aw now dr b)
      else if endpoint = ''auth.reset_password'' then Some (reset_password_view aw now b)
      else None)"

fun cookie_name :: "cookie_change \<Rightarrow> string" where
  "cookie_name (SetCookie ck) = ck_name ck"
| "cookie_name (DeleteCookie name) = name"

definition after_request :: "'l auth_web \<Rightarrow> moment \<Rightarrow> string \<Rightarrow> web_request \<Rightarrow> auth_answer \<Rightarrow> auth_answer" where
  "after_request aw now nonce rq a =
     (case issue_csrf_cookie (aw_auth aw) (aw_web aw) now nonce (CSRF_COOKIE_NAME \<in> cookie_name ` set (aa_cookies a)) rq of
        None \<Rightarrow> a
      | Some token \<Rightarrow> a\<lparr>aa_cookies := aa_cookies a @ [csrf_cookie aw token]\<rparr>)"

datatype served = TurnedAway int string | Answered auth_answer

definition serve_auth ::
  "'l auth_web \<Rightarrow> moment \<Rightarrow> auth_draws \<Rightarrow> web_request \<Rightarrow> string option \<Rightarrow> string option \<Rightarrow> request_body \<Rightarrow> 'l auth_state \<Rightarrow> served \<times> 'l auth_state" where
  "serve_auth aw now dr rq token_arg user_agent b st =
     (case before_request (aw_declared aw) (aw_check aw) (aw_auth aw) (aw_web aw) (aw_origins aw) now rq (at_db st) (at_limiter st) of
        (verdict.Refused status error_code, lim) \<Rightarrow> (TurnedAway status error_code, st\<lparr>at_limiter := lim\<rparr>)
      | (Admitted who, lim) \<Rightarrow>
          (case auth_view aw now dr (endpoint_text rq) rq token_arg user_agent who b of
             None \<Rightarrow> (TurnedAway 404 ''NOT_FOUND'', st\<lparr>at_limiter := lim\<rparr>)
           | Some view \<Rightarrow>
               (case view (st\<lparr>at_limiter := lim\<rparr>) of
                  (r, st1) \<Rightarrow> (Answered (after_request aw now (dr_nonce dr) rq (case r of Inl e \<Rightarrow> handle_error e | Inr a \<Rightarrow> a)), st1))))"

section \<open>A browser\<close>

text \<open>A browser keeps the cookies it is given until they expire and sends what it keeps.\<close>

type_synonym jar = "string \<Rightarrow> (string \<times> moment) option"

fun keep_cookie :: "moment \<Rightarrow> cookie_change \<Rightarrow> jar \<Rightarrow> jar" where
  "keep_cookie now (SetCookie ck) jar = jar(ck_name ck \<mapsto> (ck_value ck, now + ck_max_age ck * second))"
| "keep_cookie now (DeleteCookie name) jar = jar(name := None)"

definition keep_cookies :: "moment \<Rightarrow> auth_answer \<Rightarrow> jar \<Rightarrow> jar" where
  "keep_cookies now a jar = fold (keep_cookie now) (aa_cookies a) jar"

definition sends :: "moment \<Rightarrow> jar \<Rightarrow> string \<Rightarrow> string option" where
  "sends now jar name = (case jar name of None \<Rightarrow> None | Some (v, expires) \<Rightarrow> if now < expires then Some v else None)"

definition browse :: "moment \<Rightarrow> jar \<Rightarrow> web_request \<Rightarrow> web_request" where
  "browse now jar rq =
     rq\<lparr>hr_authorization := None, hr_access_cookie := sends now jar ''access_token'', wr_refresh_cookie := sends now jar ''refresh_token'',
       wr_csrf_cookie := sends now jar CSRF_COOKIE_NAME, wr_csrf_header := sends now jar CSRF_COOKIE_NAME\<rparr>"

section \<open>Lemmas: answers\<close>

lemma status_for_is_refusal: "status_for c \<ge> 400"
  by (auto simp: status_for_def STATUS_BY_CODE_def split: option.splits if_splits)

lemma handle_error_is_refusal: "aa_status (handle_error e) \<ge> 400"
proof (cases e)
  case (Raised x)
  have "(case map_of STATUS_BY_CODE c of None \<Rightarrow> 400 | Some s \<Rightarrow> s) \<ge> 400" for c
    by (auto simp: STATUS_BY_CODE_def split: option.splits if_splits)
  then show ?thesis
    using Raised status_for_is_refusal by (simp add: handle_error_def error_response_def respond_to_def split: exn.splits)
qed (simp_all add: handle_error_def error_response_def)

lemma after_request_keeps:
  "aa_status (after_request aw now nonce rq a) = aa_status a" "aa_body (after_request aw now nonce rq a) = aa_body a"
  by (simp_all add: after_request_def split: option.splits)

lemma after_request_decided:
  "CSRF_COOKIE_NAME \<in> cookie_name ` set (aa_cookies a) \<Longrightarrow> after_request aw now nonce rq a = a"
  by (simp add: after_request_def issue_csrf_cookie_def)

text \<open>A request that was answered passed the gate and its handler.\<close>

lemma answered_request:
  assumes "serve_auth aw now dr rq token_arg user_agent b st = (Answered a, st1)"
  obtains who lim view r where
    "before_request (aw_declared aw) (aw_check aw) (aw_auth aw) (aw_web aw) (aw_origins aw) now rq (at_db st) (at_limiter st) = (Admitted who, lim)"
    "auth_view aw now dr (endpoint_text rq) rq token_arg user_agent who b = Some view" "view (st\<lparr>at_limiter := lim\<rparr>) = (r, st1)"
    "a = after_request aw now (dr_nonce dr) rq (case r of Inl e \<Rightarrow> handle_error e | Inr a \<Rightarrow> a)"
  using assms by (auto simp: serve_auth_def split: prod.splits verdict.splits option.splits)

lemma successful_answer:
  assumes "serve_auth aw now dr rq token_arg user_agent b st = (Answered a, st1)" and "aa_status a < 400"
  obtains who lim view a0 where
    "before_request (aw_declared aw) (aw_check aw) (aw_auth aw) (aw_web aw) (aw_origins aw) now rq (at_db st) (at_limiter st) = (Admitted who, lim)"
    "auth_view aw now dr (endpoint_text rq) rq token_arg user_agent who b = Some view" "view (st\<lparr>at_limiter := lim\<rparr>) = (Inr a0, st1)"
    "a = after_request aw now (dr_nonce dr) rq a0" "aa_status a0 = aa_status a"
proof -
  obtain who lim view r where r:
    "before_request (aw_declared aw) (aw_check aw) (aw_auth aw) (aw_web aw) (aw_origins aw) now rq (at_db st) (at_limiter st) = (Admitted who, lim)"
    "auth_view aw now dr (endpoint_text rq) rq token_arg user_agent who b = Some view" "view (st\<lparr>at_limiter := lim\<rparr>) = (r, st1)"
    "a = after_request aw now (dr_nonce dr) rq (case r of Inl e \<Rightarrow> handle_error e | Inr a \<Rightarrow> a)"
    by (rule answered_request [OF assms(1)])
  show thesis
  proof (cases r)
    case (Inl e)
    then show ?thesis using assms(2) handle_error_is_refusal [of e] by (simp add: r(4) after_request_keeps)
  next
    case (Inr a0)
    then show ?thesis using that [of who lim view a0] r after_request_keeps(1) [of aw now "dr_nonce dr" rq a0] by simp
  qed
qed

section \<open>Lemmas: the login of a browser\<close>

text \<open>What a successful login leaves: the account, its tokens and the session they name.\<close>

lemma login_leaves:
  assumes run: "login lo fb ap ac now i t email password st db = (Inr lr, st', db', evs)" and wf: "accounts_wf db"
    and pos: "0 < ac_refresh_expire ac"
  obtains u where "find_user_by_id (us_id u) db' = Inr (Some u)" "us_is_active u" "ux_id (lr_user lr) = us_id u" "us_id u \<in> ur_id ` set (db_users db)"
    "lr_access_token lr = create_access_token ac now u t" "\<forall>n. n < now + ac_refresh_expire ac \<longrightarrow> chain_is_live n t db'"
proof -
  obtain spent st1 where b: "budget_spent lo fb now email st = (spent, st1)" by (rule prod.exhaust)
  obtain u where u: "authenticate ap email password db = Inr (Some u)" "us_is_active u"
    and rest: "(case create_session_tokens ac now i t (u\<lparr>us_last_login := Some now\<rparr>) (snd (record_login (us_id u) now db)) of
        Inl e \<Rightarrow> (Inl e, st1, snd (record_login (us_id u) now db), [])
      | Inr (tokens, db2) \<Rightarrow> (Inr \<lparr>lr_access_token = rt_access_token tokens, lr_refresh_token = rt_refresh_token tokens,
          lr_user = from_user (u\<lparr>us_last_login := Some now\<rparr>)\<rparr>, st1, db2, [LoginSucceeded (us_id u) (us_email u)])) = (Inr lr, st', db', evs)"
    using run b by (auto simp: login_def login_conclude_def Let_def split: if_splits sum.splits option.splits)
  let ?u = "u\<lparr>us_last_login := Some now\<rparr>" and ?db1 = "snd (record_login (us_id u) now db)"
  let ?s = "refresh_session_create now i (us_id ?u) t (now + ac_refresh_expire ac) None"
  obtain tk where tk: "create_session_tokens ac now i t ?u ?db1 = Inr (tk, db')"
    and lr: "lr = \<lparr>lr_access_token = rt_access_token tk, lr_refresh_token = rt_refresh_token tk, lr_user = from_user ?u\<rparr>"
    using rest by (auto split: sum.splits)
  have saved: "session_save ?s ?db1 = Inr db'" and tokens: "rt_access_token tk = create_access_token ac now ?u t"
    using tk by (auto simp: create_session_tokens_def Let_def result_simps)
  from saved have db': "db' = ?db1\<lparr>db_sessions := replace_or_append rs_id ?s (db_sessions ?db1)\<rparr>"
    by (simp add: session_save_def split: if_splits)
  have mem: "?s \<in> set (db_sessions db')" by (simp add: db' set_replace_or_append)
  obtain e where "find_user_by_email e db = Inr (Some u)" using u(1) by (auto simp: authenticate_Some)
  then obtain m where m: "m \<in> set (db_users db)" "user_to_domain db m = Inr u" unfolding find_user_by_email_def by (rule find_user_Some)
  let ?m = "m\<lparr>ur_last_login := Some now\<rparr>"
  have id: "us_id u = ur_id m" using user_to_domain_Inr [OF m(2)] by simp
  have "account_row db m" using wf m(1) by (auto simp: account_row_def accounts_wf_def distinct_map inj_on_def)
  from account_row_record_login [OF this] have row: "account_row ?db1 ?m" by (simp add: id)
  then have row': "account_row db' ?m" by (simp add: db' account_row_def)
  have rd: "readable ?m" using m(2) user_to_domain_Inr [OF m(2)] by (auto simp: readable_def user_to_domain_def result_simps)
  have "row_user db' ?m = ?u"
    using user_to_domain_Inr [OF m(2)] by (simp add: row_user_def db' user_roles_def role_to_domain_def [abs_def])
  then have found: "find_user_by_id (us_id ?u) db' = Inr (Some ?u)" using account_row_found(1) [OF row' rd] by (simp add: id)
  show thesis
  proof (rule that [of ?u])
    show "\<forall>n. n < now + ac_refresh_expire ac \<longrightarrow> chain_is_live n t db'"
      unfolding chain_is_live_def list_ex_iff by (intro allI impI bexI [OF _ mem]) simp
  qed (use found u(2) tokens m(1) in \<open>simp_all add: lr from_user_def id\<close>)
qed

lemma truthy_text: "s \<noteq> [] \<Longrightarrow> truthy (Some s) = Some s"
  by (simp add: truthy_Some)

lemma access_cookie_recognised:
  assumes "jwt_reads_back ac" and "now \<le> now'" "now' + second \<le> now + ac_access_expire ac"
    and u: "find_user_by_id (us_id u0) db = Inr (Some u)" "us_is_active u" "us_id u0 \<noteq> []"
    and c: "chain_is_live now' c db" "c \<noteq> []"
    and rq: "\<not> startswith (hr_path rq) ''/static/''" "hr_authorization rq = None" "hr_access_cookie rq = Some (create_access_token ac now u0 c)"
  shows "load_current_user ac now' rq db = Inr (Some \<lparr>si_user = u, si_session_id = c, si_source = FromCookie\<rparr>)"
proof -
  let ?tk = "create_access_token ac now u0 c"
  obtain p where p: "?tk \<noteq> []" "validate_token ac now' ?tk ''access'' = Some p" "cl_sub p = us_id u0"
    "truthy (cl_sid p) = truthy (Some c)"
    by (rule created_token_validates [OF assms(1-3) _ create_access_token_def]) simp_all
  have "presented_token rq = Some (?tk, FromCookie)" using p(1) by (simp add: presented_token_def rq truthy_text)
  moreover have "truthy (cl_sid p) = Some c" using p(4) c(2) by (simp add: truthy_Some)
  ultimately show ?thesis using p u c(1) rq(1) by (simp add: load_current_user_def Let_def)
qed

text \<open>What the browser sends after it signed in.\<close>

lemma browser_after_login:
  assumes "aa_cookies a = token_cookies aw access refresh @ [csrf_cookie aw token]"
    and "now < n0 + access_cookie_max_age aw * second" "now < n0 + refresh_cookie_max_age aw * second" "now < n0 + CSRF_COOKIE_MAX_AGE * second"
  shows "sends now (keep_cookies n0 a jar) ''access_token'' = Some access" "sends now (keep_cookies n0 a jar) ''refresh_token'' = Some refresh"
    "sends now (keep_cookies n0 a jar) CSRF_COOKIE_NAME = Some token"
  using assms by (simp_all add: keep_cookies_def sends_def token_cookies_def csrf_cookie_def CSRF_COOKIE_NAME_def)

lemma login_answer:
  assumes "serve_auth aw now dr rq token_arg user_agent b st = (Answered a, st1)" and "aa_status a < 400" and "endpoint_text rq = ''auth.login''"
  obtains lim email password lr lim' evs where
    "login (aw_limiter aw) (aw_budget aw) (aw_ports aw) (aw_auth aw) now (dr_id dr) (dr_token_id dr) email password lim (at_db st) = (Inr lr, lim', at_db st1, evs)"
    "a = \<lparr>aa_status = 200, aa_body = TokenPairResponse (lr_access_token lr) (lr_refresh_token lr) (from_dto (lr_user lr)),
          aa_cookies = token_cookies aw (lr_access_token lr) (lr_refresh_token lr) @
            [csrf_cookie aw (build_csrf_token (wc_secret_key (aw_web aw)) (ux_id (lr_user lr)) (dr_nonce dr) now)]\<rparr>"
proof -
  obtain who lim view a0 where v: "auth_view aw now dr (endpoint_text rq) rq token_arg user_agent who b = Some view"
    "view (st\<lparr>at_limiter := lim\<rparr>) = (Inr a0, st1)" "a = after_request aw now (dr_nonce dr) rq a0" "aa_status a0 = aa_status a"
    by (rule successful_answer [OF assms(1,2)])
  have run: "login_view aw now dr b (st\<lparr>at_limiter := lim\<rparr>) = (Inr a0, st1)" using v(1,2) by (simp add: auth_view_def assms(3))
  obtain email password where c: "read_credentials b = Inr (email, password)"
    using run by (cases "read_credentials b") (auto simp: login_view_def)
  obtain r lim' db' evs where l: "login (aw_limiter aw) (aw_budget aw) (aw_ports aw) (aw_auth aw) now (dr_id dr) (dr_token_id dr) email password lim (at_db st)
      = (r, lim', db', evs)" by (metis surj_pair)
  have st1: "at_db st1 = db'" using run by (auto simp: login_view_def c l)
  show thesis
  proof (cases r)
    case (Inl e)
    then have "aa_status a0 = 401" using run by (auto simp: login_view_def c l error_response_def split: exn.splits if_splits)
    then show ?thesis using assms(2) v(4) by simp
  next
    case (Inr lr)
    let ?a = "\<lparr>aa_status = 200, aa_body = TokenPairResponse (lr_access_token lr) (lr_refresh_token lr) (from_dto (lr_user lr)),
          aa_cookies = token_cookies aw (lr_access_token lr) (lr_refresh_token lr) @
            [csrf_cookie aw (build_csrf_token (wc_secret_key (aw_web aw)) (ux_id (lr_user lr)) (dr_nonce dr) now)]\<rparr>"
    have "a0 = ?a" using run Inr by (simp add: login_view_def c l)
    moreover have "after_request aw now (dr_nonce dr) rq ?a = ?a" by (rule after_request_decided) (simp add: csrf_cookie_def)
    ultimately show ?thesis using that l v(3) Inr st1 by simp
  qed
qed

text \<open>A write of a browser that carries its own token passes the check against forged writes.\<close>

lemma own_write_passes:
  assumes who: "load_current_user ac now (http_request.truncate rq) db = Inr (Some si)" "si_source si = FromCookie" "us_id (si_user si) \<noteq> []"
    and token: "wr_csrf_cookie rq = Some token" "wr_csrf_header rq = Some token" "verify_csrf_token (wc_secret_key wc) now (us_id (si_user si)) token"
    and origin: "origin_is_allowed origins rq = Inr True"
  shows "enforce_csrf ac wc origins now rq (Some si) = Inr True"
proof -
  have "token \<noteq> []" using token(3) by (auto simp: verify_csrf_token_def)
  then show ?thesis
    using cookie_user_is_resolved [OF who(1,2)] who(3) token origin by (simp add: enforce_csrf_def truthy_text)
qed

lemma gate_admits:
  assumes "host_is_allowed wc rq" and "load_current_user ac now (http_request.truncate rq) db = Inr who"
    and "fst (check_rate_limit check wc now rq who lim)" and "enforce_csrf ac wc origins now rq who = Inr True"
    and "refuse_undeclared_query_parameters declared rq = Inr ()"
  shows "\<exists>lim'. before_request declared check ac wc origins now rq db lim = (Admitted who, lim')"
  using assms by (auto simp: before_request_def split: prod.splits)

section \<open>Lemmas: the end of a login\<close>

lemma sign_out_revokes:
  assumes "validate_token ac now tk ''refresh'' = Some p" "cl_jti p = Some t" "t \<noteq> []" "find_by_token_id t db = Some s" "rs_user_id s = cl_sub p"
    and "tk \<noteq> []"
  shows "db_sessions (fst (snd (sign_out ac now cx (Some tk) sid db))) = revoke_rows now (\<lambda>r. rs_chain_id r = rs_chain_id s) (db_sessions db)"
proof -
  obtain n db1 where r: "revoke_chain now (rs_chain_id s) db = (n, db1)" by (rule prod.exhaust)
  have "revoke_refresh_token ac now tk db = (n > 0, db1)" using assms r by (simp add: revoke_refresh_token_def truthy_text)
  moreover have "db_sessions db1 = revoke_rows now (\<lambda>r. rs_chain_id r = rs_chain_id s) (db_sessions db)"
    using revoke_chain_rows [of now "rs_chain_id s" db] by (simp add: r)
  ultimately show ?thesis using assms(6) by (simp add: sign_out_def truthy_text Let_def)
qed

lemma sign_out_revokes_session:
  assumes "c \<noteq> []"
  shows "db_sessions (fst (snd (sign_out ac now cx None (Some c) db))) = revoke_rows now (\<lambda>r. rs_chain_id r = c) (db_sessions db)"
proof -
  obtain n db1 where r: "revoke_chain now c db = (n, db1)" by (rule prod.exhaust)
  have "db_sessions db1 = revoke_rows now (\<lambda>r. rs_chain_id r = c) (db_sessions db)" using revoke_chain_rows [of now c db] by (simp add: r)
  then show ?thesis using assms r by (simp add: sign_out_def truthy_text truthy_def [of None] revoke_session_chain_def)
qed

text \<open>The login that a request to sign out names: by its refresh token, else by its access token.\<close>

definition names_login :: "auth_config \<Rightarrow> moment \<Rightarrow> string option \<Rightarrow> signed_in option \<Rightarrow> database \<Rightarrow> ident \<Rightarrow> bool" where
  "names_login ac now token who db c \<longleftrightarrow>
     (case token of
        Some tk \<Rightarrow> tk \<noteq> [] \<and> (\<exists>p t s. validate_token ac now tk ''refresh'' = Some p \<and> cl_jti p = Some t \<and> t \<noteq> [] \<and>
          find_by_token_id t db = Some s \<and> rs_user_id s = cl_sub p \<and> rs_chain_id s = c)
      | None \<Rightarrow> map_option si_session_id who = Some c \<and> c \<noteq> [])"

lemma named_login_is_revoked:
  assumes "names_login ac now token who db c"
  shows "db_sessions (fst (snd (sign_out ac now cx token (map_option si_session_id who) db))) = revoke_rows now (\<lambda>r. rs_chain_id r = c) (db_sessions db)"
proof (cases token)
  case (Some tk)
  with assms obtain p t s where "validate_token ac now tk ''refresh'' = Some p" "cl_jti p = Some t" "t \<noteq> []" "find_by_token_id t db = Some s"
      "rs_user_id s = cl_sub p" "rs_chain_id s = c" "tk \<noteq> []" by (auto simp: names_login_def)
  then show ?thesis using sign_out_revokes [of ac now tk p t db s cx] Some by simp
next
  case None
  then show ?thesis using assms sign_out_revokes_session [of c ac now cx db] by (auto simp: names_login_def)
qed

lemma named_login_is_used:
  assumes "names_login ac now token who db c" and ok: "sessions_ok used (db_sessions db)"
    and who: "load_current_user ac now rq db = Inr who"
  shows "c \<in> used"
proof (cases token)
  case (Some tk)
  with assms(1) obtain t s where "find_by_token_id t db = Some s" "rs_chain_id s = c" by (auto simp: names_login_def)
  then show ?thesis using sessions_okD(3) [OF ok] find_by_token_id_Some by metis
next
  case None
  with assms(1) obtain si where si: "who = Some si" "si_session_id si = c" by (auto simp: names_login_def)
  then have "chain_is_live now c db" using load_current_user_live who by metis
  then show ?thesis using sessions_okD(3) [OF ok] by (auto simp: chain_is_live_def list_ex_iff)
qed

section \<open>Lemmas: what answers depend on\<close>

text \<open>A service in order: its accounts can be read, new accounts have a role to be given, and what is drawn is new.\<close>

definition in_service :: "'l auth_web \<Rightarrow> auth_draws \<Rightarrow> database \<Rightarrow> bool" where
  "in_service aw dr db \<longleftrightarrow> list_all readable (db_users db) \<and>
     (case get_role_by_name (aw_default_role aw) db of None \<Rightarrow> False | Some r \<Rightarrow> rl_name r \<noteq> GUEST_ROLE_NAME) \<and>
     dr_id dr \<notin> ur_id ` set (db_users db) \<and> dr_token_id dr \<notin> rs_token_id ` set (db_sessions db) \<and>
     digest (dr_token dr) \<notin> ot_token_hash ` set (db_verifications db) \<and> digest (dr_token dr) \<notin> ot_token_hash ` set (db_resets db)"

lemma readable_found:
  assumes "list_all readable (db_users db)" obtains found where "find_user P db = Inr found"
proof (cases "List.find P (db_users db)")
  case (Some m)
  then have "m \<in> set (db_users db)" by (metis find_Some_iff nth_mem)
  then have "readable m" using assms by (simp add: list_all_iff)
  then show ?thesis using Some that by (simp add: find_user_def user_to_domain_def readable_def)
qed (simp add: that find_user_def)

lemma invalidated_hashes:
  "ot_token_hash ` set (snd (invalidate_tokens now i ts)) = ot_token_hash ` set ts"
proof -
  have "map ot_token_hash (mark now P ts) = map ot_token_hash ts" for P by (simp add: mark_def)
  then show ?thesis by (metis invalidate_tokens_rows set_map)
qed

lemma resend_is_answered:
  assumes "in_service aw dr db" and "Email email = Inr e"
  shows "\<exists>x. resend_verification accepts ttl now i (dr_token dr) email db = Inr x"
proof -
  have list: "list_all readable (db_users db)" and new: "digest (dr_token dr) \<notin> ot_token_hash ` set (db_verifications db)"
    using assms(1) by (simp_all add: in_service_def)
  obtain found where f: "find_user_by_email e db = Inr found" unfolding find_user_by_email_def by (rule readable_found [OF list])
  have "\<exists>db2. verification_save (verification_issue now i (us_id u) (digest (dr_token dr)) ttl) (snd (verification_invalidate now (us_id u) db)) = Inr db2"
    if "found = Some u" for u
  proof -
    let ?db1 = "snd (verification_invalidate now (us_id u) db)"
    have "us_id u \<in> set (map ur_id (db_users ?db1))"
      using find_user_member [of _ db u] f that by (simp add: verification_invalidate_def find_user_by_email_def case_prod_beta)
    moreover have "digest (dr_token dr) \<notin> ot_token_hash ` set (db_verifications ?db1)"
      using new by (simp add: verification_invalidate_def case_prod_beta invalidated_hashes)
    ultimately show ?thesis using verification_save_Inr [of "verification_issue now i (us_id u) (digest (dr_token dr)) ttl" ?db1]
      by (simp add: verification_issue_def)
  qed
  then show ?thesis using assms(2) f by (cases found) (fastforce simp: resend_verification_def Let_def)+
qed

lemma reset_save_Inr:
  assumes "ot_token_hash t \<notin> ot_token_hash ` set (db_resets db)" and "ot_user_id t \<in> set (map ur_id (db_users db))"
  shows "reset_save t db = Inr (db\<lparr>db_resets := replace_or_append ot_id t (db_resets db)\<rparr>)"
proof -
  have "\<not> list_ex (\<lambda>r. ot_id r \<noteq> ot_id t \<and> ot_token_hash r = ot_token_hash t) (db_resets db)"
    unfolding list_ex_iff using assms(1) by (metis imageI)
  with assms(2) show ?thesis by (simp add: reset_save_def token_save_error_def)
qed

lemma reset_request_is_answered:
  assumes "in_service aw dr db" and "Email email = Inr e"
  shows "\<exists>x. request_password_reset accepts ttl now i (dr_token dr) email db = Inr x"
proof -
  have list: "list_all readable (db_users db)" and new: "digest (dr_token dr) \<notin> ot_token_hash ` set (db_resets db)"
    using assms(1) by (simp_all add: in_service_def)
  obtain found where f: "find_user_by_email e db = Inr found" unfolding find_user_by_email_def by (rule readable_found [OF list])
  have "\<exists>db2. reset_save (reset_issue now i (us_id u) (digest (dr_token dr)) ttl) (snd (reset_invalidate now (us_id u) db)) = Inr db2"
    if "found = Some u" for u
  proof -
    let ?db1 = "snd (reset_invalidate now (us_id u) db)"
    have "us_id u \<in> set (map ur_id (db_users ?db1))"
      using find_user_member [of _ db u] f that by (simp add: reset_invalidate_def find_user_by_email_def case_prod_beta)
    moreover have "digest (dr_token dr) \<notin> ot_token_hash ` set (db_resets ?db1)"
      using new by (simp add: reset_invalidate_def case_prod_beta invalidated_hashes)
    ultimately show ?thesis using reset_save_Inr [of "reset_issue now i (us_id u) (digest (dr_token dr)) ttl" ?db1]
      by (simp add: reset_issue_def)
  qed
  then show ?thesis using assms(2) f by (cases found) (fastforce simp: request_password_reset_def Let_def)+
qed

lemma registration_answer:
  assumes "in_service aw dr db"
  shows "fst (register ap (aw_default_role aw) ttl now (dr_id dr) v (dr_token dr) email password db) =
    rbind (Email email) (\<lambda>_. rbind (rbind (hash_password (ap_hashpw ap) password) PasswordHash) (\<lambda>_. Inr ()))"
proof (cases "Email email")
  case (Inl e)
  then show ?thesis by (simp add: register_def)
next
  case e: (Inr e)
  show ?thesis
  proof (cases "rbind (hash_password (ap_hashpw ap) password) PasswordHash")
    case (Inl x)
    then show ?thesis using e by (simp add: register_def)
  next
    case h: (Inr h)
    have list: "list_all readable (db_users db)" using assms by (simp add: in_service_def)
    obtain found where f: "find_user_by_email e db = Inr found" unfolding find_user_by_email_def by (rule readable_found [OF list])
    obtain r where role: "get_role_by_name (aw_default_role aw) db = Some r" "rl_name r \<noteq> GUEST_ROLE_NAME"
      using assms by (auto simp: in_service_def split: option.splits)
    have new: "dr_id dr \<notin> ur_id ` set (db_users db)" "digest (dr_token dr) \<notin> ot_token_hash ` set (db_verifications db)"
      using assms by (simp_all add: in_service_def)
    show ?thesis
    proof (cases found)
      case None
      then show ?thesis using register_free [OF e h f [unfolded None] role new] e h by simp
    next
      case (Some u)
      then show ?thesis using register_taken [OF e h f [unfolded Some]] e h by simp
    qed
  qed
qed

text \<open>The answers without the accounts.\<close>

lemma register_view_answer:
  assumes "in_service aw dr (at_db st)"
  shows "fst (register_view aw now dr b st) =
    (case read_credentials b of Inl e \<Rightarrow> Inl e | Inr (email, password) \<Rightarrow>
      (case rbind (Email email) (\<lambda>_. rbind (rbind (hash_password (ap_hashpw (aw_ports aw)) password) PasswordHash) (\<lambda>_. Inr ())) of
         Inl (Domain d) \<Rightarrow> if is_validation_error d then Inl (Raised (Domain d)) else Inr (error_response (err_code d) (client_message d) 400)
       | Inl e \<Rightarrow> Inl (Raised e)
       | Inr _ \<Rightarrow> Inr (message_answer REGISTERED_OR_NOT 202)))"
  unfolding register_view_def using registration_answer [OF assms] by (simp add: case_prod_beta split: sum.split)

definition asked_address :: "request_body \<Rightarrow> (web_error, string) result" where
  "asked_address b = rbind (strict_body EmailRequest b) (\<lambda>body. required (body ''email'') ''Email is required'' (Some ''email''))"

lemma resend_view_answer:
  assumes st: "in_service aw dr (at_db st)"
  shows "fst (resend_verification_view aw now dr b st) =
    rbind (asked_address b) (\<lambda>email. case Email email of Inl e \<Rightarrow> Inl (Raised e) | Inr _ \<Rightarrow> Inr (message_answer NEEDS_CONFIRMING_OR_NOT 202))"
proof (cases "asked_address b")
  case (Inr email)
  show ?thesis
  proof (cases "Email email")
    case (Inl e)
    then show ?thesis using Inr by (simp add: resend_verification_view_def asked_address_def resend_verification_def)
  next
    case e: (Inr e)
    have "\<exists>x. resend_verification (aw_accepts aw) (aw_verification_hours aw) now (dr_id dr) (dr_token dr) email (at_db st) = Inr x"
      by (rule resend_is_answered [OF st e])
    then show ?thesis using Inr e by (auto simp: resend_verification_view_def asked_address_def case_prod_beta)
  qed
qed (simp add: resend_verification_view_def asked_address_def)

lemma forgot_view_answer:
  assumes st: "in_service aw dr (at_db st)"
  shows "fst (forgot_password_view aw now dr b st) =
    rbind (asked_address b) (\<lambda>email. case Email email of Inl e \<Rightarrow> Inl (Raised e) | Inr _ \<Rightarrow> Inr (message_answer HAS_ACCOUNT_OR_NOT 202))"
proof (cases "asked_address b")
  case (Inr email)
  show ?thesis
  proof (cases "Email email")
    case (Inl e)
    then show ?thesis using Inr by (simp add: forgot_password_view_def asked_address_def request_password_reset_def)
  next
    case e: (Inr e)
    have "\<exists>x. request_password_reset (aw_accepts aw) (aw_reset_minutes aw) now (dr_id dr) (dr_token dr) email (at_db st) = Inr x"
      by (rule reset_request_is_answered [OF st e])
    then show ?thesis using Inr e by (auto simp: forgot_password_view_def asked_address_def case_prod_beta)
  qed
qed (simp add: forgot_password_view_def asked_address_def)

lemma refused_login:
  "(case INVALID_CREDENTIALS of Domain d \<Rightarrow> if is_validation_error d then Inl (Raised (Domain d)) else Inr (error_response (err_code d) (client_message d) 401)
    | e \<Rightarrow> Inl (Raised e)) = Inr (error_response ''INVALID_CREDENTIALS'' ''Invalid email or password'' 401)"
  by (simp add: INVALID_CREDENTIALS_def error_defs is_validation_error_def client_message_def status_for_def STATUS_BY_CODE_def)

lemma login_is_answered:
  assumes st: "in_service aw dr (at_db st)" and b: "read_credentials b = Inr (email, password)" and e: "Email email = Inr e"
  shows "fst (login_view aw now dr b st) = Inr (error_response ''INVALID_CREDENTIALS'' ''Invalid email or password'' 401) \<or>
    (\<exists>a u. fst (login_view aw now dr b st) = Inr a \<and> aa_status a = 200 \<and> find_user_by_email e (at_db st) = Inr (Some u) \<and> may_enter (aw_ports aw) password (Some u))"
proof -
  have list: "list_all readable (db_users (at_db st))" and new: "dr_token_id dr \<notin> rs_token_id ` set (db_sessions (at_db st))"
    using st by (simp_all add: in_service_def)
  let ?run = "login (aw_limiter aw) (aw_budget aw) (aw_ports aw) (aw_auth aw) now (dr_id dr) (dr_token_id dr) email password (at_limiter st) (at_db st)"
  obtain found where f: "find_user_by_email e (at_db st) = Inr found" unfolding find_user_by_email_def by (rule readable_found [OF list])
  obtain r lim db evs where run: "?run = (r, lim, db, evs)" by (metis surj_pair)
  show ?thesis
  proof (cases "fst (budget_spent (aw_limiter aw) (aw_budget aw) now email (at_limiter st)) \<or> \<not> may_enter (aw_ports aw) password found")
    case True
    then have "r = Inl INVALID_CREDENTIALS" using login_refuses [OF e f _ run] by simp
    then show ?thesis using b run refused_login by (simp add: login_view_def)
  next
    case False
    then obtain u where u: "found = Some u" by (cases found) (auto simp: may_enter_def)
    obtain lr where "?run = (Inr lr, lim, db, evs)"
      using login_admits [OF e f [unfolded u] _ _ new] False u run by (metis prod.inject)
    then show ?thesis using b f u False by (simp add: login_view_def)
  qed
qed

section \<open>Properties\<close>


text \<open>
  C23. A browser after signing out. When the service answered a request to sign out, the browser
  keeps none of the three cookies, and the login that the request named, by its refresh token
  or else by its access token, is over for good: whatever happens next, no copy of a token of
  it signs a request in.
\<close>

theorem sign_out_leaves_no_credential:
  assumes served: "serve_auth aw now dr rq token_arg user_agent b st = (Answered a, st1)" "aa_status a = 200" "endpoint_text rq = ''auth.logout''"
    and reach: "session_reachable (aw_auth aw) (at_db st, used)"
    and later: "session_run (aw_auth aw) (at_db st1, used) (db2, used2)"
  shows "(\<forall>n jar. \<forall>name \<in> {''access_token'', ''refresh_token'', CSRF_COOKIE_NAME}. sends n (keep_cookies now a jar) name = None) \<and>
    (\<exists>who lim token. before_request (aw_declared aw) (aw_check aw) (aw_auth aw) (aw_web aw) (aw_origins aw) now rq (at_db st) (at_limiter st) = (Admitted who, lim) \<and>
       read_refresh_token rq b = Inr token \<and>
       (\<forall>c. names_login (aw_auth aw) now token who (at_db st) c \<longrightarrow> (\<forall>n rq' si. load_current_user (aw_auth aw) n rq' db2 = Inr (Some si) \<longrightarrow> si_session_id si \<noteq> c)))"
proof -
  let ?ac = "aw_auth aw"
  have ok: "aa_status a < 400" using served(2) by simp
  obtain who lim view a0 where v:
    "before_request (aw_declared aw) (aw_check aw) ?ac (aw_web aw) (aw_origins aw) now rq (at_db st) (at_limiter st) = (Admitted who, lim)"
    "auth_view aw now dr (endpoint_text rq) rq token_arg user_agent who b = Some view"
    "view (st\<lparr>at_limiter := lim\<rparr>) = (Inr a0, st1)" "a = after_request aw now (dr_nonce dr) rq a0"
    by (rule successful_answer [OF served(1) ok])
  let ?cx = "create_request_context (aw_web aw) rq user_agent who"
  have run: "logout_view aw now rq ?cx who b (st\<lparr>at_limiter := lim\<rparr>) = (Inr a0, st1)" using v(2,3) by (simp add: auth_view_def served(3))
  obtain token where token: "read_refresh_token rq b = Inr token" using run by (cases "read_refresh_token rq b") (auto simp: logout_view_def)
  have a0: "aa_cookies a0 = cleared_cookies" and db1: "at_db st1 = fst (snd (sign_out ?ac now ?cx token (map_option si_session_id who) (at_db st)))"
    using run by (auto simp: logout_view_def token split: prod.splits)
  have "a = a0" unfolding v(4) by (rule after_request_decided) (simp add: a0 cleared_cookies_def)
  then have gone: "sends n (keep_cookies now a jar) name = None" if "name \<in> {''access_token'', ''refresh_token'', CSRF_COOKIE_NAME}" for n jar name
    using that by (elim insertE emptyE) (simp_all add: keep_cookies_def a0 cleared_cookies_def sends_def CSRF_COOKIE_NAME_def)
  have ended: "si_session_id si \<noteq> c" if named: "names_login ?ac now token who (at_db st) c" and si: "load_current_user ?ac n rq' db2 = Inr (Some si)" for c n rq' si
  proof
    assume c: "si_session_id si = c"
    have rows: "db_sessions (at_db st1) = revoke_rows now (\<lambda>r. rs_chain_id r = c) (db_sessions (at_db st))"
      unfolding db1 by (rule named_login_is_revoked [OF named])
    have okay: "sessions_ok used (db_sessions (at_db st))" by (rule session_reachable_ok [OF reach])
    have used: "c \<in> used" by (rule named_login_is_used [OF named okay admitted_steps(2) [OF v(1)]])
    have "chain_dead c (db_sessions (at_db st1))" unfolding rows by (rule revoked_chain_is_dead)
    moreover have "sessions_ok used (db_sessions (at_db st1))" unfolding rows by (rule sessions_ok_revoke [OF okay])
    ultimately have "chain_dead c (db_sessions db2)" using dead.along [OF later, of c] used by simp
    then show False using dead_chain_not_live load_current_user_live [OF si] c by blast
  qed
  show ?thesis
    by (intro conjI allI ballI impI exI [of _ who] exI [of _ lim] exI [of _ token]) (fact gone v(1) token | rule ended, assumption+)+
qed


section \<open>Witnesses\<close>

definition site_aw :: "auth_config \<Rightarrow> memory_limiter auth_web" where
  "site_aw ac =
     \<lparr>aw_limiter = memory_limiter_ops, aw_check = ml_check, aw_budget = sample_budget, aw_ports = sample_ap, aw_auth = ac, aw_web = sample_wc,
      aw_origins = [''https://ls.example''], aw_declared = (\<lambda>_. None), aw_default_role = ''user'', aw_verification_hours = 24, aw_reset_minutes = 60,
      aw_accepts = (\<lambda>_. True), aw_cookie_secure = True, aw_access_minutes = 15, aw_refresh_days = 7\<rparr>"

definition site_ac :: auth_config where
  "site_ac = \<lparr>ac_encode = sample_encode, ac_decode = sample_decode, ac_access_expire = 15 * 60 * second, ac_refresh_expire = 7 * 86400 * second\<rparr>"

definition site_draws :: auth_draws where
  "site_draws = \<lparr>dr_id = ''s1'', dr_token_id = ''t1'', dr_token = ''tok'', dr_nonce = ''n0nce''\<rparr>"

definition site_state :: "database \<Rightarrow> memory_limiter auth_state" where
  "site_state db = \<lparr>at_limiter = (\<lambda>_. []), at_db = db, at_mails = [], at_audit = []\<rparr>"

text \<open>A request of a page of the service, before the browser adds its cookies.\<close>

definition page_post :: "string \<Rightarrow> string \<Rightarrow> web_request" where
  "page_post path endpoint =
     \<lparr>hr_path = path, hr_authorization = None, hr_access_cookie = None, hr_endpoint = Some endpoint, hr_has_rule = True,
      wr_method = ''POST'', wr_host = ''ls.example'', wr_remote_addr = Some ''203.0.113.7'', wr_origin = Some ''https://ls.example'', wr_referer = None,
      wr_csrf_header = None, wr_forwarded_for = None, wr_refresh_cookie = None, wr_csrf_cookie = None, wr_rule = path, wr_args = []\<rparr>"

abbreviation login_post :: web_request where
  "login_post \<equiv> page_post ''/api/v1/auth/login'' ''auth.login''"

definition root_credentials :: request_body where
  "root_credentials = Decoded (BObject [(''email'', BText ''root@example.org''), (''password'', BText ''correct horse'')])"

lemma site_calm: "fst (check_rate_limit ml_check sample_wc n rq who (\<lambda>_. []))"
  by (simp add: check_rate_limit_def limit_for_def sample_wc_def ml_check_def ml_is_allowed_def split: option.splits)

lemma site_origin: "origin_is_allowed [''https://ls.example''] (rq\<lparr>wr_origin := Some ''https://ls.example''\<rparr>) = Inr True"
proof -
  have "rstrip_char (CHR ''/'') ''https://ls.example'' = ''https://ls.example''" by code_simp
  then show ?thesis by (simp add: origin_is_allowed_def truthy_def)
qed

lemma root_reads: "read_credentials root_credentials = Inr (''root@example.org'', ''correct horse'')"
  by code_simp

lemma site_signs_in:
  obtains a st1 where "serve_auth (site_aw site_ac) 0 site_draws login_post None None root_credentials (site_state sample_db) = (Answered a, st1)" "aa_status a = 200"
proof -
  let ?aw = "site_aw site_ac" and ?st = "site_state sample_db"
  have csrf: "enforce_csrf site_ac sample_wc [''https://ls.example''] 0 login_post None = Inr True"
    by (simp add: enforce_csrf_def is_cookie_authenticated_def has_auth_cookie_def page_post_def truthy_def COOKIE_AUTHORITY_ENDPOINTS_def)
  have who: "load_current_user site_ac 0 (http_request.truncate login_post) sample_db = Inr None"
    by (simp add: load_current_user_def presented_token_def page_post_def http_request.truncate_def truthy_def)
  have host: "host_is_allowed sample_wc login_post" by (simp add: host_is_allowed_def normalise_all_def sample_wc_def)
  have query: "refuse_undeclared_query_parameters (\<lambda>_. None) login_post = Inr ()" by (simp add: refuse_undeclared_query_parameters_def)
  have "fst (check_rate_limit ml_check sample_wc 0 login_post None (\<lambda>_. []))" by (rule site_calm)
  from gate_admits [OF host who this csrf query] obtain lim
    where gate: "before_request (\<lambda>_. None) ml_check site_ac sample_wc [''https://ls.example''] 0 login_post sample_db (\<lambda>_. []) = (Admitted None, lim)" by blast
  have lim: "lim (failure_key email) = []" for email
    using admitted_steps(3) [OF gate]
    by (auto simp: check_rate_limit_def limit_for_def sample_wc_def ml_check_def ml_is_allowed_def limiter_key_def get_client_ip_def page_post_def endpoint_text_def
        failure_key_def split: if_splits)
  have budget: "\<not> fst (budget_spent memory_limiter_ops sample_budget 0 ''root@example.org'' lim)"
    by (simp add: memory_budget_spent sample_budget_def lim)
  have enter: "may_enter sample_ap ''correct horse'' (Some sample_root)"
    by (simp add: may_enter_def verify_password_def sample_ap_def sample_root_def)
  have fresh: "''t1'' \<notin> rs_token_id ` set (db_sessions sample_db)" by (simp add: sample_db_def)
  obtain lr st' db' evs where l: "login memory_limiter_ops sample_budget sample_ap site_ac 0 ''s1'' ''t1'' ''root@example.org'' ''correct horse'' lim sample_db
      = (Inr lr, st', db', evs)" by (rule login_admits [OF sample_reads(1,3) budget enter fresh]) blast
  let ?a = "\<lparr>aa_status = 200, aa_body = TokenPairResponse (lr_access_token lr) (lr_refresh_token lr) (from_dto (lr_user lr)),
      aa_cookies = token_cookies ?aw (lr_access_token lr) (lr_refresh_token lr) @
        [csrf_cookie ?aw (build_csrf_token (wc_secret_key sample_wc) (ux_id (lr_user lr)) ''n0nce'' 0)]\<rparr>"
  have "endpoint_text login_post = ''auth.login''" by (simp add: endpoint_text_def page_post_def)
  moreover have "after_request ?aw 0 ''n0nce'' login_post ?a = ?a" by (rule after_request_decided) (simp add: csrf_cookie_def)
  ultimately have "fst (serve_auth ?aw 0 site_draws login_post None None root_credentials ?st) = Answered ?a"
    using gate l root_reads by (simp add: serve_auth_def auth_view_def login_view_def site_aw_def site_draws_def site_state_def)
  then show thesis using that by (metis auth_answer.select_convs(1) prod.collapse)
qed


theorem sign_out_leaves_no_credential_witness:
  "\<exists>a st1. serve_auth (site_aw sample_ac) 0 site_draws sample_logout None None NotOffered (site_state sample_signed_in) = (Answered a, st1) \<and>
     (\<forall>n rq' si. load_current_user sample_ac n rq' (at_db st1) = Inr (Some si) \<longrightarrow> si_session_id si \<noteq> ''t1'')"
proof -
  let ?aw = "site_aw sample_ac" and ?st = "site_state sample_signed_in"
  have none: "load_current_user sample_ac 0 (http_request.truncate sample_logout) db = Inr None" for db
    by (simp add: load_current_user_def presented_token_def sample_logout_def http_request.truncate_def truthy_def)
  have "before_request (\<lambda>_. None) ml_check sample_ac sample_wc [''https://ls.example''] 0 sample_logout sample_signed_in (\<lambda>_. []) =
      before_request (\<lambda>_. None) ml_check sample_ac sample_wc [''https://ls.example''] 0 sample_logout sample_db (\<lambda>_. [])"
    unfolding before_request_def none [of sample_signed_in] none [of sample_db] ..
  then obtain lim where gate: "before_request (\<lambda>_. None) ml_check sample_ac sample_wc [''https://ls.example''] 0 sample_logout sample_signed_in (\<lambda>_. []) = (Admitted None, lim)"
    using sample_logout_admitted by metis
  have ep: "endpoint_text sample_logout = ''auth.logout''" by (simp add: endpoint_text_def sample_logout_def)
  have ne: "sample_token ''t1'' \<noteq> []" by (simp add: sample_token_def sample_encode_def frame_def)
  have token: "read_refresh_token sample_logout NotOffered = Inr (Some (sample_token ''t1''))"
    using ne by (simp add: read_refresh_token_def sample_logout_def truthy_text)
  obtain a st1 where served: "serve_auth ?aw 0 site_draws sample_logout None None NotOffered ?st = (Answered a, st1)" "aa_status a = 200"
  proof -
    let ?r = "serve_auth ?aw 0 site_draws sample_logout None None NotOffered ?st"
    have "\<exists>a st1. ?r = (Answered (after_request ?aw 0 (dr_nonce site_draws) sample_logout a), st1) \<and> aa_status a = 200"
      using gate token ep by (auto simp: serve_auth_def auth_view_def logout_view_def site_aw_def site_state_def split: prod.splits)
    then show thesis using that by (metis after_request_keeps(1))
  qed
  have names: "names_login sample_ac 0 (Some (sample_token ''t1'')) who sample_signed_in ''t1''" for who
    using ne by (simp add: names_login_def sample_validate [of 0] second_def find_by_token_id_def sample_signed_in)
  have reach: "session_reachable (aw_auth ?aw) (at_db ?st, {[], ''s1'', ''t1''})" using sample_reach(2) by (simp add: site_aw_def site_state_def)
  from sign_out_leaves_no_credential [OF served ep reach session_run.idle] token names served(1)
  show ?thesis by (auto simp: site_aw_def site_state_def)
qed

definition root_asks :: request_body where
  "root_asks = Decoded (BObject [(''email'', BText ''root@example.org'')])"


end
