(* ===== verification/Spec2Isabelle.thy ===== *)
theory Spec2Isabelle
  imports Visitors Redis_Cache Security_Events Health Role_Seed Journals Mail_Queue Auth_Web
begin

text \<open>
  A verification development of the link shortener. Paths are below
  \<^verbatim>\<open>src/src/link_shortener\<close>.

  \<^bold>\<open>The program.\<close> Visitors and signed-in users turn URLs into short codes; following a code
  redirects to the URL. The domain layer (\<^verbatim>\<open>domain\<close>) holds value objects, entities and
  policies; the application layer (\<^verbatim>\<open>application\<close>) holds the use cases, which open a unit
  of work on the repositories and talk to ports for the cache, the code generator, the
  hash and the audit journal; the infrastructure layer (\<^verbatim>\<open>infrastructure\<close>) implements the
  ports. Accounts have roles, roles have permissions, and administrators manage both.

  \<^bold>\<open>Conventions.\<close> A moment is an integer number of microseconds. A Python exception is a
  value: an operation that may raise returns a sum, and the class, code, message and
  parameters of the exception are fields of a record. A table is the list of its rows; a
  transaction takes the database and returns it, and an exception inside it returns the
  database unchanged. What the clock reads and what \<^verbatim>\<open>uuid4\<close> draws are arguments. Strings are
  lists of characters of the first 256 code points.

  \<^bold>\<open>Theories.\<close>
  \<^item> Prelude: results, Python string methods, dictionaries, and the collections of
    simplification rules the proofs use.
  \<^item> Domain_Errors: \<^verbatim>\<open>domain/exceptions.py\<close>.
  \<^item> Value_Objects: \<^verbatim>\<open>domain/value_objects\<close> (codes, hashes, owners, addresses of mail,
    deduplication scopes), \<^verbatim>\<open>domain/policies\<close> for passwords, reserved codes, role names and
    the guest quota, and the builders of cache keys and short URLs.
  \<^item> Ip_Address, Original_Url: the admission of URLs, \<^verbatim>\<open>domain/value_objects/original_url.py\<close>,
    on models of what it uses of \<^verbatim>\<open>ipaddress\<close> and \<^verbatim>\<open>urllib.parse\<close>. The \<^verbatim>\<open>idna\<close> package is not
    part of the sources: its encoder is a parameter, about which nothing is assumed.
  \<^item> Sha256, Code_Policies: \<^verbatim>\<open>domain/policies/code_generator.py\<close> and the two implementations
    in \<^verbatim>\<open>infrastructure/policies\<close>, with SHA-256 computed on 32-bit words. The locale
    \<open>code_generator\<close> states what the port promises; the base-64 generator is shown to give it
    for every admissible setting.
  \<^item> Links: the link entity and \<^verbatim>\<open>SQLAlchemyLinkRepository\<close>.
  \<^item> Cache: the cache ports, the cache in memory and the one that stores nothing. The locale
    \<open>link_cache\<close> states what the use cases may rely on: every answer stems from something
    that was saved and not deleted since. Both caches are interpretations of it.
  \<^item> Link_Service: the use cases on links. Link_Invariants: inside \<open>link_cache\<close>, that each of
    them keeps the cache coherent with the table and changes the table in one of four ways.
  \<^item> Batch, Batch_Invariants: the same for the creation of many links in one request.
  \<^item> Link_Runs: the service as a state machine whose steps are whole requests and sweeps, in
    any order and by anybody, and the properties that hold in every state it can reach.
  \<^item> Visitors: \<^verbatim>\<open>domain/value_objects/visitor.py\<close>, what is kept of a visitor.
  \<^item> Database: the entities of accounts, sessions, tokens and visits and their rows.
  \<^item> Accounts: the repositories of accounts, roles and permissions, the privilege policy, the
    RBAC decision and the privilege guard. Administration: the services and the
    administrative use cases, a step relation over them, and what every run of them keeps.
  \<^item> Rate_Limit: \<^verbatim>\<open>infrastructure/rate_limit\<close>. The locale \<open>sliding_window\<close> states what a client of
    the port relies on; the limiter in memory and the one on Redis, with its Lua script, its
    circuit breaker and a model of sorted sets with expiry, are interpretations of it.
  \<^item> Sessions: the refresh sessions and tokens (\<^verbatim>\<open>infrastructure/auth/jwt_auth_service.py\<close> and
    its repository), the use cases \<^verbatim>\<open>refresh_session\<close> and \<^verbatim>\<open>sign_out\<close>, and the middleware that
    reads who is asking. The relation \<open>chain_step\<close> is the specification of what may happen to
    the rows of logins; every transaction refines it. Session_Runs: what holds along every
    history. PyJWT is a pair of parameters with named hypotheses, and a concrete pair of
    functions shows that they can hold.
  \<^item> Sign_In: the repositories of one-time tokens, passwords, and the use cases of
    \<^verbatim>\<open>application/use_cases/auth\<close>. The locale \<open>one_time_tokens\<close> states what a claim does; both
    repositories are interpretations of it. Sign_In_Runs: histories of these use cases.
  \<^item> Redis_Cache: the cache on Redis (\<^verbatim>\<open>infrastructure/cache/redis_cache.py\<close>, \<^verbatim>\<open>signing.py\<close>) as
    histories of a server that others can write to. The signer of \<^verbatim>\<open>itsdangerous\<close> is a
    parameter with named hypotheses; a JSON text is represented by its value.
  \<^item> Day_Fold: days, groups, and the locale \<open>day_fold\<close>, which states what a table promises whose
    rows are folded per key and day and then swept. Visit_Stats: the repository of visits, the
    charts and the roll-up; Security_Events: the counter of audit events, its charts and its
    roll-up. Both repositories are interpretations of the locale, and both have a relation of
    histories, along which the tables go on telling everything that was recorded.
  \<^item> Web_Guards: what a request passes before a handler sees it (\<^verbatim>\<open>web/middleware\<close>, composed in
    the order of \<^verbatim>\<open>web/app_factory.py\<close>): the host, the account, the rate limit by the address of
    the client, the token against forged writes with its HMAC computed from SHA-256, the query
    parameters; and how an exception is answered.
  \<^item> Failover: the chain of services behind a log (\<^verbatim>\<open>infrastructure/failover\<close>) with its counters,
    whose calls and background rounds are atomic steps interleaved in any order, and the
    managers that build the chains and merge the fields of a record
    (\<^verbatim>\<open>infrastructure/logging/managers\<close>).
  \<^item> Health: the checks of \<^verbatim>\<open>infrastructure/health\<close> under one budget of time, the cached snapshot and
    the verdict.
  \<^item> Role_Seed: \<^verbatim>\<open>infrastructure/database/role_loader.py\<close> and \<^verbatim>\<open>seed.py\<close>, and the command that loads
    a file of roles.
  \<^item> Journals: \<^verbatim>\<open>infrastructure/logging/journal_reader.py\<close> and the use case that reads a journal. What
    \<^verbatim>\<open>gzip\<close> unpacks and what \<^verbatim>\<open>json.loads\<close> answers are arguments.
  \<^item> Environment, Configuration, Migration_Url: \<^verbatim>\<open>infrastructure/configs/app\<close>. How a variable is
    read and the \<^verbatim>\<open>.env\<close> files are published, every setting of every profile with what is asked
    of it, and which database a migration opens. SQLAlchemy, Babel and \<^verbatim>\<open>python-dotenv\<close> are
    arguments, about which nothing is assumed. Wiring: what \<^verbatim>\<open>infrastructure/di\<close> builds from a
    configuration, down to the premises of the theories above.
  \<^item> Mail_Queue: \<^verbatim>\<open>infrastructure/mail\<close>, \<^verbatim>\<open>infrastructure/task_queue\<close> and the use cases that send a
    message. The locale \<open>mail_handoff\<close> states what a queue promises about messages; the queue on
    a broker and the one that sends on the spot are interpretations of it. What a mail server
    answers, whether the broker takes a task and what Jinja renders are arguments.
  \<^item> Auth_Web: the endpoints of \<^verbatim>\<open>web/controllers/auth_controller.py\<close>: how a body is read, what each
    handler answers and which cookies it sets, and the whole way of a request through the gate,
    the handler and the hook after it, down to a browser that keeps its cookies.

  \<^bold>\<open>What is shown.\<close> Following a link through the cache refines following it in the store;
  creation answers with a live link of the requester, is idempotent, respects the quota
  and the lifetime of guests, and keeps codes unique; a deleted link is gone and only those
  with the permission delete; a batch answers every URL once and its collision loop ends.
  An admitted URL is well formed, readable for ever, and never names an internal address in
  whatever spelling. Administrators never run out, and no group of actors can confer what
  none of them holds. A login has one good refresh token, a token is exchanged once, a replay
  or a sign-out ends a login for good, and until then its tokens work. A limiter never lets
  more requests pass in a window than its limit, on Redis as in memory, and guesses of a
  password are bounded the same way. A login is refused in one way whatever the reason,
  registration tells nobody who has an account, a mailed link works once, and a new password
  ends what the old one held. Whoever can write to the Redis server cannot choose where a
  link leads, and what the service saved there it reads back. The charts of visits and of
  security events show the history, however much of it was folded and swept. A forged write
  does not pass the gate, and no header talks a caller around the rate limit. A record that the
  chain of logs gives up within a cooldown has been offered to the last service; a health probe
  keeps its budget, and its verdict agrees with the states it reports. Seeding takes nothing
  from a role that exists, and loading a file of roles again changes nothing. A page of a
  journal is the end of what the journal holds. A setting has one source, in the documented
  order, however the process is started; a deployed profile does not come up on default
  secrets, another database than PostgreSQL or unencrypted mail; the service built from an
  accepted configuration meets the premises of the properties of links; and a migration has a
  target that somebody chose. Mail leaves a deployed service on an encrypted connection or not
  at all, and a broker that is down is tried once per interval. A browser that signed in
  can write until its tokens expire, one that signed out keeps nothing that works, and the
  answers of the endpoints do not depend on who has an account.

  \<^bold>\<open>Loops.\<close> The collision loop of a batch, the chunked deletions, the walk along a chain of
  services and the reading of a file from its end are functions with a termination measure; the attempts of the other loops are lists of attempt numbers as long
  as the configured bound. Nothing runs on fuel.

  \<^bold>\<open>Not modelled.\<close> The other controllers and their schemas, templates and translations, the command line apart
  from the loading of roles, the accessors of the container, the handlers that write a record
  to a file are input and output through frameworks; the use cases they call are modelled.
  A request is one step: the
  interleaving of two transactions on one row, which the database orders by locks, appears
  as the order of the steps, and the conflict that a concurrent insertion causes is an
  outcome the retry loops are modelled with.
\<close>

end
